(* ===== verification/Prelude.thy ===== *)
theory Prelude
  imports Complex_Main "HOL-Library.Word" "HOL-Library.Sublist"
begin

unbundle bit_operations_syntax

section \<open>Shared vocabulary of the development\<close>

text \<open>
  The types the components share, the result and state-passing conventions, the integer
  codecs Python's \<open>int.to_bytes\<close>, \<open>int.from_bytes\<close> and \<open>struct.pack("<I", n)\<close> stand for, and
  the generic lemmas and interfaces the component proofs rest on.

  Conventions.
  \<^item> A Python \<open>bytes\<close> value is a list of 8-bit words.
  \<^item> A Python \<open>float\<close> that carries a time in seconds is a rational number: every finite float
    is one, and the additions and comparisons of the source are taken exactly (rounding, NaN
    and infinities are outside the model).
  \<^item> An exception is the left injection of a sum, named after the \<open>raise\<close> it stands for.
  \<^item> A method of a mutable object takes the object's record and returns its outcome together
    with the new record, also when it raises: Python keeps the mutations made before a raise.
\<close>

type_synonym byte = "8 word"
type_synonym bytes = "byte list"
type_synonym seconds = rat
type_synonym ('e, 'a) result = "'e + 'a"
type_synonym ('s, 'e, 'a) action = "'s \<Rightarrow> ('e, 'a) result \<times> 's"

named_theorems ax25_defs \<open>definitions of the AX.25 codec\<close>
named_theorems hdlc_defs \<open>definitions of the HDLC and Bell-202 bit layer\<close>
named_theorems kiss_defs \<open>definitions of the KISS framing and control plane\<close>
named_theorems host_defs \<open>definitions of the MMDVM host protocol\<close>
named_theorems access_defs \<open>definitions of the channel-access state machines\<close>
named_theorems queue_defs \<open>definitions of the admission queues\<close>
named_theorems tx_defs \<open>definitions of the transmit path\<close>

subsection \<open>Results\<close>

definition try_bind :: "('e, 'a) result \<Rightarrow> ('a \<Rightarrow> ('e, 'b) result) \<Rightarrow> ('e, 'b) result" where
  "try_bind m f = (case m of Inl e \<Rightarrow> Inl e | Inr x \<Rightarrow> f x)"

lemma try_bind_simps [simp]:
  "try_bind (Inl e) f = Inl e"
  "try_bind (Inr x) f = f x"
  by (simp_all add: try_bind_def)

lemma try_bind_Inr_iff:
  "try_bind m f = Inr y \<longleftrightarrow> (\<exists>x. m = Inr x \<and> f x = Inr y)"
  by (cases m) auto

lemma try_bind_Inl_iff:
  "try_bind m f = Inl e \<longleftrightarrow> m = Inl e \<or> (\<exists>x. m = Inr x \<and> f x = Inl e)"
  by (cases m) auto

text \<open>Reading an evaluated outcome back as an equation.\<close>

lemma outcome_Some: "(case x of None \<Rightarrow> False | Some y \<Rightarrow> P y) \<Longrightarrow> \<exists>y. x = Some y \<and> P y"
  by (cases x) simp_all

lemma outcome_Inr:
  "(case fst r of Inl _ \<Rightarrow> False | Inr a \<Rightarrow> P a) \<Longrightarrow> \<exists>a w. r = (Inr a, w) \<and> P a"
  by (cases r) (simp split: sum.splits)

lemma outcome_Some_Inr:
  "(case r of Some (Inr _, _, _) \<Rightarrow> True | _ \<Rightarrow> False) \<Longrightarrow> \<exists>x s w. r = Some (Inr x, s, w)"
  by (auto split: option.splits sum.splits) (metis sum.exhaust)

subsection \<open>Little-endian integers\<close>

text \<open>\<open>n.to_bytes(k, "little")\<close> and \<open>int.from_bytes(b, "little")\<close>.\<close>

fun to_bytes_le :: "nat \<Rightarrow> int \<Rightarrow> bytes" where
  "to_bytes_le 0 v = []"
| "to_bytes_le (Suc k) v = word_of_int v # to_bytes_le k (v div 256)"

fun from_bytes_le :: "bytes \<Rightarrow> int" where
  "from_bytes_le [] = 0"
| "from_bytes_le (b # bs) = uint b + 256 * from_bytes_le bs"

lemma length_to_bytes_le [simp]: "length (to_bytes_le k v) = k"
  by (induction k arbitrary: v) auto

lemma uint_byte_bounds: "0 \<le> uint (b :: byte)" "uint (b :: byte) < 256"
  using uint_lt2p[of b] by auto

lemma unat_byte_less [simp]: "unat (b :: byte) < 256"
  using unsigned_less [of b] by simp

lemma from_bytes_le_nonneg [simp]: "0 \<le> from_bytes_le bs"
  by (induction bs) auto

lemma from_bytes_le_less: "from_bytes_le bs < 256 ^ length bs"
proof (induction bs)
  case Nil
  show ?case by simp
next
  case (Cons b bs)
  have "uint b < 256" by (rule uint_byte_bounds)
  moreover have "from_bytes_le bs \<le> 256 ^ length bs - 1" using Cons.IH by simp
  ultimately show ?case by (simp add: algebra_simps)
qed

lemma uint_word_of_int_byte: "uint (word_of_int v :: byte) = v mod 256"
  by (simp add: uint_word_of_int)

lemma byte_256 [simp]: "(256 :: byte) = 0"
  by (simp add: word_uint_eq_iff)

lemma from_to_bytes_le: "from_bytes_le (to_bytes_le k v) = v mod 256 ^ k"
proof (induction k arbitrary: v)
  case 0
  show ?case by simp
next
  case (Suc k)
  have "v mod 256 + 256 * (v div 256 mod 256 ^ k) = v mod (256 * 256 ^ k)"
    by (simp add: zmod_zmult2_eq)
  then show ?case by (simp add: Suc uint_word_of_int_byte)
qed

lemma from_to_bytes_le_id:
  "0 \<le> v \<Longrightarrow> v < 256 ^ k \<Longrightarrow> from_bytes_le (to_bytes_le k v) = v"
  by (simp add: from_to_bytes_le)

lemma to_from_bytes_le: "length bs = k \<Longrightarrow> to_bytes_le k (from_bytes_le bs) = bs"
proof (induction bs arbitrary: k)
  case Nil
  then show ?case by simp
next
  case (Cons b bs)
  then obtain j where k: "k = Suc j" and j: "length bs = j" by auto
  have div: "(uint b + 256 * from_bytes_le bs) div 256 = from_bytes_le bs"
    using uint_byte_bounds[of b] by simp
  have "(word_of_int (uint b + 256 * from_bytes_le bs) :: byte) = b"
    by simp
  then show ?case using Cons.IH[OF j] by (simp add: k div)
qed

subsection \<open>Words and lists\<close>

declare push_bit_Suc [simp del] drop_bit_Suc [simp del]

lemma and_one_neq_0_iff: "(x :: 'a::len word) AND 1 \<noteq> 0 \<longleftrightarrow> bit x 0"
  by (simp add: and_one_eq bit_0 odd_iff_mod_2_eq_one)

lemma word_xor_right_cancel [simp]: "(x :: 'a::len word) XOR b = y XOR b \<longleftrightarrow> x = y"
proof
  assume "x XOR b = y XOR b"
  then have "(x XOR b) XOR b = (y XOR b) XOR b" by simp
  then show "x = y" by (simp add: xor.assoc)
qed simp

lemma word_xor_eq_0_iff [simp]: "(x :: 'a::len word) XOR y = 0 \<longleftrightarrow> x = y"
  using word_xor_right_cancel [of x y y] by simp

lemma byte_eqI:
  fixes x y :: byte
  assumes "bit x 0 = bit y 0" "bit x 1 = bit y 1" "bit x 2 = bit y 2" "bit x 3 = bit y 3"
    "bit x 4 = bit y 4" "bit x 5 = bit y 5" "bit x 6 = bit y 6" "bit x 7 = bit y 7"
  shows "x = y"
proof (rule bit_word_eqI)
  fix n assume "n < LENGTH(8)"
  then consider "n = 0" | "n = 1" | "n = 2" | "n = 3" | "n = 4" | "n = 5" | "n = 6" | "n = 7"
    by fastforce
  then show "bit x n = bit y n" using assms by cases simp_all
qed

text \<open>Testing one bit of a byte with a mask, as \<open>b & 0x80\<close> does.\<close>

lemma and_mask_bit:
  fixes x :: byte
  shows "x AND 0x80 = 0 \<longleftrightarrow> \<not> bit x 7" "x AND 0x10 = 0 \<longleftrightarrow> \<not> bit x 4"
    "x AND 1 = 0 \<longleftrightarrow> \<not> bit x 0"
proof -
  show "x AND 0x80 = 0 \<longleftrightarrow> \<not> bit x 7"
  proof
    assume "x AND 0x80 = 0"
    then have "bit (x AND 0x80) 7 = bit (0 :: byte) 7" by simp
    then show "\<not> bit x 7" by (simp add: bit_simps)
  qed (intro byte_eqI; simp add: bit_simps)
  show "x AND 0x10 = 0 \<longleftrightarrow> \<not> bit x 4"
  proof
    assume "x AND 0x10 = 0"
    then have "bit (x AND 0x10) 4 = bit (0 :: byte) 4" by simp
    then show "\<not> bit x 4" by (simp add: bit_simps)
  qed (intro byte_eqI; simp add: bit_simps)
  show "x AND 1 = 0 \<longleftrightarrow> \<not> bit x 0" using and_one_neq_0_iff [of x] by blast
qed

lemma two_last:
  assumes "2 \<le> length f"
  obtains d a b where "f = d @ [a, b]"
proof -
  from assms obtain f' b where f: "f = f' @ [b]" by (cases f rule: rev_cases) auto
  with assms obtain d a where "f' = d @ [a]" by (cases f' rule: rev_cases) auto
  with f show thesis using that by simp
qed

subsection \<open>Interfaces\<close>

text \<open>
  A stream decoder takes whatever chunks a socket delivers. Its contract is that only the
  concatenation of the chunks matters; a server that reads 4096 octets at a time relies on it.
\<close>

fun feed_chunks :: "('s \<Rightarrow> 'b list \<Rightarrow> 's \<times> 'm list) \<Rightarrow> 's \<Rightarrow> 'b list list \<Rightarrow> 's \<times> 'm list" where
  "feed_chunks feed s [] = (s, [])"
| "feed_chunks feed s (c # cs) =
     (let (s1, out1) = feed s c; (s2, out2) = feed_chunks feed s1 cs in (s2, out1 @ out2))"

locale stream_decoder =
  fixes feed :: "'s \<Rightarrow> 'b list \<Rightarrow> 's \<times> 'm list"
  assumes feed_Nil: "feed s [] = (s, [])"
    and feed_append:
      "feed s (xs @ ys) = (let (s1, out1) = feed s xs; (s2, out2) = feed s1 ys in (s2, out1 @ out2))"
begin

lemma feed_chunks_concat: "feed_chunks feed s cs = feed s (concat cs)"
  by (induction cs arbitrary: s) (simp_all add: feed_Nil feed_append)

lemma chunking_irrelevant: "concat cs = concat ds \<Longrightarrow> feed_chunks feed s cs = feed_chunks feed s ds"
  by (simp add: feed_chunks_concat)

end

text \<open>
  A component whose operations are events applied one after another. What every event keeps, every
  sequence of events keeps; what every event can only add to, every sequence only adds to.
\<close>

fun run :: "('s \<Rightarrow> 'e \<Rightarrow> 's) \<Rightarrow> 's \<Rightarrow> 'e list \<Rightarrow> 's" where
  "run step s [] = s"
| "run step s (e # es) = run step (step s e) es"

lemma run_append: "run step s (xs @ ys) = run step (run step s xs) ys"
  by (induction xs arbitrary: s) simp_all

locale invariant_machine =
  fixes step :: "'s \<Rightarrow> 'e \<Rightarrow> 's"
    and inv :: "'s \<Rightarrow> bool"
  assumes step_inv: "inv s \<Longrightarrow> inv (step s e)"
begin

lemma run_inv: "inv s \<Longrightarrow> inv (run step s es)"
  by (induction es arbitrary: s) (auto intro: step_inv)

end

locale latched_machine =
  fixes step :: "'s \<Rightarrow> 'e \<Rightarrow> 's"
    and latched :: "'s \<Rightarrow> bool"
    and verdict :: "'s \<Rightarrow> 'v"
  assumes latch_step: "latched s \<Longrightarrow> latched (step s e) \<and> verdict (step s e) = verdict s"
begin

lemma latched_run: "latched s \<Longrightarrow> latched (run step s es) \<and> verdict (run step s es) = verdict s"
  by (induction es arbitrary: s) (auto simp: latch_step)

end

text \<open>
  A queue of numbered requests. Each step either leaves the queue alone, appends the next number,
  or removes the head; a step that hands a request downstream removes exactly that request. Then
  requests are handed downstream in the order of their numbers, each at most once, and only after
  they were admitted.
\<close>

fun run_out :: "('s \<Rightarrow> 'e \<Rightarrow> 's \<times> 'o list) \<Rightarrow> 's \<Rightarrow> 'e list \<Rightarrow> 's \<times> 'o list" where
  "run_out step s [] = (s, [])"
| "run_out step s (e # es) =
     (let (s1, out1) = step s e; (s2, out2) = run_out step s1 es in (s2, out1 @ out2))"

locale fifo_queue =
  fixes step :: "'s \<Rightarrow> 'e \<Rightarrow> 's \<times> int list"
    and pending :: "'s \<Rightarrow> int list"
    and next_id :: "'s \<Rightarrow> int"
  assumes fifo_step: "step s e = (s', out) \<Longrightarrow>
      out = [] \<and> pending s' = pending s \<and> next_id s' = next_id s \<or>
      out = [] \<and> pending s' = pending s @ [next_id s] \<and> next_id s' = next_id s + 1 \<or>
      next_id s' = next_id s \<and> (\<exists>x. pending s = x # pending s' \<and> (out = [] \<or> out = [x]))"
begin

definition numbered :: "'s \<Rightarrow> bool" where
  "numbered s \<longleftrightarrow> sorted_wrt (<) (pending s) \<and> (\<forall>x \<in> set (pending s). x < next_id s)"

lemma numbered_step: "numbered s \<Longrightarrow> step s e = (s', out) \<Longrightarrow> numbered s'"
  using fifo_step [of s e s' out] by (auto simp: numbered_def sorted_wrt_append) (meson less_imp_le)

lemma submissions_bounded:
  assumes "numbered s" "run_out step s es = (s', out)"
  shows "numbered s' \<and> sorted_wrt (<) out \<and>
    (\<forall>x \<in> set out. x < next_id s' \<and> (\<forall>y \<in> set (pending s'). x < y)) \<and>
    set out \<subseteq> set (pending s) \<union> {next_id s ..< next_id s'} \<and> next_id s \<le> next_id s' \<and>
    set (pending s') \<subseteq> set (pending s) \<union> {next_id s ..< next_id s'}"
  using assms
proof (induction es arbitrary: s out)
  case Nil
  then show ?case by simp
next
  case (Cons e es)
  obtain s1 out1 out2 where one: "step s e = (s1, out1)" and rest: "run_out step s1 es = (s', out2)"
    and out: "out = out1 @ out2"
    using Cons.prems(2) by (auto simp: Let_def split: prod.splits)
  have num: "numbered s1" using numbered_step Cons.prems(1) one by blast
  note IH = Cons.IH [OF num rest]
  from fifo_step [OF one] consider
      (idle) "out1 = []" "pending s1 = pending s" "next_id s1 = next_id s"
    | (admit) "out1 = []" "pending s1 = pending s @ [next_id s]" "next_id s1 = next_id s + 1"
    | (pop) x where "next_id s1 = next_id s" "pending s = x # pending s1" "out1 = [] \<or> out1 = [x]"
    by blast
  then show ?case
  proof cases
    case idle
    with IH out show ?thesis by simp
  next
    case admit
    with IH out show ?thesis by auto
  next
    case pop
    have "x < next_id s" "\<forall>y \<in> set (pending s1). x < y"
      using Cons.prems(1) pop by (auto simp: numbered_def)
    moreover have "set out2 \<union> set (pending s') \<subseteq> set (pending s1) \<union> {next_id s ..< next_id s'}"
      "next_id s \<le> next_id s'"
      using IH pop(1) by auto
    ultimately show ?thesis using IH pop out by fastforce
  qed
qed

lemma submitted_once: "numbered s \<Longrightarrow> run_out step s es = (s', out) \<Longrightarrow> sorted_wrt (<) out"
  using submissions_bounded by blast

end

text \<open>The books of a bounded queue: what was accepted is queued, or has ended in one of the counted
  ways.\<close>

locale accounted_queue =
  fixes step :: "'s \<Rightarrow> 'e \<Rightarrow> 's"
    and depth :: "'s \<Rightarrow> nat"
    and capacity :: "'s \<Rightarrow> int"
    and accepted :: "'s \<Rightarrow> nat"
    and ended :: "'s \<Rightarrow> nat"
  assumes capacity_step: "capacity (step s e) = capacity s"
    and depth_step: "int (depth s) \<le> capacity s \<Longrightarrow> int (depth (step s e)) \<le> capacity s"
    and books_step: "accepted s = depth s + ended s \<Longrightarrow> accepted (step s e) = depth (step s e) + ended (step s e)"
begin

definition balanced :: "'s \<Rightarrow> bool" where
  "balanced s \<longleftrightarrow> int (depth s) \<le> capacity s \<and> accepted s = depth s + ended s"

lemma balanced_run: "balanced s \<Longrightarrow> balanced (run step s es) \<and> capacity (run step s es) = capacity s"
proof (induction es arbitrary: s)
  case Nil
  then show ?case by simp
next
  case (Cons e es)
  then have "balanced (step s e)"
    by (simp add: balanced_def capacity_step depth_step books_step)
  with Cons.IH show ?case by (simp add: capacity_step)
qed

end

end
