(* ===== verification/Csma.thy ===== *)
theory Csma
  imports Prelude
begin

section \<open>The p-persistent channel-access policy\<close>

text \<open>
  \<open>src/src/ywd1278/tx/csma.py\<close>: one access attempt, \<open>PersistentCSMA\<close>. Time and the random octet are
  arguments, as in the source. The explanatory text of a decision is an enumeration here, one
  constructor per message of the source.
\<close>

subsection \<open>Model\<close>

datatype csma_error =
    PersistRange | SlotTimeRange | MaxWaitNotPositive | StartedAtNegative | NowNotMonotonic
  | RandomAfterTerminal | RandomAfterTimeout | RandomWhileBusy | RandomOnSlotStart
  | MissingSlotDeadline | RandomBeforeSlot | RandomRequired | RandomRange

datatype csma_state = WAIT_CLEAR | WAIT_SLOT | READY | TIMED_OUT

datatype csma_reason =
    AwaitingFirstObservation | WaitExpired | ChannelBusyWaiting | SlotStarted | WaitingForSlot
  | TrialPassed | TrialDeferred

definition DEFAULT_PERSIST :: int where "DEFAULT_PERSIST = 63"
definition DEFAULT_SLOT_TIME_10MS :: int where "DEFAULT_SLOT_TIME_10MS = 10"
definition DEFAULT_MAX_WAIT_SECONDS :: seconds where "DEFAULT_MAX_WAIT_SECONDS = 30"

record csma_parameters =
  cp_persist :: int
  cp_slot_time_10ms :: int
  cp_max_wait_seconds :: seconds

definition csma_parameters_new :: "int \<Rightarrow> int \<Rightarrow> seconds \<Rightarrow> (csma_error, csma_parameters) result" where
  "csma_parameters_new persist slot_time_10ms max_wait_seconds =
     (if \<not> (0 \<le> persist \<and> persist \<le> 255) then Inl PersistRange
      else if \<not> (1 \<le> slot_time_10ms \<and> slot_time_10ms \<le> 255) then Inl SlotTimeRange
      else if max_wait_seconds \<le> 0 then Inl MaxWaitNotPositive
      else Inr \<lparr>cp_persist = persist, cp_slot_time_10ms = slot_time_10ms,
        cp_max_wait_seconds = max_wait_seconds\<rparr>)"

definition slot_seconds :: "csma_parameters \<Rightarrow> seconds" where
  "slot_seconds p = of_int (cp_slot_time_10ms p) / 100"

definition persistence_probability :: "csma_parameters \<Rightarrow> rat" where
  "persistence_probability p = of_int (cp_persist p + 1) / 256"

record csma_decision =
  cd_state :: csma_state
  cd_channel_busy :: "bool option"
  cd_persistence_trials :: nat
  cd_busy_observations :: nat
  cd_next_slot_at :: "seconds option"
  cd_deadline_at :: seconds
  cd_random_byte :: "int option"
  cd_reason :: csma_reason

record csma =
  cs_parameters :: csma_parameters
  cs_started_at :: seconds
  cs_deadline_at :: seconds
  cs_next_slot_at :: "seconds option"
  cs_state :: csma_state
  cs_persistence_trials :: nat
  cs_busy_observations :: nat
  cs_last_now :: seconds
  cs_last_decision :: csma_decision

definition csma_init :: "seconds \<Rightarrow> csma_parameters \<Rightarrow> (csma_error, csma) result" where
  "csma_init started_at parameters =
     (if started_at < 0 then Inl StartedAtNegative
      else
        (let deadline = started_at + cp_max_wait_seconds parameters in
         Inr \<lparr>cs_parameters = parameters, cs_started_at = started_at, cs_deadline_at = deadline,
           cs_next_slot_at = None, cs_state = WAIT_CLEAR, cs_persistence_trials = 0,
           cs_busy_observations = 0, cs_last_now = started_at,
           cs_last_decision =
             \<lparr>cd_state = WAIT_CLEAR, cd_channel_busy = None, cd_persistence_trials = 0,
              cd_busy_observations = 0, cd_next_slot_at = None, cd_deadline_at = deadline,
              cd_random_byte = None, cd_reason = AwaitingFirstObservation\<rparr>\<rparr>))"

definition make_decision :: "csma \<Rightarrow> bool option \<Rightarrow> int option \<Rightarrow> csma_reason \<Rightarrow> csma_decision" where
  "make_decision s channel_busy random_byte reason =
     \<lparr>cd_state = cs_state s, cd_channel_busy = channel_busy,
      cd_persistence_trials = cs_persistence_trials s, cd_busy_observations = cs_busy_observations s,
      cd_next_slot_at = cs_next_slot_at s, cd_deadline_at = cs_deadline_at s,
      cd_random_byte = random_byte, cd_reason = reason\<rparr>"

text \<open>\<open>self._last_decision = self._make_decision(...); return self._last_decision\<close>.\<close>

definition csma_decide ::
  "csma \<Rightarrow> bool \<Rightarrow> int option \<Rightarrow> csma_reason \<Rightarrow> (csma_error, csma_decision) result \<times> csma" where
  "csma_decide s channel_busy random_byte reason =
     (let d = make_decision s (Some channel_busy) random_byte reason
      in (Inr d, s\<lparr>cs_last_decision := d\<rparr>))"

text \<open>The persistence trial at the end of a slot.\<close>

definition csma_trial :: "csma \<Rightarrow> seconds \<Rightarrow> int \<Rightarrow> (csma_error, csma_decision) result \<times> csma" where
  "csma_trial s now random_byte =
     (let s = s\<lparr>cs_persistence_trials := cs_persistence_trials s + 1\<rparr> in
      if random_byte \<le> cp_persist (cs_parameters s) then
        csma_decide (s\<lparr>cs_state := READY, cs_next_slot_at := None\<rparr>) False (Some random_byte) TrialPassed
      else
        csma_decide (s\<lparr>cs_next_slot_at := Some (now + slot_seconds (cs_parameters s))\<rparr>)
          False (Some random_byte) TrialDeferred)"

definition csma_observe ::
  "csma \<Rightarrow> seconds \<Rightarrow> bool \<Rightarrow> int option \<Rightarrow> (csma_error, csma_decision) result \<times> csma" where
  "csma_observe s now channel_busy random_byte =
     (if now < cs_last_now s then (Inl NowNotMonotonic, s)
      else
        (let s = s\<lparr>cs_last_now := now\<rparr> in
         if cs_state s = READY \<or> cs_state s = TIMED_OUT then
           (if random_byte \<noteq> None then (Inl RandomAfterTerminal, s) else (Inr (cs_last_decision s), s))
         else if now \<ge> cs_deadline_at s then
           (if random_byte \<noteq> None then (Inl RandomAfterTimeout, s)
            else csma_decide (s\<lparr>cs_state := TIMED_OUT, cs_next_slot_at := None\<rparr>)
              channel_busy None WaitExpired)
         else if channel_busy then
           (if random_byte \<noteq> None then (Inl RandomWhileBusy, s)
            else csma_decide
              (s\<lparr>cs_busy_observations := cs_busy_observations s + 1, cs_state := WAIT_CLEAR,
                 cs_next_slot_at := None\<rparr>) True None ChannelBusyWaiting)
         else if cs_state s = WAIT_CLEAR then
           (if random_byte \<noteq> None then (Inl RandomOnSlotStart, s)
            else csma_decide
              (s\<lparr>cs_state := WAIT_SLOT, cs_next_slot_at := Some (now + slot_seconds (cs_parameters s))\<rparr>)
              False None SlotStarted)
         else
           (case cs_next_slot_at s of
              None \<Rightarrow> (Inl MissingSlotDeadline, s)
            | Some next_slot \<Rightarrow>
                if now < next_slot then
                  (if random_byte \<noteq> None then (Inl RandomBeforeSlot, s)
                   else csma_decide s False None WaitingForSlot)
                else
                  (case random_byte of
                     None \<Rightarrow> (Inl RandomRequired, s)
                   | Some r \<Rightarrow>
                       if \<not> (0 \<le> r \<and> r \<le> 255) then (Inl RandomRange, s) else csma_trial s now r))))"

lemmas csma_observe_defs = csma_observe_def csma_decide_def csma_trial_def make_decision_def Let_def

subsection \<open>Histories\<close>

text \<open>
  One observation a caller makes, and the state after a history of observations none of which
  raises.
\<close>

record csma_obs =
  ob_now :: seconds
  ob_busy :: bool
  ob_random :: "int option"

definition csma_apply :: "csma \<Rightarrow> csma_obs \<Rightarrow> csma" where
  "csma_apply s ob = snd (csma_observe s (ob_now ob) (ob_busy ob) (ob_random ob))"

fun csma_run :: "csma \<Rightarrow> csma_obs list \<Rightarrow> (csma_error, csma) result" where
  "csma_run s [] = Inr s"
| "csma_run s (ob # obs) =
     (case csma_observe s (ob_now ob) (ob_busy ob) (ob_random ob) of
        (Inl e, _) \<Rightarrow> Inl e
      | (Inr _, s') \<Rightarrow> csma_run s' obs)"

lemma csma_run_append:
  "csma_run s (xs @ ys) = try_bind (csma_run s xs) (\<lambda>s'. csma_run s' ys)"
  by (induction xs arbitrary: s) (auto split: prod.splits sum.splits)

text \<open>The parameters and the deadline are fixed when the attempt is made.\<close>

lemma csma_observe_fixed:
  "cs_parameters (snd (csma_observe s now b r)) = cs_parameters s"
  "cs_deadline_at (snd (csma_observe s now b r)) = cs_deadline_at s"
  by (simp_all add: csma_observe_defs split: option.splits)

text \<open>The attempt and its last decision tell the same state, slot and deadline.\<close>

definition csma_coherent :: "csma \<Rightarrow> bool" where
  "csma_coherent s \<longleftrightarrow>
     cd_state (cs_last_decision s) = cs_state s \<and>
     cd_next_slot_at (cs_last_decision s) = cs_next_slot_at s \<and>
     cd_deadline_at (cs_last_decision s) = cs_deadline_at s \<and>
     (cs_next_slot_at s \<noteq> None \<longleftrightarrow> cs_state s = WAIT_SLOT)"

lemma csma_init_coherent: "csma_init t p = Inr s \<Longrightarrow> csma_coherent s"
  by (auto simp: csma_init_def csma_coherent_def Let_def split: if_splits)

lemma csma_observe_coherent: "csma_coherent s \<Longrightarrow> csma_coherent (snd (csma_observe s now b r))"
  unfolding csma_coherent_def by (cases "cs_state s") (auto simp: csma_observe_defs split: option.splits)

interpretation csma_coherence: invariant_machine csma_apply csma_coherent
  by unfold_locales (simp add: csma_apply_def csma_observe_coherent)

lemma csma_run_coherent: "csma_coherent s \<Longrightarrow> csma_run s obs = Inr s' \<Longrightarrow> csma_coherent s'"
proof (induction obs arbitrary: s)
  case Nil
  then show ?case by simp
next
  case (Cons ob obs)
  then obtain d s1 where "csma_observe s (ob_now ob) (ob_busy ob) (ob_random ob) = (Inr d, s1)" "csma_run s1 obs = Inr s'"
    by (auto split: prod.splits sum.splits)
  with Cons.IH csma_observe_coherent [OF Cons.prems(1)] show ?case by (metis snd_conv)
qed

lemma csma_observe_decision: "csma_observe s now b r = (Inr d, s') \<Longrightarrow> cs_last_decision s' = d"
  by (auto simp: csma_observe_defs split: if_splits option.splits)

text \<open>A finished attempt keeps its decision.\<close>

interpretation csma_terminal: latched_machine csma_apply
  "\<lambda>s. cs_state s = READY \<or> cs_state s = TIMED_OUT" "\<lambda>s. (cs_state s, cs_last_decision s)"
  by unfold_locales (auto simp: csma_apply_def csma_observe_defs)

subsection \<open>Why an attempt becomes ready\<close>

text \<open>
  The clear channel an observation history shows: a clear observation at least one slot old, only
  clear observations since, and a persistence trial that passed before the deadline.
\<close>

definition slot_observed_clear :: "csma_parameters \<Rightarrow> csma_obs list \<Rightarrow> seconds \<Rightarrow> bool" where
  "slot_observed_clear p hist due \<longleftrightarrow>
     (\<exists>h1 o1 h2. hist = h1 @ o1 # h2 \<and> (\<forall>ob \<in> set (o1 # h2). \<not> ob_busy ob) \<and>
        due = ob_now o1 + slot_seconds p)"

definition access_earned :: "csma_parameters \<Rightarrow> seconds \<Rightarrow> csma_obs list \<Rightarrow> bool" where
  "access_earned p deadline hist \<longleftrightarrow>
     (\<exists>h1 o1 h2 trial h3 r. hist = h1 @ o1 # h2 @ trial # h3 \<and>
        (\<forall>ob \<in> set (o1 # h2 @ [trial]). \<not> ob_busy ob) \<and>
        ob_now o1 + slot_seconds p \<le> ob_now trial \<and> ob_now trial < deadline \<and>
        ob_random trial = Some r \<and> 0 \<le> r \<and> r \<le> cp_persist p)"

lemma slot_observed_clear_snoc:
  "slot_observed_clear p hist due \<Longrightarrow> \<not> ob_busy ob \<Longrightarrow> slot_observed_clear p (hist @ [ob]) due"
  unfolding slot_observed_clear_def
  by (elim exE conjE) (rule_tac x = h1 in exI, rule_tac x = o1 in exI, rule_tac x = "h2 @ [ob]" in exI, auto)

lemma slot_observed_clear_start:
  "\<not> ob_busy ob \<Longrightarrow> slot_observed_clear p (hist @ [ob]) (ob_now ob + slot_seconds p)"
  unfolding slot_observed_clear_def by (intro exI [of _ hist] exI [of _ ob] exI [of _ "[]"]) auto

lemma access_earned_snoc: "access_earned p d hist \<Longrightarrow> access_earned p d (hist @ [ob])"
  unfolding access_earned_def
  by (elim exE conjE) (rule_tac x = h1 in exI, rule_tac x = o1 in exI, rule_tac x = h2 in exI,
      rule_tac x = trial in exI, rule_tac x = "h3 @ [ob]" in exI, rule_tac x = r in exI, auto)

lemma access_earned_trial:
  assumes "slot_observed_clear p hist due" "\<not> ob_busy ob" "due \<le> ob_now ob" "ob_now ob < d"
    and "ob_random ob = Some r" "0 \<le> r" "r \<le> cp_persist p"
  shows "access_earned p d (hist @ [ob])"
proof -
  from assms(1) obtain h1 o1 h2 where "hist = h1 @ o1 # h2" "\<forall>ob \<in> set (o1 # h2). \<not> ob_busy ob"
      "due = ob_now o1 + slot_seconds p"
    unfolding slot_observed_clear_def by blast
  with assms(2-) show ?thesis
    unfolding access_earned_def
    by (intro exI [of _ h1] exI [of _ o1] exI [of _ h2] exI [of _ ob] exI [of _ "[]"] exI [of _ r]) auto
qed

definition csma_justified :: "csma_parameters \<Rightarrow> seconds \<Rightarrow> csma_obs list \<Rightarrow> csma \<Rightarrow> bool" where
  "csma_justified p deadline hist s \<longleftrightarrow>
     cs_parameters s = p \<and> cs_deadline_at s = deadline \<and>
     (cs_state s = WAIT_SLOT \<longrightarrow> (\<exists>due. cs_next_slot_at s = Some due \<and> slot_observed_clear p hist due)) \<and>
     (cs_state s = READY \<longrightarrow> access_earned p deadline hist)"

lemma csma_observe_justified:
  assumes inv: "csma_justified p deadline hist s"
    and obs: "csma_observe s (ob_now ob) (ob_busy ob) (ob_random ob) = (Inr d, s')"
  shows "csma_justified p deadline (hist @ [ob]) s'"
proof (cases "cs_state s = READY \<or> cs_state s = TIMED_OUT \<or> cs_deadline_at s \<le> ob_now ob \<or> ob_busy ob \<or>
    cs_state s = WAIT_CLEAR")
  case True
  with obs inv show ?thesis
    by (auto simp: csma_justified_def csma_observe_defs split: if_splits
        intro: access_earned_snoc slot_observed_clear_start)
next
  case False
  with inv obtain due where "cs_state s = WAIT_SLOT" "cs_next_slot_at s = Some due"
      "slot_observed_clear p hist due" "cs_parameters s = p" "cs_deadline_at s = deadline"
    by (cases "cs_state s") (auto simp: csma_justified_def)
  with False obs show ?thesis
    by (auto simp: csma_justified_def csma_observe_defs split: if_splits option.splits
        intro: slot_observed_clear_snoc slot_observed_clear_start access_earned_trial)
qed

lemma csma_run_justified:
  "csma_justified p deadline hist s \<Longrightarrow> csma_run s obs = Inr s' \<Longrightarrow> csma_justified p deadline (hist @ obs) s'"
proof (induction obs arbitrary: s hist)
  case Nil
  then show ?case by simp
next
  case (Cons ob obs)
  from Cons.prems(2) obtain d s1 where
    step: "csma_observe s (ob_now ob) (ob_busy ob) (ob_random ob) = (Inr d, s1)" "csma_run s1 obs = Inr s'"
    by (auto split: prod.splits sum.splits)
  from Cons.IH [OF csma_observe_justified [OF Cons.prems(1) step(1)] step(2)] show ?case by simp
qed

lemma csma_init_justified:
  "csma_init t p = Inr s \<Longrightarrow> csma_justified p (t + cp_max_wait_seconds p) [] s"
  by (auto simp: csma_init_def csma_justified_def Let_def split: if_splits)

text \<open>
  Channel access is earned. If a new attempt is ready after a history of observations, the
  history contains a clear observation, at least one full slot time before a persistence trial, with
  every observation from the one to the other clear; the trial came before the deadline, with a
  random octet not above the persistence value.
\<close>

theorem csma_ready_earned:
  assumes "csma_init started_at p = Inr s" "csma_run s hist = Inr s'" "cs_state s' = READY"
  shows "access_earned p (started_at + cp_max_wait_seconds p) hist"
  using csma_run_justified [OF csma_init_justified [OF assms(1)] assms(2)] assms(3)
  by (simp add: csma_justified_def)

theorem csma_ready_earned_witness:
  "access_earned \<lparr>cp_persist = 63, cp_slot_time_10ms = 10, cp_max_wait_seconds = 30\<rparr> (1 + 30)
     [\<lparr>ob_now = 1, ob_busy = True, ob_random = None\<rparr>, \<lparr>ob_now = 2, ob_busy = False, ob_random = None\<rparr>,
      \<lparr>ob_now = 3, ob_busy = False, ob_random = Some 200\<rparr>, \<lparr>ob_now = 4, ob_busy = False, ob_random = Some 9\<rparr>]"
  using csma_ready_earned [of 1 "\<lparr>cp_persist = 63, cp_slot_time_10ms = 10, cp_max_wait_seconds = 30\<rparr>" _
      "[\<lparr>ob_now = 1, ob_busy = True, ob_random = None\<rparr>, \<lparr>ob_now = 2, ob_busy = False, ob_random = None\<rparr>,
        \<lparr>ob_now = 3, ob_busy = False, ob_random = Some 200\<rparr>, \<lparr>ob_now = 4, ob_busy = False, ob_random = Some 9\<rparr>]"]
  by (simp add: csma_init_def csma_observe_defs slot_seconds_def)

text \<open>
  Termination is final: once an attempt is ready or has timed out, no further observation,
  whether it is accepted or raises, changes its state or its decision.
\<close>

theorem csma_terminal_latched:
  assumes "cs_state s = READY \<or> cs_state s = TIMED_OUT"
  shows "cs_state (run csma_apply s obs) = cs_state s \<and>
    cs_last_decision (run csma_apply s obs) = cs_last_decision s"
  using csma_terminal.latched_run [OF assms, of obs] by simp

theorem csma_terminal_latched_witness:
  "cs_state (run csma_apply
     \<lparr>cs_parameters = \<lparr>cp_persist = 63, cp_slot_time_10ms = 10, cp_max_wait_seconds = 30\<rparr>,
      cs_started_at = 0, cs_deadline_at = 30, cs_next_slot_at = None, cs_state = TIMED_OUT,
      cs_persistence_trials = 0, cs_busy_observations = 0, cs_last_now = 31,
      cs_last_decision = \<lparr>cd_state = TIMED_OUT, cd_channel_busy = Some False, cd_persistence_trials = 0,
        cd_busy_observations = 0, cd_next_slot_at = None, cd_deadline_at = 30, cd_random_byte = None,
        cd_reason = WaitExpired\<rparr>\<rparr>
     [\<lparr>ob_now = 32, ob_busy = False, ob_random = None\<rparr>, \<lparr>ob_now = 33, ob_busy = False, ob_random = Some 0\<rparr>])
   = TIMED_OUT"
  by (subst csma_terminal_latched [THEN conjunct1]) simp_all

subsection \<open>The persistence trial\<close>

lemma csma_observe_due:
  assumes "cs_state s = WAIT_SLOT" "cs_next_slot_at s = Some due" "cs_last_now s \<le> now" "due \<le> now"
    and "now < cs_deadline_at s" "0 \<le> r" "r \<le> 255"
  shows "csma_observe s now False (Some r) = csma_trial (s\<lparr>cs_last_now := now\<rparr>) now r"
  using assms by (simp add: csma_observe_def Let_def)

text \<open>
  The stated odds. When a slot is due, exactly \<open>persist + 1\<close> of the 256 random octets make the
  attempt ready, so with a uniform octet the probability is the one \<open>persistence_probability\<close>
  reports; every other octet defers by one full slot.
\<close>

theorem csma_trial_odds:
  assumes "cs_state s = WAIT_SLOT" "cs_next_slot_at s = Some due" "cs_last_now s \<le> now" "due \<le> now"
    and "now < cs_deadline_at s"
    and "0 \<le> cp_persist (cs_parameters s)" "cp_persist (cs_parameters s) \<le> 255"
  shows "of_nat (card {r \<in> {0..255}. cs_state (snd (csma_observe s now False (Some r))) = READY}) / 256 =
      persistence_probability (cs_parameters s) \<and>
    (\<forall>r \<in> {0..255}. cs_state (snd (csma_observe s now False (Some r))) \<noteq> READY \<longrightarrow>
       cs_next_slot_at (snd (csma_observe s now False (Some r))) = Some (now + slot_seconds (cs_parameters s)))"
proof -
  have trial: "cs_state (snd (csma_observe s now False (Some r))) = (if r \<le> cp_persist (cs_parameters s) then READY else WAIT_SLOT)"
    "cs_next_slot_at (snd (csma_observe s now False (Some r))) =
       (if r \<le> cp_persist (cs_parameters s) then None else Some (now + slot_seconds (cs_parameters s)))"
    if "r \<in> {0..255}" for r
    using that assms by (auto simp: csma_observe_due csma_trial_def csma_decide_def Let_def)
  have "{r \<in> {0..255}. cs_state (snd (csma_observe s now False (Some r))) = READY} = {0..cp_persist (cs_parameters s)}"
    using assms(6,7) by (auto simp: trial split: if_splits)
  then show ?thesis
    using assms(6) trial by (auto simp: persistence_probability_def)
qed

theorem csma_trial_odds_witness:
  "of_nat (card {r \<in> {0..255}. cs_state (snd (csma_observe
     \<lparr>cs_parameters = \<lparr>cp_persist = 63, cp_slot_time_10ms = 10, cp_max_wait_seconds = 30\<rparr>,
      cs_started_at = 0, cs_deadline_at = 30, cs_next_slot_at = Some 1, cs_state = WAIT_SLOT,
      cs_persistence_trials = 0, cs_busy_observations = 0, cs_last_now = 1,
      cs_last_decision = \<lparr>cd_state = WAIT_SLOT, cd_channel_busy = Some False, cd_persistence_trials = 0,
        cd_busy_observations = 0, cd_next_slot_at = Some 1, cd_deadline_at = 30, cd_random_byte = None,
        cd_reason = SlotStarted\<rparr>\<rparr> 2 False (Some r))) = READY}) / 256 = (1 / 4 :: rat)"
  by (subst csma_trial_odds [where due = 1, THEN conjunct1]) (simp_all add: persistence_probability_def)

end
