(* ===== verification/Channel_Busy.thy ===== *)
theory Channel_Busy
  imports Prelude
begin

section \<open>The channel-busy detector\<close>

text \<open>
  \<open>src/src/ywd1278/tx/channel_busy.py\<close>: the hysteretic detector over raw RSSI magnitudes, where a
  lower magnitude is a stronger signal. The explanatory text of a decision is an enumeration, one
  constructor per message of the source.
\<close>

subsection \<open>Model\<close>

datatype busy_error = DetectorStartNegative | DetectorNotMonotonic | RawMagnitudeRange

datatype channel_busy_state = CH_UNKNOWN | CH_BUSY | CH_RECENT_RX | CH_CLEAR

datatype busy_reason =
    AtBusyThreshold | InsideHysteresis | RemainsClear | HoldStarted | HoldNotComplete | HoldComplete

definition BUSY_ASSERT_RAW_MAX :: int where "BUSY_ASSERT_RAW_MAX = 83"
definition CLEAR_RELEASE_RAW_MIN :: int where "CLEAR_RELEASE_RAW_MIN = 90"
definition RECENT_RX_HOLD_SECONDS :: seconds where "RECENT_RX_HOLD_SECONDS = 1 / 4"

record channel_busy_decision =
  bd_state :: channel_busy_state
  bd_raw_magnitude :: int
  bd_channel_busy :: bool
  bd_recent_rx :: bool
  bd_clear_candidate_since :: "seconds option"
  bd_last_busy_at :: "seconds option"
  bd_reason :: busy_reason

record busy_detector =
  bz_state :: channel_busy_state
  bz_last_now :: seconds
  bz_clear_candidate_since :: "seconds option"
  bz_last_busy_at :: "seconds option"
  bz_last_decision :: "channel_busy_decision option"

definition busy_init :: "seconds \<Rightarrow> (busy_error, busy_detector) result" where
  "busy_init started_at =
     (if started_at < 0 then Inl DetectorStartNegative
      else Inr \<lparr>bz_state = CH_UNKNOWN, bz_last_now = started_at, bz_clear_candidate_since = None,
        bz_last_busy_at = None, bz_last_decision = None\<rparr>)"

definition busy_record ::
  "busy_detector \<Rightarrow> int \<Rightarrow> busy_reason \<Rightarrow> (busy_error, channel_busy_decision) result \<times> busy_detector" where
  "busy_record d raw reason =
     (let decision =
        \<lparr>bd_state = bz_state d, bd_raw_magnitude = raw, bd_channel_busy = (bz_state d \<noteq> CH_CLEAR),
         bd_recent_rx = (bz_state d \<in> {CH_BUSY, CH_RECENT_RX}),
         bd_clear_candidate_since = bz_clear_candidate_since d, bd_last_busy_at = bz_last_busy_at d,
         bd_reason = reason\<rparr>
      in (Inr decision, d\<lparr>bz_last_decision := Some decision\<rparr>))"

definition busy_observe ::
  "busy_detector \<Rightarrow> seconds \<Rightarrow> int \<Rightarrow> (busy_error, channel_busy_decision) result \<times> busy_detector" where
  "busy_observe d now raw =
     (if now < bz_last_now d then (Inl DetectorNotMonotonic, d)
      else if \<not> (0 \<le> raw \<and> raw \<le> 255) then (Inl RawMagnitudeRange, d)
      else
        (let d = d\<lparr>bz_last_now := now\<rparr> in
         if raw \<le> BUSY_ASSERT_RAW_MAX then
           busy_record (d\<lparr>bz_state := CH_BUSY, bz_last_busy_at := Some now,
             bz_clear_candidate_since := None\<rparr>) raw AtBusyThreshold
         else if raw < CLEAR_RELEASE_RAW_MIN then
           busy_record
             (if bz_state d \<noteq> CH_CLEAR then d\<lparr>bz_clear_candidate_since := None\<rparr> else d)
             raw InsideHysteresis
         else if bz_state d = CH_CLEAR then busy_record d raw RemainsClear
         else
           (case bz_clear_candidate_since d of
              None \<Rightarrow>
                busy_record (d\<lparr>bz_clear_candidate_since := Some now, bz_state := CH_RECENT_RX\<rparr>)
                  raw HoldStarted
            | Some since \<Rightarrow>
                if now - since < RECENT_RX_HOLD_SECONDS then
                  busy_record (d\<lparr>bz_state := CH_RECENT_RX\<rparr>) raw HoldNotComplete
                else busy_record (d\<lparr>bz_state := CH_CLEAR\<rparr>) raw HoldComplete)))"

lemmas busy_defs =
  busy_observe_def busy_record_def BUSY_ASSERT_RAW_MAX_def CLEAR_RELEASE_RAW_MIN_def Let_def

subsection \<open>What clear means\<close>

text \<open>A history of samples, time and magnitude, and the state after it when none of them raises.\<close>

type_synonym rssi_sample = "seconds \<times> int"

fun busy_run :: "busy_detector \<Rightarrow> rssi_sample list \<Rightarrow> (busy_error, busy_detector) result" where
  "busy_run d [] = Inr d"
| "busy_run d ((now, raw) # samples) =
     (case busy_observe d now raw of (Inl e, _) \<Rightarrow> Inl e | (Inr _, d') \<Rightarrow> busy_run d' samples)"

lemma busy_run_append:
  "busy_run d (xs @ ys) = try_bind (busy_run d xs) (\<lambda>d'. busy_run d' ys)"
  by (induction xs arbitrary: d rule: list.induct) (auto split: prod.splits sum.splits)

lemma busy_run_snoc:
  "busy_run d (xs @ [(now, raw)]) = Inr d'' \<longleftrightarrow>
     (\<exists>d' dec. busy_run d xs = Inr d' \<and> busy_observe d' now raw = (Inr dec, d''))"
proof -
  have "busy_run d' [(now, raw)] = Inr d'' \<longleftrightarrow> (\<exists>dec. busy_observe d' now raw = (Inr dec, d''))" for d'
    by (cases "busy_observe d' now raw"; cases "fst (busy_observe d' now raw)") auto
  then show ?thesis unfolding busy_run_append try_bind_Inr_iff by blast
qed

text \<open>
  The specification. The release side has been held when the history ends in samples of at least
  90; the channel is clear when the release side was held for 250 ms at some point and no sample
  has reached the assert threshold 83 since.
\<close>

definition release_held :: "rssi_sample list \<Rightarrow> seconds \<Rightarrow> bool" where
  "release_held hist since \<longleftrightarrow>
     (\<exists>h1 raw h2. hist = h1 @ (since, raw) # h2 \<and> (\<forall>(_, r) \<in> set ((since, raw) # h2). 90 \<le> r))"

definition clear_by_history :: "rssi_sample list \<Rightarrow> bool" where
  "clear_by_history hist \<longleftrightarrow>
     (\<exists>h1 h2 since now raw. hist = h1 @ (now, raw) # h2 \<and> release_held (h1 @ [(now, raw)]) since \<and>
        RECENT_RX_HOLD_SECONDS \<le> now - since \<and> (\<forall>(_, r) \<in> set h2. 83 < r))"

lemma release_held_Nil [simp]: "\<not> release_held [] t"
  by (simp add: release_held_def)

lemma release_held_snoc:
  "release_held (hist @ [(now, raw)]) t \<longleftrightarrow> 90 \<le> raw \<and> (t = now \<or> release_held hist t)"
proof
  assume "release_held (hist @ [(now, raw)]) t"
  then obtain h1 r h2 where h: "hist @ [(now, raw)] = h1 @ (t, r) # h2"
    and all: "\<forall>(_, r) \<in> set ((t, r) # h2). 90 \<le> r"
    unfolding release_held_def by blast
  show "90 \<le> raw \<and> (t = now \<or> release_held hist t)"
  proof (cases h2 rule: rev_cases)
    case Nil
    with h all show ?thesis by auto
  next
    case (snoc h2' x)
    with h have "hist = h1 @ (t, r) # h2'" "x = (now, raw)" by auto
    with snoc all show ?thesis unfolding release_held_def by fastforce
  qed
next
  assume R: "90 \<le> raw \<and> (t = now \<or> release_held hist t)"
  show "release_held (hist @ [(now, raw)]) t"
  proof (cases "release_held hist t")
    case True
    then obtain h1 r h2 where "hist = h1 @ (t, r) # h2" "\<forall>(_, r) \<in> set ((t, r) # h2). 90 \<le> r"
      unfolding release_held_def by blast
    with R show ?thesis
      unfolding release_held_def
      by (intro exI [of _ h1] exI [of _ r] exI [of _ "h2 @ [(now, raw)]"]) auto
  next
    case False
    with R have "90 \<le> raw" "t = now" by auto
    then show ?thesis
      unfolding release_held_def by (intro exI [of _ hist] exI [of _ raw] exI [of _ "[]"]) auto
  qed
qed

lemma clear_by_history_Nil [simp]: "\<not> clear_by_history []"
  by (simp add: clear_by_history_def)

lemma clear_by_history_snoc:
  "clear_by_history (hist @ [(now, raw)]) \<longleftrightarrow>
     clear_by_history hist \<and> 83 < raw \<or>
     (\<exists>since. release_held (hist @ [(now, raw)]) since \<and> RECENT_RX_HOLD_SECONDS \<le> now - since)"
proof
  assume "clear_by_history (hist @ [(now, raw)])"
  then obtain h1 h2 since t r where h: "hist @ [(now, raw)] = h1 @ (t, r) # h2"
    and held: "release_held (h1 @ [(t, r)]) since" "RECENT_RX_HOLD_SECONDS \<le> t - since"
    and low: "\<forall>(_, r) \<in> set h2. 83 < r"
    unfolding clear_by_history_def by blast
  show "clear_by_history hist \<and> 83 < raw \<or>
     (\<exists>since. release_held (hist @ [(now, raw)]) since \<and> RECENT_RX_HOLD_SECONDS \<le> now - since)"
  proof (cases h2 rule: rev_cases)
    case Nil
    with h held show ?thesis by auto
  next
    case (snoc h2' x)
    with h have "hist = h1 @ (t, r) # h2'" "x = (now, raw)" by auto
    with snoc low held show ?thesis unfolding clear_by_history_def by fastforce
  qed
next
  assume R: "clear_by_history hist \<and> 83 < raw \<or>
     (\<exists>since. release_held (hist @ [(now, raw)]) since \<and> RECENT_RX_HOLD_SECONDS \<le> now - since)"
  then show "clear_by_history (hist @ [(now, raw)])"
  proof
    assume "clear_by_history hist \<and> 83 < raw"
    then obtain h1 h2 since t r where "hist = h1 @ (t, r) # h2" "release_held (h1 @ [(t, r)]) since"
      "RECENT_RX_HOLD_SECONDS \<le> t - since" "\<forall>(_, r) \<in> set h2. 83 < r" "83 < raw"
      unfolding clear_by_history_def by blast
    then show ?thesis
      unfolding clear_by_history_def
      by (intro exI [of _ h1] exI [of _ "h2 @ [(now, raw)]"] exI [of _ since] exI [of _ t] exI [of _ r]) auto
  next
    assume "\<exists>since. release_held (hist @ [(now, raw)]) since \<and> RECENT_RX_HOLD_SECONDS \<le> now - since"
    then obtain since where "release_held (hist @ [(now, raw)]) since" "RECENT_RX_HOLD_SECONDS \<le> now - since"
      by blast
    then show ?thesis
      unfolding clear_by_history_def
      by (intro exI [of _ hist] exI [of _ "[]"] exI [of _ since] exI [of _ now] exI [of _ raw]) auto
  qed
qed

text \<open>The abstraction: the detector's state and candidate time are functions of the history.\<close>

definition busy_tracks :: "rssi_sample list \<Rightarrow> busy_detector \<Rightarrow> bool" where
  "busy_tracks hist d \<longleftrightarrow>
     (bz_state d = CH_CLEAR \<longleftrightarrow> clear_by_history hist) \<and>
     (\<forall>t. release_held hist t \<longrightarrow> t \<le> bz_last_now d) \<and>
     (bz_state d \<noteq> CH_CLEAR \<longrightarrow>
       (case bz_clear_candidate_since d of
          None \<Rightarrow> \<forall>t. \<not> release_held hist t
        | Some since \<Rightarrow> release_held hist since \<and> (\<forall>t. release_held hist t \<longrightarrow> since \<le> t)))"

lemma busy_observe_tracks:
  assumes inv: "busy_tracks hist d" and obs: "busy_observe d now raw = (Inr dec, d')"
  shows "busy_tracks (hist @ [(now, raw)]) d'"
proof -
  have now: "bz_last_now d \<le> now" and last: "bz_last_now d' = now"
    using obs by (auto simp: busy_defs split: if_splits option.splits)
  have mono: "\<forall>t. release_held (hist @ [(now, raw)]) t \<longrightarrow> t \<le> bz_last_now d'"
    using inv now unfolding release_held_snoc last busy_tracks_def by auto
  show ?thesis
  proof (cases "bz_state d = CH_CLEAR")
    case True
    with inv have clear: "clear_by_history hist" by (simp add: busy_tracks_def)
    show ?thesis
    proof (cases "83 < raw")
      case True
      with clear have "clear_by_history (hist @ [(now, raw)])" by (simp add: clear_by_history_snoc)
      moreover have "bz_state d' = CH_CLEAR"
        using obs \<open>bz_state d = CH_CLEAR\<close> True by (auto simp: busy_defs split: if_splits)
      ultimately show ?thesis using mono by (simp add: busy_tracks_def)
    next
      case False
      with obs have "bz_state d' = CH_BUSY" "bz_clear_candidate_since d' = None"
        by (auto simp: busy_defs split: if_splits)
      with False mono show ?thesis
        by (simp add: busy_tracks_def clear_by_history_snoc release_held_snoc)
    qed
  next
    case False
    with inv have nclear: "\<not> clear_by_history hist" by (simp add: busy_tracks_def)
    show ?thesis
    proof (cases "90 \<le> raw")
      case low: False
      with obs False have "bz_state d' \<noteq> CH_CLEAR" "bz_clear_candidate_since d' = None"
        by (auto simp: busy_defs split: if_splits)
      with low nclear mono show ?thesis
        by (simp add: busy_tracks_def clear_by_history_snoc release_held_snoc)
    next
      case high: True
      show ?thesis
      proof (cases "bz_clear_candidate_since d")
        case None
        with inv False have none: "\<not> release_held hist t" for t by (simp add: busy_tracks_def)
        from obs False high None have "bz_state d' = CH_RECENT_RX" "bz_clear_candidate_since d' = Some now"
          by (auto simp: busy_defs split: if_splits)
        with nclear none high mono show ?thesis
          by (simp add: busy_tracks_def clear_by_history_snoc release_held_snoc RECENT_RX_HOLD_SECONDS_def)
      next
        case (Some since)
        with inv False have since: "release_held hist since" "\<And>t. release_held hist t \<Longrightarrow> since \<le> t"
          and le: "since \<le> now"
          using now by (auto simp: busy_tracks_def)
        from obs False high Some have
          "bz_state d' = (if now - since < RECENT_RX_HOLD_SECONDS then CH_RECENT_RX else CH_CLEAR)"
          "bz_clear_candidate_since d' = Some since"
          by (auto simp: busy_defs split: if_splits)
        moreover have "clear_by_history (hist @ [(now, raw)]) \<longleftrightarrow> RECENT_RX_HOLD_SECONDS \<le> now - since"
          using nclear since high le by (auto simp: clear_by_history_snoc release_held_snoc)
            (meson diff_left_mono order_trans)
        ultimately show ?thesis
          using since le mono high by (auto simp: busy_tracks_def release_held_snoc)
      qed
    qed
  qed
qed

lemma busy_run_tracks:
  assumes "busy_init t0 = Inr d0"
  shows "busy_run d0 hist = Inr d \<Longrightarrow> busy_tracks hist d"
proof (induction hist arbitrary: d rule: rev_induct)
  case Nil
  with assms show ?case by (auto simp: busy_init_def busy_tracks_def split: if_splits)
next
  case (snoc x hist)
  obtain now raw where "x = (now, raw)" by (cases x)
  with snoc show ?case by (auto simp: busy_run_snoc intro: busy_observe_tracks)
qed

text \<open>
  C30. The detector reports the channel clear exactly when the history of samples warrants it: the
  release side (90 and above) was held over at least 250 ms by an uninterrupted run of samples,
  and no sample since has reached the busy threshold (83 and below). In particular silence, startup
  and the hysteresis band never make a channel clear.
\<close>

theorem busy_detector_spec:
  assumes "busy_init started_at = Inr d0" "busy_run d0 hist = Inr d"
  shows "bz_state d = CH_CLEAR \<longleftrightarrow> clear_by_history hist"
  using busy_run_tracks [OF assms] by (simp add: busy_tracks_def)

theorem busy_detector_spec_witness:
  "clear_by_history [(0, 80), (1, 95), (5 / 4, 120), (2, 85)]"
proof -
  let ?d0 = "\<lparr>bz_state = CH_UNKNOWN, bz_last_now = 0, bz_clear_candidate_since = None,
    bz_last_busy_at = None, bz_last_decision = None\<rparr>"
  let ?hist = "[(0, 80), (1, 95), (5 / 4, 120), (2, 85)]"
  have "busy_init 0 = Inr ?d0" by (simp add: busy_init_def)
  moreover have "\<exists>d. busy_run ?d0 ?hist = Inr d \<and> bz_state d = CH_CLEAR"
    by (simp add: busy_defs RECENT_RX_HOLD_SECONDS_def)
  ultimately show ?thesis using busy_detector_spec by blast
qed

text \<open>What a decision says agrees with the state it leaves.\<close>

lemma busy_observe_decision:
  "busy_observe d now raw = (Inr dec, d') \<Longrightarrow>
     bd_state dec = bz_state d' \<and> (bd_channel_busy dec \<longleftrightarrow> bz_state d' \<noteq> CH_CLEAR) \<and>
     bd_raw_magnitude dec = raw \<and> bz_last_decision d' = Some dec \<and> bz_last_now d' = now"
  by (auto simp: busy_defs split: if_splits option.splits)

lemma busy_observe_error:
  "busy_observe d now raw = (Inl e, d') \<Longrightarrow>
     d' = d \<and> (e = DetectorNotMonotonic \<and> now < bz_last_now d \<or>
       e = RawMagnitudeRange \<and> bz_last_now d \<le> now \<and> \<not> (0 \<le> raw \<and> raw \<le> 255))"
  by (auto simp: busy_defs split: if_splits option.splits)

lemma busy_observe_ok:
  "bz_last_now d \<le> now \<Longrightarrow> 0 \<le> raw \<Longrightarrow> raw \<le> 255 \<Longrightarrow> \<exists>dec d'. busy_observe d now raw = (Inr dec, d')"
  by (simp add: busy_defs split: option.splits)

end
