(* ===== verification/Py_Text.thy ===== *)
theory Py_Text
  imports Prelude
begin

section \<open>The text operations of Python the sources use\<close>

text \<open>
  \<open>str\<close> methods on 7-bit ASCII text, which is a HOL \<^typ>\<open>string\<close> of characters below 128:
  \<open>ord\<close>, \<open>upper\<close>, \<open>isalnum\<close>, \<open>isdigit\<close>, \<open>strip\<close>, \<open>rstrip\<close>, \<open>ljust\<close>, \<open>rsplit("-", 1)\<close>,
  decimal \<open>int\<close> and \<open>str\<close>, and the format codes \<open>02X\<close> and \<open>02x\<close>. The additional letters, digits
  and spaces Python knows beyond ASCII are outside the model.
\<close>

definition py_ord :: "char \<Rightarrow> nat" where
  "py_ord c = of_char c"

definition py_chr :: "nat \<Rightarrow> char" where
  "py_chr n = char_of n"

definition py_isascii :: "char \<Rightarrow> bool" where
  "py_isascii c \<longleftrightarrow> py_ord c < 128"

definition py_isdigit :: "char \<Rightarrow> bool" where
  "py_isdigit c \<longleftrightarrow> 48 \<le> py_ord c \<and> py_ord c \<le> 57"

definition py_isupper :: "char \<Rightarrow> bool" where
  "py_isupper c \<longleftrightarrow> 65 \<le> py_ord c \<and> py_ord c \<le> 90"

definition py_islower :: "char \<Rightarrow> bool" where
  "py_islower c \<longleftrightarrow> 97 \<le> py_ord c \<and> py_ord c \<le> 122"

definition py_isalnum :: "char \<Rightarrow> bool" where
  "py_isalnum c \<longleftrightarrow> py_isdigit c \<or> py_isupper c \<or> py_islower c"

definition py_upper_char :: "char \<Rightarrow> char" where
  "py_upper_char c = (if py_islower c then py_chr (py_ord c - 32) else c)"

definition py_upper :: "string \<Rightarrow> string" where
  "py_upper s = map py_upper_char s"

definition py_isspace :: "char \<Rightarrow> bool" where
  "py_isspace c \<longleftrightarrow> (let n = py_ord c in 9 \<le> n \<and> n \<le> 13 \<or> 28 \<le> n \<and> n \<le> 32)"

definition py_lstrip :: "string \<Rightarrow> string" where
  "py_lstrip s = dropWhile py_isspace s"

definition py_rstrip :: "string \<Rightarrow> string" where
  "py_rstrip s = rev (dropWhile py_isspace (rev s))"

definition py_strip :: "string \<Rightarrow> string" where
  "py_strip s = py_rstrip (py_lstrip s)"

definition py_ljust :: "nat \<Rightarrow> string \<Rightarrow> string" where
  "py_ljust n s = s @ replicate (n - length s) (CHR '' '')"

text \<open>\<open>s.rsplit("-", 1)\<close> when the separator occurs: the text before and after its last
  occurrence.\<close>

definition py_rsplit_dash :: "string \<Rightarrow> string \<times> string" where
  "py_rsplit_dash s =
     (let tail = takeWhile (\<lambda>c. c \<noteq> CHR ''-'') (rev s)
      in (take (length s - length tail - 1) s, rev tail))"

definition py_int_of_digits :: "string \<Rightarrow> int" where
  "py_int_of_digits s = foldl (\<lambda>acc c. 10 * acc + (int (py_ord c) - 48)) 0 s"

fun dec_digits :: "nat \<Rightarrow> string" where
  "dec_digits n =
     (if n < 10 then [py_chr (48 + n)] else dec_digits (n div 10) @ [py_chr (48 + n mod 10)])"

declare dec_digits.simps [simp del]

definition py_str_int :: "int \<Rightarrow> string" where
  "py_str_int i = (if i < 0 then CHR ''-'' # dec_digits (nat (- i)) else dec_digits (nat i))"

definition hex_digit_upper :: "nat \<Rightarrow> char" where
  "hex_digit_upper n = (if n < 10 then py_chr (48 + n) else py_chr (55 + n))"

text \<open>\<open>f"{b:02X}"\<close> of one byte, and \<open>b.hex().upper()\<close>.\<close>

definition hex2_upper :: "byte \<Rightarrow> string" where
  "hex2_upper b = [hex_digit_upper (unat b div 16), hex_digit_upper (unat b mod 16)]"

definition bytes_hex_upper :: "bytes \<Rightarrow> string" where
  "bytes_hex_upper bs = concat (map hex2_upper bs)"

subsection \<open>Facts\<close>

lemma py_ord_less [simp]: "py_ord c < 256"
  by (simp add: py_ord_def)

lemma py_ord_py_chr: "n < 256 \<Longrightarrow> py_ord (py_chr n) = n"
  by (simp add: py_ord_def py_chr_def)

lemma py_chr_py_ord [simp]: "py_chr (py_ord c) = c"
  by (simp add: py_ord_def py_chr_def)

lemma py_ord_inject: "py_ord a = py_ord b \<longleftrightarrow> a = b"
  by (metis py_chr_py_ord)

lemma py_ord_space [simp]: "py_ord (CHR '' '') = 32"
  by (simp add: py_ord_def)

lemma py_isspace_space [simp]: "py_isspace (CHR '' '')"
  by (simp add: py_isspace_def)

lemma py_upper_char_id: "\<not> py_islower c \<Longrightarrow> py_upper_char c = c"
  by (simp add: py_upper_char_def)

lemma py_upper_char_eq_iff: "py_upper_char c = c \<longleftrightarrow> \<not> py_islower c"
proof
  assume eq: "py_upper_char c = c"
  show "\<not> py_islower c"
  proof
    assume low: "py_islower c"
    then have "py_ord (py_upper_char c) = py_ord c - 32" and "97 \<le> py_ord c"
      by (auto simp: py_upper_char_def py_islower_def py_ord_py_chr)
    with eq show False by simp
  qed
qed (rule py_upper_char_id)

lemma py_isalnum_not_space: "py_isalnum c \<Longrightarrow> \<not> py_isspace c"
  by (auto simp: py_isalnum_def py_isdigit_def py_isupper_def py_islower_def py_isspace_def Let_def)

lemma py_isalnum_ord: "py_isalnum c \<Longrightarrow> 48 \<le> py_ord c \<and> py_ord c < 123"
  by (auto simp: py_isalnum_def py_isdigit_def py_isupper_def py_islower_def)

lemma py_rstrip_append_spaces [simp]:
  "py_rstrip (s @ replicate n (CHR '' '')) = py_rstrip s"
  unfolding py_rstrip_def by (induction n) (simp_all add: replicate_app_Cons_same)

lemma py_rstrip_id: "s = [] \<or> \<not> py_isspace (last s) \<Longrightarrow> py_rstrip s = s"
  by (cases s rule: rev_cases) (auto simp: py_rstrip_def)

lemma length_py_ljust: "length (py_ljust n s) = max n (length s)"
  by (simp add: py_ljust_def)

lemma hex2_upper_inject: "hex2_upper a = hex2_upper b \<longleftrightarrow> a = b"
proof
  assume eq: "hex2_upper a = hex2_upper b"
  have inj: "m = n" if "hex_digit_upper m = hex_digit_upper n" "m < 16" "n < 16" for m n
  proof -
    have "py_ord (hex_digit_upper m) = py_ord (hex_digit_upper n)" using that(1) by simp
    with that(2,3) show ?thesis
      by (auto simp: hex_digit_upper_def py_ord_py_chr split: if_splits)
  qed
  have lt: "unat x div 16 < 16" for x :: byte
    by (rule less_mult_imp_div_less) simp
  from eq have "unat a div 16 = unat b div 16" "unat a mod 16 = unat b mod 16"
    by (auto simp: hex2_upper_def intro: inj lt)
  then have "unat a = unat b" by (metis div_mult_mod_eq)
  then show "a = b" by (simp add: word_unat_eq_iff)
qed simp

end
