(* ===== verification/Bell202_Tx.thy ===== *)
theory Bell202_Tx
  imports Prelude
begin

unbundle bit_operations_syntax

section \<open>HDLC and Bell-202 serialisation\<close>

text \<open>
  \<open>src/src/ywd1278/phy/bell202_tx.py\<close>: octets to bits, bit stuffing, flags, NRZI and the packed
  selector form of the modem. The source writes a bit as the integer 0 or 1 and normalises every
  value with \<open>1 if value else 0\<close>; a bit, and a tone selector (MARK is 0, SPACE is 1), is a
  \<^typ>\<open>bool\<close> here. The keyword arguments \<open>pre_flags\<close>, \<open>post_flags\<close> and \<open>initial_tone\<close> keep
  their integer type and their range checks.
\<close>

subsection \<open>Model\<close>

datatype phy_error =
    InvalidBitStuffing | EmptyFrame | MissingFlags | InvalidInitialTone | InvalidSelectorCount
  | PartialOctet

definition FLAG :: byte where
  "FLAG = 0x7E"

definition MARK :: int where
  "MARK = 0"

definition SPACE :: int where
  "SPACE = 1"

definition byte_bits_lsb :: "bytes \<Rightarrow> bool list" where
  "byte_bits_lsb data = concat (map (\<lambda>b. map (\<lambda>i. drop_bit i b AND 1 \<noteq> 0) [0..<8]) data)"

definition flag_bits :: "bool list" where
  "flag_bits = byte_bits_lsb [FLAG]"

text \<open>The loops of \<open>stuff_bits\<close> and \<open>unstuff_bits\<close>, with their count of consecutive ones.\<close>

fun stuff_loop :: "nat \<Rightarrow> bool list \<Rightarrow> bool list" where
  "stuff_loop ones [] = []"
| "stuff_loop ones (b # bs) =
     (if b then
        (if ones + 1 = 5 then b # False # stuff_loop 0 bs else b # stuff_loop (ones + 1) bs)
      else b # stuff_loop 0 bs)"

definition stuff_bits :: "bool list \<Rightarrow> bool list" where
  "stuff_bits bits = stuff_loop 0 bits"

fun unstuff_loop :: "nat \<Rightarrow> bool list \<Rightarrow> (phy_error, bool list) result" where
  "unstuff_loop ones [] = Inr []"
| "unstuff_loop ones (b # bs) =
     (if b then
        (if ones + 1 = 5 then
           (case bs of
              [] \<Rightarrow> Inl InvalidBitStuffing
            | c # cs \<Rightarrow>
                if c then Inl InvalidBitStuffing
                else try_bind (unstuff_loop 0 cs) (\<lambda>out. Inr (b # out)))
         else try_bind (unstuff_loop (ones + 1) bs) (\<lambda>out. Inr (b # out)))
      else try_bind (unstuff_loop 0 bs) (\<lambda>out. Inr (b # out)))"

definition unstuff_bits :: "bool list \<Rightarrow> (phy_error, bool list) result" where
  "unstuff_bits bits = unstuff_loop 0 bits"

definition flags :: "int \<Rightarrow> bool list" where
  "flags n = concat (replicate (nat n) flag_bits)"

definition hdlc_bits :: "bytes \<Rightarrow> int \<Rightarrow> int \<Rightarrow> (phy_error, bool list) result" where
  "hdlc_bits frame_with_fcs pre_flags post_flags =
     (if frame_with_fcs = [] then Inl EmptyFrame
      else if pre_flags < 1 \<or> post_flags < 1 then Inl MissingFlags
      else Inr (flags pre_flags @ stuff_bits (byte_bits_lsb frame_with_fcs) @ flags post_flags))"

fun nrzi_encode_loop :: "bool \<Rightarrow> bool list \<Rightarrow> bool list" where
  "nrzi_encode_loop tone [] = []"
| "nrzi_encode_loop tone (b # bs) =
     (let tone = (if \<not> b then \<not> tone else tone) in tone # nrzi_encode_loop tone bs)"

definition nrzi_encode :: "bool list \<Rightarrow> int \<Rightarrow> (phy_error, bool list) result" where
  "nrzi_encode bits initial_tone =
     (if initial_tone \<notin> {MARK, SPACE} then Inl InvalidInitialTone
      else Inr (nrzi_encode_loop (initial_tone = SPACE) bits))"

fun nrzi_decode_loop :: "bool \<Rightarrow> bool list \<Rightarrow> bool list" where
  "nrzi_decode_loop previous [] = []"
| "nrzi_decode_loop previous (tone # ts) = (tone = previous) # nrzi_decode_loop tone ts"

definition nrzi_decode :: "bool list \<Rightarrow> int \<Rightarrow> (phy_error, bool list) result" where
  "nrzi_decode selectors initial_tone =
     (if initial_tone \<notin> {MARK, SPACE} then Inl InvalidInitialTone
      else Inr (nrzi_decode_loop (initial_tone = SPACE) selectors))"

text \<open>\<open>pack_selectors\<close>: the zeroed array and the loop that sets one bit per selector.\<close>

fun pack_loop :: "nat \<Rightarrow> bool list \<Rightarrow> bytes \<Rightarrow> bytes" where
  "pack_loop i [] out = out"
| "pack_loop i (v # vs) out =
     pack_loop (i + 1) vs
       (if v then out[i div 8 := (out ! (i div 8)) OR drop_bit (i mod 8) 0x80] else out)"

definition pack_selectors :: "bool list \<Rightarrow> bytes" where
  "pack_selectors selectors =
     pack_loop 0 selectors (replicate ((length selectors + 7) div 8) 0)"

definition unpack_selectors :: "bytes \<Rightarrow> int \<Rightarrow> (phy_error, bool list) result" where
  "unpack_selectors packed bit_count =
     (if bit_count < 0 \<or> bit_count > int (length packed) * 8 then Inl InvalidSelectorCount
      else Inr (map (\<lambda>i. (packed ! (i div 8)) AND drop_bit (i mod 8) 0x80 \<noteq> 0) [0..<nat bit_count]))"

definition frame_to_selectors :: "bytes \<Rightarrow> int \<Rightarrow> int \<Rightarrow> int \<Rightarrow> (phy_error, bool list) result" where
  "frame_to_selectors frame_with_fcs pre_flags post_flags initial_tone =
     try_bind (hdlc_bits frame_with_fcs pre_flags post_flags) (\<lambda>bits. nrzi_encode bits initial_tone)"

definition duration_seconds :: "int \<Rightarrow> seconds" where
  "duration_seconds selector_count = of_int selector_count / 1200"

subsection \<open>Octets and bits\<close>

lemma bit_of_shift: "drop_bit i b AND 1 \<noteq> 0 \<longleftrightarrow> bit b i" for b :: byte
  unfolding and_one_neq_0_iff by (simp add: bit_simps)

definition byte_bits :: "byte \<Rightarrow> bool list" where
  "byte_bits b = map (bit b) [0..<8]"

lemma byte_bits_lsb_eq: "byte_bits_lsb data = concat (map byte_bits data)"
  unfolding byte_bits_lsb_def byte_bits_def bit_of_shift by simp

lemma length_byte_bits [simp]: "length (byte_bits b) = 8"
  by (simp add: byte_bits_def)

lemma byte_bits_lsb_simps [simp]:
  "byte_bits_lsb [] = []"
  "byte_bits_lsb (b # bs) = byte_bits b @ byte_bits_lsb bs"
  by (simp_all add: byte_bits_lsb_eq)

lemma length_byte_bits_lsb [simp]: "length (byte_bits_lsb data) = 8 * length data"
  by (induction data) simp_all

lemma byte_bits_inject [simp]: "byte_bits a = byte_bits b \<longleftrightarrow> a = b"
proof
  assume "byte_bits a = byte_bits b"
  then have "\<forall>n\<in>{0..<8}. bit a n = bit b n" by (simp add: byte_bits_def)
  then show "a = b" by (intro bit_word_eqI) simp
qed simp

lemma flag_bits_eq: "flag_bits = [False, True, True, True, True, True, True, False]"
  unfolding flag_bits_def byte_bits_lsb_def FLAG_def by (simp add: upt_rec bit_of_shift)

lemma length_flag_bits [simp]: "length flag_bits = 8"
  by (simp add: flag_bits_eq)

lemma length_flags [simp]: "length (flags n) = 8 * nat n"
  unfolding flags_def by (induction "nat n" arbitrary: n) (simp_all add: length_concat sum_list_replicate)

subsection \<open>Bit stuffing\<close>

text \<open>Stuffing is undone by unstuffing, whatever the count of ones it starts from.\<close>

lemma unstuff_stuff_loop: "ones < 5 \<Longrightarrow> unstuff_loop ones (stuff_loop ones bits) = Inr bits"
  by (induction bits arbitrary: ones) auto

lemma unstuff_stuff: "unstuff_bits (stuff_bits bits) = Inr bits"
  by (simp add: unstuff_bits_def stuff_bits_def unstuff_stuff_loop)

lemma stuff_unstuff_loop:
  "ones < 5 \<Longrightarrow> unstuff_loop ones s = Inr bits \<Longrightarrow> stuff_loop ones bits = s"
proof (induction ones s arbitrary: bits rule: unstuff_loop.induct)
  case (1 ones)
  then show ?case by simp
next
  case (2 ones b bs)
  then show ?case
    by (auto simp: try_bind_Inr_iff split: if_splits list.splits)
qed

text \<open>
  The longest run of ones of a bit string that follows \<open>ones\<close> ones, and the run it ends with. A
  stuffed string never has six ones in a row.
\<close>

fun max_run :: "nat \<Rightarrow> bool list \<Rightarrow> nat" where
  "max_run ones [] = ones"
| "max_run ones (b # bs) = max ones (max_run (if b then Suc ones else 0) bs)"

fun end_run :: "nat \<Rightarrow> bool list \<Rightarrow> nat" where
  "end_run ones [] = ones"
| "end_run ones (b # bs) = end_run (if b then Suc ones else 0) bs"

lemma max_run_ge: "ones \<le> max_run ones bs"
  by (cases bs) auto

lemma max_run_append: "max_run ones (xs @ ys) = max (max_run ones xs) (max_run (end_run ones xs) ys)"
  by (induction xs arbitrary: ones) (auto simp: max.assoc max_run_ge max_absorb2)

lemma max_run_ones: "ones + n \<le> max_run ones (replicate n True @ bs)"
proof (induction n arbitrary: ones)
  case 0
  show ?case by (simp add: max_run_ge)
next
  case (Suc n)
  from Suc [of "Suc ones"] show ?case by simp
qed

lemma max_run_stuff: "ones < 5 \<Longrightarrow> max_run ones (stuff_loop ones bits) \<le> 5"
  by (induction bits arbitrary: ones) auto

lemma no_six_ones:
  assumes "max_run 0 bs \<le> 5"
  shows "\<not> sublist (replicate 6 True) bs"
proof
  assume "sublist (replicate 6 True) bs"
  then obtain ps ss where bs: "bs = ps @ replicate 6 True @ ss" by (auto simp: sublist_def)
  have "6 \<le> max_run 0 bs"
    unfolding bs max_run_append [of 0 ps] using max_run_ones [of "end_run 0 ps" 6 ss] by simp
  with assms show False by simp
qed

lemma stuff_bits_no_six_ones: "\<not> sublist (replicate 6 True) (stuff_bits bits)"
  by (simp add: no_six_ones stuff_bits_def max_run_stuff)

lemma length_stuff_loop:
  "ones < 5 \<Longrightarrow> length bits \<le> length (stuff_loop ones bits) \<and>
     5 * length (stuff_loop ones bits) \<le> 6 * length bits + ones"
proof (induction bits arbitrary: ones)
  case Nil
  then show ?case by simp
next
  case (Cons b bits)
  show ?case
  proof (cases "b \<and> ones + 1 = 5")
    case True
    with Cons.IH [of 0] show ?thesis by auto
  next
    case False
    then show ?thesis
      using Cons.IH [of "if b then ones + 1 else 0"] Cons.prems by (auto split: if_splits)
  qed
qed

lemma length_stuff_bits:
  "length bits \<le> length (stuff_bits bits)" "5 * length (stuff_bits bits) \<le> 6 * length bits"
  using length_stuff_loop [of 0 bits] by (simp_all add: stuff_bits_def)

subsection \<open>NRZI\<close>

lemma nrzi_decode_encode_loop: "nrzi_decode_loop t (nrzi_encode_loop t bits) = bits"
  by (induction bits arbitrary: t) (auto simp: Let_def)

lemma nrzi_encode_decode_loop: "nrzi_encode_loop t (nrzi_decode_loop t tones) = tones"
  by (induction tones arbitrary: t) (auto simp: Let_def)

lemma length_nrzi_encode_loop [simp]: "length (nrzi_encode_loop t bits) = length bits"
  by (induction bits arbitrary: t) (auto simp: Let_def)

subsection \<open>Packed selectors\<close>

lemma bit_msb_mask: "bit (drop_bit p (0x80 :: byte)) n \<longleftrightarrow> n + p = 7"
proof -
  have "bit (0x80 :: byte) m \<longleftrightarrow> m = 7" for m
  proof
    assume bm: "bit (0x80 :: byte) m"
    then have "m < 8" by (auto dest: bit_imp_le_length)
    then consider "m = 0" | "m = 1" | "m = 2" | "m = 3" | "m = 4" | "m = 5" | "m = 6" | "m = 7"
      by fastforce
    then show "m = 7" using bm by cases simp_all
  qed simp
  then show ?thesis by (simp add: bit_simps add.commute)
qed

lemma bit_msb_mask': "p < 8 \<Longrightarrow> bit (drop_bit q (0x80 :: byte)) (7 - p) \<longleftrightarrow> q = p"
  by (simp add: bit_msb_mask) arith

lemma and_msb_mask: "p < 8 \<Longrightarrow> x AND drop_bit p 0x80 \<noteq> 0 \<longleftrightarrow> bit x (7 - p)" for x :: byte
proof
  assume "p < 8" "x AND drop_bit p 0x80 \<noteq> 0"
  then obtain n where "bit (x AND drop_bit p 0x80) n" using bit_word_eqI [of "x AND drop_bit p 0x80" 0] by auto
  then have "bit x n" "n + p = 7" by (auto simp: bit_and_iff bit_msb_mask)
  then show "bit x (7 - p)" by (metis add_diff_cancel_right')
next
  assume "p < 8" "bit x (7 - p)"
  then have "bit (x AND drop_bit p 0x80) (7 - p)" by (simp add: bit_and_iff bit_msb_mask)
  then show "x AND drop_bit p 0x80 \<noteq> 0" by (metis bit_0_eq bot_apply bot_bool_def)
qed

lemma length_pack_loop [simp]: "length (pack_loop i vs out) = length out"
  by (induction vs arbitrary: i out) auto

lemma split_index: "p < 8 \<Longrightarrow> i = 8 * k + p \<longleftrightarrow> k = i div 8 \<and> p = i mod 8" for i k p :: nat
  by auto

lemma bit_pack_loop:
  assumes "i + length vs \<le> 8 * length out" "k < length out" "p < 8"
  shows "bit (pack_loop i vs out ! k) (7 - p) \<longleftrightarrow>
    bit (out ! k) (7 - p) \<or> (\<exists>j < length vs. vs ! j \<and> i + j = 8 * k + p)"
  using assms
proof (induction vs arbitrary: i out)
  case Nil
  then show ?case by simp
next
  case (Cons v vs)
  define out' where "out' = (if v then out[i div 8 := (out ! (i div 8)) OR drop_bit (i mod 8) 0x80] else out)"
  have len: "length out' = length out" by (simp add: out'_def)
  have i: "i div 8 < length out" using Cons.prems(1) by (simp add: less_mult_imp_div_less mult.commute)
  have "bit (out' ! k) (7 - p) \<longleftrightarrow> bit (out ! k) (7 - p) \<or> (v \<and> i = 8 * k + p)"
    unfolding split_index [OF Cons.prems(3)] using i Cons.prems(3)
    by (cases "k = i div 8") (simp_all add: out'_def bit_or_iff bit_msb_mask' eq_commute)
  moreover have "bit (pack_loop (i + 1) vs out' ! k) (7 - p) \<longleftrightarrow>
      bit (out' ! k) (7 - p) \<or> (\<exists>j < length vs. vs ! j \<and> (i + 1) + j = 8 * k + p)"
    using Cons.prems by (intro Cons.IH) (simp_all add: len)
  moreover have "(\<exists>j < length (v # vs). (v # vs) ! j \<and> i + j = 8 * k + p) \<longleftrightarrow>
      (v \<and> i = 8 * k + p) \<or> (\<exists>j < length vs. vs ! j \<and> (i + 1) + j = 8 * k + p)"
    by (simp add: Ex_less_Suc2)
  ultimately show ?case by (simp only: pack_loop.simps out'_def [symmetric] disj_assoc)
qed

lemma length_pack_selectors [simp]: "length (pack_selectors s) = (length s + 7) div 8"
  by (simp add: pack_selectors_def)

lemma unpack_pack_selectors: "unpack_selectors (pack_selectors s) (int (length s)) = Inr s"
proof -
  have fits: "length s \<le> 8 * ((length s + 7) div 8)" by simp
  have "(pack_selectors s ! (i div 8)) AND drop_bit (i mod 8) 0x80 \<noteq> 0 \<longleftrightarrow> s ! i" if "i < length s" for i
  proof -
    have "i div 8 < (length s + 7) div 8" using that by (simp add: div_less_iff_less_mult)
    then have "bit (pack_selectors s ! (i div 8)) (7 - i mod 8) \<longleftrightarrow> (\<exists>j < length s. s ! j \<and> j = 8 * (i div 8) + i mod 8)"
      unfolding pack_selectors_def using fits by (subst bit_pack_loop) simp_all
    then show ?thesis using that by (subst and_msb_mask) auto
  qed
  then have "map (\<lambda>i. (pack_selectors s ! (i div 8)) AND drop_bit (i mod 8) 0x80 \<noteq> 0) [0..<length s] = s"
    by (intro nth_equalityI) simp_all
  then show ?thesis using fits by (simp add: unpack_selectors_def)
qed

subsection \<open>The whole burst\<close>

lemma nrzi_encode_mark: "nrzi_encode bits MARK = Inr (nrzi_encode_loop False bits)"
  by (simp add: nrzi_encode_def MARK_def SPACE_def)

lemma frame_to_selectors_ok:
  assumes "frame \<noteq> []" "1 \<le> pre" "1 \<le> post"
  shows "frame_to_selectors frame pre post MARK =
    Inr (nrzi_encode_loop False (flags pre @ stuff_bits (byte_bits_lsb frame) @ flags post))"
  using assms by (simp add: frame_to_selectors_def hdlc_bits_def nrzi_encode_mark)

lemma selectors_decode:
  assumes "frame_to_selectors frame pre post tone = Inr sel"
  shows "nrzi_decode sel tone = Inr (flags pre @ stuff_bits (byte_bits_lsb frame) @ flags post)"
    and "length sel = 8 * nat pre + length (stuff_bits (byte_bits_lsb frame)) + 8 * nat post"
  using assms
  by (auto simp: frame_to_selectors_def hdlc_bits_def nrzi_encode_def nrzi_decode_def
      nrzi_decode_encode_loop split: if_splits)
text \<open>
  Unstuffing is the exact inverse of stuffing: it accepts precisely the stuffed bit strings and
  returns the bits they were made from, and rejects every other string.
\<close>

theorem unstuff_iff: "unstuff_bits s = Inr bits \<longleftrightarrow> s = stuff_bits bits"
  using stuff_unstuff_loop [of 0 s bits] unstuff_stuff [of bits]
  by (auto simp: unstuff_bits_def stuff_bits_def)

end
