(* ===== verification/Modem_Protocol.thy ===== *)
theory Modem_Protocol
  imports Py_Text Bell202_Tx
begin

unbundle bit_operations_syntax

section \<open>The MMDVM host protocol\<close>

text \<open>
  \<open>src/src/ywd1278/modem/protocol.py\<close>, the typed radio setup of \<open>modem/rx_config.py\<close> and
  \<open>modem/tx_config.py\<close>, and the permitted transmit profiles of \<open>src/src/ywdtnc/rf_profiles.py\<close>:
  the requests the host sends to the modem and the checks it makes on the responses.
\<close>

subsection \<open>Model: frames\<close>

datatype host_error =
    OctetRange | HostFrameTooLong | TruncatedHostFrame | InvalidStartByte | InvalidFrameLength
  | FrameLengthMismatch | UnexpectedCommand | AckMismatch | MalformedNAK | MissingVersion
  | IdentityNotASCII | EmptyIdentity | MalformedRFStatus | MalformedRFDiag | SelectorCountRange
  | PackedLengthMismatch | MalformedRSSI | MalformedRXStatus | RXReadRange | MalformedRXRead
  | RXReadCountMismatch | FrequencyOutsideBands | FrequencyProtected | UnsupportedTXProfile

definition HOST_START :: byte where "HOST_START = 0xE0"
definition GET_VERSION :: int where "GET_VERSION = 0x00"
definition SET_CONFIG :: int where "SET_CONFIG = 0x02"
definition SET_FREQ :: int where "SET_FREQ = 0x04"
definition HOST_ACK :: int where "HOST_ACK = 0x70"
definition HOST_NAK :: int where "HOST_NAK = 0x7F"
definition YWD_CONTROL :: int where "YWD_CONTROL = 0x56"
definition YWD_RF :: int where "YWD_RF = 0x58"
definition YWD_RX :: int where "YWD_RX = 0x59"
definition RF_GET_STATUS :: byte where "RF_GET_STATUS = 0x01"
definition RF_TX_TONES :: byte where "RF_TX_TONES = 0x02"
definition RF_ABORT :: byte where "RF_ABORT = 0x03"
definition RF_EXIT :: byte where "RF_EXIT = 0x04"
definition RF_GET_DIAG :: byte where "RF_GET_DIAG = 0x05"
definition RX_START :: byte where "RX_START = 0x01"
definition RX_READ :: byte where "RX_READ = 0x02"
definition RX_STOP :: byte where "RX_STOP = 0x03"
definition RX_STATUS :: byte where "RX_STATUS = 0x04"
definition RX_RSSI :: byte where "RX_RSSI = 0x05"
definition RX_PROTOCOL_REVISION :: byte where "RX_PROTOCOL_REVISION = 3"
definition MAX_FRAME_BYTES :: int where "MAX_FRAME_BYTES = 255"
definition MAX_RX_READ_BYTES :: int where "MAX_RX_READ_BYTES = 200"
definition MAX_SELECTORS :: int where "MAX_SELECTORS = 1920"

lemmas host_opcode_defs =
  HOST_START_def GET_VERSION_def SET_CONFIG_def SET_FREQ_def HOST_ACK_def HOST_NAK_def
  YWD_CONTROL_def YWD_RF_def YWD_RX_def RF_GET_STATUS_def RF_TX_TONES_def RF_ABORT_def RF_EXIT_def
  RF_GET_DIAG_def RX_START_def RX_READ_def RX_STOP_def RX_STATUS_def RX_RSSI_def
  RX_PROTOCOL_REVISION_def MAX_FRAME_BYTES_def MAX_RX_READ_BYTES_def MAX_SELECTORS_def

record host_frame =
  hf_command :: int
  hf_payload :: bytes

record version_response =
  vr_protocol_version :: int
  vr_identity :: string

record nak_response =
  nr_command :: int
  nr_error :: int

record rf_status =
  rf_flags :: int
  rf_remaining_selectors :: int
  rf_mode :: int

record rf_diagnostics =
  rd_interrupt_count :: int
  rd_keyups :: int
  rd_generated_samples :: int
  rd_tx_active :: int

record rx3_status =
  rx_flags :: int
  rx_available_bytes :: int
  rx_samples :: int
  rx_dropped_bytes :: int

record rx_rssi =
  rssi_raw_magnitude :: int

definition octet :: "int \<Rightarrow> (host_error, byte) result" where
  "octet v = (if \<not> (0 \<le> v \<and> v \<le> 0xFF) then Inl OctetRange else Inr (word_of_int v))"

definition build_frame :: "int \<Rightarrow> bytes \<Rightarrow> (host_error, bytes) result" where
  "build_frame command payload =
     try_bind (octet command)
       (\<lambda>c.
          let total = 3 + int (length payload) in
          if total > MAX_FRAME_BYTES then Inl HostFrameTooLong
          else Inr ([HOST_START, word_of_int total, c] @ payload))"

definition frame_encoded :: "host_frame \<Rightarrow> (host_error, bytes) result" where
  "frame_encoded f = build_frame (hf_command f) (hf_payload f)"

definition host_parse_frame :: "bytes \<Rightarrow> int option \<Rightarrow> (host_error, host_frame) result" where
  "host_parse_frame data expected_command =
     (if length data < 3 then Inl TruncatedHostFrame
      else if data ! 0 \<noteq> HOST_START then Inl InvalidStartByte
      else if uint (data ! 1) < 3 then Inl InvalidFrameLength
      else if uint (data ! 1) \<noteq> int (length data) then Inl FrameLengthMismatch
      else
        (let command = uint (data ! 2) in
         if expected_command \<noteq> None \<and> expected_command \<noteq> Some command then Inl UnexpectedCommand
         else Inr \<lparr>hf_command = command, hf_payload = drop 3 data\<rparr>))"

definition ack_for :: "int \<Rightarrow> (host_error, bytes) result" where
  "ack_for command = try_bind (octet command) (\<lambda>c. build_frame HOST_ACK [c])"

definition nak_for :: "int \<Rightarrow> int \<Rightarrow> (host_error, bytes) result" where
  "nak_for command err =
     try_bind (octet command) (\<lambda>c. try_bind (octet err) (\<lambda>e. build_frame HOST_NAK [c, e]))"

definition parse_ack :: "bytes \<Rightarrow> int \<Rightarrow> (host_error, unit) result" where
  "parse_ack data expected_command =
     try_bind (host_parse_frame data (Some HOST_ACK))
       (\<lambda>frame. try_bind (octet expected_command)
          (\<lambda>c. if hf_payload frame \<noteq> [c] then Inl AckMismatch else Inr ()))"

definition parse_nak :: "bytes \<Rightarrow> (host_error, nak_response) result" where
  "parse_nak data =
     try_bind (host_parse_frame data (Some HOST_NAK))
       (\<lambda>frame.
          if length (hf_payload frame) \<noteq> 2 then Inl MalformedNAK
          else Inr \<lparr>nr_command = uint (hf_payload frame ! 0), nr_error = uint (hf_payload frame ! 1)\<rparr>)"

subsection \<open>Model: requests and responses\<close>

definition get_version_request :: "(host_error, bytes) result" where
  "get_version_request = build_frame GET_VERSION []"

text \<open>\<open>bytes.decode("ascii", "strict")\<close>: octets above 127 raise.\<close>

definition decode_ascii :: "bytes \<Rightarrow> string option" where
  "decode_ascii bs =
     (if list_all (\<lambda>b. unat b < 128) bs then Some (map (\<lambda>b. py_chr (unat b)) bs) else None)"

definition parse_version_response :: "bytes \<Rightarrow> (host_error, version_response) result" where
  "parse_version_response data =
     try_bind (host_parse_frame data (Some GET_VERSION))
       (\<lambda>frame.
          if length (hf_payload frame) < 2 then Inl MissingVersion
          else
            (let raw_identity = takeWhile (\<lambda>b. b \<noteq> 0) (tl (hf_payload frame)) in
             case decode_ascii raw_identity of
               None \<Rightarrow> Inl IdentityNotASCII
             | Some text \<Rightarrow>
                 (let identity = py_strip text in
                  if identity = [] then Inl EmptyIdentity
                  else Inr \<lparr>vr_protocol_version = uint (hf_payload frame ! 0), vr_identity = identity\<rparr>)))"

definition control_request :: "int \<Rightarrow> (host_error, bytes) result" where
  "control_request subcommand = try_bind (octet subcommand) (\<lambda>s. build_frame YWD_CONTROL [s])"

definition rf_status_request :: "(host_error, bytes) result" where
  "rf_status_request = build_frame YWD_RF [RF_GET_STATUS]"

definition parse_rf_status :: "bytes \<Rightarrow> (host_error, rf_status) result" where
  "parse_rf_status data =
     try_bind (host_parse_frame data (Some YWD_RF))
       (\<lambda>frame.
          let p = hf_payload frame in
          if length p \<noteq> 6 \<or> take 2 p \<noteq> [RF_GET_STATUS, 1] then Inl MalformedRFStatus
          else Inr \<lparr>rf_flags = uint (p ! 2),
            rf_remaining_selectors = uint (p ! 3) OR push_bit 8 (uint (p ! 4)), rf_mode = uint (p ! 5)\<rparr>)"

definition rf_diag_request :: "(host_error, bytes) result" where
  "rf_diag_request = build_frame YWD_RF [RF_GET_DIAG]"

definition parse_rf_diagnostics :: "bytes \<Rightarrow> (host_error, rf_diagnostics) result" where
  "parse_rf_diagnostics data =
     try_bind (host_parse_frame data (Some YWD_RF))
       (\<lambda>frame.
          let p = hf_payload frame in
          if length p \<noteq> 7 \<or> p ! 0 \<noteq> RF_GET_DIAG then Inl MalformedRFDiag
          else Inr \<lparr>rd_interrupt_count = uint (p ! 1) OR push_bit 8 (uint (p ! 2)),
            rd_keyups = uint (p ! 3),
            rd_generated_samples = uint (p ! 4) OR push_bit 8 (uint (p ! 5)),
            rd_tx_active = uint (p ! 6)\<rparr>)"

definition rf_exit_request :: "(host_error, bytes) result" where
  "rf_exit_request = build_frame YWD_RF [RF_EXIT]"

definition rf_abort_request :: "(host_error, bytes) result" where
  "rf_abort_request = build_frame YWD_RF [RF_ABORT]"

definition rf_tx_tones_request :: "int \<Rightarrow> bytes \<Rightarrow> (host_error, bytes) result" where
  "rf_tx_tones_request selector_count packed_selectors =
     (if \<not> (1 \<le> selector_count \<and> selector_count \<le> MAX_SELECTORS) then Inl SelectorCountRange
      else
        (let expected_bytes = (selector_count + 7) div 8 in
         if int (length packed_selectors) \<noteq> expected_bytes then Inl PackedLengthMismatch
         else
           build_frame YWD_RF
             ([RF_TX_TONES, word_of_int (selector_count AND 0xFF),
               word_of_int (drop_bit 8 selector_count AND 0xFF)] @ packed_selectors)))"

definition rx_start_request :: "(host_error, bytes) result" where
  "rx_start_request = build_frame YWD_RX [RX_START]"

definition rx_stop_request :: "(host_error, bytes) result" where
  "rx_stop_request = build_frame YWD_RX [RX_STOP]"

definition rx_status_request :: "(host_error, bytes) result" where
  "rx_status_request = build_frame YWD_RX [RX_STATUS]"

definition rx_rssi_request :: "(host_error, bytes) result" where
  "rx_rssi_request = build_frame YWD_RX [RX_RSSI]"

definition parse_rx_rssi :: "bytes \<Rightarrow> (host_error, rx_rssi) result" where
  "parse_rx_rssi data =
     try_bind (host_parse_frame data (Some YWD_RX))
       (\<lambda>frame.
          let p = hf_payload frame in
          if length p \<noteq> 3 \<or> p ! 0 \<noteq> RX_RSSI then Inl MalformedRSSI
          else Inr \<lparr>rssi_raw_magnitude = uint (p ! 1) OR push_bit 8 (uint (p ! 2))\<rparr>)"

definition parse_rx3_status :: "bytes \<Rightarrow> (host_error, rx3_status) result" where
  "parse_rx3_status data =
     try_bind (host_parse_frame data (Some YWD_RX))
       (\<lambda>frame.
          let p = hf_payload frame in
          if length p \<noteq> 11 \<or> take 2 p \<noteq> [RX_STATUS, RX_PROTOCOL_REVISION] then Inl MalformedRXStatus
          else Inr \<lparr>rx_flags = uint (p ! 2),
            rx_available_bytes = uint (p ! 3) OR push_bit 8 (uint (p ! 4)),
            rx_samples = uint (p ! 5) OR push_bit 8 (uint (p ! 6)) OR push_bit 16 (uint (p ! 7))
              OR push_bit 24 (uint (p ! 8)),
            rx_dropped_bytes = uint (p ! 9) OR push_bit 8 (uint (p ! 10))\<rparr>)"

definition rx_read_request :: "int \<Rightarrow> (host_error, bytes) result" where
  "rx_read_request maximum =
     (if \<not> (1 \<le> maximum \<and> maximum \<le> MAX_RX_READ_BYTES) then Inl RXReadRange
      else build_frame YWD_RX [RX_READ, word_of_int maximum])"

definition parse_rx_read :: "bytes \<Rightarrow> (host_error, bytes) result" where
  "parse_rx_read data =
     try_bind (host_parse_frame data (Some YWD_RX))
       (\<lambda>frame.
          let p = hf_payload frame in
          if length p < 2 \<or> p ! 0 \<noteq> RX_READ then Inl MalformedRXRead
          else if uint (p ! 1) \<noteq> int (length (drop 2 p)) then Inl RXReadCountMismatch
          else Inr (drop 2 p))"

subsection \<open>Model: radio setup\<close>

definition RX_MODEM_IO_CONFIG :: bytes where
  "RX_MODEM_IO_CONFIG = [0x80, 0x02, 0x00, 0x00, 0x00, 120, 1, 0, 0, 50, 50, 50, 50]"

definition validate_rx_frequency_hz :: "int \<Rightarrow> (host_error, int) result" where
  "validate_rx_frequency_hz hz =
     (if \<not> (144000000 \<le> hz \<and> hz < 148000000 \<or> 219000000 \<le> hz \<and> hz < 225000000
         \<or> 420000000 \<le> hz \<and> hz < 475000000 \<or> 842000000 \<le> hz \<and> hz < 950000000)
      then Inl FrequencyOutsideBands
      else if 145800000 \<le> hz \<and> hz \<le> 146000000 \<or> 435000000 \<le> hz \<and> hz \<le> 438000000
      then Inl FrequencyProtected
      else Inr hz)"

definition set_rx_frequency_request :: "int \<Rightarrow> (host_error, bytes) result" where
  "set_rx_frequency_request frequency_hz =
     try_bind (validate_rx_frequency_hz frequency_hz)
       (\<lambda>hz. build_frame SET_FREQ ([0x00] @ to_bytes_le 4 hz @ to_bytes_le 4 hz @ [1]))"

definition arm_rx_modem_io_request :: "(host_error, bytes) result" where
  "arm_rx_modem_io_request = build_frame SET_CONFIG RX_MODEM_IO_CONFIG"

definition P13B_TX_FREQUENCY_HZ :: int where "P13B_TX_FREQUENCY_HZ = 145050000"
definition P13B_TX_POWER :: int where "P13B_TX_POWER = 200"

definition p13b_tx_frequency_request :: "(host_error, bytes) result" where
  "p13b_tx_frequency_request =
     build_frame SET_FREQ
       ([0x00] @ to_bytes_le 4 P13B_TX_FREQUENCY_HZ @ to_bytes_le 4 P13B_TX_FREQUENCY_HZ
         @ [word_of_int P13B_TX_POWER])"

definition QUALIFIED_TX_FREQUENCY_HZ :: int where "QUALIFIED_TX_FREQUENCY_HZ = 145050000"
definition QUALIFIED_TX_POWER :: int where "QUALIFIED_TX_POWER = 200"
definition APRS_TX_FREQUENCY_HZ :: int where "APRS_TX_FREQUENCY_HZ = 144390000"
definition APRS_TX_POWER :: int where "APRS_TX_POWER = 200"

definition PERMITTED_TX_PROFILES :: "(int \<times> int) set" where
  "PERMITTED_TX_PROFILES =
     {(QUALIFIED_TX_FREQUENCY_HZ, QUALIFIED_TX_POWER), (APRS_TX_FREQUENCY_HZ, APRS_TX_POWER)}"

definition validate_tx_profile :: "int \<Rightarrow> int \<Rightarrow> (host_error, int \<times> int) result" where
  "validate_tx_profile frequency_hz tx_power =
     (if (frequency_hz, tx_power) \<notin> PERMITTED_TX_PROFILES then Inl UnsupportedTXProfile
      else Inr (frequency_hz, tx_power))"

definition build_tx_profile_request :: "int \<Rightarrow> int \<Rightarrow> (host_error, bytes) result" where
  "build_tx_profile_request frequency_hz tx_power =
     try_bind (validate_tx_profile frequency_hz tx_power)
       (\<lambda>(frequency_hz, tx_power).
          build_frame SET_FREQ
            ([0x00] @ to_bytes_le 4 frequency_hz @ to_bytes_le 4 frequency_hz @ [word_of_int tx_power]))"

lemmas host_profile_defs =
  QUALIFIED_TX_FREQUENCY_HZ_def QUALIFIED_TX_POWER_def APRS_TX_FREQUENCY_HZ_def APRS_TX_POWER_def
  PERMITTED_TX_PROFILES_def P13B_TX_FREQUENCY_HZ_def P13B_TX_POWER_def

subsection \<open>Frames\<close>

lemma octet_Inr_iff: "octet v = Inr c \<longleftrightarrow> 0 \<le> v \<and> v \<le> 255 \<and> c = word_of_int v"
  by (auto simp: octet_def)

lemma build_frame_Inr_iff:
  "build_frame command payload = Inr data \<longleftrightarrow>
     0 \<le> command \<and> command \<le> 255 \<and> length payload \<le> 252 \<and>
     data = [HOST_START, word_of_int (3 + int (length payload)), word_of_int command] @ payload"
  by (auto simp: build_frame_def try_bind_Inr_iff octet_Inr_iff MAX_FRAME_BYTES_def)

lemma uint_byte_id: "0 \<le> v \<Longrightarrow> v \<le> 255 \<Longrightarrow> uint (word_of_int v :: byte) = v"
  by (simp add: uint_word_of_int_byte)

lemma uint_byte_iff: "uint b = v \<longleftrightarrow> 0 \<le> v \<and> v \<le> 255 \<and> b = word_of_int v" for b :: byte
  using uint_byte_bounds [of b] uint_byte_id [of v] by auto

lemma length_3_decomp: "3 \<le> length data \<Longrightarrow> \<exists>a b c rest. data = a # b # c # rest"
  by (metis Suc_le_length_iff numeral_3_eq_3)

lemma host_parse_frame_iff:
  "host_parse_frame data expected = Inr f \<longleftrightarrow>
     build_frame (hf_command f) (hf_payload f) = Inr data \<and>
     (expected = None \<or> expected = Some (hf_command f))"
proof (cases "3 \<le> length data")
  case False
  then show ?thesis by (auto simp: host_parse_frame_def build_frame_Inr_iff)
next
  case True
  then obtain a b c rest where data: "data = a # b # c # rest" using length_3_decomp by blast
  have "uint b = 3 + int (length rest) \<longleftrightarrow> length rest \<le> 252 \<and> b = word_of_int (3 + int (length rest))"
    unfolding uint_byte_iff by auto
  then have "host_parse_frame data expected = Inr f \<longleftrightarrow>
      a = HOST_START \<and> length rest \<le> 252 \<and> b = word_of_int (3 + int (length rest)) \<and>
      (expected = None \<or> expected = Some (uint c)) \<and> f = \<lparr>hf_command = uint c, hf_payload = rest\<rparr>"
    by (auto simp: data host_parse_frame_def Let_def algebra_simps simp del: of_int_add of_int_of_nat_eq)
  moreover have "build_frame (hf_command f) (hf_payload f) = Inr data \<longleftrightarrow>
      a = HOST_START \<and> length rest \<le> 252 \<and> b = word_of_int (3 + int (length rest)) \<and>
      f = \<lparr>hf_command = uint c, hf_payload = rest\<rparr>"
  proof -
    have "c = word_of_int v \<and> 0 \<le> v \<and> v \<le> 255 \<longleftrightarrow> v = uint c" for v
      using uint_byte_iff [of c v] by metis
    moreover have "f = \<lparr>hf_command = uint c, hf_payload = rest\<rparr> \<longleftrightarrow> hf_command f = uint c \<and> hf_payload f = rest"
      by (cases f) simp
    ultimately show ?thesis
      unfolding build_frame_Inr_iff data by (simp del: of_int_add of_int_of_nat_eq) metis
  qed
  ultimately show ?thesis by auto
qed

text \<open>
  C32. The host frame parser is the exact inverse of the frame builder: a frame is accepted
  precisely when it is what the builder makes of the parsed command and payload, so the start
  octet, the length octet and the length of the data always agree.
\<close>

theorem host_frame_iff: "host_parse_frame data None = Inr f \<longleftrightarrow> frame_encoded f = Inr data"
  by (simp add: host_parse_frame_iff frame_encoded_def)

subsection \<open>Multi-octet fields\<close>

lemma or_disjoint_byte: "0 \<le> a \<Longrightarrow> a < 256 \<Longrightarrow> a OR push_bit 8 b = a + 256 * b" for a b :: int
proof -
  assume a: "0 \<le> a" "a < 256"
  then have "take_bit 8 a = a" by (simp add: take_bit_int_eq_self)
  then have "a AND push_bit 8 b = 0"
    by (intro bit_eqI) (metis bit_0_eq bit_and_iff bit_push_bit_iff bit_take_bit_iff bot_apply bot_bool_def not_le)
  then have "a OR push_bit 8 b = a + push_bit 8 b" by (simp add: disjunctive_add_eq_or)
  then show ?thesis by (simp add: push_bit_eq_mult)
qed

lemma le16_field: "uint (a :: byte) OR push_bit 8 (uint (b :: byte)) = from_bytes_le [a, b]"
  using uint_byte_bounds [of a] by (simp add: or_disjoint_byte)

lemma le32_field:
  "uint (a :: byte) OR push_bit 8 (uint (b :: byte)) OR push_bit 16 (uint (c :: byte))
     OR push_bit 24 (uint (d :: byte)) = from_bytes_le [a, b, c, d]"
proof -
  have "push_bit 16 x = push_bit 8 (push_bit 8 x)" "push_bit 24 x = push_bit 8 (push_bit 8 (push_bit 8 x))" for x :: int
    by (simp_all add: push_bit_push_bit)
  then have "uint a OR push_bit 8 (uint b) OR push_bit 16 (uint c) OR push_bit 24 (uint d) =
      uint a OR push_bit 8 (uint b OR push_bit 8 (uint c OR push_bit 8 (uint d)))"
    by (simp add: push_bit_or or.assoc)
  then show ?thesis
    using uint_byte_bounds [of a] uint_byte_bounds [of b] uint_byte_bounds [of c]
    by (simp add: or_disjoint_byte)
qed

lemma split_selector_count:
  "[word_of_int (n AND 0xFF), word_of_int (drop_bit 8 n AND 0xFF)] = to_bytes_le 2 n"
proof -
  have "n AND 0xFF = n mod 256" for n :: int using take_bit_eq_mask [of 8 n] by (simp add: mask_eq_exp_minus_1 take_bit_eq_mod)
  moreover have "(word_of_int (x mod 256) :: byte) = word_of_int x" for x
    by (rule word_uint_eqI) (simp add: uint_word_of_int_byte)
  ultimately show ?thesis by (simp add: eval_nat_numeral drop_bit_eq_div)
qed

text \<open>
  The modem can recover exactly the tones the host wants sent. For every selector string of 1 to
  1920 bits the request to transmit it is built, has at most 246 octets, and parses as an RF command
  whose two count octets give the number of selectors and whose remaining octets unpack to the
  string; a string outside that range is refused.
\<close>

theorem tx_tones_request_carries_selectors:
  "if 1 \<le> length s \<and> length s \<le> 1920 then
     \<exists>data lo hi packed.
       rf_tx_tones_request (int (length s)) (pack_selectors s) = Inr data \<and> length data \<le> 246 \<and>
       host_parse_frame data (Some YWD_RF) =
         Inr \<lparr>hf_command = YWD_RF, hf_payload = RF_TX_TONES # lo # hi # packed\<rparr> \<and>
       from_bytes_le [lo, hi] = int (length s) \<and>
       unpack_selectors packed (from_bytes_le [lo, hi]) = Inr s
   else rf_tx_tones_request (int (length s)) (pack_selectors s) = Inl SelectorCountRange"
proof (cases "1 \<le> length s \<and> length s \<le> 1920")
  case False
  then show ?thesis by (auto simp: rf_tx_tones_request_def MAX_SELECTORS_def)
next
  case True
  define n where "n = int (length s)"
  define packed where "packed = pack_selectors s"
  define data where "data = [HOST_START, word_of_int (3 + int (3 + length packed)), word_of_int YWD_RF]
    @ RF_TX_TONES # to_bytes_le 2 n @ packed"
  obtain lo hi where le: "to_bytes_le 2 n = [lo, hi]" by (simp add: eval_nat_numeral)
  have len: "int (length packed) = (n + 7) div 8" "length packed \<le> 240"
    using True by (auto simp: packed_def n_def)
  have built: "build_frame YWD_RF (RF_TX_TONES # to_bytes_le 2 n @ packed) = Inr data"
    using len by (simp add: build_frame_Inr_iff YWD_RF_def data_def)
  then have "rf_tx_tones_request n packed = Inr data"
    using True len unfolding rf_tx_tones_request_def split_selector_count [symmetric]
    by (simp add: n_def MAX_SELECTORS_def)
  moreover have "host_parse_frame data (Some YWD_RF) =
      Inr \<lparr>hf_command = YWD_RF, hf_payload = RF_TX_TONES # lo # hi # packed\<rparr>"
    using built by (simp add: host_parse_frame_iff le)
  moreover have "from_bytes_le [lo, hi] = n"
    using True from_to_bytes_le_id [of n 2] by (simp only: le [symmetric]) (simp add: n_def)
  moreover have "unpack_selectors packed n = Inr s"
    unfolding packed_def n_def by (rule unpack_pack_selectors)
  moreover have "length data \<le> 246" using len by (simp add: data_def)
  ultimately show ?thesis using True unfolding n_def packed_def by auto
qed

subsection \<open>Responses\<close>

lemma parse_response_iff:
  "try_bind (host_parse_frame data (Some c)) g = Inr r \<longleftrightarrow>
     (\<exists>q. build_frame c q = Inr data \<and> g \<lparr>hf_command = c, hf_payload = q\<rparr> = Inr r)"
proof -
  have "host_parse_frame data (Some c) = Inr f \<longleftrightarrow>
      build_frame c (hf_payload f) = Inr data \<and> f = \<lparr>hf_command = c, hf_payload = hf_payload f\<rparr>" for f
    unfolding host_parse_frame_iff by (cases f) auto
  then show ?thesis unfolding try_bind_Inr_iff by (metis host_frame.select_convs(2))
qed

text \<open>
  A read response is accepted precisely when the modem built it from the returned octets with
  their true count, so a truncated or padded read never yields receive data.
\<close>

theorem rx_read_iff:
  "parse_rx_read data = Inr p \<longleftrightarrow>
     build_frame YWD_RX (RX_READ # word_of_int (int (length p)) # p) = Inr data"
proof -
  have sub: "(2 \<le> length q \<and> q ! 0 = RX_READ \<and> uint (q ! 1) = int (length (drop 2 q)) \<and> p = drop 2 q) \<longleftrightarrow>
      length p \<le> 255 \<and> q = RX_READ # word_of_int (int (length p)) # p" for q
  proof
    assume l: "2 \<le> length q \<and> q ! 0 = RX_READ \<and> uint (q ! 1) = int (length (drop 2 q)) \<and> p = drop 2 q"
    then obtain a b where q: "q = a # b # p" by (cases q; cases "tl q") auto
    from l have "uint b = int (length p)" by (simp add: q)
    then have "length p \<le> 255" "b = word_of_int (int (length p))"
      unfolding uint_byte_iff by simp_all
    with l q show "length p \<le> 255 \<and> q = RX_READ # word_of_int (int (length p)) # p" by simp
  qed (simp add: uint_byte_id del: of_int_of_nat_eq)
  have "parse_rx_read data = Inr p \<longleftrightarrow> (\<exists>q. build_frame YWD_RX q = Inr data \<and>
        2 \<le> length q \<and> q ! 0 = RX_READ \<and> uint (q ! 1) = int (length (drop 2 q)) \<and> p = drop 2 q)"
    unfolding parse_rx_read_def parse_response_iff Let_def by (auto split: if_splits)
  then show ?thesis unfolding sub by (auto simp: build_frame_Inr_iff)
qed

lemma parse_rx3_status_iff:
  "parse_rx3_status data = Inr st \<longleftrightarrow>
     0 \<le> rx_flags st \<and> rx_flags st < 2 ^ 8 \<and> 0 \<le> rx_available_bytes st \<and> rx_available_bytes st < 2 ^ 16 \<and>
     0 \<le> rx_samples st \<and> rx_samples st < 2 ^ 32 \<and> 0 \<le> rx_dropped_bytes st \<and> rx_dropped_bytes st < 2 ^ 16 \<and>
     build_frame YWD_RX ([RX_STATUS, RX_PROTOCOL_REVISION] @ to_bytes_le 1 (rx_flags st)
       @ to_bytes_le 2 (rx_available_bytes st) @ to_bytes_le 4 (rx_samples st)
       @ to_bytes_le 2 (rx_dropped_bytes st)) = Inr data" (is "_ \<longleftrightarrow> ?R")
proof
  assume "parse_rx3_status data = Inr st"
  then obtain q where q: "build_frame YWD_RX q = Inr data" "length q = 11"
      "take 2 q = [RX_STATUS, RX_PROTOCOL_REVISION]"
    and st: "st = \<lparr>rx_flags = uint (q ! 2), rx_available_bytes = from_bytes_le [q ! 3, q ! 4],
      rx_samples = from_bytes_le [q ! 5, q ! 6, q ! 7, q ! 8],
      rx_dropped_bytes = from_bytes_le [q ! 9, q ! 10]\<rparr>"
    unfolding parse_rx3_status_def parse_response_iff Let_def le16_field le32_field
    by (auto split: if_splits)
  obtain f a1 a2 s1 s2 s3 s4 d1 d2 where
    q': "q = [RX_STATUS, RX_PROTOCOL_REVISION] @ [f] @ [a1, a2] @ [s1, s2, s3, s4] @ [d1, d2]"
    using q(2,3) by (auto simp: eval_nat_numeral length_Suc_conv)
  have fields: "st = \<lparr>rx_flags = from_bytes_le [f], rx_available_bytes = from_bytes_le [a1, a2],
      rx_samples = from_bytes_le [s1, s2, s3, s4], rx_dropped_bytes = from_bytes_le [d1, d2]\<rparr>"
    by (simp add: st q')
  have le: "to_bytes_le 1 (from_bytes_le [f]) = [f]" "to_bytes_le 2 (from_bytes_le [a1, a2]) = [a1, a2]"
    "to_bytes_le 4 (from_bytes_le [s1, s2, s3, s4]) = [s1, s2, s3, s4]"
    "to_bytes_le 2 (from_bytes_le [d1, d2]) = [d1, d2]"
    by (simp_all only: to_from_bytes_le length_Cons list.size)
  show ?R
    using q(1) from_bytes_le_less [of "[f]"] from_bytes_le_less [of "[a1, a2]"]
      from_bytes_le_less [of "[s1, s2, s3, s4]"] from_bytes_le_less [of "[d1, d2]"]
      from_bytes_le_nonneg
    unfolding fields rx3_status.simps le q' by (simp del: from_bytes_le.simps)
next
  assume R: ?R
  let ?f = "to_bytes_le 1 (rx_flags st)" and ?a = "to_bytes_le 2 (rx_available_bytes st)"
    and ?s = "to_bytes_le 4 (rx_samples st)" and ?d = "to_bytes_le 2 (rx_dropped_bytes st)"
  obtain f a1 a2 s1 s2 s3 s4 d1 d2 where
    q: "?f = [f]" "?a = [a1, a2]" "?s = [s1, s2, s3, s4]" "?d = [d1, d2]"
    by (simp add: eval_nat_numeral)
  have "from_bytes_le ?f = rx_flags st" "from_bytes_le ?a = rx_available_bytes st"
    "from_bytes_le ?s = rx_samples st" "from_bytes_le ?d = rx_dropped_bytes st"
    using R by (intro from_to_bytes_le_id; simp)+
  then have fields: "uint f = rx_flags st" "from_bytes_le [a1, a2] = rx_available_bytes st"
    "from_bytes_le [s1, s2, s3, s4] = rx_samples st" "from_bytes_le [d1, d2] = rx_dropped_bytes st"
    unfolding q by simp_all
  have "build_frame YWD_RX [RX_STATUS, RX_PROTOCOL_REVISION, f, a1, a2, s1, s2, s3, s4, d1, d2] = Inr data"
    using R unfolding q by simp
  then show "parse_rx3_status data = Inr st"
    unfolding parse_rx3_status_def parse_response_iff Let_def le16_field le32_field
    by (intro exI conjI) (auto simp: fields simp del: from_bytes_le.simps)
qed

subsection \<open>Radio setup\<close>

text \<open>
  A request that sets a transmit power can be built for exactly two profiles, 145.050 MHz and
  144.390 MHz at power 200; both lie inside the amateur-band guard of the receive setup, and the
  request carries the frequency, twice, and the power unchanged.
\<close>

theorem tx_profile_request_iff:
  "build_tx_profile_request frequency_hz tx_power = Inr data \<longleftrightarrow>
     (frequency_hz = 145050000 \<or> frequency_hz = 144390000) \<and> tx_power = 200 \<and>
     validate_rx_frequency_hz frequency_hz = Inr frequency_hz \<and>
     host_parse_frame data None =
       Inr \<lparr>hf_command = SET_FREQ,
         hf_payload = 0 # to_bytes_le 4 frequency_hz @ to_bytes_le 4 frequency_hz @ [200]\<rparr>"
proof -
  have "build_tx_profile_request frequency_hz tx_power = Inr data \<longleftrightarrow>
      (frequency_hz, tx_power) \<in> PERMITTED_TX_PROFILES \<and>
      build_frame SET_FREQ (0 # to_bytes_le 4 frequency_hz @ to_bytes_le 4 frequency_hz @ [word_of_int tx_power]) = Inr data"
    by (auto simp: build_tx_profile_request_def validate_tx_profile_def)
  also have "(frequency_hz, tx_power) \<in> PERMITTED_TX_PROFILES \<longleftrightarrow>
      (frequency_hz = 145050000 \<or> frequency_hz = 144390000) \<and> tx_power = 200 \<and>
      validate_rx_frequency_hz frequency_hz = Inr frequency_hz"
    by (auto simp: host_profile_defs validate_rx_frequency_hz_def)
  finally show ?thesis unfolding host_parse_frame_iff by auto
qed

end
