(* ===== verification/Modem_Port.thy ===== *)
theory Modem_Port
  imports Modem_Protocol
begin

section \<open>The typed modem operations the upper layers call\<close>

text \<open>
  The exceptions of the transmit path and the modem as its clients see it: the protocols
  \<open>TXModemPort\<close> (\<open>tx/broker.py\<close>) and \<open>HalfDuplexModemPort\<close> (\<open>tx/half_duplex.py\<close>) and the operations
  the channel-access sampler and the receive runtime use. A port is a record of operations over a
  world state, each of which may raise; the timeout argument is passed on as in the source.
\<close>

datatype tx_exn =
    ModemFailure string
  | TransactionTimeoutNotPositive
  | TXBrokerDisabled | TXBrokerNotRunning | TXBrokerQueueFull | TXBrokerFrameRejected | TXBrokerBusy
  | TXBrokerRestart | TXBrokerOperationFailed | TXBrokerWaitTimeout | TXBrokerStopTimeout
  | SerializerError phy_error
  | RouterClosed | RouterStopFailed | ContextNotArmed | ContextAlreadyArmed
  | HalfDuplexLatched | HalfDuplexPreTransmitError | HalfDuplexDownstreamError
  | HalfDuplexPostTransmitError | HalfDuplexIdleTimeout | HalfDuplexRXState
  | ConstructionError | DoesNotReturn

type_synonym ('w, 'a) operation = "'w \<Rightarrow> (tx_exn, 'a) result \<times> 'w"

record modem_snapshot =
  ms_running :: bool
  ms_owner_thread_id :: "int option"

record 'w modem_port =
  mp_snapshot :: "'w \<Rightarrow> modem_snapshot"
  mp_get_version :: "seconds option \<Rightarrow> ('w, version_response) operation"
  mp_set_rx_frequency :: "int \<Rightarrow> seconds option \<Rightarrow> ('w, unit) operation"
  mp_arm_rx_modem_io :: "seconds option \<Rightarrow> ('w, unit) operation"
  mp_rx_read :: "int \<Rightarrow> seconds option \<Rightarrow> ('w, bytes) operation"
  mp_rx_status :: "seconds option \<Rightarrow> ('w, rx3_status) operation"
  mp_rx_start :: "seconds option \<Rightarrow> ('w, unit) operation"
  mp_rx_stop :: "seconds option \<Rightarrow> ('w, unit) operation"
  mp_rx_rssi :: "seconds option \<Rightarrow> ('w, rx_rssi) operation"
  mp_rf_status :: "seconds option \<Rightarrow> ('w, rf_status) operation"
  mp_rf_diagnostics :: "seconds option \<Rightarrow> ('w, rf_diagnostics) operation"
  mp_transmit_selector_burst :: "int \<Rightarrow> bytes \<Rightarrow> seconds option \<Rightarrow> ('w, unit) operation"

text \<open>A frame submitter, the downstream interface of the access queue and of the half-duplex
  coordinator.\<close>

type_synonym ('w, 'r) submitter = "bytes \<Rightarrow> seconds option \<Rightarrow> ('w, 'r) operation"

text \<open>The sequencing of operations: the first exception ends the sequence.\<close>

definition bind_op :: "('w, 'a) operation \<Rightarrow> ('a \<Rightarrow> ('w, 'b) operation) \<Rightarrow> ('w, 'b) operation" where
  "bind_op m f = (\<lambda>w. case m w of (Inl e, w') \<Rightarrow> (Inl e, w') | (Inr x, w') \<Rightarrow> f x w')"

lemma bind_op_Inr_iff:
  "bind_op m f w = (Inr y, w'') \<longleftrightarrow> (\<exists>x w'. m w = (Inr x, w') \<and> f x w' = (Inr y, w''))"
  by (auto simp: bind_op_def split: prod.splits sum.splits)

text \<open>
  A bench modem for concrete examples: whether reception is on, the time of day and the number of
  bursts accepted. It answers every request; a burst is over at once.
\<close>

record bench =
  bn_rx :: bool
  bn_time :: seconds
  bn_sent :: nat

definition bench_port :: "bench modem_port" where
  "bench_port =
     \<lparr>mp_snapshot = (\<lambda>_. \<lparr>ms_running = True, ms_owner_thread_id = Some 1\<rparr>),
      mp_get_version = (\<lambda>_ w. (Inr \<lparr>vr_protocol_version = 1, vr_identity = ''bench''\<rparr>, w)),
      mp_set_rx_frequency = (\<lambda>_ _ w. (Inr (), w)), mp_arm_rx_modem_io = (\<lambda>_ w. (Inr (), w)),
      mp_rx_read = (\<lambda>_ _ w. (Inr [], w)),
      mp_rx_status = (\<lambda>_ w. (Inr \<lparr>rx_flags = (if bn_rx w then 13 else 12), rx_available_bytes = 0,
        rx_samples = 0, rx_dropped_bytes = 0\<rparr>, w)),
      mp_rx_start = (\<lambda>_ w. (Inr (), w\<lparr>bn_rx := True\<rparr>)),
      mp_rx_stop = (\<lambda>_ w. (Inr (), w\<lparr>bn_rx := False\<rparr>)),
      mp_rx_rssi = (\<lambda>_ w. (Inr \<lparr>rssi_raw_magnitude = 100\<rparr>, w)),
      mp_rf_status = (\<lambda>_ w. (Inr \<lparr>rf_flags = 0, rf_remaining_selectors = 0, rf_mode = 0\<rparr>, w)),
      mp_rf_diagnostics = (\<lambda>_ w. (Inr \<lparr>rd_interrupt_count = 0, rd_keyups = 0,
        rd_generated_samples = 0, rd_tx_active = 0\<rparr>, w)),
      mp_transmit_selector_burst = (\<lambda>_ _ _ w. (Inr (), w\<lparr>bn_sent := bn_sent w + 1\<rparr>))\<rparr>"

definition bench_clock :: "bench \<Rightarrow> seconds \<times> bench" where
  "bench_clock w = (bn_time w, w)"

definition bench_sleep :: "seconds \<Rightarrow> bench \<Rightarrow> bench" where
  "bench_sleep d w = w\<lparr>bn_time := bn_time w + d\<rparr>"

abbreviation "bench_start \<equiv> \<lparr>bn_rx = True, bn_time = 0, bn_sent = 0\<rparr>"

end
