(* ===== verification/Channel_Access.thy ===== *)
theory Channel_Access
  imports Csma Channel_Busy Modem_Port
begin

section \<open>Channel access\<close>

text \<open>
  \<open>src/src/ywd1278/tx/channel_access.py\<close>: one access attempt that feeds RSSI samples through the
  busy detector into the p-persistent policy, and \<open>service/live_channel_access.py\<close>: the sampler
  that reads the samples from a running modem. The source of random octets is a function over a
  world state: consulting it is visible as a change of the world.
\<close>

subsection \<open>Model\<close>

datatype access_error =
    DetectorError busy_error | CsmaError csma_error | ChannelAccessRandomnessRequired

type_synonym 'w random_source = "'w \<Rightarrow> int \<times> 'w"

record access_observation =
  ao_now :: seconds
  ao_detector :: channel_busy_decision
  ao_csma :: csma_decision
  ao_random_byte :: "int option"

record access_attempt =
  aa_detector :: busy_detector
  aa_csma :: csma
  aa_last_observation :: "access_observation option"

definition default_csma_parameters :: csma_parameters where
  "default_csma_parameters =
     \<lparr>cp_persist = DEFAULT_PERSIST, cp_slot_time_10ms = DEFAULT_SLOT_TIME_10MS,
      cp_max_wait_seconds = DEFAULT_MAX_WAIT_SECONDS\<rparr>"

definition attempt_init :: "seconds \<Rightarrow> csma_parameters option \<Rightarrow> (access_error, access_attempt) result" where
  "attempt_init started_at parameters =
     (case busy_init started_at of
        Inl e \<Rightarrow> Inl (DetectorError e)
      | Inr detector \<Rightarrow>
          (case csma_init started_at
              (case parameters of None \<Rightarrow> default_csma_parameters | Some p \<Rightarrow> p) of
             Inl e \<Rightarrow> Inl (CsmaError e)
           | Inr csma \<Rightarrow>
               Inr \<lparr>aa_detector = detector, aa_csma = csma, aa_last_observation = None\<rparr>))"

definition persistence_due :: "channel_busy_decision \<Rightarrow> csma_decision \<Rightarrow> seconds \<Rightarrow> bool" where
  "persistence_due detector prior now \<longleftrightarrow>
     \<not> bd_channel_busy detector \<and> cd_state prior = WAIT_SLOT \<and>
     (case cd_next_slot_at prior of None \<Rightarrow> False | Some due \<Rightarrow> due \<le> now) \<and>
     now < cd_deadline_at prior"

definition attempt_observe_rssi ::
  "access_attempt \<Rightarrow> seconds \<Rightarrow> int \<Rightarrow> 'w random_source option \<Rightarrow> 'w \<Rightarrow>
     (access_error, access_observation) result \<times> access_attempt \<times> 'w" where
  "attempt_observe_rssi a now raw_magnitude random_byte_source w =
     (case busy_observe (aa_detector a) now raw_magnitude of
        (Inl e, det') \<Rightarrow> (Inl (DetectorError e), a\<lparr>aa_detector := det'\<rparr>, w)
      | (Inr detector, det') \<Rightarrow>
          (let a = a\<lparr>aa_detector := det'\<rparr>;
               due = persistence_due detector (cs_last_decision (aa_csma a)) now
           in
           if due \<and> random_byte_source = None then (Inl ChannelAccessRandomnessRequired, a, w)
           else
             (let (random_byte, w) =
                (if due then (let (r, w') = the random_byte_source w in (Some r, w')) else (None, w))
              in
              (case csma_observe (aa_csma a) now (bd_channel_busy detector) random_byte of
                 (Inl e, csma') \<Rightarrow> (Inl (CsmaError e), a\<lparr>aa_csma := csma'\<rparr>, w)
               | (Inr csma, csma') \<Rightarrow>
                   (let observation = \<lparr>ao_now = now, ao_detector = detector, ao_csma = csma,
                      ao_random_byte = random_byte\<rparr>
                    in (Inr observation,
                        a\<lparr>aa_csma := csma', aa_last_observation := Some observation\<rparr>, w))))))"

text \<open>\<open>LiveChannelAccessSampler\<close>: the modem owner is a port.\<close>

datatype live_error =
    OwnerNotRunning | RXNotActive | RXDropped | OwnerCall tx_exn | LiveAccess access_error

definition LIVE_ACTIVE_RX_FLAGS :: int where
  "LIVE_ACTIVE_RX_FLAGS = 0x0D"

record live_sampler =
  ls_attempt :: access_attempt
  ls_samples :: nat
  ls_last_raw :: "int option"

definition sampler_init :: "seconds \<Rightarrow> csma_parameters option \<Rightarrow> (access_error, live_sampler) result" where
  "sampler_init started_at parameters =
     try_bind (attempt_init started_at parameters)
       (\<lambda>attempt. Inr \<lparr>ls_attempt = attempt, ls_samples = 0, ls_last_raw = None\<rparr>)"

definition sampler_preflight :: "'w modem_port \<Rightarrow> seconds \<Rightarrow> 'w \<Rightarrow> (live_error, unit) result \<times> 'w" where
  "sampler_preflight owner timeout w =
     (if \<not> ms_running (mp_snapshot owner w) \<or> ms_owner_thread_id (mp_snapshot owner w) = None
      then (Inl OwnerNotRunning, w)
      else
        (case mp_rx_status owner (Some timeout) w of
           (Inl e, w) \<Rightarrow> (Inl (OwnerCall e), w)
         | (Inr status, w) \<Rightarrow>
             if rx_flags status \<noteq> LIVE_ACTIVE_RX_FLAGS then (Inl RXNotActive, w)
             else if rx_dropped_bytes status \<noteq> 0 then (Inl RXDropped, w)
             else (Inr (), w)))"

definition sampler_sample ::
  "'w modem_port \<Rightarrow> live_sampler \<Rightarrow> seconds \<Rightarrow> 'w random_source option \<Rightarrow> seconds option \<Rightarrow> 'w \<Rightarrow>
     (live_error, access_observation) result \<times> live_sampler \<times> 'w" where
  "sampler_sample owner s now random_byte_source timeout w =
     (if \<not> ms_running (mp_snapshot owner w) \<or> ms_owner_thread_id (mp_snapshot owner w) = None
      then (Inl OwnerNotRunning, s, w)
      else
        (case mp_rx_rssi owner timeout w of
           (Inl e, w) \<Rightarrow> (Inl (OwnerCall e), s, w)
         | (Inr rssi, w) \<Rightarrow>
             (let raw = rssi_raw_magnitude rssi in
              case attempt_observe_rssi (ls_attempt s) now raw random_byte_source w of
                (Inl e, attempt, w) \<Rightarrow> (Inl (LiveAccess e), s\<lparr>ls_attempt := attempt\<rparr>, w)
              | (Inr observation, attempt, w) \<Rightarrow>
                  (Inr observation,
                   s\<lparr>ls_attempt := attempt, ls_samples := ls_samples s + 1, ls_last_raw := Some raw\<rparr>, w))))"

subsection \<open>One observation\<close>

definition attempt_ok :: "access_attempt \<Rightarrow> bool" where
  "attempt_ok a \<longleftrightarrow> csma_coherent (aa_csma a) \<and> cs_last_now (aa_csma a) \<le> bz_last_now (aa_detector a)"

lemma attempt_init_ok:
  "attempt_init t p = Inr a \<Longrightarrow> attempt_ok a \<and> bz_last_now (aa_detector a) = t"
  by (auto simp: attempt_init_def attempt_ok_def busy_init_def csma_init_def csma_coherent_def Let_def split: sum.splits if_splits)

text \<open>The policy accepts what the attempt hands it: a random octet exactly when a trial is due.\<close>

lemma csma_observe_accepts:
  assumes "csma_coherent s" "cs_last_now s \<le> now"
    and "persistence_due dec (cs_last_decision s) now \<Longrightarrow> \<exists>v. r = Some v \<and> 0 \<le> v \<and> v \<le> 255"
    and "\<not> persistence_due dec (cs_last_decision s) now \<Longrightarrow> r = None"
  shows "\<exists>d s'. csma_observe s now (bd_channel_busy dec) r = (Inr d, s') \<and> cs_last_now s' = now"
proof (cases "persistence_due dec (cs_last_decision s) now")
  case True
  with assms obtain v where "r = Some v" "0 \<le> v" "v \<le> 255" by blast
  with True assms(1,2) show ?thesis
    by (auto simp: persistence_due_def csma_coherent_def csma_observe_defs split: option.splits)
next
  case False
  with assms have "r = None" by blast
  with False assms(1,2) show ?thesis
    by (cases "cs_state s")
      (auto simp: persistence_due_def csma_coherent_def csma_observe_defs split: option.splits)
qed

lemma attempt_observe_ok:
  assumes "attempt_ok a" "bz_last_now (aa_detector a) \<le> now" "0 \<le> raw" "raw \<le> 255"
    and src: "\<And>w. 0 \<le> fst (src w) \<and> fst (src w) \<le> 255"
  shows "\<exists>ob a' w'. attempt_observe_rssi a now raw (Some src) w = (Inr ob, a', w') \<and> attempt_ok a' \<and>
    bz_last_now (aa_detector a') = now \<and> ao_csma ob = cs_last_decision (aa_csma a')"
proof -
  obtain dec det where obs: "busy_observe (aa_detector a) now raw = (Inr dec, det)"
    using busy_observe_ok assms(2-4) by blast
  let ?due = "persistence_due dec (cs_last_decision (aa_csma a)) now"
  define r where "r = (if ?due then Some (fst (src w)) else None)"
  have coh: "csma_coherent (aa_csma a)" "cs_last_now (aa_csma a) \<le> now"
    using assms(1,2) by (auto simp: attempt_ok_def)
  then obtain d s' where ok: "csma_observe (aa_csma a) now (bd_channel_busy dec) r = (Inr d, s')" "cs_last_now s' = now"
    using csma_observe_accepts [of "aa_csma a" now dec r] src by (auto simp: r_def)
  have "csma_coherent s'" using csma_observe_coherent [OF coh(1), of now _ r] ok(1) by (metis snd_conv)
  moreover have "d = cs_last_decision s'"
    using ok(1) by (auto simp: csma_observe_defs split: if_splits option.splits)
  moreover have "bz_last_now det = now" using busy_observe_decision [OF obs] by simp
  ultimately show ?thesis
    using obs ok by (cases "src w") (auto simp: attempt_observe_rssi_def r_def attempt_ok_def Let_def)
qed

text \<open>
  Randomness discipline. With a source that yields octets, an attempt that is fed monotone time
  and octet magnitudes never raises, and the source is consulted exactly when the channel is clear
  and a persistence slot is due before the deadline, once; otherwise the world is untouched.
\<close>

theorem attempt_observe_total:
  assumes "attempt_ok a" "bz_last_now (aa_detector a) \<le> now" "0 \<le> raw" "raw \<le> 255"
    and "\<And>w. 0 \<le> fst (src w) \<and> fst (src w) \<le> 255"
  shows "\<exists>ob a'. attempt_observe_rssi a now raw (Some src) w =
      (Inr ob, a', if persistence_due (ao_detector ob) (cs_last_decision (aa_csma a)) now then snd (src w) else w) \<and>
    attempt_ok a'"
proof -
  obtain ob a' w' where obs: "attempt_observe_rssi a now raw (Some src) w = (Inr ob, a', w')" "attempt_ok a'"
    using attempt_observe_ok [of a now raw src w] assms by blast
  then have "w' = (if persistence_due (ao_detector ob) (cs_last_decision (aa_csma a)) now then snd (src w) else w)"
    by (auto simp: attempt_observe_rssi_def Let_def split: prod.splits sum.splits if_splits)
  with obs show ?thesis by auto
qed

theorem attempt_observe_total_witness:
  "\<exists>a. attempt_init 0 None = Inr a \<and>
     (\<exists>ob a'. attempt_observe_rssi a 1 100 (Some (\<lambda>n. (7, n + 1))) (0 :: nat) =
        (Inr ob, a', if persistence_due (ao_detector ob) (cs_last_decision (aa_csma a)) 1 then snd ((7 :: int), 0 + 1) else 0)
      \<and> attempt_ok a')"
proof -
  obtain a where a: "attempt_init 0 None = Inr a"
    by (auto simp: attempt_init_def busy_init_def csma_init_def Let_def)
  then have "attempt_ok a" "bz_last_now (aa_detector a) = 0" using attempt_init_ok by blast+
  with a show ?thesis
    using attempt_observe_total [of a 1 100 "\<lambda>n. (7, n + 1)" "0 :: nat"] by auto
qed

subsection \<open>A whole attempt\<close>

fun attempt_run ::
  "'w random_source option \<Rightarrow> access_attempt \<Rightarrow> rssi_sample list \<Rightarrow> 'w \<Rightarrow> (access_error, access_attempt) result \<times> 'w" where
  "attempt_run src a [] w = (Inr a, w)"
| "attempt_run src a ((now, raw) # samples) w =
     (case attempt_observe_rssi a now raw src w of
        (Inl e, _, w) \<Rightarrow> (Inl e, w)
      | (Inr _, a, w) \<Rightarrow> attempt_run src a samples w)"

text \<open>An observation that does not raise is one detector step and one policy step.\<close>

lemma attempt_observe_steps:
  assumes "attempt_observe_rssi a now raw src w = (Inr ob, a', w')"
  obtains dec d r where "busy_observe (aa_detector a) now raw = (Inr dec, aa_detector a')"
    "csma_observe (aa_csma a) now (bz_state (aa_detector a') \<noteq> CH_CLEAR) r = (Inr d, aa_csma a')"
    "ao_csma ob = d"
proof -
  from assms obtain dec det r d c where det: "busy_observe (aa_detector a) now raw = (Inr dec, det)"
      "csma_observe (aa_csma a) now (bd_channel_busy dec) r = (Inr d, c)"
    and a': "aa_detector a' = det \<and> aa_csma a' = c \<and> ao_csma ob = d"
    by (auto simp: attempt_observe_rssi_def Let_def split: prod.splits sum.splits if_splits)
  then show thesis using that busy_observe_decision [OF det(1)] by auto
qed

text \<open>
  An attempt that has taken the samples \<open>hist\<close> without raising: the detector has seen them, and the
  policy has seen one observation per sample, busy unless the history warrants a clear channel.
\<close>

definition attempt_traced :: "csma_parameters \<Rightarrow> seconds \<Rightarrow> rssi_sample list \<Rightarrow> access_attempt \<Rightarrow> bool" where
  "attempt_traced p t0 hist a \<longleftrightarrow>
     (\<exists>d0 s0 obs. busy_init t0 = Inr d0 \<and> busy_run d0 hist = Inr (aa_detector a) \<and>
        csma_init t0 p = Inr s0 \<and> csma_run s0 obs = Inr (aa_csma a) \<and> length obs = length hist \<and>
        (\<forall>i < length hist. ob_now (obs ! i) = fst (hist ! i) \<and>
           (ob_busy (obs ! i) \<longleftrightarrow> \<not> clear_by_history (take (Suc i) hist))))"

lemma attempt_traced_init: "attempt_init t0 (Some p) = Inr a \<Longrightarrow> attempt_traced p t0 [] a"
  by (auto simp: attempt_init_def attempt_traced_def split: sum.splits intro: exI [of _ "[]"])

lemma csma_run_snoc:
  assumes "csma_run s0 obs = Inr s" "csma_observe s (ob_now ob) (ob_busy ob) (ob_random ob) = (Inr d, s')"
  shows "csma_run s0 (obs @ [ob]) = Inr s'"
  using assms by (simp add: csma_run_append)

lemma attempt_traced_step:
  assumes "attempt_traced p t0 hist a" "attempt_observe_rssi a now raw src w = (Inr ob, a', w')"
  shows "attempt_traced p t0 (hist @ [(now, raw)]) a'"
proof -
  from assms(1) obtain d0 s0 obs where init: "busy_init t0 = Inr d0" "csma_init t0 p = Inr s0"
    and det: "busy_run d0 hist = Inr (aa_detector a)" and pol: "csma_run s0 obs = Inr (aa_csma a)"
    and len: "length obs = length hist"
    and each: "\<forall>i < length hist. ob_now (obs ! i) = fst (hist ! i) \<and>
      (ob_busy (obs ! i) \<longleftrightarrow> \<not> clear_by_history (take (Suc i) hist))"
    unfolding attempt_traced_def by blast
  from assms(2) obtain dec d r where one: "busy_observe (aa_detector a) now raw = (Inr dec, aa_detector a')"
    and two: "csma_observe (aa_csma a) now (bz_state (aa_detector a') \<noteq> CH_CLEAR) r = (Inr d, aa_csma a')"
    by (rule attempt_observe_steps)
  let ?o = "\<lparr>ob_now = now, ob_busy = (bz_state (aa_detector a') \<noteq> CH_CLEAR), ob_random = r\<rparr>"
  have det': "busy_run d0 (hist @ [(now, raw)]) = Inr (aa_detector a')"
    unfolding busy_run_snoc using det one by blast
  have "bz_state (aa_detector a') = CH_CLEAR \<longleftrightarrow> clear_by_history (hist @ [(now, raw)])"
    using busy_run_tracks [OF init(1) det'] unfolding busy_tracks_def by blast
  moreover have "csma_run s0 (obs @ [?o]) = Inr (aa_csma a')"
    using csma_run_snoc [OF pol, of ?o] two by simp
  ultimately show ?thesis
    unfolding attempt_traced_def using init det' len each
    by (intro exI [of _ d0] exI [of _ s0] exI [of _ "obs @ [?o]"])
      (auto simp: nth_append less_Suc_eq)
qed

lemma attempt_traced_decision:
  assumes "attempt_traced p t0 hist a" "attempt_observe_rssi a now raw src w = (Inr ob, a', w')"
  shows "cd_state (ao_csma ob) = cs_state (aa_csma a')"
proof -
  from assms(2) obtain d r b where step: "csma_observe (aa_csma a) now b r = (Inr d, aa_csma a')" "ao_csma ob = d"
    by (rule attempt_observe_steps)
  from attempt_traced_step [OF assms] obtain s0 obs where "csma_init t0 p = Inr s0" "csma_run s0 obs = Inr (aa_csma a')"
    unfolding attempt_traced_def by blast
  then have "csma_coherent (aa_csma a')" using csma_init_coherent csma_run_coherent by blast
  with csma_observe_decision [OF step(1)] step(2) show ?thesis by (simp add: csma_coherent_def)
qed

lemma attempt_traced_run:
  "attempt_traced p t0 pre a \<Longrightarrow> attempt_run src a hist w = (Inr a', w') \<Longrightarrow> attempt_traced p t0 (pre @ hist) a'"
proof (induction hist arbitrary: a w pre)
  case Nil
  then show ?case by simp
next
  case (Cons x hist)
  obtain now raw where x: "x = (now, raw)" by (cases x)
  with Cons.prems(2) obtain ob a1 w1 where "attempt_observe_rssi a now raw src w = (Inr ob, a1, w1)"
      "attempt_run src a1 hist w1 = (Inr a', w')"
    by (auto split: prod.splits sum.splits)
  from Cons.IH [OF attempt_traced_step [OF Cons.prems(1) this(1)] this(2)] show ?case by (simp add: x)
qed

text \<open>The evidence of \<^const>\<open>access_earned\<close> by positions in the history.\<close>

lemma access_earned_positions:
  assumes "access_earned p deadline obs"
  obtains i j where "i < j" "j < length obs" "\<And>k. i \<le> k \<Longrightarrow> k \<le> j \<Longrightarrow> \<not> ob_busy (obs ! k)"
    "ob_now (obs ! i) + slot_seconds p \<le> ob_now (obs ! j)" "ob_now (obs ! j) < deadline"
proof -
  from assms obtain h1 o1 h2 trial h3 where obs: "obs = h1 @ (o1 # h2 @ [trial]) @ h3"
    and clear: "\<forall>ob \<in> set (o1 # h2 @ [trial]). \<not> ob_busy ob"
    and times: "ob_now o1 + slot_seconds p \<le> ob_now trial" "ob_now trial < deadline"
    unfolding access_earned_def by fastforce
  let ?i = "length h1" and ?j = "length h1 + 1 + length h2"
  have "\<not> ob_busy (obs ! k)" if "?i \<le> k" "k \<le> ?j" for k
  proof -
    have "obs ! k = (o1 # h2 @ [trial]) ! (k - ?i)" using that unfolding obs by (simp only: nth_append) simp
    moreover have "(o1 # h2 @ [trial]) ! (k - ?i) \<in> set (o1 # h2 @ [trial])" using that by (intro nth_mem) auto
    ultimately show ?thesis using clear by metis
  qed
  moreover have "obs ! ?i = o1" "obs ! ?j = trial" unfolding obs by (simp_all add: nth_append)
  ultimately show thesis using that [of ?i ?j] times by (simp add: obs)
qed

text \<open>What the samples must show for access: a slot observed clear before the deadline.\<close>

definition heard_clear_slot :: "csma_parameters \<Rightarrow> seconds \<Rightarrow> rssi_sample list \<Rightarrow> bool" where
  "heard_clear_slot p t0 hist \<longleftrightarrow>
     (\<exists>i j. i < j \<and> j < length hist \<and> (\<forall>k. i \<le> k \<and> k \<le> j \<longrightarrow> clear_by_history (take (Suc k) hist)) \<and>
        fst (hist ! i) + slot_seconds p \<le> fst (hist ! j) \<and>
        fst (hist ! j) < t0 + cp_max_wait_seconds p)"

lemma attempt_traced_ready:
  assumes "attempt_traced p t0 hist a" "cs_state (aa_csma a) = READY"
  shows "heard_clear_slot p t0 hist"
proof -
  from assms(1) obtain d0 s0 obs where init: "csma_init t0 p = Inr s0" and run: "csma_run s0 obs = Inr (aa_csma a)"
    and len: "length obs = length hist"
    and each: "\<And>i. i < length hist \<Longrightarrow> ob_now (obs ! i) = fst (hist ! i) \<and>
      (ob_busy (obs ! i) \<longleftrightarrow> \<not> clear_by_history (take (Suc i) hist))"
    unfolding attempt_traced_def by blast
  from csma_run_justified [OF csma_init_justified [OF init] run] assms(2)
  have "access_earned p (t0 + cp_max_wait_seconds p) obs" by (simp add: csma_justified_def)
  then obtain i j where "i < j" "j < length obs" "\<And>k. i \<le> k \<Longrightarrow> k \<le> j \<Longrightarrow> \<not> ob_busy (obs ! k)"
    "ob_now (obs ! i) + slot_seconds p \<le> ob_now (obs ! j)" "ob_now (obs ! j) < t0 + cp_max_wait_seconds p"
    by (rule access_earned_positions) blast
  with each len show ?thesis unfolding heard_clear_slot_def by (intro exI [of _ i] exI [of _ j]) auto
qed

text \<open>
  Listen before talk, from the samples up. If a new attempt is ready after a history of RSSI
  samples, then there are two samples at least one slot time apart, the later before the deadline,
  such that at each sample from the first to the second the history warrants a clear channel: the
  signal had been on the release side for 250 ms, and had not reached the busy threshold since.
\<close>

theorem attempt_ready_clear:
  assumes "attempt_init started_at (Some p) = Inr a" "attempt_run src a hist w = (Inr a', w')"
    and "cs_state (aa_csma a') = READY"
  shows "heard_clear_slot p started_at hist"
  using attempt_traced_run [OF attempt_traced_init [OF assms(1)] assms(2)] assms(3)
  by (auto intro: attempt_traced_ready)

theorem attempt_ready_clear_witness:
  "heard_clear_slot default_csma_parameters 0 [(0, 100), (1 / 4, 100), (1 / 2, 100)]"
proof -
  let ?a = "\<lparr>aa_detector = \<lparr>bz_state = CH_UNKNOWN, bz_last_now = 0, bz_clear_candidate_since = None,
      bz_last_busy_at = None, bz_last_decision = None\<rparr>,
    aa_csma = \<lparr>cs_parameters = default_csma_parameters, cs_started_at = 0, cs_deadline_at = 30,
      cs_next_slot_at = None, cs_state = WAIT_CLEAR, cs_persistence_trials = 0,
      cs_busy_observations = 0, cs_last_now = 0,
      cs_last_decision = \<lparr>cd_state = WAIT_CLEAR, cd_channel_busy = None, cd_persistence_trials = 0,
        cd_busy_observations = 0, cd_next_slot_at = None, cd_deadline_at = 30, cd_random_byte = None,
        cd_reason = AwaitingFirstObservation\<rparr>\<rparr>, aa_last_observation = None\<rparr>"
  let ?hist = "[(0, 100), (1 / 4, 100), (1 / 2, 100 :: int)]"
  have init: "attempt_init 0 (Some default_csma_parameters) = Inr ?a"
    by (simp add: attempt_init_def busy_init_def csma_init_def default_csma_parameters_def
        DEFAULT_MAX_WAIT_SECONDS_def)
  let ?run = "attempt_run (Some (\<lambda>n. (9, n + 1))) ?a ?hist (0 :: nat)"
  have "case fst ?run of Inl _ \<Rightarrow> False | Inr a' \<Rightarrow> cs_state (aa_csma a') = READY"
    by code_simp
  then have "\<exists>a' w'. ?run = (Inr a', w') \<and> cs_state (aa_csma a') = READY"
    by (rule outcome_Inr)
  then obtain a' w' where "?run = (Inr a', w')" "cs_state (aa_csma a') = READY"
    by (elim exE conjE)
  from attempt_ready_clear [OF init this] show ?thesis .
qed

end
