(* ===== verification/Ax25_Codec.thy ===== *)
theory Ax25_Codec
  imports Py_Text
begin

unbundle bit_operations_syntax

section \<open>The AX.25 codec\<close>

text \<open>
  \<open>src/src/ywd1278/ax25/codec.py\<close>: addresses, the frame check sequence (CRC-16/X-25), UI frame
  construction and the parser of modulo-8 frames. The Python integers of the checksum stay
  within 16 bits, so the checksum is a 16-bit word; a callsign is ASCII text.
\<close>

subsection \<open>Model\<close>

datatype codec_error =
    EmptyCallsign | InvalidSSID | CallsignLength | CallsignNotAlnum | SSIDRange
  | AddressFieldLength | ShiftedCallsign | SSIDReservedBits | CallsignCharacters | EmptyAX25Callsign
  | TruncatedAddressList | LongAddressList | MissingAddresses
  | PIDRange | BadFCS | FrameTooShort | MissingControl | IFrameMissingPID | UIFrameMissingPID
  | NotUIFrame | SFrameKeyError

definition AX25_UI :: byte where
  "AX25_UI = 0x03"

definition AX25_PID_NO_L3 :: int where
  "AX25_PID_NO_L3 = 0xF0"

text \<open>\<open>S_FRAME_NAMES\<close> and \<open>U_FRAME_NAMES\<close>: the tables of supervisory and unnumbered frames.\<close>

definition S_FRAME_NAMES :: "byte \<rightharpoonup> string" where
  "S_FRAME_NAMES = [0 \<mapsto> ''RR'', 1 \<mapsto> ''RNR'', 2 \<mapsto> ''REJ'', 3 \<mapsto> ''SREJ'']"

definition U_FRAME_NAMES :: "byte \<rightharpoonup> string" where
  "U_FRAME_NAMES =
     [0x03 \<mapsto> ''UI'', 0x0F \<mapsto> ''DM'', 0x2F \<mapsto> ''SABM'', 0x43 \<mapsto> ''DISC'', 0x63 \<mapsto> ''UA'',
      0x6F \<mapsto> ''SABME'', 0x87 \<mapsto> ''FRMR'', 0xAF \<mapsto> ''XID'', 0xE3 \<mapsto> ''TEST'']"

record address =
  addr_callsign :: string
  addr_ssid :: int
  addr_flag :: bool

definition address_parse :: "string \<Rightarrow> bool \<Rightarrow> (codec_error, address) result" where
  "address_parse text flag =
     (let val = py_upper (py_strip text) in
      if val = [] then Inl EmptyCallsign
      else
        try_bind
          (if CHR ''-'' \<in> set val then
             (let (call, ssid_text) = py_rsplit_dash val in
              if \<not> (ssid_text \<noteq> [] \<and> list_all py_isdigit ssid_text) then Inl InvalidSSID
              else Inr (call, py_int_of_digits ssid_text))
           else Inr (val, 0))
          (\<lambda>(call, ssid).
             if \<not> (1 \<le> length call \<and> length call \<le> 6) then Inl CallsignLength
             else if \<not> list_all py_isalnum call then Inl CallsignNotAlnum
             else if \<not> (0 \<le> ssid \<and> ssid \<le> 15) then Inl SSIDRange
             else Inr \<lparr>addr_callsign = call, addr_ssid = ssid, addr_flag = flag\<rparr>))"

definition address_str :: "address \<Rightarrow> string" where
  "address_str a =
     (if addr_ssid a = 0 then addr_callsign a
      else addr_callsign a @ ''-'' @ py_str_int (addr_ssid a))"

text \<open>\<open>crc_x25\<close>: one shift of the register, the eight shifts of one octet, the whole message.\<close>

definition crc_bit :: "16 word \<Rightarrow> 16 word" where
  "crc_bit crc = (if crc AND 1 \<noteq> 0 then drop_bit 1 crc XOR 0x8408 else drop_bit 1 crc)"

definition crc_byte :: "16 word \<Rightarrow> byte \<Rightarrow> 16 word" where
  "crc_byte crc b = (crc_bit ^^ 8) (crc XOR ucast b)"

definition crc_x25 :: "bytes \<Rightarrow> 16 word" where
  "crc_x25 data = foldl crc_byte 0xFFFF data XOR 0xFFFF"

definition append_fcs :: "bytes \<Rightarrow> bytes" where
  "append_fcs data = data @ to_bytes_le 2 (uint (crc_x25 data))"

definition verify_fcs :: "bytes \<Rightarrow> bool" where
  "verify_fcs frame =
     (if length frame < 2 then False
      else
        (let expected = from_bytes_le (drop (length frame - 2) frame)
         in uint (crc_x25 (take (length frame - 2) frame)) = expected))"

definition encode_address :: "address \<Rightarrow> bool \<Rightarrow> bytes" where
  "encode_address a lst =
     (let call = py_ljust 6 (py_upper (addr_callsign a));
          out = map (\<lambda>c. push_bit 1 (of_nat (py_ord c)) AND 0xFE) call;
          ssid = 0x60 OR push_bit 1 (word_of_int (addr_ssid a) AND 0x0F);
          ssid = (if addr_flag a then ssid OR 0x80 else ssid);
          ssid = (if lst then ssid OR 0x01 else ssid)
      in out @ [ssid])"

text \<open>The scan of the six decoded characters: upper-case alphanumerics, then spaces only.\<close>

fun callsign_chars_ok :: "bool \<Rightarrow> string \<Rightarrow> bool" where
  "callsign_chars_ok seen_space [] = True"
| "callsign_chars_ok seen_space (c # cs) =
     (if c = CHR '' '' then callsign_chars_ok True cs
      else if seen_space \<or> \<not> py_isascii c \<or> \<not> py_isalnum c \<or> py_upper_char c \<noteq> c then False
      else callsign_chars_ok seen_space cs)"

definition address_char :: "byte \<Rightarrow> char" where
  "address_char b = py_chr (unat (drop_bit 1 b AND 0x7F))"

definition decode_address :: "bytes \<Rightarrow> (codec_error, address \<times> bool) result" where
  "decode_address field =
     (if length field \<noteq> 7 then Inl AddressFieldLength
      else if list_ex (\<lambda>b. b AND 0x01 \<noteq> 0) (take 6 field) then Inl ShiftedCallsign
      else if (field ! 6) AND 0x60 \<noteq> 0x60 then Inl SSIDReservedBits
      else
        (let chars = map address_char (take 6 field) in
         if \<not> callsign_chars_ok False chars then Inl CallsignCharacters
         else
           (let callsign = py_rstrip chars in
            if callsign = [] then Inl EmptyAX25Callsign
            else
              (let ssid = uint (drop_bit 1 (field ! 6) AND 0x0F);
                   flag = ((field ! 6) AND 0x80 \<noteq> 0);
                   lst = ((field ! 6) AND 0x01 \<noteq> 0)
               in Inr (\<lparr>addr_callsign = callsign, addr_ssid = ssid, addr_flag = flag\<rparr>, lst)))))"

text \<open>\<open>_decode_addresses\<close>: the loop over seven-byte fields, with its list and offset.\<close>

function decode_addresses_loop ::
  "bytes \<Rightarrow> address list \<Rightarrow> nat \<Rightarrow> (codec_error, address list \<times> nat) result" where
  "decode_addresses_loop data addresses offset =
     (if offset + 7 > length data then Inl TruncatedAddressList
      else
        (case decode_address (take 7 (drop offset data)) of
           Inl e \<Rightarrow> Inl e
         | Inr (a, lst) \<Rightarrow>
             (let addresses = addresses @ [a]; offset = offset + 7 in
              if lst then Inr (addresses, offset)
              else if length addresses > 10 then Inl LongAddressList
              else decode_addresses_loop data addresses offset)))"
  by pat_completeness auto
termination
  by (relation "measure (\<lambda>(data, addresses, offset). length data - offset)") auto

definition decode_addresses :: "bytes \<Rightarrow> (codec_error, address list \<times> nat) result" where
  "decode_addresses data =
     try_bind (decode_addresses_loop data [] 0)
       (\<lambda>(addresses, offset).
          if length addresses < 2 then Inl MissingAddresses else Inr (addresses, offset))"

text \<open>The address part of \<open>build_ui_frame\<close>: every field encoded, the last one marked.\<close>

fun encode_addresses :: "address list \<Rightarrow> bytes" where
  "encode_addresses [] = []"
| "encode_addresses [a] = encode_address a True"
| "encode_addresses (a # as) = encode_address a False @ encode_addresses as"

definition build_ui_frame ::
  "address \<Rightarrow> address \<Rightarrow> bytes \<Rightarrow> address list \<Rightarrow> int \<Rightarrow> bool \<Rightarrow> (codec_error, bytes) result" where
  "build_ui_frame src dst info path pid include_fcs =
     (if \<not> (0 \<le> pid \<and> pid \<le> 0xFF) then Inl PIDRange
      else
        (let dest = \<lparr>addr_callsign = addr_callsign dst, addr_ssid = addr_ssid dst, addr_flag = True\<rparr>;
             sour = \<lparr>addr_callsign = addr_callsign src, addr_ssid = addr_ssid src, addr_flag = False\<rparr>;
             data = encode_addresses (dest # sour # path) @ [AX25_UI, word_of_int pid] @ info
         in Inr (if include_fcs then append_fcs data else data)))"

record parsed_frame =
  pf_destination :: address
  pf_source :: address
  pf_path :: "address list"
  pf_control :: byte
  pf_frame_class :: string
  pf_frame_type :: string
  pf_poll_final :: bool
  pf_ns :: "byte option"
  pf_nr :: "byte option"
  pf_pid :: "byte option"
  pf_info :: bytes

text \<open>
  The control octet and what follows it: \<open>rest\<close> is \<open>data[cursor:]\<close>, so \<open>cursor >= len(data)\<close> is
  \<open>rest = []\<close>.
\<close>

definition parse_control :: "address list \<Rightarrow> byte \<Rightarrow> bytes \<Rightarrow> (codec_error, parsed_frame) result" where
  "parse_control addresses control rest =
     (let parsed =
        \<lparr>pf_destination = addresses ! 0, pf_source = addresses ! 1, pf_path = drop 2 addresses,
         pf_control = control, pf_frame_class = [], pf_frame_type = [], pf_poll_final = False,
         pf_ns = None, pf_nr = None, pf_pid = None, pf_info = []\<rparr>
      in
      if control AND 0x01 = 0 then
        (case rest of
           [] \<Rightarrow> Inl IFrameMissingPID
         | pid # info \<Rightarrow>
             Inr (parsed\<lparr>pf_frame_class := ''I'', pf_frame_type := ''I'',
               pf_ns := Some (drop_bit 1 control AND 0x07),
               pf_poll_final := (control AND 0x10 \<noteq> 0),
               pf_nr := Some (drop_bit 5 control AND 0x07),
               pf_pid := Some pid, pf_info := info\<rparr>))
      else if control AND 0x03 = 0x01 then
        (case S_FRAME_NAMES (drop_bit 2 control AND 0x03) of
           None \<Rightarrow> Inl SFrameKeyError
         | Some name \<Rightarrow>
             Inr (parsed\<lparr>pf_frame_class := ''S'', pf_frame_type := name,
               pf_poll_final := (control AND 0x10 \<noteq> 0),
               pf_nr := Some (drop_bit 5 control AND 0x07), pf_info := rest\<rparr>))
      else
        (let u_code = control AND 0xEF;
             parsed = parsed\<lparr>pf_frame_class := ''U'',
               pf_frame_type :=
                 (case U_FRAME_NAMES u_code of Some name \<Rightarrow> name
                  | None \<Rightarrow> ''U-0x'' @ hex2_upper u_code),
               pf_poll_final := (control AND 0x10 \<noteq> 0)\<rparr>
         in
         if u_code = AX25_UI then
           (case rest of
              [] \<Rightarrow> Inl UIFrameMissingPID
            | pid # info \<Rightarrow> Inr (parsed\<lparr>pf_pid := Some pid, pf_info := info\<rparr>))
         else Inr (parsed\<lparr>pf_info := rest\<rparr>)))"

definition parse_frame :: "bytes \<Rightarrow> bool \<Rightarrow> (codec_error, parsed_frame) result" where
  "parse_frame frame has_fcs =
     (if has_fcs \<and> \<not> verify_fcs frame then Inl BadFCS
      else
        (let data = (if has_fcs then take (length frame - 2) frame else frame) in
         if length data < 15 then Inl FrameTooShort
         else
           try_bind (decode_addresses data)
             (\<lambda>(addresses, offset).
                if offset \<ge> length data then Inl MissingControl
                else parse_control addresses (data ! offset) (drop (offset + 1) data))))"

definition parse_ui_frame :: "bytes \<Rightarrow> bool \<Rightarrow> (codec_error, parsed_frame) result" where
  "parse_ui_frame frame has_fcs =
     try_bind (parse_frame frame has_fcs)
       (\<lambda>parsed. if pf_frame_type parsed \<noteq> ''UI'' then Inl NotUIFrame else Inr parsed)"

declare decode_addresses_loop.simps [simp del]

subsection \<open>The frame check sequence\<close>

text \<open>One register shift is linear over exclusive or and injective.\<close>

lemma bit_crc_bit:
  "bit (crc_bit x) n \<longleftrightarrow> n < 16 \<and> (bit x (Suc n) \<noteq> (bit x 0 \<and> bit (0x8408 :: 16 word) n))"
  unfolding crc_bit_def and_one_neq_0_iff
  by (auto simp: bit_simps dest: bit_imp_le_length)

lemma crc_bit_xor: "crc_bit (x XOR y) = crc_bit x XOR crc_bit y"
  by (rule bit_word_eqI) (auto simp: bit_crc_bit bit_simps)

lemma crc_bit_eq_0: "crc_bit x = 0 \<Longrightarrow> x = 0"
proof (rule bit_word_eqI)
  fix n assume z: "crc_bit x = 0" and n: "n < LENGTH(16)"
  have b: "\<not> bit (crc_bit x) m" for m using z by simp
  have low: "\<not> bit x 0"
    using b[of 15] by (auto simp: bit_crc_bit dest: bit_imp_le_length)
  have "\<not> bit x (Suc m)" for m
    using b[of m] low by (auto simp: bit_crc_bit dest: bit_imp_le_length)
  with low have "\<not> bit x n" by (cases n) auto
  then show "bit x n = bit 0 n" by simp
qed

lemma crc_pow_xor: "(crc_bit ^^ n) (x XOR y) = (crc_bit ^^ n) x XOR (crc_bit ^^ n) y"
  by (induction n) (simp_all add: crc_bit_xor)

lemma crc_pow_eq_0: "(crc_bit ^^ n) x = 0 \<Longrightarrow> x = 0"
  by (induction n) (auto dest: crc_bit_eq_0)

lemma crc_pow_inject: "(crc_bit ^^ n) x = (crc_bit ^^ n) y \<longleftrightarrow> x = y"
proof
  assume "(crc_bit ^^ n) x = (crc_bit ^^ n) y"
  then have "(crc_bit ^^ n) (x XOR y) = 0" by (simp add: crc_pow_xor)
  then have "x XOR y = 0" by (rule crc_pow_eq_0)
  then show "x = y" by simp
qed simp

lemma crc_bit_push: "n < 8 \<Longrightarrow> crc_bit (push_bit (Suc n) (ucast (b :: byte))) = push_bit n (ucast b)"
proof -
  assume n: "n < 8"
  have "crc_bit (push_bit (Suc n) (ucast b)) = drop_bit 1 (push_bit (Suc n) (ucast b) :: 16 word)"
    unfolding crc_bit_def and_one_neq_0_iff by (simp add: bit_simps del: push_bit_Suc)
  also have "\<dots> = push_bit n (ucast b)"
    using n by (intro bit_word_eqI) (auto simp: bit_simps simp del: push_bit_Suc drop_bit_Suc dest: bit_imp_le_length)
  finally show ?thesis .
qed

lemma crc_pow_push: "n \<le> 8 \<Longrightarrow> (crc_bit ^^ n) (push_bit n (ucast (b :: byte))) = ucast b"
  by (induction n) (simp_all add: funpow_Suc_right crc_bit_push del: funpow.simps push_bit_Suc)

lemma crc_byte_inject [simp]: "crc_byte s b = crc_byte t b \<longleftrightarrow> s = t"
  by (simp add: crc_byte_def crc_pow_inject)

lemma crc_byte_xor: "crc_byte (s XOR t) (b XOR c) = crc_byte s b XOR crc_byte t c"
proof -
  have u: "ucast (b XOR c) = (ucast b XOR ucast c :: 16 word)"
    by (rule bit_word_eqI) (simp add: bit_simps)
  show ?thesis by (simp add: crc_byte_def crc_pow_xor u ac_simps)
qed

lemma byte_push_disjoint:
  "push_bit 8 (ucast (d :: byte)) = (ucast (b :: byte) :: 16 word) \<Longrightarrow> b = 0 \<and> d = 0"
proof -
  assume eq: "push_bit 8 (ucast d) = (ucast b :: 16 word)"
  have e: "bit (push_bit 8 (ucast d :: 16 word)) n = bit (ucast b :: 16 word) n" for n using eq by simp
  have "\<not> bit b n" for n using e[of n] by (auto simp: bit_simps dest: bit_imp_le_length)
  moreover have "\<not> bit d n" for n using e[of "n+8"] by (auto simp: bit_simps dest: bit_imp_le_length)
  ultimately show ?thesis by (auto intro: bit_word_eqI)
qed

lemma crc_two_bytes_inject:
  "crc_byte (crc_byte s a) b = crc_byte (crc_byte s c) d \<longleftrightarrow> a = c \<and> b = d"
proof
  assume eq: "crc_byte (crc_byte s a) b = crc_byte (crc_byte s c) d"
  from eq have "crc_byte (crc_byte s a XOR crc_byte s c) (b XOR d) = 0"
    by (simp add: crc_byte_xor)
  then have "crc_byte 0 (a XOR c) XOR ucast (b XOR d) = 0"
    unfolding crc_byte_def[of "crc_byte s a XOR crc_byte s c"]
    by (auto dest!: crc_pow_eq_0 simp flip: crc_byte_xor)
  then have "(crc_bit ^^ 8) (ucast (a XOR c)) = (ucast (b XOR d) :: 16 word)"
    by (simp add: crc_byte_def)
  also have "\<dots> = (crc_bit ^^ 8) (push_bit 8 (ucast (b XOR d)))" by (simp add: crc_pow_push)
  finally have "push_bit 8 (ucast (b XOR d)) = (ucast (a XOR c) :: 16 word)"
    by (simp only: crc_pow_inject)
  then have "a XOR c = 0 \<and> b XOR d = 0" by (rule byte_push_disjoint)
  then show "a = c \<and> b = d" by simp
qed simp

lemma mask_consts: "(0xFFFF :: 16 word) = mask 16" "(0xFF :: 16 word) = mask 8"
  by (simp_all add: mask_eq_decr_exp)

lemma crc_low_byte_cleared:
  "s XOR ucast (ucast (s XOR 0xFFFF) :: byte) =
   push_bit 8 (ucast (ucast (drop_bit 8 s) :: byte)) XOR (0xFF :: 16 word)"
  unfolding mask_consts by (rule bit_word_eqI) (auto simp: bit_simps)

lemma crc_high_byte:
  "(ucast (ucast (drop_bit 8 (s XOR 0xFFFF)) :: byte) :: 16 word) =
   ucast (ucast (drop_bit 8 s) :: byte) XOR 0xFF" for s :: "16 word"
  unfolding mask_consts by (rule bit_word_eqI) (auto simp: bit_simps)

lemma crc8_const: "(crc_bit ^^ 8) (0xFF XOR (crc_bit ^^ 8) 0xFF) = 0xF0B8"
  by code_simp

lemma crc_residue:
  "crc_byte (crc_byte s (ucast (s XOR 0xFFFF))) (ucast (drop_bit 8 (s XOR 0xFFFF))) = 0xF0B8"
proof -
  have a: "crc_byte s (ucast (s XOR 0xFFFF)) = ucast (ucast (drop_bit 8 s) :: byte) XOR (crc_bit ^^ 8) 0xFF"
    unfolding crc_byte_def crc_low_byte_cleared crc_pow_xor by (simp add: crc_pow_push)
  have b: "crc_byte s (ucast (s XOR 0xFFFF)) XOR ucast (ucast (drop_bit 8 (s XOR 0xFFFF)) :: byte) = 0xFF XOR (crc_bit ^^ 8) 0xFF"
    unfolding a crc_high_byte by (simp add: ac_simps)
  show ?thesis
    unfolding crc_byte_def [of "crc_byte s (ucast (s XOR 0xFFFF))"] b by (rule crc8_const)
qed

lemma to_bytes_le_crc: "to_bytes_le 2 (uint w) = [ucast w, ucast (drop_bit 8 w)]" for w :: "16 word"
proof -
  have "uint w div 256 = uint (drop_bit 8 w)" by (simp add: drop_bit_eq_div uint_div_distrib)
  then show ?thesis by (simp add: numeral_2_eq_2 flip: ucast_eq)
qed

lemma verify_fcs_residue:
  assumes "2 \<le> length f"
  shows "verify_fcs f \<longleftrightarrow> foldl crc_byte 0xFFFF f = 0xF0B8"
proof -
  obtain d a b where f: "f = d @ [a, b]" using assms by (rule two_last)
  let ?s = "foldl crc_byte 0xFFFF d"
  let ?w = "crc_x25 d"
  have w: "?w = ?s XOR 0xFFFF" by (simp add: crc_x25_def)
  have "verify_fcs f \<longleftrightarrow> uint ?w = from_bytes_le [a, b]"
    by (simp add: verify_fcs_def f)
  also have "\<dots> \<longleftrightarrow> [a, b] = to_bytes_le 2 (uint ?w)"
  proof
    assume "uint ?w = from_bytes_le [a, b]"
    then show "[a, b] = to_bytes_le 2 (uint ?w)" by (simp only: to_from_bytes_le length_Cons list.size numeral_2_eq_2)
  next
    assume "[a, b] = to_bytes_le 2 (uint ?w)"
    then show "uint ?w = from_bytes_le [a, b]"
      using from_to_bytes_le_id [of "uint ?w" 2] uint_lt2p [of ?w] by simp
  qed
  also have "\<dots> \<longleftrightarrow> a = ucast ?w \<and> b = ucast (drop_bit 8 ?w)"
    by (simp add: to_bytes_le_crc)
  also have "\<dots> \<longleftrightarrow> crc_byte (crc_byte ?s a) b = 0xF0B8"
    unfolding w using crc_two_bytes_inject [of ?s a b] crc_residue [of ?s] by metis
  finally show ?thesis by (simp add: f)
qed

lemma foldl_crc_inject: "foldl crc_byte s bs = foldl crc_byte t bs \<longleftrightarrow> s = t"
  by (induction bs arbitrary: s t) simp_all

lemma verify_append_fcs [simp]: "verify_fcs (append_fcs d)"
proof -
  have "from_bytes_le (to_bytes_le 2 (uint (crc_x25 d))) = uint (crc_x25 d)"
    using from_to_bytes_le_id [of "uint (crc_x25 d)" 2] uint_lt2p [of "crc_x25 d"] by simp
  then show ?thesis by (simp add: verify_fcs_def append_fcs_def)
qed

lemma length_append_fcs [simp]: "length (append_fcs d) = length d + 2"
  by (simp add: append_fcs_def)

lemma take_append_fcs [simp]: "take (length (append_fcs d) - 2) (append_fcs d) = d"
  by (simp add: append_fcs_def)

text \<open>
  The frame check sequence detects every burst of errors confined to two consecutive octets,
  the check octets included: changing two neighbouring octets of a frame that verifies gives a
  frame that does not.
\<close>

theorem fcs_burst_detected:
  assumes good: "verify_fcs (pre @ [a, b] @ post)" and burst: "(a, b) \<noteq> (c, d)"
  shows "\<not> verify_fcs (pre @ [c, d] @ post)"
proof
  assume "verify_fcs (pre @ [c, d] @ post)"
  with good have "foldl crc_byte 0xFFFF (pre @ [a, b] @ post) = foldl crc_byte 0xFFFF (pre @ [c, d] @ post)"
    by (simp add: verify_fcs_residue)
  then have "crc_byte (crc_byte (foldl crc_byte 0xFFFF pre) a) b =
      crc_byte (crc_byte (foldl crc_byte 0xFFFF pre) c) d"
    by (simp add: foldl_crc_inject)
  with burst show False by (simp add: crc_two_bytes_inject)
qed

theorem fcs_burst_detected_witness:
  "verify_fcs ([] @ [0x41, 0x42] @ to_bytes_le 2 (uint (crc_x25 [0x41, 0x42]))) \<and>
   \<not> verify_fcs ([] @ [0x41, 0x43] @ to_bytes_le 2 (uint (crc_x25 [0x41, 0x42])))"
proof -
  have good: "verify_fcs ([] @ [0x41, 0x42] @ to_bytes_le 2 (uint (crc_x25 [0x41, 0x42])))"
    using verify_append_fcs [of "[0x41, 0x42]"] by (simp add: append_fcs_def)
  have "((0x41, 0x42) :: byte \<times> byte) \<noteq> (0x41, 0x43)" by simp
  from good fcs_burst_detected [OF good this] show ?thesis by (rule conjI)
qed

subsection \<open>Addresses\<close>

definition callsign_char :: "char \<Rightarrow> bool" where
  "callsign_char c \<longleftrightarrow> py_isdigit c \<or> py_isupper c"

definition wf_address :: "address \<Rightarrow> bool" where
  "wf_address a \<longleftrightarrow>
     1 \<le> length (addr_callsign a) \<and> length (addr_callsign a) \<le> 6 \<and>
     list_all callsign_char (addr_callsign a) \<and> 0 \<le> addr_ssid a \<and> addr_ssid a \<le> 15"

definition encode_address_char :: "char \<Rightarrow> byte" where
  "encode_address_char c = push_bit 1 (of_nat (py_ord c)) AND 0xFE"

definition encode_ssid_byte :: "address \<Rightarrow> bool \<Rightarrow> byte" where
  "encode_ssid_byte a lst =
     (let ssid = 0x60 OR push_bit 1 (word_of_int (addr_ssid a) AND 0x0F);
          ssid = (if addr_flag a then ssid OR 0x80 else ssid)
      in if lst then ssid OR 0x01 else ssid)"

lemma encode_address_eq:
  "encode_address a lst =
   map encode_address_char (py_ljust 6 (py_upper (addr_callsign a))) @ [encode_ssid_byte a lst]"
  by (simp add: encode_address_def encode_address_char_def [abs_def] encode_ssid_byte_def Let_def)

lemma callsign_char_facts:
  assumes "callsign_char c"
  shows "py_isalnum c" "\<not> py_islower c" "py_isascii c" "c \<noteq> CHR '' ''" "py_ord c < 128"
    "\<not> py_isspace c"
  using assms
  by (auto simp: callsign_char_def py_isalnum_def py_isdigit_def py_isupper_def py_islower_def
      py_isascii_def py_isspace_def Let_def)

lemma callsign_char_iff:
  "callsign_char c \<longleftrightarrow> py_isascii c \<and> py_isalnum c \<and> py_upper_char c = c"
  by (auto simp: py_upper_char_eq_iff callsign_char_def py_isalnum_def py_isascii_def
      py_isdigit_def py_isupper_def py_islower_def)

lemma callsign_chars_ok_True: "callsign_chars_ok True cs \<longleftrightarrow> cs = replicate (length cs) (CHR '' '')"
  by (induction cs) auto

lemma callsign_chars_ok_False:
  "callsign_chars_ok False cs \<longleftrightarrow>
     (\<exists>call n. cs = call @ replicate n (CHR '' '') \<and> list_all callsign_char call)"
proof
  assume "callsign_chars_ok False cs"
  then show "\<exists>call n. cs = call @ replicate n (CHR '' '') \<and> list_all callsign_char call"
  proof (induction cs)
    case Nil
    show ?case by simp
  next
    case (Cons c cs)
    show ?case
    proof (cases "c = CHR '' ''")
      case True
      with Cons.prems have "c # cs = [] @ replicate (Suc (length cs)) (CHR '' '')"
        by (simp add: callsign_chars_ok_True)
      then show ?thesis by fastforce
    next
      case False
      with Cons.prems have c: "callsign_char c" and "callsign_chars_ok False cs"
        by (auto simp: callsign_char_iff split: if_splits)
      then obtain call n where "cs = call @ replicate n (CHR '' '')" "list_all callsign_char call"
        using Cons.IH by blast
      with c have "c # cs = (c # call) @ replicate n (CHR '' '') \<and> list_all callsign_char (c # call)"
        by simp
      then show ?thesis by blast
    qed
  qed
next
  assume "\<exists>call n. cs = call @ replicate n (CHR '' '') \<and> list_all callsign_char call"
  then obtain call n where "cs = call @ replicate n (CHR '' '')" "list_all callsign_char call"
    by blast
  moreover have "callsign_chars_ok False (replicate n (CHR '' ''))"
    by (cases n) (auto simp: callsign_chars_ok_True)
  ultimately show "callsign_chars_ok False cs"
    by (induction call arbitrary: cs) (auto simp: callsign_char_facts(4), (simp add: callsign_char_iff)+)
qed

lemma rstrip_callsign:
  "list_all callsign_char call \<Longrightarrow> py_rstrip (call @ replicate n (CHR '' '')) = call"
  by (simp, rule py_rstrip_id) (metis callsign_char_facts(6) last_in_set list_all_iff)

lemma py_upper_callsign: "list_all callsign_char call \<Longrightarrow> py_upper call = call"
  by (induction call) (auto simp: py_upper_def callsign_char_iff)

lemma address_char_encode: "py_ord c < 128 \<Longrightarrow> address_char (encode_address_char c) = c"
proof -
  assume c: "py_ord c < 128"
  let ?w = "of_nat (py_ord c) :: byte"
  have top: "\<not> bit (py_ord c) 7" using c by (simp add: bit_iff_odd [of "py_ord c"])
  have r: "drop_bit 1 (push_bit 1 ?w AND 0xFE) AND 0x7F = ?w"
    by (rule byte_eqI) (use top in \<open>simp_all add: bit_simps eval_nat_numeral\<close>)
  show ?thesis
    unfolding address_char_def encode_address_char_def r by (simp add: unat_of_nat)
qed

lemma encode_address_char_decode: "\<not> bit b 0 \<Longrightarrow> encode_address_char (address_char b) = b"
proof -
  assume b: "\<not> bit b 0"
  let ?w = "drop_bit 1 b AND 0x7F"
  have w: "of_nat (py_ord (py_chr (unat ?w))) = ?w" by (simp add: py_ord_py_chr)
  show ?thesis
    unfolding encode_address_char_def address_char_def w
    by (rule byte_eqI) (simp_all add: bit_simps b eval_nat_numeral)
qed

lemma encode_address_char_bit0: "\<not> bit (encode_address_char c) 0"
  by (simp add: encode_address_char_def bit_simps)

lemma encode_ssid_byte_bits:
  "bit (encode_ssid_byte a lst) n \<longleftrightarrow>
     n = 0 \<and> lst \<or> (1 \<le> n \<and> n \<le> 4 \<and> bit (addr_ssid a) (n - 1)) \<or> n = 5 \<or> n = 6 \<or> n = 7 \<and> addr_flag a"
  if "n < 8"
proof -
  from that consider "n = 0" | "n = 1" | "n = 2" | "n = 3" | "n = 4" | "n = 5" | "n = 6" | "n = 7"
    by fastforce
  then show ?thesis
    by cases (simp_all add: encode_ssid_byte_def Let_def bit_simps)
qed


lemma ssid_word_roundtrip:
  assumes "0 \<le> addr_ssid a" "addr_ssid a \<le> 15"
  shows "uint (drop_bit 1 (encode_ssid_byte a lst) AND 0x0F) = addr_ssid a"
proof -
  have "drop_bit 1 (encode_ssid_byte a lst) AND 0x0F = (word_of_int (addr_ssid a) AND 0x0F :: byte)"
    by (rule byte_eqI) (simp_all add: bit_simps encode_ssid_byte_bits eval_nat_numeral)
  also have "\<dots> = word_of_int (addr_ssid a AND 0x0F)"
    by (rule byte_eqI) (simp_all add: bit_simps)
  also have "addr_ssid a AND 0x0F = addr_ssid a"
    using assms take_bit_eq_mask [of 4 "addr_ssid a"] take_bit_int_eq_self [of "addr_ssid a" 4] by (simp add: mask_eq_exp_minus_1)
  finally show ?thesis using assms by (simp add: uint_word_of_int)
qed

lemma encode_ssid_byte_decode:
  assumes "b AND 0x60 = 0x60"
  shows "encode_ssid_byte
    \<lparr>addr_callsign = call, addr_ssid = uint (drop_bit 1 b AND 0x0F), addr_flag = (b AND 0x80 \<noteq> 0)\<rparr>
    (b AND 0x01 \<noteq> 0) = b"
proof -
  have "bit (b AND 0x60) 5" "bit (b AND 0x60) 6" by (simp_all add: assms)
  then have b5: "bit b 5" "bit b 6" by (simp_all add: bit_simps)
  show ?thesis
    by (rule byte_eqI)
      (use b5 in \<open>simp_all add: encode_ssid_byte_bits and_mask_bit bit_simps eval_nat_numeral\<close>)
qed

lemma encode_ssid_byte_reserved: "encode_ssid_byte a lst AND 0x60 = 0x60"
  by (rule byte_eqI) (simp_all add: encode_ssid_byte_bits bit_simps)

lemma length_encode_address:
  "wf_address a \<Longrightarrow> length (encode_address a lst) = 7"
  by (simp add: encode_address_eq length_py_ljust py_upper_def wf_address_def)

lemma decode_encode_address:
  assumes "wf_address a"
  shows "decode_address (encode_address a lst) = Inr (a, lst)"
proof -
  let ?call = "addr_callsign a"
  have call: "list_all callsign_char ?call" "1 \<le> length ?call" "length ?call \<le> 6"
    and ssid: "0 \<le> addr_ssid a" "addr_ssid a \<le> 15"
    using assms by (auto simp: wf_address_def)
  define padded where "padded = ?call @ replicate (6 - length ?call) (CHR '' '')"
  have len: "length padded = 6" using call by (simp add: padded_def)
  have enc: "encode_address a lst = map encode_address_char padded @ [encode_ssid_byte a lst]"
    using call by (simp add: encode_address_eq py_ljust_def py_upper_callsign padded_def)
  have ord: "py_ord c < 128" if "c \<in> set padded" for c
    using that call(1) by (auto simp: padded_def list_all_iff callsign_char_facts)
  have chars: "map address_char (map encode_address_char padded) = padded"
    using ord by (auto simp: address_char_encode intro: map_idI)
  have ok: "callsign_chars_ok False padded"
    unfolding callsign_chars_ok_False padded_def using call(1) by blast
  have strip: "py_rstrip padded = ?call" unfolding padded_def by (rule rstrip_callsign [OF call(1)])
  have nonempty: "?call \<noteq> []" using call(2) by auto
  have nolow: "\<not> list_ex (\<lambda>b. b AND 0x01 \<noteq> 0) (map encode_address_char padded)"
    by (auto simp: list_ex_iff and_mask_bit encode_address_char_bit0)
  have t6: "take 6 (encode_address a lst) = map encode_address_char padded"
    and n6: "encode_address a lst ! 6 = encode_ssid_byte a lst"
    and l7: "length (encode_address a lst) = 7"
    using len by (simp_all add: enc nth_append)
  show ?thesis
    unfolding decode_address_def t6 n6 l7 chars
    using nolow ok strip nonempty ssid
    by (simp add: encode_ssid_byte_reserved ssid_word_roundtrip [simplified] and_mask_bit
        encode_ssid_byte_bits Let_def)
qed

lemma decode_address_wf:
  assumes "decode_address f = Inr (a, lst)"
  shows "wf_address a \<and> encode_address a lst = f"
proof -
  from assms have len: "length f = 7"
    and even: "\<not> list_ex (\<lambda>b. b AND 0x01 \<noteq> 0) (take 6 f)"
    and res: "(f ! 6) AND 0x60 = 0x60"
    and ok: "callsign_chars_ok False (map address_char (take 6 f))"
    and ne: "py_rstrip (map address_char (take 6 f)) \<noteq> []"
    and a: "a = \<lparr>addr_callsign = py_rstrip (map address_char (take 6 f)),
      addr_ssid = uint (drop_bit 1 (f ! 6) AND 0x0F), addr_flag = ((f ! 6) AND 0x80 \<noteq> 0)\<rparr>"
    and lst: "lst = ((f ! 6) AND 0x01 \<noteq> 0)"
    by (auto simp: decode_address_def Let_def split: if_splits)
  from ok obtain call n where chars: "map address_char (take 6 f) = call @ replicate n (CHR '' '')"
    and call: "list_all callsign_char call"
    unfolding callsign_chars_ok_False by blast
  have strip: "py_rstrip (map address_char (take 6 f)) = call"
    unfolding chars by (rule rstrip_callsign [OF call])
  have "length (map address_char (take 6 f)) = 6" using len by simp
  then have n: "n = 6 - length call" "length call \<le> 6" unfolding chars by simp_all
  have "uint (drop_bit 1 (f ! 6) AND 0x0F) \<le> 15"
    using word_and_le1 [of "drop_bit 1 (f ! 6)" "0x0F"] by (simp add: word_le_def)
  then have wf: "wf_address a"
    using n ne call by (auto simp: wf_address_def a strip Suc_le_eq)
  have "map encode_address_char (map address_char (take 6 f)) = take 6 f"
    using even by (auto simp: list_ex_iff and_mask_bit encode_address_char_decode intro!: map_idI)
  then have out: "map encode_address_char (py_ljust 6 (py_upper call)) = take 6 f"
    using n by (simp add: chars py_ljust_def py_upper_callsign [OF call])
  have "f = take 6 f @ [f ! 6]"
    using len take_Suc_conv_app_nth [of 6 f] by simp
  then show ?thesis using wf out encode_ssid_byte_decode [OF res]
    by (simp add: encode_address_eq a lst strip)
qed

text \<open>
  The address codec is a bijection: a seven-byte field decodes exactly when it is the encoding
  of a well-formed address (one to six upper-case ASCII alphanumerics, an SSID of 0..15), and then
  to that address and last-address mark.
\<close>

theorem decode_address_iff:
  "decode_address f = Inr (a, lst) \<longleftrightarrow> wf_address a \<and> f = encode_address a lst"
  using decode_encode_address decode_address_wf by blast

subsection \<open>Frames\<close>

lemma parse_frame_append_fcs: "parse_frame (append_fcs d) True = parse_frame d False"
  unfolding parse_frame_def take_append_fcs by simp

lemma decode_addresses_loop_encode:
  assumes "as \<noteq> []" "list_all wf_address as" "length acc + length as \<le> 11"
  shows "decode_addresses_loop (pre @ encode_addresses as @ rest) acc (length pre) =
    Inr (acc @ as, length pre + 7 * length as)"
  using assms
proof (induction as arbitrary: pre acc rule: encode_addresses.induct)
  case 1
  then show ?case by simp
next
  case (2 a)
  then have wf: "wf_address a" by simp
  then show ?case
    by (simp add: decode_addresses_loop.simps [of _ acc] length_encode_address decode_encode_address Let_def)
next
  case (3 a b bs)
  then have wf: "wf_address a" by simp
  let ?pre = "pre @ encode_address a False"
  have "decode_addresses_loop (?pre @ encode_addresses (b # bs) @ rest) (acc @ [a]) (length ?pre) =
      Inr ((acc @ [a]) @ b # bs, length ?pre + 7 * length (b # bs))"
    using "3.prems" by (intro "3.IH") auto
  then show ?case
    using wf "3.prems"
    by (simp add: decode_addresses_loop.simps [of _ acc] length_encode_address decode_encode_address Let_def)
qed

lemma length_encode_addresses:
  "list_all wf_address as \<Longrightarrow> length (encode_addresses as) = 7 * length as"
  by (induction as rule: encode_addresses.induct) (auto simp: length_encode_address)

lemma decode_addresses_encode:
  assumes "2 \<le> length as" "length as \<le> 11" "list_all wf_address as"
  shows "decode_addresses (encode_addresses as @ rest) = Inr (as, 7 * length as)"
proof -
  from assms(1) have "as \<noteq> []" by auto
  with assms decode_addresses_loop_encode [of as "[]" "[]" rest] show ?thesis
    by (simp add: decode_addresses_def)
qed

lemma parse_frame_encoded:
  assumes "2 \<le> length as" "length as \<le> 11" "list_all wf_address as"
  shows "parse_frame (encode_addresses as @ control # rest) False = parse_control as control rest"
proof -
  define ea where "ea = encode_addresses as"
  have "decode_addresses (ea @ control # rest) = Inr (as, length ea)"
    using decode_addresses_encode [OF assms] length_encode_addresses [OF assms(3)] by (simp add: ea_def)
  moreover have "14 \<le> length ea"
    using assms(1) length_encode_addresses [OF assms(3)] by (simp add: ea_def)
  ultimately show ?thesis
    unfolding ea_def [symmetric] by (simp add: parse_frame_def nth_append)
qed

lemma decode_addresses_loop_inv:
  assumes "decode_addresses_loop data acc off = Inr (as, n)" "length acc \<le> 10"
  shows "\<exists>bs. as = acc @ bs \<and> bs \<noteq> [] \<and> list_all wf_address bs \<and> length as \<le> 11 \<and>
    n \<le> length data \<and> drop off data = encode_addresses bs @ drop n data"
  using assms
proof (induction data acc off rule: decode_addresses_loop.induct)
  case (1 data acc off)
  have fits: "off + 7 \<le> length data"
    using "1.prems"(1) by (subst (asm) decode_addresses_loop.simps) (auto split: if_splits)
  obtain a lst where dec: "decode_address (take 7 (drop off data)) = Inr (a, lst)"
    using "1.prems"(1) by (subst (asm) decode_addresses_loop.simps) (auto split: if_splits sum.splits)
  then have a: "wf_address a" "encode_address a lst = take 7 (drop off data)"
    using decode_address_wf by blast+
  have split: "drop off data = encode_address a lst @ drop (off + 7) data"
    using a(2) append_take_drop_id [of 7 "drop off data"] by (simp add: add.commute)
  show ?case
  proof (cases lst)
    case True
    with "1.prems" dec fits have "as = acc @ [a]" "n = off + 7"
      by (subst (asm) decode_addresses_loop.simps; simp add: Let_def)+
    with a split True "1.prems"(2) fits show ?thesis by (intro exI [of _ "[a]"]) simp
  next
    case False
    with "1.prems" dec fits have short: "length (acc @ [a]) \<le> 10"
      and rec: "decode_addresses_loop data (acc @ [a]) (off + 7) = Inr (as, n)"
      by (subst (asm) decode_addresses_loop.simps; simp add: Let_def split: if_splits)+
    have "\<exists>bs. as = (acc @ [a]) @ bs \<and> bs \<noteq> [] \<and> list_all wf_address bs \<and> length as \<le> 11 \<and>
        n \<le> length data \<and> drop (off + 7) data = encode_addresses bs @ drop n data"
      using "1.IH" fits dec False short rec by fastforce
    then obtain bs where bs: "as = (acc @ [a]) @ bs" "bs \<noteq> []" "list_all wf_address bs" "length as \<le> 11"
        "n \<le> length data" "drop (off + 7) data = encode_addresses bs @ drop n data"
      by blast
    from bs(2) have "encode_addresses (a # bs) = encode_address a False @ encode_addresses bs"
      by (cases bs) simp_all
    with bs a split False show ?thesis by (intro exI [of _ "a # bs"]) simp
  qed
qed

lemma parse_frame_inv:
  assumes "parse_frame d False = Inr p"
  obtains as control rest where "2 \<le> length as" "length as \<le> 11" "list_all wf_address as"
    "d = encode_addresses as @ control # rest" "parse_control as control rest = Inr p"
proof -
  from assms obtain as n where dec: "decode_addresses d = Inr (as, n)" and n: "n < length d"
    and pc: "parse_control as (d ! n) (drop (n + 1) d) = Inr p"
    by (auto simp: parse_frame_def try_bind_Inr_iff Let_def not_le split: if_splits)
  from dec have loop: "decode_addresses_loop d [] 0 = Inr (as, n)" and two: "2 \<le> length as"
    by (auto simp: decode_addresses_def try_bind_Inr_iff split: if_splits)
  from decode_addresses_loop_inv [OF loop] have wf: "list_all wf_address as" "length as \<le> 11"
    "d = encode_addresses as @ drop n d"
    by auto
  moreover have "drop n d = d ! n # drop (n + 1) d" using n by (simp add: Cons_nth_drop_Suc)
  ultimately have "d = encode_addresses as @ d ! n # drop (n + 1) d" by metis
  with wf two pc show thesis by (intro that)
qed

text \<open>
  C31. The frame parser accepts exactly the byte strings that are two to eleven encoded addresses,
  the last one marked, followed by a control octet and a tail that the control octet admits.
\<close>

theorem parse_frame_language:
  "parse_frame d False = Inr p \<longleftrightarrow>
     (\<exists>as control rest. 2 \<le> length as \<and> length as \<le> 11 \<and> list_all wf_address as \<and>
        d = encode_addresses as @ control # rest \<and> parse_control as control rest = Inr p)"
proof
  assume "parse_frame d False = Inr p"
  then show "\<exists>as control rest. 2 \<le> length as \<and> length as \<le> 11 \<and> list_all wf_address as \<and>
        d = encode_addresses as @ control # rest \<and> parse_control as control rest = Inr p"
    by (blast elim: parse_frame_inv)
qed (auto simp: parse_frame_encoded)

definition ui_parsed :: "address \<Rightarrow> address \<Rightarrow> bytes \<Rightarrow> address list \<Rightarrow> int \<Rightarrow> parsed_frame" where
  "ui_parsed src dst info path pid =
     \<lparr>pf_destination = dst\<lparr>addr_flag := True\<rparr>, pf_source = src\<lparr>addr_flag := False\<rparr>, pf_path = path,
      pf_control = AX25_UI, pf_frame_class = ''U'', pf_frame_type = ''UI'', pf_poll_final = False,
      pf_ns = None, pf_nr = None, pf_pid = Some (word_of_int pid), pf_info = info\<rparr>"

lemma address_with_flag:
  "\<lparr>addr_callsign = addr_callsign x, addr_ssid = addr_ssid x, addr_flag = b\<rparr> = x\<lparr>addr_flag := b\<rparr>"
  for x :: address
  by (cases x) simp

text \<open>
  C29. A UI frame built from well-formed addresses (at most nine digipeaters) parses back, with or
  without its frame check sequence, to the addresses, the protocol identifier and the information
  field it was built from; the destination carries the command bit and the source does not.
\<close>

theorem build_parse_ui_frame:
  assumes wf: "wf_address src" "wf_address dst" "list_all wf_address path"
    and path: "length path \<le> 9" and pid: "0 \<le> pid" "pid \<le> 255"
  shows "\<exists>frame. build_ui_frame src dst info path pid fcs = Inr frame \<and>
    parse_ui_frame frame fcs = Inr (ui_parsed src dst info path pid)"
proof -
  define as where "as = dst\<lparr>addr_flag := True\<rparr> # src\<lparr>addr_flag := False\<rparr> # path"
  define data where "data = encode_addresses as @ AX25_UI # word_of_int pid # info"
  have "list_all wf_address as" using wf by (simp add: wf_address_def as_def)
  then have "parse_frame data False = parse_control as AX25_UI (word_of_int pid # info)"
    using path unfolding data_def by (intro parse_frame_encoded) (simp_all add: as_def)
  also have "\<dots> = Inr (ui_parsed src dst info path pid)"
    by (simp add: as_def parse_control_def AX25_UI_def U_FRAME_NAMES_def ui_parsed_def)
  finally have "parse_ui_frame (if fcs then append_fcs data else data) fcs = Inr (ui_parsed src dst info path pid)"
    by (simp add: parse_ui_frame_def parse_frame_append_fcs ui_parsed_def)
  moreover have "build_ui_frame src dst info path pid fcs = Inr (if fcs then append_fcs data else data)"
    using pid by (simp add: build_ui_frame_def data_def as_def address_with_flag)
  ultimately show ?thesis by blast
qed

theorem build_parse_ui_frame_witness:
  "\<exists>frame.
     build_ui_frame \<lparr>addr_callsign = ''N0CALL'', addr_ssid = 7, addr_flag = True\<rparr>
       \<lparr>addr_callsign = ''APRS'', addr_ssid = 0, addr_flag = False\<rparr> [0x21, 0x22]
       [\<lparr>addr_callsign = ''WIDE1'', addr_ssid = 1, addr_flag = True\<rparr>] AX25_PID_NO_L3 True = Inr frame \<and>
     parse_ui_frame frame True = Inr (ui_parsed
       \<lparr>addr_callsign = ''N0CALL'', addr_ssid = 7, addr_flag = True\<rparr>
       \<lparr>addr_callsign = ''APRS'', addr_ssid = 0, addr_flag = False\<rparr> [0x21, 0x22]
       [\<lparr>addr_callsign = ''WIDE1'', addr_ssid = 1, addr_flag = True\<rparr>] AX25_PID_NO_L3)"
  by (rule build_parse_ui_frame) code_simp+

lemma S_FRAME_NAMES_total: "S_FRAME_NAMES (c AND 0x03) \<noteq> None"
proof -
  have "unat (c AND 0x03) \<le> 3" using word_and_le1 [of c 3] by (simp add: word_le_nat_alt)
  then have "unat (c AND 0x03) \<in> {0, 1, 2, 3}" by auto
  then have "c AND 0x03 \<in> {0, 1, 2, 3}" by (auto simp: word_unat_eq_iff)
  then show ?thesis by (auto simp: S_FRAME_NAMES_def)
qed


lemma parse_frame_no_key_error: "parse_frame frame fcs \<noteq> Inl SFrameKeyError"
proof -
  have addr: "decode_addresses_loop data acc off \<noteq> Inl SFrameKeyError" for data acc off
    by (induction data acc off rule: decode_addresses_loop.induct)
      (subst decode_addresses_loop.simps, auto simp: decode_address_def Let_def split: sum.splits if_splits)
  have "parse_control as c rest \<noteq> Inl SFrameKeyError" for as c rest
    using S_FRAME_NAMES_total [of "drop_bit 2 c"]
    by (auto simp: parse_control_def Let_def split: if_splits option.splits list.splits)
  then show ?thesis
    using addr by (auto simp: parse_frame_def decode_addresses_def try_bind_Inl_iff Let_def split: if_splits)
qed

subsection \<open>Evaluation of the check sequence\<close>

text \<open>
  The register as a list of bits, least significant first. The code equation that follows lets
  concrete frames be checked by rewriting.
\<close>

definition crc_bits :: "16 word \<Rightarrow> bool list" where
  "crc_bits c = map (bit c) [0..<16]"

fun crc_bits_step :: "bool list \<Rightarrow> bool list" where
  "crc_bits_step [b0, b1, b2, b3, b4, b5, b6, b7, b8, b9, b10, b11, b12, b13, b14, b15] =
     [b1, b2, b3, b4 \<noteq> b0, b5, b6, b7, b8, b9, b10, b11 \<noteq> b0, b12, b13, b14, b15, b0]"
| "crc_bits_step bs = bs"

fun xor_prefix :: "bool list \<Rightarrow> bool list \<Rightarrow> bool list" where
  "xor_prefix (x # xs) (y # ys) = (x \<noteq> y) # xor_prefix xs ys"
| "xor_prefix xs [] = xs"
| "xor_prefix [] ys = []"

definition crc_bits_byte :: "bool list \<Rightarrow> byte \<Rightarrow> bool list" where
  "crc_bits_byte bs b = (crc_bits_step ^^ 8) (xor_prefix bs (map (bit b) [0..<8]))"

lemma upt_16: "[0..<16] = [0, 1, 2, 3, 4, 5, 6, 7, 8, 9, 10, 11, 12, 13, 14, 15 :: nat]"
  by (simp add: upt_rec)

lemma upt_8: "[0..<8] = [0, 1, 2, 3, 4, 5, 6, 7 :: nat]"
  by (simp add: upt_rec)

lemma crc_bits_crc_bit: "crc_bits (crc_bit c) = crc_bits_step (crc_bits c)"
proof -
  have "\<not> bit c 16" using bit_imp_le_length [of c 16] by auto
  then show ?thesis by (simp add: crc_bits_def upt_16 bit_crc_bit flip: numeral_2_eq_2)
qed

lemma crc_bits_crc_byte: "crc_bits (crc_byte c b) = crc_bits_byte (crc_bits c) b"
proof -
  have pow: "crc_bits ((crc_bit ^^ n) c) = (crc_bits_step ^^ n) (crc_bits c)" for n c
    by (induction n) (simp_all add: crc_bits_crc_bit)
  have "bit b n = False" if "8 \<le> n" for n using bit_imp_le_length [of b n] that by auto
  then have "crc_bits (c XOR ucast b) = xor_prefix (crc_bits c) (map (bit b) [0..<8])"
    by (simp add: crc_bits_def upt_16 upt_8 bit_simps)
  then show ?thesis by (simp add: crc_byte_def crc_bits_byte_def pow)
qed

lemma crc_x25_code [code]:
  "crc_x25 data = horner_sum of_bool 2 (map Not (foldl crc_bits_byte (replicate 16 True) data))"
proof -
  have "crc_bits (foldl crc_byte c data) = foldl crc_bits_byte (crc_bits c) data" for c
    by (induction data arbitrary: c) (simp_all add: crc_bits_crc_byte)
  from this [of "0xFFFF"] have f: "crc_bits (foldl crc_byte 0xFFFF data) = foldl crc_bits_byte (replicate 16 True) data"
    by (simp add: crc_bits_def upt_16 numeral_eq_Suc)
  have "crc_bits (x XOR 0xFFFF) = map Not (crc_bits x)" for x
    by (simp add: crc_bits_def upt_16 bit_simps)
  moreover have "horner_sum of_bool 2 (crc_bits x) = x" for x
    using horner_sum_bit_eq_take_bit [of x 16] by (simp add: crc_bits_def take_bit_word_eq_self)
  ultimately show ?thesis unfolding crc_x25_def f [symmetric] by metis
qed

end
