(* ===== verification/Access_Queue.thy ===== *)
theory Access_Queue
  imports Channel_Access Ax25_Codec
begin

section \<open>The bounded channel-access queue\<close>

text \<open>
  \<open>src/src/ywd1278/tx/access_queue.py\<close>: the bounded queue of complete frames whose head is driven
  through channel access, one RSSI sample at a time, and handed once to an injected submitter. The
  submitter and the source of random octets are parameters over a world state. The text of a
  downstream exception is kept as the exception itself.
\<close>

subsection \<open>Model\<close>

datatype aq_error =
    QueueCapacityRange | RequestTimeoutNotPositive | DownstreamTimeoutNotPositive
  | AccessQueueFull | AccessQueueFrameRejected | AccessQueueTimeNegative | AccessQueueTimeNotMonotonic
  | QueueParameters csma_error | QueueAccess access_error

datatype access_request_state = RQ_QUEUED | RQ_ACCESS | RQ_DISPATCHED | RQ_TIMED_OUT | RQ_DOWNSTREAM_FAILED

datatype aq_reason =
    NoQueuedRequest | LifetimeExpired | AttemptTimedOut | RemainsGated | DownstreamFailed | DispatchedOnce

record access_receipt =
  ar_request_id :: int
  ar_frame_bytes :: nat
  ar_enqueued_at :: seconds
  ar_deadline_at :: seconds

record 'r aq_observation =
  ao_q_now :: seconds
  ao_request_id :: "int option"
  ao_request_state :: "access_request_state option"
  ao_access :: "access_observation option"
  ao_downstream_called :: bool
  ao_downstream_result :: "'r option"
  ao_downstream_error :: "tx_exn option"
  ao_reason :: aq_reason

record aq_request =
  rq_receipt :: access_receipt
  rq_frame :: bytes
  rq_attempt :: "access_attempt option"

record access_queue =
  aq_queue_capacity :: int
  aq_request_timeout_seconds :: seconds
  aq_downstream_timeout_seconds :: seconds
  aq_queue :: "aq_request list"
  aq_next_request_id :: int
  aq_last_now :: seconds
  aq_accepted_requests :: nat
  aq_invalid_rejections :: nat
  aq_queue_full_rejections :: nat
  aq_dispatched_requests :: nat
  aq_timed_out_requests :: nat
  aq_downstream_failures :: nat

definition aq_init :: "int \<Rightarrow> seconds \<Rightarrow> seconds \<Rightarrow> (aq_error, access_queue) result" where
  "aq_init queue_capacity request_timeout_seconds downstream_timeout_seconds =
     (if queue_capacity < 1 then Inl QueueCapacityRange
      else if request_timeout_seconds \<le> 0 then Inl RequestTimeoutNotPositive
      else if downstream_timeout_seconds \<le> 0 then Inl DownstreamTimeoutNotPositive
      else Inr \<lparr>aq_queue_capacity = queue_capacity, aq_request_timeout_seconds = request_timeout_seconds,
        aq_downstream_timeout_seconds = downstream_timeout_seconds, aq_queue = [],
        aq_next_request_id = 1, aq_last_now = 0, aq_accepted_requests = 0, aq_invalid_rejections = 0,
        aq_queue_full_rejections = 0, aq_dispatched_requests = 0, aq_timed_out_requests = 0,
        aq_downstream_failures = 0\<rparr>)"

record aq_snapshot =
  as_queue_depth :: nat
  as_queue_capacity :: int
  as_active_request_id :: "int option"
  as_next_request_id :: int
  as_accepted_requests :: nat
  as_invalid_rejections :: nat
  as_queue_full_rejections :: nat
  as_dispatched_requests :: nat
  as_timed_out_requests :: nat
  as_downstream_failures :: nat

definition aq_snapshot_of :: "access_queue \<Rightarrow> aq_snapshot" where
  "aq_snapshot_of q =
     \<lparr>as_queue_depth = length (aq_queue q), as_queue_capacity = aq_queue_capacity q,
      as_active_request_id =
        (case aq_queue q of
           [] \<Rightarrow> None
         | r # _ \<Rightarrow> if rq_attempt r \<noteq> None then Some (ar_request_id (rq_receipt r)) else None),
      as_next_request_id = aq_next_request_id q, as_accepted_requests = aq_accepted_requests q,
      as_invalid_rejections = aq_invalid_rejections q,
      as_queue_full_rejections = aq_queue_full_rejections q,
      as_dispatched_requests = aq_dispatched_requests q,
      as_timed_out_requests = aq_timed_out_requests q,
      as_downstream_failures = aq_downstream_failures q\<rparr>"

definition aq_accept_now :: "access_queue \<Rightarrow> seconds \<Rightarrow> (aq_error, seconds) result \<times> access_queue" where
  "aq_accept_now q now =
     (if now < 0 then (Inl AccessQueueTimeNegative, q)
      else if now < aq_last_now q then (Inl AccessQueueTimeNotMonotonic, q)
      else (Inr now, q\<lparr>aq_last_now := now\<rparr>))"

definition aq_enqueue ::
  "access_queue \<Rightarrow> bytes \<Rightarrow> seconds \<Rightarrow> (aq_error, access_receipt) result \<times> access_queue" where
  "aq_enqueue q frame now =
     (case aq_accept_now q now of
        (Inl e, q) \<Rightarrow> (Inl e, q)
      | (Inr now, q) \<Rightarrow>
          if length frame < 3 \<or> \<not> verify_fcs frame then
            (Inl AccessQueueFrameRejected, q\<lparr>aq_invalid_rejections := aq_invalid_rejections q + 1\<rparr>)
          else if int (length (aq_queue q)) \<ge> aq_queue_capacity q then
            (Inl AccessQueueFull, q\<lparr>aq_queue_full_rejections := aq_queue_full_rejections q + 1\<rparr>)
          else
            (let receipt = \<lparr>ar_request_id = aq_next_request_id q, ar_frame_bytes = length frame,
                ar_enqueued_at = now, ar_deadline_at = now + aq_request_timeout_seconds q\<rparr>;
                request = \<lparr>rq_receipt = receipt, rq_frame = frame, rq_attempt = None\<rparr>
             in (Inr receipt,
                 q\<lparr>aq_next_request_id := aq_next_request_id q + 1, aq_queue := aq_queue q @ [request],
                   aq_accepted_requests := aq_accepted_requests q + 1\<rparr>)))"

definition aq_observation_of ::
  "seconds \<Rightarrow> aq_request \<Rightarrow> access_request_state \<Rightarrow> access_observation option \<Rightarrow> bool \<Rightarrow> 'r option \<Rightarrow>
     tx_exn option \<Rightarrow> aq_reason \<Rightarrow> 'r aq_observation" where
  "aq_observation_of now request state access called res err reason =
     \<lparr>ao_q_now = now, ao_request_id = Some (ar_request_id (rq_receipt request)),
      ao_request_state = Some state, ao_access = access, ao_downstream_called = called,
      ao_downstream_result = res, ao_downstream_error = err, ao_reason = reason\<rparr>"

text \<open>The attempt of the head request: made when the request reaches the head.\<close>

definition aq_head_attempt :: "aq_request \<Rightarrow> seconds \<Rightarrow> (aq_error, access_attempt) result" where
  "aq_head_attempt request now =
     (case rq_attempt request of
        Some attempt \<Rightarrow> Inr attempt
      | None \<Rightarrow>
          (let remaining = ar_deadline_at (rq_receipt request) - now in
           case csma_parameters_new DEFAULT_PERSIST DEFAULT_SLOT_TIME_10MS
               (min DEFAULT_MAX_WAIT_SECONDS remaining) of
             Inl e \<Rightarrow> Inl (QueueParameters e)
           | Inr parameters \<Rightarrow>
               (case attempt_init now (Some parameters) of
                  Inl e \<Rightarrow> Inl (QueueAccess e)
                | Inr attempt \<Rightarrow> Inr attempt)))"

definition aq_observe_rssi ::
  "('w, 'r) submitter \<Rightarrow> access_queue \<Rightarrow> seconds \<Rightarrow> int \<Rightarrow> 'w random_source option \<Rightarrow> 'w \<Rightarrow>
     (aq_error, 'r aq_observation) result \<times> access_queue \<times> 'w" where
  "aq_observe_rssi submit q now raw_magnitude random_byte_source w =
     (case aq_accept_now q now of
        (Inl e, q) \<Rightarrow> (Inl e, q, w)
      | (Inr now, q) \<Rightarrow>
          (case aq_queue q of
             [] \<Rightarrow>
               (Inr \<lparr>ao_q_now = now, ao_request_id = None, ao_request_state = None, ao_access = None,
                  ao_downstream_called = False, ao_downstream_result = None,
                  ao_downstream_error = None, ao_reason = NoQueuedRequest\<rparr>, q, w)
           | request # rest \<Rightarrow>
               if now \<ge> ar_deadline_at (rq_receipt request) then
                 (Inr (aq_observation_of now request RQ_TIMED_OUT None False None None LifetimeExpired),
                  q\<lparr>aq_queue := rest, aq_timed_out_requests := aq_timed_out_requests q + 1\<rparr>, w)
               else
                 (case aq_head_attempt request now of
                    Inl e \<Rightarrow> (Inl e, q, w)
                  | Inr attempt \<Rightarrow>
                      (case attempt_observe_rssi attempt now raw_magnitude random_byte_source w of
                         (Inl e, attempt, w) \<Rightarrow>
                           (Inl (QueueAccess e), q\<lparr>aq_queue := request\<lparr>rq_attempt := Some attempt\<rparr> # rest\<rparr>, w)
                       | (Inr access, attempt, w) \<Rightarrow>
                           if cd_state (ao_csma access) = TIMED_OUT then
                             (Inr (aq_observation_of now request RQ_TIMED_OUT (Some access) False None None
                                AttemptTimedOut),
                              q\<lparr>aq_queue := rest, aq_timed_out_requests := aq_timed_out_requests q + 1\<rparr>, w)
                           else if cd_state (ao_csma access) \<noteq> READY then
                             (Inr (aq_observation_of now request RQ_ACCESS (Some access) False None None
                                RemainsGated),
                              q\<lparr>aq_queue := request\<lparr>rq_attempt := Some attempt\<rparr> # rest\<rparr>, w)
                           else
                             (case submit (rq_frame request) (Some (aq_downstream_timeout_seconds q)) w of
                                (Inl exc, w) \<Rightarrow>
                                  (Inr (aq_observation_of now request RQ_DOWNSTREAM_FAILED (Some access)
                                     True None (Some exc) DownstreamFailed),
                                   q\<lparr>aq_queue := rest,
                                     aq_downstream_failures := aq_downstream_failures q + 1\<rparr>, w)
                              | (Inr res, w) \<Rightarrow>
                                  (Inr (aq_observation_of now request RQ_DISPATCHED (Some access) True
                                     (Some res) None DispatchedOnce),
                                   q\<lparr>aq_queue := rest,
                                     aq_dispatched_requests := aq_dispatched_requests q + 1\<rparr>, w))))))"

subsection \<open>Runs of the queue\<close>

datatype aq_event = AqEnqueue bytes seconds | AqObserve seconds int

text \<open>One call on the queue, with the numbers of the requests it hands downstream.\<close>

definition aq_handed :: "(aq_error, 'r aq_observation) result \<Rightarrow> int list" where
  "aq_handed outcome =
     (case outcome of
        Inl _ \<Rightarrow> []
      | Inr ob \<Rightarrow> if ao_downstream_called ob then [the (ao_request_id ob)] else [])"

definition aq_step ::
  "('w, 'r) submitter \<Rightarrow> 'w random_source option \<Rightarrow> access_queue \<times> 'w \<Rightarrow> aq_event \<Rightarrow> (access_queue \<times> 'w) \<times> int list" where
  "aq_step submit src qw ev =
     (case ev of
        AqEnqueue frame now \<Rightarrow> ((snd (aq_enqueue (fst qw) frame now), snd qw), [])
      | AqObserve now raw \<Rightarrow>
          (let (outcome, q', w') = aq_observe_rssi submit (fst qw) now raw src (snd qw)
           in ((q', w'), aq_handed outcome)))"

abbreviation "aq_ids q \<equiv> map (\<lambda>r. ar_request_id (rq_receipt r)) (aq_queue q)"

lemma aq_accept_now_cases:
  obtains (err) e where "aq_accept_now q now = (Inl e, q)"
  | (ok) "aq_accept_now q now = (Inr now, q\<lparr>aq_last_now := now\<rparr>)" "0 \<le> now" "aq_last_now q \<le> now"
proof (cases "0 \<le> now \<and> aq_last_now q \<le> now")
  case True
  then show thesis by (intro ok) (auto simp: aq_accept_now_def)
next
  case False
  then show thesis
    by (intro err [of "if now < 0 then AccessQueueTimeNegative else AccessQueueTimeNotMonotonic"])
      (auto simp: aq_accept_now_def)
qed

text \<open>What an observation does to the queue, by cases on how it ends.\<close>

lemma aq_observe_cases:
  assumes "aq_observe_rssi submit q now raw src w = (outcome, q', w')"
  obtains (keep) "aq_ids q' = aq_ids q" "aq_handed outcome = []"
      "aq_dispatched_requests q' = aq_dispatched_requests q" "aq_timed_out_requests q' = aq_timed_out_requests q"
      "aq_downstream_failures q' = aq_downstream_failures q"
  | (expire) r rest where "aq_queue q = r # rest" "aq_queue q' = rest" "aq_handed outcome = []"
      "aq_dispatched_requests q' = aq_dispatched_requests q" "aq_timed_out_requests q' = aq_timed_out_requests q + 1"
      "aq_downstream_failures q' = aq_downstream_failures q"
  | (hand) r rest where "aq_queue q = r # rest" "aq_queue q' = rest" "aq_handed outcome = [ar_request_id (rq_receipt r)]"
      "aq_timed_out_requests q' = aq_timed_out_requests q"
      "aq_dispatched_requests q' + aq_downstream_failures q' = aq_dispatched_requests q + aq_downstream_failures q + 1"
proof (cases rule: aq_accept_now_cases [of q now])
  case (err e)
  with assms show thesis by (intro keep) (auto simp: aq_observe_rssi_def aq_handed_def)
next
  case ok
  show thesis
  proof (cases "aq_queue q")
    case Nil
    with assms ok show thesis by (intro keep) (auto simp: aq_observe_rssi_def aq_handed_def)
  next
    case (Cons r rest)
    note def = aq_observe_rssi_def aq_handed_def aq_observation_of_def
    show thesis
    proof (cases "ar_deadline_at (rq_receipt r) \<le> now")
      case True
      with assms ok Cons show thesis by (intro expire [of r rest]) (auto simp: def)
    next
      case alive: False
      show thesis
      proof (cases "aq_head_attempt r now")
        case (Inl e)
        with assms ok Cons alive show thesis by (intro keep) (auto simp: def)
      next
        case (Inr a)
        obtain res a' w1 where obs: "attempt_observe_rssi a now raw src w = (res, a', w1)"
          by (metis prod_cases3)
        show thesis
        proof (cases res)
          case (Inl e)
          with assms ok Cons alive Inr obs show thesis by (intro keep) (auto simp: def)
        next
          case res: (Inr access)
          note facts = assms ok Cons alive Inr obs res
          show thesis
          proof (cases "cd_state (ao_csma access)")
            case TIMED_OUT
            with facts show thesis by (intro expire [of r rest]) (auto simp: def)
          next
            case READY
            with facts show thesis
              by (intro hand [of r rest]) (auto simp: def split: prod.splits sum.splits)
          qed (use facts in \<open>auto simp: def intro!: keep\<close>)+
        qed
      qed
    qed
  qed
qed

lemma aq_observe_frame:
  assumes "aq_observe_rssi submit q now raw src w = (outcome, q', w')"
  shows "aq_next_request_id q' = aq_next_request_id q" "aq_queue_capacity q' = aq_queue_capacity q"
    "aq_accepted_requests q' = aq_accepted_requests q"
  using assms
  by (auto simp: aq_observe_rssi_def aq_accept_now_def split: if_splits list.splits sum.splits prod.splits)

lemma aq_enqueue_cases:
  assumes "aq_enqueue q frame now = (outcome, q')"
  obtains (refuse) e where "outcome = Inl e" "aq_queue q' = aq_queue q"
      "aq_next_request_id q' = aq_next_request_id q" "aq_accepted_requests q' = aq_accepted_requests q"
  | (admit) r where "aq_queue q' = aq_queue q @ [r]" "ar_request_id (rq_receipt r) = aq_next_request_id q"
      "rq_frame r = frame" "rq_attempt r = None" "outcome = Inr (rq_receipt r)"
      "aq_next_request_id q' = aq_next_request_id q + 1" "aq_accepted_requests q' = aq_accepted_requests q + 1"
      "int (length (aq_queue q)) < aq_queue_capacity q" "verify_fcs frame"
proof (cases rule: aq_accept_now_cases [of q now])
  case (err e)
  with assms show thesis by (intro refuse) (auto simp: aq_enqueue_def)
next
  case ok
  show thesis
  proof (cases "length frame < 3 \<or> \<not> verify_fcs frame \<or> aq_queue_capacity q \<le> int (length (aq_queue q))")
    case True
    with ok assms show thesis by (cases outcome) (auto simp: aq_enqueue_def split: if_splits intro: refuse)
  next
    case False
    with ok assms show thesis by (auto simp: aq_enqueue_def Let_def intro: admit)
  qed
qed

lemma aq_enqueue_frame:
  assumes "aq_enqueue q frame now = (outcome, q')"
  shows "aq_queue_capacity q' = aq_queue_capacity q" "aq_dispatched_requests q' = aq_dispatched_requests q"
    "aq_timed_out_requests q' = aq_timed_out_requests q" "aq_downstream_failures q' = aq_downstream_failures q"
  using assms by (auto simp: aq_enqueue_def aq_accept_now_def Let_def split: if_splits)

interpretation aq_fifo: fifo_queue "aq_step submit src" "\<lambda>(q, _). aq_ids q" "\<lambda>(q, _). aq_next_request_id q"
proof (unfold_locales, goal_cases)
  case (1 qw ev qw' out)
  obtain q w where qw: "qw = (q, w)" by (cases qw)
  obtain q' w' where qw': "qw' = (q', w')" by (cases qw')
  show ?case
  proof (cases ev)
    case (AqEnqueue frame now)
    obtain res where enq: "aq_enqueue q frame now = (res, q')"
      using 1 qw qw' AqEnqueue by (cases "aq_enqueue q frame now") (auto simp: aq_step_def)
    from 1 qw AqEnqueue have out: "out = []" by (auto simp: aq_step_def)
    from enq show ?thesis by (cases rule: aq_enqueue_cases) (auto simp: qw qw' out)
  next
    case (AqObserve now raw)
    with 1 qw qw' obtain res where obs: "aq_observe_rssi submit q now raw src w = (res, q', w')" "out = aq_handed res"
      by (auto simp: aq_step_def split: prod.splits)
    from obs(1) show ?thesis
      using aq_observe_frame(1) [OF obs(1)] by (cases rule: aq_observe_cases) (auto simp: qw qw' obs(2))
  qed
qed

interpretation aq_books: accounted_queue "\<lambda>qw ev. fst (aq_step submit src qw ev)"
  "\<lambda>(q, _). length (aq_queue q)" "\<lambda>(q, _). aq_queue_capacity q" "\<lambda>(q, _). aq_accepted_requests q"
  "\<lambda>(q, _). aq_dispatched_requests q + aq_timed_out_requests q + aq_downstream_failures q"
proof (unfold_locales, goal_cases)
  case (1 qw ev)
  have "aq_queue_capacity (snd (aq_enqueue q frame now)) = aq_queue_capacity q" for q frame now
    using aq_enqueue_frame(1) by (metis surjective_pairing)
  then show ?case
    by (cases qw; cases ev) (auto simp: aq_step_def Let_def aq_observe_frame split: prod.splits)
next
  case (2 qw ev)
  obtain q w where qw: "qw = (q, w)" by (cases qw)
  show ?case
  proof (cases ev)
    case (AqEnqueue frame now)
    obtain res q' where enq: "aq_enqueue q frame now = (res, q')" by fastforce
    from enq show ?thesis using 2 by (cases rule: aq_enqueue_cases) (auto simp: qw AqEnqueue aq_step_def enq)
  next
    case (AqObserve now raw)
    obtain res q' w' where obs: "aq_observe_rssi submit q now raw src w = (res, q', w')" by (metis prod_cases3)
    have "length (aq_queue q') \<le> length (aq_queue q)"
      using obs by (cases rule: aq_observe_cases) (auto dest: map_eq_imp_length_eq)
    then show ?thesis using 2 by (simp add: qw AqObserve aq_step_def obs)
  qed
next
  case (3 qw ev)
  obtain q w where qw: "qw = (q, w)" by (cases qw)
  show ?case
  proof (cases ev)
    case (AqEnqueue frame now)
    obtain res q' where enq: "aq_enqueue q frame now = (res, q')" by fastforce
    from enq show ?thesis
      using 3 aq_enqueue_frame [OF enq] by (cases rule: aq_enqueue_cases) (auto simp: qw AqEnqueue aq_step_def enq)
  next
    case (AqObserve now raw)
    obtain res q' w' where obs: "aq_observe_rssi submit q now raw src w = (res, q', w')" by (metis prod_cases3)
    from obs have "length (aq_queue q') + (aq_dispatched_requests q' + aq_timed_out_requests q' + aq_downstream_failures q') =
        length (aq_queue q) + (aq_dispatched_requests q + aq_timed_out_requests q + aq_downstream_failures q)"
      by (cases rule: aq_observe_cases) (auto dest: map_eq_imp_length_eq)
    then show ?thesis using 3 aq_observe_frame(3) [OF obs] by (simp add: qw AqObserve aq_step_def obs)
  qed
qed

text \<open>
  Every accepted request is handed downstream at most once, in the order of admission, and
  nothing else is: along any sequence of calls on a new queue, whatever the submitter and the random
  source do, the numbers handed downstream increase strictly and were all assigned by admissions.
\<close>

theorem aq_exactly_once:
  assumes "aq_init capacity request_timeout downstream_timeout = Inr q"
    and "run_out (aq_step submit src) (q, w) evs = ((q', w'), handed)"
  shows "sorted_wrt (<) handed \<and> set handed \<subseteq> {1 ..< aq_next_request_id q'}"
proof -
  have "aq_fifo.numbered (q, w)" "aq_ids q = []" "aq_next_request_id q = 1"
    using assms(1) by (auto simp: aq_init_def aq_fifo.numbered_def split: if_splits)
  with aq_fifo.submissions_bounded [OF _ assms(2)] show ?thesis by auto
qed

theorem aq_exactly_once_witness:
  "\<exists>q. aq_init 1 30 (3 / 2) = Inr q \<and>
     (let r = run_out (aq_step (\<lambda>frame timeout n. (Inr (), n + 1)) (Some (\<lambda>n. (9, n)))) (q, 0 :: nat)
        [AqEnqueue [0, 0x78, 0xF0] 0, AqObserve 0 100, AqObserve (1 / 4) 100, AqObserve (1 / 2) 100, AqObserve 1 100]
      in sorted_wrt (<) (snd r) \<and> set (snd r) \<subseteq> {1 ..< aq_next_request_id (fst (fst r))} \<and> snd r = [1])"
proof -
  let ?q = "\<lparr>aq_queue_capacity = 1, aq_request_timeout_seconds = 30, aq_downstream_timeout_seconds = 3 / 2,
    aq_queue = [], aq_next_request_id = 1, aq_last_now = 0, aq_accepted_requests = 0,
    aq_invalid_rejections = 0, aq_queue_full_rejections = 0, aq_dispatched_requests = 0,
    aq_timed_out_requests = 0, aq_downstream_failures = 0\<rparr>"
  let ?evs = "[AqEnqueue [0, 0x78, 0xF0] 0, AqObserve 0 100, AqObserve (1 / 4) 100, AqObserve (1 / 2) 100, AqObserve 1 100]"
  let ?r = "run_out (aq_step (\<lambda>frame timeout n. (Inr (), n + 1)) (Some (\<lambda>n. (9, n)))) (?q, 0 :: nat) ?evs"
  have init: "aq_init 1 30 (3 / 2) = Inr ?q" by (simp add: aq_init_def)
  have one: "snd ?r = [1]" by code_simp
  have "?r = ((fst (fst ?r), snd (fst ?r)), snd ?r)" by (simp only: prod.collapse)
  note both = aq_exactly_once [OF init this]
  show ?thesis
    unfolding Let_def
    by (intro exI [of _ ?q] conjI init one both [THEN conjunct1] both [THEN conjunct2])
qed

text \<open>
  The queue is bounded and its books balance: after any sequence of calls the queue holds at
  most its capacity, and the accepted requests are the queued ones plus those dispatched, timed
  out, or failed downstream.
\<close>

theorem aq_bounded_books:
  assumes "aq_init capacity request_timeout downstream_timeout = Inr q"
    and "(q', w') = run (\<lambda>qw ev. fst (aq_step submit src qw ev)) (q, w) evs"
  shows "int (as_queue_depth (aq_snapshot_of q')) \<le> capacity \<and>
    as_accepted_requests (aq_snapshot_of q') =
      as_queue_depth (aq_snapshot_of q') + as_dispatched_requests (aq_snapshot_of q') +
      as_timed_out_requests (aq_snapshot_of q') + as_downstream_failures (aq_snapshot_of q')"
proof -
  have "aq_books.balanced (q, w)" "aq_queue_capacity q = capacity"
    using assms(1) by (auto simp: aq_init_def aq_books.balanced_def split: if_splits)
  with aq_books.balanced_run [of "(q, w)" submit src evs] show ?thesis
    unfolding assms(2) [symmetric] by (simp add: aq_books.balanced_def aq_snapshot_of_def)
qed

theorem aq_bounded_books_witness:
  "\<exists>q. aq_init 1 30 (3 / 2) = Inr q \<and>
     int (as_queue_depth (aq_snapshot_of (fst (run (\<lambda>qw ev. fst (aq_step (\<lambda>frame timeout n. (Inr (), n + 1))
       (Some (\<lambda>n. (9, n))) qw ev)) (q, 0 :: nat) [AqEnqueue (append_fcs [1, 2, 3]) 0, AqEnqueue (append_fcs [4]) 0])))) \<le> 1"
proof -
  obtain q where q: "aq_init 1 30 (3 / 2) = Inr q" by (simp add: aq_init_def)
  show ?thesis by (intro exI [of _ q] conjI q) (rule aq_bounded_books [OF q prod.collapse, THEN conjunct1])
qed

end
