(* ===== verification/Kiss_Framing.thy ===== *)
theory Kiss_Framing
  imports Prelude
begin

unbundle bit_operations_syntax

section \<open>KISS framing\<close>

text \<open>
  \<open>src/src/ywd1278/kiss/framing.py\<close>: the one-shot encoder and decoder of a KISS packet and the
  incremental decoder a TCP connection feeds.
\<close>

subsection \<open>Model\<close>

datatype kiss_error =
    KISSPortRange | KISSCommandRange | MissingFEND | InvalidEscape | UnexpectedFEND
  | TruncatedKISS | MaxBodyBytes

definition FEND :: byte where "FEND = 0xC0"
definition FESC :: byte where "FESC = 0xDB"
definition TFEND :: byte where "TFEND = 0xDC"
definition TFESC :: byte where "TFESC = 0xDD"

definition KISS_DATA :: int where "KISS_DATA = 0x00"
definition KISS_TXDELAY :: int where "KISS_TXDELAY = 0x01"
definition KISS_PERSIST :: int where "KISS_PERSIST = 0x02"
definition KISS_SLOTTIME :: int where "KISS_SLOTTIME = 0x03"
definition KISS_FULLDUPLEX :: int where "KISS_FULLDUPLEX = 0x05"

record kiss_message =
  km_port :: int
  km_command :: int
  km_frame :: bytes

fun escape_bytes :: "bytes \<Rightarrow> bytes" where
  "escape_bytes [] = []"
| "escape_bytes (b # bs) =
     (if b = FEND then [FESC, TFEND] else if b = FESC then [FESC, TFESC] else [b]) @ escape_bytes bs"

definition kiss_encode :: "bytes \<Rightarrow> int \<Rightarrow> int \<Rightarrow> (kiss_error, bytes) result" where
  "kiss_encode frame port command =
     (if \<not> (0 \<le> port \<and> port \<le> 15) then Inl KISSPortRange
      else if \<not> (0 \<le> command \<and> command \<le> 15) then Inl KISSCommandRange
      else
        (let body = word_of_int (push_bit 4 port OR command) # frame
         in Inr ([FEND] @ escape_bytes body @ [FEND])))"

text \<open>The message of a non-empty unescaped body: its type octet and the rest.\<close>

definition kiss_message_of :: "byte \<Rightarrow> bytes \<Rightarrow> kiss_message" where
  "kiss_message_of type_byte frame =
     \<lparr>km_port = uint (drop_bit 4 type_byte AND 0x0F), km_command = uint (type_byte AND 0x0F),
      km_frame = frame\<rparr>"

fun kiss_decode_loop :: "bool \<Rightarrow> bytes \<Rightarrow> bytes \<Rightarrow> (kiss_error, bool \<times> bytes) result" where
  "kiss_decode_loop escaped raw [] = Inr (escaped, raw)"
| "kiss_decode_loop escaped raw (b # bs) =
     (if escaped then
        (if b = TFEND then kiss_decode_loop False (raw @ [FEND]) bs
         else if b = TFESC then kiss_decode_loop False (raw @ [FESC]) bs
         else Inl InvalidEscape)
      else if b = FESC then kiss_decode_loop True raw bs
      else if b = FEND then Inl UnexpectedFEND
      else kiss_decode_loop escaped (raw @ [b]) bs)"

definition kiss_decode :: "bytes \<Rightarrow> (kiss_error, kiss_message) result" where
  "kiss_decode packet =
     (if length packet < 3 \<or> packet ! 0 \<noteq> FEND \<or> last packet \<noteq> FEND then Inl MissingFEND
      else
        try_bind (kiss_decode_loop False [] (butlast (tl packet)))
          (\<lambda>(escaped, raw).
             if escaped then Inl TruncatedKISS
             else
               (case raw of
                  [] \<Rightarrow> Inl TruncatedKISS
                | type_byte # frame \<Rightarrow> Inr (kiss_message_of type_byte frame))))"

record kiss_decoder =
  kd_max_body_bytes :: int
  kd_raw :: bytes
  kd_escaped :: bool
  kd_discard :: bool
  kd_discarded_frames :: nat

definition kiss_decoder_init :: "int \<Rightarrow> (kiss_error, kiss_decoder) result" where
  "kiss_decoder_init max_body_bytes =
     (if max_body_bytes < 1 then Inl MaxBodyBytes
      else Inr \<lparr>kd_max_body_bytes = max_body_bytes, kd_raw = [], kd_escaped = False,
        kd_discard = False, kd_discarded_frames = 0\<rparr>)"

definition kiss_reset :: "kiss_decoder \<Rightarrow> kiss_decoder" where
  "kiss_reset d = d\<lparr>kd_raw := [], kd_escaped := False, kd_discard := False\<rparr>"

definition kiss_discard_frame :: "kiss_decoder \<Rightarrow> kiss_decoder" where
  "kiss_discard_frame d = d\<lparr>kd_discard := True, kd_discarded_frames := kd_discarded_frames d + 1\<rparr>"

definition kiss_append :: "byte \<Rightarrow> kiss_decoder \<Rightarrow> kiss_decoder" where
  "kiss_append b d =
     (if int (length (kd_raw d)) \<ge> kd_max_body_bytes d then kiss_discard_frame d
      else d\<lparr>kd_raw := kd_raw d @ [b]\<rparr>)"

text \<open>One iteration of the loop of \<open>feed\<close>: the new state and the message it appends, if any.\<close>

definition kiss_feed_byte :: "kiss_decoder \<Rightarrow> byte \<Rightarrow> kiss_decoder \<times> kiss_message list" where
  "kiss_feed_byte d b =
     (if b = FEND then
        (case kd_raw d of
           type_byte # frame \<Rightarrow>
             if \<not> kd_discard d \<and> \<not> kd_escaped d then
               (kiss_reset d, [kiss_message_of type_byte frame])
             else if kd_escaped d \<and> \<not> kd_discard d then
               (kiss_reset (d\<lparr>kd_discarded_frames := kd_discarded_frames d + 1\<rparr>), [])
             else (kiss_reset d, [])
         | [] \<Rightarrow>
             if kd_escaped d \<and> \<not> kd_discard d then
               (kiss_reset (d\<lparr>kd_discarded_frames := kd_discarded_frames d + 1\<rparr>), [])
             else (kiss_reset d, []))
      else if kd_discard d then (d, [])
      else if kd_escaped d then
        (let d' =
           (if b = TFEND then kiss_append FEND d
            else if b = TFESC then kiss_append FESC d
            else kiss_discard_frame d)
         in (d'\<lparr>kd_escaped := False\<rparr>, []))
      else if b = FESC then (d\<lparr>kd_escaped := True\<rparr>, [])
      else (kiss_append b d, []))"

fun kiss_feed :: "kiss_decoder \<Rightarrow> bytes \<Rightarrow> kiss_decoder \<times> kiss_message list" where
  "kiss_feed d [] = (d, [])"
| "kiss_feed d (b # bs) =
     (let (d1, out1) = kiss_feed_byte d b; (d2, out2) = kiss_feed d1 bs in (d2, out1 @ out2))"

subsection \<open>Encoding and decoding one packet\<close>

lemma kiss_consts [simp]:
  "FEND \<noteq> FESC" "FESC \<noteq> FEND" "TFEND \<noteq> TFESC" "TFESC \<noteq> TFEND"
  "TFEND \<noteq> FEND" "TFESC \<noteq> FEND" "TFEND \<noteq> FESC" "TFESC \<noteq> FESC"
  by (simp_all add: FEND_def FESC_def TFEND_def TFESC_def)

lemma escape_bytes_no_FEND: "FEND \<notin> set (escape_bytes bs)"
  by (induction bs) (auto simp: kiss_consts [symmetric])

lemma decode_escape: "kiss_decode_loop False raw (escape_bytes bs @ rest) = kiss_decode_loop False (raw @ bs) rest"
  by (induction bs arbitrary: raw) auto

text \<open>The decoder accepts only the canonical escaping.\<close>

lemma decode_loop_escape:
  "kiss_decode_loop escaped raw bs = Inr (False, out) \<Longrightarrow>
     \<exists>body. out = raw @ body \<and>
       (if escaped then FESC # bs else bs) = escape_bytes body"
proof (induction escaped raw bs rule: kiss_decode_loop.induct)
  case (1 escaped raw)
  then show ?case by auto
next
  case (2 escaped raw b bs)
  show ?case
  proof (cases escaped)
    case True
    with "2.prems" consider (fend) "b = TFEND" "kiss_decode_loop False (raw @ [FEND]) bs = Inr (False, out)"
      | (fesc) "b = TFESC" "kiss_decode_loop False (raw @ [FESC]) bs = Inr (False, out)"
      by (auto split: if_splits)
    then show ?thesis
    proof cases
      case fend
      with "2.IH"(1) True obtain body where "out = (raw @ [FEND]) @ body" "bs = escape_bytes body" by auto
      with True fend show ?thesis by (intro exI [of _ "FEND # body"]) simp
    next
      case fesc
      with "2.IH"(2) True obtain body where "out = (raw @ [FESC]) @ body" "bs = escape_bytes body" by auto
      with True fesc show ?thesis by (intro exI [of _ "FESC # body"]) simp
    qed
  next
    case False
    show ?thesis
    proof (cases "b = FESC")
      case True
      with False "2.prems" "2.IH"(3) show ?thesis by auto
    next
      case nesc: False
      with False "2.prems" have nfend: "b \<noteq> FEND" by auto
      with False nesc "2.prems" "2.IH"(4) obtain body where
        "out = (raw @ [b]) @ body" "bs = escape_bytes body" by auto
      with False nesc nfend show ?thesis by (intro exI [of _ "b # body"]) simp
    qed
  qed
qed

lemma nibble_and [simp]: "(x :: byte) AND 0x0F = take_bit 4 x"
  by (intro byte_eqI) (simp_all add: bit_simps)

lemma type_byte_fields:
  assumes "0 \<le> port" "port \<le> 15" "0 \<le> command" "command \<le> 15"
  shows "kiss_message_of (word_of_int (push_bit 4 port OR command)) frame =
    \<lparr>km_port = port, km_command = command, km_frame = frame\<rparr>"
proof -
  have cm: "take_bit 4 command = command" and pm: "take_bit 4 port = port"
    using assms by (simp_all add: take_bit_int_eq_self)
  have p: "drop_bit 4 (word_of_int (push_bit 4 port OR take_bit 4 command) :: byte) = word_of_int (take_bit 4 port)"
    by (intro bit_word_eqI) (auto simp: bit_simps)
  have c: "take_bit 4 (word_of_int (push_bit 4 port OR take_bit 4 command) :: byte) = word_of_int (take_bit 4 command)"
    by (intro bit_word_eqI) (auto simp: bit_simps)
  have "take_bit 4 (word_of_int (take_bit 4 port) :: byte) = word_of_int (take_bit 4 port)"
    by (intro bit_word_eqI) (auto simp: bit_simps)
  then have "uint (take_bit 4 (drop_bit 4 (word_of_int (push_bit 4 port OR command) :: byte))) = port"
    using p assms unfolding cm pm by (simp add: uint_word_of_int_byte)
  moreover have "uint (take_bit 4 (word_of_int (push_bit 4 port OR command) :: byte)) = command"
    using c assms unfolding cm by (simp add: uint_word_of_int_byte)
  ultimately show ?thesis by (simp add: kiss_message_of_def)
qed

lemma type_byte_of_fields:
  "word_of_int (push_bit 4 (km_port (kiss_message_of t f)) OR km_command (kiss_message_of t f)) = t"
  by (intro bit_word_eqI) (auto simp: kiss_message_of_def bit_simps)

lemma kiss_message_ranges:
  "0 \<le> km_port (kiss_message_of t f) \<and> km_port (kiss_message_of t f) \<le> 15"
  "0 \<le> km_command (kiss_message_of t f) \<and> km_command (kiss_message_of t f) \<le> 15"
proof -
  have "take_bit 4 x \<le> 15" for x :: int using take_bit_int_less_exp [of 4 x] by simp
  then show "0 \<le> km_port (kiss_message_of t f) \<and> km_port (kiss_message_of t f) \<le> 15"
    "0 \<le> km_command (kiss_message_of t f) \<and> km_command (kiss_message_of t f) \<le> 15"
    by (simp_all add: kiss_message_of_def unsigned_take_bit_eq)
qed

lemma kiss_encode_Inr_iff:
  "kiss_encode f port command = Inr p \<longleftrightarrow>
     0 \<le> port \<and> port \<le> 15 \<and> 0 \<le> command \<and> command \<le> 15 \<and>
     p = FEND # escape_bytes (word_of_int (push_bit 4 port OR command) # f) @ [FEND]"
  by (auto simp: kiss_encode_def)

lemma packet_delimiters:
  "3 \<le> length p \<and> p ! 0 = FEND \<and> last p = FEND \<Longrightarrow> \<exists>mid. p = FEND # mid @ [FEND]"
  by (cases p; cases "tl p" rule: rev_cases) auto

text \<open>
  The one-shot decoder is the exact inverse of the encoder. It accepts a packet precisely when
  the packet is what the encoder makes of the decoded frame, port and command, so no two packets
  decode to the same message and every encoder output is decoded to its arguments.
\<close>

theorem kiss_decode_iff:
  "kiss_decode p = Inr m \<longleftrightarrow> kiss_encode (km_frame m) (km_port m) (km_command m) = Inr p"
proof
  assume dec: "kiss_decode p = Inr m"
  then have "3 \<le> length p \<and> p ! 0 = FEND \<and> last p = FEND"
    by (auto simp: kiss_decode_def split: if_splits)
  from packet_delimiters [OF this] obtain mid where p: "p = FEND # mid @ [FEND]" by blast
  with dec obtain t f where loop: "kiss_decode_loop False [] mid = Inr (False, t # f)"
    and m: "m = kiss_message_of t f"
    by (auto simp: kiss_decode_def try_bind_Inr_iff split: if_splits list.splits)
  from decode_loop_escape [OF loop] have "mid = escape_bytes (t # f)" by auto
  with p m kiss_message_ranges [of t f] show "kiss_encode (km_frame m) (km_port m) (km_command m) = Inr p"
    by (simp only: kiss_encode_Inr_iff type_byte_of_fields) (simp add: kiss_message_of_def)
next
  assume enc: "kiss_encode (km_frame m) (km_port m) (km_command m) = Inr p"
  define t :: byte where "t = word_of_int (push_bit 4 (km_port m) OR km_command m)"
  from enc have p: "p = FEND # escape_bytes (t # km_frame m) @ [FEND]"
    and fields: "kiss_message_of t (km_frame m) = m"
    by (auto simp: kiss_encode_Inr_iff t_def type_byte_fields)
  have "kiss_decode_loop False [] (escape_bytes (t # km_frame m)) = Inr (False, t # km_frame m)"
    using decode_escape [of "[]" "t # km_frame m" "[]"] by simp
  moreover have "3 \<le> length p" "p ! 0 = FEND" "last p = FEND" "butlast (tl p) = escape_bytes (t # km_frame m)"
    by (simp_all add: p)
  ultimately show "kiss_decode p = Inr m"
    by (simp add: kiss_decode_def fields)
qed

subsection \<open>The incremental decoder\<close>

interpretation kiss_stream: stream_decoder kiss_feed
proof
  show "kiss_feed d [] = (d, [])" for d by simp
  show "kiss_feed d (xs @ ys) =
      (let (s1, out1) = kiss_feed d xs; (s2, out2) = kiss_feed s1 ys in (s2, out1 @ out2))" for d xs ys
    by (induction xs arbitrary: d) (auto simp: Let_def split: prod.splits)
qed

lemma kiss_feed_append_fst: "fst (kiss_feed d (xs @ ys)) = fst (kiss_feed (fst (kiss_feed d xs)) ys)"
  by (simp add: kiss_stream.feed_append Let_def split: prod.splits)

lemma kiss_feed_run: "fst (kiss_feed d bs) = run (\<lambda>d b. fst (kiss_feed_byte d b)) d bs"
proof (induction bs arbitrary: d)
  case (Cons b bs)
  have "fst (kiss_feed d (b # bs)) = fst (kiss_feed (fst (kiss_feed_byte d b)) bs)"
    by (simp add: Let_def split: prod.splits)
  with Cons.IH show ?case by simp
qed simp

definition kiss_clean :: "kiss_decoder \<Rightarrow> bool" where
  "kiss_clean d \<longleftrightarrow> kd_raw d = [] \<and> \<not> kd_escaped d \<and> \<not> kd_discard d"

lemma kiss_clean_reset: "kiss_clean d \<Longrightarrow> kiss_reset d = d"
  by (simp add: kiss_clean_def kiss_reset_def)

lemma feed_FEND_clean: "kiss_clean d \<Longrightarrow> kiss_feed d [FEND] = (d, [])"
  by (auto simp: kiss_feed_byte_def kiss_clean_def kiss_reset_def split: list.splits)

lemma kiss_reset_clean [simp]: "kiss_clean (kiss_reset d)"
  by (simp add: kiss_clean_def kiss_reset_def)

text \<open>The escaped octets of a frame that fits are appended to the buffer and nothing is emitted.\<close>

lemma feed_escape:
  assumes "\<not> kd_escaped d" "\<not> kd_discard d"
    and "int (length (kd_raw d) + length bs) \<le> kd_max_body_bytes d"
  shows "kiss_feed d (escape_bytes bs) = (d\<lparr>kd_raw := kd_raw d @ bs\<rparr>, [])"
  using assms
proof (induction bs arbitrary: d)
  case Nil
  then show ?case by simp
next
  case (Cons b bs)
  let ?d = "d\<lparr>kd_raw := kd_raw d @ [b]\<rparr>"
  have "kiss_feed d (if b = FEND then [FESC, TFEND] else if b = FESC then [FESC, TFESC] else [b]) = (?d, [])"
    using Cons.prems by (auto simp: kiss_feed_byte_def kiss_append_def)
  moreover have "kiss_feed ?d (escape_bytes bs) = (d\<lparr>kd_raw := kd_raw d @ b # bs\<rparr>, [])"
    using Cons.prems by (subst Cons.IH) simp_all
  ultimately show ?case by (simp add: kiss_stream.feed_append)
qed

lemma feed_packet_clean:
  assumes "kiss_encode (km_frame m) (km_port m) (km_command m) = Inr p"
    and "int (length (km_frame m)) < kd_max_body_bytes d" "kiss_clean d"
  shows "kiss_feed d p = (d, [m])"
proof -
  define t :: byte where "t = word_of_int (push_bit 4 (km_port m) OR km_command m)"
  from assms(1) have p: "p = [FEND] @ escape_bytes (t # km_frame m) @ [FEND]"
    and m: "kiss_message_of t (km_frame m) = m"
    by (auto simp: kiss_encode_Inr_iff t_def type_byte_fields)
  have "kiss_feed d [FEND] = (d, [])"
    using assms(3) by (rule feed_FEND_clean)
  moreover have "kiss_feed d (escape_bytes (t # km_frame m)) = (d\<lparr>kd_raw := t # km_frame m\<rparr>, [])"
    using assms(2,3) by (subst feed_escape) (simp_all add: kiss_clean_def)
  moreover have "kiss_feed (d\<lparr>kd_raw := t # km_frame m\<rparr>) [FEND] = (d, [m])"
    using assms(3) by (simp add: kiss_feed_byte_def kiss_reset_def kiss_clean_def m)
  ultimately show ?thesis unfolding p by (simp add: kiss_stream.feed_append del: escape_bytes.simps)
qed

definition kiss_sent :: "int \<Rightarrow> kiss_message \<Rightarrow> bytes \<Rightarrow> bool" where
  "kiss_sent limit m p \<longleftrightarrow>
     kiss_encode (km_frame m) (km_port m) (km_command m) = Inr p \<and> int (length (km_frame m)) < limit"

lemma feed_packets_clean:
  assumes "list_all2 (kiss_sent (kd_max_body_bytes d)) ms ps" "kiss_clean d"
  shows "kiss_feed d (concat ps) = (d, ms)"
  using assms(1)
proof (induction rule: list_all2_induct)
  case Nil
  show ?case by simp
next
  case (Cons m ms p ps)
  then have "kiss_feed d p = (d, [m])"
    using assms(2) by (intro feed_packet_clean) (simp_all add: kiss_sent_def)
  with Cons.IH show ?case by (simp add: kiss_stream.feed_append)
qed

text \<open>
  C28. What a peer sends is what the stream decoder delivers: for packets of the encoder whose body
  fits the limit, sent back to back and received in chunks of any sizes, a decoder between frames
  emits exactly the messages, in order, discards nothing and ends between frames.
\<close>

theorem kiss_stream_roundtrip:
  assumes "list_all2 (kiss_sent (kd_max_body_bytes d)) ms ps" "kiss_clean d"
    and "concat chunks = concat ps"
  shows "feed_chunks kiss_feed d chunks = (d, ms)"
  using feed_packets_clean [OF assms(1,2)] assms(3) by (simp add: kiss_stream.feed_chunks_concat)

theorem kiss_stream_roundtrip_witness:
  "feed_chunks kiss_feed
     \<lparr>kd_max_body_bytes = 4096, kd_raw = [], kd_escaped = False, kd_discard = False, kd_discarded_frames = 0\<rparr>
     [[0xC0, 0x00, 0xDB], [0xDC, 0x41], [0xC0, 0xC0, 0x15, 0x07, 0xC0]] =
   (\<lparr>kd_max_body_bytes = 4096, kd_raw = [], kd_escaped = False, kd_discard = False, kd_discarded_frames = 0\<rparr>,
    [\<lparr>km_port = 0, km_command = 0, km_frame = [0xC0, 0x41]\<rparr>,
     \<lparr>km_port = 1, km_command = 5, km_frame = [0x07]\<rparr>])"
  by (rule kiss_stream_roundtrip
      [where ps = "[[0xC0, 0x00, 0xDB, 0xDC, 0x41, 0xC0], [0xC0, 0x15, 0x07, 0xC0]]"])
    (simp_all add: kiss_sent_def kiss_clean_def kiss_encode_def FEND_def FESC_def TFEND_def TFESC_def)

text \<open>A delimiter ends whatever was in progress, with at most one message.\<close>

lemma feed_FEND:
  obtains k out where "kiss_feed d [FEND] = (kiss_reset d\<lparr>kd_discarded_frames := k\<rparr>, out)"
    "length out \<le> 1" "kd_raw d = [] \<Longrightarrow> out = []" "kd_discarded_frames d \<le> k"
proof (cases "kd_raw d")
  case Nil
  then show ?thesis
    using that [of "kd_discarded_frames d + (if kd_escaped d \<and> \<not> kd_discard d then 1 else 0)" "[]"]
    by (simp add: kiss_feed_byte_def kiss_reset_def split: if_splits)
next
  case (Cons t f)
  then show ?thesis
    using that [of "kd_discarded_frames d + (if kd_escaped d \<and> \<not> kd_discard d then 1 else 0)"
        "if \<not> kd_discard d \<and> \<not> kd_escaped d then [kiss_message_of t f] else []"]
    by (simp add: kiss_feed_byte_def kiss_reset_def split: if_splits)
qed

text \<open>
  Resynchronisation. Whatever octets came before, in whatever state they left the decoder (in
  a frame, after a dangling escape, discarding an oversize frame), a packet of the encoder that
  fits is delivered as the last message, preceded by at most the frame its opening delimiter
  closes, and the decoder ends between frames.
\<close>

theorem kiss_resync:
  assumes "kiss_sent (kd_max_body_bytes d) m p"
  shows "\<exists>extra. snd (kiss_feed d p) = extra @ [m] \<and> length extra \<le> 1 \<and>
    kiss_clean (fst (kiss_feed d p))"
proof -
  obtain k out where fend: "kiss_feed d [FEND] = (kiss_reset d\<lparr>kd_discarded_frames := k\<rparr>, out)"
    and out: "length out \<le> 1"
    by (rule feed_FEND)
  let ?d = "kiss_reset d\<lparr>kd_discarded_frames := k\<rparr>"
  have clean: "kiss_clean ?d" by (simp add: kiss_clean_def kiss_reset_def)
  from assms obtain q where p: "p = [FEND] @ q" by (auto simp: kiss_sent_def kiss_encode_Inr_iff)
  have "kiss_feed ?d p = (?d, [m])"
    using assms clean by (intro feed_packet_clean) (simp_all add: kiss_sent_def kiss_reset_def)
  moreover have "kiss_feed ?d [FEND] = (?d, [])"
    using clean by (rule feed_FEND_clean)
  ultimately have "kiss_feed ?d q = (?d, [m])"
    unfolding p by (simp only: kiss_stream.feed_append) (simp split: prod.splits)
  with fend have "kiss_feed d p = (?d, out @ [m])"
    unfolding p by (simp only: kiss_stream.feed_append) simp
  with out clean show ?thesis by auto
qed

theorem kiss_resync_witness:
  "\<exists>extra. snd (kiss_feed \<lparr>kd_max_body_bytes = 4, kd_raw = [1, 2, 3, 4], kd_escaped = False,
        kd_discard = True, kd_discarded_frames = 1\<rparr> [0xC0, 0x00, 0x41, 0xC0]) =
      extra @ [\<lparr>km_port = 0, km_command = 0, km_frame = [0x41]\<rparr>] \<and> length extra \<le> 1 \<and>
    kiss_clean (fst (kiss_feed \<lparr>kd_max_body_bytes = 4, kd_raw = [1, 2, 3, 4], kd_escaped = False,
        kd_discard = True, kd_discarded_frames = 1\<rparr> [0xC0, 0x00, 0x41, 0xC0]))"
  by (rule kiss_resync) (simp add: kiss_sent_def kiss_encode_def FEND_def FESC_def)

text \<open>The buffer never outgrows the limit, and the limit never changes.\<close>

definition kiss_bounded :: "int \<Rightarrow> kiss_decoder \<Rightarrow> bool" where
  "kiss_bounded n d \<longleftrightarrow> kd_max_body_bytes d = n \<and> int (length (kd_raw d)) \<le> n"

interpretation kiss_memory: invariant_machine "\<lambda>d b. fst (kiss_feed_byte d b)" "kiss_bounded n"
proof
  show "kiss_bounded n (fst (kiss_feed_byte d b))" if "kiss_bounded n d" for d b
    using that
    by (auto simp: kiss_bounded_def kiss_feed_byte_def kiss_append_def kiss_discard_frame_def
        kiss_reset_def Let_def split: list.splits)
qed

lemma feed_byte_message:
  assumes "kiss_bounded n d" "m \<in> set (snd (kiss_feed_byte d b))"
  shows "int (length (km_frame m)) < n \<and> km_port m \<in> {0..15} \<and> km_command m \<in> {0..15}"
proof -
  from assms(2) obtain t f where "kd_raw d = t # f" "m = kiss_message_of t f"
    by (auto simp: kiss_feed_byte_def Let_def split: list.splits if_splits)
  with assms(1) kiss_message_ranges [of t f] show ?thesis
    by (auto simp: kiss_bounded_def kiss_message_of_def)
qed

lemma feed_messages_bounded:
  "kiss_bounded n d \<Longrightarrow> m \<in> set (snd (kiss_feed d bs)) \<Longrightarrow>
     int (length (km_frame m)) < n \<and> km_port m \<in> {0..15} \<and> km_command m \<in> {0..15}"
proof (induction bs arbitrary: d)
  case Nil
  then show ?case by simp
next
  case (Cons b bs)
  from Cons.prems(2) have "m \<in> set (snd (kiss_feed_byte d b)) \<or> m \<in> set (snd (kiss_feed (fst (kiss_feed_byte d b)) bs))"
    by (auto simp: Let_def split: prod.splits)
  with Cons.IH [OF kiss_memory.step_inv] feed_byte_message Cons.prems(1) show ?case by blast
qed

text \<open>
  A peer that never ends its frame cannot grow the decoder: whatever octets are fed to a new
  decoder, its buffer holds at most \<open>max_body_bytes\<close> octets, and every message it emits carries a
  port and a command of four bits and a frame shorter than that limit.
\<close>

theorem kiss_memory_bound:
  assumes "kiss_decoder_init n = Inr d"
  shows "int (length (kd_raw (fst (kiss_feed d bs)))) \<le> n \<and>
    (\<forall>m \<in> set (snd (kiss_feed d bs)).
       int (length (km_frame m)) < n \<and> km_port m \<in> {0..15} \<and> km_command m \<in> {0..15})"
proof -
  from assms have "kiss_bounded n d" by (auto simp: kiss_decoder_init_def kiss_bounded_def split: if_splits)
  with kiss_memory.run_inv [of n d bs] feed_messages_bounded show ?thesis
    unfolding kiss_feed_run kiss_bounded_def by blast
qed

theorem kiss_memory_bound_witness:
  "\<exists>d. kiss_decoder_init 2 = Inr d \<and>
     int (length (kd_raw (fst (kiss_feed d [0xC0, 1, 2, 3, 4, 5])))) \<le> 2 \<and>
     (\<forall>m \<in> set (snd (kiss_feed d [0xC0, 1, 2, 3, 4, 5])).
        int (length (km_frame m)) < 2 \<and> km_port m \<in> {0..15} \<and> km_command m \<in> {0..15})"
  using kiss_memory_bound [of 2 _ "[0xC0, 1, 2, 3, 4, 5]"]
  by (simp add: kiss_decoder_init_def del: kiss_feed.simps)

end
