(* ===== verification/Kiss_Server.thy ===== *)
theory Kiss_Server
  imports Kiss_Framing "HOL-Library.AList"
begin

section \<open>The KISS server and the receive-only backend\<close>

text \<open>
  \<open>src/src/ywd1278/kiss/server.py\<close>: the bounded event source, its subscribers, and the work a
  connection handler does on one received chunk and on the events of its queue. The set of
  subscriber queues is an association list from a stream number to the events queued; the socket
  and the threads are outside the model: a chunk is what \<open>recv\<close> returned, and the octets the
  handler hands to \<open>sendall\<close> are its result.
\<close>

subsection \<open>Model\<close>

record packet_event =
  pe_frame_no_fcs :: bytes
  pe_source :: string
  pe_destination :: string
  pe_frame_type :: string

datatype backend_error = HistoryCapacityRange | SubscriberCapacityRange

record rx_backend =
  rb_history_capacity :: int
  rb_subscriber_queue_capacity :: int
  rb_events :: "packet_event list"
  rb_subscribers :: "(nat \<times> packet_event list) list"
  rb_next_stream :: nat
  rb_tx_rejected :: nat
  rb_control_ignored :: nat
  rb_subscriber_drops :: nat

text \<open>\<open>xs[-n:]\<close> for a positive \<open>n\<close>.\<close>

definition last_n :: "int \<Rightarrow> 'a list \<Rightarrow> 'a list" where
  "last_n n xs = drop (length xs - nat n) xs"

definition backend_init :: "packet_event list \<Rightarrow> int \<Rightarrow> int \<Rightarrow> (backend_error, rx_backend) result" where
  "backend_init events history_capacity subscriber_queue_capacity =
     (if history_capacity < 0 then Inl HistoryCapacityRange
      else if subscriber_queue_capacity < 1 then Inl SubscriberCapacityRange
      else Inr \<lparr>rb_history_capacity = history_capacity,
        rb_subscriber_queue_capacity = subscriber_queue_capacity,
        rb_events = (if history_capacity \<noteq> 0 then last_n history_capacity events else []),
        rb_subscribers = [], rb_next_stream = 0, rb_tx_rejected = 0, rb_control_ignored = 0,
        rb_subscriber_drops = 0\<rparr>)"

record backend_snapshot =
  bs_stored_events :: nat
  bs_subscribers :: nat
  bs_tx_rejected :: nat
  bs_control_ignored :: nat
  bs_subscriber_drops :: nat

definition backend_snapshot_of :: "rx_backend \<Rightarrow> backend_snapshot" where
  "backend_snapshot_of b =
     \<lparr>bs_stored_events = length (rb_events b), bs_subscribers = length (rb_subscribers b),
      bs_tx_rejected = rb_tx_rejected b, bs_control_ignored = rb_control_ignored b,
      bs_subscriber_drops = rb_subscriber_drops b\<rparr>"

definition open_stream :: "rx_backend \<Rightarrow> (packet_event list \<times> nat) \<times> rx_backend" where
  "open_stream b =
     ((rb_events b, rb_next_stream b),
      b\<lparr>rb_subscribers := rb_subscribers b @ [(rb_next_stream b, [])],
        rb_next_stream := rb_next_stream b + 1\<rparr>)"

definition close_stream :: "nat \<Rightarrow> rx_backend \<Rightarrow> rx_backend" where
  "close_stream q b = b\<lparr>rb_subscribers := AList.delete q (rb_subscribers b)\<rparr>"

text \<open>\<open>publish\<close>: the history, and \<open>put_nowait\<close> on every subscriber queue.\<close>

definition publish_to :: "int \<Rightarrow> packet_event \<Rightarrow> packet_event list \<Rightarrow> packet_event list" where
  "publish_to capacity event q = (if int (length q) \<ge> capacity then q else q @ [event])"

definition publish :: "packet_event \<Rightarrow> rx_backend \<Rightarrow> rx_backend" where
  "publish event b =
     (let events =
        (if rb_history_capacity b \<noteq> 0 then
           (let es = rb_events b @ [event] in
            if int (length es) > rb_history_capacity b then last_n (rb_history_capacity b) es else es)
         else rb_events b);
        full = (\<lambda>(_, q). int (length q) \<ge> rb_subscriber_queue_capacity b);
        drops = length (filter full (rb_subscribers b))
      in b\<lparr>rb_events := events,
           rb_subscribers := map (\<lambda>(n, q). (n, publish_to (rb_subscriber_queue_capacity b) event q)) (rb_subscribers b),
           rb_subscriber_drops := rb_subscriber_drops b + drops\<rparr>)"

definition reject_client_message :: "kiss_message \<Rightarrow> rx_backend \<Rightarrow> rx_backend" where
  "reject_client_message message b =
     (if km_command message = KISS_DATA then b\<lparr>rb_tx_rejected := rb_tx_rejected b + 1\<rparr>
      else b\<lparr>rb_control_ignored := rb_control_ignored b + 1\<rparr>)"

text \<open>\<open>_emit\<close>: the octets of one event. Port and command are in range, so \<open>encode\<close> does not raise.\<close>

definition emit_event :: "packet_event \<Rightarrow> (kiss_error, bytes) result" where
  "emit_event event = kiss_encode (pe_frame_no_fcs event) 0 KISS_DATA"

text \<open>The events a handler takes from its queue before it reads from the socket.\<close>

definition drain_stream :: "nat \<Rightarrow> rx_backend \<Rightarrow> packet_event list \<times> rx_backend" where
  "drain_stream q b =
     (case map_of (rb_subscribers b) q of
        None \<Rightarrow> ([], b)
      | Some events \<Rightarrow> (events, b\<lparr>rb_subscribers := AList.update q [] (rb_subscribers b)\<rparr>))"

text \<open>
  The part of the handler's loop that follows \<open>recv\<close>, over any backend: the frames the decoder
  discarded are noted, if the backend has the hook, and the messages are handed over in order.
\<close>

definition handle_chunk ::
  "(nat \<Rightarrow> 's \<Rightarrow> 's) \<Rightarrow> (kiss_message \<Rightarrow> 's \<Rightarrow> 's) \<Rightarrow> bytes \<Rightarrow> kiss_decoder \<times> 's \<Rightarrow> kiss_decoder \<times> 's" where
  "handle_chunk note_malformed client_message data = (\<lambda>(decoder, s).
     let (decoder', messages) = kiss_feed decoder data;
         discarded = kd_discarded_frames decoder' - kd_discarded_frames decoder;
         s = (if discarded \<noteq> 0 then note_malformed discarded s else s)
     in (decoder', fold client_message messages s))"

subsection \<open>What clients receive\<close>

lemma last_n_rev: "last_n n xs = rev (take (nat n) (rev xs))"
  by (simp add: last_n_def rev_take)

lemma last_n_append: "last_n n (last_n n xs @ ys) = last_n n (xs @ ys)"
  by (simp add: last_n_rev take_append min_def)

lemma length_last_n: "length (last_n n xs) = min (nat n) (length xs)"
  by (simp add: last_n_def)

lemma last_n_short: "length xs \<le> nat n \<Longrightarrow> last_n n xs = xs"
  by (simp add: last_n_def)

text \<open>Stream numbers are fresh, the history and the queues within their capacities.\<close>

definition backend_ok :: "rx_backend \<Rightarrow> bool" where
  "backend_ok b \<longleftrightarrow>
     0 \<le> rb_history_capacity b \<and> 1 \<le> rb_subscriber_queue_capacity b \<and>
     int (length (rb_events b)) \<le> rb_history_capacity b \<and>
     distinct (map fst (rb_subscribers b)) \<and> (\<forall>n \<in> fst ` set (rb_subscribers b). n < rb_next_stream b) \<and>
     (\<forall>(_, q) \<in> set (rb_subscribers b). int (length q) \<le> rb_subscriber_queue_capacity b)"

lemma backend_init_ok: "backend_init events h c = Inr b \<Longrightarrow> backend_ok b"
  by (auto simp: backend_init_def backend_ok_def length_last_n split: if_splits)

lemma open_stream_ok: "backend_ok b \<Longrightarrow> backend_ok (snd (open_stream b))"
  by (auto simp: open_stream_def backend_ok_def less_SucI)

lemma close_stream_ok: "backend_ok b \<Longrightarrow> backend_ok (close_stream q b)"
  by (auto simp: close_stream_def backend_ok_def AList.delete_eq distinct_map_filter)

lemma publish_to_le: "int (length q) \<le> c \<Longrightarrow> int (length (publish_to c e q)) \<le> c"
  by (simp add: publish_to_def)

lemma publish_ok: "backend_ok b \<Longrightarrow> backend_ok (publish e b)"
  by (auto simp: publish_def backend_ok_def length_last_n publish_to_le Let_def comp_def case_prod_beta image_iff)

lemma reject_ok: "backend_ok b \<Longrightarrow> backend_ok (reject_client_message m b)"
  by (simp add: reject_client_message_def backend_ok_def)

text \<open>The queue of one stream through a series of publications.\<close>

lemma map_of_map_snd: "map_of (map (\<lambda>(n, q). (n, f q)) xs) k = map_option f (map_of xs k)"
  by (induction xs) auto

lemma publish_queue:
  "map_of (rb_subscribers (publish e b)) q = map_option (publish_to (rb_subscriber_queue_capacity b) e) (map_of (rb_subscribers b) q)"
  by (simp add: publish_def Let_def map_of_map_snd)

lemma publish_fixed [simp]:
  "rb_subscriber_queue_capacity (publish e b) = rb_subscriber_queue_capacity b"
  "rb_history_capacity (publish e b) = rb_history_capacity b"
  by (simp_all add: publish_def Let_def)

lemma fold_publish_queue:
  assumes "map_of (rb_subscribers b) q = Some old" "int (length old) \<le> rb_subscriber_queue_capacity b"
  shows "map_of (rb_subscribers (fold publish es b)) q =
    Some (take (nat (rb_subscriber_queue_capacity b)) (old @ es))"
  using assms
proof (induction es arbitrary: b old)
  case Nil
  then show ?case by simp
next
  case (Cons e es)
  let ?c = "rb_subscriber_queue_capacity b"
  have "map_of (rb_subscribers (publish e b)) q = Some (publish_to ?c e old)"
    using Cons.prems(1) by (simp add: publish_queue)
  from Cons.IH [OF this] Cons.prems(2)
  have "map_of (rb_subscribers (fold publish es (publish e b))) q = Some (take (nat ?c) (publish_to ?c e old @ es))"
    by (simp add: publish_to_le)
  also have "take (nat ?c) (publish_to ?c e old @ es) = take (nat ?c) (old @ e # es)"
    using Cons.prems(2) by (auto simp: publish_to_def take_Cons')
  finally show ?case by simp
qed

text \<open>The history is the newest events, as many as its capacity.\<close>

lemma publish_events:
  assumes "backend_ok b"
  shows "rb_events (publish e b) = last_n (rb_history_capacity b) (rb_events b @ [e])"
proof (cases "rb_history_capacity b = 0")
  case True
  with assms show ?thesis by (simp add: publish_def Let_def backend_ok_def last_n_def)
next
  case False
  with assms show ?thesis
    by (auto simp: publish_def Let_def backend_ok_def last_n_short)
qed

lemma fold_publish_events:
  "backend_ok b \<Longrightarrow> rb_events (fold publish es b) = last_n (rb_history_capacity b) (rb_events b @ es)"
proof (induction es arbitrary: b)
  case Nil
  then show ?case by (simp add: backend_ok_def last_n_short le_nat_iff)
next
  case (Cons e es)
  then show ?case by (simp add: publish_ok publish_events last_n_append)
qed

text \<open>What the handler sends for a list of events decodes to their frames.\<close>

lemma kiss_sent_event:
  "int (length (pe_frame_no_fcs e)) < n \<Longrightarrow>
     kiss_sent n \<lparr>km_port = 0, km_command = 0, km_frame = pe_frame_no_fcs e\<rparr> (projr (emit_event e))"
  by (simp add: kiss_sent_def emit_event_def KISS_DATA_def kiss_encode_def)

lemma decode_emitted:
  assumes "\<forall>e \<in> set es. int (length (pe_frame_no_fcs e)) < kd_max_body_bytes d" "kiss_clean d"
  shows "kiss_feed d (concat (map (\<lambda>e. projr (emit_event e)) es)) =
    (d, map (\<lambda>e. \<lparr>km_port = 0, km_command = 0, km_frame = pe_frame_no_fcs e\<rparr>) es)"
  using assms by (intro feed_packets_clean) (auto simp: list_all2_map1 list_all2_map2 list_all2_same kiss_sent_event)

text \<open>
  C40. A client receives what was received. A client that connects to a sound backend is sent the
  newest stored frames and then every frame published until its handler next empties its queue, in
  order, up to the capacity of the queue; and a KISS decoder at the client's end, whatever chunks it
  reads, delivers exactly these frames.
\<close>

theorem kiss_client_receives:
  assumes "backend_ok b" "open_stream b = ((history, q), b1)"
    and "drain_stream q (fold publish es b1) = (queued, b2)"
    and "\<forall>e \<in> set (history @ es). int (length (pe_frame_no_fcs e)) < kd_max_body_bytes d" "kiss_clean d"
    and "concat chunks = concat (map (\<lambda>e. projr (emit_event e)) (history @ queued))"
  shows "queued = take (nat (rb_subscriber_queue_capacity b)) es \<and> history = rb_events b \<and>
    feed_chunks kiss_feed d chunks =
      (d, map (\<lambda>e. \<lparr>km_port = 0, km_command = 0, km_frame = pe_frame_no_fcs e\<rparr>) (history @ queued))"
proof -
  have b1: "map_of (rb_subscribers b1) q = Some []" "rb_subscriber_queue_capacity b1 = rb_subscriber_queue_capacity b"
    "history = rb_events b"
    using assms(1,2) by (auto simp: open_stream_def backend_ok_def map_add_def split: option.splits)
      (metis (no_types, lifting) fst_conv image_eqI less_irrefl map_of_SomeD)
  have cap: "1 \<le> rb_subscriber_queue_capacity b" using assms(1) by (simp add: backend_ok_def)
  with fold_publish_queue [OF b1(1), of es] b1(2) assms(3)
  have queued: "queued = take (nat (rb_subscriber_queue_capacity b)) es" by (simp add: drain_stream_def)
  then have "set queued \<subseteq> set es" by (simp add: set_take_subset)
  with assms(4) have "\<forall>e \<in> set (history @ queued). int (length (pe_frame_no_fcs e)) < kd_max_body_bytes d" by auto
  from decode_emitted [OF this assms(5)] assms(6) queued b1(3) show ?thesis
    by (simp add: kiss_stream.feed_chunks_concat)
qed

theorem kiss_client_receives_witness:
  "feed_chunks kiss_feed
     \<lparr>kd_max_body_bytes = 4096, kd_raw = [], kd_escaped = False, kd_discard = False, kd_discarded_frames = 0\<rparr>
     [[0xC0, 0x00, 0x41], [0xC0, 0xC0, 0x00, 0xDB, 0xDC, 0xC0]] =
   (\<lparr>kd_max_body_bytes = 4096, kd_raw = [], kd_escaped = False, kd_discard = False, kd_discarded_frames = 0\<rparr>,
    [\<lparr>km_port = 0, km_command = 0, km_frame = [0x41]\<rparr>, \<lparr>km_port = 0, km_command = 0, km_frame = [0xC0]\<rparr>])"
proof -
  let ?e1 = "\<lparr>pe_frame_no_fcs = [0x41], pe_source = ''A'', pe_destination = ''B'', pe_frame_type = ''UI''\<rparr>"
  let ?e2 = "\<lparr>pe_frame_no_fcs = [0xC0], pe_source = ''A'', pe_destination = ''B'', pe_frame_type = ''UI''\<rparr>"
  let ?b = "\<lparr>rb_history_capacity = 4, rb_subscriber_queue_capacity = 2, rb_events = [?e1], rb_subscribers = [],
    rb_next_stream = 0, rb_tx_rejected = 0, rb_control_ignored = 0, rb_subscriber_drops = 0\<rparr>"
  let ?d = "\<lparr>kd_max_body_bytes = 4096, kd_raw = [], kd_escaped = False, kd_discard = False, kd_discarded_frames = 0\<rparr>"
  have "backend_ok ?b" by (simp add: backend_ok_def)
  moreover obtain b1 where b1: "open_stream ?b = (([?e1], 0), b1)" by (simp add: open_stream_def)
  moreover have "\<exists>b2. drain_stream 0 (fold publish [?e2] b1) = ([?e2], b2)"
    using b1 by (auto simp: open_stream_def drain_stream_def publish_def publish_to_def)
  ultimately show ?thesis
    using kiss_client_receives [of ?b "[?e1]" 0 b1 "[?e2]" "[?e2]" _ ?d
        "[[0xC0, 0x00, 0x41], [0xC0, 0xC0, 0x00, 0xDB, 0xDC, 0xC0]]"]
    by (auto simp: kiss_clean_def emit_event_def kiss_encode_def KISS_DATA_def FEND_def FESC_def TFEND_def
        simp del: feed_chunks.simps kiss_feed.simps)
qed

text \<open>The life of a backend.\<close>

datatype backend_event =
    BkOpen | BkClose nat | BkPublish packet_event | BkDrain nat | BkMessage kiss_message

definition backend_step :: "rx_backend \<Rightarrow> backend_event \<Rightarrow> rx_backend" where
  "backend_step b ev =
     (case ev of
        BkOpen \<Rightarrow> snd (open_stream b)
      | BkClose q \<Rightarrow> close_stream q b
      | BkPublish e \<Rightarrow> publish e b
      | BkDrain q \<Rightarrow> snd (drain_stream q b)
      | BkMessage m \<Rightarrow> reject_client_message m b)"

lemma set_alist_update: "set (AList.update k v xs) \<subseteq> insert (k, v) (set xs)"
  by (induction xs) auto

lemma drain_stream_ok: "backend_ok b \<Longrightarrow> backend_ok (snd (drain_stream q b))"
proof (cases "map_of (rb_subscribers b) q")
  case None
  then show "backend_ok b \<Longrightarrow> ?thesis" by (simp add: drain_stream_def)
next
  case (Some es)
  assume ok: "backend_ok b"
  have "distinct (map fst (AList.update q [] (rb_subscribers b)))"
    using ok by (simp add: backend_ok_def distinct_update)
  moreover have "fst ` set (AList.update q [] (rb_subscribers b)) = fst ` set (rb_subscribers b)"
    using map_of_SomeD [OF Some] by (force simp: dom_update)
  moreover have "set (AList.update q [] (rb_subscribers b)) \<subseteq> insert (q, []) (set (rb_subscribers b))"
    by (rule set_alist_update)
  ultimately show ?thesis
    using ok Some by (fastforce simp: drain_stream_def backend_ok_def)
qed

interpretation backend_life: invariant_machine backend_step backend_ok
  by unfold_locales
    (simp add: backend_step_def open_stream_ok close_stream_ok publish_ok drain_stream_ok reject_ok
      split: backend_event.splits)

text \<open>
  The server's memory is bounded: after any connections, disconnections, publications, reads and
  client messages, the history and every client's queue stay within their capacities.
\<close>

theorem backend_memory_bounded:
  assumes "backend_init events history_capacity queue_capacity = Inr b"
  shows "int (bs_stored_events (backend_snapshot_of (run backend_step b evs))) \<le>
      rb_history_capacity (run backend_step b evs) \<and>
    (\<forall>(_, q) \<in> set (rb_subscribers (run backend_step b evs)).
       int (length q) \<le> rb_subscriber_queue_capacity (run backend_step b evs))"
  using backend_life.run_inv [OF backend_init_ok [OF assms], of evs]
  by (simp add: backend_ok_def backend_snapshot_of_def)

theorem backend_memory_bounded_witness:
  "\<exists>b. backend_init [] 1 1 = Inr b \<and>
     int (bs_stored_events (backend_snapshot_of (run backend_step b
       [BkOpen, BkPublish \<lparr>pe_frame_no_fcs = [1], pe_source = [], pe_destination = [], pe_frame_type = []\<rparr>,
        BkPublish \<lparr>pe_frame_no_fcs = [2], pe_source = [], pe_destination = [], pe_frame_type = []\<rparr>]))) \<le>
     rb_history_capacity (run backend_step b
       [BkOpen, BkPublish \<lparr>pe_frame_no_fcs = [1], pe_source = [], pe_destination = [], pe_frame_type = []\<rparr>,
        BkPublish \<lparr>pe_frame_no_fcs = [2], pe_source = [], pe_destination = [], pe_frame_type = []\<rparr>])"
proof -
  obtain b where b: "backend_init [] 1 1 = Inr b" by (simp add: backend_init_def)
  show ?thesis by (intro exI [of _ b] conjI b) (rule backend_memory_bounded [OF b, THEN conjunct1])
qed

end
