(* ===== verification/Modem_Owner.thy ===== *)
theory Modem_Owner
  imports Modem_Port
begin

section \<open>The single owner of the modem\<close>

text \<open>
  \<open>src/src/ywd1278/modem/owner.py\<close>, its transmit subclass \<open>tx_owner.py\<close> and the product subclass in
  \<open>src/src/ywdtnc/rf_profiles.py\<close>: one thread owns the transport, clients put typed calls into a
  bounded queue and wait. The transport is a parameter: opening, one request-response transaction,
  and closing, over a world state. The caller's side (\<open>owner_call_begin\<close>, \<open>owner_call_end\<close>) and the
  thread's side (\<open>owner_worker_step\<close>) are separate steps, so that runs may interleave them in any
  order; \<open>owner_call\<close> is the schedule in which the thread serves the queue while the caller waits.
  The thread-identity check of \<open>_dispatch\<close> holds by construction, since only the worker step
  dispatches.
\<close>

subsection \<open>Model\<close>

record 'w modem_transport =
  mt_open :: "('w, unit) operation"
  mt_transact :: "bytes \<Rightarrow> seconds \<Rightarrow> ('w, bytes) operation"
  mt_close :: "('w, unit) operation"

datatype dispatch_error = TransportError tx_exn | ProtocolError host_error | UnsupportedOperation

datatype owner_error =
    OwnerConfigError | OwnerTimeoutNotPositive | OwnerRestart | OwnerStartupFailed
  | ModemOwnerNotRunning | ModemOwnerQueueFull | OwnerWaitTimeout | OwnerOperationFailed
  | OwnerStopTimeout | OwnerRequestError host_error

datatype owner_operation =
    OpGetVersion | OpSetRxFrequency int | OpArmRxModemIO | OpRxStart | OpRxRead int | OpRxStatus
  | OpRxRssi | OpRxStop | OpRfStatus | OpRfDiag
  | OpApplyTxQualificationProfile bytes | OpTransmitSelectorBurst bytes
  | OpApplyTxProfile bytes

datatype owner_value =
    VNone | VVersion version_response | VBytes bytes | VRxStatus rx3_status | VRssi rx_rssi
  | VRfStatus rf_status | VRfDiag rf_diagnostics

record owner_request =
  oc_number :: int
  oc_operation :: owner_operation
  oc_timeout :: seconds

datatype owner_item = CallItem owner_request | OwnerStopItem

datatype owner_thread = OwnerNotStarted | OwnerAlive | OwnerExited

record modem_owner =
  ow_queue :: "owner_item list"
  ow_queue_capacity :: int
  ow_submit_timeout :: seconds
  ow_default_transaction_timeout :: seconds
  ow_thread :: owner_thread
  ow_accepting :: bool
  ow_start_error :: "tx_exn option"
  ow_owner_thread_id :: "int option"
  ow_transactions :: nat
  ow_next_call :: int
  ow_done :: "(int \<times> (dispatch_error, owner_value) result) list"

definition owner_init :: "int \<Rightarrow> seconds \<Rightarrow> seconds \<Rightarrow> (owner_error, modem_owner) result" where
  "owner_init queue_capacity submit_timeout default_transaction_timeout =
     (if queue_capacity < 1 then Inl OwnerConfigError
      else if submit_timeout \<le> 0 then Inl OwnerConfigError
      else if default_transaction_timeout \<le> 0 then Inl OwnerConfigError
      else Inr \<lparr>ow_queue = [], ow_queue_capacity = queue_capacity, ow_submit_timeout = submit_timeout,
        ow_default_transaction_timeout = default_transaction_timeout, ow_thread = OwnerNotStarted,
        ow_accepting = False, ow_start_error = None, ow_owner_thread_id = None, ow_transactions = 0, ow_next_call = 1, ow_done = []\<rparr>)"

text \<open>\<open>start\<close> together with the opening lines of \<open>_run\<close>: the thread opens the transport.\<close>

definition owner_start ::
  "'w modem_transport \<Rightarrow> int \<Rightarrow> seconds \<Rightarrow> modem_owner \<Rightarrow> 'w \<Rightarrow> (owner_error, unit) result \<times> modem_owner \<times> 'w" where
  "owner_start tr thread_id timeout ow w =
     (if timeout \<le> 0 then (Inl OwnerTimeoutNotPositive, ow, w)
      else if ow_thread ow \<noteq> OwnerNotStarted then
        (if ow_thread ow = OwnerAlive \<and> ow_accepting ow then (Inr (), ow, w) else (Inl OwnerRestart, ow, w))
      else
        (let ow = ow\<lparr>ow_owner_thread_id := Some thread_id\<rparr> in
         case mt_open tr w of
           (Inl e, w) \<Rightarrow>
             (Inl OwnerStartupFailed,
              ow\<lparr>ow_thread := OwnerExited, ow_accepting := False, ow_start_error := Some e\<rparr>, w)
         | (Inr _, w) \<Rightarrow> (Inr (), ow\<lparr>ow_thread := OwnerAlive, ow_accepting := True, ow_start_error := None\<rparr>, w)))"

record owner_snapshot =
  os_running :: bool
  os_owner_thread_id :: "int option"
  os_queue_depth :: nat
  os_queue_capacity :: int
  os_transactions :: nat

definition owner_snapshot_of :: "modem_owner \<Rightarrow> owner_snapshot" where
  "owner_snapshot_of ow =
     \<lparr>os_running = (ow_thread ow = OwnerAlive \<and> ow_accepting ow),
      os_owner_thread_id = ow_owner_thread_id ow, os_queue_depth = length (ow_queue ow),
      os_queue_capacity = ow_queue_capacity ow, os_transactions = ow_transactions ow\<rparr>"

text \<open>\<open>_transact\<close>, then the parsing of the response: the common shape of the branches of \<open>_dispatch\<close>.\<close>

definition owner_transact ::
  "'w modem_transport \<Rightarrow> bytes \<Rightarrow> seconds \<Rightarrow> modem_owner \<Rightarrow> 'w \<Rightarrow> (dispatch_error, bytes) result \<times> modem_owner \<times> 'w" where
  "owner_transact tr request timeout ow w =
     (case mt_transact tr request timeout w of
        (Inl e, w) \<Rightarrow> (Inl (TransportError e), ow, w)
      | (Inr response, w) \<Rightarrow> (Inr response, ow\<lparr>ow_transactions := ow_transactions ow + 1\<rparr>, w))"

definition owner_exchange ::
  "'w modem_transport \<Rightarrow> (host_error, bytes) result \<Rightarrow> (bytes \<Rightarrow> (host_error, 'a) result) \<Rightarrow> ('a \<Rightarrow> owner_value) \<Rightarrow>
     seconds \<Rightarrow> modem_owner \<Rightarrow> 'w \<Rightarrow> (dispatch_error, owner_value) result \<times> modem_owner \<times> 'w" where
  "owner_exchange tr request parse val timeout ow w =
     (case request of
        Inl e \<Rightarrow> (Inl (ProtocolError e), ow, w)
      | Inr data \<Rightarrow>
          (case owner_transact tr data timeout ow w of
             (Inl e, ow, w) \<Rightarrow> (Inl e, ow, w)
           | (Inr response, ow, w) \<Rightarrow>
               ((case parse response of Inl e \<Rightarrow> Inl (ProtocolError e) | Inr x \<Rightarrow> Inr (val x)), ow, w)))"

type_synonym 'w dispatcher =
  "'w modem_transport \<Rightarrow> owner_operation \<Rightarrow> seconds \<Rightarrow> modem_owner \<Rightarrow> 'w \<Rightarrow>
     (dispatch_error, owner_value) result \<times> modem_owner \<times> 'w"

definition owner_dispatch :: "'w dispatcher" where
  "owner_dispatch tr op timeout ow w =
     (case op of
        OpGetVersion \<Rightarrow> owner_exchange tr get_version_request parse_version_response VVersion timeout ow w
      | OpSetRxFrequency frequency_hz \<Rightarrow>
          owner_exchange tr (set_rx_frequency_request frequency_hz)
            (\<lambda>response. parse_ack response SET_FREQ) (\<lambda>_. VNone) timeout ow w
      | OpArmRxModemIO \<Rightarrow>
          owner_exchange tr arm_rx_modem_io_request
            (\<lambda>response. parse_ack response SET_CONFIG) (\<lambda>_. VNone) timeout ow w
      | OpRxStart \<Rightarrow>
          owner_exchange tr rx_start_request (\<lambda>response. parse_ack response YWD_RX) (\<lambda>_. VNone) timeout ow w
      | OpRxRead maximum \<Rightarrow>
          owner_exchange tr (rx_read_request maximum) parse_rx_read VBytes timeout ow w
      | OpRxStatus \<Rightarrow> owner_exchange tr rx_status_request parse_rx3_status VRxStatus timeout ow w
      | OpRxRssi \<Rightarrow> owner_exchange tr rx_rssi_request parse_rx_rssi VRssi timeout ow w
      | OpRxStop \<Rightarrow>
          owner_exchange tr rx_stop_request (\<lambda>response. parse_ack response YWD_RX) (\<lambda>_. VNone) timeout ow w
      | OpRfStatus \<Rightarrow> owner_exchange tr rf_status_request parse_rf_status VRfStatus timeout ow w
      | OpRfDiag \<Rightarrow> owner_exchange tr rf_diag_request parse_rf_diagnostics VRfDiag timeout ow w
      | _ \<Rightarrow> (Inl UnsupportedOperation, ow, w))"

definition tx_owner_dispatch :: "'w dispatcher" where
  "tx_owner_dispatch tr op timeout ow w =
     (case op of
        OpApplyTxQualificationProfile request \<Rightarrow>
          owner_exchange tr (Inr request) (\<lambda>response. parse_ack response SET_FREQ) (\<lambda>_. VNone) timeout ow w
      | OpTransmitSelectorBurst request \<Rightarrow>
          owner_exchange tr (Inr request) (\<lambda>response. parse_ack response YWD_RF) (\<lambda>_. VNone) timeout ow w
      | _ \<Rightarrow> owner_dispatch tr op timeout ow w)"

definition product_owner_dispatch :: "'w dispatcher" where
  "product_owner_dispatch tr op timeout ow w =
     (case op of
        OpApplyTxProfile request \<Rightarrow>
          owner_exchange tr (Inr request) (\<lambda>response. parse_ack response SET_FREQ) (\<lambda>_. VNone) timeout ow w
      | _ \<Rightarrow> tx_owner_dispatch tr op timeout ow w)"

text \<open>\<open>_call\<close>, up to the wait.\<close>

definition owner_call_begin ::
  "modem_owner \<Rightarrow> owner_operation \<Rightarrow> seconds option \<Rightarrow> (owner_error, owner_request) result \<times> modem_owner" where
  "owner_call_begin ow op timeout =
     (let transaction_timeout =
        (case timeout of None \<Rightarrow> ow_default_transaction_timeout ow | Some t \<Rightarrow> t)
      in
      if transaction_timeout \<le> 0 then (Inl OwnerTimeoutNotPositive, ow)
      else if ow_thread ow \<noteq> OwnerAlive \<or> \<not> ow_accepting ow then (Inl ModemOwnerNotRunning, ow)
      else if int (length (ow_queue ow)) \<ge> ow_queue_capacity ow then (Inl ModemOwnerQueueFull, ow)
      else
        (let call = \<lparr>oc_number = ow_next_call ow, oc_operation = op, oc_timeout = transaction_timeout\<rparr>
         in (Inr call, ow\<lparr>ow_queue := ow_queue ow @ [CallItem call], ow_next_call := ow_next_call ow + 1\<rparr>)))"

text \<open>One iteration of the loop of \<open>_run\<close>; the stop marker ends the thread and closes the transport.\<close>

definition owner_worker_step ::
  "'w dispatcher \<Rightarrow> 'w modem_transport \<Rightarrow> modem_owner \<Rightarrow> 'w \<Rightarrow> modem_owner \<times> 'w" where
  "owner_worker_step dispatch tr ow w =
     (case ow_queue ow of
        [] \<Rightarrow> (ow, w)
      | item # rest \<Rightarrow>
          if ow_thread ow \<noteq> OwnerAlive then (ow, w)
          else
            (let ow = ow\<lparr>ow_queue := rest\<rparr> in
             case item of
               OwnerStopItem \<Rightarrow>
                 (ow\<lparr>ow_thread := OwnerExited, ow_accepting := False\<rparr>, snd (mt_close tr w))
             | CallItem call \<Rightarrow>
                 (let (outcome, ow, w) = dispatch tr (oc_operation call) (oc_timeout call) ow w
                  in (ow\<lparr>ow_done := (oc_number call, outcome) # ow_done ow\<rparr>, w))))"

fun owner_drain :: "'w dispatcher \<Rightarrow> 'w modem_transport \<Rightarrow> nat \<Rightarrow> modem_owner \<Rightarrow> 'w \<Rightarrow> modem_owner \<times> 'w" where
  "owner_drain dispatch tr 0 ow w = (ow, w)"
| "owner_drain dispatch tr (Suc n) ow w =
     (let (ow, w) = owner_worker_step dispatch tr ow w in owner_drain dispatch tr n ow w)"

definition owner_call_end :: "modem_owner \<Rightarrow> owner_request \<Rightarrow> (owner_error, owner_value) result" where
  "owner_call_end ow call =
     (case map_of (ow_done ow) (oc_number call) of
        None \<Rightarrow> Inl OwnerWaitTimeout
      | Some (Inl _) \<Rightarrow> Inl OwnerOperationFailed
      | Some (Inr v) \<Rightarrow> Inr v)"

definition owner_call ::
  "'w dispatcher \<Rightarrow> 'w modem_transport \<Rightarrow> owner_operation \<Rightarrow> seconds option \<Rightarrow> modem_owner \<Rightarrow> 'w \<Rightarrow>
     (owner_error, owner_value) result \<times> modem_owner \<times> 'w" where
  "owner_call dispatch tr op timeout ow w =
     (case owner_call_begin ow op timeout of
        (Inl e, ow) \<Rightarrow> (Inl e, ow, w)
      | (Inr call, ow) \<Rightarrow>
          (let (ow, w) = owner_drain dispatch tr (length (ow_queue ow)) ow w
           in (owner_call_end ow call, ow, w)))"

definition owner_stop_request :: "seconds \<Rightarrow> modem_owner \<Rightarrow> (owner_error, unit) result \<times> modem_owner" where
  "owner_stop_request timeout ow =
     (if timeout \<le> 0 then (Inl OwnerTimeoutNotPositive, ow)
      else if ow_thread ow \<noteq> OwnerAlive then (Inr (), ow)
      else
        (let ow = ow\<lparr>ow_accepting := False\<rparr> in
         if int (length (ow_queue ow)) \<ge> ow_queue_capacity ow then (Inl OwnerStopTimeout, ow)
         else (Inr (), ow\<lparr>ow_queue := ow_queue ow @ [OwnerStopItem]\<rparr>)))"

definition owner_stop ::
  "'w dispatcher \<Rightarrow> 'w modem_transport \<Rightarrow> seconds \<Rightarrow> modem_owner \<Rightarrow> 'w \<Rightarrow> (owner_error, unit) result \<times> modem_owner \<times> 'w" where
  "owner_stop dispatch tr timeout ow w =
     (case owner_stop_request timeout ow of
        (Inl e, ow) \<Rightarrow> (Inl e, ow, w)
      | (Inr _, ow) \<Rightarrow>
          (let (ow, w) = owner_drain dispatch tr (length (ow_queue ow)) ow w
           in (if ow_thread ow = OwnerAlive then Inl OwnerStopTimeout else Inr (), ow, w)))"

text \<open>
  The typed methods. A method casts the result of its call, which the dispatcher makes of the
  expected kind, so that the failing cast never happens; every failure of the owner is a
  \<open>ModemFailure\<close> to the layers above, but for a non-positive timeout.
\<close>

definition owner_exn :: "owner_error \<Rightarrow> tx_exn" where
  "owner_exn e =
     (case e of
        OwnerTimeoutNotPositive \<Rightarrow> TransactionTimeoutNotPositive
      | OwnerRequestError _ \<Rightarrow> ModemFailure ''ValueError''
      | ModemOwnerNotRunning \<Rightarrow> ModemFailure ''ModemOwnerNotRunning''
      | ModemOwnerQueueFull \<Rightarrow> ModemFailure ''ModemOwnerQueueFull''
      | _ \<Rightarrow> ModemFailure ''ModemOwnerError'')"

definition owner_method ::
  "'w dispatcher \<Rightarrow> 'w modem_transport \<Rightarrow> owner_operation \<Rightarrow> (owner_value \<Rightarrow> 'a option) \<Rightarrow> seconds option \<Rightarrow>
     (modem_owner \<times> 'w, 'a) operation" where
  "owner_method dispatch tr op as timeout = (\<lambda>(ow, w).
     let (res, ow, w) = owner_call dispatch tr op timeout ow w
     in ((case res of
            Inl e \<Rightarrow> Inl (owner_exn e)
          | Inr v \<Rightarrow> (case as v of None \<Rightarrow> Inl (ModemFailure ''cast'') | Some x \<Rightarrow> Inr x)), (ow, w)))"

fun as_none :: "owner_value \<Rightarrow> unit option" where
  "as_none VNone = Some ()"
| "as_none _ = None"

fun as_version :: "owner_value \<Rightarrow> version_response option" where
  "as_version (VVersion v) = Some v"
| "as_version _ = None"

fun as_bytes :: "owner_value \<Rightarrow> bytes option" where
  "as_bytes (VBytes v) = Some v"
| "as_bytes _ = None"

fun as_rx_status :: "owner_value \<Rightarrow> rx3_status option" where
  "as_rx_status (VRxStatus v) = Some v"
| "as_rx_status _ = None"

fun as_rssi :: "owner_value \<Rightarrow> rx_rssi option" where
  "as_rssi (VRssi v) = Some v"
| "as_rssi _ = None"

fun as_rf_status :: "owner_value \<Rightarrow> rf_status option" where
  "as_rf_status (VRfStatus v) = Some v"
| "as_rf_status _ = None"

fun as_rf_diag :: "owner_value \<Rightarrow> rf_diagnostics option" where
  "as_rf_diag (VRfDiag v) = Some v"
| "as_rf_diag _ = None"

text \<open>A method that builds its request on the caller's thread, before the queue is touched.\<close>

definition owner_prepared ::
  "(host_error, bytes) result \<Rightarrow> (bytes \<Rightarrow> (modem_owner \<times> 'w, unit) operation) \<Rightarrow> (modem_owner \<times> 'w, unit) operation" where
  "owner_prepared request method s =
     (case request of Inl e \<Rightarrow> (Inl (owner_exn (OwnerRequestError e)), s) | Inr data \<Rightarrow> method data s)"

definition transmit_selector_burst ::
  "'w dispatcher \<Rightarrow> 'w modem_transport \<Rightarrow> int \<Rightarrow> bytes \<Rightarrow> seconds option \<Rightarrow> (modem_owner \<times> 'w, unit) operation" where
  "transmit_selector_burst dispatch tr selector_count packed_selectors timeout =
     owner_prepared (rf_tx_tones_request selector_count packed_selectors)
       (\<lambda>request. owner_method dispatch tr (OpTransmitSelectorBurst request) as_none timeout)"

definition apply_tx_qualification_profile ::
  "'w dispatcher \<Rightarrow> 'w modem_transport \<Rightarrow> seconds option \<Rightarrow> (modem_owner \<times> 'w, unit) operation" where
  "apply_tx_qualification_profile dispatch tr timeout =
     owner_prepared p13b_tx_frequency_request
       (\<lambda>request. owner_method dispatch tr (OpApplyTxQualificationProfile request) as_none timeout)"

definition apply_tx_profile ::
  "'w dispatcher \<Rightarrow> 'w modem_transport \<Rightarrow> int \<Rightarrow> int \<Rightarrow> seconds option \<Rightarrow> (modem_owner \<times> 'w, unit) operation" where
  "apply_tx_profile dispatch tr frequency_hz tx_power timeout =
     owner_prepared (build_tx_profile_request frequency_hz tx_power)
       (\<lambda>request. owner_method dispatch tr (OpApplyTxProfile request) as_none timeout)"

definition owner_port :: "'w dispatcher \<Rightarrow> 'w modem_transport \<Rightarrow> (modem_owner \<times> 'w) modem_port" where
  "owner_port dispatch tr =
     \<lparr>mp_snapshot = (\<lambda>(ow, _). \<lparr>ms_running = os_running (owner_snapshot_of ow),
        ms_owner_thread_id = os_owner_thread_id (owner_snapshot_of ow)\<rparr>),
      mp_get_version = owner_method dispatch tr OpGetVersion as_version,
      mp_set_rx_frequency = (\<lambda>hz. owner_method dispatch tr (OpSetRxFrequency hz) as_none),
      mp_arm_rx_modem_io = owner_method dispatch tr OpArmRxModemIO as_none,
      mp_rx_read = (\<lambda>maximum. owner_method dispatch tr (OpRxRead maximum) as_bytes),
      mp_rx_status = owner_method dispatch tr OpRxStatus as_rx_status,
      mp_rx_start = owner_method dispatch tr OpRxStart as_none,
      mp_rx_stop = owner_method dispatch tr OpRxStop as_none,
      mp_rx_rssi = owner_method dispatch tr OpRxRssi as_rssi,
      mp_rf_status = owner_method dispatch tr OpRfStatus as_rf_status,
      mp_rf_diagnostics = owner_method dispatch tr OpRfDiag as_rf_diag,
      mp_transmit_selector_burst = transmit_selector_burst dispatch tr\<rparr>"

subsection \<open>An idle owner is one transaction\<close>

text \<open>
  The contract of a call, without queue and thread: build the request, exchange it, parse the
  response.
\<close>

fun op_request :: "owner_operation \<Rightarrow> (host_error, bytes) result" where
  "op_request OpGetVersion = get_version_request"
| "op_request (OpSetRxFrequency hz) = set_rx_frequency_request hz"
| "op_request OpArmRxModemIO = arm_rx_modem_io_request"
| "op_request OpRxStart = rx_start_request"
| "op_request (OpRxRead maximum) = rx_read_request maximum"
| "op_request OpRxStatus = rx_status_request"
| "op_request OpRxRssi = rx_rssi_request"
| "op_request OpRxStop = rx_stop_request"
| "op_request OpRfStatus = rf_status_request"
| "op_request OpRfDiag = rf_diag_request"
| "op_request (OpApplyTxQualificationProfile data) = Inr data"
| "op_request (OpTransmitSelectorBurst data) = Inr data"
| "op_request (OpApplyTxProfile data) = Inr data"

abbreviation "ack_value command response \<equiv> map_sum id (\<lambda>_. VNone) (parse_ack response command)"

fun op_response :: "owner_operation \<Rightarrow> bytes \<Rightarrow> (host_error, owner_value) result" where
  "op_response OpGetVersion r = map_sum id VVersion (parse_version_response r)"
| "op_response (OpSetRxFrequency hz) r = ack_value SET_FREQ r"
| "op_response OpArmRxModemIO r = ack_value SET_CONFIG r"
| "op_response OpRxStart r = ack_value YWD_RX r"
| "op_response (OpRxRead maximum) r = map_sum id VBytes (parse_rx_read r)"
| "op_response OpRxStatus r = map_sum id VRxStatus (parse_rx3_status r)"
| "op_response OpRxRssi r = map_sum id VRssi (parse_rx_rssi r)"
| "op_response OpRxStop r = ack_value YWD_RX r"
| "op_response OpRfStatus r = map_sum id VRfStatus (parse_rf_status r)"
| "op_response OpRfDiag r = map_sum id VRfDiag (parse_rf_diagnostics r)"
| "op_response (OpApplyTxQualificationProfile data) r = ack_value SET_FREQ r"
| "op_response (OpTransmitSelectorBurst data) r = ack_value YWD_RF r"
| "op_response (OpApplyTxProfile data) r = ack_value SET_FREQ r"

definition transaction :: "'w modem_transport \<Rightarrow> owner_operation \<Rightarrow> seconds \<Rightarrow> 'w \<Rightarrow> owner_value option \<times> 'w" where
  "transaction tr op timeout w =
     (case op_request op of
        Inl _ \<Rightarrow> (None, w)
      | Inr request \<Rightarrow>
          (case mt_transact tr request timeout w of
             (Inl _, w) \<Rightarrow> (None, w)
           | (Inr response, w) \<Rightarrow> (case op_response op response of Inl _ \<Rightarrow> None | Inr v \<Rightarrow> Some v, w)))"

lemma exchange_eq:
  "(\<And>r. map_sum id val (parse r) = parse' r) \<Longrightarrow>
     owner_exchange tr request parse val timeout ow w = owner_exchange tr request parse' id timeout ow w"
proof -
  assume eq: "\<And>r. map_sum id val (parse r) = parse' r"
  have "(case parse r of Inl e \<Rightarrow> Inl (ProtocolError e) | Inr x \<Rightarrow> Inr (val x)) =
      (case parse' r of Inl e \<Rightarrow> Inl (ProtocolError e) | Inr x \<Rightarrow> Inr (id x))" for r
    unfolding eq [symmetric] by (cases "parse r") simp_all
  then show ?thesis by (simp only: owner_exchange_def)
qed

lemma product_dispatch_exchange:
  "product_owner_dispatch tr op timeout ow w = owner_exchange tr (op_request op) (op_response op) id timeout ow w"
  by (cases op)
    (auto simp: product_owner_dispatch_def tx_owner_dispatch_def owner_dispatch_def intro!: exchange_eq)

lemma product_dispatch_cases:
  "\<exists>res n. product_owner_dispatch tr op timeout ow w =
       (res, ow\<lparr>ow_transactions := n\<rparr>, snd (transaction tr op timeout w)) \<and>
     (case res of Inl _ \<Rightarrow> None | Inr v \<Rightarrow> Some v) = fst (transaction tr op timeout w)"
proof (cases "op_request op")
  case (Inl e)
  then show ?thesis
    by (intro exI [of _ "Inl (ProtocolError e)"] exI [of _ "ow_transactions ow"])
      (simp add: product_dispatch_exchange owner_exchange_def transaction_def)
next
  case (Inr request)
  show ?thesis
  proof (cases "mt_transact tr request timeout w")
    case (Pair answer w')
    note def = product_dispatch_exchange owner_exchange_def owner_transact_def transaction_def
    show ?thesis
    proof (cases answer)
      case (Inl e)
      with Pair \<open>op_request op = Inr request\<close> show ?thesis
        by (intro exI [of _ "Inl (TransportError e)"] exI [of _ "ow_transactions ow"]) (simp add: def)
    next
      case (Inr response)
      with Pair \<open>op_request op = Inr request\<close> show ?thesis by (auto simp: def split: sum.splits)
    qed
  qed
qed

definition owner_idle :: "modem_owner \<Rightarrow> bool" where
  "owner_idle ow \<longleftrightarrow> ow_queue ow = [] \<and> ow_thread ow = OwnerAlive \<and> ow_accepting ow \<and> 1 \<le> ow_queue_capacity ow"

lemma owner_call_idle:
  assumes "owner_idle ow" "0 < t"
  shows "\<exists>ow'. owner_call product_owner_dispatch tr op (Some t) ow w =
      ((case fst (transaction tr op t w) of None \<Rightarrow> Inl OwnerOperationFailed | Some v \<Rightarrow> Inr v),
       ow', snd (transaction tr op t w)) \<and> owner_idle ow'"
proof -
  define call where "call = \<lparr>oc_number = ow_next_call ow, oc_operation = op, oc_timeout = t\<rparr>"
  define ow1 where "ow1 = ow\<lparr>ow_next_call := ow_next_call ow + 1, ow_queue := []\<rparr>"
  from product_dispatch_cases [of tr op t ow1 w] obtain res n where
    d: "product_owner_dispatch tr op t ow1 w = (res, ow1\<lparr>ow_transactions := n\<rparr>, snd (transaction tr op t w))"
    and res: "(case res of Inl _ \<Rightarrow> None | Inr v \<Rightarrow> Some v) = fst (transaction tr op t w)"
    by blast
  let ?ow = "ow1\<lparr>ow_transactions := n, ow_done := (ow_next_call ow, res) # ow_done ow\<rparr>"
  have "owner_call_begin ow op (Some t) = (Inr call, ow1\<lparr>ow_queue := [CallItem call]\<rparr>)"
    using assms by (simp add: owner_call_begin_def owner_idle_def call_def ow1_def Let_def)
  moreover have "owner_worker_step product_owner_dispatch tr (ow1\<lparr>ow_queue := [CallItem call]\<rparr>) w =
      (?ow, snd (transaction tr op t w))"
    using assms(1) d by (simp add: owner_worker_step_def owner_idle_def ow1_def call_def)
  moreover have "owner_call_end ?ow call =
      (case fst (transaction tr op t w) of None \<Rightarrow> Inl OwnerOperationFailed | Some v \<Rightarrow> Inr v)"
    unfolding res [symmetric] by (cases res) (simp_all add: owner_call_end_def call_def)
  moreover have "owner_idle ?ow" using assms(1) by (simp add: owner_idle_def ow1_def)
  ultimately show ?thesis by (intro exI [of _ ?ow]) (simp add: owner_call_def Let_def)
qed

text \<open>
  C19. A call on an idle owner is one transaction. Queue, thread and hand-over add nothing and lose
  nothing: the call returns a value exactly when the request of the operation can be built, the
  transport answers it, and the response parses as the response to that operation; otherwise it
  raises; the transport sees the one request or nothing, and the owner is idle again.
\<close>

theorem owner_call_refines_transaction:
  assumes "owner_idle ow" "0 < t"
  shows "\<exists>ow'. owner_call product_owner_dispatch tr op (Some t) ow w =
      ((case fst (transaction tr op t w) of None \<Rightarrow> Inl OwnerOperationFailed | Some v \<Rightarrow> Inr v),
       ow', snd (transaction tr op t w)) \<and> owner_idle ow'"
  using assms by (rule owner_call_idle)

subsection \<open>What can reach the wire\<close>

text \<open>The operations clients can call, with the arguments they supply.\<close>

datatype owner_api =
    ApiGetVersion | ApiSetRxFrequency int | ApiArmRxModemIO | ApiRxStart | ApiRxRead int | ApiRxStatus
  | ApiRxRssi | ApiRxStop | ApiRfStatus | ApiRfDiag
  | ApiApplyTxQualificationProfile | ApiTransmitSelectorBurst int bytes | ApiApplyTxProfile int int

fun api_operation :: "owner_api \<Rightarrow> (host_error, owner_operation) result" where
  "api_operation ApiGetVersion = Inr OpGetVersion"
| "api_operation (ApiSetRxFrequency hz) = Inr (OpSetRxFrequency hz)"
| "api_operation ApiArmRxModemIO = Inr OpArmRxModemIO"
| "api_operation ApiRxStart = Inr OpRxStart"
| "api_operation (ApiRxRead maximum) = Inr (OpRxRead maximum)"
| "api_operation ApiRxStatus = Inr OpRxStatus"
| "api_operation ApiRxRssi = Inr OpRxRssi"
| "api_operation ApiRxStop = Inr OpRxStop"
| "api_operation ApiRfStatus = Inr OpRfStatus"
| "api_operation ApiRfDiag = Inr OpRfDiag"
| "api_operation ApiApplyTxQualificationProfile = map_sum id OpApplyTxQualificationProfile p13b_tx_frequency_request"
| "api_operation (ApiTransmitSelectorBurst n packed) = map_sum id OpTransmitSelectorBurst (rf_tx_tones_request n packed)"
| "api_operation (ApiApplyTxProfile hz pwr) = map_sum id OpApplyTxProfile (build_tx_profile_request hz pwr)"

datatype owner_event = OwStart int seconds | OwCall owner_api "seconds option" | OwWorker | OwStop seconds

text \<open>A transport that keeps a log of the requests written to the device.\<close>

definition logged :: "'w modem_transport \<Rightarrow> (bytes list \<times> 'w) modem_transport" where
  "logged tr =
     \<lparr>mt_open = (\<lambda>(lg, w). let (r, w) = mt_open tr w in (r, (lg, w))),
      mt_transact = (\<lambda>request timeout (lg, w). let (r, w) = mt_transact tr request timeout w in (r, (lg @ [request], w))),
      mt_close = (\<lambda>(lg, w). let (r, w) = mt_close tr w in (r, (lg, w)))\<rparr>"

definition owner_step ::
  "'w dispatcher \<Rightarrow> 'w modem_transport \<Rightarrow> modem_owner \<times> 'w \<Rightarrow> owner_event \<Rightarrow> modem_owner \<times> 'w" where
  "owner_step dispatch tr s ev =
     (case ev of
        OwStart thread_id timeout \<Rightarrow> snd (owner_start tr thread_id timeout (fst s) (snd s))
      | OwCall api timeout \<Rightarrow>
          (case api_operation api of
             Inl _ \<Rightarrow> s
           | Inr op \<Rightarrow> (snd (owner_call_begin (fst s) op timeout), snd s))
      | OwWorker \<Rightarrow> owner_worker_step dispatch tr (fst s) (snd s)
      | OwStop timeout \<Rightarrow> (snd (owner_stop_request timeout (fst s)), snd s))"

text \<open>
  The requests the TNC may write: version, the fixed receive configuration, the receive commands,
  the two radio queries, a selector burst of consistent length, and simplex frequency settings,
  with receive power on a frequency that may be received or with one of the permitted transmit
  profiles. In particular no abort and no exit command.
\<close>

definition freq_request_ok :: "bytes \<Rightarrow> bool" where
  "freq_request_ok p \<longleftrightarrow>
     length p = 10 \<and> p ! 0 = 0 \<and> take 4 (drop 1 p) = take 4 (drop 5 p) \<and>
     (let hz = from_bytes_le (take 4 (drop 1 p)); pwr = uint (p ! 9)
      in pwr = 1 \<and> validate_rx_frequency_hz hz = Inr hz \<or> (hz, pwr) \<in> PERMITTED_TX_PROFILES)"

definition burst_request_ok :: "bytes \<Rightarrow> bool" where
  "burst_request_ok p \<longleftrightarrow>
     (case p of
        c # lo # hi # packed \<Rightarrow>
          c = RF_TX_TONES \<and> 1 \<le> from_bytes_le [lo, hi] \<and> from_bytes_le [lo, hi] \<le> MAX_SELECTORS \<and>
          int (length packed) = (from_bytes_le [lo, hi] + 7) div 8
      | _ \<Rightarrow> False)"

definition wire_request_ok :: "bytes \<Rightarrow> bool" where
  "wire_request_ok request \<longleftrightarrow>
     (case host_parse_frame request None of
        Inl _ \<Rightarrow> False
      | Inr f \<Rightarrow>
          (let c = hf_command f; p = hf_payload f in
           c = GET_VERSION \<and> p = [] \<or>
           c = SET_CONFIG \<and> p = RX_MODEM_IO_CONFIG \<or>
           c = SET_FREQ \<and> freq_request_ok p \<or>
           c = YWD_RX \<and> (p \<in> {[RX_START], [RX_STOP], [RX_STATUS], [RX_RSSI]} \<or>
             (\<exists>n. p = [RX_READ, n] \<and> 1 \<le> uint n \<and> uint n \<le> MAX_RX_READ_BYTES)) \<or>
           c = YWD_RF \<and> (p \<in> {[RF_GET_STATUS], [RF_GET_DIAG]} \<or> burst_request_ok p)))"

lemma wire_request_okI:
  assumes "build_frame c p = Inr request"
    and "c = GET_VERSION \<and> p = [] \<or> c = SET_CONFIG \<and> p = RX_MODEM_IO_CONFIG \<or> c = SET_FREQ \<and> freq_request_ok p \<or>
      c = YWD_RX \<and> (p \<in> {[RX_START], [RX_STOP], [RX_STATUS], [RX_RSSI]} \<or>
        (\<exists>n. p = [RX_READ, n] \<and> 1 \<le> uint n \<and> uint n \<le> MAX_RX_READ_BYTES)) \<or>
      c = YWD_RF \<and> (p \<in> {[RF_GET_STATUS], [RF_GET_DIAG]} \<or> burst_request_ok p)"
  shows "wire_request_ok request"
proof -
  have "host_parse_frame request None = Inr \<lparr>hf_command = c, hf_payload = p\<rparr>"
    unfolding host_parse_frame_iff using assms(1) by simp
  with assms(2) show ?thesis by (simp add: wire_request_ok_def)
qed

lemma freq_payload_ok:
  assumes "0 \<le> hz" "hz < 256 ^ 4" "0 \<le> pwr" "pwr \<le> 255"
    and "pwr = 1 \<and> validate_rx_frequency_hz hz = Inr hz \<or> (hz, pwr) \<in> PERMITTED_TX_PROFILES"
  shows "freq_request_ok ([0] @ to_bytes_le 4 hz @ to_bytes_le 4 hz @ [word_of_int pwr])"
proof -
  have "([0] @ to_bytes_le 4 hz @ to_bytes_le 4 hz @ [word_of_int pwr]) ! 9 = (word_of_int pwr :: byte)"
    by (simp add: nth_append)
  with assms show ?thesis
    by (simp add: freq_request_ok_def from_to_bytes_le_id uint_byte_id)
qed

lemma map_sum_Inr_iff: "map_sum id f x = Inr y \<longleftrightarrow> (\<exists>z. x = Inr z \<and> y = f z)"
  by (cases x) auto

lemma api_request_ok:
  assumes "api_operation api = Inr op" "op_request op = Inr request"
  shows "wire_request_ok request"
proof (cases api)
  case (ApiSetRxFrequency hz)
  with assms have v: "validate_rx_frequency_hz hz = Inr hz"
    and b: "build_frame SET_FREQ ([0] @ to_bytes_le 4 hz @ to_bytes_le 4 hz @ [word_of_int 1]) = Inr request"
    by (auto simp: set_rx_frequency_request_def try_bind_Inr_iff validate_rx_frequency_hz_def split: if_splits)
  have "0 \<le> hz \<and> hz < 256 ^ 4" using v by (auto simp: validate_rx_frequency_hz_def split: if_splits)
  with v have "freq_request_ok ([0] @ to_bytes_le 4 hz @ to_bytes_le 4 hz @ [word_of_int 1])"
    by (intro freq_payload_ok) auto
  then show ?thesis by (intro wire_request_okI [OF b]) simp
next
  case (ApiRxRead n)
  with assms have n: "1 \<le> n" "n \<le> MAX_RX_READ_BYTES" and b: "build_frame YWD_RX [RX_READ, word_of_int n] = Inr request"
    by (auto simp: rx_read_request_def split: if_splits)
  then have "uint (word_of_int n :: byte) = n" by (intro uint_byte_id) (auto simp: MAX_RX_READ_BYTES_def)
  with n show ?thesis by (intro wire_request_okI [OF b]) auto
next
  case ApiApplyTxQualificationProfile
  with assms have b: "build_frame SET_FREQ ([0] @ to_bytes_le 4 P13B_TX_FREQUENCY_HZ @
      to_bytes_le 4 P13B_TX_FREQUENCY_HZ @ [word_of_int P13B_TX_POWER]) = Inr request"
    by (auto simp: p13b_tx_frequency_request_def map_sum_Inr_iff)
  show ?thesis
    by (intro wire_request_okI [OF b] disjI2 disjI1 conjI refl freq_payload_ok) (auto simp: host_profile_defs)
next
  case (ApiApplyTxProfile hz pwr)
  with assms have p: "(hz, pwr) \<in> PERMITTED_TX_PROFILES"
    and b: "build_frame SET_FREQ ([0] @ to_bytes_le 4 hz @ to_bytes_le 4 hz @ [word_of_int pwr]) = Inr request"
    by (auto simp: build_tx_profile_request_def try_bind_Inr_iff validate_tx_profile_def map_sum_Inr_iff split: if_splits)
  show ?thesis
    by (intro wire_request_okI [OF b] disjI2 disjI1 conjI refl freq_payload_ok) (use p in \<open>auto simp: host_profile_defs\<close>)
next
  case (ApiTransmitSelectorBurst n packed)
  let ?p = "[RF_TX_TONES, word_of_int (n AND 0xFF), word_of_int (drop_bit 8 n AND 0xFF)] @ packed"
  from ApiTransmitSelectorBurst assms have n: "1 \<le> n" "n \<le> MAX_SELECTORS" "int (length packed) = (n + 7) div 8"
    and b: "build_frame YWD_RF ?p = Inr request"
    by (auto simp: rf_tx_tones_request_def Let_def map_sum_Inr_iff split: if_splits)
  have "from_bytes_le [word_of_int (n AND 0xFF), word_of_int (drop_bit 8 n AND 0xFF)] = n"
    unfolding split_selector_count using n by (intro from_to_bytes_le_id) (auto simp: MAX_SELECTORS_def)
  with n have "burst_request_ok ?p" by (simp add: burst_request_ok_def)
  then show ?thesis by (intro wire_request_okI [OF b]) blast
qed (use assms in \<open>auto simp: get_version_request_def arm_rx_modem_io_request_def rx_start_request_def
    rx_status_request_def rx_rssi_request_def rx_stop_request_def rf_status_request_def rf_diag_request_def
    intro: wire_request_okI\<close>)

text \<open>Every queued operation came from a client method, and everything logged may be written.\<close>

definition owner_wire_inv :: "modem_owner \<times> bytes list \<times> 'w \<Rightarrow> bool" where
  "owner_wire_inv s \<longleftrightarrow>
     (\<forall>call. CallItem call \<in> set (ow_queue (fst s)) \<longrightarrow> (\<exists>api. api_operation api = Inr (oc_operation call))) \<and>
     (\<forall>request \<in> set (fst (snd s)). wire_request_ok request)"

lemma transaction_logged:
  "\<exists>w' extra. snd (transaction (logged tr) op t (lg, w)) = (lg @ extra, w') \<and>
     (\<forall>request \<in> set extra. op_request op = Inr request)"
proof (cases "op_request op")
  case (Inl e)
  then show ?thesis by (simp add: transaction_def)
next
  case (Inr request)
  obtain r w' where "mt_transact tr request t w = (r, w')" by fastforce
  with Inr have "snd (transaction (logged tr) op t (lg, w)) = (lg @ [request], w')"
    by (cases r) (simp_all add: transaction_def logged_def)
  with Inr show ?thesis by simp
qed

lemma owner_worker_wire:
  assumes "owner_wire_inv (ow, lg, w)"
  shows "owner_wire_inv (owner_worker_step product_owner_dispatch (logged tr) ow (lg, w))"
proof (cases "ow_queue ow")
  case Nil
  with assms show ?thesis by (simp add: owner_worker_step_def)
next
  case (Cons item rest)
  show ?thesis
  proof (cases "ow_thread ow = OwnerAlive")
    case False
    with assms Cons show ?thesis by (simp add: owner_worker_step_def)
  next
    case alive: True
    show ?thesis
    proof (cases item)
      case OwnerStopItem
      with assms Cons alive show ?thesis
        by (auto simp: owner_worker_step_def owner_wire_inv_def logged_def split: prod.splits)
    next
      case (CallItem call)
      let ?op = "oc_operation call" and ?t = "oc_timeout call"
      obtain api where api: "api_operation api = Inr ?op"
        using assms Cons CallItem by (auto simp: owner_wire_inv_def)
      obtain res n where d: "product_owner_dispatch (logged tr) ?op ?t (ow\<lparr>ow_queue := rest\<rparr>) (lg, w) =
          (res, ow\<lparr>ow_queue := rest, ow_transactions := n\<rparr>, snd (transaction (logged tr) ?op ?t (lg, w)))"
        using product_dispatch_cases by metis
      obtain w' extra where t: "snd (transaction (logged tr) ?op ?t (lg, w)) = (lg @ extra, w')"
        and extra: "\<forall>request \<in> set extra. op_request ?op = Inr request"
        using transaction_logged by metis
      from extra api_request_ok [OF api] have "\<forall>request \<in> set extra. wire_request_ok request" by blast
      with assms Cons alive CallItem d t show ?thesis
        by (auto simp: owner_worker_step_def owner_wire_inv_def)
    qed
  qed
qed

interpretation owner_wire: invariant_machine "owner_step product_owner_dispatch (logged tr)" owner_wire_inv
proof (unfold_locales, goal_cases)
  case (1 s ev)
  obtain ow lg w where s: "s = (ow, lg, w)" by (cases s)
  show ?case
  proof (cases ev)
    case (OwStart thread_id timeout)
    with 1 s show ?thesis
      by (auto simp: owner_step_def owner_start_def owner_wire_inv_def logged_def Let_def split: prod.splits sum.splits)
  next
    case (OwCall api timeout)
    with 1 s show ?thesis
      by (cases "api_operation api")
        (auto simp: owner_step_def owner_call_begin_def owner_wire_inv_def Let_def)
  next
    case OwWorker
    with owner_worker_wire 1 s show ?thesis by (auto simp: owner_step_def)
  next
    case (OwStop timeout)
    with 1 s show ?thesis
      by (auto simp: owner_step_def owner_stop_request_def owner_wire_inv_def Let_def)
  qed
qed

text \<open>
  C20. Only permitted requests reach the modem. Whatever operations clients call with whatever
  arguments, however their calls, the owner thread, start and stop interleave, and whatever the
  transport answers, every request written to the device is one of the permitted ones.
\<close>

theorem owner_requests_permitted:
  assumes "owner_init capacity submit_timeout default_timeout = Inr ow"
  shows "list_all wire_request_ok (fst (snd (run (owner_step product_owner_dispatch (logged tr)) (ow, [], w) evs)))"
proof -
  have "owner_wire_inv (ow, [], w)"
    using assms by (auto simp: owner_init_def owner_wire_inv_def split: if_splits)
  from owner_wire.run_inv [OF this, of tr evs] show ?thesis by (simp add: owner_wire_inv_def list_all_iff)
qed

subsection \<open>Calls run once and in order\<close>

fun call_numbers :: "owner_item list \<Rightarrow> int list" where
  "call_numbers [] = []"
| "call_numbers (OwnerStopItem # items) = call_numbers items"
| "call_numbers (CallItem call # items) = oc_number call # call_numbers items"

lemma call_numbers_append [simp]: "call_numbers (xs @ ys) = call_numbers xs @ call_numbers ys"
  by (induction xs rule: call_numbers.induct) auto

text \<open>One event, with the numbers of the calls the thread dispatches.\<close>

definition owner_step_out ::
  "'w dispatcher \<Rightarrow> 'w modem_transport \<Rightarrow> modem_owner \<times> 'w \<Rightarrow> owner_event \<Rightarrow> (modem_owner \<times> 'w) \<times> int list" where
  "owner_step_out dispatch tr s ev =
     (owner_step dispatch tr s ev,
      case ev of
        OwWorker \<Rightarrow>
          (case ow_queue (fst s) of
             CallItem call # _ \<Rightarrow> if ow_thread (fst s) = OwnerAlive then [oc_number call] else []
           | _ \<Rightarrow> [])
      | _ \<Rightarrow> [])"

interpretation owner_fifo: fifo_queue "owner_step_out product_owner_dispatch tr"
  "\<lambda>(ow, _). call_numbers (ow_queue ow)" "\<lambda>(ow, _). ow_next_call ow"
proof (unfold_locales, goal_cases)
  case (1 s ev s' out)
  obtain ow w where s: "s = (ow, w)" by (cases s)
  from 1 have s': "s' = owner_step product_owner_dispatch tr s ev" by (simp add: owner_step_out_def)
  show ?case
  proof (cases ev)
    case (OwStart thread_id timeout)
    with 1 s s' show ?thesis
      by (auto simp: owner_step_out_def owner_step_def owner_start_def Let_def split: prod.splits sum.splits)
  next
    case (OwCall api timeout)
    with 1 s s' show ?thesis
      by (cases "api_operation api") (auto simp: owner_step_out_def owner_step_def owner_call_begin_def Let_def)
  next
    case OwWorker
    show ?thesis
    proof (cases "\<exists>call rest. ow_queue ow = CallItem call # rest \<and> ow_thread ow = OwnerAlive")
      case True
      then obtain call rest where q: "ow_queue ow = CallItem call # rest" "ow_thread ow = OwnerAlive" by blast
      obtain res n where "product_owner_dispatch tr (oc_operation call) (oc_timeout call) (ow\<lparr>ow_queue := rest\<rparr>) w =
          (res, ow\<lparr>ow_queue := rest, ow_transactions := n\<rparr>, snd (transaction tr (oc_operation call) (oc_timeout call) w))"
        using product_dispatch_cases by metis
      with 1 s q OwWorker show ?thesis
        by (auto simp: owner_step_out_def owner_step_def owner_worker_step_def)
    next
      case False
      with 1 s OwWorker show ?thesis
        by (cases "ow_queue ow"; cases "hd (ow_queue ow)"; cases "ow_thread ow = OwnerAlive")
          (auto simp: owner_step_out_def owner_step_def owner_worker_step_def Let_def)
    qed
  next
    case (OwStop timeout)
    with 1 s s' show ?thesis
      by (auto simp: owner_step_out_def owner_step_def owner_stop_request_def Let_def)
  qed
qed

text \<open>
  Calls run once and in order. For every interleaving of clients, thread, start and stop, the
  owner thread dispatches the queued calls in the order in which the queue took them, each at most
  once.
\<close>

theorem owner_calls_once:
  assumes "owner_init capacity submit_timeout default_timeout = Inr ow"
    and "run_out (owner_step_out product_owner_dispatch tr) (ow, w) evs = ((ow', w'), dispatched)"
  shows "sorted_wrt (<) dispatched \<and> set dispatched \<subseteq> {1 ..< ow_next_call ow'}"
proof -
  have "owner_fifo.numbered (ow, w)" "call_numbers (ow_queue ow) = []" "ow_next_call ow = 1"
    using assms(1) by (auto simp: owner_init_def owner_fifo.numbered_def split: if_splits)
  with owner_fifo.submissions_bounded [OF _ assms(2)] show ?thesis by auto
qed

subsection \<open>Examples\<close>

text \<open>A transport that acknowledges every radio command.\<close>

definition ack_transport :: "unit modem_transport" where
  "ack_transport =
     \<lparr>mt_open = (\<lambda>w. (Inr (), w)),
      mt_transact = (\<lambda>_ _ w. (Inr [0xE0, 4, 0x70, 0x58], w)), mt_close = (\<lambda>w. (Inr (), w))\<rparr>"

abbreviation "example_owner \<equiv>
  \<lparr>ow_queue = [], ow_queue_capacity = 8, ow_submit_timeout = 1 / 4, ow_default_transaction_timeout = 1,
   ow_thread = OwnerNotStarted, ow_accepting = False, ow_start_error = None, ow_owner_thread_id = None,
   ow_transactions = 0, ow_next_call = 1, ow_done = []\<rparr>"

lemma example_owner_init: "owner_init 8 (1 / 4) 1 = Inr example_owner"
  by (simp add: owner_init_def)

theorem owner_call_refines_transaction_witness:
  "\<exists>ow'. owner_call product_owner_dispatch ack_transport (OpTransmitSelectorBurst [0xE0, 7, 0x58, 2, 1, 0, 0x80]) (Some 1)
      (example_owner\<lparr>ow_thread := OwnerAlive, ow_accepting := True\<rparr>) () = (Inr VNone, ow', ()) \<and> owner_idle ow'"
proof -
  have "fst (transaction ack_transport (OpTransmitSelectorBurst [0xE0, 7, 0x58, 2, 1, 0, 0x80]) 1 ()) = Some VNone"
    by code_simp
  with owner_call_refines_transaction [of "example_owner\<lparr>ow_thread := OwnerAlive, ow_accepting := True\<rparr>" 1 ack_transport
      "OpTransmitSelectorBurst [0xE0, 7, 0x58, 2, 1, 0, 0x80]" "()"]
  show ?thesis by (auto simp: owner_idle_def)
qed

theorem owner_requests_permitted_witness:
  "list_all wire_request_ok (fst (snd (run (owner_step product_owner_dispatch (logged ack_transport)) (example_owner, [], ())
     [OwStart 1 2, OwCall (ApiTransmitSelectorBurst 1 [0x80]) None, OwCall (ApiApplyTxProfile 1 255) None, OwWorker, OwStop 2, OwWorker])))"
  by (rule owner_requests_permitted [OF example_owner_init])

theorem owner_calls_once_witness:
  "sorted_wrt (<) (snd (run_out (owner_step_out product_owner_dispatch ack_transport) (example_owner, ())
     [OwStart 1 2, OwCall ApiRfStatus None, OwCall ApiRxStatus None, OwWorker, OwWorker]))"
  (is "sorted_wrt (<) (snd ?r)")
proof -
  have "?r = ((fst (fst ?r), snd (fst ?r)), snd ?r)" by (simp only: prod.collapse)
  from owner_calls_once [OF example_owner_init this] show ?thesis by (rule conjunct1)
qed

end
