(* ===== verification/Serial_Port.thy ===== *)
theory Serial_Port
  imports Modem_Owner
begin

section \<open>The serial transport\<close>

text \<open>
  \<open>src/src/ywd1278/modem/_serial.py\<close>: the POSIX serial port that the modem owner's thread opens, one
  exchange of host frames with a deadline, and the scanner that finds the response in the octets that
  arrive. The calls to the operating system are operations over a world state. The loops run until
  the clock reaches the deadline, so they are partial functions; that they return is proved from the
  clock's progress.
\<close>

subsection \<open>Model: the operating system\<close>

text \<open>A call returns a value, would block, or fails with another \<open>OSError\<close>.\<close>

datatype 'a io_outcome = IODone 'a | IOBlocked | IOFailed

record 'd serial_os =
  so_open :: "string \<Rightarrow> 'd \<Rightarrow> int io_outcome \<times> 'd"
  so_configure :: "int \<Rightarrow> 'd \<Rightarrow> unit io_outcome \<times> 'd"
  so_close :: "int \<Rightarrow> 'd \<Rightarrow> 'd"
  so_flush_input :: "'d \<Rightarrow> 'd"
  so_write :: "bytes \<Rightarrow> 'd \<Rightarrow> nat io_outcome \<times> 'd"
  so_read :: "nat \<Rightarrow> 'd \<Rightarrow> bytes io_outcome \<times> 'd"
  so_select_write :: "seconds \<Rightarrow> 'd \<Rightarrow> 'd"
  so_select_read :: "seconds \<Rightarrow> 'd \<Rightarrow> bool \<times> 'd"
  so_monotonic :: "'d \<Rightarrow> seconds \<times> 'd"

datatype serial_error =
    BaudNotSupported | WrongThread | TransportClosed | SerialTimeoutNotPositive
  | OutgoingFrame host_error | WriteTimeout | ReadTimeout bytes | ResponseFrame host_error | SerialOSError

record serial_port =
  sp_owner_thread_id :: int
  sp_device :: string
  sp_fd :: int

definition serial_init :: "'d serial_os \<Rightarrow> string \<Rightarrow> int \<Rightarrow> int \<Rightarrow> 'd \<Rightarrow> (serial_error, serial_port) result \<times> 'd" where
  "serial_init os device baud thread d =
     (if baud \<noteq> 115200 then (Inl BaudNotSupported, d)
      else
        (case so_open os device d of
           (IODone fd, d) \<Rightarrow>
             (case so_configure os fd d of
                (IODone _, d) \<Rightarrow> (Inr \<lparr>sp_owner_thread_id = thread, sp_device = device, sp_fd = fd\<rparr>, d)
              | (_, d) \<Rightarrow> (Inl SerialOSError, so_close os fd d))
         | (_, d) \<Rightarrow> (Inl SerialOSError, d)))"

definition assert_owner :: "int \<Rightarrow> serial_port \<Rightarrow> (serial_error, unit) result" where
  "assert_owner thread sp =
     (if thread \<noteq> sp_owner_thread_id sp then Inl WrongThread
      else if sp_fd sp < 0 then Inl TransportClosed
      else Inr ())"

subsection \<open>Model: the scanner\<close>

text \<open>The octets collected for a candidate frame, and its length once it is known.\<close>

datatype scan = ScanMore bytes "nat option" | ScanDone bytes | ScanRaised host_error

definition scan_complete :: "bytes \<Rightarrow> nat option \<Rightarrow> scan" where
  "scan_complete data target =
     (case target of
        None \<Rightarrow> ScanMore data None
      | Some n \<Rightarrow>
          if length data \<ge> n then
            (let frame = take n data in
             case host_parse_frame frame None of Inl e \<Rightarrow> ScanRaised e | Inr _ \<Rightarrow> ScanDone frame)
          else ScanMore data target)"

definition scan_byte :: "bytes \<Rightarrow> nat option \<Rightarrow> byte \<Rightarrow> scan" where
  "scan_byte data target b =
     (if data = [] then (if b \<noteq> HOST_START then ScanMore data target else ScanMore [b] target)
      else
        (let data = data @ [b] in
         if length data = 2 then
           (let target = unat (data ! 1) in
            if target < 3 then ScanMore [] None else scan_complete data (Some target))
         else scan_complete data target))"

fun scan_chunk :: "bytes \<Rightarrow> nat option \<Rightarrow> bytes \<Rightarrow> scan" where
  "scan_chunk data target [] = ScanMore data target"
| "scan_chunk data target (b # bs) =
     (case scan_byte data target b of
        ScanMore data target \<Rightarrow> scan_chunk data target bs
      | out \<Rightarrow> out)"

subsection \<open>Model: one exchange\<close>

partial_function (option) serial_write_loop ::
  "'d serial_os \<Rightarrow> seconds \<Rightarrow> bytes \<Rightarrow> nat \<Rightarrow> 'd \<Rightarrow> ((serial_error, unit) result \<times> 'd) option" where
  "serial_write_loop os deadline data offset d =
     (if offset < length data then
        (let (now, d) = so_monotonic os d in
         if now \<ge> deadline then Some (Inl WriteTimeout, d)
         else
           (case so_write os (drop offset data) d of
              (IOFailed, d) \<Rightarrow> Some (Inl SerialOSError, d)
            | (IOBlocked, d) \<Rightarrow>
                serial_write_loop os deadline data offset (so_select_write os (min (1 / 20) (deadline - now)) d)
            | (IODone written, d) \<Rightarrow>
                if written \<noteq> 0 then serial_write_loop os deadline data (offset + written) d
                else serial_write_loop os deadline data offset (so_select_write os (min (1 / 20) (deadline - now)) d)))
      else Some (Inr (), d))"

definition serial_write_all :: "'d serial_os \<Rightarrow> bytes \<Rightarrow> seconds \<Rightarrow> 'd \<Rightarrow> ((serial_error, unit) result \<times> 'd) option" where
  "serial_write_all os data timeout d =
     (let (now, d) = so_monotonic os d in serial_write_loop os (now + timeout) data 0 d)"

partial_function (option) serial_read_loop ::
  "'d serial_os \<Rightarrow> seconds \<Rightarrow> bytes \<Rightarrow> nat option \<Rightarrow> 'd \<Rightarrow> ((serial_error, bytes) result \<times> 'd) option" where
  "serial_read_loop os deadline data target d =
     (let (now, d) = so_monotonic os d in
      if now < deadline then
        (let (now, d) = so_monotonic os d;
             (ready, d) = so_select_read os (min (1 / 20) (max 0 (deadline - now))) d in
         if \<not> ready then serial_read_loop os deadline data target d
         else
           (case so_read os 512 d of
              (IOFailed, d) \<Rightarrow> Some (Inl SerialOSError, d)
            | (IOBlocked, d) \<Rightarrow> serial_read_loop os deadline data target d
            | (IODone chunk, d) \<Rightarrow>
                (case scan_chunk data target chunk of
                   ScanDone frame \<Rightarrow> Some (Inr frame, d)
                 | ScanRaised e \<Rightarrow> Some (Inl (ResponseFrame e), d)
                 | ScanMore data target \<Rightarrow> serial_read_loop os deadline data target d)))
      else Some (Inl (ReadTimeout data), d))"

definition serial_read_frame :: "'d serial_os \<Rightarrow> seconds \<Rightarrow> 'd \<Rightarrow> ((serial_error, bytes) result \<times> 'd) option" where
  "serial_read_frame os timeout d =
     (let (now, d) = so_monotonic os d in serial_read_loop os (now + timeout) [] None d)"

definition serial_transact ::
  "'d serial_os \<Rightarrow> int \<Rightarrow> serial_port \<Rightarrow> bytes \<Rightarrow> seconds \<Rightarrow> 'd \<Rightarrow> ((serial_error, bytes) result \<times> 'd) option" where
  "serial_transact os thread sp request timeout d =
     (case assert_owner thread sp of
        Inl e \<Rightarrow> Some (Inl e, d)
      | Inr _ \<Rightarrow>
          if timeout \<le> 0 then Some (Inl SerialTimeoutNotPositive, d)
          else
            (case host_parse_frame request None of
               Inl e \<Rightarrow> Some (Inl (OutgoingFrame e), d)
             | Inr _ \<Rightarrow>
                 (case serial_write_all os request timeout (so_flush_input os d) of
                    None \<Rightarrow> None
                  | Some (Inl e, d) \<Rightarrow> Some (Inl e, d)
                  | Some (Inr _, d) \<Rightarrow> serial_read_frame os timeout d)))"

definition serial_close :: "'d serial_os \<Rightarrow> int \<Rightarrow> serial_port \<Rightarrow> 'd \<Rightarrow> (serial_error, unit) result \<times> serial_port \<times> 'd" where
  "serial_close os thread sp d =
     (case assert_owner thread sp of
        Inl e \<Rightarrow> (Inl e, sp, d)
      | Inr _ \<Rightarrow> (Inr (), sp\<lparr>sp_fd := - 1\<rparr>, so_close os (sp_fd sp) d))"

declare serial_write_loop.simps [code]
declare serial_read_loop.simps [code]

subsection \<open>What the scanner finds\<close>

text \<open>
  The reference: octets before a start octet are skipped, a start octet with a length below three is
  skipped with its length, and the first other candidate is the frame, once all of it is there.
\<close>

fun find_frame :: "bytes \<Rightarrow> bytes option" where
  "find_frame [] = None"
| "find_frame [b] = None"
| "find_frame (b # n # bs) =
     (if b \<noteq> HOST_START then find_frame (n # bs)
      else if unat n < 3 then find_frame bs
      else if unat n \<le> length (b # n # bs) then Some (take (unat n) (b # n # bs))
      else None)"

text \<open>What the scanner has collected is a start octet and fewer octets than the length says.\<close>

definition scanning :: "bytes \<Rightarrow> nat option \<Rightarrow> bool" where
  "scanning data target \<longleftrightarrow>
     (case data of
        [] \<Rightarrow> target = None
      | [b] \<Rightarrow> b = HOST_START \<and> target = None
      | b # n # bs \<Rightarrow> b = HOST_START \<and> 3 \<le> unat n \<and> target = Some (unat n) \<and> length data < unat n)"

lemma find_frame_scanning: "scanning data target \<Longrightarrow> find_frame data = None"
  by (cases data rule: find_frame.cases) (auto simp: scanning_def)

lemma find_frame_noise: "b \<noteq> HOST_START \<Longrightarrow> find_frame (b # ys) = find_frame ys"
  by (cases ys) simp_all

lemma host_frame_parses:
  "3 \<le> unat n \<Longrightarrow> length f = unat n \<Longrightarrow> f ! 0 = HOST_START \<Longrightarrow> f ! 1 = n \<Longrightarrow> \<exists>p. host_parse_frame f None = Inr p"
proof -
  assume "3 \<le> unat n" "length f = unat n" "f ! 0 = HOST_START" "f ! 1 = n"
  moreover from this have "int 3 \<le> int (unat n)" "\<not> length f < 3" by (simp_all only: of_nat_le_iff not_less)
  ultimately show ?thesis unfolding host_parse_frame_def by (simp add: Let_def)
qed

text \<open>One octet either completes the frame that the reference finds, or leaves the search as it is.\<close>

lemma scan_byte_finds:
  assumes "scanning data target"
  shows "(\<exists>f. scan_byte data target b = ScanDone f \<and> (\<forall>ys. find_frame (data @ b # ys) = Some f) \<and> (\<exists>p. host_parse_frame f None = Inr p)) \<or>
    (\<exists>data' target'. scan_byte data target b = ScanMore data' target' \<and> scanning data' target' \<and>
       (\<forall>ys. find_frame (data' @ ys) = find_frame (data @ b # ys)))"
proof (cases data rule: find_frame.cases)
  case 1
  then show ?thesis using assms by (auto simp: scan_byte_def scanning_def find_frame_noise)
next
  case (2 s)
  then have s: "s = HOST_START" "target = None" using assms by (simp_all add: scanning_def)
  show ?thesis
  proof (cases "unat b < 3")
    case True
    with 2 s show ?thesis by (intro disjI2 exI [of _ "[]"] exI [of _ None]) (simp add: scan_byte_def scanning_def)
  next
    case False
    with 2 s show ?thesis
      by (intro disjI2 exI [of _ "[s, b]"] exI [of _ "Some (unat b)"]) (auto simp: scan_byte_def scanning_def scan_complete_def)
  qed
next
  case (3 s n bs)
  then have st: "s = HOST_START" "3 \<le> unat n" "target = Some (unat n)" "length data < unat n" using assms by (simp_all add: scanning_def)
  show ?thesis
  proof (cases "length data + 1 = unat n")
    case True
    let ?f = "data @ [b]"
    obtain p where p: "host_parse_frame ?f None = Inr p"
      using host_frame_parses [of n ?f] True 3 st by (auto simp: nth_append)
    have "scan_byte data target b = ScanDone ?f" using True 3 st p by (simp add: scan_byte_def scan_complete_def)
    moreover have "find_frame (data @ b # ys) = Some ?f" for ys using True 3 st by (simp flip: True)
    ultimately show ?thesis using p by blast
  next
    case False
    with 3 st show ?thesis
      by (intro disjI2 exI [of _ "data @ [b]"] exI [of _ target]) (auto simp: scan_byte_def scanning_def scan_complete_def)
  qed
qed

lemma scan_chunk_finds:
  "scanning data target \<Longrightarrow>
     (case scan_chunk data target xs of
        ScanDone f \<Rightarrow> find_frame (data @ xs) = Some f \<and> (\<exists>p. host_parse_frame f None = Inr p)
      | ScanRaised e \<Rightarrow> False
      | ScanMore data' target' \<Rightarrow> scanning data' target' \<and> (\<forall>ys. find_frame (data' @ ys) = find_frame (data @ xs @ ys)))"
proof (induction xs arbitrary: data target)
  case (Cons b bs)
  from scan_byte_finds [OF Cons.prems, of b] show ?case
  proof (elim disjE exE conjE)
    fix f p
    assume "scan_byte data target b = ScanDone f" "\<forall>ys. find_frame (data @ b # ys) = Some f" "host_parse_frame f None = Inr p"
    then show ?thesis by simp
  next
    fix data' target'
    assume more: "scan_byte data target b = ScanMore data' target'" "scanning data' target'"
      "\<forall>ys. find_frame (data' @ ys) = find_frame (data @ b # ys)"
    from Cons.IH [OF more(2)] more(1,3) show ?thesis by (simp split: scan.splits)
  qed
qed simp

subsection \<open>What crosses the line\<close>

text \<open>A system that also logs what was written and what was read.\<close>

definition serial_tapped :: "'d serial_os \<Rightarrow> ('d \<times> bytes list \<times> bytes list) serial_os" where
  "serial_tapped os =
     \<lparr>so_open = (\<lambda>device (d, l). let (out, d) = so_open os device d in (out, (d, l))),
      so_configure = (\<lambda>fd (d, l). let (out, d) = so_configure os fd d in (out, (d, l))),
      so_close = (\<lambda>fd (d, l). (so_close os fd d, l)),
      so_flush_input = (\<lambda>(d, l). (so_flush_input os d, l)),
      so_write = (\<lambda>data (d, ws, rs). let (out, d) = so_write os data d
        in (out, (d, (case out of IODone n \<Rightarrow> ws @ [take n data] | _ \<Rightarrow> ws), rs))),
      so_read = (\<lambda>n (d, ws, rs). let (out, d) = so_read os n d
        in (out, (d, ws, (case out of IODone chunk \<Rightarrow> rs @ [chunk] | _ \<Rightarrow> rs)))),
      so_select_write = (\<lambda>t (d, l). (so_select_write os t d, l)),
      so_select_read = (\<lambda>t (d, l). let (ready, d) = so_select_read os t d in (ready, (d, l))),
      so_monotonic = (\<lambda>(d, l). let (now, d) = so_monotonic os d in (now, (d, l)))\<rparr>"

lemma tapped_simps:
  "so_write (serial_tapped os) data (d, ws, rs) = (case so_write os data d of (out, d) \<Rightarrow>
     (out, (d, (case out of IODone n \<Rightarrow> ws @ [take n data] | _ \<Rightarrow> ws), rs)))"
  "so_read (serial_tapped os) n (d, ws, rs) = (case so_read os n d of (out, d) \<Rightarrow>
     (out, (d, ws, (case out of IODone chunk \<Rightarrow> rs @ [chunk] | _ \<Rightarrow> rs))))"
  "so_select_write (serial_tapped os) t (d, l) = (so_select_write os t d, l)"
  "so_select_read (serial_tapped os) t (d, l) = (case so_select_read os t d of (ready, d) \<Rightarrow> (ready, (d, l)))"
  "so_monotonic (serial_tapped os) (d, l) = (case so_monotonic os d of (now, d) \<Rightarrow> (now, (d, l)))"
  "so_flush_input (serial_tapped os) (d, l) = (so_flush_input os d, l)"
  by (simp_all add: serial_tapped_def Let_def)

definition wrote :: "bytes \<Rightarrow> nat \<Rightarrow> bytes list \<Rightarrow> (serial_error, unit) result \<Rightarrow> bool" where
  "wrote data offset vs res \<longleftrightarrow>
     (case res of
        Inr _ \<Rightarrow> concat vs = drop offset data
      | Inl e \<Rightarrow> (e = WriteTimeout \<or> e = SerialOSError) \<and> prefix (concat vs) (drop offset data))"

lemma wrote_more: "wrote data (offset + n) vs res \<Longrightarrow> wrote data offset (take n (drop offset data) # vs) res"
proof -
  have split: "take n (drop offset data) @ drop (offset + n) data = drop offset data"
    by (metis add.commute append_take_drop_id drop_drop)
  assume "wrote data (offset + n) vs res"
  then show ?thesis
  proof (cases res)
    case (Inl e)
    assume "wrote data (offset + n) vs res"
    with Inl obtain zs where "drop (offset + n) data = concat vs @ zs" "e = WriteTimeout \<or> e = SerialOSError"
      by (auto simp: wrote_def prefix_def)
    with Inl split have "prefix (concat (take n (drop offset data) # vs)) (drop offset data)" by (intro prefixI [of _ _ zs]) simp
    with Inl \<open>e = WriteTimeout \<or> e = SerialOSError\<close> show ?thesis by (simp add: wrote_def)
  qed (use split in \<open>simp add: wrote_def\<close>)
qed

lemma write_loop_exact:
  assumes "serial_write_loop (serial_tapped os) deadline data offset (d, ws, rs) = Some (res, (d', ws', rs'))"
  shows "rs' = rs \<and> (\<exists>vs. ws' = ws @ vs \<and> wrote data offset vs res)"
proof -
  let ?P = "\<lambda>o' (deadline :: seconds) data offset d r. o' = serial_tapped os \<longrightarrow>
    (\<forall>d0 ws rs. d = (d0, ws, rs) \<longrightarrow> (\<exists>d1 vs. snd (r :: (serial_error, unit) result \<times> _) = (d1, ws @ vs, rs) \<and> wrote data offset vs (fst r)))"
  have "?P (serial_tapped os) deadline data offset (d, ws, rs) (res, (d', ws', rs'))"
  proof (rule serial_write_loop.raw_induct [of ?P, OF _ assms], goal_cases)
    case (1 loop o' deadline data offset d r)
    show ?case
    proof (intro impI allI)
      fix d0 ws rs
      assume o': "o' = serial_tapped os" and d: "d = (d0, ws, rs)"
      obtain now d1 where mo: "so_monotonic os d0 = (now, d1)" by (rule prod.exhaust)
      obtain out d2 where wr: "so_write os (drop offset data) d1 = (out, d2)" by (rule prod.exhaust)
      obtain r1 e1 ws1 rs1 where r: "r = (r1, e1, ws1, rs1)" by (rule prod_cases4)
      note eq = 1(2) [unfolded o' d r tapped_simps mo prod.case Let_def wr]
      have ih: "loop (serial_tapped os) deadline data offset (d0, ws, rs) = Some (r1, e1, ws1, rs1) \<Longrightarrow>
          rs1 = rs \<and> (\<exists>vs. ws1 = ws @ vs \<and> wrote data offset vs r1)" for offset d0 ws rs
        using 1(1) [of "serial_tapped os" deadline data offset "(d0, ws, rs)" "(r1, e1, ws1, rs1)"] by auto
      consider "\<not> offset < length data" | "offset < length data" "deadline \<le> now" | "offset < length data" "\<not> deadline \<le> now" by linarith
      then have "rs1 = rs \<and> (\<exists>vs. ws1 = ws @ vs \<and> wrote data offset vs r1)"
      proof cases
        case 1
        with eq show ?thesis by (auto simp: wrote_def intro!: exI [of _ "[]"])
      next
        case 2
        with eq show ?thesis by (auto simp: wrote_def intro!: exI [of _ "[]"])
      next
        case 3
        show ?thesis
        proof (cases out)
          case (IODone n)
          show ?thesis
          proof (cases "n = 0")
            case True
            with eq 3 IODone have "loop (serial_tapped os) deadline data offset
                (so_select_write os (min (1 / 20) (deadline - now)) d2, ws @ [[]], rs) = Some (r1, e1, ws1, rs1)"
              by (simp add: tapped_simps)
            from ih [OF this] obtain vs where "rs1 = rs" "ws1 = (ws @ [[]]) @ vs" "wrote data offset vs r1" by blast
            then show ?thesis by (intro conjI exI [of _ "[] # vs"]) (simp_all add: wrote_def split: sum.splits)
          next
            case False
            with eq 3 IODone have "loop (serial_tapped os) deadline data (offset + n) (d2, ws @ [take n (drop offset data)], rs) =
                Some (r1, e1, ws1, rs1)" by simp
            from ih [OF this] obtain vs where "rs1 = rs" "ws1 = (ws @ [take n (drop offset data)]) @ vs" "wrote data (offset + n) vs r1"
              by blast
            then show ?thesis
              by (intro conjI exI [of _ "take n (drop offset data) # vs"]) (simp_all add: wrote_more)
          qed
        next
          case IOBlocked
          with eq 3 have "loop (serial_tapped os) deadline data offset
              (so_select_write os (min (1 / 20) (deadline - now)) d2, ws, rs) = Some (r1, e1, ws1, rs1)" by (simp add: tapped_simps)
          from ih [OF this] show ?thesis .
        next
          case IOFailed
          with eq 3 show ?thesis by (auto simp: wrote_def intro!: exI [of _ "[]"])
        qed
      qed
      then show "\<exists>d1 vs. snd r = (d1, ws @ vs, rs) \<and> wrote data offset vs (fst r)" by (auto simp: r)
    qed
  qed
  then show ?thesis by auto
qed

definition received :: "bytes \<Rightarrow> bytes list \<Rightarrow> (serial_error, bytes) result \<Rightarrow> bool" where
  "received data cs res \<longleftrightarrow>
     (case res of
        Inr frame \<Rightarrow> find_frame (data @ concat cs) = Some frame \<and> (\<exists>p. host_parse_frame frame None = Inr p)
      | Inl (ReadTimeout _) \<Rightarrow> find_frame (data @ concat cs) = None
      | Inl e \<Rightarrow> e = SerialOSError)"

lemma received_more:
  assumes "\<And>ys. find_frame (data' @ ys) = find_frame (data @ chunk @ ys)" "received data' cs res"
  shows "received data (chunk # cs) res"
  using assms by (simp add: received_def split: sum.splits serial_error.splits)

lemma read_loop_exact:
  assumes "serial_read_loop (serial_tapped os) deadline data target (d, ws, rs) = Some (res, (d', ws', rs'))" "scanning data target"
  shows "ws' = ws \<and> (\<exists>cs. rs' = rs @ cs \<and> received data cs res)"
proof -
  let ?P = "\<lambda>o' (deadline :: seconds) data target d r. o' = serial_tapped os \<longrightarrow> scanning data target \<longrightarrow>
    (\<forall>d0 ws rs. d = (d0, ws, rs) \<longrightarrow> (\<exists>d1 cs. snd (r :: (serial_error, bytes) result \<times> _) = (d1, ws, rs @ cs) \<and> received data cs (fst r)))"
  have "?P (serial_tapped os) deadline data target (d, ws, rs) (res, (d', ws', rs'))"
  proof (rule serial_read_loop.raw_induct [of ?P, OF _ assms(1)], goal_cases)
    case (1 loop o' deadline data target d r)
    show ?case
    proof (intro impI allI)
      fix d0 ws rs
      assume o': "o' = serial_tapped os" and sc: "scanning data target" and d: "d = (d0, ws, rs)"
      obtain now d1 where mo: "so_monotonic os d0 = (now, d1)" by (rule prod.exhaust)
      obtain now2 d2 where mo2: "so_monotonic os d1 = (now2, d2)" by (rule prod.exhaust)
      obtain ready d3 where sel: "so_select_read os (min (1 / 20) (max 0 (deadline - now2))) d2 = (ready, d3)" by (rule prod.exhaust)
      obtain out d4 where rd: "so_read os 512 d3 = (out, d4)" by (rule prod.exhaust)
      obtain r1 e1 ws1 rs1 where r: "r = (r1, e1, ws1, rs1)" by (rule prod_cases4)
      note eq = 1(2) [unfolded o' d r tapped_simps mo mo2 sel rd prod.case Let_def]
      have ih: "loop (serial_tapped os) deadline data target (d0, ws, rs) = Some (r1, e1, ws1, rs1) \<Longrightarrow> scanning data target \<Longrightarrow>
          ws1 = ws \<and> (\<exists>cs. rs1 = rs @ cs \<and> received data cs r1)" for data target d0 ws rs
        using 1(1) [of "serial_tapped os" deadline data target "(d0, ws, rs)" "(r1, e1, ws1, rs1)"] by auto
      consider "\<not> now < deadline" | "now < deadline" "\<not> ready" | "now < deadline" ready by blast
      then have "ws1 = ws \<and> (\<exists>cs. rs1 = rs @ cs \<and> received data cs r1)"
      proof cases
        case 1
        with eq find_frame_scanning [OF sc] show ?thesis by (auto simp: received_def intro!: exI [of _ "[]"])
      next
        case 2
        with eq have "loop (serial_tapped os) deadline data target (d3, ws, rs) = Some (r1, e1, ws1, rs1)" by simp
        from ih [OF this sc] show ?thesis .
      next
        case 3
        show ?thesis
        proof (cases out)
          case (IODone chunk)
          note found = scan_chunk_finds [OF sc, of chunk]
          show ?thesis
          proof (cases "scan_chunk data target chunk")
            case (ScanMore data' target')
            with eq 3 IODone have "loop (serial_tapped os) deadline data' target' (d4, ws, rs @ [chunk]) = Some (r1, e1, ws1, rs1)" by simp
            from ih [OF this] found ScanMore obtain cs where cs: "ws1 = ws" "rs1 = (rs @ [chunk]) @ cs" "received data' cs r1" by auto
            from found ScanMore have "received data (chunk # cs) r1" by (intro received_more [OF _ cs(3)]) simp
            with cs show ?thesis by (intro conjI exI [of _ "chunk # cs"]) simp_all
          next
            case (ScanDone frame)
            with eq 3 IODone found show ?thesis by (auto simp: received_def intro!: exI [of _ "[chunk]"])
          qed (use found in simp)
        next
          case IOBlocked
          with eq 3 have "loop (serial_tapped os) deadline data target (d4, ws, rs) = Some (r1, e1, ws1, rs1)" by simp
          from ih [OF this sc] show ?thesis .
        next
          case IOFailed
          with eq 3 show ?thesis by (auto simp: received_def intro!: exI [of _ "[]"])
        qed
      qed
      then show "\<exists>d1 cs. snd r = (d1, ws, rs @ cs) \<and> received data cs (fst r)" by (auto simp: r)
    qed
  qed
  with assms(2) show ?thesis by auto
qed

lemma exchange_exact:
  assumes "serial_transact (serial_tapped os) thread sp request timeout (d, [], []) = Some (res, (d', written, reads))"
  shows "case res of
      Inr frame \<Rightarrow> concat written = request \<and> find_frame (concat reads) = Some frame \<and> (\<exists>p. host_parse_frame frame None = Inr p)
    | Inl e \<Rightarrow>
        (case e of
           ReadTimeout _ \<Rightarrow> concat written = request \<and> find_frame (concat reads) = None
         | WriteTimeout \<Rightarrow> prefix (concat written) request \<and> reads = []
         | SerialOSError \<Rightarrow> prefix (concat written) request
         | ResponseFrame _ \<Rightarrow> False
         | _ \<Rightarrow> d' = d \<and> written = [] \<and> reads = [])"
proof (cases "assert_owner thread sp = Inr () \<and> 0 < timeout \<and> (\<exists>f. host_parse_frame request None = Inr f)")
  case False
  with assms show ?thesis
    by (auto simp: serial_transact_def assert_owner_def split: sum.splits if_splits)
next
  case True
  let ?os = "serial_tapped os"
  obtain now d1 where mo: "so_monotonic os (so_flush_input os d) = (now, d1)" by (rule prod.exhaust)
  from True obtain f where parsed: "assert_owner thread sp = Inr ()" "0 < timeout" "host_parse_frame request None = Inr f" by blast
  obtain r1 d2 ws rs where w: "serial_write_loop ?os (now + timeout) request 0 (d1, [], []) = Some (r1, (d2, ws, rs))"
    using assms parsed by (auto simp: serial_transact_def serial_write_all_def tapped_simps mo Let_def split: option.splits)
  from write_loop_exact [OF w] have wrote: "rs = []" "wrote request 0 ws r1" by auto
  show ?thesis
  proof (cases r1)
    case (Inl e)
    with assms parsed w mo have "res = Inl e" "written = ws" "reads = []"
      using wrote(1) by (simp_all add: serial_transact_def serial_write_all_def tapped_simps)
    with wrote(2) Inl show ?thesis by (auto simp: wrote_def)
  next
    case (Inr u)
    obtain now2 d3 where mo2: "so_monotonic os d2 = (now2, d3)" by (rule prod.exhaust)
    have "serial_read_loop ?os (now2 + timeout) [] None (d3, ws, []) = Some (res, (d', written, reads))"
      using assms parsed w mo Inr wrote(1) by (simp add: serial_transact_def serial_write_all_def serial_read_frame_def tapped_simps mo2)
    from read_loop_exact [OF this] have "written = ws" "received [] reads res" by (auto simp: scanning_def)
    with wrote(2) Inr show ?thesis by (auto simp: wrote_def received_def split: sum.splits serial_error.splits)
  qed
qed

text \<open>
  C22. An exchange is exact, whatever the line does. If it returns a frame, then the octets written are exactly the request,
  the frame is the first host frame in the octets read since, however they were split, after noise and impossible lengths are skipped, and it parses. If it
  times out reading, the request was written and no such frame was read; if it times out writing or the system fails, a prefix of
  the request was written. A request that is no host frame, or a call from another thread, writes and reads
  nothing, and no response is ever refused as malformed.
\<close>

theorem serial_exchange_exact:
  assumes "serial_transact (serial_tapped os) thread sp request timeout (d, [], []) = Some (res, (d', written, reads))"
  shows "case res of
      Inr frame \<Rightarrow> concat written = request \<and> find_frame (concat reads) = Some frame \<and> (\<exists>p. host_parse_frame frame None = Inr p)
    | Inl e \<Rightarrow>
        (case e of
           ReadTimeout _ \<Rightarrow> concat written = request \<and> find_frame (concat reads) = None
         | WriteTimeout \<Rightarrow> prefix (concat written) request \<and> reads = []
         | SerialOSError \<Rightarrow> prefix (concat written) request
         | ResponseFrame _ \<Rightarrow> False
         | _ \<Rightarrow> d' = d \<and> written = [] \<and> reads = [])"
  using assms by (rule exchange_exact)

text \<open>
  The scanner resynchronises. Whatever octets without a start octet precede a host frame, and whatever follows it,
  the frame is the one that is found.
\<close>

theorem scanner_resynchronises:
  assumes "HOST_START \<notin> set noise" "host_parse_frame frame None = Inr p"
  shows "find_frame (noise @ frame @ rest) = Some frame"
  using assms(1)
proof (induction noise)
  case Nil
  from assms(2) have f: "3 \<le> length frame" "frame ! 0 = HOST_START" "3 \<le> uint (frame ! 1)" "uint (frame ! 1) = int (length frame)"
    by (auto simp: host_parse_frame_def Let_def split: if_splits)
  then obtain n c bs where frame: "frame = HOST_START # n # c # bs" using length_3_decomp by (metis nth_Cons_0)
  have "unat n = length frame" using f(4) frame by (simp add: unat_eq_nat_uint)
  with f frame show ?case by simp
next
  case (Cons b noise)
  then have "b \<noteq> HOST_START" by auto
  from find_frame_noise [OF this] Cons show ?case by simp
qed

theorem scanner_resynchronises_witness:
  "find_frame ([0x00, 0x59] @ [0xE0, 4, 0x70, 0x59] @ [0xE0]) = Some [0xE0, 4, 0x70, 0x59]"
  by (rule scanner_resynchronises [where p = "\<lparr>hf_command = 0x70, hf_payload = [0x59]\<rparr>"]) code_simp+

subsection \<open>The exchange returns\<close>

text \<open>
  What the loops rely on: a clock whose every reading takes at least a given time, and calls that take no negative time. \<open>time\<close> is
  the instant a world stands for.
\<close>

definition serial_laws :: "'d serial_os \<Rightarrow> ('d \<Rightarrow> seconds) \<Rightarrow> seconds \<Rightarrow> bool" where
  "serial_laws os time tick \<longleftrightarrow> 0 < tick \<and>
     (\<forall>d. time d \<le> fst (so_monotonic os d) \<and> time d + tick \<le> time (snd (so_monotonic os d))) \<and>
     (\<forall>data d. time d \<le> time (snd (so_write os data d))) \<and> (\<forall>n d. time d \<le> time (snd (so_read os n d))) \<and>
     (\<forall>t d. time d \<le> time (so_select_write os t d)) \<and> (\<forall>t d. time d \<le> time (snd (so_select_read os t d)))"

lemma write_loop_ends:
  assumes laws: "serial_laws os time tick"
  shows "deadline - time d < of_nat n * tick \<Longrightarrow> \<exists>r. serial_write_loop os deadline data offset d = Some r"
proof (induction n arbitrary: offset d)
  case 0
  obtain now d1 where mo: "so_monotonic os d = (now, d1)" by (rule prod.exhaust)
  have "time d \<le> now" using laws mo unfolding serial_laws_def by (metis fst_conv)
  with 0 show ?case by (subst serial_write_loop.simps) (simp add: mo)
next
  case (Suc n)
  obtain now d1 where mo: "so_monotonic os d = (now, d1)" by (rule prod.exhaust)
  obtain out d2 where wr: "so_write os (drop offset data) d1 = (out, d2)" by (rule prod.exhaust)
  let ?d3 = "so_select_write os (min (1 / 20) (deadline - now)) d2"
  have "time d + tick \<le> time d1" "time d1 \<le> time d2" "time d2 \<le> time ?d3"
    using laws mo wr unfolding serial_laws_def by (metis fst_conv snd_conv)+
  with Suc.prems have t: "deadline - time d2 < of_nat n * tick" "deadline - time ?d3 < of_nat n * tick"
    by (simp_all add: algebra_simps)
  from Suc.IH [OF t(1)] Suc.IH [OF t(2)] show ?case
    by (subst serial_write_loop.simps) (auto simp: mo wr split: io_outcome.splits)
qed

lemma read_loop_ends:
  assumes laws: "serial_laws os time tick"
  shows "deadline - time d < of_nat n * tick \<Longrightarrow> \<exists>r. serial_read_loop os deadline data target d = Some r"
proof (induction n arbitrary: data target d)
  case 0
  obtain now d1 where mo: "so_monotonic os d = (now, d1)" by (rule prod.exhaust)
  have "time d \<le> now" using laws mo unfolding serial_laws_def by (metis fst_conv)
  with 0 show ?case by (subst serial_read_loop.simps) (simp add: mo)
next
  case (Suc n)
  obtain now d1 where mo: "so_monotonic os d = (now, d1)" by (rule prod.exhaust)
  obtain now2 d2 where mo2: "so_monotonic os d1 = (now2, d2)" by (rule prod.exhaust)
  obtain ready d3 where sel: "so_select_read os (min (1 / 20) (max 0 (deadline - now2))) d2 = (ready, d3)" by (rule prod.exhaust)
  obtain out d4 where rd: "so_read os 512 d3 = (out, d4)" by (rule prod.exhaust)
  have tick: "0 < tick" using laws by (simp add: serial_laws_def)
  have "time d + tick \<le> time d1" "time d1 + tick \<le> time d2" "time d2 \<le> time d3" "time d3 \<le> time d4"
    using laws mo mo2 sel rd unfolding serial_laws_def by (metis fst_conv snd_conv)+
  with Suc.prems tick have t: "deadline - time d3 < of_nat n * tick" "deadline - time d4 < of_nat n * tick"
    by (simp_all add: algebra_simps)
  from Suc.IH [OF t(1)] Suc.IH [OF t(2)] show ?case
    by (subst serial_read_loop.simps) (auto simp: mo mo2 sel rd split: io_outcome.splits scan.splits)
qed

lemma enough_ticks: "0 < (tick :: rat) \<Longrightarrow> \<exists>n. x < of_nat n * tick"
  by (metis ex_less_of_nat_mult)

text \<open>
  C23. Every exchange returns: with a clock whose every reading takes some time, no matter what the line does, even one that delivers noise without end.
\<close>

theorem serial_exchange_returns:
  assumes "serial_laws os time tick"
  shows "\<exists>res d'. serial_transact os thread sp request timeout d = Some (res, d')"
proof -
  have tick: "0 < tick" using assms by (simp add: serial_laws_def)
  have "\<exists>r. serial_write_all os data t d = Some r" for data t d
    using enough_ticks [OF tick] write_loop_ends [OF assms] unfolding serial_write_all_def Let_def by (metis (no_types) prod.case_eq_if)
  moreover have "\<exists>r. serial_read_frame os t d = Some r" for t d
    using enough_ticks [OF tick] read_loop_ends [OF assms] unfolding serial_read_frame_def Let_def by (metis (no_types) prod.case_eq_if)
  ultimately show ?thesis
    unfolding serial_transact_def by (auto split: sum.splits option.splits) (metis option.distinct(1) prod.exhaust)+
qed

subsection \<open>A concrete line\<close>

text \<open>A line that delivers a script of reads, and a clock that advances by a hundredth of a second at each reading.\<close>

definition script_line :: "(bytes list \<times> nat) serial_os" where
  "script_line =
     \<lparr>so_open = (\<lambda>_ d. (IODone 3, d)), so_configure = (\<lambda>_ d. (IODone (), d)), so_close = (\<lambda>_ d. d), so_flush_input = (\<lambda>d. d),
      so_write = (\<lambda>data d. (IODone (min 2 (length data)), d)),
      so_read = (\<lambda>_ (reads, n). case reads of [] \<Rightarrow> (IOBlocked, ([], n)) | chunk # reads \<Rightarrow> (IODone chunk, (reads, n))),
      so_select_write = (\<lambda>_ d. d), so_select_read = (\<lambda>_ d. (True, d)),
      so_monotonic = (\<lambda>(reads, n). (of_nat n / 100, (reads, n + 1)))\<rparr>"

definition script_port :: serial_port where
  "script_port = \<lparr>sp_owner_thread_id = 7, sp_device = ''/dev/ttyAMA0'', sp_fd = 3\<rparr>"

abbreviation "script_exchange reads \<equiv> serial_transact (serial_tapped script_line) 7 script_port [0xE0, 3, 0x00] 1 ((reads, 0), [], [])"

lemma script_exchange_answered:
  "case script_exchange [[0x00, 0xE0], [0x02, 0xE0, 0x04], [0x70, 0x59, 0x11]] of
     None \<Rightarrow> False
   | Some out \<Rightarrow> out = (Inr [0xE0, 4, 0x70, 0x59], (([], 10), [[0xE0, 3], [0x00]], [[0x00, 0xE0], [0x02, 0xE0, 0x04], [0x70, 0x59, 0x11]]))"
  by code_simp

theorem serial_exchange_exact_witness:
  "\<exists>d' written reads. script_exchange [[0x00, 0xE0], [0x02, 0xE0, 0x04], [0x70, 0x59, 0x11]] = Some (Inr [0xE0, 4, 0x70, 0x59], (d', written, reads)) \<and>
     concat written = [0xE0, 3, 0x00] \<and> find_frame (concat reads) = Some [0xE0, 4, 0x70, 0x59]"
proof -
  from outcome_Some [OF script_exchange_answered] obtain d' written reads where
    out: "script_exchange [[0x00, 0xE0], [0x02, 0xE0, 0x04], [0x70, 0x59, 0x11]] = Some (Inr [0xE0, 4, 0x70, 0x59], (d', written, reads))"
    by blast
  from serial_exchange_exact [OF out] out show ?thesis by auto
qed

theorem serial_exchange_returns_witness:
  "\<exists>res d'. serial_transact script_line 7 script_port [0xE0, 3, 0x00] 1 ([], 0) = Some (res, d')"
  by (rule serial_exchange_returns [where time = "\<lambda>(reads, n). of_nat n / 100" and tick = "1 / 100"])
    (auto simp: serial_laws_def script_line_def field_simps split: list.splits prod.splits)

subsection \<open>The transport that the owner's thread opens\<close>

definition serial_exn :: "serial_error \<Rightarrow> tx_exn" where
  "serial_exn e =
     ModemFailure
       (case e of
          BaudNotSupported \<Rightarrow> ''ValueError'' | SerialTimeoutNotPositive \<Rightarrow> ''ValueError''
        | WrongThread \<Rightarrow> ''RuntimeError'' | TransportClosed \<Rightarrow> ''RuntimeError''
        | OutgoingFrame _ \<Rightarrow> ''ProtocolError'' | ResponseFrame _ \<Rightarrow> ''ProtocolError''
        | WriteTimeout \<Rightarrow> ''TimeoutError'' | ReadTimeout _ \<Rightarrow> ''TimeoutError''
        | SerialOSError \<Rightarrow> ''OSError'')"

text \<open>The state of the transport is the port, once the factory has made it; the thread is the owner's.\<close>

definition serial_transport :: "'d serial_os \<Rightarrow> string \<Rightarrow> int \<Rightarrow> (serial_port option \<times> 'd) modem_transport" where
  "serial_transport os device thread =
     \<lparr>mt_open = (\<lambda>(sp, d).
        case serial_init os device 115200 thread d of
          (Inl e, d) \<Rightarrow> (Inl (serial_exn e), (sp, d))
        | (Inr port, d) \<Rightarrow> (Inr (), (Some port, d))),
      mt_transact = (\<lambda>request timeout (sp, d).
        case sp of
          None \<Rightarrow> (Inl (ModemFailure ''RuntimeError''), (sp, d))
        | Some port \<Rightarrow>
            (case serial_transact os thread port request timeout d of
               None \<Rightarrow> (Inl DoesNotReturn, (sp, d))
             | Some (Inl e, d) \<Rightarrow> (Inl (serial_exn e), (sp, d))
             | Some (Inr frame, d) \<Rightarrow> (Inr frame, (sp, d)))),
      mt_close = (\<lambda>(sp, d).
        case sp of
          None \<Rightarrow> (Inl (ModemFailure ''RuntimeError''), (sp, d))
        | Some port \<Rightarrow>
            (case serial_close os thread port d of
               (Inl e, port, d) \<Rightarrow> (Inl (serial_exn e), (Some port, d))
             | (Inr _, port, d) \<Rightarrow> (Inr (), (Some port, d))))\<rparr>"

text \<open>
  C21. A call on an idle owner over the serial line, from thread to wire. If the call returns a value, the request of the
  operation, and nothing else, was written to the line, and the value is what the operation makes of the first
  host frame that was read.
\<close>

theorem owner_call_over_serial:
  assumes "owner_idle ow" "0 < t"
    and "owner_call product_owner_dispatch (serial_transport (serial_tapped os) device thread) op (Some t) ow (Some port, (d, [], [])) =
      (Inr v, ow', (sp', (d', written, reads)))"
  shows "\<exists>frame. op_request op = Inr (concat written) \<and> find_frame (concat reads) = Some frame \<and> op_response op frame = Inr v"
proof -
  let ?tr = "serial_transport (serial_tapped os) device thread"
  obtain r w where tx: "transaction ?tr op t (Some port, (d, [], [])) = (r, w)" by (rule prod.exhaust)
  from owner_call_idle [OF assms(1,2), of ?tr op "(Some port, (d, [], []))"] assms(3) tx
  have r: "r = Some v" and w: "w = (sp', (d', written, reads))" by (auto split: option.splits)
  from tx r obtain request where req: "op_request op = Inr request" by (auto simp: transaction_def split: sum.splits)
  from tx req r w obtain frame where ex: "serial_transact (serial_tapped os) thread port request t (d, [], []) =
      Some (Inr frame, (d', written, reads))" and resp: "op_response op frame = Inr v"
    by (auto simp: transaction_def serial_transport_def split: option.splits sum.splits prod.splits)
  from exchange_exact [OF ex] req resp show ?thesis by auto
qed

lemma script_owner_version:
  "case fst (owner_call product_owner_dispatch (serial_transport (serial_tapped script_line) ''/dev/ttyAMA0'' 7) OpGetVersion (Some 1)
      (example_owner\<lparr>ow_thread := OwnerAlive, ow_accepting := True\<rparr>) (Some script_port, (([[0xE0, 7, 0x00], [1, 0x59, 0x57, 0x44]], 0), [], []))) of
     Inl _ \<Rightarrow> False
   | Inr v \<Rightarrow> v = VVersion \<lparr>vr_protocol_version = 1, vr_identity = ''YWD''\<rparr>"
  by code_simp

theorem owner_call_over_serial_witness:
  "\<exists>written reads frame. op_request OpGetVersion = Inr (concat written) \<and> find_frame (concat (reads :: bytes list)) = Some frame \<and>
     op_response OpGetVersion frame = Inr (VVersion \<lparr>vr_protocol_version = 1, vr_identity = ''YWD''\<rparr>)"
proof -
  let ?ow = "example_owner\<lparr>ow_thread := OwnerAlive, ow_accepting := True\<rparr>"
  have idle: "owner_idle ?ow" by (simp add: owner_idle_def)
  from outcome_Inr [OF script_owner_version] obtain ow' sp' d' written reads where
    "owner_call product_owner_dispatch (serial_transport (serial_tapped script_line) ''/dev/ttyAMA0'' 7) OpGetVersion (Some 1) ?ow
      (Some script_port, (([[0xE0, 7, 0x00], [1, 0x59, 0x57, 0x44]], 0), [], [])) =
      (Inr (VVersion \<lparr>vr_protocol_version = 1, vr_identity = ''YWD''\<rparr>), ow', (sp', (d', written, reads)))"
    by (metis prod.collapse)
  from owner_call_over_serial [OF idle _ this] show ?thesis by auto
qed

end
