(* ===== verification/Tx_Broker.thy ===== *)
theory Tx_Broker
  imports Modem_Port Ax25_Codec
begin

section \<open>The transmit broker and the transmit delay\<close>

text \<open>
  \<open>src/src/ywd1278/tx/broker.py\<close> and \<open>tx/txdelay.py\<close>. A broker owns a bounded queue and one worker
  thread. The model keeps the two threads apart: \<open>broker_submit_begin\<close> is what a caller does up to
  the moment it waits, \<open>broker_worker_step\<close> is the worker serving one item, and
  \<open>broker_submit_end\<close> is the caller reading the outcome; events of callers and worker may be
  interleaved at will. \<open>broker_submit_frame\<close> is the usual course, in which the worker serves the
  queue while the caller waits. SHA-256 is an argument, \<open>sha\<close>. A queue that stays full until the
  timeout of \<open>put\<close> is a queue that is full when the event happens.

  A job carries the number of its submission; the list \<open>br_done\<close> records \<open>job.done\<close> and \<open>job.error\<close>.
  The only difference between \<open>TXBroker\<close> and \<open>TXDelayBroker\<close> is the number of opening flags, the
  field \<open>br_pre_flags\<close>.
\<close>

subsection \<open>Model: the transmit delay\<close>

datatype txdelay_error = TXDelayRange

definition KISS_TXDELAY_MIN :: int where "KISS_TXDELAY_MIN = 0"
definition KISS_TXDELAY_MAX :: int where "KISS_TXDELAY_MAX = 255"
definition KISS_TXDELAY_DEFAULT :: int where "KISS_TXDELAY_DEFAULT = 30"
definition KISS_TXDELAY_UNIT_SECONDS :: seconds where "KISS_TXDELAY_UNIT_SECONDS = 1 / 100"
definition BELL202_BAUD :: int where "BELL202_BAUD = 1200"
definition HDLC_FLAG_BITS :: int where "HDLC_FLAG_BITS = 8"

record txdelay_profile =
  tp_units :: int
  tp_requested_seconds :: seconds
  tp_pre_flags :: int
  tp_effective_seconds :: seconds
  tp_rounding_overrun_seconds :: seconds

definition resolve_txdelay :: "int \<Rightarrow> (txdelay_error, txdelay_profile) result" where
  "resolve_txdelay units =
     (if \<not> (KISS_TXDELAY_MIN \<le> units \<and> units \<le> KISS_TXDELAY_MAX) then Inl TXDelayRange
      else
        (let requested_selectors = units * 12;
             pre_flags = max 1 ((requested_selectors + HDLC_FLAG_BITS - 1) div HDLC_FLAG_BITS);
             effective_selectors = pre_flags * HDLC_FLAG_BITS;
             requested_seconds = of_int units * KISS_TXDELAY_UNIT_SECONDS;
             effective_seconds = of_int effective_selectors / of_int BELL202_BAUD
         in Inr \<lparr>tp_units = units, tp_requested_seconds = requested_seconds,
              tp_pre_flags = pre_flags, tp_effective_seconds = effective_seconds,
              tp_rounding_overrun_seconds = effective_seconds - requested_seconds\<rparr>))"

subsection \<open>Model: the broker\<close>

definition P5_PRE_FLAGS :: int where "P5_PRE_FLAGS = 45"
definition P5_POST_FLAGS :: int where "P5_POST_FLAGS = 3"
definition P5_INITIAL_TONE :: int where "P5_INITIAL_TONE = MARK"

record tx_receipt =
  tr_frame_bytes :: int
  tr_frame_sha256 :: string
  tr_selector_count :: int
  tr_packed_selector_bytes :: int
  tr_packed_selector_sha256 :: string
  tr_nominal_duration_seconds :: seconds

definition prepare_frame ::
  "(bytes \<Rightarrow> string) \<Rightarrow> int \<Rightarrow> bytes \<Rightarrow> (tx_exn, tx_receipt \<times> bytes) result" where
  "prepare_frame sha pre_flags frame =
     (if length frame < 3 \<or> \<not> verify_fcs frame then Inl TXBrokerFrameRejected
      else
        (case frame_to_selectors frame pre_flags P5_POST_FLAGS P5_INITIAL_TONE of
           Inl e \<Rightarrow> Inl (SerializerError e)
         | Inr selectors \<Rightarrow>
             (let selector_count = int (length selectors) in
              if selector_count > MAX_SELECTORS then Inl TXBrokerFrameRejected
              else
                (let packed = pack_selectors selectors in
                 Inr (\<lparr>tr_frame_bytes = int (length frame), tr_frame_sha256 = sha frame,
                   tr_selector_count = selector_count, tr_packed_selector_bytes = int (length packed),
                   tr_packed_selector_sha256 = sha packed,
                   tr_nominal_duration_seconds = duration_seconds selector_count\<rparr>, packed)))))"

record tx_job =
  jb_number :: int
  jb_receipt :: tx_receipt
  jb_packed_selectors :: bytes
  jb_transaction_timeout :: seconds

datatype broker_item = Job tx_job | StopItem

datatype broker_thread = NoThread | ThreadAlive | ThreadDead

record tx_broker =
  br_pre_flags :: int
  br_transmit_enabled :: bool
  br_queue :: "broker_item list"
  br_queue_capacity :: int
  br_submit_timeout :: seconds
  br_default_transaction_timeout :: seconds
  br_thread :: broker_thread
  br_accepting :: bool
  br_in_flight :: bool
  br_submitted :: nat
  br_accepted :: nat
  br_failed :: nat
  br_invalid_rejections :: nat
  br_queue_full_rejections :: nat
  br_busy_rejections :: nat
  br_next_job :: int
  br_done :: "(int \<times> tx_exn option) list"

datatype broker_config_error = BrokerCapacityRange | SubmitTimeoutNotPositive | DefaultTimeoutNotPositive

definition broker_init ::
  "int \<Rightarrow> bool \<Rightarrow> int \<Rightarrow> seconds \<Rightarrow> seconds \<Rightarrow> (broker_config_error, tx_broker) result" where
  "broker_init pre_flags transmit_enabled queue_capacity submit_timeout default_transaction_timeout =
     (if queue_capacity < 1 then Inl BrokerCapacityRange
      else if submit_timeout \<le> 0 then Inl SubmitTimeoutNotPositive
      else if default_transaction_timeout \<le> 0 then Inl DefaultTimeoutNotPositive
      else Inr \<lparr>br_pre_flags = pre_flags, br_transmit_enabled = transmit_enabled, br_queue = [],
        br_queue_capacity = queue_capacity, br_submit_timeout = submit_timeout,
        br_default_transaction_timeout = default_transaction_timeout, br_thread = NoThread,
        br_accepting = False, br_in_flight = False, br_submitted = 0, br_accepted = 0, br_failed = 0,
        br_invalid_rejections = 0, br_queue_full_rejections = 0, br_busy_rejections = 0,
        br_next_job = 1, br_done = []\<rparr>)"

definition broker_start :: "tx_broker \<Rightarrow> (tx_exn, unit) result \<times> tx_broker" where
  "broker_start b =
     (if br_thread b \<noteq> NoThread then
        (if br_thread b = ThreadAlive \<and> br_accepting b then (Inr (), b) else (Inl TXBrokerRestart, b))
      else (Inr (), b\<lparr>br_accepting := True, br_thread := ThreadAlive\<rparr>))"

definition broker_submit_begin ::
  "(bytes \<Rightarrow> string) \<Rightarrow> tx_broker \<Rightarrow> bytes \<Rightarrow> seconds option \<Rightarrow> (tx_exn, tx_job) result \<times> tx_broker" where
  "broker_submit_begin sha b frame timeout =
     (if \<not> br_transmit_enabled b then (Inl TXBrokerDisabled, b)
      else
        (let transaction_timeout =
           (case timeout of None \<Rightarrow> br_default_transaction_timeout b | Some t \<Rightarrow> t)
         in
         if transaction_timeout \<le> 0 then (Inl TransactionTimeoutNotPositive, b)
         else if br_thread b \<noteq> ThreadAlive \<or> \<not> br_accepting b then (Inl TXBrokerNotRunning, b)
         else
           (case prepare_frame sha (br_pre_flags b) frame of
              Inl e \<Rightarrow>
                (Inl e,
                 if e = TXBrokerFrameRejected
                 then b\<lparr>br_invalid_rejections := br_invalid_rejections b + 1\<rparr> else b)
            | Inr (receipt, packed) \<Rightarrow>
                if int (length (br_queue b)) \<ge> br_queue_capacity b then
                  (Inl TXBrokerQueueFull, b\<lparr>br_queue_full_rejections := br_queue_full_rejections b + 1\<rparr>)
                else
                  (let job = \<lparr>jb_number = br_next_job b, jb_receipt = receipt,
                       jb_packed_selectors = packed, jb_transaction_timeout = transaction_timeout\<rparr>
                   in (Inr job,
                       b\<lparr>br_queue := br_queue b @ [Job job], br_next_job := br_next_job b + 1,
                         br_submitted := br_submitted b + 1\<rparr>)))))"

text \<open>The modem transactions of one job: the preflight and the burst.\<close>

definition broker_transmit :: "'w modem_port \<Rightarrow> tx_job \<Rightarrow> ('w, unit) operation" where
  "broker_transmit owner job =
     bind_op (mp_rf_status owner (Some (jb_transaction_timeout job)))
       (\<lambda>status.
          if rf_remaining_selectors status \<noteq> 0 then (\<lambda>w. (Inl TXBrokerBusy, w))
          else mp_transmit_selector_burst owner (tr_selector_count (jb_receipt job))
            (jb_packed_selectors job) (Some (jb_transaction_timeout job)))"

text \<open>
  One iteration of \<open>_run\<close>. A busy preflight is counted when the status transaction succeeds with
  selectors pending.
\<close>

definition broker_worker_step :: "'w modem_port \<Rightarrow> tx_broker \<Rightarrow> 'w \<Rightarrow> tx_broker \<times> 'w" where
  "broker_worker_step owner b w =
     (case br_queue b of
        [] \<Rightarrow> (b, w)
      | StopItem # rest \<Rightarrow> (b\<lparr>br_queue := rest, br_thread := ThreadDead\<rparr>, w)
      | Job job # rest \<Rightarrow>
          (let b = b\<lparr>br_queue := rest\<rparr> in
           if \<not> br_accepting b then
             (b\<lparr>br_failed := br_failed b + 1, br_done := (jb_number job, Some TXBrokerNotRunning) # br_done b\<rparr>, w)
           else
             (let busy =
                (case fst (mp_rf_status owner (Some (jb_transaction_timeout job)) w) of
                   Inl _ \<Rightarrow> False
                 | Inr status \<Rightarrow> rf_remaining_selectors status \<noteq> 0);
                b = (if busy then b\<lparr>br_busy_rejections := br_busy_rejections b + 1\<rparr> else b)
              in
              case broker_transmit owner job w of
                (Inl e, w) \<Rightarrow>
                  (b\<lparr>br_failed := br_failed b + 1, br_in_flight := False,
                     br_done := (jb_number job, Some e) # br_done b\<rparr>, w)
              | (Inr _, w) \<Rightarrow>
                  (b\<lparr>br_accepted := br_accepted b + 1, br_in_flight := False,
                     br_done := (jb_number job, None) # br_done b\<rparr>, w))))"

text \<open>The worker serves what is queued, until the queue is empty or it was told to stop.\<close>

fun broker_drain :: "'w modem_port \<Rightarrow> nat \<Rightarrow> tx_broker \<Rightarrow> 'w \<Rightarrow> tx_broker \<times> 'w" where
  "broker_drain owner 0 b w = (b, w)"
| "broker_drain owner (Suc n) b w =
     (if br_queue b = [] \<or> br_thread b \<noteq> ThreadAlive then (b, w)
      else (let (b, w) = broker_worker_step owner b w in broker_drain owner n b w))"

definition is_broker_error :: "tx_exn \<Rightarrow> bool" where
  "is_broker_error e \<longleftrightarrow>
     e \<in> {TXBrokerDisabled, TXBrokerNotRunning, TXBrokerQueueFull, TXBrokerFrameRejected, TXBrokerBusy}"

definition broker_submit_end :: "tx_broker \<Rightarrow> tx_job \<Rightarrow> (tx_exn, tx_receipt) result" where
  "broker_submit_end b job =
     (case map_of (br_done b) (jb_number job) of
        None \<Rightarrow> Inl TXBrokerWaitTimeout
      | Some None \<Rightarrow> Inr (jb_receipt job)
      | Some (Some e) \<Rightarrow> if is_broker_error e then Inl e else Inl TXBrokerOperationFailed)"

definition broker_submit_frame ::
  "(bytes \<Rightarrow> string) \<Rightarrow> 'w modem_port \<Rightarrow> tx_broker \<Rightarrow> bytes \<Rightarrow> seconds option \<Rightarrow> 'w \<Rightarrow>
     (tx_exn, tx_receipt) result \<times> tx_broker \<times> 'w" where
  "broker_submit_frame sha owner b frame timeout w =
     (case broker_submit_begin sha b frame timeout of
        (Inl e, b) \<Rightarrow> (Inl e, b, w)
      | (Inr job, b) \<Rightarrow>
          (let (b, w) = broker_drain owner (length (br_queue b)) b w
           in (broker_submit_end b job, b, w)))"

text \<open>\<open>stop\<close>: refuse new work, queue the stop marker, and let the worker run into it.\<close>

definition broker_stop_request :: "seconds \<Rightarrow> tx_broker \<Rightarrow> (tx_exn, unit) result \<times> tx_broker" where
  "broker_stop_request timeout b =
     (if timeout \<le> 0 then (Inl TransactionTimeoutNotPositive, b)
      else if br_thread b \<noteq> ThreadAlive then (Inr (), b\<lparr>br_accepting := False\<rparr>)
      else
        (let b = b\<lparr>br_accepting := False\<rparr> in
         if int (length (br_queue b)) \<ge> br_queue_capacity b then (Inl TXBrokerStopTimeout, b)
         else (Inr (), b\<lparr>br_queue := br_queue b @ [StopItem]\<rparr>)))"

definition broker_stop :: "'w modem_port \<Rightarrow> seconds \<Rightarrow> tx_broker \<Rightarrow> 'w \<Rightarrow> (tx_exn, unit) result \<times> tx_broker \<times> 'w" where
  "broker_stop owner timeout b w =
     (case broker_stop_request timeout b of
        (Inl e, b) \<Rightarrow> (Inl e, b, w)
      | (Inr _, b) \<Rightarrow>
          (let (b, w) = broker_drain owner (length (br_queue b)) b w
           in (if br_thread b = ThreadAlive then Inl TXBrokerStopTimeout else Inr (), b, w)))"

subsection \<open>The delay is honoured\<close>

text \<open>
  The preamble is never shorter than the requested delay and at most one flag (8 bits at 1200
  baud) longer, and there is always at least one flag; every octet value is accepted and nothing
  else is.
\<close>

theorem resolve_txdelay_spec:
  "case resolve_txdelay units of
     Inl _ \<Rightarrow> units < 0 \<or> 255 < units
   | Inr p \<Rightarrow> 0 \<le> units \<and> units \<le> 255 \<and> 1 \<le> tp_pre_flags p \<and> tp_pre_flags p \<le> 383 \<and>
       tp_requested_seconds p \<le> tp_effective_seconds p \<and>
       tp_effective_seconds p \<le> tp_requested_seconds p + 8 / 1200 \<and>
       tp_effective_seconds p = duration_seconds (8 * tp_pre_flags p) \<and>
       tp_rounding_overrun_seconds p = tp_effective_seconds p - tp_requested_seconds p"
proof (cases "0 \<le> units \<and> units \<le> 255")
  case False
  then show ?thesis by (auto simp: resolve_txdelay_def KISS_TXDELAY_MIN_def KISS_TXDELAY_MAX_def)
next
  case True
  define n where "n = max 1 ((units * 12 + 7) div 8)"
  have n: "units * 12 \<le> 8 * n" "8 * n \<le> units * 12 + 8" "1 \<le> n" "n \<le> 383"
    using True by (auto simp: n_def max_def)
  then have "(of_int (units * 12) :: rat) \<le> of_int (8 * n)" "(of_int (8 * n) :: rat) \<le> of_int (units * 12 + 8)"
    by (simp_all only: of_int_le_iff)
  moreover have "resolve_txdelay units = Inr \<lparr>tp_units = units, tp_requested_seconds = of_int units / 100,
      tp_pre_flags = n, tp_effective_seconds = of_int (8 * n) / 1200,
      tp_rounding_overrun_seconds = of_int (8 * n) / 1200 - of_int units / 100\<rparr>"
    using True
    by (simp add: resolve_txdelay_def KISS_TXDELAY_MIN_def KISS_TXDELAY_MAX_def HDLC_FLAG_BITS_def
        BELL202_BAUD_def KISS_TXDELAY_UNIT_SECONDS_def n_def Let_def mult.commute add.commute)
  ultimately show ?thesis using n True by (simp add: duration_seconds_def)
qed

lemma resolve_txdelay_Inr:
  assumes "resolve_txdelay units = Inr p"
  shows "0 \<le> units" "units \<le> 255" "tp_units p = units" "1 \<le> tp_pre_flags p"
    "units * 12 \<le> 8 * tp_pre_flags p" "8 * tp_pre_flags p \<le> units * 12 + 8"
  using assms
  by (auto simp: resolve_txdelay_def KISS_TXDELAY_MIN_def KISS_TXDELAY_MAX_def HDLC_FLAG_BITS_def Let_def
      max_def split: if_splits)

subsection \<open>What is sent\<close>

definition burst_length :: "int \<Rightarrow> bytes \<Rightarrow> int" where
  "burst_length pre frame = 8 * pre + int (length (stuff_bits (byte_bits_lsb frame))) + 24"

lemma prepare_frame_eq:
  assumes "1 \<le> pre"
  shows "prepare_frame sha pre frame =
    (if 3 \<le> length frame \<and> verify_fcs frame \<and> burst_length pre frame \<le> 1920 then
       (let sel = nrzi_encode_loop False (flags pre @ stuff_bits (byte_bits_lsb frame) @ flags 3) in
        Inr (\<lparr>tr_frame_bytes = int (length frame), tr_frame_sha256 = sha frame,
              tr_selector_count = burst_length pre frame,
              tr_packed_selector_bytes = int (length (pack_selectors sel)),
              tr_packed_selector_sha256 = sha (pack_selectors sel),
              tr_nominal_duration_seconds = duration_seconds (burst_length pre frame)\<rparr>, pack_selectors sel))
     else Inl TXBrokerFrameRejected)"
proof (cases "3 \<le> length frame \<and> verify_fcs frame")
  case False
  then show ?thesis by (auto simp: prepare_frame_def)
next
  case True
  let ?sel = "nrzi_encode_loop False (flags pre @ stuff_bits (byte_bits_lsb frame) @ flags 3)"
  have "frame \<noteq> []" using True by auto
  then have "frame_to_selectors frame pre P5_POST_FLAGS P5_INITIAL_TONE = Inr ?sel"
    using assms by (simp add: P5_POST_FLAGS_def P5_INITIAL_TONE_def frame_to_selectors_ok)
  moreover have "int (length ?sel) = burst_length pre frame"
    using assms by (simp add: burst_length_def)
  ultimately show ?thesis using True by (simp add: prepare_frame_def MAX_SELECTORS_def Let_def)
qed

lemma burst_length_lower: "8 * pre + 8 * int (length frame) + 24 \<le> burst_length pre frame"
  using length_stuff_bits(1) [of "byte_bits_lsb frame"] by (simp add: burst_length_def)

lemma burst_length_upper: "5 * burst_length pre frame \<le> 40 * pre + 48 * int (length frame) + 120"
  using length_stuff_bits(2) [of "byte_bits_lsb frame"] by (simp add: burst_length_def)

lemma prepare_frame_carries:
  assumes "1 \<le> pre" "prepare_frame sha pre frame = Inr (receipt, packed)"
  shows "\<exists>sel body request. unpack_selectors packed (tr_selector_count receipt) = Inr sel \<and>
    nrzi_decode sel MARK = Inr (flags pre @ body @ flags 3) \<and>
    unstuff_bits body = Inr (byte_bits_lsb frame) \<and> \<not> sublist (replicate 6 True) body \<and>
    rf_tx_tones_request (tr_selector_count receipt) packed = Inr request"
proof -
  let ?body = "stuff_bits (byte_bits_lsb frame)"
  let ?sel = "nrzi_encode_loop False (flags pre @ ?body @ flags 3)"
  have len: "int (length ?sel) = burst_length pre frame" using assms(1) by (simp add: burst_length_def)
  from assms have fits: "burst_length pre frame \<le> 1920" and count: "tr_selector_count receipt = burst_length pre frame"
    and packed: "packed = pack_selectors ?sel"
    by (auto simp: prepare_frame_eq Let_def split: if_splits)
  have "unpack_selectors packed (tr_selector_count receipt) = Inr ?sel"
    unfolding packed count len [symmetric] by (rule unpack_pack_selectors)
  moreover have "nrzi_decode ?sel MARK = Inr (flags pre @ ?body @ flags 3)"
    by (simp add: nrzi_decode_def MARK_def SPACE_def nrzi_decode_encode_loop)
  moreover have "\<exists>request. rf_tx_tones_request (tr_selector_count receipt) packed = Inr request"
    using fits assms(1) unfolding packed count len [symmetric]
    by (auto simp: rf_tx_tones_request_def MAX_SELECTORS_def build_frame_Inr_iff YWD_RF_def burst_length_def
        simp flip: ex_simps)
  ultimately show ?thesis using unstuff_stuff stuff_bits_no_six_ones by blast
qed

text \<open>
  What goes on the air is the frame. The packed octets of a prepared burst unpack to tone
  selectors whose NRZI decoding opens with the requested flags and closes with three, and between
  them holds, bit-stuffed, exactly the octets of the frame, with never six ones in a row; and the
  request that carries the burst to the modem can be built.
\<close>

theorem prepared_burst_carries_frame:
  assumes "1 \<le> pre" "prepare_frame sha pre frame = Inr (receipt, packed)"
  shows "\<exists>sel body request. unpack_selectors packed (tr_selector_count receipt) = Inr sel \<and>
    nrzi_decode sel MARK = Inr (flags pre @ body @ flags 3) \<and>
    unstuff_bits body = Inr (byte_bits_lsb frame) \<and> \<not> sublist (replicate 6 True) body \<and>
    rf_tx_tones_request (tr_selector_count receipt) packed = Inr request"
  using assms by (rule prepare_frame_carries)

theorem prepared_burst_carries_frame_witness:
  "\<exists>receipt packed. prepare_frame (\<lambda>_. ''digest'') 1 [0, 0x78, 0xF0] = Inr (receipt, packed) \<and>
    (\<exists>sel body request. unpack_selectors packed (tr_selector_count receipt) = Inr sel \<and>
      nrzi_decode sel MARK = Inr (flags 1 @ body @ flags 3) \<and>
      unstuff_bits body = Inr (byte_bits_lsb [0, 0x78, 0xF0]) \<and> \<not> sublist (replicate 6 True) body \<and>
      rf_tx_tones_request (tr_selector_count receipt) packed = Inr request)"
proof -
  have "verify_fcs [0, 0x78, 0xF0]" by code_simp
  moreover have "burst_length 1 [0, 0x78, 0xF0] \<le> 1920" by code_simp
  ultimately obtain receipt packed where "prepare_frame (\<lambda>_. ''digest'') 1 [0, 0x78, 0xF0] = Inr (receipt, packed)"
    by (simp add: prepare_frame_eq Let_def)
  with prepared_burst_carries_frame [OF _ this] show ?thesis by auto
qed



subsection \<open>One submission\<close>

definition broker_ready :: "tx_broker \<Rightarrow> bool" where
  "broker_ready b \<longleftrightarrow> br_queue b = [] \<and> br_thread b = ThreadAlive \<and> br_accepting b \<and> 1 \<le> br_queue_capacity b"

text \<open>How the worker's exception reaches the caller.\<close>

definition broker_caller_error :: "tx_exn \<Rightarrow> tx_exn" where
  "broker_caller_error e = (if is_broker_error e then e else TXBrokerOperationFailed)"

lemma broker_worker_job:
  assumes "br_queue b = Job job # rest" "br_accepting b"
  shows "\<exists>b'. broker_worker_step owner b w = (b', snd (broker_transmit owner job w)) \<and>
    br_queue b' = rest \<and> br_thread b' = br_thread b \<and> br_accepting b' \<and>
    br_queue_capacity b' = br_queue_capacity b \<and> br_transmit_enabled b' = br_transmit_enabled b \<and>
    br_pre_flags b' = br_pre_flags b \<and> br_next_job b' = br_next_job b \<and>
    br_default_transaction_timeout b' = br_default_transaction_timeout b \<and>
    br_done b' = (jb_number job, case fst (broker_transmit owner job w) of Inl e \<Rightarrow> Some e | Inr _ \<Rightarrow> None) # br_done b"
  using assms
  by (cases "broker_transmit owner job w"; cases "fst (broker_transmit owner job w)")
    (auto simp: broker_worker_step_def Let_def)

lemma broker_submit_idle:
  assumes "broker_ready b" "br_transmit_enabled b" "0 < t" "prepare_frame sha (br_pre_flags b) frame = Inr (receipt, packed)"
  defines "job \<equiv> \<lparr>jb_number = br_next_job b, jb_receipt = receipt, jb_packed_selectors = packed,
    jb_transaction_timeout = t\<rparr>"
  shows "\<exists>b'. broker_submit_frame sha owner b frame (Some t) w =
      ((case fst (broker_transmit owner job w) of Inl e \<Rightarrow> Inl (broker_caller_error e) | Inr _ \<Rightarrow> Inr receipt),
       b', snd (broker_transmit owner job w)) \<and> broker_ready b' \<and> br_transmit_enabled b' \<and>
       br_pre_flags b' = br_pre_flags b"
proof -
  let ?b = "b\<lparr>br_queue := [Job job], br_next_job := br_next_job b + 1, br_submitted := br_submitted b + 1\<rparr>"
  have submitted: "broker_submit_begin sha b frame (Some t) = (Inr job, ?b)"
    using assms by (auto simp: broker_submit_begin_def broker_ready_def Let_def)
  obtain b' where step: "broker_worker_step owner ?b w = (b', snd (broker_transmit owner job w))"
    and b': "br_queue b' = []" "br_thread b' = ThreadAlive" "br_accepting b'"
      "br_queue_capacity b' = br_queue_capacity b" "br_transmit_enabled b'" "br_pre_flags b' = br_pre_flags b"
    and outcome: "br_done b' = (jb_number job, case fst (broker_transmit owner job w) of Inl e \<Rightarrow> Some e | Inr _ \<Rightarrow> None) # br_done b"
    using broker_worker_job [of ?b job "[]" owner w] assms(1,2) by (auto simp: broker_ready_def)
  have "broker_drain owner (length (br_queue ?b)) ?b w = (b', snd (broker_transmit owner job w))"
    using step assms(1) by (simp add: broker_ready_def)
  moreover have "broker_submit_end b' job =
      (case fst (broker_transmit owner job w) of Inl e \<Rightarrow> Inl (broker_caller_error e) | Inr _ \<Rightarrow> Inr receipt)"
    by (auto simp: broker_submit_end_def outcome broker_caller_error_def job_def split: sum.splits)
  ultimately show ?thesis
    using submitted b' assms(1) by (simp add: broker_submit_frame_def broker_ready_def)
qed

lemma caller_outcome:
  "(\<exists>b''. ((case fst p of Inl e \<Rightarrow> Inl (f e) | Inr _ \<Rightarrow> Inr r), b', snd p) = (Inr r, b'', w')) \<longleftrightarrow> p = (Inr (), w')"
  by (cases p; cases "fst p") auto

lemma broker_submit_refused:
  assumes "prepare_frame sha (br_pre_flags b) frame = Inl TXBrokerFrameRejected"
    "br_transmit_enabled b" "broker_ready b" "0 < t"
  shows "broker_submit_frame sha owner b frame (Some t) w =
    (Inl TXBrokerFrameRejected, b\<lparr>br_invalid_rejections := br_invalid_rejections b + 1\<rparr>, w)"
  using assms by (simp add: broker_submit_frame_def broker_submit_begin_def broker_ready_def)

text \<open>
  A receipt means one burst. On an idle broker that may transmit, the submission of a frame
  returns its receipt, leaving the modem in state \<open>w'\<close>, exactly when the modem answered one status
  request with no selectors pending and then accepted one burst of the prepared selectors, and
  nothing else was asked of it.
\<close>

theorem broker_receipt_iff_one_burst:
  assumes "broker_ready b" "br_transmit_enabled b" "0 < t"
    and "prepare_frame sha (br_pre_flags b) frame = Inr (receipt, packed)"
  shows "(\<exists>b'. broker_submit_frame sha owner b frame (Some t) w = (Inr receipt, b', w')) \<longleftrightarrow>
    (\<exists>status w1. mp_rf_status owner (Some t) w = (Inr status, w1) \<and> rf_remaining_selectors status = 0 \<and>
       mp_transmit_selector_burst owner (tr_selector_count receipt) packed (Some t) w1 = (Inr (), w'))"
proof -
  let ?job = "\<lparr>jb_number = br_next_job b, jb_receipt = receipt, jb_packed_selectors = packed, jb_transaction_timeout = t\<rparr>"
  from broker_submit_idle [OF assms, of owner w]
  obtain b' where sub: "broker_submit_frame sha owner b frame (Some t) w =
      ((case fst (broker_transmit owner ?job w) of Inl e \<Rightarrow> Inl (broker_caller_error e) | Inr _ \<Rightarrow> Inr receipt),
       b', snd (broker_transmit owner ?job w))"
    by (elim exE conjE)
  have "(\<exists>b'. broker_submit_frame sha owner b frame (Some t) w = (Inr receipt, b', w')) \<longleftrightarrow>
      broker_transmit owner ?job w = (Inr (), w')"
    unfolding sub by (rule caller_outcome)
  also have "\<dots> \<longleftrightarrow> (\<exists>status w1. mp_rf_status owner (Some t) w = (Inr status, w1) \<and> rf_remaining_selectors status = 0 \<and>
       mp_transmit_selector_burst owner (tr_selector_count receipt) packed (Some t) w1 = (Inr (), w'))"
    unfolding broker_transmit_def bind_op_Inr_iff by (auto split: if_splits)
  finally show ?thesis .
qed

subsection \<open>Callers and the worker, interleaved\<close>

datatype broker_event = BrStart | BrSubmit bytes "seconds option" | BrWorker | BrStop seconds

text \<open>Whether the worker's next iteration reaches the burst, and for which job.\<close>

definition broker_burst :: "'w modem_port \<Rightarrow> tx_broker \<Rightarrow> 'w \<Rightarrow> int list" where
  "broker_burst owner b w =
     (case br_queue b of
        Job job # _ \<Rightarrow>
          if br_accepting b \<and>
            (case fst (mp_rf_status owner (Some (jb_transaction_timeout job)) w) of
               Inl _ \<Rightarrow> False | Inr status \<Rightarrow> rf_remaining_selectors status = 0)
          then [jb_number job] else []
      | _ \<Rightarrow> [])"

definition broker_step ::
  "(bytes \<Rightarrow> string) \<Rightarrow> 'w modem_port \<Rightarrow> tx_broker \<times> 'w \<Rightarrow> broker_event \<Rightarrow> (tx_broker \<times> 'w) \<times> int list" where
  "broker_step sha owner bw ev =
     (let (b, w) = bw in
      case ev of
        BrStart \<Rightarrow> ((snd (broker_start b), w), [])
      | BrSubmit frame timeout \<Rightarrow> ((snd (broker_submit_begin sha b frame timeout), w), [])
      | BrWorker \<Rightarrow>
          if br_thread b = ThreadAlive then (broker_worker_step owner b w, broker_burst owner b w) else ((b, w), [])
      | BrStop timeout \<Rightarrow> ((snd (broker_stop_request timeout b), w), []))"

fun job_numbers :: "broker_item list \<Rightarrow> int list" where
  "job_numbers [] = []"
| "job_numbers (Job job # items) = jb_number job # job_numbers items"
| "job_numbers (StopItem # items) = job_numbers items"

lemma job_numbers_append [simp]: "job_numbers (xs @ ys) = job_numbers xs @ job_numbers ys"
  by (induction xs rule: job_numbers.induct) simp_all

lemma broker_worker_queue:
  assumes "broker_worker_step owner b w = (b', w')"
  shows "br_next_job b' = br_next_job b" "br_queue b' = tl (br_queue b)"
    "br_transmit_enabled b' = br_transmit_enabled b"
  using assms
  by (auto simp: broker_worker_step_def Let_def split: list.splits broker_item.splits prod.splits sum.splits if_splits)

lemma broker_submit_begin_queue:
  assumes "broker_submit_begin sha b frame timeout = (res, b')"
  shows "br_next_job b' = br_next_job b \<and> br_queue b' = br_queue b \<or>
    (\<exists>job. br_next_job b' = br_next_job b + 1 \<and> br_queue b' = br_queue b @ [Job job] \<and>
       jb_number job = br_next_job b \<and> br_transmit_enabled b)"
    "br_transmit_enabled b' = br_transmit_enabled b"
  using assms
  by (auto simp: broker_submit_begin_def Let_def split: prod.splits sum.splits if_splits)

interpretation broker_fifo: fifo_queue "broker_step sha owner" "\<lambda>(b, _). job_numbers (br_queue b)"
  "\<lambda>(b, _). br_next_job b"
proof (unfold_locales, goal_cases)
  case (1 bw ev bw' out)
  obtain b w where bw: "bw = (b, w)" by (cases bw)
  obtain b' w' where bw': "bw' = (b', w')" by (cases bw')
  show ?case
  proof (cases ev)
    case (BrSubmit frame timeout)
    obtain res where "broker_submit_begin sha b frame timeout = (res, b')" "out = []"
      using 1 BrSubmit by (cases "broker_submit_begin sha b frame timeout") (auto simp: broker_step_def bw bw')
    with broker_submit_begin_queue(1) show ?thesis by (fastforce simp: bw bw')
  next
    case BrWorker
    show ?thesis
    proof (cases "br_thread b = ThreadAlive")
      case True
      with 1 BrWorker have step: "broker_worker_step owner b w = (b', w')" "out = broker_burst owner b w"
        by (auto simp: broker_step_def bw bw')
      from broker_worker_queue [OF step(1)] step(2) show ?thesis
        by (cases "br_queue b") (auto simp: bw bw' broker_burst_def split: broker_item.splits)
    qed (use 1 BrWorker in \<open>auto simp: broker_step_def bw bw'\<close>)
  qed (use 1 in \<open>auto simp: broker_step_def bw bw' broker_start_def broker_stop_request_def Let_def split: if_splits\<close>)
qed

text \<open>
  No burst is repeated. Whatever the callers submit, whenever the worker runs, however the modem
  answers and whenever the broker is stopped, the jobs whose burst is put to the modem are in
  order of submission and each occurs at most once.
\<close>

theorem broker_bursts_once:
  assumes "broker_init pre enabled capacity submit_timeout default_timeout = Inr b"
    and "run_out (broker_step sha owner) (b, w) evs = (bw', bursts)"
  shows "sorted_wrt (<) bursts"
proof -
  have "broker_fifo.numbered (b, w)"
    using assms(1) by (auto simp: broker_init_def broker_fifo.numbered_def split: if_splits)
  from broker_fifo.submitted_once [OF this assms(2)] show ?thesis .
qed

text \<open>A broker without transmit authority never has work for the modem.\<close>

definition broker_inert :: "'w \<Rightarrow> tx_broker \<times> 'w \<Rightarrow> bool" where
  "broker_inert w0 bw \<longleftrightarrow>
     \<not> br_transmit_enabled (fst bw) \<and> set (br_queue (fst bw)) \<subseteq> {StopItem} \<and> snd bw = w0"

interpretation broker_disabled: invariant_machine "\<lambda>bw ev. fst (broker_step sha owner bw ev)" "broker_inert w0"
proof (unfold_locales, goal_cases)
  case (1 bw ev)
  obtain b w where bw: "bw = (b, w)" by (cases bw)
  show ?case
  proof (cases ev)
    case (BrSubmit frame timeout)
    with 1 show ?thesis by (simp add: bw broker_step_def broker_submit_begin_def broker_inert_def)
  next
    case BrWorker
    with 1 show ?thesis
      by (cases "br_queue b") (auto simp: bw broker_step_def broker_worker_step_def broker_inert_def)
  qed (use 1 in \<open>auto simp: bw broker_step_def broker_start_def broker_stop_request_def broker_inert_def Let_def\<close>)
qed

text \<open>
  C35. Transmission is fail-closed. A broker constructed without transmit authority never touches the
  modem, whatever is submitted to it and however its worker runs, and cannot be given the
  authority later.
\<close>

theorem disabled_broker_inert:
  assumes "broker_init pre False capacity submit_timeout default_timeout = Inr b"
  shows "snd (run (\<lambda>bw ev. fst (broker_step sha owner bw ev)) (b, w) evs) = w \<and>
    \<not> br_transmit_enabled (fst (run (\<lambda>bw ev. fst (broker_step sha owner bw ev)) (b, w) evs))"
proof -
  have "broker_inert w (b, w)"
    using assms by (auto simp: broker_init_def broker_inert_def split: if_splits)
  from broker_disabled.run_inv [OF this, of sha owner evs] show ?thesis by (simp add: broker_inert_def)
qed

theorem broker_receipt_iff_one_burst_witness:
  "\<exists>b receipt packed b'. broker_init 1 True 1 (1 / 20) (3 / 2) = Inr b \<and>
     prepare_frame (\<lambda>_. ''digest'') 1 [0, 0x78, 0xF0] = Inr (receipt, packed) \<and>
     broker_submit_frame (\<lambda>_. ''digest'') bench_port (snd (broker_start b)) [0, 0x78, 0xF0] (Some 1) bench_start =
       (Inr receipt, b', bench_start\<lparr>bn_sent := 1\<rparr>)"
proof -
  obtain b where b: "broker_init 1 True 1 (1 / 20) (3 / 2) = Inr b" by (simp add: broker_init_def)
  then have ready: "broker_ready (snd (broker_start b))" "br_transmit_enabled (snd (broker_start b))"
      "br_pre_flags (snd (broker_start b)) = 1"
    by (auto simp: broker_init_def broker_start_def broker_ready_def)
  have "verify_fcs [0, 0x78, 0xF0]" "burst_length 1 [0, 0x78, 0xF0] \<le> 1920" by code_simp+
  then obtain receipt packed where prep: "prepare_frame (\<lambda>_. ''digest'') 1 [0, 0x78, 0xF0] = Inr (receipt, packed)"
    by (simp add: prepare_frame_eq Let_def)
  have "\<exists>b'. broker_submit_frame (\<lambda>_. ''digest'') bench_port (snd (broker_start b)) [0, 0x78, 0xF0] (Some 1) bench_start =
       (Inr receipt, b', bench_start\<lparr>bn_sent := 1\<rparr>)"
    using ready prep by (subst broker_receipt_iff_one_burst) (auto simp: bench_port_def)
  then obtain b' where "broker_submit_frame (\<lambda>_. ''digest'') bench_port (snd (broker_start b))
      [0, 0x78, 0xF0] (Some 1) bench_start = (Inr receipt, b', bench_start\<lparr>bn_sent := 1\<rparr>)" ..
  then show ?thesis by (intro exI conjI) (rule b, rule prep)
qed

theorem broker_bursts_once_witness:
  "\<exists>b. broker_init 1 True 2 (1 / 20) (3 / 2) = Inr b \<and>
     sorted_wrt (<) (snd (run_out (broker_step (\<lambda>_. ''digest'') bench_port) (b, bench_start)
       [BrStart, BrSubmit [0, 0x78, 0xF0] None, BrSubmit [0, 0x78, 0xF0] (Some 1), BrWorker, BrStop 2, BrWorker, BrWorker]))"
proof -
  obtain b where b: "broker_init 1 True 2 (1 / 20) (3 / 2) = Inr b" by (simp add: broker_init_def)
  show ?thesis
    by (intro exI [of _ b] conjI b) (rule broker_bursts_once [OF b prod.collapse [symmetric]])
qed

theorem disabled_broker_inert_witness:
  "\<exists>b. broker_init 45 False 4 (1 / 20) (3 / 2) = Inr b \<and>
     snd (run (\<lambda>bw ev. fst (broker_step (\<lambda>_. ''digest'') bench_port bw ev)) (b, bench_start)
       [BrStart, BrSubmit [0, 0x78, 0xF0] None, BrWorker, BrWorker]) = bench_start"
proof -
  obtain b where b: "broker_init 45 False 4 (1 / 20) (3 / 2) = Inr b" by (simp add: broker_init_def)
  show ?thesis
    by (intro exI [of _ b] conjI b) (rule disabled_broker_inert [OF b, THEN conjunct1])
qed

end
