(* ===== verification/Kiss_Control.thy ===== *)
theory Kiss_Control
  imports Kiss_Server Csma Tx_Broker Access_Queue
begin

section \<open>The KISS control plane\<close>

text \<open>
  \<open>src/src/ywd1278/kiss/control.py\<close>: the parameters of the TNC, the messages that change them, and
  the context captured for one transmit request. The lock of the session makes each operation
  atomic. The text of a result is an enumeration, one constructor per message of the source.
\<close>

subsection \<open>Model\<close>

definition KISS_PORT :: int where "KISS_PORT = 0"
definition DEFAULT_SLOTTIME :: int where "DEFAULT_SLOTTIME = 10"
definition DEFAULT_FULLDUPLEX :: int where "DEFAULT_FULLDUPLEX = 0"

record tnc_parameters =
  tn_generation :: int
  tn_txdelay :: int
  tn_persist :: int
  tn_slottime :: int
  tn_fullduplex :: int
  tn_port :: int

definition default_tnc_parameters :: tnc_parameters where
  "default_tnc_parameters =
     \<lparr>tn_generation = 0, tn_txdelay = KISS_TXDELAY_DEFAULT, tn_persist = DEFAULT_PERSIST,
      tn_slottime = DEFAULT_SLOTTIME, tn_fullduplex = DEFAULT_FULLDUPLEX, tn_port = KISS_PORT\<rparr>"

datatype control_error =
    ControlTXDelay txdelay_error | ControlCSMA csma_error | ControlPort | ControlFullDuplex
  | MalformedCountNegative

definition parameters_txdelay_profile :: "tnc_parameters \<Rightarrow> (control_error, txdelay_profile) result" where
  "parameters_txdelay_profile p =
     (case resolve_txdelay (tn_txdelay p) of Inl e \<Rightarrow> Inl (ControlTXDelay e) | Inr x \<Rightarrow> Inr x)"

definition parameters_csma :: "tnc_parameters \<Rightarrow> seconds \<Rightarrow> (control_error, csma_parameters) result" where
  "parameters_csma p max_wait_seconds =
     (case csma_parameters_new (tn_persist p) (tn_slottime p) max_wait_seconds of
        Inl e \<Rightarrow> Inl (ControlCSMA e) | Inr x \<Rightarrow> Inr x)"

record tnc_context =
  tc_parameters :: tnc_parameters
  tc_txdelay_profile :: txdelay_profile
  tc_csma_parameters :: csma_parameters

record tnc_session =
  ts_parameters :: tnc_parameters
  ts_messages_received :: nat
  ts_parameter_updates :: nat
  ts_parameter_rejections :: nat
  ts_malformed_frames :: nat
  ts_unknown_commands :: nat
  ts_unsupported_ports :: nat
  ts_full_duplex_rejected :: nat
  ts_slot_time_rejected :: nat
  ts_data_tx_rejected :: nat

definition session_init :: "tnc_parameters option \<Rightarrow> (control_error, tnc_session) result" where
  "session_init parameters =
     (let initial = (case parameters of None \<Rightarrow> default_tnc_parameters | Some p \<Rightarrow> p) in
      if tn_port initial \<noteq> KISS_PORT then Inl ControlPort
      else
        try_bind (parameters_txdelay_profile initial)
          (\<lambda>_. try_bind (parameters_csma initial DEFAULT_MAX_WAIT_SECONDS)
             (\<lambda>_. if tn_fullduplex initial \<noteq> 0 then Inl ControlFullDuplex
                else Inr \<lparr>ts_parameters = initial, ts_messages_received = 0, ts_parameter_updates = 0,
                  ts_parameter_rejections = 0, ts_malformed_frames = 0, ts_unknown_commands = 0,
                  ts_unsupported_ports = 0, ts_full_duplex_rejected = 0, ts_slot_time_rejected = 0,
                  ts_data_tx_rejected = 0\<rparr>)))"

definition capture_tx_context :: "tnc_session \<Rightarrow> seconds \<Rightarrow> (control_error, tnc_context) result" where
  "capture_tx_context s max_wait_seconds =
     (let parameters = ts_parameters s in
      try_bind (parameters_txdelay_profile parameters)
        (\<lambda>profile. try_bind (parameters_csma parameters max_wait_seconds)
           (\<lambda>csma. Inr \<lparr>tc_parameters = parameters, tc_txdelay_profile = profile,
             tc_csma_parameters = csma\<rparr>)))"

definition note_malformed_stream_frames :: "tnc_session \<Rightarrow> int \<Rightarrow> (control_error, unit) result \<times> tnc_session" where
  "note_malformed_stream_frames s count =
     (if count < 0 then (Inl MalformedCountNegative, s)
      else (Inr (), s\<lparr>ts_malformed_frames := ts_malformed_frames s + nat count\<rparr>))"

datatype control_disposition =
    PARAMETER_UPDATED | DATA_REJECTED | MALFORMED | UNSUPPORTED_PORT | UNKNOWN_COMMAND | PARAMETER_REJECTED

record control_result =
  cr_disposition :: control_disposition
  cr_port :: int
  cr_command :: int
  cr_previous :: tnc_parameters
  cr_current :: tnc_parameters

definition control_result_of :: "control_disposition \<Rightarrow> kiss_message \<Rightarrow> tnc_parameters \<Rightarrow> control_result" where
  "control_result_of disposition message parameters =
     \<lparr>cr_disposition = disposition, cr_port = km_port message, cr_command = km_command message,
      cr_previous = parameters, cr_current = parameters\<rparr>"

text \<open>\<open>replace(previous, generation=..., **{field: value})\<close> and the revalidation before publishing.\<close>

definition session_replace ::
  "tnc_session \<Rightarrow> kiss_message \<Rightarrow> (tnc_parameters \<Rightarrow> tnc_parameters) \<Rightarrow> (control_error, control_result) result \<times> tnc_session" where
  "session_replace s message set_field =
     (let previous = ts_parameters s;
          current = set_field (previous\<lparr>tn_generation := tn_generation previous + 1\<rparr>)
      in
      case try_bind (parameters_txdelay_profile current) (\<lambda>_. parameters_csma current DEFAULT_MAX_WAIT_SECONDS) of
        Inl e \<Rightarrow> (Inl e, s)
      | Inr _ \<Rightarrow>
          (Inr \<lparr>cr_disposition = PARAMETER_UPDATED, cr_port = km_port message,
             cr_command = km_command message, cr_previous = previous, cr_current = current\<rparr>,
           s\<lparr>ts_parameters := current, ts_parameter_updates := ts_parameter_updates s + 1\<rparr>))"

definition session_apply ::
  "tnc_session \<Rightarrow> kiss_message \<Rightarrow> (control_error, control_result) result \<times> tnc_session" where
  "session_apply s message =
     (let s = s\<lparr>ts_messages_received := ts_messages_received s + 1\<rparr>;
          previous = ts_parameters s;
          command = km_command message
      in
      if km_port message \<noteq> KISS_PORT then
        (Inr (control_result_of UNSUPPORTED_PORT message previous),
         s\<lparr>ts_unsupported_ports := ts_unsupported_ports s + 1\<rparr>)
      else if command = KISS_DATA then
        (Inr (control_result_of DATA_REJECTED message previous),
         s\<lparr>ts_data_tx_rejected := ts_data_tx_rejected s + 1\<rparr>)
      else if command \<notin> {KISS_TXDELAY, KISS_PERSIST, KISS_SLOTTIME, KISS_FULLDUPLEX} then
        (Inr (control_result_of UNKNOWN_COMMAND message previous),
         s\<lparr>ts_unknown_commands := ts_unknown_commands s + 1\<rparr>)
      else if length (km_frame message) \<noteq> 1 then
        (Inr (control_result_of MALFORMED message previous),
         s\<lparr>ts_malformed_frames := ts_malformed_frames s + 1,
           ts_parameter_rejections := ts_parameter_rejections s + 1\<rparr>)
      else
        (let v = uint (km_frame message ! 0) in
         if command = KISS_TXDELAY then
           (case resolve_txdelay v of
              Inl e \<Rightarrow> (Inl (ControlTXDelay e), s)
            | Inr _ \<Rightarrow> session_replace s message (\<lambda>p. p\<lparr>tn_txdelay := v\<rparr>))
         else if command = KISS_PERSIST then session_replace s message (\<lambda>p. p\<lparr>tn_persist := v\<rparr>)
         else if command = KISS_SLOTTIME then
           (if v = 0 then
              (Inr (control_result_of PARAMETER_REJECTED message previous),
               s\<lparr>ts_slot_time_rejected := ts_slot_time_rejected s + 1,
                 ts_parameter_rejections := ts_parameter_rejections s + 1\<rparr>)
            else session_replace s message (\<lambda>p. p\<lparr>tn_slottime := v\<rparr>))
         else
           (if v \<noteq> 0 then
              (Inr (control_result_of PARAMETER_REJECTED message previous),
               s\<lparr>ts_full_duplex_rejected := ts_full_duplex_rejected s + 1,
                 ts_parameter_rejections := ts_parameter_rejections s + 1\<rparr>)
            else session_replace s message (\<lambda>p. p\<lparr>tn_fullduplex := v\<rparr>))))"

definition result_updated :: "control_result \<Rightarrow> bool" where
  "result_updated r \<longleftrightarrow> cr_disposition r = PARAMETER_UPDATED"

record queue_accounting =
  qa_tx_queue_depth :: nat
  qa_tx_queue_capacity :: int
  qa_tx_queue_accepted :: nat
  qa_tx_invalid_rejections :: nat
  qa_tx_queue_full_drops :: nat
  qa_tx_dispatched :: nat
  qa_tx_access_timeouts :: nat
  qa_tx_downstream_failures :: nat

definition from_access_snapshot :: "aq_snapshot \<Rightarrow> queue_accounting" where
  "from_access_snapshot s =
     \<lparr>qa_tx_queue_depth = as_queue_depth s, qa_tx_queue_capacity = as_queue_capacity s,
      qa_tx_queue_accepted = as_accepted_requests s, qa_tx_invalid_rejections = as_invalid_rejections s,
      qa_tx_queue_full_drops = as_queue_full_rejections s, qa_tx_dispatched = as_dispatched_requests s,
      qa_tx_access_timeouts = as_timed_out_requests s, qa_tx_downstream_failures = as_downstream_failures s\<rparr>"

text \<open>\<open>TNCControlBackend\<close>: the receive-only backend with a session.\<close>

record control_backend =
  cb_rx :: rx_backend
  cb_session :: tnc_session

definition control_client_message ::
  "kiss_message \<Rightarrow> control_backend \<Rightarrow> (control_error, control_result) result \<times> control_backend" where
  "control_client_message message b =
     (case session_apply (cb_session b) message of
        (Inl e, s) \<Rightarrow> (Inl e, b\<lparr>cb_session := s\<rparr>)
      | (Inr res, s) \<Rightarrow>
          (let b = b\<lparr>cb_session := s\<rparr> in
           if \<not> result_updated res then (Inr res, b\<lparr>cb_rx := reject_client_message message (cb_rx b)\<rparr>)
           else (Inr res, b)))"

subsection \<open>Sound parameters\<close>

definition parameters_ok :: "tnc_parameters \<Rightarrow> bool" where
  "parameters_ok p \<longleftrightarrow>
     0 \<le> tn_txdelay p \<and> tn_txdelay p \<le> 255 \<and> 0 \<le> tn_persist p \<and> tn_persist p \<le> 255 \<and>
     1 \<le> tn_slottime p \<and> tn_slottime p \<le> 255 \<and> tn_fullduplex p = 0 \<and> tn_port p = 0"

lemma resolve_txdelay_ok: "0 \<le> u \<Longrightarrow> u \<le> 255 \<Longrightarrow> \<exists>p. resolve_txdelay u = Inr p"
  by (simp add: resolve_txdelay_def KISS_TXDELAY_MIN_def KISS_TXDELAY_MAX_def Let_def)

lemma parameters_csma_ok:
  "parameters_ok p \<Longrightarrow> 0 < m \<Longrightarrow>
     parameters_csma p m = Inr \<lparr>cp_persist = tn_persist p, cp_slot_time_10ms = tn_slottime p, cp_max_wait_seconds = m\<rparr>"
  by (simp add: parameters_csma_def csma_parameters_new_def parameters_ok_def)

lemma parameters_txdelay_ok:
  "parameters_ok p \<Longrightarrow> \<exists>t. parameters_txdelay_profile p = Inr t \<and> resolve_txdelay (tn_txdelay p) = Inr t"
  using resolve_txdelay_ok [of "tn_txdelay p"] by (auto simp: parameters_txdelay_profile_def parameters_ok_def)

lemma parameters_csma_Inr:
  "parameters_csma p DEFAULT_MAX_WAIT_SECONDS = Inr x \<Longrightarrow>
     0 \<le> tn_persist p \<and> tn_persist p \<le> 255 \<and> 1 \<le> tn_slottime p \<and> tn_slottime p \<le> 255"
  by (auto simp: parameters_csma_def csma_parameters_new_def split: if_splits sum.splits)

lemma session_init_ok: "session_init p = Inr s \<Longrightarrow> parameters_ok (ts_parameters s)"
  by (auto simp: session_init_def Let_def try_bind_Inr_iff parameters_ok_def KISS_PORT_def
      parameters_txdelay_profile_def dest: parameters_csma_Inr resolve_txdelay_Inr split: if_splits sum.splits)

text \<open>The change a message asks for, if it is a valid parameter message.\<close>

definition parameter_update :: "kiss_message \<Rightarrow> (tnc_parameters \<Rightarrow> tnc_parameters) option" where
  "parameter_update m =
     (case km_frame m of
        [b] \<Rightarrow>
          if km_port m \<noteq> 0 then None
          else if km_command m = 1 then Some (\<lambda>p. p\<lparr>tn_txdelay := uint b\<rparr>)
          else if km_command m = 2 then Some (\<lambda>p. p\<lparr>tn_persist := uint b\<rparr>)
          else if km_command m = 3 \<and> uint b \<noteq> 0 then Some (\<lambda>p. p\<lparr>tn_slottime := uint b\<rparr>)
          else if km_command m = 5 \<and> uint b = 0 then Some (\<lambda>p. p\<lparr>tn_fullduplex := uint b\<rparr>)
          else None
      | _ \<Rightarrow> None)"

lemmas kiss_command_defs =
  KISS_PORT_def KISS_DATA_def KISS_TXDELAY_def KISS_PERSIST_def KISS_SLOTTIME_def KISS_FULLDUPLEX_def

lemma session_replace_ok:
  assumes "parameters_ok (set_field (ts_parameters s\<lparr>tn_generation := tn_generation (ts_parameters s) + 1\<rparr>))"
  shows "\<exists>r. session_replace s m set_field =
    (Inr r, s\<lparr>ts_parameters := set_field (ts_parameters s\<lparr>tn_generation := tn_generation (ts_parameters s) + 1\<rparr>),
       ts_parameter_updates := ts_parameter_updates s + 1\<rparr>) \<and> result_updated r"
proof -
  have "0 < DEFAULT_MAX_WAIT_SECONDS" by (simp add: DEFAULT_MAX_WAIT_SECONDS_def)
  with parameters_txdelay_ok [OF assms] parameters_csma_ok [OF assms] show ?thesis
    by (auto simp: session_replace_def Let_def result_updated_def)
qed

lemma parameter_update_ok:
  assumes "parameters_ok p" "parameter_update m = Some f"
  shows "parameters_ok (f (p\<lparr>tn_generation := g\<rparr>))"
proof -
  from assms(2) obtain b where b: "km_frame m = [b]" by (auto simp: parameter_update_def split: list.splits)
  have "uint b \<noteq> 0 \<Longrightarrow> 1 \<le> uint b" using uint_byte_bounds [of b] by linarith
  with assms uint_byte_bounds [of b] b show ?thesis
    by (auto simp: parameter_update_def parameters_ok_def split: if_splits)
qed

lemma session_apply_updates:
  assumes "parameters_ok (ts_parameters s)" "parameter_update m = Some f"
  shows "\<exists>r. session_apply s m = (Inr r, s\<lparr>ts_messages_received := ts_messages_received s + 1,
      ts_parameters := f (ts_parameters s\<lparr>tn_generation := tn_generation (ts_parameters s) + 1\<rparr>),
      ts_parameter_updates := ts_parameter_updates s + 1\<rparr>) \<and> result_updated r"
proof -
  let ?s = "s\<lparr>ts_messages_received := ts_messages_received s + 1\<rparr>"
  from assms(2) obtain b where b: "km_frame m = [b]" by (auto simp: parameter_update_def split: list.splits)
  have ok: "parameters_ok (f (ts_parameters ?s\<lparr>tn_generation := tn_generation (ts_parameters ?s) + 1\<rparr>))"
    using parameter_update_ok [OF assms] by simp
  have field: "session_apply s m = session_replace ?s m f"
    using assms(2) resolve_txdelay_ok [of "uint b"] uint_byte_bounds [of b] b
    by (auto simp: parameter_update_def session_apply_def kiss_command_defs Let_def session_replace_def
        split: if_splits sum.splits)
  from session_replace_ok [of f ?s m, OF ok] show ?thesis unfolding field by simp
qed

lemma session_apply_rejects:
  assumes "parameters_ok (ts_parameters s)" "parameter_update m = None"
  shows "\<exists>r s'. session_apply s m = (Inr r, s') \<and> \<not> result_updated r \<and> ts_parameters s' = ts_parameters s \<and>
    ts_messages_received s' = ts_messages_received s + 1 \<and> ts_parameter_updates s' = ts_parameter_updates s \<and>
    ts_parameter_rejections s' + ts_unknown_commands s' + ts_unsupported_ports s' + ts_data_tx_rejected s' =
      ts_parameter_rejections s + ts_unknown_commands s + ts_unsupported_ports s + ts_data_tx_rejected s + 1"
proof (cases "length (km_frame m) = 1")
  case True
  then obtain b where "km_frame m = [b]" by (auto simp: length_Suc_conv)
  with assms show ?thesis
    by (auto simp: parameter_update_def session_apply_def kiss_command_defs Let_def result_updated_def
        control_result_of_def split: if_splits)
next
  case False
  with assms show ?thesis
    by (auto simp: parameter_update_def session_apply_def kiss_command_defs Let_def result_updated_def
        control_result_of_def)
qed

text \<open>
  What a KISS message may change. For every message a sound session answers without raising and
  stays sound: a valid parameter message (port 0, one octet, TXDELAY, PERSIST, a SLOTTIME other than
  zero or a FULLDUPLEX of zero) sets exactly its field and advances the generation by one, and every
  other message leaves the parameters as they were.
\<close>

theorem session_apply_spec:
  assumes "parameters_ok (ts_parameters s)"
  shows "\<exists>r s'. session_apply s m = (Inr r, s') \<and> parameters_ok (ts_parameters s') \<and>
    (case parameter_update m of
       Some f \<Rightarrow> result_updated r \<and>
         ts_parameters s' = f (ts_parameters s\<lparr>tn_generation := tn_generation (ts_parameters s) + 1\<rparr>)
     | None \<Rightarrow> \<not> result_updated r \<and> ts_parameters s' = ts_parameters s)"
proof (cases "parameter_update m")
  case None
  with session_apply_rejects [OF assms None] assms show ?thesis by force
next
  case (Some f)
  with session_apply_updates [OF assms Some] parameter_update_ok [OF assms Some] show ?thesis by force
qed

theorem session_apply_spec_witness:
  "\<exists>s r s'. session_init None = Inr s \<and>
     session_apply s \<lparr>km_port = 0, km_command = 3, km_frame = [25]\<rparr> = (Inr r, s') \<and> parameters_ok (ts_parameters s')"
proof -
  have "case session_init None of Inl _ \<Rightarrow> False | Inr _ \<Rightarrow> True" by code_simp
  then obtain s where s: "session_init None = Inr s" by (cases "session_init None") simp_all
  from session_apply_spec [OF session_init_ok [OF s], of "\<lparr>km_port = 0, km_command = 3, km_frame = [25]\<rparr>"] s
  show ?thesis by blast
qed

text \<open>The session over a stream of messages.\<close>

definition session_step :: "tnc_session \<Rightarrow> kiss_message \<Rightarrow> tnc_session" where
  "session_step s m = snd (session_apply s m)"

definition session_books :: "tnc_session \<Rightarrow> bool" where
  "session_books s \<longleftrightarrow> parameters_ok (ts_parameters s) \<and>
     ts_messages_received s =
       ts_parameter_updates s + ts_parameter_rejections s + ts_unknown_commands s + ts_unsupported_ports s + ts_data_tx_rejected s"

interpretation session_life: invariant_machine session_step session_books
proof
  show "session_books (session_step s m)" if "session_books s" for s m
  proof (cases "parameter_update m")
    case None
    from that have "parameters_ok (ts_parameters s)" by (simp add: session_books_def)
    from session_apply_rejects [OF this None] that show ?thesis
      by (auto simp: session_step_def session_books_def)
  next
    case (Some f)
    from that have ok: "parameters_ok (ts_parameters s)" by (simp add: session_books_def)
    from session_apply_updates [OF ok Some] parameter_update_ok [OF ok Some] that show ?thesis
      by (auto simp: session_step_def session_books_def)
  qed
qed

lemma capture_ok:
  assumes "parameters_ok (ts_parameters s)" "0 < m"
  shows "\<exists>t. capture_tx_context s m = Inr \<lparr>tc_parameters = ts_parameters s, tc_txdelay_profile = t,
      tc_csma_parameters = \<lparr>cp_persist = tn_persist (ts_parameters s),
        cp_slot_time_10ms = tn_slottime (ts_parameters s), cp_max_wait_seconds = m\<rparr>\<rparr> \<and>
    resolve_txdelay (tn_txdelay (ts_parameters s)) = Inr t"
  using parameters_txdelay_ok [OF assms(1)] parameters_csma_ok [OF assms]
  by (auto simp: capture_tx_context_def Let_def)

text \<open>
  Whatever a client sends, a context can be captured and its books balance. After any stream of
  messages to a new session, the parameters are within their ranges and half duplex, every message
  was counted as an update or as one kind of refusal, and the captured context carries the current
  parameters, their delay profile and their channel-access policy.
\<close>

theorem session_always_captures:
  assumes "session_init p = Inr s" "0 < max_wait"
  shows "session_books (run session_step s messages) \<and>
    (\<exists>context. capture_tx_context (run session_step s messages) max_wait = Inr context \<and>
       tc_parameters context = ts_parameters (run session_step s messages) \<and>
       resolve_txdelay (tn_txdelay (tc_parameters context)) = Inr (tc_txdelay_profile context) \<and>
       cp_persist (tc_csma_parameters context) = tn_persist (tc_parameters context) \<and>
       cp_slot_time_10ms (tc_csma_parameters context) = tn_slottime (tc_parameters context))"
proof -
  have "session_books s"
    using assms(1) session_init_ok [OF assms(1)]
    by (auto simp: session_books_def session_init_def Let_def try_bind_Inr_iff split: if_splits)
  from session_life.run_inv [OF this] have books: "session_books (run session_step s messages)" .
  then have "parameters_ok (ts_parameters (run session_step s messages))" by (simp add: session_books_def)
  from capture_ok [OF this assms(2)] books show ?thesis by force
qed

theorem session_always_captures_witness:
  "\<exists>s. session_init None = Inr s \<and>
     session_books (run session_step s [\<lparr>km_port = 0, km_command = 1, km_frame = [255]\<rparr>, \<lparr>km_port = 3, km_command = 0, km_frame = []\<rparr>])"
proof -
  have "case session_init None of Inl _ \<Rightarrow> False | Inr _ \<Rightarrow> True" by code_simp
  then obtain s where s: "session_init None = Inr s" by (cases "session_init None") simp_all
  show ?thesis
    by (intro exI [of _ s] conjI s) (rule session_always_captures [OF s, of 1, THEN conjunct1], simp)
qed

end
