(* ===== verification/Kiss_Tx_Path.thy ===== *)
theory Kiss_Tx_Path
  imports Kiss_Control Channel_Access
begin

section \<open>The admission of KISS data\<close>

text \<open>
  \<open>src/src/ywd1278/kiss/tx_path.py\<close>: the bounded queue of KISS DATA bodies. A body is validated,
  completed with its check sequence and queued together with the context captured for it; the head
  is driven through channel access with the captured policy and handed once to a contextual
  submitter, a parameter over a world state.
\<close>

subsection \<open>Model\<close>

datatype kq_error =
    KQCapacityRange | KQRequestTimeout | KQDownstreamTimeout
  | KISSDataFrameRejected codec_error | KISSDataKeyError | KISSDataQueueFull
  | KISSDataTimeNegative | KISSDataTimeNotMonotonic
  | KQParameters csma_error | KQAccess access_error

datatype kiss_request_state = KR_QUEUED | KR_ACCESS | KR_DISPATCHED | KR_TIMED_OUT | KR_DOWNSTREAM_FAILED

datatype kq_reason =
    KQNoRequest | KQLifetimeExpired | KQPolicyTimedOut | KQRemainsGated | KQDownstreamFailed | KQDispatchedOnce

record kiss_receipt =
  kr_request_id :: int
  kr_frame_bytes_no_fcs :: nat
  kr_frame_bytes_with_fcs :: nat
  kr_parameter_generation :: int
  kr_txdelay :: int
  kr_persist :: int
  kr_slottime :: int
  kr_enqueued_at :: seconds
  kr_deadline_at :: seconds

record 'r kq_observation =
  ko_now :: seconds
  ko_request_id :: "int option"
  ko_request_state :: "kiss_request_state option"
  ko_parameter_generation :: "int option"
  ko_access :: "access_observation option"
  ko_downstream_called :: bool
  ko_downstream_result :: "'r option"
  ko_downstream_error :: "tx_exn option"
  ko_reason :: kq_reason

record kiss_request =
  kq_receipt :: kiss_receipt
  kq_frame_with_fcs :: bytes
  kq_context :: tnc_context
  kq_attempt :: "access_attempt option"

record kiss_queue =
  kq_queue_capacity :: int
  kq_request_timeout_seconds :: seconds
  kq_downstream_timeout_seconds :: seconds
  kq_queue :: "kiss_request list"
  kq_next_request_id :: int
  kq_last_now :: seconds
  kq_accepted_requests :: nat
  kq_invalid_rejections :: nat
  kq_queue_full_rejections :: nat
  kq_dispatched_requests :: nat
  kq_timed_out_requests :: nat
  kq_downstream_failures :: nat

type_synonym ('w, 'r) contextual_port = "bytes \<Rightarrow> tnc_context \<Rightarrow> seconds option \<Rightarrow> ('w, 'r) operation"

definition kq_init :: "int \<Rightarrow> seconds \<Rightarrow> seconds \<Rightarrow> (kq_error, kiss_queue) result" where
  "kq_init queue_capacity request_timeout_seconds downstream_timeout_seconds =
     (if queue_capacity < 1 then Inl KQCapacityRange
      else if request_timeout_seconds \<le> 0 then Inl KQRequestTimeout
      else if downstream_timeout_seconds \<le> 0 then Inl KQDownstreamTimeout
      else Inr \<lparr>kq_queue_capacity = queue_capacity, kq_request_timeout_seconds = request_timeout_seconds,
        kq_downstream_timeout_seconds = downstream_timeout_seconds, kq_queue = [],
        kq_next_request_id = 1, kq_last_now = 0, kq_accepted_requests = 0, kq_invalid_rejections = 0,
        kq_queue_full_rejections = 0, kq_dispatched_requests = 0, kq_timed_out_requests = 0,
        kq_downstream_failures = 0\<rparr>)"

definition kq_snapshot_of :: "kiss_queue \<Rightarrow> aq_snapshot" where
  "kq_snapshot_of q =
     \<lparr>as_queue_depth = length (kq_queue q), as_queue_capacity = kq_queue_capacity q,
      as_active_request_id =
        (case kq_queue q of
           [] \<Rightarrow> None
         | r # _ \<Rightarrow> if kq_attempt r \<noteq> None then Some (kr_request_id (kq_receipt r)) else None),
      as_next_request_id = kq_next_request_id q, as_accepted_requests = kq_accepted_requests q,
      as_invalid_rejections = kq_invalid_rejections q,
      as_queue_full_rejections = kq_queue_full_rejections q,
      as_dispatched_requests = kq_dispatched_requests q,
      as_timed_out_requests = kq_timed_out_requests q,
      as_downstream_failures = kq_downstream_failures q\<rparr>"

definition kq_accept_now :: "kiss_queue \<Rightarrow> seconds \<Rightarrow> (kq_error, seconds) result \<times> kiss_queue" where
  "kq_accept_now q now =
     (if now < 0 then (Inl KISSDataTimeNegative, q)
      else if now < kq_last_now q then (Inl KISSDataTimeNotMonotonic, q)
      else (Inr now, q\<lparr>kq_last_now := now\<rparr>))"

text \<open>
  The handler of \<open>enqueue\<close> catches \<open>TypeError\<close> and \<open>ValueError\<close>; a \<open>KeyError\<close> of the parser, which never
  happens, would pass through uncounted.
\<close>

definition kq_enqueue ::
  "kiss_queue \<Rightarrow> bytes \<Rightarrow> tnc_context \<Rightarrow> seconds \<Rightarrow> (kq_error, kiss_receipt) result \<times> kiss_queue" where
  "kq_enqueue q frame_no_fcs context now =
     (case kq_accept_now q now of
        (Inl e, q) \<Rightarrow> (Inl e, q)
      | (Inr now, q) \<Rightarrow>
          (case parse_frame frame_no_fcs False of
             Inl e \<Rightarrow>
               if e = SFrameKeyError then (Inl KISSDataKeyError, q)
               else (Inl (KISSDataFrameRejected e), q\<lparr>kq_invalid_rejections := kq_invalid_rejections q + 1\<rparr>)
           | Inr _ \<Rightarrow>
               if int (length (kq_queue q)) \<ge> kq_queue_capacity q then
                 (Inl KISSDataQueueFull, q\<lparr>kq_queue_full_rejections := kq_queue_full_rejections q + 1\<rparr>)
               else
                 (let frame_with_fcs = append_fcs frame_no_fcs;
                      receipt = \<lparr>kr_request_id = kq_next_request_id q,
                        kr_frame_bytes_no_fcs = length frame_no_fcs,
                        kr_frame_bytes_with_fcs = length frame_with_fcs,
                        kr_parameter_generation = tn_generation (tc_parameters context),
                        kr_txdelay = tn_txdelay (tc_parameters context),
                        kr_persist = tn_persist (tc_parameters context),
                        kr_slottime = tn_slottime (tc_parameters context),
                        kr_enqueued_at = now, kr_deadline_at = now + kq_request_timeout_seconds q\<rparr>;
                      request = \<lparr>kq_receipt = receipt, kq_frame_with_fcs = frame_with_fcs,
                        kq_context = context, kq_attempt = None\<rparr>
                  in (Inr receipt,
                      q\<lparr>kq_next_request_id := kq_next_request_id q + 1, kq_queue := kq_queue q @ [request],
                        kq_accepted_requests := kq_accepted_requests q + 1\<rparr>))))"

definition kq_observation_of ::
  "seconds \<Rightarrow> kiss_request \<Rightarrow> kiss_request_state \<Rightarrow> access_observation option \<Rightarrow> bool \<Rightarrow> 'r option \<Rightarrow>
     tx_exn option \<Rightarrow> kq_reason \<Rightarrow> 'r kq_observation" where
  "kq_observation_of now request state access called res err reason =
     \<lparr>ko_now = now, ko_request_id = Some (kr_request_id (kq_receipt request)),
      ko_request_state = Some state,
      ko_parameter_generation = Some (kr_parameter_generation (kq_receipt request)),
      ko_access = access, ko_downstream_called = called,
      ko_downstream_result = res, ko_downstream_error = err, ko_reason = reason\<rparr>"

text \<open>The attempt of the head request, with the captured policy and what is left of its lifetime.\<close>

definition kq_head_attempt :: "kiss_request \<Rightarrow> seconds \<Rightarrow> (kq_error, access_attempt) result" where
  "kq_head_attempt request now =
     (case kq_attempt request of
        Some attempt \<Rightarrow> Inr attempt
      | None \<Rightarrow>
          (let remaining = kr_deadline_at (kq_receipt request) - now;
               captured = tc_csma_parameters (kq_context request)
           in
           case csma_parameters_new (cp_persist captured) (cp_slot_time_10ms captured)
               (min (cp_max_wait_seconds captured) remaining) of
             Inl e \<Rightarrow> Inl (KQParameters e)
           | Inr parameters \<Rightarrow>
               (case attempt_init now (Some parameters) of
                  Inl e \<Rightarrow> Inl (KQAccess e)
                | Inr attempt \<Rightarrow> Inr attempt)))"

definition kq_observe_rssi ::
  "('w, 'r) contextual_port \<Rightarrow> kiss_queue \<Rightarrow> seconds \<Rightarrow> int \<Rightarrow> 'w random_source option \<Rightarrow> 'w \<Rightarrow>
     (kq_error, 'r kq_observation) result \<times> kiss_queue \<times> 'w" where
  "kq_observe_rssi submit q now raw_magnitude random_byte_source w =
     (case kq_accept_now q now of
        (Inl e, q) \<Rightarrow> (Inl e, q, w)
      | (Inr now, q) \<Rightarrow>
          (case kq_queue q of
             [] \<Rightarrow>
               (Inr \<lparr>ko_now = now, ko_request_id = None, ko_request_state = None,
                  ko_parameter_generation = None, ko_access = None,
                  ko_downstream_called = False, ko_downstream_result = None,
                  ko_downstream_error = None, ko_reason = KQNoRequest\<rparr>, q, w)
           | request # rest \<Rightarrow>
               if now \<ge> kr_deadline_at (kq_receipt request) then
                 (Inr (kq_observation_of now request KR_TIMED_OUT None False None None KQLifetimeExpired),
                  q\<lparr>kq_queue := rest, kq_timed_out_requests := kq_timed_out_requests q + 1\<rparr>, w)
               else
                 (case kq_head_attempt request now of
                    Inl e \<Rightarrow> (Inl e, q, w)
                  | Inr attempt \<Rightarrow>
                      (case attempt_observe_rssi attempt now raw_magnitude random_byte_source w of
                         (Inl e, attempt, w) \<Rightarrow>
                           (Inl (KQAccess e), q\<lparr>kq_queue := request\<lparr>kq_attempt := Some attempt\<rparr> # rest\<rparr>, w)
                       | (Inr access, attempt, w) \<Rightarrow>
                           if cd_state (ao_csma access) = TIMED_OUT then
                             (Inr (kq_observation_of now request KR_TIMED_OUT (Some access) False None None
                                KQPolicyTimedOut),
                              q\<lparr>kq_queue := rest, kq_timed_out_requests := kq_timed_out_requests q + 1\<rparr>, w)
                           else if cd_state (ao_csma access) \<noteq> READY then
                             (Inr (kq_observation_of now request KR_ACCESS (Some access) False None None
                                KQRemainsGated),
                              q\<lparr>kq_queue := request\<lparr>kq_attempt := Some attempt\<rparr> # rest\<rparr>, w)
                           else
                             (case submit (kq_frame_with_fcs request) (kq_context request)
                                 (Some (kq_downstream_timeout_seconds q)) w of
                                (Inl exc, w) \<Rightarrow>
                                  (Inr (kq_observation_of now request KR_DOWNSTREAM_FAILED (Some access)
                                     True None (Some exc) KQDownstreamFailed),
                                   q\<lparr>kq_queue := rest,
                                     kq_downstream_failures := kq_downstream_failures q + 1\<rparr>, w)
                              | (Inr res, w) \<Rightarrow>
                                  (Inr (kq_observation_of now request KR_DISPATCHED (Some access) True
                                     (Some res) None KQDispatchedOnce),
                                   q\<lparr>kq_queue := rest,
                                     kq_dispatched_requests := kq_dispatched_requests q + 1\<rparr>, w))))))"

subsection \<open>Runs of the queue\<close>

datatype kq_event = KqEnqueue bytes tnc_context seconds | KqObserve seconds int

text \<open>One call on the queue, with the numbers of the requests it hands downstream.\<close>

definition kq_handed :: "(kq_error, 'r kq_observation) result \<Rightarrow> int list" where
  "kq_handed outcome =
     (case outcome of
        Inl _ \<Rightarrow> []
      | Inr ob \<Rightarrow> if ko_downstream_called ob then [the (ko_request_id ob)] else [])"

definition kq_step ::
  "('w, 'r) contextual_port \<Rightarrow> 'w random_source option \<Rightarrow> kiss_queue \<times> 'w \<Rightarrow> kq_event \<Rightarrow> (kiss_queue \<times> 'w) \<times> int list" where
  "kq_step submit src qw ev =
     (case ev of
        KqEnqueue frame ctx now \<Rightarrow> ((snd (kq_enqueue (fst qw) frame ctx now), snd qw), [])
      | KqObserve now raw \<Rightarrow>
          (let (outcome, q', w') = kq_observe_rssi submit (fst qw) now raw src (snd qw)
           in ((q', w'), kq_handed outcome)))"

abbreviation "kq_ids q \<equiv> map (\<lambda>r. kr_request_id (kq_receipt r)) (kq_queue q)"

lemma kq_accept_now_cases:
  obtains (err) e where "kq_accept_now q now = (Inl e, q)"
  | (ok) "kq_accept_now q now = (Inr now, q\<lparr>kq_last_now := now\<rparr>)" "0 \<le> now" "kq_last_now q \<le> now"
proof (cases "0 \<le> now \<and> kq_last_now q \<le> now")
  case True
  then show thesis by (intro ok) (auto simp: kq_accept_now_def)
next
  case False
  then show thesis
    by (intro err [of "if now < 0 then KISSDataTimeNegative else KISSDataTimeNotMonotonic"])
      (auto simp: kq_accept_now_def)
qed

text \<open>What an observation does to the queue, by cases on how it ends.\<close>

lemma kq_observe_cases:
  assumes "kq_observe_rssi submit q now raw src w = (outcome, q', w')"
  obtains (keep) "kq_ids q' = kq_ids q" "kq_handed outcome = []"
      "kq_dispatched_requests q' = kq_dispatched_requests q" "kq_timed_out_requests q' = kq_timed_out_requests q"
      "kq_downstream_failures q' = kq_downstream_failures q"
  | (expire) r rest where "kq_queue q = r # rest" "kq_queue q' = rest" "kq_handed outcome = []"
      "kq_dispatched_requests q' = kq_dispatched_requests q" "kq_timed_out_requests q' = kq_timed_out_requests q + 1"
      "kq_downstream_failures q' = kq_downstream_failures q"
  | (hand) r rest where "kq_queue q = r # rest" "kq_queue q' = rest" "kq_handed outcome = [kr_request_id (kq_receipt r)]"
      "kq_timed_out_requests q' = kq_timed_out_requests q"
      "kq_dispatched_requests q' + kq_downstream_failures q' = kq_dispatched_requests q + kq_downstream_failures q + 1"
proof (cases rule: kq_accept_now_cases [of q now])
  case (err e)
  with assms show thesis by (intro keep) (auto simp: kq_observe_rssi_def kq_handed_def)
next
  case ok
  show thesis
  proof (cases "kq_queue q")
    case Nil
    with assms ok show thesis by (intro keep) (auto simp: kq_observe_rssi_def kq_handed_def)
  next
    case (Cons r rest)
    note def = kq_observe_rssi_def kq_handed_def kq_observation_of_def
    show thesis
    proof (cases "kr_deadline_at (kq_receipt r) \<le> now")
      case True
      with assms ok Cons show thesis by (intro expire [of r rest]) (auto simp: def)
    next
      case alive: False
      show thesis
      proof (cases "kq_head_attempt r now")
        case (Inl e)
        with assms ok Cons alive show thesis by (intro keep) (auto simp: def)
      next
        case (Inr a)
        obtain res a' w1 where obs: "attempt_observe_rssi a now raw src w = (res, a', w1)"
          by (metis prod_cases3)
        show thesis
        proof (cases res)
          case (Inl e)
          with assms ok Cons alive Inr obs show thesis by (intro keep) (auto simp: def)
        next
          case res: (Inr access)
          note facts = assms ok Cons alive Inr obs res
          show thesis
          proof (cases "cd_state (ao_csma access)")
            case TIMED_OUT
            with facts show thesis by (intro expire [of r rest]) (auto simp: def)
          next
            case READY
            with facts show thesis
              by (intro hand [of r rest]) (auto simp: def split: prod.splits sum.splits)
          qed (use facts in \<open>auto simp: def intro!: keep\<close>)+
        qed
      qed
    qed
  qed
qed

lemma kq_observe_frame:
  assumes "kq_observe_rssi submit q now raw src w = (outcome, q', w')"
  shows "kq_next_request_id q' = kq_next_request_id q" "kq_queue_capacity q' = kq_queue_capacity q"
    "kq_accepted_requests q' = kq_accepted_requests q"
  using assms
  by (auto simp: kq_observe_rssi_def kq_accept_now_def split: if_splits list.splits sum.splits prod.splits)

lemma kq_enqueue_cases:
  assumes "kq_enqueue q frame ctx now = (outcome, q')"
  obtains (refuse) e where "outcome = Inl e" "kq_queue q' = kq_queue q"
      "kq_next_request_id q' = kq_next_request_id q" "kq_accepted_requests q' = kq_accepted_requests q"
  | (admit) r parsed where "kq_queue q' = kq_queue q @ [r]" "kr_request_id (kq_receipt r) = kq_next_request_id q"
      "kq_frame_with_fcs r = append_fcs frame" "kq_context r = ctx" "kq_attempt r = None" "outcome = Inr (kq_receipt r)"
      "kr_txdelay (kq_receipt r) = tn_txdelay (tc_parameters ctx)"
      "kq_next_request_id q' = kq_next_request_id q + 1" "kq_accepted_requests q' = kq_accepted_requests q + 1"
      "int (length (kq_queue q)) < kq_queue_capacity q" "parse_frame frame False = Inr parsed"
proof (cases rule: kq_accept_now_cases [of q now])
  case (err e)
  with assms show thesis by (intro refuse) (auto simp: kq_enqueue_def)
next
  case ok
  show thesis
  proof (cases "parse_frame frame False")
    case (Inl e)
    with ok assms show thesis by (cases outcome) (auto simp: kq_enqueue_def split: if_splits intro: refuse)
  next
    case (Inr parsed)
    show thesis
    proof (cases "kq_queue_capacity q \<le> int (length (kq_queue q))")
      case True
      with ok assms Inr show thesis by (cases outcome) (auto simp: kq_enqueue_def intro: refuse)
    next
      case False
      with ok assms Inr show thesis by (auto simp: kq_enqueue_def Let_def intro: admit)
    qed
  qed
qed

lemma kq_enqueue_frame:
  assumes "kq_enqueue q frame ctx now = (outcome, q')"
  shows "kq_queue_capacity q' = kq_queue_capacity q" "kq_dispatched_requests q' = kq_dispatched_requests q"
    "kq_timed_out_requests q' = kq_timed_out_requests q" "kq_downstream_failures q' = kq_downstream_failures q"
  using assms by (auto simp: kq_enqueue_def kq_accept_now_def Let_def split: if_splits sum.splits)

interpretation kq_fifo: fifo_queue "kq_step submit src" "\<lambda>(q, _). kq_ids q" "\<lambda>(q, _). kq_next_request_id q"
proof (unfold_locales, goal_cases)
  case (1 qw ev qw' out)
  obtain q w where qw: "qw = (q, w)" by (cases qw)
  obtain q' w' where qw': "qw' = (q', w')" by (cases qw')
  show ?case
  proof (cases ev)
    case (KqEnqueue frame ctx now)
    obtain res where enq: "kq_enqueue q frame ctx now = (res, q')"
      using 1 qw qw' KqEnqueue by (cases "kq_enqueue q frame ctx now") (auto simp: kq_step_def)
    from 1 qw KqEnqueue have out: "out = []" by (auto simp: kq_step_def)
    from enq show ?thesis by (cases rule: kq_enqueue_cases) (auto simp: qw qw' out)
  next
    case (KqObserve now raw)
    with 1 qw qw' obtain res where obs: "kq_observe_rssi submit q now raw src w = (res, q', w')" "out = kq_handed res"
      by (auto simp: kq_step_def split: prod.splits)
    from obs(1) show ?thesis
      using kq_observe_frame(1) [OF obs(1)] by (cases rule: kq_observe_cases) (auto simp: qw qw' obs(2))
  qed
qed

interpretation kq_books: accounted_queue "\<lambda>qw ev. fst (kq_step submit src qw ev)"
  "\<lambda>(q, _). length (kq_queue q)" "\<lambda>(q, _). kq_queue_capacity q" "\<lambda>(q, _). kq_accepted_requests q"
  "\<lambda>(q, _). kq_dispatched_requests q + kq_timed_out_requests q + kq_downstream_failures q"
proof (unfold_locales, goal_cases)
  case (1 qw ev)
  have "kq_queue_capacity (snd (kq_enqueue q frame ctx now)) = kq_queue_capacity q" for q frame ctx now
    using kq_enqueue_frame(1) by (metis surjective_pairing)
  then show ?case
    by (cases qw; cases ev) (auto simp: kq_step_def Let_def kq_observe_frame split: prod.splits)
next
  case (2 qw ev)
  obtain q w where qw: "qw = (q, w)" by (cases qw)
  show ?case
  proof (cases ev)
    case (KqEnqueue frame ctx now)
    obtain res q' where enq: "kq_enqueue q frame ctx now = (res, q')" by fastforce
    from enq show ?thesis using 2 by (cases rule: kq_enqueue_cases) (auto simp: qw KqEnqueue kq_step_def enq)
  next
    case (KqObserve now raw)
    obtain res q' w' where obs: "kq_observe_rssi submit q now raw src w = (res, q', w')" by (metis prod_cases3)
    have "length (kq_queue q') \<le> length (kq_queue q)"
      using obs by (cases rule: kq_observe_cases) (auto dest: map_eq_imp_length_eq)
    then show ?thesis using 2 by (simp add: qw KqObserve kq_step_def obs)
  qed
next
  case (3 qw ev)
  obtain q w where qw: "qw = (q, w)" by (cases qw)
  show ?case
  proof (cases ev)
    case (KqEnqueue frame ctx now)
    obtain res q' where enq: "kq_enqueue q frame ctx now = (res, q')" by fastforce
    from enq show ?thesis
      using 3 kq_enqueue_frame [OF enq] by (cases rule: kq_enqueue_cases) (auto simp: qw KqEnqueue kq_step_def enq)
  next
    case (KqObserve now raw)
    obtain res q' w' where obs: "kq_observe_rssi submit q now raw src w = (res, q', w')" by (metis prod_cases3)
    from obs have "length (kq_queue q') + (kq_dispatched_requests q' + kq_timed_out_requests q' + kq_downstream_failures q') =
        length (kq_queue q) + (kq_dispatched_requests q + kq_timed_out_requests q + kq_downstream_failures q)"
      by (cases rule: kq_observe_cases) (auto dest: map_eq_imp_length_eq)
    then show ?thesis using 3 kq_observe_frame(3) [OF obs] by (simp add: qw KqObserve kq_step_def obs)
  qed
qed


text \<open>
  C38. The queue of KISS frames is bounded and its books balance: after any sequence of calls it holds
  at most its capacity, and what the operator sees as accepted is what is queued, dispatched, timed
  out, or failed downstream.
\<close>

theorem kiss_data_bounded_books:
  assumes "kq_init capacity request_timeout downstream_timeout = Inr q"
    and "(q', w') = run (\<lambda>qw ev. fst (kq_step submit src qw ev)) (q, w) evs"
  shows "int (qa_tx_queue_depth (from_access_snapshot (kq_snapshot_of q'))) \<le> capacity \<and>
    qa_tx_queue_accepted (from_access_snapshot (kq_snapshot_of q')) =
      qa_tx_queue_depth (from_access_snapshot (kq_snapshot_of q')) +
      qa_tx_dispatched (from_access_snapshot (kq_snapshot_of q')) +
      qa_tx_access_timeouts (from_access_snapshot (kq_snapshot_of q')) +
      qa_tx_downstream_failures (from_access_snapshot (kq_snapshot_of q'))"
proof -
  have "kq_books.balanced (q, w)" "kq_queue_capacity q = capacity"
    using assms(1) by (auto simp: kq_init_def kq_books.balanced_def split: if_splits)
  with kq_books.balanced_run [of "(q, w)" submit src evs] show ?thesis
    unfolding assms(2) [symmetric]
    by (simp add: kq_books.balanced_def kq_snapshot_of_def from_access_snapshot_def)
qed

subsection \<open>Listen before talk\<close>

text \<open>A sequence of calls up to the first observation that raises, and the samples it feeds.\<close>

fun kq_play ::
  "('w, 'r) contextual_port \<Rightarrow> 'w random_source option \<Rightarrow> kiss_queue \<Rightarrow> kq_event list \<Rightarrow> 'w \<Rightarrow> (kq_error, kiss_queue) result \<times> 'w" where
  "kq_play submit src q [] w = (Inr q, w)"
| "kq_play submit src q (KqEnqueue frame ctx now # evs) w = kq_play submit src (snd (kq_enqueue q frame ctx now)) evs w"
| "kq_play submit src q (KqObserve now raw # evs) w =
     (case kq_observe_rssi submit q now raw src w of
        (Inl e, q, w) \<Rightarrow> (Inl e, w)
      | (Inr _, q, w) \<Rightarrow> kq_play submit src q evs w)"

fun samples_of :: "kq_event list \<Rightarrow> rssi_sample list" where
  "samples_of [] = []"
| "samples_of (KqEnqueue _ _ _ # evs) = samples_of evs"
| "samples_of (KqObserve now raw # evs) = (now, raw) # samples_of evs"

text \<open>The policy of an attempt is the captured one, within the lifetime of the request.\<close>

definition captured_policy :: "kiss_request \<Rightarrow> csma_parameters \<Rightarrow> seconds \<Rightarrow> bool" where
  "captured_policy r p t0 \<longleftrightarrow>
     cp_persist p = cp_persist (tc_csma_parameters (kq_context r)) \<and>
     cp_slot_time_10ms p = cp_slot_time_10ms (tc_csma_parameters (kq_context r)) \<and>
     t0 + cp_max_wait_seconds p \<le> kr_deadline_at (kq_receipt r)"

definition request_traced :: "rssi_sample list \<Rightarrow> kiss_request \<Rightarrow> access_attempt \<Rightarrow> bool" where
  "request_traced samples r a \<longleftrightarrow>
     (\<exists>p t0 hist. suffix hist samples \<and> attempt_traced p t0 hist a \<and> captured_policy r p t0)"

definition kq_traced :: "rssi_sample list \<Rightarrow> kiss_queue \<Rightarrow> bool" where
  "kq_traced samples q \<longleftrightarrow>
     (case kq_queue q of
        [] \<Rightarrow> True
      | r # rest \<Rightarrow>
          (\<forall>x \<in> set rest. kq_attempt x = None) \<and>
          (case kq_attempt r of None \<Rightarrow> True | Some a \<Rightarrow> request_traced samples r a))"

lemma kq_head_attempt_traced:
  assumes "kq_head_attempt r now = Inr a" "\<And>a. kq_attempt r = Some a \<Longrightarrow> request_traced samples r a"
  shows "request_traced samples r a"
proof (cases "kq_attempt r")
  case (Some b)
  with assms show ?thesis by (simp add: kq_head_attempt_def)
next
  case None
  then obtain p where p: "csma_parameters_new (cp_persist (tc_csma_parameters (kq_context r)))
      (cp_slot_time_10ms (tc_csma_parameters (kq_context r)))
      (min (cp_max_wait_seconds (tc_csma_parameters (kq_context r))) (kr_deadline_at (kq_receipt r) - now)) = Inr p"
    and a: "attempt_init now (Some p) = Inr a"
    using assms(1) by (auto simp: kq_head_attempt_def Let_def split: sum.splits)
  have "captured_policy r p now"
    using p by (auto simp: captured_policy_def csma_parameters_new_def split: if_splits)
  with attempt_traced_init [OF a] show ?thesis
    unfolding request_traced_def by (intro exI [of _ p] exI [of _ now] exI [of _ "[]"]) simp
qed

lemma request_traced_step:
  assumes "request_traced samples r a" "attempt_observe_rssi a now raw src w = (Inr ob, a', w')"
  shows "request_traced (samples @ [(now, raw)]) r a'"
proof -
  obtain p t0 hist where "suffix hist samples" "attempt_traced p t0 hist a" "captured_policy r p t0"
    using assms(1) unfolding request_traced_def by blast
  with attempt_traced_step [OF this(2) assms(2)] show ?thesis
    unfolding request_traced_def
    by (intro exI [of _ p] exI [of _ t0] exI [of _ "hist @ [(now, raw)]"]) simp
qed

text \<open>A head that is being observed: its attempt before and after the sample.\<close>

lemma kq_observe_head:
  assumes "kq_observe_rssi submit q now raw src w = (Inr ob, q', w')" "kq_queue q = r # rest"
    and "ko_downstream_called ob \<or> kq_queue q' = r' # rest"
  obtains a access a' w1 where "kq_head_attempt r now = Inr a"
    "attempt_observe_rssi a now raw src w = (Inr access, a', w1)" "now < kr_deadline_at (kq_receipt r)"
    "ko_downstream_called ob \<Longrightarrow> cd_state (ao_csma access) = READY"
    "ko_downstream_called ob \<or> r' = r\<lparr>kq_attempt := Some a'\<rparr>"
    "ko_downstream_called ob \<Longrightarrow> ko_downstream_result ob \<noteq> None \<Longrightarrow>
       \<exists>res. submit (kq_frame_with_fcs r) (kq_context r) (Some (kq_downstream_timeout_seconds q)) w1 = (Inr res, w')
         \<and> ko_downstream_result ob = Some res"
proof -
  have acc: "kq_accept_now q now = (Inr now, q\<lparr>kq_last_now := now\<rparr>)"
    using assms(1) by (cases rule: kq_accept_now_cases [of q now]) (auto simp: kq_observe_rssi_def)
  have alive: "now < kr_deadline_at (kq_receipt r)"
  proof (rule ccontr)
    assume "\<not> ?thesis"
    with assms acc show False by (auto simp: kq_observe_rssi_def kq_observation_of_def)
  qed
  obtain a where a: "kq_head_attempt r now = Inr a"
    using assms(1,2) acc alive by (auto simp: kq_observe_rssi_def split: sum.splits)
  obtain access a' w1 where obs: "attempt_observe_rssi a now raw src w = (Inr access, a', w1)"
    using assms(1,2) acc alive a by (auto simp: kq_observe_rssi_def split: sum.splits prod.splits)
  note facts = assms acc alive a obs
  have rest: "kq_queue q' = rest \<Longrightarrow> ko_downstream_called ob" using assms(3) by auto
  show thesis
  proof (cases "cd_state (ao_csma access)")
    case READY
    with facts show thesis
      by (intro that [OF a obs alive])
        (auto simp: kq_observe_rssi_def kq_observation_of_def split: sum.splits prod.splits)
  next
    case TIMED_OUT
    with facts rest show thesis by (auto simp: kq_observe_rssi_def kq_observation_of_def)
  qed (use facts in \<open>auto simp: kq_observe_rssi_def kq_observation_of_def intro!: that [OF a obs alive]\<close>)+
qed

lemma kq_observe_queue:
  assumes "kq_observe_rssi submit q now raw src w = (Inr ob, q', w')"
  shows "kq_queue q' = tl (kq_queue q) \<or>
    (\<exists>r rest a. kq_queue q = r # rest \<and> kq_queue q' = r\<lparr>kq_attempt := Some a\<rparr> # rest)"
  using assms
  by (cases rule: kq_accept_now_cases [of q now])
    (auto simp: kq_observe_rssi_def split: list.splits if_splits sum.splits prod.splits)

lemma kq_observe_traced:
  assumes "kq_traced samples q" "kq_observe_rssi submit q now raw src w = (Inr ob, q', w')"
  shows "kq_traced (samples @ [(now, raw)]) q'"
  using kq_observe_queue [OF assms(2)]
proof
  assume "kq_queue q' = tl (kq_queue q)"
  with assms(1) show ?thesis by (auto simp: kq_traced_def split: list.splits)
next
  assume "\<exists>r rest a. kq_queue q = r # rest \<and> kq_queue q' = r\<lparr>kq_attempt := Some a\<rparr> # rest"
  then obtain r rest a where q: "kq_queue q = r # rest" and q': "kq_queue q' = r\<lparr>kq_attempt := Some a\<rparr> # rest" by blast
  have called: "\<not> ko_downstream_called ob"
  proof
    assume c: "ko_downstream_called ob"
    then have "kq_handed (Inr ob) \<noteq> []" by (simp add: kq_handed_def)
    with assms(2) q q' show False by (cases rule: kq_observe_cases) auto
  qed
  obtain a0 access a1 w1 where head: "kq_head_attempt r now = Inr a0"
      "attempt_observe_rssi a0 now raw src w = (Inr access, a1, w1)"
      "ko_downstream_called ob \<or> r\<lparr>kq_attempt := Some a\<rparr> = r\<lparr>kq_attempt := Some a1\<rparr>"
    using q' by (rule_tac kq_observe_head [OF assms(2) q, of "r\<lparr>kq_attempt := Some a\<rparr>"]) auto
  then have a: "a = a1" using called by (metis kiss_request.select_convs(4) kiss_request.update_convs(4) kiss_request.surjective option.inject)
  have "request_traced samples r a0"
    by (rule kq_head_attempt_traced [OF head(1)]) (use assms(1) q in \<open>auto simp: kq_traced_def\<close>)
  from request_traced_step [OF this head(2)] have "request_traced (samples @ [(now, raw)]) (r\<lparr>kq_attempt := Some a\<rparr>) a"
    unfolding a by (auto simp: request_traced_def captured_policy_def)
  with assms(1) q q' show ?thesis by (simp add: kq_traced_def)
qed

lemma kq_enqueue_traced: "kq_traced samples q \<Longrightarrow> kq_traced samples (snd (kq_enqueue q frame ctx now))"
proof -
  assume tr: "kq_traced samples q"
  obtain res q' where enq: "kq_enqueue q frame ctx now = (res, q')" by fastforce
  from enq have "kq_traced samples q'"
    by (cases rule: kq_enqueue_cases) (use tr in \<open>auto simp: kq_traced_def split: list.splits option.splits\<close>)
  with enq show ?thesis by simp
qed

lemma kq_play_traced:
  "kq_traced samples q \<Longrightarrow> kq_play submit src q evs w = (Inr q', w') \<Longrightarrow> kq_traced (samples @ samples_of evs) q'"
proof (induction evs arbitrary: q w samples)
  case Nil
  then show ?case by simp
next
  case (Cons ev evs)
  show ?case
  proof (cases ev)
    case (KqEnqueue frame ctx now)
    with Cons.IH [OF kq_enqueue_traced [OF Cons.prems(1)]] Cons.prems(2) show ?thesis by simp
  next
    case (KqObserve now raw)
    with Cons.prems(2) obtain ob q1 w1 where "kq_observe_rssi submit q now raw src w = (Inr ob, q1, w1)"
        "kq_play submit src q1 evs w1 = (Inr q', w')"
      by (auto split: prod.splits sum.splits)
    from Cons.IH [OF kq_observe_traced [OF Cons.prems(1) this(1)] this(2)] KqObserve show ?thesis by simp
  qed
qed

lemma kq_dispatch_heard:
  assumes "kq_init capacity request_timeout downstream_timeout = Inr q0"
    and "kq_play submit src q0 evs w0 = (Inr q, w)"
    and "kq_observe_rssi submit q now raw src w = (Inr ob, q', w')" "ko_downstream_called ob"
  shows "\<exists>r rest p t0 hist. kq_queue q = r # rest \<and> kq_queue q' = rest \<and>
    suffix hist (samples_of evs @ [(now, raw)]) \<and> heard_clear_slot p t0 hist \<and> captured_policy r p t0 \<and>
    now < kr_deadline_at (kq_receipt r)"
proof -
  have "kq_traced [] q0" using assms(1) by (auto simp: kq_init_def kq_traced_def split: if_splits)
  from kq_play_traced [OF this assms(2)] have tr: "kq_traced (samples_of evs) q" by simp
  have "kq_handed (Inr ob) \<noteq> []" using assms(4) by (simp add: kq_handed_def)
  with assms(3) obtain r rest where q: "kq_queue q = r # rest" "kq_queue q' = rest"
    by (cases rule: kq_observe_cases) auto
  obtain a access a1 w1 where head: "kq_head_attempt r now = Inr a"
      "attempt_observe_rssi a now raw src w = (Inr access, a1, w1)" "now < kr_deadline_at (kq_receipt r)"
    and ready: "cd_state (ao_csma access) = READY"
    by (rule kq_observe_head [OF assms(3) q(1), of r]) (use assms(4) in auto)
  have "request_traced (samples_of evs) r a"
    by (rule kq_head_attempt_traced [OF head(1)]) (use tr q in \<open>auto simp: kq_traced_def\<close>)
  then obtain p t0 hist where h: "suffix hist (samples_of evs)" "attempt_traced p t0 hist a" "captured_policy r p t0"
    unfolding request_traced_def by blast
  have "cs_state (aa_csma a1) = READY" using attempt_traced_decision [OF h(2) head(2)] ready by simp
  with attempt_traced_ready [OF attempt_traced_step [OF h(2) head(2)]]
  have "heard_clear_slot p t0 (hist @ [(now, raw)])" by simp
  moreover have "suffix (hist @ [(now, raw)]) (samples_of evs @ [(now, raw)])" using h(1) by simp
  ultimately show ?thesis using q h(3) head(3) by blast
qed

text \<open>
  C39. Listen before talk, for every KISS frame. In any history of admissions and RSSI samples of a new
  queue in which no observation raised, a frame is handed downstream only if the latest samples up to
  that moment show a full slot of clear channel, by the slot time captured at its admission, within
  the lifetime of the request.
\<close>

theorem kiss_data_listen_before_talk:
  assumes "kq_init capacity request_timeout downstream_timeout = Inr q0"
    and "kq_play submit src q0 evs w0 = (Inr q, w)"
    and "kq_observe_rssi submit q now raw src w = (Inr ob, q', w')" "ko_downstream_called ob"
  shows "\<exists>r rest p t0 hist. kq_queue q = r # rest \<and> kq_queue q' = rest \<and>
    suffix hist (samples_of evs @ [(now, raw)]) \<and> heard_clear_slot p t0 hist \<and> captured_policy r p t0 \<and>
    now < kr_deadline_at (kq_receipt r)"
  using assms by (rule kq_dispatch_heard)

subsection \<open>Examples\<close>

abbreviation "example_body \<equiv>
  [0x86, 0xA2, 0x40, 0x40, 0x40, 0x40, 0xE0, 0x9C, 0x60, 0x86, 0x82, 0x98, 0x98, 0x61, 0x03, 0xF0] :: bytes"

abbreviation "example_context \<equiv>
  \<lparr>tc_parameters = \<lparr>tn_generation = 0, tn_txdelay = 0, tn_persist = 63, tn_slottime = 10, tn_fullduplex = 0, tn_port = 0\<rparr>,
   tc_txdelay_profile = \<lparr>tp_units = 0, tp_requested_seconds = 0, tp_pre_flags = 1, tp_effective_seconds = 1 / 150,
     tp_rounding_overrun_seconds = 1 / 150\<rparr>,
   tc_csma_parameters = \<lparr>cp_persist = 63, cp_slot_time_10ms = 10, cp_max_wait_seconds = 30\<rparr>\<rparr>"

abbreviation "example_queue \<equiv>
  \<lparr>kq_queue_capacity = 1, kq_request_timeout_seconds = 30, kq_downstream_timeout_seconds = 3 / 2,
   kq_queue = [], kq_next_request_id = 1, kq_last_now = 0, kq_accepted_requests = 0,
   kq_invalid_rejections = 0, kq_queue_full_rejections = 0, kq_dispatched_requests = 0,
   kq_timed_out_requests = 0, kq_downstream_failures = 0\<rparr>"

lemma example_queue_init: "kq_init 1 30 (3 / 2) = Inr example_queue"
  by (simp add: kq_init_def)

text \<open>
  The example queue after the admission of the example body; the frame with its check sequence stays
  symbolic in the examples, since no decision of the queue depends on it.
\<close>

abbreviation "admitted_example frame \<equiv>
  example_queue\<lparr>kq_next_request_id := 2, kq_accepted_requests := 1, kq_queue :=
    [\<lparr>kq_receipt = \<lparr>kr_request_id = 1, kr_frame_bytes_no_fcs = 16, kr_frame_bytes_with_fcs = length frame,
       kr_parameter_generation = 0, kr_txdelay = 0, kr_persist = 63, kr_slottime = 10,
       kr_enqueued_at = 0, kr_deadline_at = 30\<rparr>,
      kq_frame_with_fcs = frame, kq_context = example_context, kq_attempt = None\<rparr>]\<rparr>"

lemma example_enqueue:
  "snd (kq_enqueue example_queue example_body example_context 0) = admitted_example (append_fcs example_body)"
proof -
  have "case parse_frame example_body False of Inl _ \<Rightarrow> False | Inr _ \<Rightarrow> True" by code_simp
  then obtain parsed where "parse_frame example_body False = Inr parsed" by (auto split: sum.splits)
  then show ?thesis by (simp add: kq_enqueue_def kq_accept_now_def Let_def)
qed

lemma example_dispatch:
  "case fst (kq_play (\<lambda>frame ctx timeout w. (Inr () :: (tx_exn, unit) result, w :: unit)) (Some (\<lambda>n. (9, n)))
       (admitted_example frame) [KqObserve 0 100, KqObserve (1 / 4) 100] ()) of
     Inl _ \<Rightarrow> False
   | Inr q \<Rightarrow> (case fst (kq_observe_rssi (\<lambda>frame ctx timeout w. (Inr () :: (tx_exn, unit) result, w :: unit))
         q (1 / 2) 100 (Some (\<lambda>n. (9, n))) ()) of
        Inl _ \<Rightarrow> False | Inr ob \<Rightarrow> ko_downstream_called ob)"
  by code_simp

theorem kiss_data_listen_before_talk_witness:
  "\<exists>p t0 hist. suffix hist [(0, 100), (1 / 4, 100), (1 / 2, 100)] \<and> heard_clear_slot p t0 hist"
proof -
  let ?submit = "\<lambda>frame ctx timeout w. (Inr () :: (tx_exn, unit) result, w :: unit)"
  let ?src = "Some (\<lambda>n. (9, n))"
  let ?evs = "[KqEnqueue example_body example_context 0, KqObserve 0 100, KqObserve (1 / 4) 100]"
  let ?play = "kq_play ?submit ?src (admitted_example (append_fcs example_body)) (tl ?evs) ()"
  from outcome_Inr [OF example_dispatch [of "append_fcs example_body"]] obtain q w where play: "?play = (Inr q, w)"
    and obs: "case fst (kq_observe_rssi ?submit q (1 / 2) 100 ?src ()) of
        Inl _ \<Rightarrow> False | Inr ob \<Rightarrow> ko_downstream_called ob"
    unfolding list.sel by (elim exE conjE)
  from outcome_Inr [OF obs] obtain ob qw
    where ob: "kq_observe_rssi ?submit q (1 / 2) 100 ?src () = (Inr ob, qw)" "ko_downstream_called ob"
    by (elim exE conjE)
  from play have full: "kq_play ?submit ?src example_queue ?evs () = (Inr q, ())"
    unfolding kq_play.simps example_enqueue list.sel by simp
  from ob(1) have "kq_observe_rssi ?submit q (1 / 2) 100 ?src () = (Inr ob, fst qw, snd qw)"
    by (simp only: prod.collapse)
  from kiss_data_listen_before_talk [OF example_queue_init full this ob(2)] obtain p t0 hist where
    "suffix hist (samples_of ?evs @ [(1 / 2, 100)])" "heard_clear_slot p t0 hist"
    by (elim exE conjE)
  then show ?thesis by auto
qed


theorem kiss_data_bounded_books_witness:
  "int (qa_tx_queue_depth (from_access_snapshot (kq_snapshot_of (fst (run (\<lambda>qw ev. fst (kq_step
     (\<lambda>frame ctx timeout n. (Inl TXBrokerBusy :: (tx_exn, unit) result, n + 1 :: nat)) (Some (\<lambda>n. (9, n))) qw ev))
     (example_queue, 0) [KqEnqueue example_body example_context 0, KqEnqueue example_body example_context 0]))))) \<le> 1"
  by (rule kiss_data_bounded_books [OF example_queue_init prod.collapse, THEN conjunct1])

end
