(* ===== verification/Kiss_Backend.thy ===== *)
theory Kiss_Backend
  imports Kiss_Tx_Path
begin

section \<open>The transmit backend and the serialised queue\<close>

text \<open>
  \<open>src/src/ywd1278/kiss/tx_backend.py\<close> and \<open>src/src/ywd1278/kiss/sustained.py\<close>: the backend that
  admits KISS DATA of port 0 to the queue and hands everything else to the parameter control, with
  its ingress and connection counters, and the wrapper that serialises the queue and reads the clock
  under its lock. The queue is an object of its own in the source, shared with the runtime, and so a
  separate argument here; the clock is an operation on the world state.
\<close>

subsection \<open>Model: the serialised queue\<close>

definition ts_enqueue ::
  "('w \<Rightarrow> seconds \<times> 'w) \<Rightarrow> kiss_queue \<Rightarrow> bytes \<Rightarrow> tnc_context \<Rightarrow> seconds \<Rightarrow> 'w \<Rightarrow>
     (kq_error, kiss_receipt) result \<times> kiss_queue \<times> 'w" where
  "ts_enqueue monotonic q frame_no_fcs context now w =
     (let (serialized_now, w) = monotonic w;
          (res, q) = kq_enqueue q frame_no_fcs context serialized_now
      in (res, q, w))"

definition ts_observe_rssi ::
  "('w, 'r) contextual_port \<Rightarrow> ('w \<Rightarrow> seconds \<times> 'w) \<Rightarrow> kiss_queue \<Rightarrow> seconds \<Rightarrow> int \<Rightarrow> 'w random_source option \<Rightarrow> 'w \<Rightarrow>
     (kq_error, 'r kq_observation) result \<times> kiss_queue \<times> 'w" where
  "ts_observe_rssi submit monotonic q now raw_magnitude random_byte_source w =
     (let (serialized_now, w) = monotonic w
      in kq_observe_rssi submit q serialized_now raw_magnitude random_byte_source w)"

subsection \<open>Model: the backend\<close>

datatype ingress_error = IngressControl control_error | IngressUncaught kq_error

datatype ingress_result =
    IngressAdmitted kiss_receipt | IngressRefused kq_error | IngressControlResult control_result

record tnc_backend =
  tb_control :: control_backend
  tb_data_messages_received :: nat
  tb_data_admitted :: nat
  tb_data_invalid_rejections :: nat
  tb_data_queue_full_drops :: nat
  tb_data_time_rejections :: nat
  tb_data_other_rejections :: nat
  tb_connection_queues :: "nat list"
  tb_total_connections :: nat
  tb_total_disconnects :: nat

definition tnc_backend_init :: "control_backend \<Rightarrow> tnc_backend" where
  "tnc_backend_init control =
     \<lparr>tb_control = control, tb_data_messages_received = 0, tb_data_admitted = 0,
      tb_data_invalid_rejections = 0, tb_data_queue_full_drops = 0, tb_data_time_rejections = 0,
      tb_data_other_rejections = 0, tb_connection_queues = [], tb_total_connections = 0,
      tb_total_disconnects = 0\<rparr>"

text \<open>
  \<open>reject_client_message\<close>. The time argument of \<open>enqueue\<close> is read before the call and again under
  the lock. No error of the queue is a plain \<open>KISSDataAdmissionError\<close>, so that the last handler of
  the source, and its counter, are never used.
\<close>

definition backend_client_message ::
  "('w \<Rightarrow> seconds \<times> 'w) \<Rightarrow> kiss_message \<Rightarrow> tnc_backend \<Rightarrow> kiss_queue \<Rightarrow> 'w \<Rightarrow>
     (ingress_error, ingress_result) result \<times> tnc_backend \<times> kiss_queue \<times> 'w" where
  "backend_client_message monotonic message b q w =
     (if km_command message \<noteq> KISS_DATA \<or> km_port message \<noteq> 0 then
        (case control_client_message message (tb_control b) of
           (Inl e, c) \<Rightarrow> (Inl (IngressControl e), b\<lparr>tb_control := c\<rparr>, q, w)
         | (Inr res, c) \<Rightarrow> (Inr (IngressControlResult res), b\<lparr>tb_control := c\<rparr>, q, w))
      else
        (let b = b\<lparr>tb_data_messages_received := tb_data_messages_received b + 1\<rparr> in
         case capture_tx_context (cb_session (tb_control b)) (kq_request_timeout_seconds q) of
           Inl e \<Rightarrow> (Inl (IngressControl e), b, q, w)
         | Inr context \<Rightarrow>
             (let (now, w) = monotonic w in
              case ts_enqueue monotonic q (km_frame message) context now w of
                (Inr receipt, q, w) \<Rightarrow>
                  (Inr (IngressAdmitted receipt), b\<lparr>tb_data_admitted := tb_data_admitted b + 1\<rparr>, q, w)
              | (Inl e, q, w) \<Rightarrow>
                  (case e of
                     KISSDataFrameRejected _ \<Rightarrow>
                       (Inr (IngressRefused e), b\<lparr>tb_data_invalid_rejections := tb_data_invalid_rejections b + 1\<rparr>, q, w)
                   | KISSDataQueueFull \<Rightarrow>
                       (Inr (IngressRefused e), b\<lparr>tb_data_queue_full_drops := tb_data_queue_full_drops b + 1\<rparr>, q, w)
                   | KISSDataTimeNegative \<Rightarrow>
                       (Inr (IngressRefused e), b\<lparr>tb_data_time_rejections := tb_data_time_rejections b + 1\<rparr>, q, w)
                   | KISSDataTimeNotMonotonic \<Rightarrow>
                       (Inr (IngressRefused e), b\<lparr>tb_data_time_rejections := tb_data_time_rejections b + 1\<rparr>, q, w)
                   | _ \<Rightarrow> (Inl (IngressUncaught e), b, q, w)))))"

definition backend_note_malformed :: "nat \<Rightarrow> tnc_backend \<Rightarrow> tnc_backend" where
  "backend_note_malformed count b =
     b\<lparr>tb_control := (tb_control b)\<lparr>cb_session := snd (note_malformed_stream_frames (cb_session (tb_control b)) (int count))\<rparr>\<rparr>"

definition backend_publish :: "packet_event \<Rightarrow> tnc_backend \<Rightarrow> tnc_backend" where
  "backend_publish event b = b\<lparr>tb_control := (tb_control b)\<lparr>cb_rx := publish event (cb_rx (tb_control b))\<rparr>\<rparr>"

definition backend_open_stream :: "tnc_backend \<Rightarrow> (packet_event list \<times> nat) \<times> tnc_backend" where
  "backend_open_stream b =
     (let ((history, queue), rx) = open_stream (cb_rx (tb_control b))
      in ((history, queue),
          b\<lparr>tb_control := (tb_control b)\<lparr>cb_rx := rx\<rparr>,
            tb_connection_queues := tb_connection_queues b @ [queue],
            tb_total_connections := tb_total_connections b + 1\<rparr>))"

definition backend_close_stream :: "nat \<Rightarrow> tnc_backend \<Rightarrow> tnc_backend" where
  "backend_close_stream queue b =
     (let b = (if queue \<in> set (tb_connection_queues b)
               then b\<lparr>tb_connection_queues := remove1 queue (tb_connection_queues b),
                 tb_total_disconnects := tb_total_disconnects b + 1\<rparr>
               else b)
      in b\<lparr>tb_control := (tb_control b)\<lparr>cb_rx := close_stream queue (cb_rx (tb_control b))\<rparr>\<rparr>)"

record connection_counters =
  cc_total_connections :: nat
  cc_total_disconnects :: nat
  cc_active_connections :: nat

definition connection_counters_of :: "tnc_backend \<Rightarrow> connection_counters" where
  "connection_counters_of b =
     \<lparr>cc_total_connections = tb_total_connections b, cc_total_disconnects = tb_total_disconnects b,
      cc_active_connections = length (tb_connection_queues b)\<rparr>"

subsection \<open>Lives of backend and queue\<close>

datatype tnc_event =
    TeOpen | TeClose nat | TeMessage kiss_message | TeMalformed nat | TePublish packet_event
  | TeObserve seconds int

definition tnc_step ::
  "('w, 'r) contextual_port \<Rightarrow> ('w \<Rightarrow> seconds \<times> 'w) \<Rightarrow> 'w random_source option \<Rightarrow>
     tnc_backend \<times> kiss_queue \<times> 'w \<Rightarrow> tnc_event \<Rightarrow> tnc_backend \<times> kiss_queue \<times> 'w" where
  "tnc_step submit monotonic src = (\<lambda>(b, q, w) ev.
     case ev of
       TeOpen \<Rightarrow> (snd (backend_open_stream b), q, w)
     | TeClose queue \<Rightarrow> (backend_close_stream queue b, q, w)
     | TeMessage message \<Rightarrow> snd (backend_client_message monotonic message b q w)
     | TeMalformed count \<Rightarrow> (backend_note_malformed count b, q, w)
     | TePublish event \<Rightarrow> (backend_publish event b, q, w)
     | TeObserve now raw \<Rightarrow> (b, snd (ts_observe_rssi submit monotonic q now raw src w)))"

text \<open>
  What the two sides of the ingress agree on: the backend's counters are the queue's, every message
  is accounted for, the connections are, and the session can always be captured.
\<close>

definition ingress_books :: "tnc_backend \<times> kiss_queue \<times> 'w \<Rightarrow> bool" where
  "ingress_books = (\<lambda>(b, q, w).
     tb_data_messages_received b = tb_data_admitted b + tb_data_invalid_rejections b +
       tb_data_queue_full_drops b + tb_data_time_rejections b \<and>
     tb_data_admitted b = kq_accepted_requests q \<and>
     tb_data_invalid_rejections b = kq_invalid_rejections q \<and>
     tb_data_queue_full_drops b = kq_queue_full_rejections q \<and>
     tb_data_other_rejections b = 0 \<and>
     tb_total_connections b = tb_total_disconnects b + length (tb_connection_queues b) \<and>
     0 < kq_request_timeout_seconds q \<and> parameters_ok (ts_parameters (cb_session (tb_control b))))"

lemma kq_enqueue_counters:
  assumes "kq_enqueue q frame ctx now = (res, q')"
  shows "kq_request_timeout_seconds q' = kq_request_timeout_seconds q"
    "case res of
       Inr _ \<Rightarrow> kq_accepted_requests q' = kq_accepted_requests q + 1 \<and>
         kq_invalid_rejections q' = kq_invalid_rejections q \<and> kq_queue_full_rejections q' = kq_queue_full_rejections q
     | Inl e \<Rightarrow> kq_accepted_requests q' = kq_accepted_requests q \<and>
         kq_invalid_rejections q' = kq_invalid_rejections q + (case e of KISSDataFrameRejected _ \<Rightarrow> 1 | _ \<Rightarrow> 0) \<and>
         kq_queue_full_rejections q' = kq_queue_full_rejections q + (if e = KISSDataQueueFull then 1 else 0) \<and>
         (e \<in> {KISSDataQueueFull, KISSDataTimeNegative, KISSDataTimeNotMonotonic} \<or> (\<exists>x. e = KISSDataFrameRejected x))"
  using assms parse_frame_no_key_error [of frame False]
  by (auto simp: kq_enqueue_def kq_accept_now_def Let_def split: if_splits sum.splits)

lemma kq_observe_counters:
  assumes "kq_observe_rssi submit q now raw src w = (res, q', w')"
  shows "kq_request_timeout_seconds q' = kq_request_timeout_seconds q"
    "kq_invalid_rejections q' = kq_invalid_rejections q" "kq_queue_full_rejections q' = kq_queue_full_rejections q"
  using assms
  by (auto simp: kq_observe_rssi_def kq_accept_now_def split: if_splits list.splits sum.splits prod.splits)

lemma control_message_ok:
  assumes "parameters_ok (ts_parameters (cb_session c))"
  shows "\<exists>res c'. control_client_message message c = (Inr res, c') \<and> parameters_ok (ts_parameters (cb_session c'))"
proof (cases "parameter_update message")
  case None
  from session_apply_rejects [OF assms None] assms show ?thesis
    by (auto simp: control_client_message_def Let_def)
next
  case (Some f)
  from session_apply_updates [OF assms Some] parameter_update_ok [OF assms Some] show ?thesis
    by (auto simp: control_client_message_def Let_def)
qed

text \<open>A client message never raises on sound books, and keeps them.\<close>

lemma client_message_books:
  assumes "ingress_books (b, q, w)"
  shows "\<exists>res b' q' w'. backend_client_message monotonic message b q w = (Inr res, b', q', w') \<and>
    ingress_books (b', q', w')"
proof (cases "km_command message \<noteq> KISS_DATA \<or> km_port message \<noteq> 0")
  case True
  obtain res c' where "control_client_message message (tb_control b) = (Inr res, c')"
      "parameters_ok (ts_parameters (cb_session c'))"
    using control_message_ok [of "tb_control b" message] assms by (auto simp: ingress_books_def)
  with True assms show ?thesis by (auto simp: backend_client_message_def ingress_books_def)
next
  case False
  obtain ctx where ctx: "capture_tx_context (cb_session (tb_control b)) (kq_request_timeout_seconds q) = Inr ctx"
    using capture_ok assms by (auto simp: ingress_books_def)
  obtain t1 w1 where c1: "monotonic w = (t1, w1)" by fastforce
  obtain t2 w2 where c2: "monotonic w1 = (t2, w2)" by fastforce
  obtain outcome q' where enq: "kq_enqueue q (km_frame message) ctx t2 = (outcome, q')" by fastforce
  note counters = kq_enqueue_counters [OF enq]
  show ?thesis
  proof (cases outcome)
    case (Inr receipt)
    with False ctx c1 c2 enq counters assms show ?thesis
      by (auto simp: backend_client_message_def ts_enqueue_def ingress_books_def)
  next
    case (Inl e)
    with counters have "e \<in> {KISSDataQueueFull, KISSDataTimeNegative, KISSDataTimeNotMonotonic} \<or> (\<exists>x. e = KISSDataFrameRejected x)"
      by simp
    with Inl False ctx c1 c2 enq counters assms show ?thesis
      by (auto simp: backend_client_message_def ts_enqueue_def ingress_books_def)
  qed
qed

interpretation tnc_books: invariant_machine "tnc_step submit monotonic src" ingress_books
proof (unfold_locales, goal_cases)
  case (1 s ev)
  obtain b q w where s: "s = (b, q, w)" by (cases s)
  show ?case
  proof (cases ev)
    case (TeMessage message)
    with client_message_books [of b q w monotonic message] 1 s show ?thesis by (auto simp: tnc_step_def)
  next
    case (TeObserve now raw)
    obtain t1 w1 where c1: "monotonic w = (t1, w1)" by fastforce
    obtain res q' w' where obs: "kq_observe_rssi submit q t1 raw src w1 = (res, q', w')" by (metis prod_cases3)
    with TeObserve 1 s c1 kq_observe_counters [OF obs] kq_observe_frame [OF obs] show ?thesis
      by (auto simp: tnc_step_def ts_observe_rssi_def ingress_books_def)
  next
    case (TeClose queue)
    with 1 s show ?thesis
      by (auto simp: tnc_step_def backend_close_stream_def ingress_books_def Let_def length_remove1)
        (metis Suc_pred add_Suc_right length_pos_if_in_set)
  next
    case (TeMalformed count)
    with 1 s show ?thesis
      by (auto simp: tnc_step_def backend_note_malformed_def note_malformed_stream_frames_def ingress_books_def)
  qed (use 1 s in \<open>auto simp: tnc_step_def backend_open_stream_def backend_publish_def open_stream_def ingress_books_def Let_def\<close>)
qed

text \<open>
  The operator's books. After any connections, disconnections, client messages, malformed
  frames, published packets and channel observations, every KISS data message the backend received
  is counted exactly once as admitted, invalid, dropped for a full queue or refused for its time;
  the admitted ones are the queue's accepted ones and the refused ones the queue's refusals;
  connections are disconnects plus active ones; and the next message of any client is answered
  without raising.
\<close>

theorem ingress_accounting:
  assumes "kq_init capacity request_timeout downstream_timeout = Inr q"
    and "session_init parameters = Inr session" "cb_session control = session"
    and "run (tnc_step submit monotonic src) (tnc_backend_init control, q, w) evs = (b, q', w')"
  shows "tb_data_messages_received b = tb_data_admitted b + tb_data_invalid_rejections b +
      tb_data_queue_full_drops b + tb_data_time_rejections b \<and>
    tb_data_admitted b = kq_accepted_requests q' \<and> tb_data_invalid_rejections b = kq_invalid_rejections q' \<and>
    tb_data_queue_full_drops b = kq_queue_full_rejections q' \<and>
    cc_total_connections (connection_counters_of b) =
      cc_total_disconnects (connection_counters_of b) + cc_active_connections (connection_counters_of b) \<and>
    (\<exists>res s. backend_client_message monotonic message b q' w' = (Inr res, s))"
proof -
  have "ingress_books (tnc_backend_init control, q, w)"
    using assms(1-3) session_init_ok [OF assms(2)]
    by (auto simp: kq_init_def tnc_backend_init_def ingress_books_def split: if_splits)
  from tnc_books.run_inv [OF this] assms(4) have "ingress_books (b, q', w')" by metis
  with client_message_books [OF this, of monotonic message] show ?thesis
    by (auto simp: ingress_books_def connection_counters_of_def)
qed

theorem ingress_accounting_witness:
  "\<exists>session b q' w'. session_init None = Inr session \<and>
     run (tnc_step (\<lambda>frame ctx timeout n. (Inl TXBrokerBusy :: (tx_exn, unit) result, n)) (\<lambda>n. (of_nat n, n + 1 :: nat)) None)
       (tnc_backend_init \<lparr>cb_rx = \<lparr>rb_history_capacity = 0, rb_subscriber_queue_capacity = 1, rb_events = [], rb_subscribers = [],
          rb_next_stream = 0, rb_tx_rejected = 0, rb_control_ignored = 0, rb_subscriber_drops = 0\<rparr>, cb_session = session\<rparr>,
        example_queue, 0)
       [TeOpen, TeMessage \<lparr>km_port = 0, km_command = 0, km_frame = [1, 2]\<rparr>, TeClose 0] = (b, q', w') \<and>
     tb_data_admitted b = kq_accepted_requests q'"
proof -
  have "case session_init None of Inl _ \<Rightarrow> False | Inr _ \<Rightarrow> True" by code_simp
  then obtain session where s: "session_init None = Inr session" by (cases "session_init None") simp_all
  let ?control = "\<lparr>cb_rx = \<lparr>rb_history_capacity = 0, rb_subscriber_queue_capacity = 1, rb_events = [], rb_subscribers = [],
          rb_next_stream = 0, rb_tx_rejected = 0, rb_control_ignored = 0, rb_subscriber_drops = 0\<rparr>, cb_session = session\<rparr>"
  let ?run = "run (tnc_step (\<lambda>frame ctx timeout n. (Inl TXBrokerBusy :: (tx_exn, unit) result, n)) (\<lambda>n. (of_nat n, n + 1 :: nat)) None)
       (tnc_backend_init ?control, example_queue, 0)
       [TeOpen, TeMessage \<lparr>km_port = 0, km_command = 0, km_frame = [1, 2]\<rparr>, TeClose 0]"
  obtain b q' w' where r: "?run = (b, q', w')" by (rule prod_cases3)
  have "cb_session ?control = session" by simp
  then have "tb_data_admitted b = kq_accepted_requests q'"
    by (rule ingress_accounting [OF example_queue_init s _ r, THEN conjunct2, THEN conjunct1])
  with s r show ?thesis by (intro exI conjI)
qed

end
