(* ===== verification/Agw.thy ===== *)
theory Agw
  imports Kiss_Backend
begin

section \<open>The AGW raw-mode server\<close>

text \<open>
  \<open>src/src/ywdtnc/agw/framing.py\<close> and \<open>src/src/ywdtnc/agw/server.py\<close>: the 36-octet header, the stream
  decoder, and the work of a connection handler on what it receives. As in the KISS server the socket is
  outside the model: a chunk is what \<open>recv\<close> returned, and the operations of the backend are arguments
  over its state.
\<close>

subsection \<open>Model: framing\<close>

definition HEADER_BYTES :: nat where "HEADER_BYTES = 36"
definition MAX_DATA_BYTES :: int where "MAX_DATA_BYTES = 4096"
definition RAW_MONITOR :: bytes where "RAW_MONITOR = [0x6B]"
definition RAW_FRAME :: bytes where "RAW_FRAME = [0x4B]"

datatype agw_error = CallsignTooLong | DataKindLength | PortPidRange | PayloadTooLarge | HeaderLength | PayloadLimit

record agw_header =
  ah_port :: int
  ah_data_kind :: bytes
  ah_pid :: int
  ah_call_from :: bytes
  ah_call_to :: bytes
  ah_data_length :: int
  ah_reserved :: int

record agw_frame =
  af_header :: agw_header
  af_data :: bytes

text \<open>\<open>_call\<close>: the field padded with zeros to ten octets.\<close>

definition agw_call :: "bytes \<Rightarrow> (agw_error, bytes) result" where
  "agw_call v = (if length v > 10 then Inl CallsignTooLong else Inr (v @ replicate (10 - length v) 0))"

definition agw_encode_frame :: "bytes \<Rightarrow> bytes \<Rightarrow> int \<Rightarrow> int \<Rightarrow> bytes \<Rightarrow> bytes \<Rightarrow> (agw_error, bytes) result" where
  "agw_encode_frame data_kind data port pid call_from call_to =
     (if length data_kind \<noteq> 1 then Inl DataKindLength
      else if \<not> (0 \<le> port \<and> port \<le> 255) \<or> \<not> (0 \<le> pid \<and> pid \<le> 255) then Inl PortPidRange
      else if int (length data) > MAX_DATA_BYTES then Inl PayloadTooLarge
      else
        try_bind (agw_call call_from) (\<lambda>from_field.
        try_bind (agw_call call_to) (\<lambda>to_field.
          Inr ([word_of_int port] @ [0, 0, 0] @ data_kind @ [0] @ [word_of_int pid] @ [0] @ from_field @ to_field @
            to_bytes_le 4 (int (length data)) @ to_bytes_le 4 0 @ data))))"

text \<open>\<open>rstrip(b"\\x00")\<close>.\<close>

definition rstrip_nul :: "bytes \<Rightarrow> bytes" where
  "rstrip_nul v = rev (dropWhile (\<lambda>b. b = 0) (rev v))"

definition agw_decode_header :: "bytes \<Rightarrow> (agw_error, agw_header) result" where
  "agw_decode_header data =
     (if length data \<noteq> HEADER_BYTES then Inl HeaderLength
      else
        (let len = from_bytes_le (take 4 (drop 28 data)) in
         if len > MAX_DATA_BYTES then Inl PayloadLimit
         else Inr \<lparr>ah_port = uint (data ! 0), ah_data_kind = [data ! 4], ah_pid = uint (data ! 6),
           ah_call_from = rstrip_nul (take 10 (drop 8 data)), ah_call_to = rstrip_nul (take 10 (drop 18 data)),
           ah_data_length = len, ah_reserved = from_bytes_le (take 4 (drop 32 data))\<rparr>))"

text \<open>The loop of \<open>feed\<close>: the frames, the buffer that is left, and the exception that ended it, if any.\<close>

function agw_frames :: "bytes \<Rightarrow> agw_frame list \<times> bytes \<times> agw_error option" where
  "agw_frames buffer =
     (if length buffer < HEADER_BYTES then ([], buffer, None)
      else
        (case agw_decode_header (take HEADER_BYTES buffer) of
           Inl e \<Rightarrow> ([], buffer, Some e)
         | Inr header \<Rightarrow>
             (let total = HEADER_BYTES + nat (ah_data_length header) in
              if length buffer < total then ([], buffer, None)
              else
                (let (frames, rest, e) = agw_frames (drop total buffer)
                 in (\<lparr>af_header = header, af_data = take (nat (ah_data_length header)) (drop HEADER_BYTES buffer)\<rparr> # frames, rest, e)))))"
  by pat_completeness auto
termination
  by (relation "measure length") (auto simp: HEADER_BYTES_def)

declare agw_frames.simps [simp del]

definition agw_feed :: "bytes \<Rightarrow> bytes \<Rightarrow> (agw_error, agw_frame list) result \<times> bytes" where
  "agw_feed buffer data =
     (let (frames, rest, e) = agw_frames (buffer @ data)
      in ((case e of None \<Rightarrow> Inr frames | Some e \<Rightarrow> Inl e), rest))"

subsection \<open>Model: the connection handler\<close>

record agw_connection =
  ac_buffer :: bytes
  ac_queue :: "nat option"

definition agw_emit :: "packet_event \<Rightarrow> (agw_error, bytes) result" where
  "agw_emit event = agw_encode_frame RAW_FRAME (0 # pe_frame_no_fcs event) 0 0 [] []"

definition agw_handle_frame ::
  "('s \<Rightarrow> (packet_event list \<times> nat) \<times> 's) \<Rightarrow> (kiss_message \<Rightarrow> 's \<Rightarrow> 's) \<Rightarrow> agw_frame \<Rightarrow> nat option \<times> 's \<Rightarrow> nat option \<times> 's" where
  "agw_handle_frame opn client_message frame = (\<lambda>(queue, s).
     if ah_port (af_header frame) \<noteq> 0 then (queue, s)
     else if ah_data_kind (af_header frame) = RAW_MONITOR then
       (case queue of
          None \<Rightarrow> (let ((history, q), s) = opn s in (Some q, s))
        | Some q \<Rightarrow> (queue, s))
     else if ah_data_kind (af_header frame) = RAW_FRAME then
       (if af_data frame = [] then (queue, s)
        else (queue, client_message \<lparr>km_port = 0, km_command = KISS_DATA, km_frame = drop 1 (af_data frame)\<rparr> s))
     else (queue, s))"

text \<open>What the handler does with one chunk; no connection is left when the decoder raised.\<close>

definition agw_handle_chunk ::
  "('s \<Rightarrow> (packet_event list \<times> nat) \<times> 's) \<Rightarrow> (kiss_message \<Rightarrow> 's \<Rightarrow> 's) \<Rightarrow> bytes \<Rightarrow> agw_connection \<times> 's \<Rightarrow> bool \<times> agw_connection \<times> 's" where
  "agw_handle_chunk opn client_message data = (\<lambda>(conn, s).
     case agw_feed (ac_buffer conn) data of
       (Inl e, buffer) \<Rightarrow> (False, conn\<lparr>ac_buffer := buffer\<rparr>, s)
     | (Inr frames, buffer) \<Rightarrow>
         (let (queue, s) = fold (agw_handle_frame opn client_message) frames (ac_queue conn, s)
          in (True, conn\<lparr>ac_buffer := buffer, ac_queue := queue\<rparr>, s)))"

text \<open>A whole connection: the chunks until the peer closes or the decoder raises, then the handler's \<open>finally\<close>.\<close>

fun agw_serve ::
  "('s \<Rightarrow> (packet_event list \<times> nat) \<times> 's) \<Rightarrow> (kiss_message \<Rightarrow> 's \<Rightarrow> 's) \<Rightarrow> bytes list \<Rightarrow> agw_connection \<times> 's \<Rightarrow> agw_connection \<times> 's" where
  "agw_serve opn client_message [] cs = cs"
| "agw_serve opn client_message (chunk # chunks) cs =
     (let (alive, cs) = agw_handle_chunk opn client_message chunk cs
      in if alive then agw_serve opn client_message chunks cs else cs)"

definition agw_handle ::
  "('s \<Rightarrow> (packet_event list \<times> nat) \<times> 's) \<Rightarrow> (nat \<Rightarrow> 's \<Rightarrow> 's) \<Rightarrow> (kiss_message \<Rightarrow> 's \<Rightarrow> 's) \<Rightarrow> bytes list \<Rightarrow> 's \<Rightarrow> 's" where
  "agw_handle opn cls client_message chunks s =
     (let (conn, s) = agw_serve opn client_message chunks (\<lparr>ac_buffer = [], ac_queue = None\<rparr>, s)
      in case ac_queue conn of None \<Rightarrow> s | Some q \<Rightarrow> cls q s)"

subsection \<open>The stream of frames\<close>

lemma rstrip_pad: "(v = [] \<or> last v \<noteq> 0) \<Longrightarrow> rstrip_nul (v @ replicate k 0) = v"
proof -
  assume v: "v = [] \<or> last v \<noteq> 0"
  have "dropWhile (\<lambda>b. b = 0) (replicate k (0 :: byte) @ rev v) = rev v"
  proof (induction k)
    case 0
    show ?case using v by (cases v rule: rev_cases) auto
  qed simp
  then show ?thesis by (simp add: rstrip_nul_def rev_replicate)
qed

text \<open>An encoded frame at the head of the buffer is delivered, with its fields.\<close>

lemma agw_encode_decode:
  assumes "agw_encode_frame kind data port pid call_from call_to = Inr packet"
    and "call_from = [] \<or> last call_from \<noteq> 0" "call_to = [] \<or> last call_to \<noteq> 0"
  shows "length packet = HEADER_BYTES + length data \<and> drop HEADER_BYTES packet = data \<and>
    agw_decode_header (take HEADER_BYTES packet) =
      Inr \<lparr>ah_port = port, ah_data_kind = kind, ah_pid = pid, ah_call_from = call_from, ah_call_to = call_to,
        ah_data_length = int (length data), ah_reserved = 0\<rparr>"
proof -
  from assms(1) obtain k where k: "kind = [k]" by (auto simp: agw_encode_frame_def length_Suc_conv split: if_splits)
  from assms(1) have r: "0 \<le> port" "port \<le> 255" "0 \<le> pid" "pid \<le> 255" "int (length data) \<le> MAX_DATA_BYTES"
      "length call_from \<le> 10" "length call_to \<le> 10"
    by (auto simp: agw_encode_frame_def agw_call_def try_bind_Inr_iff split: if_splits)
  define from_field to_field where "from_field = call_from @ replicate (10 - length call_from) 0"
    and "to_field = call_to @ replicate (10 - length call_to) 0"
  have len: "length from_field = 10" "length to_field = 10" using r(6,7) by (simp_all add: from_field_def to_field_def)
  have packet: "packet = [word_of_int port, 0, 0, 0, k, 0, word_of_int pid, 0] @ from_field @ to_field @
      to_bytes_le 4 (int (length data)) @ to_bytes_le 4 0 @ data"
    using assms(1) r k by (simp add: agw_encode_frame_def agw_call_def from_field_def to_field_def)
  have size: "from_bytes_le (to_bytes_le 4 (int (length data))) = int (length data)"
    using r(5) by (intro from_to_bytes_le_id) (simp_all add: MAX_DATA_BYTES_def)
  have zero: "from_bytes_le (to_bytes_le 4 0) = 0" by (simp add: from_to_bytes_le)
  have head: "take HEADER_BYTES packet = [word_of_int port, 0, 0, 0, k, 0, word_of_int pid, 0] @ from_field @ to_field @
      to_bytes_le 4 (int (length data)) @ to_bytes_le 4 0"
    using len by (simp add: packet HEADER_BYTES_def)
  have "agw_decode_header (take HEADER_BYTES packet) =
      Inr \<lparr>ah_port = port, ah_data_kind = kind, ah_pid = pid, ah_call_from = rstrip_nul from_field, ah_call_to = rstrip_nul to_field,
        ah_data_length = int (length data), ah_reserved = 0\<rparr>"
    unfolding agw_decode_header_def head using len r size zero k
    by (simp add: HEADER_BYTES_def uint_word_of_int_byte)
  moreover have "rstrip_nul from_field = call_from" "rstrip_nul to_field = call_to"
    using assms(2,3) by (simp_all add: from_field_def to_field_def rstrip_pad)
  ultimately show ?thesis using len by (simp add: packet HEADER_BYTES_def)
qed

lemma agw_frames_more:
  "agw_frames buffer = (frames, rest, e) \<Longrightarrow>
     agw_frames (buffer @ later) =
       (case e of
          None \<Rightarrow> (let (frames', rest', e') = agw_frames (rest @ later) in (frames @ frames', rest', e'))
        | Some _ \<Rightarrow> (frames, rest @ later, e))"
proof (induction buffer arbitrary: frames rest e rule: agw_frames.induct)
  case (1 buffer)
  show ?case
  proof (cases "length buffer < HEADER_BYTES")
    case True
    then have "frames = []" "rest = buffer" "e = None" using "1.prems" by (simp_all add: agw_frames.simps [of buffer])
    then show ?thesis by simp
  next
    case long: False
    then have head: "take HEADER_BYTES (buffer @ later) = take HEADER_BYTES buffer" by simp
    show ?thesis
    proof (cases "agw_decode_header (take HEADER_BYTES buffer)")
      case (Inl err)
      then have "frames = []" "rest = buffer" "e = Some err" using "1.prems" long by (simp_all add: agw_frames.simps [of buffer])
      then show ?thesis using long Inl by (simp add: agw_frames.simps [of "buffer @ later"])
    next
      case (Inr h)
      let ?total = "HEADER_BYTES + nat (ah_data_length h)"
      show ?thesis
      proof (cases "length buffer < ?total")
        case True
        then have "frames = []" "rest = buffer" "e = None" using "1.prems" long Inr by (simp_all add: agw_frames.simps [of buffer])
        then show ?thesis by simp
      next
        case False
        obtain fs r e0 where nxt: "agw_frames (drop ?total buffer) = (fs, r, e0)" by (rule prod_cases3)
        have res: "frames = \<lparr>af_header = h, af_data = take (nat (ah_data_length h)) (drop HEADER_BYTES buffer)\<rparr> # fs" "rest = r" "e = e0"
          using "1.prems" long Inr False nxt by (simp_all add: agw_frames.simps [of buffer] Let_def)
        have ih: "agw_frames (drop ?total buffer @ later) =
            (case e0 of None \<Rightarrow> (let (frames', rest', e') = agw_frames (r @ later) in (fs @ frames', rest', e')) | Some _ \<Rightarrow> (fs, r @ later, e0))"
          by (rule "1.IH" [OF long Inr refl False nxt])
        have "agw_frames (buffer @ later) = (let (frames, rest, e) = agw_frames (drop ?total buffer @ later)
            in (\<lparr>af_header = h, af_data = take (nat (ah_data_length h)) (drop HEADER_BYTES buffer)\<rparr> # frames, rest, e))"
          using long Inr False by (simp add: agw_frames.simps [of "buffer @ later"] Let_def)
        with ih res show ?thesis by (simp add: Let_def split: option.splits prod.splits)
      qed
    qed
  qed
qed

lemma agw_frames_settled: "agw_frames buffer = (frames, rest, None) \<Longrightarrow> agw_frames rest = ([], rest, None)"
proof (induction buffer arbitrary: frames rest rule: agw_frames.induct)
  case (1 buffer)
  show ?case
  proof (cases "length buffer < HEADER_BYTES \<or> (\<exists>h. agw_decode_header (take HEADER_BYTES buffer) = Inr h \<and>
      length buffer < HEADER_BYTES + nat (ah_data_length h))")
    case True
    then have "rest = buffer" "frames = []" using "1.prems" by (auto simp: agw_frames.simps [of buffer] Let_def split: if_splits)
    with "1.prems" show ?thesis by simp
  next
    case False
    then obtain h fs where h: "\<not> length buffer < HEADER_BYTES" "agw_decode_header (take HEADER_BYTES buffer) = Inr h"
        "\<not> length buffer < HEADER_BYTES + nat (ah_data_length h)"
      "agw_frames (drop (HEADER_BYTES + nat (ah_data_length h)) buffer) = (fs, rest, None)"
      using "1.prems" by (auto simp: agw_frames.simps [of buffer] Let_def split: if_splits sum.splits prod.splits)
    from "1.IH" [OF h(1,2) refl h(3,4)] show ?thesis .
  qed
qed

text \<open>What a connection delivers, chunk by chunk, until the decoder raises.\<close>

fun agw_deliver :: "bytes \<Rightarrow> bytes list \<Rightarrow> agw_frame list \<times> bool" where
  "agw_deliver buffer [] = ([], True)"
| "agw_deliver buffer (chunk # chunks) =
     (case agw_feed buffer chunk of
        (Inl e, _) \<Rightarrow> ([], False)
      | (Inr frames, buffer) \<Rightarrow> (let (frames', alive) = agw_deliver buffer chunks in (frames @ frames', alive)))"

lemma agw_deliver_spec:
  assumes "agw_frames buffer = ([], buffer, None)" "agw_deliver buffer chunks = (frames, alive)"
  shows "case agw_frames (buffer @ concat chunks) of (ref, _, e) \<Rightarrow> alive = (e = None) \<and> prefix frames ref \<and> (alive \<longrightarrow> frames = ref)"
  using assms
proof (induction chunks arbitrary: buffer frames alive)
  case (Cons chunk chunks)
  obtain fs rest e where f: "agw_frames (buffer @ chunk) = (fs, rest, e)" by (rule prod_cases3)
  note all = agw_frames_more [OF f, of "concat chunks"]
  show ?case
  proof (cases e)
    case (Some err)
    with Cons.prems(2) f all show ?thesis by (simp add: agw_feed_def)
  next
    case None
    obtain frames' where d: "agw_deliver rest chunks = (frames', alive)" and fr: "frames = fs @ frames'"
      using Cons.prems(2) f None by (auto simp: agw_feed_def split: prod.splits)
    from Cons.IH [OF agw_frames_settled [OF f [unfolded None]] d] all None fr show ?thesis
      by (auto split: prod.splits)
  qed
qed simp

text \<open>
  The AGW decoder delivers what the stream holds, and nothing else. However the octets of a connection are split, the
  frames delivered are a prefix of those of the whole stream; they are all of them unless the
  stream contains a header with an impossible length, which ends the connection, whatever the chunks.
\<close>

theorem agw_delivers_stream:
  assumes "agw_deliver [] chunks = (frames, alive)" "agw_frames (concat chunks) = (ref, rest, e)"
  shows "alive = (e = None) \<and> prefix frames ref \<and> (alive \<longrightarrow> frames = ref)"
  using agw_deliver_spec [OF _ assms(1)] assms(2) by (simp add: agw_frames.simps [of "[]"] HEADER_BYTES_def)

lemma agw_packets:
  assumes "list_all2 (\<lambda>packet f. agw_encode_frame (ah_data_kind (af_header f)) (af_data f) (ah_port (af_header f)) (ah_pid (af_header f))
      (ah_call_from (af_header f)) (ah_call_to (af_header f)) = Inr packet \<and>
      (ah_call_from (af_header f) = [] \<or> last (ah_call_from (af_header f)) \<noteq> 0) \<and>
      (ah_call_to (af_header f) = [] \<or> last (ah_call_to (af_header f)) \<noteq> 0) \<and>
      ah_data_length (af_header f) = int (length (af_data f)) \<and> ah_reserved (af_header f) = 0) packets frames"
  shows "agw_frames (concat packets) = (frames, [], None)"
  using assms
proof (induction rule: list_all2_induct)
  case Nil
  show ?case by (simp add: agw_frames.simps [of "[]"] HEADER_BYTES_def)
next
  case (Cons packet packets f frames)
  from Cons(1) have enc: "agw_encode_frame (ah_data_kind (af_header f)) (af_data f) (ah_port (af_header f)) (ah_pid (af_header f))
      (ah_call_from (af_header f)) (ah_call_to (af_header f)) = Inr packet"
    "ah_call_from (af_header f) = [] \<or> last (ah_call_from (af_header f)) \<noteq> 0"
    "ah_call_to (af_header f) = [] \<or> last (ah_call_to (af_header f)) \<noteq> 0" by blast+
  from agw_encode_decode [OF enc] Cons(1) have dec: "length packet = HEADER_BYTES + length (af_data f)" "drop HEADER_BYTES packet = af_data f"
    "agw_decode_header (take HEADER_BYTES packet) = Inr (af_header f)" by (cases f; cases "af_header f"; simp)+
  have "agw_frames (packet @ concat packets) = (let (frames, rest, e) = agw_frames (concat packets) in (f # frames, rest, e))"
    using dec Cons(1) by (cases f) (simp add: agw_frames.simps [of "packet @ concat packets"] Let_def)
  with Cons.IH show ?case by simp
qed

definition agw_encoded :: "agw_frame \<Rightarrow> bytes \<Rightarrow> bool" where
  "agw_encoded f packet \<longleftrightarrow>
     agw_encode_frame (ah_data_kind (af_header f)) (af_data f) (ah_port (af_header f)) (ah_pid (af_header f))
       (ah_call_from (af_header f)) (ah_call_to (af_header f)) = Inr packet \<and>
     (ah_call_from (af_header f) = [] \<or> last (ah_call_from (af_header f)) \<noteq> 0) \<and>
     (ah_call_to (af_header f) = [] \<or> last (ah_call_to (af_header f)) \<noteq> 0) \<and>
     ah_data_length (af_header f) = int (length (af_data f)) \<and> ah_reserved (af_header f) = 0"

text \<open>
  C24. Frames of the AGW encoder, with callsigns that do not end in a zero octet, received in chunks of any sizes,
  are delivered exactly, in order, and the connection stays alive.
\<close>

theorem agw_stream_roundtrip:
  assumes "list_all2 (\<lambda>packet f. agw_encoded f packet) packets frames" "concat chunks = concat packets"
  shows "agw_deliver [] chunks = (frames, True)"
proof -
  have "agw_frames (concat chunks) = (frames, [], None)"
    unfolding assms(2) by (rule agw_packets) (use assms(1) in \<open>simp add: agw_encoded_def\<close>)
  moreover obtain fs alive where d: "agw_deliver [] chunks = (fs, alive)" by (rule prod.exhaust)
  ultimately show ?thesis
    using agw_deliver_spec [OF _ d] by (simp add: agw_frames.simps [of "[]"] HEADER_BYTES_def)
qed

abbreviation "example_agw_frame \<equiv>
  \<lparr>af_header = \<lparr>ah_port = 0, ah_data_kind = [0x4B], ah_pid = 0, ah_call_from = [], ah_call_to = [], ah_data_length = 3, ah_reserved = 0\<rparr>,
   af_data = [0, 0x41, 0x42]\<rparr>"

definition example_agw_packet :: bytes where
  "example_agw_packet = projr (agw_encode_frame RAW_FRAME [0, 0x41, 0x42] 0 0 [] [])"

lemma example_agw_encoded: "agw_encoded example_agw_frame example_agw_packet"
  by code_simp

theorem agw_stream_roundtrip_witness:
  "agw_deliver [] [take 7 example_agw_packet, drop 7 example_agw_packet] = ([example_agw_frame], True)"
  by (rule agw_stream_roundtrip [where packets = "[example_agw_packet]"]) (simp_all add: example_agw_encoded)

text \<open>A header whose length is beyond the limit.\<close>

definition oversized_header :: bytes where
  "oversized_header = replicate 28 0 @ [0x01, 0x10, 0, 0] @ replicate 4 0"


theorem agw_delivers_stream_witness:
  "prefix (fst (agw_deliver [] [example_agw_packet @ oversized_header])) (fst (agw_frames (example_agw_packet @ oversized_header)))"
proof -
  obtain frames alive where d: "agw_deliver [] [example_agw_packet @ oversized_header] = (frames, alive)" by (rule prod.exhaust)
  obtain ref rest e where "agw_frames (concat [example_agw_packet @ oversized_header]) = (ref, rest, e)" by (rule prod_cases3)
  from agw_delivers_stream [OF d this] d this show ?thesis by simp
qed

subsection \<open>The handler as a client of the backend\<close>

definition agw_message :: "agw_frame \<Rightarrow> kiss_message list" where
  "agw_message f =
     (if ah_port (af_header f) = 0 \<and> ah_data_kind (af_header f) = RAW_FRAME \<and> af_data f \<noteq> []
      then [\<lparr>km_port = 0, km_command = KISS_DATA, km_frame = drop 1 (af_data f)\<rparr>] else [])"

fun event_messages :: "tnc_event list \<Rightarrow> kiss_message list" where
  "event_messages [] = []"
| "event_messages (TeMessage m # evs) = m # event_messages evs"
| "event_messages (_ # evs) = event_messages evs"

lemma event_messages_append [simp]: "event_messages (xs @ ys) = event_messages xs @ event_messages ys"
  by (induction xs rule: event_messages.induct) simp_all

text \<open>The operations of the backend, as the handler calls them.\<close>

definition backend_opn :: "tnc_backend \<times> kiss_queue \<times> 'w \<Rightarrow> (packet_event list \<times> nat) \<times> tnc_backend \<times> kiss_queue \<times> 'w" where
  "backend_opn = (\<lambda>(b, q, w). let (hq, b) = backend_open_stream b in (hq, (b, q, w)))"

definition backend_cls :: "nat \<Rightarrow> tnc_backend \<times> kiss_queue \<times> 'w \<Rightarrow> tnc_backend \<times> kiss_queue \<times> 'w" where
  "backend_cls queue = (\<lambda>(b, q, w). (backend_close_stream queue b, q, w))"

definition backend_msg :: "('w \<Rightarrow> seconds \<times> 'w) \<Rightarrow> kiss_message \<Rightarrow> tnc_backend \<times> kiss_queue \<times> 'w \<Rightarrow> tnc_backend \<times> kiss_queue \<times> 'w" where
  "backend_msg monotonic m = (\<lambda>(b, q, w). snd (backend_client_message monotonic m b q w))"

text \<open>The events of a connection so far: its messages, and at most one opened stream.\<close>

definition agw_traffic :: "agw_frame list \<Rightarrow> nat option \<Rightarrow> tnc_event list \<Rightarrow> bool" where
  "agw_traffic frames queue evs \<longleftrightarrow>
     event_messages evs = concat (map agw_message frames) \<and> set evs \<subseteq> insert TeOpen (range TeMessage) \<and>
     length (filter (\<lambda>ev. ev = TeOpen) evs) = (if queue = None then 0 else 1)"

lemma agw_frame_traffic:
  assumes "agw_traffic frames queue evs" "s = run (tnc_step submit monotonic src) s0 evs"
    and "agw_handle_frame backend_opn (backend_msg monotonic) f (queue, s) = (queue', s')"
  shows "\<exists>evs'. agw_traffic (frames @ [f]) queue' evs' \<and> s' = run (tnc_step submit monotonic src) s0 evs'"
proof -
  obtain b q w where s: "s = (b, q, w)" by (rule prod_cases3)
  consider "agw_message f = []" "queue' = queue" "s' = s"
    | n where "agw_message f = []" "queue = None" "queue' = Some n" "s' = tnc_step submit monotonic src s TeOpen"
    | m where "agw_message f = [m]" "queue' = queue" "s' = tnc_step submit monotonic src s (TeMessage m)"
    using assms(3) s
    by (auto simp: agw_handle_frame_def agw_message_def backend_opn_def backend_msg_def tnc_step_def RAW_MONITOR_def RAW_FRAME_def Let_def
        split: if_splits option.splits prod.splits)
  then show ?thesis
  proof cases
    case 1
    with assms(1,2) show ?thesis by (intro exI [of _ evs]) (simp add: agw_traffic_def)
  next
    case 2
    with assms(1,2) show ?thesis by (intro exI [of _ "evs @ [TeOpen]"]) (auto simp: agw_traffic_def run_append)
  next
    case (3 m)
    with assms(1,2) show ?thesis by (intro exI [of _ "evs @ [TeMessage m]"]) (auto simp: agw_traffic_def run_append)
  qed
qed

lemma agw_frames_traffic:
  assumes "agw_traffic frames queue evs" "s = run (tnc_step submit monotonic src) s0 evs"
    and "fold (agw_handle_frame backend_opn (backend_msg monotonic)) fs (queue, s) = (queue', s')"
  shows "\<exists>evs'. agw_traffic (frames @ fs) queue' evs' \<and> s' = run (tnc_step submit monotonic src) s0 evs'"
  using assms
proof (induction fs arbitrary: frames queue evs s)
  case Nil
  then show ?case by auto
next
  case (Cons f fs)
  obtain q1 s1 where one: "agw_handle_frame backend_opn (backend_msg monotonic) f (queue, s) = (q1, s1)" by (rule prod.exhaust)
  from agw_frame_traffic [OF Cons.prems(1,2) one] obtain evs1 where
    "agw_traffic (frames @ [f]) q1 evs1" "s1 = run (tnc_step submit monotonic src) s0 evs1" by blast
  from Cons.IH [OF this] Cons.prems(3) one show ?case by simp
qed

lemma agw_serve_traffic:
  assumes "agw_traffic frames (ac_queue conn) evs" "s = run (tnc_step submit monotonic src) s0 evs"
    and "agw_serve backend_opn (backend_msg monotonic) chunks (conn, s) = (conn', s')"
  shows "\<exists>evs'. agw_traffic (frames @ fst (agw_deliver (ac_buffer conn) chunks)) (ac_queue conn') evs' \<and>
    s' = run (tnc_step submit monotonic src) s0 evs'"
  using assms
proof (induction chunks arbitrary: frames conn evs s)
  case Nil
  then show ?case by auto
next
  case (Cons chunk chunks)
  obtain r buffer where f: "agw_feed (ac_buffer conn) chunk = (r, buffer)" by (rule prod.exhaust)
  show ?case
  proof (cases r)
    case (Inl e)
    with Cons.prems f show ?thesis by (auto simp: agw_handle_chunk_def)
  next
    case (Inr fs)
    obtain q1 s1 where fold: "fold (agw_handle_frame backend_opn (backend_msg monotonic)) fs (ac_queue conn, s) = (q1, s1)" by (rule prod.exhaust)
    from agw_frames_traffic [OF Cons.prems(1,2) fold] obtain evs1 where
      evs1: "agw_traffic (frames @ fs) q1 evs1" "s1 = run (tnc_step submit monotonic src) s0 evs1" by blast
    let ?conn = "conn\<lparr>ac_buffer := buffer, ac_queue := q1\<rparr>"
    have "agw_traffic (frames @ fs) (ac_queue ?conn) evs1" using evs1(1) by simp
    from Cons.IH [OF this evs1(2)] Cons.prems(3) f Inr fold show ?thesis
      by (cases "agw_deliver buffer chunks") (simp add: agw_handle_chunk_def)
  qed
qed

text \<open>
  C25. An AGW client is a client like any other. What a connection does to the backend, the queue and the clock is exactly a sequence of
  client events: one data message on port 0 for every non-empty raw frame delivered on port 0, without its leading octet, in order,
  and at most one stream, which is opened for monitoring and closed when the connection ends.
\<close>

theorem agw_connection_traffic:
  "\<exists>evs. agw_handle backend_opn backend_cls (backend_msg monotonic) chunks s = run (tnc_step submit monotonic src) s evs \<and>
     event_messages evs = concat (map agw_message (fst (agw_deliver [] chunks))) \<and>
     set evs \<subseteq> insert TeOpen (range TeMessage) \<union> range TeClose \<and>
     length (filter (\<lambda>ev. ev = TeOpen) evs) = length (filter (\<lambda>ev. ev \<in> range TeClose) evs) \<and>
     length (filter (\<lambda>ev. ev = TeOpen) evs) \<le> 1"
proof -
  let ?conn = "\<lparr>ac_buffer = [], ac_queue = None\<rparr> :: agw_connection"
  obtain conn s1 where serve: "agw_serve backend_opn (backend_msg monotonic) chunks (?conn, s) = (conn, s1)" by (rule prod.exhaust)
  have "agw_traffic [] (ac_queue ?conn) []" by (simp add: agw_traffic_def)
  from agw_serve_traffic [OF this _ serve, of submit src s] obtain evs where
    evs: "agw_traffic (fst (agw_deliver [] chunks)) (ac_queue conn) evs" "s1 = run (tnc_step submit monotonic src) s evs" by auto
  have no_close: "filter (\<lambda>ev. ev \<in> range TeClose) evs = []" using evs(1) by (auto simp: agw_traffic_def filter_empty_conv)
  show ?thesis
  proof (cases "ac_queue conn")
    case None
    with evs serve no_close show ?thesis
      by (intro exI [of _ evs]) (auto simp: agw_handle_def agw_traffic_def)
  next
    case (Some n)
    obtain b q w where "s1 = (b, q, w)" by (rule prod_cases3)
    then have "backend_cls n s1 = tnc_step submit monotonic src s1 (TeClose n)" by (simp add: backend_cls_def tnc_step_def)
    with evs serve no_close Some show ?thesis
      by (intro exI [of _ "evs @ [TeClose n]"]) (auto simp: agw_handle_def agw_traffic_def run_append)
  qed
qed

end
