(* ===== verification/Half_Duplex.thy ===== *)
theory Half_Duplex
  imports Modem_Port
begin

unbundle bit_operations_syntax

section \<open>The half-duplex coordinator\<close>

text \<open>
  \<open>src/src/ywd1278/tx/half_duplex.py\<close>: one cycle stops reception, hands the frame downstream, waits
  until the transmitter is idle and restarts reception. The modem port, the downstream submitter,
  the clock and the sleeper are parameters over a world state. The polling loop need not end, so
  an outcome is an option: \<open>None\<close> is a call that does not return.
\<close>

subsection \<open>Model\<close>

definition ACTIVE_RX_REQUIRED_MASK :: int where "ACTIVE_RX_REQUIRED_MASK = 0x0D"
definition RX_ACTIVE_FLAG :: int where "RX_ACTIVE_FLAG = 0x01"
definition TX_ACTIVE_FLAG :: int where "TX_ACTIVE_FLAG = 0x02"

type_synonym 'w clock = "'w \<Rightarrow> seconds \<times> 'w"
type_synonym 'w sleeper = "seconds \<Rightarrow> 'w \<Rightarrow> 'w"

record hd_parameters =
  hp_transaction_timeout_seconds :: seconds
  hp_tx_idle_poll_seconds :: seconds
  hp_tx_idle_timeout_seconds :: seconds

datatype hd_config_error = HDTransactionTimeout | HDPollSeconds | HDIdleTimeout

definition hd_parameters_new :: "seconds \<Rightarrow> seconds \<Rightarrow> seconds \<Rightarrow> (hd_config_error, hd_parameters) result" where
  "hd_parameters_new transaction_timeout poll idle_timeout =
     (if transaction_timeout \<le> 0 then Inl HDTransactionTimeout
      else if poll \<le> 0 then Inl HDPollSeconds
      else if idle_timeout \<le> 0 then Inl HDIdleTimeout
      else Inr \<lparr>hp_transaction_timeout_seconds = transaction_timeout, hp_tx_idle_poll_seconds = poll,
        hp_tx_idle_timeout_seconds = idle_timeout\<rparr>)"

record half_duplex =
  hd_parameters :: hd_parameters
  hd_in_cycle :: bool
  hd_failed_latched :: bool
  hd_cycles_started :: nat
  hd_cycles_completed :: nat
  hd_downstream_accepted :: nat
  hd_pre_transmit_failures :: nat
  hd_downstream_failures :: nat
  hd_post_transmit_failures :: nat
  hd_recovered_downstream_failures :: nat
  hd_rx_stop_operations :: nat
  hd_rx_restart_operations :: nat
  hd_tx_idle_polls :: nat

definition hd_init :: "hd_parameters \<Rightarrow> half_duplex" where
  "hd_init parameters =
     \<lparr>hd_parameters = parameters, hd_in_cycle = False, hd_failed_latched = False,
      hd_cycles_started = 0, hd_cycles_completed = 0, hd_downstream_accepted = 0,
      hd_pre_transmit_failures = 0, hd_downstream_failures = 0, hd_post_transmit_failures = 0,
      hd_recovered_downstream_failures = 0, hd_rx_stop_operations = 0,
      hd_rx_restart_operations = 0, hd_tx_idle_polls = 0\<rparr>"

definition require_active_rx :: "rx3_status \<Rightarrow> (tx_exn, unit) result" where
  "require_active_rx status =
     (if rx_dropped_bytes status \<noteq> 0 then Inl HalfDuplexRXState
      else if rx_flags status AND TX_ACTIVE_FLAG \<noteq> 0 then Inl HalfDuplexRXState
      else if rx_flags status AND ACTIVE_RX_REQUIRED_MASK \<noteq> ACTIVE_RX_REQUIRED_MASK then Inl HalfDuplexRXState
      else Inr ())"

definition require_inactive_rx :: "rx3_status \<Rightarrow> (tx_exn, unit) result" where
  "require_inactive_rx status =
     (if rx_dropped_bytes status \<noteq> 0 then Inl HalfDuplexRXState
      else if rx_flags status AND RX_ACTIVE_FLAG \<noteq> 0 then Inl HalfDuplexRXState
      else if rx_flags status AND TX_ACTIVE_FLAG \<noteq> 0 then Inl HalfDuplexRXState
      else Inr ())"

text \<open>A status transaction followed by a check of what it reports.\<close>

definition checked_rx_status ::
  "'w modem_port \<Rightarrow> seconds \<Rightarrow> (rx3_status \<Rightarrow> (tx_exn, unit) result) \<Rightarrow> ('w, unit) operation" where
  "checked_rx_status modem timeout check =
     bind_op (mp_rx_status modem (Some timeout)) (\<lambda>status w. (check status, w))"

text \<open>The handoff before transmission: RX proved active, stopped, proved inactive.\<close>

definition hd_pre_transmit ::
  "'w modem_port \<Rightarrow> seconds \<Rightarrow> half_duplex \<Rightarrow> 'w \<Rightarrow> (tx_exn, unit) result \<times> half_duplex \<times> 'w" where
  "hd_pre_transmit modem timeout co w =
     (case checked_rx_status modem timeout require_active_rx w of
        (Inl e, w) \<Rightarrow> (Inl e, co, w)
      | (Inr _, w) \<Rightarrow>
          (case mp_rx_stop modem (Some timeout) w of
             (Inl e, w) \<Rightarrow> (Inl e, co, w)
           | (Inr _, w) \<Rightarrow>
               (let co = co\<lparr>hd_rx_stop_operations := hd_rx_stop_operations co + 1\<rparr>;
                    (res, w) = checked_rx_status modem timeout require_inactive_rx w
                in (res, co, w))))"

text \<open>The polling loop of \<open>_wait_for_tx_idle\<close>.\<close>

partial_function (option) hd_wait_loop ::
  "'w modem_port \<Rightarrow> 'w clock \<Rightarrow> 'w sleeper \<Rightarrow> seconds \<Rightarrow> seconds \<Rightarrow> half_duplex \<Rightarrow> 'w \<Rightarrow>
     ((tx_exn, unit) result \<times> half_duplex \<times> 'w) option" where
  "hd_wait_loop modem monotonic slp timeout deadline co w =
     (case mp_rf_status modem (Some timeout) w of
        (Inl e, w) \<Rightarrow> Some (Inl e, co, w)
      | (Inr status, w) \<Rightarrow>
          (case mp_rf_diagnostics modem (Some timeout) w of
             (Inl e, w) \<Rightarrow> Some (Inl e, co, w)
           | (Inr diag, w) \<Rightarrow>
               (let co = co\<lparr>hd_tx_idle_polls := hd_tx_idle_polls co + 1\<rparr> in
                if rf_remaining_selectors status = 0 \<and> rd_tx_active diag = 0 then Some (Inr (), co, w)
                else
                  (let (now, w) = monotonic w in
                   if now \<ge> deadline then Some (Inl HalfDuplexIdleTimeout, co, w)
                   else
                     (let delay = min (hp_tx_idle_poll_seconds (hd_parameters co)) (max 0 (deadline - now)) in
                      if delay \<le> 0 then Some (Inl HalfDuplexIdleTimeout, co, w)
                      else hd_wait_loop modem monotonic slp timeout deadline co (slp delay w))))))"

declare hd_wait_loop.simps [code]

definition hd_wait_for_tx_idle ::
  "'w modem_port \<Rightarrow> 'w clock \<Rightarrow> 'w sleeper \<Rightarrow> seconds \<Rightarrow> half_duplex \<Rightarrow> 'w \<Rightarrow>
     ((tx_exn, unit) result \<times> half_duplex \<times> 'w) option" where
  "hd_wait_for_tx_idle modem monotonic slp timeout co w =
     (let (started, w) = monotonic w;
          deadline = started + hp_tx_idle_timeout_seconds (hd_parameters co)
      in hd_wait_loop modem monotonic slp timeout deadline co w)"

definition hd_restart_and_verify_rx ::
  "'w modem_port \<Rightarrow> seconds \<Rightarrow> half_duplex \<Rightarrow> 'w \<Rightarrow> (tx_exn, unit) result \<times> half_duplex \<times> 'w" where
  "hd_restart_and_verify_rx modem timeout co w =
     (case mp_rx_start modem (Some timeout) w of
        (Inl e, w) \<Rightarrow> (Inl e, co, w)
      | (Inr _, w) \<Rightarrow>
          (let co = co\<lparr>hd_rx_restart_operations := hd_rx_restart_operations co + 1\<rparr>;
               (res, w) = checked_rx_status modem timeout require_active_rx w
           in (res, co, w)))"

text \<open>Waiting for idle and restarting reception, in this order, after either downstream outcome.\<close>

definition hd_restore ::
  "'w modem_port \<Rightarrow> 'w clock \<Rightarrow> 'w sleeper \<Rightarrow> seconds \<Rightarrow> half_duplex \<Rightarrow> 'w \<Rightarrow>
     ((tx_exn, unit) result \<times> half_duplex \<times> 'w) option" where
  "hd_restore modem monotonic slp timeout co w =
     (case hd_wait_for_tx_idle modem monotonic slp timeout co w of
        None \<Rightarrow> None
      | Some (Inl e, co, w) \<Rightarrow> Some (Inl e, co, w)
      | Some (Inr _, co, w) \<Rightarrow> Some (hd_restart_and_verify_rx modem timeout co w))"

definition hd_cycle ::
  "'w modem_port \<Rightarrow> ('w, 'r) submitter \<Rightarrow> 'w clock \<Rightarrow> 'w sleeper \<Rightarrow> half_duplex \<Rightarrow> bytes \<Rightarrow> seconds \<Rightarrow> 'w \<Rightarrow>
     ((tx_exn, 'r) result \<times> half_duplex \<times> 'w) option" where
  "hd_cycle modem submit monotonic slp co frame timeout w =
     (case hd_pre_transmit modem timeout co w of
        (Inl _, co, w) \<Rightarrow>
          Some (Inl HalfDuplexPreTransmitError,
            co\<lparr>hd_pre_transmit_failures := hd_pre_transmit_failures co + 1, hd_failed_latched := True\<rparr>, w)
      | (Inr _, co, w) \<Rightarrow>
          (case submit frame (Some timeout) w of
             (Inl _, w) \<Rightarrow>
               (case hd_restore modem monotonic slp timeout
                   (co\<lparr>hd_downstream_failures := hd_downstream_failures co + 1\<rparr>) w of
                  None \<Rightarrow> None
                | Some (Inl _, co, w) \<Rightarrow>
                    Some (Inl HalfDuplexDownstreamError, co\<lparr>hd_failed_latched := True\<rparr>, w)
                | Some (Inr _, co, w) \<Rightarrow>
                    Some (Inl HalfDuplexDownstreamError,
                      co\<lparr>hd_recovered_downstream_failures := hd_recovered_downstream_failures co + 1\<rparr>, w))
           | (Inr res, w) \<Rightarrow>
               (case hd_restore modem monotonic slp timeout
                   (co\<lparr>hd_downstream_accepted := hd_downstream_accepted co + 1\<rparr>) w of
                  None \<Rightarrow> None
                | Some (Inl _, co, w) \<Rightarrow>
                    Some (Inl HalfDuplexPostTransmitError,
                      co\<lparr>hd_post_transmit_failures := hd_post_transmit_failures co + 1, hd_failed_latched := True\<rparr>, w)
                | Some (Inr _, co, w) \<Rightarrow>
                    Some (Inr res, co\<lparr>hd_cycles_completed := hd_cycles_completed co + 1\<rparr>, w))))"

definition hd_submit_frame ::
  "'w modem_port \<Rightarrow> ('w, 'r) submitter \<Rightarrow> 'w clock \<Rightarrow> 'w sleeper \<Rightarrow> half_duplex \<Rightarrow> bytes \<Rightarrow> seconds option \<Rightarrow> 'w \<Rightarrow>
     ((tx_exn, 'r) result \<times> half_duplex \<times> 'w) option" where
  "hd_submit_frame modem submit monotonic slp co frame timeout w =
     (if hd_failed_latched co then Some (Inl HalfDuplexLatched, co, w)
      else if hd_in_cycle co then Some (Inl HalfDuplexLatched, co, w)
      else
        (let transaction_timeout =
           (case timeout of None \<Rightarrow> hp_transaction_timeout_seconds (hd_parameters co) | Some t \<Rightarrow> t)
         in
         if transaction_timeout \<le> 0 then Some (Inl TransactionTimeoutNotPositive, co, w)
         else
           (case hd_cycle modem submit monotonic slp
               (co\<lparr>hd_in_cycle := True, hd_cycles_started := hd_cycles_started co + 1\<rparr>)
               frame transaction_timeout w of
              None \<Rightarrow> None
            | Some (res, co, w) \<Rightarrow> Some (res, co\<lparr>hd_in_cycle := False\<rparr>, w))))"

subsection \<open>The polling loop\<close>

text \<open>
  What the loop relies on: a clock that never runs backwards, a sleeper that sleeps at least as long
  as asked, and modem transactions that take no negative time. \<open>time\<close> is the instant a world
  state stands for.
\<close>

definition clock_laws :: "'w modem_port \<Rightarrow> 'w clock \<Rightarrow> 'w sleeper \<Rightarrow> ('w \<Rightarrow> seconds) \<Rightarrow> bool" where
  "clock_laws modem monotonic slp time \<longleftrightarrow>
     (\<forall>w. time w \<le> fst (monotonic w) \<and> fst (monotonic w) \<le> time (snd (monotonic w))) \<and>
     (\<forall>d w. 0 < d \<longrightarrow> time w + d \<le> time (slp d w)) \<and>
     (\<forall>t w. time w \<le> time (snd (mp_rf_status modem t w))) \<and>
     (\<forall>t w. time w \<le> time (snd (mp_rf_diagnostics modem t w)))"

lemma hd_wait_loop_ends:
  assumes laws: "clock_laws modem monotonic slp time" and poll: "0 < hp_tx_idle_poll_seconds (hd_parameters co)"
    and fuel: "deadline - time w \<le> of_nat n * hp_tx_idle_poll_seconds (hd_parameters co)"
  shows "\<exists>r. hd_wait_loop modem monotonic slp t deadline co w = Some r"
  using poll fuel
proof (induction n arbitrary: co w)
  case 0
  obtain r1 w1 where st: "mp_rf_status modem (Some t) w = (r1, w1)" by (metis surj_pair)
  obtain r2 w2 where dg: "mp_rf_diagnostics modem (Some t) w1 = (r2, w2)" by (metis surj_pair)
  obtain now w3 where mo: "monotonic w2 = (now, w3)" by (metis surj_pair)
  have "time w \<le> time w1" "time w1 \<le> time w2" "time w2 \<le> now"
    using laws st dg mo unfolding clock_laws_def by (metis fst_conv snd_conv)+
  with 0 have "deadline \<le> now" by simp
  then show ?case by (subst hd_wait_loop.simps) (auto simp: st dg mo Let_def split: sum.splits)
next
  case (Suc n)
  obtain r1 w1 where st: "mp_rf_status modem (Some t) w = (r1, w1)" by (metis surj_pair)
  obtain r2 w2 where dg: "mp_rf_diagnostics modem (Some t) w1 = (r2, w2)" by (metis surj_pair)
  obtain now w3 where mo: "monotonic w2 = (now, w3)" by (metis surj_pair)
  have times: "time w \<le> now" "now \<le> time w3"
    using laws st dg mo unfolding clock_laws_def by (metis fst_conv snd_conv order_trans)+
  let ?co = "co\<lparr>hd_tx_idle_polls := hd_tx_idle_polls co + 1\<rparr>"
  let ?poll = "hp_tx_idle_poll_seconds (hd_parameters co)"
  let ?delay = "min ?poll (max 0 (deadline - now))"
  show ?case
  proof (cases "now < deadline")
    case False
    then show ?thesis by (subst hd_wait_loop.simps) (auto simp: st dg mo Let_def split: sum.splits)
  next
    case True
    with Suc.prems(1) have delay: "0 < ?delay" by simp
    then have "time w3 + ?delay \<le> time (slp ?delay w3)" using laws unfolding clock_laws_def by blast
    with times have "now + ?delay \<le> time (slp ?delay w3)" by linarith
    moreover have "deadline - now \<le> of_nat n * ?poll + ?poll"
      using Suc.prems(2) times(1) by (simp add: algebra_simps)
    moreover have "0 \<le> of_nat n * ?poll" using Suc.prems(1) by simp
    moreover have "?delay = ?poll \<or> ?delay = deadline - now" using True by (simp add: min_def max_def)
    ultimately have "deadline - time (slp ?delay w3) \<le> of_nat n * ?poll" by (elim disjE) linarith+
    then have "\<exists>r. hd_wait_loop modem monotonic slp t deadline ?co (slp ?delay w3) = Some r"
      using Suc.IH [of ?co "slp ?delay w3"] Suc.prems(1) by simp
    then show ?thesis
      using delay True by (subst hd_wait_loop.simps) (auto simp: st dg mo Let_def split: sum.splits)
  qed
qed

lemma hd_wait_returns:
  assumes "clock_laws modem monotonic slp time" "0 < hp_tx_idle_poll_seconds (hd_parameters co)"
  shows "\<exists>r. hd_wait_for_tx_idle modem monotonic slp t co w = Some r"
proof -
  obtain started w' where mo: "monotonic w = (started, w')" by (metis surj_pair)
  let ?deadline = "started + hp_tx_idle_timeout_seconds (hd_parameters co)"
  obtain n where "?deadline - time w' < of_nat n * hp_tx_idle_poll_seconds (hd_parameters co)"
    using ex_less_of_nat_mult [OF assms(2)] by blast
  then have "\<exists>r. hd_wait_loop modem monotonic slp t ?deadline co w' = Some r"
    by (intro hd_wait_loop_ends [OF assms, where n = n]) simp
  then show ?thesis by (simp add: hd_wait_for_tx_idle_def mo)
qed

text \<open>When the loop ends well, its last poll found the transmitter idle; it changes only a counter.\<close>

definition tx_idle_seen :: "'w modem_port \<Rightarrow> seconds \<Rightarrow> 'w \<Rightarrow> bool" where
  "tx_idle_seen modem t w' \<longleftrightarrow>
     (\<exists>w1 w2 status diag. mp_rf_status modem (Some t) w1 = (Inr status, w2) \<and>
        mp_rf_diagnostics modem (Some t) w2 = (Inr diag, w') \<and>
        rf_remaining_selectors status = 0 \<and> rd_tx_active diag = 0)"

lemma hd_wait_loop_outcome:
  assumes "hd_wait_loop modem monotonic slp t deadline co w = Some (res, co', w')"
  shows "(res = Inr () \<longrightarrow> tx_idle_seen modem t w') \<and> (\<exists>n. co' = co\<lparr>hd_tx_idle_polls := n\<rparr>)"
proof -
  let ?P = "\<lambda>modem (monotonic :: 'a clock) (slp :: 'a sleeper) t (deadline :: seconds) co (w :: 'a) r.
    (fst r = Inr () \<longrightarrow> tx_idle_seen modem t (snd (snd r))) \<and> (\<exists>n. fst (snd r) = co\<lparr>hd_tx_idle_polls := n\<rparr>)"
  have "?P modem monotonic slp t deadline co w (res, co', w')"
  proof (rule hd_wait_loop.raw_induct [of ?P, OF _ assms], goal_cases)
    case (1 loop modem monotonic slp t deadline co w r)
    obtain r1 w1 where st: "mp_rf_status modem (Some t) w = (r1, w1)" by (metis surj_pair)
    obtain r2 w2 where dg: "mp_rf_diagnostics modem (Some t) w1 = (r2, w2)" by (metis surj_pair)
    obtain now w3 where mo: "monotonic w2 = (now, w3)" by (metis surj_pair)
    let ?co = "co\<lparr>hd_tx_idle_polls := hd_tx_idle_polls co + 1\<rparr>"
    have co: "\<exists>n. co = co\<lparr>hd_tx_idle_polls := n\<rparr>" by (intro exI [of _ "hd_tx_idle_polls co"]) simp
    note eq = 1(2) [unfolded st dg prod.case mo Let_def]
    show ?case
    proof (cases r1)
      case (Inl e)
      with eq co show ?thesis by auto
    next
      case (Inr status)
      note r1 = this
      show ?thesis
      proof (cases r2)
        case (Inl e)
        with eq co r1 show ?thesis by auto
      next
        case (Inr diag)
        show ?thesis
        proof (cases "rf_remaining_selectors status = 0 \<and> rd_tx_active diag = 0")
          case True
          with eq r1 Inr have "r = (Inr (), ?co, w2)" by simp
          moreover have "tx_idle_seen modem t w2"
            unfolding tx_idle_seen_def using st dg r1 Inr True by blast
          ultimately show ?thesis by auto
        next
          case False
          then show ?thesis
            using eq r1 Inr 1(1) [of modem monotonic slp t deadline ?co _ r]
            by (auto split: if_splits)
        qed
      qed
    qed
  qed
  then show ?thesis by simp
qed

subsection \<open>One cycle\<close>

lemma checked_rx_status_Inr:
  "checked_rx_status modem t check w = (Inr (), w') \<longleftrightarrow>
     (\<exists>status. mp_rx_status modem (Some t) w = (Inr status, w') \<and> check status = Inr ())"
  unfolding checked_rx_status_def bind_op_Inr_iff by auto

text \<open>What the coordinator's counters say of the outcomes, and when it is latched.\<close>

definition hd_books :: "half_duplex \<Rightarrow> bool" where
  "hd_books co \<longleftrightarrow>
     hd_cycles_started co =
       hd_cycles_completed co + hd_pre_transmit_failures co + hd_downstream_failures co + hd_post_transmit_failures co \<and>
     hd_downstream_accepted co = hd_cycles_completed co + hd_post_transmit_failures co \<and>
     hd_recovered_downstream_failures co \<le> hd_downstream_failures co \<and>
     (hd_failed_latched co \<longleftrightarrow>
        0 < hd_pre_transmit_failures co \<or> 0 < hd_post_transmit_failures co \<or>
        hd_recovered_downstream_failures co < hd_downstream_failures co) \<and>
     \<not> hd_in_cycle co"

lemma record_unchanged [simp]:
  "\<exists>n. co = co\<lparr>hd_rx_stop_operations := n\<rparr>"
  "\<exists>p n. co\<lparr>hd_tx_idle_polls := m\<rparr> = co\<lparr>hd_tx_idle_polls := p, hd_rx_restart_operations := n\<rparr>"
  "\<exists>p n. co\<lparr>hd_tx_idle_polls := m, hd_rx_restart_operations := k\<rparr> =
     co\<lparr>hd_tx_idle_polls := p, hd_rx_restart_operations := n\<rparr>"
proof -
  show "\<exists>n. co = co\<lparr>hd_rx_stop_operations := n\<rparr>" by (intro exI [of _ "hd_rx_stop_operations co"]) simp
  show "\<exists>p n. co\<lparr>hd_tx_idle_polls := m\<rparr> = co\<lparr>hd_tx_idle_polls := p, hd_rx_restart_operations := n\<rparr>"
    by (intro exI [of _ m] exI [of _ "hd_rx_restart_operations co"]) simp
qed blast

lemma hd_restore_outcome:
  assumes "hd_restore modem monotonic slp t co w = Some (res, co', w')"
  shows "\<exists>m n. co' = co\<lparr>hd_tx_idle_polls := m, hd_rx_restart_operations := n\<rparr>"
    and "res = Inr () \<Longrightarrow> \<exists>w1 w2. tx_idle_seen modem t w1 \<and> mp_rx_start modem (Some t) w1 = (Inr (), w2) \<and>
      checked_rx_status modem t require_active_rx w2 = (Inr (), w')"
proof -
  obtain r1 co1 w1 where wait: "hd_wait_for_tx_idle modem monotonic slp t co w = Some (r1, co1, w1)"
    using assms by (auto simp: hd_restore_def split: option.splits prod.splits)
  then have out: "r1 = Inr () \<longrightarrow> tx_idle_seen modem t w1" "\<exists>n. co1 = co\<lparr>hd_tx_idle_polls := n\<rparr>"
    by (auto simp: hd_wait_for_tx_idle_def split: prod.splits dest: hd_wait_loop_outcome)
  obtain m where m: "co1 = co\<lparr>hd_tx_idle_polls := m\<rparr>" using out(2) by blast
  show "\<exists>m n. co' = co\<lparr>hd_tx_idle_polls := m, hd_rx_restart_operations := n\<rparr>"
    using assms wait m
    by (auto simp: hd_restore_def hd_restart_and_verify_rx_def Let_def split: sum.splits prod.splits)
  show "\<exists>w1 w2. tx_idle_seen modem t w1 \<and> mp_rx_start modem (Some t) w1 = (Inr (), w2) \<and>
      checked_rx_status modem t require_active_rx w2 = (Inr (), w')" if "res = Inr ()"
    using assms wait out(1) that
    by (auto simp: hd_restore_def hd_restart_and_verify_rx_def Let_def split: sum.splits prod.splits)
qed

lemma hd_pre_outcome:
  assumes "hd_pre_transmit modem t co w = (res, co', w')"
  shows "\<exists>n. co' = co\<lparr>hd_rx_stop_operations := n\<rparr>"
    and "res = Inr () \<Longrightarrow> \<exists>w1 w2. checked_rx_status modem t require_active_rx w = (Inr (), w1) \<and>
      mp_rx_stop modem (Some t) w1 = (Inr (), w2) \<and>
      checked_rx_status modem t require_inactive_rx w2 = (Inr (), w')"
proof -
  show "\<exists>n. co' = co\<lparr>hd_rx_stop_operations := n\<rparr>"
    using assms by (auto simp: hd_pre_transmit_def Let_def split: sum.splits prod.splits)
  show "\<exists>w1 w2. checked_rx_status modem t require_active_rx w = (Inr (), w1) \<and>
      mp_rx_stop modem (Some t) w1 = (Inr (), w2) \<and>
      checked_rx_status modem t require_inactive_rx w2 = (Inr (), w')" if "res = Inr ()"
    using assms that by (auto simp: hd_pre_transmit_def Let_def split: sum.splits prod.splits)
qed

lemma hd_cycle_books:
  assumes "hd_cycle modem submit monotonic slp (co\<lparr>hd_in_cycle := True, hd_cycles_started := hd_cycles_started co + 1\<rparr>)
      frame t w = Some (res, co', w')"
    and "hd_books co" "\<not> hd_failed_latched co"
  shows "hd_books (co'\<lparr>hd_in_cycle := False\<rparr>)"
proof -
  let ?co = "co\<lparr>hd_in_cycle := True, hd_cycles_started := hd_cycles_started co + 1\<rparr>"
  obtain r0 co0 w0 where pre: "hd_pre_transmit modem t ?co w = (r0, co0, w0)" by (metis prod_cases3)
  obtain n where co0: "co0 = ?co\<lparr>hd_rx_stop_operations := n\<rparr>" using hd_pre_outcome(1) [OF pre] by blast
  show ?thesis
  proof (cases r0)
    case (Inl e)
    with assms pre show ?thesis by (auto simp: hd_cycle_def co0 hd_books_def)
  next
    case ok: (Inr u)
    obtain r1 w1 where sub: "submit frame (Some t) w0 = (r1, w1)" by (metis surj_pair)
    let ?co1 = "case r1 of Inl _ \<Rightarrow> co0\<lparr>hd_downstream_failures := hd_downstream_failures co0 + 1\<rparr>
      | Inr _ \<Rightarrow> co0\<lparr>hd_downstream_accepted := hd_downstream_accepted co0 + 1\<rparr>"
    obtain r2 co2 w2 where rest: "hd_restore modem monotonic slp t ?co1 w1 = Some (r2, co2, w2)"
      using assms(1) pre ok sub by (auto simp: hd_cycle_def split: sum.splits option.splits prod.splits)
    obtain p q where "co2 = ?co1\<lparr>hd_tx_idle_polls := p, hd_rx_restart_operations := q\<rparr>"
      using hd_restore_outcome(1) [OF rest] by blast
    with assms pre ok sub rest show ?thesis
      by (cases r1; cases r2) (auto simp: hd_cycle_def co0 hd_books_def)
  qed
qed

lemma hd_submit_books:
  assumes "hd_books co" "hd_submit_frame modem submit monotonic slp co frame timeout w = Some (res, co', w')"
  shows "hd_books co'"
  using assms
  by (auto simp: hd_submit_frame_def Let_def split: if_splits option.splits intro: hd_cycle_books)

text \<open>A sequence of submissions.\<close>

fun hd_submits ::
  "'w modem_port \<Rightarrow> ('w, 'r) submitter \<Rightarrow> 'w clock \<Rightarrow> 'w sleeper \<Rightarrow> half_duplex \<Rightarrow> (bytes \<times> seconds option) list \<Rightarrow> 'w \<Rightarrow>
     (half_duplex \<times> 'w) option" where
  "hd_submits modem submit monotonic slp co [] w = Some (co, w)"
| "hd_submits modem submit monotonic slp co ((frame, timeout) # fs) w =
     (case hd_submit_frame modem submit monotonic slp co frame timeout w of
        None \<Rightarrow> None
      | Some (_, co, w) \<Rightarrow> hd_submits modem submit monotonic slp co fs w)"

lemma hd_submits_books:
  "hd_books co \<Longrightarrow> hd_submits modem submit monotonic slp co fs w = Some (co', w') \<Longrightarrow> hd_books co'"
proof (induction fs arbitrary: co w)
  case Nil
  then show ?case by simp
next
  case (Cons f fs)
  obtain frame timeout where f: "f = (frame, timeout)" by (cases f)
  with Cons.prems(2) obtain r co1 w1 where "hd_submit_frame modem submit monotonic slp co frame timeout w = Some (r, co1, w1)"
      "hd_submits modem submit monotonic slp co1 fs w1 = Some (co', w')"
    by (auto split: option.splits)
  from Cons.IH [OF hd_submit_books [OF Cons.prems(1) this(1)] this(2)] show ?case .
qed


lemma hd_complete_cycle:
  assumes "hd_submit_frame modem submit monotonic slp co frame (Some t) w = Some (Inr r, co', w')"
  shows "\<exists>w1 w2 w3 w4 w5 w6.
    checked_rx_status modem t require_active_rx w = (Inr (), w1) \<and>
    mp_rx_stop modem (Some t) w1 = (Inr (), w2) \<and>
    checked_rx_status modem t require_inactive_rx w2 = (Inr (), w3) \<and>
    submit frame (Some t) w3 = (Inr r, w4) \<and>
    tx_idle_seen modem t w5 \<and>
    mp_rx_start modem (Some t) w5 = (Inr (), w6) \<and>
    checked_rx_status modem t require_active_rx w6 = (Inr (), w') \<and>
    (\<exists>co1 co2. hd_restore modem monotonic slp t co1 w4 = Some (Inr (), co2, w')) \<and>
    \<not> hd_failed_latched co' \<and> \<not> hd_in_cycle co'"
proof -
  let ?co = "co\<lparr>hd_in_cycle := True, hd_cycles_started := hd_cycles_started co + 1\<rparr>"
  have unlatched: "\<not> hd_failed_latched co" using assms by (auto simp: hd_submit_frame_def)
  obtain co1 where cyc: "hd_cycle modem submit monotonic slp ?co frame t w = Some (Inr r, co1, w')"
    and co': "co' = co1\<lparr>hd_in_cycle := False\<rparr>"
    using assms by (auto simp: hd_submit_frame_def Let_def split: if_splits option.splits)
  obtain r0 co0 w0 where pre: "hd_pre_transmit modem t ?co w = (r0, co0, w0)" by (metis prod_cases3)
  have r0: "r0 = Inr ()" using cyc pre by (cases r0) (auto simp: hd_cycle_def)
  obtain n where co0: "co0 = ?co\<lparr>hd_rx_stop_operations := n\<rparr>" using hd_pre_outcome(1) [OF pre] by blast
  obtain w4 where sub: "submit frame (Some t) w0 = (Inr r, w4)"
    using cyc pre r0 by (auto simp: hd_cycle_def split: sum.splits option.splits prod.splits)
  obtain co2 where rest: "hd_restore modem monotonic slp t
      (co0\<lparr>hd_downstream_accepted := hd_downstream_accepted co0 + 1\<rparr>) w4 = Some (Inr (), co2, w')"
    and co1: "co1 = co2\<lparr>hd_cycles_completed := hd_cycles_completed co2 + 1\<rparr>"
    using cyc pre r0 sub by (auto simp: hd_cycle_def split: sum.splits option.splits prod.splits)
  have "\<not> hd_failed_latched co'"
    using hd_restore_outcome(1) [OF rest] unlatched by (auto simp: co' co1 co0)
  moreover obtain w1 w2 where "checked_rx_status modem t require_active_rx w = (Inr (), w1)" "mp_rx_stop modem (Some t) w1 = (Inr (), w2)"
    "checked_rx_status modem t require_inactive_rx w2 = (Inr (), w0)" using hd_pre_outcome(2) [OF pre r0] by blast
  moreover obtain w5 w6 where "tx_idle_seen modem t w5" "mp_rx_start modem (Some t) w5 = (Inr (), w6)"
    "checked_rx_status modem t require_active_rx w6 = (Inr (), w')" using hd_restore_outcome(2) [OF rest] by blast
  ultimately show ?thesis using sub rest co' by (intro exI conjI) (assumption | simp)+
qed

text \<open>
  A successful submission is one complete half-duplex cycle: reception was proved active,
  stopped, and proved inactive before the frame was handed downstream, once; the transmitter was
  then seen idle before reception was restarted; and reception is proved active at the end.
\<close>

theorem hd_success_is_complete_cycle:
  assumes "hd_submit_frame modem submit monotonic slp co frame (Some t) w = Some (Inr r, co', w')"
  shows "\<exists>w1 w2 w3 w4 w5 w6.
    checked_rx_status modem t require_active_rx w = (Inr (), w1) \<and>
    mp_rx_stop modem (Some t) w1 = (Inr (), w2) \<and>
    checked_rx_status modem t require_inactive_rx w2 = (Inr (), w3) \<and>
    submit frame (Some t) w3 = (Inr r, w4) \<and>
    tx_idle_seen modem t w5 \<and>
    mp_rx_start modem (Some t) w5 = (Inr (), w6) \<and>
    checked_rx_status modem t require_active_rx w6 = (Inr (), w') \<and>
    \<not> hd_failed_latched co' \<and> \<not> hd_in_cycle co'"
  using hd_complete_cycle [OF assms] by blast

lemma hd_submit_ends:
  assumes "clock_laws modem monotonic slp time" "0 < hp_tx_idle_poll_seconds (hd_parameters co)"
  shows "\<exists>r. hd_submit_frame modem submit monotonic slp co frame timeout w = Some r"
proof -
  have restore: "\<exists>r. hd_restore modem monotonic slp t co w = Some r"
    if "hd_parameters co = hd_parameters co'" "0 < hp_tx_idle_poll_seconds (hd_parameters co')" for t co co' w
    using hd_wait_returns [OF assms(1), of co t w] that
    by (auto simp: hd_restore_def split: option.splits sum.splits) (metis prod_cases3)
  have "\<exists>r. hd_cycle modem submit monotonic slp
      (co\<lparr>hd_in_cycle := True, hd_cycles_started := hd_cycles_started co + 1\<rparr>) frame t w = Some r" for t
  proof -
    let ?co = "co\<lparr>hd_in_cycle := True, hd_cycles_started := hd_cycles_started co + 1\<rparr>"
    obtain r0 co0 w0 where pre: "hd_pre_transmit modem t ?co w = (r0, co0, w0)" by (metis prod_cases3)
    obtain n where co0: "co0 = ?co\<lparr>hd_rx_stop_operations := n\<rparr>" using hd_pre_outcome(1) [OF pre] by blast
    obtain r1 w1 where sub: "submit frame (Some t) w0 = (r1, w1)" by (metis surj_pair)
    have "\<exists>r. hd_restore modem monotonic slp t (co0\<lparr>hd_downstream_failures := k\<rparr>) w1 = Some r"
      "\<exists>r. hd_restore modem monotonic slp t (co0\<lparr>hd_downstream_accepted := k\<rparr>) w1 = Some r" for k
      using assms(2) by (intro restore [where co' = co]; simp add: co0)+
    then show ?thesis
      using pre sub by (cases r0; cases r1) (fastforce simp: hd_cycle_def split: option.splits sum.splits)+
  qed
  then obtain res co' w' where "hd_cycle modem submit monotonic slp
      (co\<lparr>hd_in_cycle := True, hd_cycles_started := hd_cycles_started co + 1\<rparr>) frame
      (case timeout of None \<Rightarrow> hp_transaction_timeout_seconds (hd_parameters co) | Some t \<Rightarrow> t) w = Some (res, co', w')"
    by (metis prod_cases3)
  then show ?thesis by (simp add: hd_submit_frame_def Let_def)
qed

text \<open>
  C34. A submission returns. With a clock that does not run backwards, a sleeper that sleeps as long as
  asked and transactions that take time, every call of the coordinator ends, whatever the modem
  reports and whatever happens downstream.
\<close>

theorem hd_submit_returns:
  assumes "clock_laws modem monotonic slp time" "0 < hp_tx_idle_poll_seconds (hd_parameters co)"
  shows "\<exists>r. hd_submit_frame modem submit monotonic slp co frame timeout w = Some r"
  using assms by (rule hd_submit_ends)

lemma bench_clock_laws: "clock_laws bench_port bench_clock bench_sleep bn_time"
  by (simp add: clock_laws_def bench_port_def bench_clock_def bench_sleep_def)

abbreviation "bench_hd \<equiv> hd_init \<lparr>hp_transaction_timeout_seconds = 3 / 2, hp_tx_idle_poll_seconds = 1 / 20,
  hp_tx_idle_timeout_seconds = 5\<rparr>"

theorem hd_submit_returns_witness:
  "\<exists>r. hd_submit_frame bench_port (\<lambda>frame t w. (Inl TXBrokerBusy :: (tx_exn, unit) result, w)) bench_clock bench_sleep
     bench_hd [1, 2, 3] None bench_start = Some r"
  by (rule hd_submit_returns [OF bench_clock_laws]) (simp add: hd_init_def)

lemmas hd_cycle_defs =
  hd_submit_frame_def hd_cycle_def hd_pre_transmit_def checked_rx_status_def bind_op_def
  require_active_rx_def require_inactive_rx_def hd_restore_def hd_wait_for_tx_idle_def hd_wait_loop.simps
  hd_restart_and_verify_rx_def hd_init_def ACTIVE_RX_REQUIRED_MASK_def RX_ACTIVE_FLAG_def TX_ACTIVE_FLAG_def

text \<open>A coordinator on the bench sends one frame, and another whose downstream fails.\<close>

lemma bench_hd_sends:
  "\<exists>co w. hd_submit_frame bench_port (\<lambda>frame t w. (Inr (length frame), w\<lparr>bn_sent := bn_sent w + 1\<rparr>)) bench_clock
     bench_sleep bench_hd [1, 2, 3] (Some 1) bench_start = Some (Inr 3, co, w)"
  by (simp add: hd_cycle_defs bench_port_def bench_clock_def)

theorem hd_success_is_complete_cycle_witness:
  "\<exists>co w w5. hd_submit_frame bench_port (\<lambda>frame t w. (Inr (length frame), w\<lparr>bn_sent := bn_sent w + 1\<rparr>)) bench_clock
      bench_sleep bench_hd [1, 2, 3] (Some 1) bench_start = Some (Inr 3, co, w) \<and>
    tx_idle_seen bench_port 1 w5 \<and> \<not> hd_failed_latched co"
proof -
  obtain co w where sent: "hd_submit_frame bench_port (\<lambda>frame t w. (Inr (length frame), w\<lparr>bn_sent := bn_sent w + 1\<rparr>)) bench_clock
     bench_sleep bench_hd [1, 2, 3] (Some 1) bench_start = Some (Inr 3, co, w)"
    using bench_hd_sends by (elim exE)
  from hd_success_is_complete_cycle [OF this] obtain w5 where "tx_idle_seen bench_port 1 w5" "\<not> hd_failed_latched co"
    by (elim exE conjE)
  with sent show ?thesis by (intro exI conjI)
qed


subsection \<open>What every modem operation keeps, a submission keeps\<close>

text \<open>
  The interface on which a coordinator relies when its modem has an invariant of its own: every
  operation of the port, the clock and the sleeper keep it.
\<close>

locale kept_modem =
  fixes modem :: "'w modem_port"
    and monotonic :: "'w clock"
    and slp :: "'w sleeper"
    and kept :: "'w \<Rightarrow> bool"
  assumes rx_status_kept: "kept w \<Longrightarrow> kept (snd (mp_rx_status modem t w))"
    and rx_stop_kept: "kept w \<Longrightarrow> kept (snd (mp_rx_stop modem t w))"
    and rx_start_kept: "kept w \<Longrightarrow> kept (snd (mp_rx_start modem t w))"
    and rf_status_kept: "kept w \<Longrightarrow> kept (snd (mp_rf_status modem t w))"
    and rf_diagnostics_kept: "kept w \<Longrightarrow> kept (snd (mp_rf_diagnostics modem t w))"
    and clock_kept: "kept w \<Longrightarrow> kept (snd (monotonic w))"
    and sleep_kept: "kept w \<Longrightarrow> kept (slp d w)"
begin

lemma kept_snd: "m w = (r, w') \<Longrightarrow> kept (snd (m w)) \<Longrightarrow> kept w'"
  by simp

lemma checked_kept: "kept w \<Longrightarrow> kept (snd (checked_rx_status modem t check w))"
  using rx_status_kept [of w "Some t"]
  by (auto simp: checked_rx_status_def bind_op_def split: prod.splits sum.splits)

lemma pre_transmit_kept:
  assumes "kept w" "hd_pre_transmit modem t co w = (res, co', w')"
  shows "kept w'"
proof -
  obtain r1 w1 where c1: "checked_rx_status modem t require_active_rx w = (r1, w1)" by fastforce
  obtain r2 w2 where c2: "mp_rx_stop modem (Some t) w1 = (r2, w2)" by fastforce
  obtain r3 w3 where c3: "checked_rx_status modem t require_inactive_rx w2 = (r3, w3)" by fastforce
  have "kept w1" using checked_kept [OF assms(1), of t require_active_rx] c1 by simp
  moreover from this have "kept w2" using rx_stop_kept [of w1 "Some t"] c2 by simp
  moreover from this have "kept w3" using checked_kept [of w2 t require_inactive_rx] c3 by simp
  ultimately show ?thesis
    using assms(2) c1 c2 c3 by (auto simp: hd_pre_transmit_def Let_def split: sum.splits)
qed

lemma wait_loop_kept:
  assumes "kept w" "hd_wait_loop modem monotonic slp t deadline co w = Some (res, co', w')"
  shows "kept w'"
proof -
  let ?P = "\<lambda>m c s (t :: seconds) (d :: seconds) (co :: half_duplex) w r.
    m = modem \<longrightarrow> c = monotonic \<longrightarrow> s = slp \<longrightarrow> kept w \<longrightarrow> kept (snd (snd (r :: (tx_exn, unit) result \<times> half_duplex \<times> 'w)))"
  have "?P modem monotonic slp t deadline co w (res, co', w')"
  proof (rule hd_wait_loop.raw_induct [of ?P, OF _ assms(2)], goal_cases)
    case (1 loop m c s t deadline co w r)
    obtain r1 w1 where st: "mp_rf_status m (Some t) w = (r1, w1)" by (metis surj_pair)
    obtain r2 w2 where dg: "mp_rf_diagnostics m (Some t) w1 = (r2, w2)" by (metis surj_pair)
    obtain now w3 where mo: "c w2 = (now, w3)" by (metis surj_pair)
    note eq = 1(2) [unfolded st dg prod.case mo Let_def]
    show ?case
    proof (intro impI)
      assume m: "m = modem" "c = monotonic" "s = slp" "kept w"
      have k1: "kept w1" using rf_status_kept [OF m(4), of "Some t"] st m by simp
      have k2: "kept w2" using rf_diagnostics_kept [OF k1, of "Some t"] dg m by simp
      have k3: "kept w3" using clock_kept [OF k2] mo m by simp
      from eq m k1 k2 k3 1(1) sleep_kept [OF k3] show "kept (snd (snd r))"
        by (cases r1; cases r2) (auto split: if_splits)
    qed
  qed
  with assms(1) show ?thesis by simp
qed

lemma restore_kept:
  assumes "kept w" "hd_restore modem monotonic slp t co w = Some (res, co', w')"
  shows "kept w'"
proof -
  obtain t0 w0 where mo: "monotonic w = (t0, w0)" by fastforce
  then have k0: "kept w0" using clock_kept [OF assms(1)] by simp
  obtain r1 co1 w1 where wait: "hd_wait_for_tx_idle modem monotonic slp t co w = Some (r1, co1, w1)"
    using assms(2) by (auto simp: hd_restore_def split: option.splits)
  with mo have k1: "kept w1" using wait_loop_kept [OF k0] by (auto simp: hd_wait_for_tx_idle_def)
  obtain r2 w2 where st: "mp_rx_start modem (Some t) w1 = (r2, w2)" by fastforce
  have k2: "kept w2" using rx_start_kept [OF k1, of "Some t"] st by simp
  obtain r3 w3 where ch: "checked_rx_status modem t require_active_rx w2 = (r3, w3)" by fastforce
  have "kept w3" using checked_kept [OF k2, of t require_active_rx] ch by simp
  with assms(2) wait st ch k1 k2 show ?thesis
    by (auto simp: hd_restore_def hd_restart_and_verify_rx_def Let_def split: sum.splits)
qed

lemma submit_kept:
  assumes "\<And>frame t w. kept w \<Longrightarrow> kept (snd (submit frame t w))"
    and "kept w" "hd_submit_frame modem submit monotonic slp co frame timeout w = Some (res, co', w')"
  shows "kept w'"
proof -
  have cycle: "kept w'"
    if "hd_cycle modem submit monotonic slp co frame t w = Some (res, co', w')" for co co' t
  proof -
    obtain r1 co1 w1 where pre: "hd_pre_transmit modem t co w = (r1, co1, w1)" by (metis prod_cases3)
    obtain r2 w2 where sub: "submit frame (Some t) w1 = (r2, w2)" by fastforce
    have k1: "kept w1" by (rule pre_transmit_kept [OF assms(2) pre])
    have k2: "kept w2" using assms(1) [OF k1, of frame "Some t"] sub by simp
    from that pre sub k1 show ?thesis
      by (cases r1; cases r2)
        (auto simp: hd_cycle_def split: option.splits sum.splits prod.splits dest: restore_kept [OF k2])
  qed
  from assms(2,3) show ?thesis
    by (auto simp: hd_submit_frame_def Let_def split: if_splits option.splits prod.splits dest: cycle)
qed

end

end
