(* ===== verification/Contextual.thy ===== *)
theory Contextual
  imports Tx_Broker Half_Duplex "HOL-Library.AList"
begin

section \<open>The context-preserving transmit adapters\<close>

text \<open>
  \<open>src/src/ywd1278/tx/contextual.py\<close>: the router that keeps one broker per transmit delay, and the
  submitter that arms one request's context around one half-duplex cycle. A request context is
  used only for its transmit-delay profile and is that profile here. The dict of brokers is an
  association list in insertion order. The coordinator's world is the adapter's armed context, the
  router and the modem's world together.
\<close>

subsection \<open>Model: the router\<close>

record tx_router =
  rt_transmit_enabled :: bool
  rt_broker_queue_capacity :: int
  rt_broker_submit_timeout :: seconds
  rt_default_transaction_timeout :: seconds
  rt_brokers :: "(int \<times> tx_broker) list"
  rt_closed :: bool
  rt_submissions :: nat
  rt_failures :: nat

definition router_init :: "bool \<Rightarrow> int \<Rightarrow> seconds \<Rightarrow> seconds \<Rightarrow> (tx_exn, tx_router) result" where
  "router_init transmit_enabled broker_queue_capacity broker_submit_timeout default_transaction_timeout =
     (if broker_queue_capacity < 1 then Inl ConstructionError
      else Inr \<lparr>rt_transmit_enabled = transmit_enabled, rt_broker_queue_capacity = broker_queue_capacity,
        rt_broker_submit_timeout = broker_submit_timeout,
        rt_default_transaction_timeout = default_transaction_timeout, rt_brokers = [],
        rt_closed = False, rt_submissions = 0, rt_failures = 0\<rparr>)"

text \<open>\<open>TXDelayBroker(owner, txdelay_units=units, ...)\<close> followed by \<open>start()\<close>.\<close>

definition txdelay_broker_started :: "tx_router \<Rightarrow> int \<Rightarrow> (tx_exn, tx_broker) result" where
  "txdelay_broker_started r units =
     (case resolve_txdelay units of
        Inl _ \<Rightarrow> Inl ConstructionError
      | Inr profile \<Rightarrow>
          (case broker_init (tp_pre_flags profile) (rt_transmit_enabled r) (rt_broker_queue_capacity r)
              (rt_broker_submit_timeout r) (rt_default_transaction_timeout r) of
             Inl _ \<Rightarrow> Inl ConstructionError
           | Inr b \<Rightarrow>
               (case broker_start b of (Inl e, _) \<Rightarrow> Inl e | (Inr _, b) \<Rightarrow> Inr b)))"

definition router_broker :: "tx_router \<Rightarrow> int \<Rightarrow> (tx_exn, tx_broker) result" where
  "router_broker r units =
     (case map_of (rt_brokers r) units of
        Some b \<Rightarrow> Inr b
      | None \<Rightarrow> txdelay_broker_started r units)"

definition router_submit_frame ::
  "(bytes \<Rightarrow> string) \<Rightarrow> 'w modem_port \<Rightarrow> tx_router \<Rightarrow> bytes \<Rightarrow> txdelay_profile \<Rightarrow> seconds option \<Rightarrow> 'w \<Rightarrow>
     (tx_exn, tx_receipt) result \<times> tx_router \<times> 'w" where
  "router_submit_frame sha owner r frame profile timeout w =
     (if rt_closed r then (Inl RouterClosed, r, w)
      else
        (case router_broker r (tp_units profile) of
           Inl e \<Rightarrow> (Inl e, r, w)
         | Inr b \<Rightarrow>
             (let (res, b, w) = broker_submit_frame sha owner b frame timeout w;
                  r = r\<lparr>rt_brokers := AList.update (tp_units profile) b (rt_brokers r)\<rparr>
              in
              case res of
                Inl e \<Rightarrow> (Inl e, r\<lparr>rt_failures := rt_failures r + 1\<rparr>, w)
              | Inr receipt \<Rightarrow> (Inr receipt, r\<lparr>rt_submissions := rt_submissions r + 1\<rparr>, w))))"

text \<open>\<open>close\<close>: stop every broker in turn, collecting failures.\<close>

fun stop_brokers ::
  "'w modem_port \<Rightarrow> (int \<times> tx_broker) list \<Rightarrow> 'w \<Rightarrow> tx_exn list \<times> (int \<times> tx_broker) list \<times> 'w" where
  "stop_brokers owner [] w = ([], [], w)"
| "stop_brokers owner ((u, b) # bs) w =
     (let (res, b, w) = broker_stop owner 2 b w;
          (errors, bs, w) = stop_brokers owner bs w
      in ((case res of Inl e \<Rightarrow> e # errors | Inr _ \<Rightarrow> errors), (u, b) # bs, w))"

definition router_close :: "'w modem_port \<Rightarrow> tx_router \<Rightarrow> 'w \<Rightarrow> (tx_exn, unit) result \<times> tx_router \<times> 'w" where
  "router_close owner r w =
     (if rt_closed r then (Inr (), r, w)
      else
        (let (errors, brokers, w) = stop_brokers owner (rt_brokers r) w
         in (if errors \<noteq> [] then Inl RouterStopFailed else Inr (),
             r\<lparr>rt_closed := True, rt_brokers := brokers\<rparr>, w)))"

subsection \<open>Model: the armed adapter and the submitter\<close>

text \<open>A port whose world carries more than the modem's.\<close>

definition lift_op :: "('w, 'a) operation \<Rightarrow> ('s \<times> 'w, 'a) operation" where
  "lift_op m = (\<lambda>(s, w). let (r, w') = m w in (r, (s, w')))"

definition lift_port :: "'w modem_port \<Rightarrow> ('s \<times> 'w) modem_port" where
  "lift_port p =
     \<lparr>mp_snapshot = (\<lambda>(s, w). mp_snapshot p w),
      mp_get_version = (\<lambda>t. lift_op (mp_get_version p t)),
      mp_set_rx_frequency = (\<lambda>f t. lift_op (mp_set_rx_frequency p f t)),
      mp_arm_rx_modem_io = (\<lambda>t. lift_op (mp_arm_rx_modem_io p t)),
      mp_rx_read = (\<lambda>n t. lift_op (mp_rx_read p n t)),
      mp_rx_status = (\<lambda>t. lift_op (mp_rx_status p t)), mp_rx_start = (\<lambda>t. lift_op (mp_rx_start p t)),
      mp_rx_stop = (\<lambda>t. lift_op (mp_rx_stop p t)), mp_rx_rssi = (\<lambda>t. lift_op (mp_rx_rssi p t)),
      mp_rf_status = (\<lambda>t. lift_op (mp_rf_status p t)),
      mp_rf_diagnostics = (\<lambda>t. lift_op (mp_rf_diagnostics p t)),
      mp_transmit_selector_burst = (\<lambda>n s t. lift_op (mp_transmit_selector_burst p n s t))\<rparr>"

definition lift_clock :: "'w clock \<Rightarrow> ('s \<times> 'w) clock" where
  "lift_clock monotonic = (\<lambda>(s, w). let (t, w') = monotonic w in (t, (s, w')))"

definition lift_sleep :: "'w sleeper \<Rightarrow> ('s \<times> 'w) sleeper" where
  "lift_sleep slp = (\<lambda>d (s, w). (s, slp d w))"

type_synonym adapter_state = "txdelay_profile option \<times> tx_router"

definition adapter_submit_frame ::
  "(bytes \<Rightarrow> string) \<Rightarrow> 'w modem_port \<Rightarrow> (adapter_state \<times> 'w, tx_receipt) submitter" where
  "adapter_submit_frame sha owner frame timeout = (\<lambda>((context, r), w).
     case context of
       None \<Rightarrow> (Inl ContextNotArmed, ((context, r), w))
     | Some profile \<Rightarrow>
         (let (res, r, w) = router_submit_frame sha owner r frame profile timeout w
          in (res, ((context, r), w))))"

record contextual_submitter =
  ch_adapter :: "txdelay_profile option"
  ch_router :: tx_router
  ch_lifecycle :: half_duplex

definition contextual_init :: "tx_router \<Rightarrow> hd_parameters \<Rightarrow> contextual_submitter" where
  "contextual_init r parameters = \<lparr>ch_adapter = None, ch_router = r, ch_lifecycle = hd_init parameters\<rparr>"

definition contextual_submit_frame ::
  "(bytes \<Rightarrow> string) \<Rightarrow> 'w modem_port \<Rightarrow> 'w clock \<Rightarrow> 'w sleeper \<Rightarrow> contextual_submitter \<Rightarrow> bytes \<Rightarrow> txdelay_profile \<Rightarrow>
     seconds option \<Rightarrow> 'w \<Rightarrow> ((tx_exn, tx_receipt) result \<times> contextual_submitter \<times> 'w) option" where
  "contextual_submit_frame sha modem monotonic slp c frame context timeout w =
     (if ch_adapter c \<noteq> None then Some (Inl ContextAlreadyArmed, c, w)
      else
        (case hd_submit_frame (lift_port modem) (adapter_submit_frame sha modem) (lift_clock monotonic)
            (lift_sleep slp) (ch_lifecycle c) frame timeout ((Some context, ch_router c), w) of
           None \<Rightarrow> None
         | Some (res, co, ((_, r), w)) \<Rightarrow>
             Some (res, c\<lparr>ch_adapter := None, ch_router := r, ch_lifecycle := co\<rparr>, w)))"

subsection \<open>The router keeps its brokers straight\<close>

text \<open>
  Every broker of an open router is idle, carries the flags of the delay it is filed under, and has
  the router's transmit authority.
\<close>

definition broker_for :: "tx_router \<Rightarrow> int \<Rightarrow> tx_broker \<Rightarrow> bool" where
  "broker_for r units b \<longleftrightarrow>
     (\<exists>p. resolve_txdelay units = Inr p \<and> br_pre_flags b = tp_pre_flags p) \<and>
     broker_ready b \<and> br_transmit_enabled b = rt_transmit_enabled r"

definition router_ok :: "tx_router \<Rightarrow> bool" where
  "router_ok r \<longleftrightarrow> (\<forall>u b. map_of (rt_brokers r) u = Some b \<longrightarrow> broker_for r u b)"

lemma txdelay_broker_started_for:
  "txdelay_broker_started r u = Inr b \<Longrightarrow> broker_for r u b"
  by (auto simp: txdelay_broker_started_def broker_for_def broker_init_def broker_start_def broker_ready_def
      split: sum.splits if_splits)

lemma router_broker_for: "router_ok r \<Longrightarrow> router_broker r u = Inr b \<Longrightarrow> broker_for r u b"
  by (auto simp: router_broker_def router_ok_def txdelay_broker_started_for split: option.splits)

text \<open>A submission keeps the broker idle and its settings.\<close>

lemma broker_submit_keeps:
  assumes "broker_ready b" "broker_submit_frame sha owner b frame timeout w = (res, b', w')"
  shows "broker_ready b' \<and> br_pre_flags b' = br_pre_flags b \<and> br_transmit_enabled b' = br_transmit_enabled b"
proof (cases "broker_submit_begin sha b frame timeout")
  case (Pair r b1)
  show ?thesis
  proof (cases r)
    case (Inl e)
    with Pair assms show ?thesis
      by (auto simp: broker_submit_frame_def broker_submit_begin_def broker_ready_def Let_def
          split: if_splits sum.splits option.splits)
  next
    case (Inr job)
    with Pair assms(1) have b1: "br_queue b1 = [Job job]" "br_thread b1 = ThreadAlive" "br_accepting b1"
      "br_queue_capacity b1 = br_queue_capacity b" "br_pre_flags b1 = br_pre_flags b"
      "br_transmit_enabled b1 = br_transmit_enabled b" "1 \<le> br_queue_capacity b"
      by (auto simp: broker_submit_begin_def broker_ready_def Let_def split: if_splits sum.splits option.splits)
    from broker_worker_job [OF b1(1,3), of owner w] obtain b2 where
      "broker_worker_step owner b1 w = (b2, snd (broker_transmit owner job w))" "br_queue b2 = []"
      "br_thread b2 = br_thread b1" "br_accepting b2" "br_queue_capacity b2 = br_queue_capacity b1"
      "br_transmit_enabled b2 = br_transmit_enabled b1" "br_pre_flags b2 = br_pre_flags b1"
      by (elim exE conjE)
    with assms(2) Pair Inr b1 show ?thesis
      by (auto simp: broker_submit_frame_def broker_ready_def)
  qed
qed

lemma router_submit_ok:
  assumes "router_ok r" "router_submit_frame sha owner r frame profile timeout w = (res, r', w')"
  shows "router_ok r' \<and> rt_transmit_enabled r' = rt_transmit_enabled r \<and> rt_closed r' = rt_closed r"
proof (cases "rt_closed r \<or> (\<exists>e. router_broker r (tp_units profile) = Inl e)")
  case True
  with assms show ?thesis by (auto simp: router_submit_frame_def split: if_splits)
next
  case False
  then obtain b where b: "router_broker r (tp_units profile) = Inr b" by (cases "router_broker r (tp_units profile)") auto
  obtain res1 b1 w1 where sub: "broker_submit_frame sha owner b frame timeout w = (res1, b1, w1)" by (metis prod_cases3)
  have bf: "broker_for r (tp_units profile) b" using router_broker_for assms(1) b by blast
  with broker_submit_keeps [OF _ sub] have "broker_for r (tp_units profile) b1"
    by (auto simp: broker_for_def)
  with assms(1) have "router_ok (r\<lparr>rt_brokers := AList.update (tp_units profile) b1 (rt_brokers r)\<rparr>)"
    by (auto simp: router_ok_def update_conv' broker_for_def)
  with assms(2) False b sub show ?thesis
    by (auto simp: router_submit_frame_def router_ok_def broker_for_def Let_def split: sum.splits)
qed

text \<open>The burst a receipt stands for: one idle status, one accepted burst of the prepared selectors.\<close>

definition one_burst ::
  "(bytes \<Rightarrow> string) \<Rightarrow> 'w modem_port \<Rightarrow> int \<Rightarrow> bytes \<Rightarrow> seconds \<Rightarrow> 'w \<Rightarrow> tx_receipt \<Rightarrow> 'w \<Rightarrow> bool" where
  "one_burst sha owner pre frame t w receipt w' \<longleftrightarrow>
     (\<exists>packed status w1. prepare_frame sha pre frame = Inr (receipt, packed) \<and>
        mp_rf_status owner (Some t) w = (Inr status, w1) \<and> rf_remaining_selectors status = 0 \<and>
        mp_transmit_selector_burst owner (tr_selector_count receipt) packed (Some t) w1 = (Inr (), w'))"

lemma caller_receipt:
  "((case fst p of Inl e \<Rightarrow> Inl (f e) | Inr _ \<Rightarrow> Inr r), b1, snd p) = (Inr r', b', w') \<Longrightarrow> p = (Inr (), w') \<and> r = r'"
  by (cases p; cases "fst p") auto

lemma broker_receipt_one_burst:
  assumes "broker_ready b" "broker_submit_frame sha owner b frame (Some t) w = (Inr receipt, b', w')"
  shows "br_transmit_enabled b \<and> one_burst sha owner (br_pre_flags b) frame t w receipt w'"
proof -
  have en: "br_transmit_enabled b" "0 < t"
    using assms(2) by (auto simp: broker_submit_frame_def broker_submit_begin_def split: if_splits)
  obtain receipt1 packed where prep: "prepare_frame sha (br_pre_flags b) frame = Inr (receipt1, packed)"
    using assms en
    by (cases "prepare_frame sha (br_pre_flags b) frame")
      (auto simp: broker_submit_frame_def broker_submit_begin_def broker_ready_def)
  let ?job = "\<lparr>jb_number = br_next_job b, jb_receipt = receipt1, jb_packed_selectors = packed, jb_transaction_timeout = t\<rparr>"
  from broker_submit_idle [OF assms(1) en prep, of owner w]
  obtain b1 where "broker_submit_frame sha owner b frame (Some t) w =
      ((case fst (broker_transmit owner ?job w) of Inl e \<Rightarrow> Inl (broker_caller_error e) | Inr _ \<Rightarrow> Inr receipt1),
       b1, snd (broker_transmit owner ?job w))"
    by (elim exE conjE)
  with assms(2) have "broker_transmit owner ?job w = (Inr (), w') \<and> receipt1 = receipt"
    by (intro caller_receipt) (rule trans [OF sym])
  with prep en show ?thesis
    unfolding one_burst_def broker_transmit_def bind_op_Inr_iff by (auto split: if_splits)
qed

lemma router_receipt_one_burst:
  assumes "router_ok r" "router_submit_frame sha owner r frame profile (Some t) w = (Inr receipt, r', w')"
    and "resolve_txdelay (tp_units profile) = Inr profile"
  shows "rt_transmit_enabled r \<and> one_burst sha owner (tp_pre_flags profile) frame t w receipt w'"
proof -
  obtain b where b: "router_broker r (tp_units profile) = Inr b"
    using assms(2) by (cases "router_broker r (tp_units profile)") (auto simp: router_submit_frame_def split: if_splits)
  have bf: "broker_for r (tp_units profile) b" using router_broker_for assms(1) b by blast
  then have ready: "broker_ready b" and flags: "br_pre_flags b = tp_pre_flags profile"
    and en: "br_transmit_enabled b = rt_transmit_enabled r"
    using assms(3) by (auto simp: broker_for_def)
  obtain b' where "broker_submit_frame sha owner b frame (Some t) w = (Inr receipt, b', w')"
    using assms(2) b by (auto simp: router_submit_frame_def Let_def split: if_splits prod.splits sum.splits)
  from broker_receipt_one_burst [OF ready this] flags en show ?thesis by simp
qed

text \<open>Without transmit authority the router never reaches the modem.\<close>

lemma router_disabled_inert:
  assumes "router_ok r" "\<not> rt_transmit_enabled r"
  shows "\<exists>e r'. router_submit_frame sha owner r frame profile timeout w = (Inl e, r', w)"
proof (cases "rt_closed r \<or> (\<exists>e. router_broker r (tp_units profile) = Inl e)")
  case True
  then show ?thesis by (auto simp: router_submit_frame_def)
next
  case False
  then obtain b where b: "router_broker r (tp_units profile) = Inr b" by (cases "router_broker r (tp_units profile)") auto
  with router_broker_for assms have "\<not> br_transmit_enabled b" by (auto simp: broker_for_def)
  with False b show ?thesis
    by (simp add: router_submit_frame_def broker_submit_frame_def broker_submit_begin_def)
qed

subsection \<open>One request through the coordinator\<close>

lemma lift_op_Inr: "lift_op m (s, w) = (r, (s', w')) \<longleftrightarrow> s' = s \<and> m w = (r, w')"
  by (auto simp: lift_op_def split: prod.splits)

text \<open>A receipt, with the whole cycle around the burst.\<close>

lemma contextual_receipt_cycle:
  assumes "contextual_submit_frame sha modem monotonic slp c frame profile (Some t) w = Some (Inr receipt, c', w')"
    and "router_ok (ch_router c)" "resolve_txdelay (tp_units profile) = Inr profile"
  shows "rt_transmit_enabled (ch_router c) \<and>
    (\<exists>w1 w2 w3 w4. checked_rx_status modem t require_active_rx w = (Inr (), w1) \<and>
       mp_rx_stop modem (Some t) w1 = (Inr (), w2) \<and>
       checked_rx_status modem t require_inactive_rx w2 = (Inr (), w3) \<and>
       one_burst sha modem (tp_pre_flags profile) frame t w3 receipt w4 \<and>
       (\<exists>s4 s5 co1 co2. hd_restore (lift_port modem) (lift_clock monotonic) (lift_sleep slp) t co1 (s4 :: adapter_state, w4) =
         Some (Inr (), co2, (s5, w')))) \<and>
    (\<exists>w5. checked_rx_status modem t require_active_rx w5 = (Inr (), w')) \<and>
    ch_adapter c' = None \<and> \<not> hd_failed_latched (ch_lifecycle c')"
proof -
  obtain co ctx r where
    hd: "hd_submit_frame (lift_port modem) (adapter_submit_frame sha modem) (lift_clock monotonic)
       (lift_sleep slp) (ch_lifecycle c) frame (Some t) ((Some profile, ch_router c), w) = Some (Inr receipt, co, ((ctx, r), w'))"
    and c': "c' = c\<lparr>ch_adapter := None, ch_router := r, ch_lifecycle := co\<rparr>"
    using assms(1) by (auto simp: contextual_submit_frame_def split: if_splits option.splits)
  obtain v1 v2 v3 v4 v6 co1 co2 where
    pre: "checked_rx_status (lift_port modem) t require_active_rx ((Some profile, ch_router c), w) = (Inr (), v1)"
      "mp_rx_stop (lift_port modem) (Some t) v1 = (Inr (), v2)"
      "checked_rx_status (lift_port modem) t require_inactive_rx v2 = (Inr (), v3)"
    and sub: "adapter_submit_frame sha modem frame (Some t) v3 = (Inr receipt, v4)"
    and post: "checked_rx_status (lift_port modem) t require_active_rx v6 = (Inr (), ((ctx, r), w'))"
    and rest: "hd_restore (lift_port modem) (lift_clock monotonic) (lift_sleep slp) t co1 v4 = Some (Inr (), co2, ((ctx, r), w'))"
    and unlatched: "\<not> hd_failed_latched co"
    using hd_complete_cycle [OF hd] by (elim exE conjE)
  have lifted: "checked_rx_status (lift_port modem) t chk v = (Inr (), v') \<longleftrightarrow>
      fst v' = fst v \<and> checked_rx_status modem t chk (snd v) = (Inr (), snd v')"
    for chk and v v' :: "adapter_state \<times> 'a"
    unfolding checked_rx_status_Inr by (cases v; cases v') (auto simp: lift_port_def lift_op_Inr)
  have stop: "mp_rx_stop (lift_port modem) (Some t) v = (Inr (), v') \<Longrightarrow>
      fst v' = fst v \<and> mp_rx_stop modem (Some t) (snd v) = (Inr (), snd v')"
    for v v' :: "adapter_state \<times> 'a"
    by (cases v; cases v') (auto simp: lift_port_def lift_op_Inr)
  have same: "fst v3 = (Some profile, ch_router c)"
    using pre(1,3) stop [OF pre(2)] unfolding lifted by simp
  then obtain w4 where v3: "v3 = ((Some profile, ch_router c), w4)" by (cases v3) auto
  obtain r6 s6 w6 where "router_submit_frame sha modem (ch_router c) frame profile (Some t) w4 = (Inr receipt, r6, w6)"
    and v4: "v4 = (s6, w6)"
    using sub by (auto simp: adapter_submit_frame_def v3 split: prod.splits)
  from router_receipt_one_burst [OF assms(2) this(1) assms(3)]
  have burst: "rt_transmit_enabled (ch_router c)" "one_burst sha modem (tp_pre_flags profile) frame t w4 receipt w6" by blast+
  have "\<exists>w5. checked_rx_status modem t require_active_rx w5 = (Inr (), w')" using post unfolding lifted by auto
  moreover have "checked_rx_status modem t require_active_rx w = (Inr (), snd v1)"
    "checked_rx_status modem t require_inactive_rx (snd v2) = (Inr (), w4)" using pre(1,3) v3 unfolding lifted by auto
  moreover have "mp_rx_stop modem (Some t) (snd v1) = (Inr (), snd v2)" using stop [OF pre(2)] by simp
  ultimately show ?thesis using burst rest [unfolded v4] unlatched c'
    by (intro conjI) (blast | simp)+
qed

text \<open>
  A dispatched request goes out once, with the delay it was admitted with. If a contextual
  submission returns a receipt, the router has transmit authority, and between two modem states,
  after reception was proved stopped and before it was proved restarted, the modem accepted one
  burst, prepared from the frame with the opening flags of the request's own delay profile;
  afterwards the adapter is disarmed and the coordinator is not latched.
\<close>

theorem contextual_receipt_one_burst:
  assumes "contextual_submit_frame sha modem monotonic slp c frame profile (Some t) w = Some (Inr receipt, c', w')"
    and "router_ok (ch_router c)" "resolve_txdelay (tp_units profile) = Inr profile"
  shows "rt_transmit_enabled (ch_router c) \<and>
    (\<exists>w3 w4 w6. checked_rx_status modem t require_inactive_rx w3 = (Inr (), w4) \<and>
       one_burst sha modem (tp_pre_flags profile) frame t w4 receipt w6) \<and>
    (\<exists>w7. checked_rx_status modem t require_active_rx w7 = (Inr (), w')) \<and>
    ch_adapter c' = None \<and> \<not> hd_failed_latched (ch_lifecycle c')"
  using contextual_receipt_cycle [OF assms] by blast

lemma lift_clock_laws:
  assumes "clock_laws modem monotonic slp time"
  shows "clock_laws (lift_port modem) (lift_clock monotonic) (lift_sleep slp) (\<lambda>sw. time (snd sw))"
  using assms unfolding clock_laws_def
  by (auto simp: lift_port_def lift_op_def lift_clock_def lift_sleep_def split: prod.splits)
    (metis fst_conv snd_conv)+

lemma contextual_submit_ends:
  assumes "clock_laws modem monotonic slp time" "0 < hp_tx_idle_poll_seconds (hd_parameters (ch_lifecycle c))"
  shows "\<exists>r. contextual_submit_frame sha modem monotonic slp c frame profile timeout w = Some r"
proof -
  obtain res co s w' where "hd_submit_frame (lift_port modem) (adapter_submit_frame sha modem) (lift_clock monotonic)
     (lift_sleep slp) (ch_lifecycle c) frame timeout ((Some profile, ch_router c), w) = Some (res, co, (s, w'))"
    using hd_submit_ends [OF lift_clock_laws [OF assms(1)] assms(2)] by (metis prod_cases4)
  then show ?thesis by (cases s) (simp add: contextual_submit_frame_def)
qed

abbreviation "bench_router \<equiv> \<lparr>rt_transmit_enabled = True, rt_broker_queue_capacity = 1, rt_broker_submit_timeout = 1 / 20,
  rt_default_transaction_timeout = 3 / 2, rt_brokers = [], rt_closed = False, rt_submissions = 0, rt_failures = 0\<rparr>"

abbreviation "bench_profile \<equiv> \<lparr>tp_units = 0, tp_requested_seconds = 0, tp_pre_flags = 1, tp_effective_seconds = 1 / 150,
  tp_rounding_overrun_seconds = 1 / 150\<rparr>"

abbreviation "bench_hd_parameters \<equiv> \<lparr>hp_transaction_timeout_seconds = 3 / 2, hp_tx_idle_poll_seconds = 1 / 20,
  hp_tx_idle_timeout_seconds = 5\<rparr>"

theorem contextual_receipt_one_burst_witness:
  "\<exists>receipt w4 w6. one_burst (\<lambda>_. ''digest'') bench_port 1 [0, 0x78, 0xF0] 1 w4 receipt w6 \<and>
     resolve_txdelay 0 = Inr bench_profile"
proof -
  let ?run = "contextual_submit_frame (\<lambda>_. ''digest'') bench_port bench_clock bench_sleep
    (contextual_init bench_router bench_hd_parameters) [0, 0x78, 0xF0] bench_profile (Some 1) bench_start"
  have "case ?run of Some (Inr _, _, _) \<Rightarrow> True | _ \<Rightarrow> False" by code_simp
  from outcome_Some_Inr [OF this] obtain receipt c' w' where run: "?run = Some (Inr receipt, c', w')"
    by (elim exE)
  have profile: "resolve_txdelay (tp_units bench_profile) = Inr bench_profile" by code_simp
  have "router_ok (ch_router (contextual_init bench_router bench_hd_parameters))"
    by (simp add: router_ok_def contextual_init_def)
  from contextual_receipt_one_burst [OF run this profile]
  obtain w4 w6 where "one_burst (\<lambda>_. ''digest'') bench_port (tp_pre_flags bench_profile) [0, 0x78, 0xF0] 1 w4 receipt w6"
    by (elim exE conjE)
  with profile show ?thesis by auto
qed

subsection \<open>What every modem operation keeps, a request keeps\<close>

locale kept_tx_modem = kept_modem +
  assumes burst_kept: "kept w \<Longrightarrow> kept (snd (mp_transmit_selector_burst modem n packed t w))"
begin

lemma transmit_kept: "kept w \<Longrightarrow> kept (snd (broker_transmit modem job w))"
  using rf_status_kept [of w "Some (jb_transaction_timeout job)"] burst_kept
  by (auto simp: broker_transmit_def bind_op_def split: prod.splits sum.splits)

lemma worker_kept:
  assumes "kept w"
  shows "kept (snd (broker_worker_step modem b w))"
proof (cases "br_queue b")
  case Nil
  with assms show ?thesis by (simp add: broker_worker_step_def)
next
  case (Cons item rest)
  show ?thesis
  proof (cases item)
    case StopItem
    with assms Cons show ?thesis by (simp add: broker_worker_step_def)
  next
    case (Job job)
    obtain r w' where "broker_transmit modem job w = (r, w')" by fastforce
    with transmit_kept [OF assms, of job] assms Cons Job show ?thesis
      by (cases r) (simp_all add: broker_worker_step_def Let_def)
  qed
qed

lemma drain_kept: "kept w \<Longrightarrow> kept (snd (broker_drain modem n b w))"
proof (induction n arbitrary: b w)
  case 0
  then show ?case by simp
next
  case (Suc n)
  then show ?case using worker_kept [OF Suc.prems, of b] by (auto split: prod.splits)
qed

lemma broker_submit_kept:
  assumes "kept w" "broker_submit_frame sha modem b frame timeout w = (res, b', w')"
  shows "kept w'"
proof (cases "broker_submit_begin sha b frame timeout")
  case (Pair outcome b1)
  obtain b2 w2 where "broker_drain modem (length (br_queue b1)) b1 w = (b2, w2)" by fastforce
  with drain_kept [OF assms(1), of "length (br_queue b1)" b1] Pair assms show ?thesis
    by (cases outcome) (auto simp: broker_submit_frame_def)
qed

lemma router_submit_kept:
  assumes "kept w" "router_submit_frame sha modem r frame profile timeout w = (res, r', w')"
  shows "kept w'"
proof (cases "rt_closed r \<or> (\<exists>e. router_broker r (tp_units profile) = Inl e)")
  case True
  with assms show ?thesis by (auto simp: router_submit_frame_def split: if_splits)
next
  case False
  then obtain b where b: "router_broker r (tp_units profile) = Inr b" by (cases "router_broker r (tp_units profile)") auto
  obtain res1 b1 w1 where sub: "broker_submit_frame sha modem b frame timeout w = (res1, b1, w1)" by (metis prod_cases3)
  from broker_submit_kept [OF assms(1) sub] False b sub assms(2) show ?thesis
    by (auto simp: router_submit_frame_def Let_def split: sum.splits)
qed

text \<open>The world of the coordinator: the router stays sound and the modem keeps its invariant.\<close>

definition kept_adapter :: "adapter_state \<times> 'a \<Rightarrow> bool" where
  "kept_adapter v \<longleftrightarrow> router_ok (snd (fst v)) \<and> kept (snd v)"

lemma lift_op_kept: "(\<And>w. kept w \<Longrightarrow> kept (snd (m w))) \<Longrightarrow> kept_adapter v \<Longrightarrow> kept_adapter (snd (lift_op m v))"
  by (cases v) (auto simp: kept_adapter_def lift_op_def Let_def split: prod.splits dest: kept_snd)

lemma lifted_kept: "kept_modem (lift_port modem) (lift_clock monotonic) (lift_sleep slp) kept_adapter"
proof (unfold_locales, goal_cases)
  case (6 w)
  then show ?case
    using clock_kept by (cases w) (auto simp: kept_adapter_def lift_clock_def Let_def split: prod.splits dest: kept_snd)
next
  case (7 w d)
  then show ?case using sleep_kept by (cases w) (auto simp: kept_adapter_def lift_sleep_def)
qed (auto simp: lift_port_def intro!: lift_op_kept rx_status_kept rx_stop_kept rx_start_kept rf_status_kept
    rf_diagnostics_kept)

lemma lift_op_world: "(\<And>w. kept w \<Longrightarrow> kept (snd (m w))) \<Longrightarrow> kept (snd v) \<Longrightarrow> kept (snd (snd (lift_op m v)))"
  by (cases v) (auto simp: lift_op_def Let_def split: prod.splits dest: kept_snd)

lemma lifted_world_kept: "kept_modem (lift_port modem) (lift_clock monotonic) (lift_sleep slp) (\<lambda>v :: adapter_state \<times> 'a. kept (snd v))"
proof (unfold_locales, goal_cases)
  case (6 w)
  then show ?case using clock_kept by (cases w) (auto simp: lift_clock_def Let_def split: prod.splits dest: kept_snd)
next
  case (7 w d)
  then show ?case using sleep_kept by (cases w) (auto simp: lift_sleep_def)
qed (auto simp: lift_port_def intro!: lift_op_world rx_status_kept rx_stop_kept rx_start_kept rf_status_kept
    rf_diagnostics_kept)

text \<open>What holds after the burst of a successful request, and is kept, holds at its end.\<close>

lemma contextual_burst_kept:
  assumes "contextual_submit_frame sha modem monotonic slp c frame profile (Some t) w = Some (Inr receipt, c', w')"
    and "router_ok (ch_router c)" "resolve_txdelay (tp_units profile) = Inr profile"
  shows "\<exists>w1 w2 w3 w4. checked_rx_status modem t require_active_rx w = (Inr (), w1) \<and>
       mp_rx_stop modem (Some t) w1 = (Inr (), w2) \<and>
       checked_rx_status modem t require_inactive_rx w2 = (Inr (), w3) \<and>
       one_burst sha modem (tp_pre_flags profile) frame t w3 receipt w4 \<and> (kept w4 \<longrightarrow> kept w')"
proof -
  obtain w1 w2 w3 w4 s4 s5 co1 co2 where chain: "checked_rx_status modem t require_active_rx w = (Inr (), w1)"
    "mp_rx_stop modem (Some t) w1 = (Inr (), w2)" "checked_rx_status modem t require_inactive_rx w2 = (Inr (), w3)"
    "one_burst sha modem (tp_pre_flags profile) frame t w3 receipt w4"
    and rest: "hd_restore (lift_port modem) (lift_clock monotonic) (lift_sleep slp) t co1 (s4 :: adapter_state, w4) =
      Some (Inr (), co2, (s5, w'))"
    using contextual_receipt_cycle [OF assms] by blast
  have "kept w'" if "kept w4"
    using kept_modem.restore_kept [OF lifted_world_kept _ rest] that by simp
  with chain show ?thesis by blast
qed

lemma adapter_submit_kept: "kept_adapter v \<Longrightarrow> kept_adapter (snd (adapter_submit_frame sha modem frame timeout v))"
proof -
  assume v: "kept_adapter v"
  obtain ctx r w where veq: "v = ((ctx, r), w)" by (metis prod.collapse)
  show ?thesis
  proof (cases ctx)
    case None
    with v veq show ?thesis by (simp add: adapter_submit_frame_def)
  next
    case (Some profile)
    obtain res r' w' where sub: "router_submit_frame sha modem r frame profile timeout w = (res, r', w')" by (metis prod_cases3)
    with v veq Some router_submit_ok [OF _ sub] router_submit_kept [OF _ sub] show ?thesis
      by (auto simp: adapter_submit_frame_def kept_adapter_def)
  qed
qed

lemma contextual_submit_kept:
  assumes "router_ok (ch_router c)" "kept w"
    and "contextual_submit_frame sha modem monotonic slp c frame profile timeout w = Some (res, c', w')"
  shows "router_ok (ch_router c') \<and> kept w' \<and> (ch_adapter c = None \<longrightarrow> ch_adapter c' = None)"
proof (cases "ch_adapter c")
  case (Some x)
  with assms show ?thesis by (auto simp: contextual_submit_frame_def)
next
  case None
  with assms(3) obtain co ctx r where hd: "hd_submit_frame (lift_port modem) (adapter_submit_frame sha modem)
      (lift_clock monotonic) (lift_sleep slp) (ch_lifecycle c) frame timeout ((Some profile, ch_router c), w) =
        Some (res, co, ((ctx, r), w'))"
    and c': "c' = c\<lparr>ch_adapter := None, ch_router := r, ch_lifecycle := co\<rparr>"
    by (auto simp: contextual_submit_frame_def split: option.splits prod.splits)
  have "kept_adapter ((ctx, r), w')"
    by (rule kept_modem.submit_kept [OF lifted_kept adapter_submit_kept _ hd]) (use assms in \<open>simp_all add: kept_adapter_def\<close>)
  with c' show ?thesis by (simp add: kept_adapter_def)
qed

end

end
