(* ===== verification/Tnc_System.thy ===== *)
theory Tnc_System
  imports Kiss_Backend Contextual Modem_Owner
begin

section \<open>The transmit path as one system\<close>

text \<open>
  The components of the transmit path put together the way \<open>src/src/ywdtnc/engine.py\<close> does: the
  KISS queue hands a frame to the contextual half-duplex submitter, which drives the modem owner,
  which exchanges requests with the transport. The transport, the clock, the sleeper and the source
  of random octets are parameters over a world state.
\<close>

subsection \<open>Model\<close>

type_synonym 't tnc_world = "contextual_submitter \<times> modem_owner \<times> 't"

text \<open>A submission that does not return leaves the caller waiting; it has no result.\<close>

definition tnc_submit ::
  "(bytes \<Rightarrow> string) \<Rightarrow> 't modem_transport \<Rightarrow> 't clock \<Rightarrow> 't sleeper \<Rightarrow> ('t tnc_world, tx_receipt) contextual_port" where
  "tnc_submit sha tr monotonic slp frame context timeout = (\<lambda>(c, v).
     case contextual_submit_frame sha (owner_port product_owner_dispatch tr) (lift_clock monotonic)
         (lift_sleep slp) c frame (tc_txdelay_profile context) timeout v of
       None \<Rightarrow> (Inl DoesNotReturn, (c, v))
     | Some (res, c, v) \<Rightarrow> (res, (c, v)))"

definition tnc_clock :: "'t clock \<Rightarrow> 't tnc_world clock" where
  "tnc_clock monotonic = lift_clock (lift_clock monotonic)"

definition tnc_random :: "'t random_source \<Rightarrow> 't tnc_world random_source" where
  "tnc_random src = (\<lambda>(c, ow, w). let (b, w) = src w in (b, (c, ow, w)))"

subsection \<open>The owner stays idle between calls\<close>

lemma owner_call_keeps_idle:
  assumes "owner_idle ow" "owner_call product_owner_dispatch tr op timeout ow w = (res, ow', w')"
  shows "owner_idle ow'"
proof (cases "0 < (case timeout of None \<Rightarrow> ow_default_transaction_timeout ow | Some t \<Rightarrow> t)")
  case True
  let ?t = "case timeout of None \<Rightarrow> ow_default_transaction_timeout ow | Some t \<Rightarrow> t"
  have "owner_call_begin ow op timeout = owner_call_begin ow op (Some ?t)"
    by (cases timeout) (simp_all add: owner_call_begin_def)
  then have "owner_call product_owner_dispatch tr op timeout ow w = owner_call product_owner_dispatch tr op (Some ?t) ow w"
    by (simp only: owner_call_def)
  with owner_call_idle [OF assms(1) True, of tr op w] assms(2) show ?thesis by auto
next
  case False
  then have "owner_call_begin ow op timeout = (Inl OwnerTimeoutNotPositive, ow)"
    by (cases timeout) (simp_all add: owner_call_begin_def)
  with assms show ?thesis by (simp add: owner_call_def)
qed

definition idle_world :: "modem_owner \<times> 't \<Rightarrow> bool" where
  "idle_world v \<longleftrightarrow> owner_idle (fst v)"

lemma owner_method_idle: "idle_world v \<Longrightarrow> idle_world (snd (owner_method product_owner_dispatch tr op cast timeout v))"
  by (cases v)
    (auto simp: idle_world_def owner_method_def Let_def split: prod.splits dest: owner_call_keeps_idle)

lemma transmit_burst_idle:
  "idle_world v \<Longrightarrow> idle_world (snd (transmit_selector_burst product_owner_dispatch tr n packed timeout v))"
  by (auto simp: transmit_selector_burst_def owner_prepared_def owner_method_idle split: sum.splits)

interpretation owner_kept: kept_tx_modem "owner_port product_owner_dispatch tr" "lift_clock monotonic" "lift_sleep slp" idle_world
proof (unfold_locales, goal_cases)
  case (6 w)
  then show ?case by (cases w) (simp add: lift_clock_def idle_world_def Let_def split: prod.splits)
next
  case (7 w d)
  then show ?case by (cases w) (simp add: lift_sleep_def idle_world_def)
qed (simp_all add: owner_port_def owner_method_idle transmit_burst_idle)

text \<open>What an accepted burst means on the wire: one request, written once and acknowledged.\<close>

lemma transmit_burst_acknowledged:
  assumes "owner_idle ow" "0 < t"
    and "transmit_selector_burst product_owner_dispatch tr n packed (Some t) (ow, w) = (Inr (), (ow', w'))"
  shows "\<exists>request response. rf_tx_tones_request n packed = Inr request \<and>
    mt_transact tr request t w = (Inr response, w') \<and> parse_ack response YWD_RF = Inr ()"
proof -
  obtain request where r: "rf_tx_tones_request n packed = Inr request"
    using assms(3) by (cases "rf_tx_tones_request n packed") (auto simp: transmit_selector_burst_def owner_prepared_def)
  let ?op = "OpTransmitSelectorBurst request"
  from owner_call_idle [OF assms(1,2), of tr ?op w] assms(3) r
  have "(case fst (transaction tr ?op t w) of None \<Rightarrow> False | Some _ \<Rightarrow> True) \<and> snd (transaction tr ?op t w) = w'"
    by (auto simp: transmit_selector_burst_def owner_prepared_def owner_method_def split: option.splits)
  then show ?thesis
    using r by (cases "mt_transact tr request t w")
      (auto simp: transaction_def map_sum_Inr_iff split: sum.splits option.splits)
qed

subsection \<open>What the transport is asked to send\<close>

text \<open>
  A request carries a frame if it is a selector burst whose selectors, NRZI-decoded, are opening
  flags, the bit-stuffed frame, and three closing flags.
\<close>

definition request_carries :: "bytes \<Rightarrow> int \<Rightarrow> bytes \<Rightarrow> bool" where
  "request_carries request pre frame \<longleftrightarrow>
     (\<exists>lo hi packed sel body.
        host_parse_frame request (Some YWD_RF) = Inr \<lparr>hf_command = YWD_RF, hf_payload = RF_TX_TONES # lo # hi # packed\<rparr> \<and>
        unpack_selectors packed (from_bytes_le [lo, hi]) = Inr sel \<and>
        nrzi_decode sel MARK = Inr (flags pre @ body @ flags 3) \<and>
        unstuff_bits body = Inr (byte_bits_lsb frame))"

lemma tx_tones_parse:
  assumes "rf_tx_tones_request n packed = Inr request"
  shows "\<exists>lo hi. host_parse_frame request (Some YWD_RF) =
      Inr \<lparr>hf_command = YWD_RF, hf_payload = RF_TX_TONES # lo # hi # packed\<rparr> \<and> from_bytes_le [lo, hi] = n"
proof -
  let ?le = "[word_of_int (n AND 0xFF), word_of_int (drop_bit 8 n AND 0xFF)]"
  from assms have n: "1 \<le> n" "n \<le> MAX_SELECTORS" and b: "build_frame YWD_RF ([RF_TX_TONES] @ ?le @ packed) = Inr request"
    by (auto simp: rf_tx_tones_request_def Let_def split: if_splits)
  have "from_bytes_le ?le = n"
    unfolding split_selector_count using n by (intro from_to_bytes_le_id) (auto simp: MAX_SELECTORS_def)
  moreover have "host_parse_frame request (Some YWD_RF) =
      Inr \<lparr>hf_command = YWD_RF, hf_payload = RF_TX_TONES # ?le @ packed\<rparr>"
    unfolding host_parse_frame_iff using b by simp
  ultimately show ?thesis by (intro exI [of _ "?le ! 0"] exI [of _ "?le ! 1"]) simp
qed

text \<open>A burst of the broker is one exchange with the transport, after a status request.\<close>

lemma one_burst_exchange:
  assumes "one_burst sha (owner_port product_owner_dispatch tr) pre frame t v receipt v'" "idle_world v" "1 \<le> pre" "0 < t"
  obtains request response ow w ow' w' where
    "snd (mp_rf_status (owner_port product_owner_dispatch tr) (Some t) v) = (ow, w)" "owner_idle ow" "v' = (ow', w')"
    "mt_transact tr request t w = (Inr response, w')" "parse_ack response YWD_RF = Inr ()" "request_carries request pre frame"
proof -
  obtain packed status v1 where prep: "prepare_frame sha pre frame = Inr (receipt, packed)"
    and st: "mp_rf_status (owner_port product_owner_dispatch tr) (Some t) v = (Inr status, v1)"
    and burst: "mp_transmit_selector_burst (owner_port product_owner_dispatch tr) (tr_selector_count receipt) packed (Some t) v1 =
      (Inr (), v')"
    using assms(1) by (auto simp: one_burst_def)
  have "idle_world v1" using owner_kept.rf_status_kept [OF assms(2), where t = "Some t" and tr = tr] st by simp
  then obtain ow w ow' w' where v1: "v1 = (ow, w)" "owner_idle ow" and v': "v' = (ow', w')"
    by (cases v1; cases v') (auto simp: idle_world_def)
  obtain request response where req: "rf_tx_tones_request (tr_selector_count receipt) packed = Inr request"
    and ack: "mt_transact tr request t w = (Inr response, w')" "parse_ack response YWD_RF = Inr ()"
    using transmit_burst_acknowledged [OF v1(2) assms(4), of tr "tr_selector_count receipt" packed w ow' w'] burst v1(1) v'
    by (auto simp: owner_port_def)
  have "request_carries request pre frame"
    using tx_tones_parse [OF req] prepare_frame_carries [OF assms(3) prep] unfolding request_carries_def by metis
  with ack st v1 v' that show thesis by simp
qed

subsection \<open>From a client to the wire\<close>

text \<open>The state of the system: the backend, the queue and the world.\<close>

type_synonym 't tnc_system = "tnc_backend \<times> kiss_queue \<times> 't tnc_world"

definition tnc_system_step ::
  "(bytes \<Rightarrow> string) \<Rightarrow> 't modem_transport \<Rightarrow> 't clock \<Rightarrow> 't sleeper \<Rightarrow> 't random_source \<Rightarrow> 't tnc_system \<Rightarrow> tnc_event \<Rightarrow> 't tnc_system" where
  "tnc_system_step sha tr monotonic slp src =
     tnc_step (tnc_submit sha tr monotonic slp) (tnc_clock monotonic) (Some (tnc_random src))"

text \<open>
  A queued request of client data: the check-summed body of a message that parses as AX.25, with a
  delay profile that is the one of the TXDELAY in its receipt.
\<close>

definition client_request :: "kiss_message set \<Rightarrow> kiss_request \<Rightarrow> bool" where
  "client_request received r \<longleftrightarrow>
     (\<exists>m \<in> received. km_command m = KISS_DATA \<and> km_port m = 0 \<and>
        (\<exists>parsed. parse_frame (km_frame m) False = Inr parsed) \<and>
        kq_frame_with_fcs r = append_fcs (km_frame m)) \<and>
     resolve_txdelay (kr_txdelay (kq_receipt r)) = Inr (tc_txdelay_profile (kq_context r))"

definition messages_of :: "tnc_event list \<Rightarrow> kiss_message set" where
  "messages_of evs = {m. TeMessage m \<in> set evs}"

definition tnc_world_ok :: "'t tnc_world \<Rightarrow> bool" where
  "tnc_world_ok = (\<lambda>(c, v). router_ok (ch_router c) \<and> idle_world v)"

definition tnc_system_ok :: "kiss_message set \<Rightarrow> 't tnc_system \<Rightarrow> bool" where
  "tnc_system_ok received = (\<lambda>(b, q, (c, v)).
     ingress_books (b, q, (c, v)) \<and> (\<forall>r \<in> set (kq_queue q). client_request received r) \<and>
     0 < kq_downstream_timeout_seconds q \<and> router_ok (ch_router c) \<and> idle_world v)"

lemma tnc_submit_ok:
  assumes "router_ok (ch_router c)" "idle_world v" "tnc_submit sha tr monotonic slp frame ctx timeout (c, v) = (res, (c', v'))"
  shows "router_ok (ch_router c') \<and> idle_world v'"
proof (cases "contextual_submit_frame sha (owner_port product_owner_dispatch tr) (lift_clock monotonic) (lift_sleep slp)
    c frame (tc_txdelay_profile ctx) timeout v")
  case None
  with assms show ?thesis by (simp add: tnc_submit_def)
next
  case (Some r)
  with assms(3) have "contextual_submit_frame sha (owner_port product_owner_dispatch tr) (lift_clock monotonic) (lift_sleep slp)
    c frame (tc_txdelay_profile ctx) timeout v = Some (res, c', v')"
    by (cases r) (simp add: tnc_submit_def)
  from owner_kept.contextual_submit_kept [OF assms(1,2) this] show ?thesis by blast
qed

text \<open>What the submitter and the random source keep of the world, an observation keeps.\<close>

lemma attempt_observe_world:
  assumes "\<And>w. ok w \<Longrightarrow> ok (snd (src w))" "ok w" "attempt_observe_rssi a now raw (Some src) w = (res, a', w')"
  shows "ok w'"
  using assms(2,3) assms(1) [of w]
  by (auto simp: attempt_observe_rssi_def Let_def split: prod.splits sum.splits if_splits)

lemma kq_observe_world:
  assumes src: "\<And>w. ok w \<Longrightarrow> ok (snd (src w))"
    and submit: "\<And>frame ctx t w. ok w \<Longrightarrow> ok (snd (submit frame ctx t w))"
    and "ok w" "kq_observe_rssi submit q now raw (Some src) w = (res, q', w')"
  shows "ok w'"
proof (cases rule: kq_accept_now_cases [of q now])
  case (err e)
  with assms show ?thesis by (simp add: kq_observe_rssi_def)
next
  case ok: ok
  show ?thesis
  proof (cases "kq_queue q")
    case Nil
    with ok assms show ?thesis by (simp add: kq_observe_rssi_def)
  next
    case (Cons r rest)
    obtain a where "kq_head_attempt r now = Inr a \<or> (\<exists>e. kq_head_attempt r now = Inl e)" by (cases "kq_head_attempt r now") auto
    obtain ra a' w1 where obs: "attempt_observe_rssi a now raw (Some src) w = (ra, a', w1)" by (metis prod_cases3)
    have w1: "ok w1" by (rule attempt_observe_world [OF src assms(3) obs])
    obtain rs w2 where sub: "submit (kq_frame_with_fcs r) (kq_context r) (Some (kq_downstream_timeout_seconds q)) w1 = (rs, w2)" by fastforce
    have "ok w2" using submit [OF w1, of "kq_frame_with_fcs r" "kq_context r" "Some (kq_downstream_timeout_seconds q)"] sub by simp
    with assms(3,4) ok Cons obs sub w1 \<open>kq_head_attempt r now = Inr a \<or> (\<exists>e. kq_head_attempt r now = Inl e)\<close> show ?thesis
      by (auto simp: kq_observe_rssi_def split: if_splits sum.splits prod.splits)
  qed
qed

lemma client_request_mono: "client_request received r \<Longrightarrow> received \<subseteq> received' \<Longrightarrow> client_request received' r"
  by (auto simp: client_request_def)

lemma client_request_attempt [simp]: "client_request received (r\<lparr>kq_attempt := a\<rparr>) = client_request received r"
  by (simp add: client_request_def)

lemma kq_observe_requests:
  assumes "kq_observe_rssi submit q now raw src w = (res, q', w')" "\<forall>r \<in> set (kq_queue q). client_request received r"
  shows "(\<forall>r \<in> set (kq_queue q'). client_request received r) \<and>
    kq_downstream_timeout_seconds q' = kq_downstream_timeout_seconds q"
proof (cases rule: kq_accept_now_cases [of q now])
  case (err e)
  with assms show ?thesis by (auto simp: kq_observe_rssi_def)
next
  case ok
  with assms show ?thesis
    by (cases "kq_queue q") (auto simp: kq_observe_rssi_def split: if_splits sum.splits prod.splits)
qed

text \<open>A client message adds at most its own request.\<close>

lemma client_message_requests:
  assumes "tnc_system_ok received (b, q, (c, v))"
    and "backend_client_message (tnc_clock monotonic) m b q (c, v) = (res, b', q', (c', v'))"
  shows "(\<forall>r \<in> set (kq_queue q'). client_request (insert m received) r) \<and> c' = c \<and> (idle_world v' = idle_world v) \<and>
    kq_downstream_timeout_seconds q' = kq_downstream_timeout_seconds q"
proof (cases "km_command m \<noteq> KISS_DATA \<or> km_port m \<noteq> 0")
  case True
  with assms show ?thesis
    by (auto simp: backend_client_message_def tnc_system_ok_def split: prod.splits sum.splits intro: client_request_mono)
next
  case False
  let ?t = "kq_request_timeout_seconds q"
  obtain profile csma where ctx: "capture_tx_context (cb_session (tb_control b)) ?t =
      Inr \<lparr>tc_parameters = ts_parameters (cb_session (tb_control b)), tc_txdelay_profile = profile, tc_csma_parameters = csma\<rparr>"
    and profile: "resolve_txdelay (tn_txdelay (ts_parameters (cb_session (tb_control b)))) = Inr profile"
    using capture_ok [of "cb_session (tb_control b)" ?t] assms(1) by (auto simp: tnc_system_ok_def ingress_books_def)
  let ?ctx = "\<lparr>tc_parameters = ts_parameters (cb_session (tb_control b)), tc_txdelay_profile = profile, tc_csma_parameters = csma\<rparr>"
  have clock: "\<exists>t v'. tnc_clock monotonic (c, v) = (t, (c, v')) \<and> idle_world v' = idle_world v" for v
    by (cases v) (auto simp: tnc_clock_def lift_clock_def idle_world_def Let_def split: prod.splits)
  obtain t1 v1 where c1: "tnc_clock monotonic (c, v) = (t1, (c, v1))" "idle_world v1 = idle_world v" using clock by blast
  obtain t2 v2 where c2: "tnc_clock monotonic (c, v1) = (t2, (c, v2))" "idle_world v2 = idle_world v1" using clock by blast
  obtain outcome q1 where enq: "kq_enqueue q (km_frame m) ?ctx t2 = (outcome, q1)" by fastforce
  have out: "q' = q1" "c' = c" "v' = v2"
    using assms(2) False ctx c1(1) c2(1) enq
    by (cases outcome; cases "projl outcome"; auto simp: backend_client_message_def ts_enqueue_def)+
  have "kq_downstream_timeout_seconds q1 = kq_downstream_timeout_seconds q"
    using enq by (auto simp: kq_enqueue_def kq_accept_now_def Let_def split: if_splits sum.splits)
  moreover have old: "\<forall>r \<in> set (kq_queue q). client_request (insert m received) r"
    using assms(1) by (auto simp: tnc_system_ok_def intro: client_request_mono)
  moreover from enq have "\<forall>r \<in> set (kq_queue q1). client_request (insert m received) r"
  proof (cases rule: kq_enqueue_cases)
    case (refuse e)
    with old show ?thesis by simp
  next
    case (admit r parsed)
    from admit False profile have "client_request (insert m received) r" by (auto simp: client_request_def)
    with admit old show ?thesis by auto
  qed
  ultimately show ?thesis using out c1 c2 by simp
qed

lemma tnc_world_kept:
  assumes "tnc_world_ok w"
  shows "tnc_world_ok (snd (tnc_random src w))" "tnc_world_ok (snd (tnc_clock monotonic w))"
    "tnc_world_ok (snd (tnc_submit sha tr monotonic slp frame ctx t w))"
proof -
  show "tnc_world_ok (snd (tnc_random src w))" "tnc_world_ok (snd (tnc_clock monotonic w))"
    using assms
    by (cases w; auto simp: tnc_world_ok_def tnc_random_def tnc_clock_def lift_clock_def idle_world_def Let_def split: prod.splits)+
  obtain c v where w: "w = (c, v)" by (cases w)
  obtain res c' v' where "tnc_submit sha tr monotonic slp frame ctx t (c, v) = (res, (c', v'))" by (metis prod_cases3)
  with tnc_submit_ok [OF _ _ this] assms w show "tnc_world_ok (snd (tnc_submit sha tr monotonic slp frame ctx t w))"
    by (simp add: tnc_world_ok_def)
qed

lemma tnc_step_ok:
  assumes "tnc_system_ok received s"
  shows "tnc_system_ok (received \<union> messages_of [ev]) (tnc_system_step sha tr monotonic slp src s ev)"
proof -
  obtain b q c v where s: "s = (b, q, (c, v))" by (metis prod.collapse)
  have books: "ingress_books (tnc_system_step sha tr monotonic slp src s ev)"
    unfolding tnc_system_step_def by (rule tnc_books.step_inv) (use assms s in \<open>simp add: tnc_system_ok_def\<close>)
  have older: "\<forall>r \<in> set (kq_queue q). client_request (received \<union> messages_of [ev]) r"
    using assms s by (auto simp: tnc_system_ok_def intro: client_request_mono)
  show ?thesis
  proof (cases ev)
    case (TeMessage m)
    obtain res b' q' c' v' where msg: "backend_client_message (tnc_clock monotonic) m b q (c, v) = (res, b', q', (c', v'))"
      by (metis prod.collapse)
    with client_message_requests [OF assms [unfolded s] msg] books TeMessage assms s show ?thesis
      by (simp add: tnc_system_step_def tnc_step_def tnc_system_ok_def messages_of_def)
  next
    case (TeObserve now raw)
    obtain t1 w1 where c1: "tnc_clock monotonic (c, v) = (t1, w1)" by (rule prod.exhaust)
    have ok1: "tnc_world_ok w1"
      using tnc_world_kept(2) [of "(c, v)" monotonic] c1 assms s by (simp add: tnc_system_ok_def tnc_world_ok_def)
    obtain res q' w' where obs: "kq_observe_rssi (tnc_submit sha tr monotonic slp) q t1 raw (Some (tnc_random src)) w1 = (res, q', w')"
      by (metis prod_cases3)
    have "tnc_world_ok w'"
      by (rule kq_observe_world [where ok = tnc_world_ok, OF tnc_world_kept(1,3) ok1 obs])
    with kq_observe_requests [OF obs older] books TeObserve assms s c1 obs show ?thesis
      by (auto simp: tnc_system_step_def tnc_step_def ts_observe_rssi_def tnc_system_ok_def messages_of_def tnc_world_ok_def)
  qed (use assms s older books in \<open>auto simp: tnc_system_step_def tnc_step_def tnc_system_ok_def messages_of_def\<close>)
qed

lemma tnc_run_ok:
  "tnc_system_ok received s \<Longrightarrow> tnc_system_ok (received \<union> messages_of evs) (run (tnc_system_step sha tr monotonic slp src) s evs)"
proof (induction evs arbitrary: received s)
  case Nil
  then show ?case by (simp add: messages_of_def)
next
  case (Cons ev evs)
  have "received \<union> messages_of (ev # evs) = (received \<union> messages_of [ev]) \<union> messages_of evs" by (auto simp: messages_of_def)
  with Cons.IH [OF tnc_step_ok [OF Cons.prems]] show ?case by (simp only: run.simps)
qed

text \<open>A dispatch hands the head request to the submitter, which returned a receipt.\<close>

lemma kq_dispatch_submits:
  assumes "kq_observe_rssi submit q now raw (Some src) w = (Inr ob, q', w')" "ko_request_state ob = Some KR_DISPATCHED"
    and "\<And>w. ok w \<Longrightarrow> ok (snd (src w))" "ok w"
  obtains r rest w1 receipt where "kq_queue q = r # rest" "ok w1"
    "submit (kq_frame_with_fcs r) (kq_context r) (Some (kq_downstream_timeout_seconds q)) w1 = (Inr receipt, w')"
proof (cases rule: kq_accept_now_cases [of q now])
  case (err e)
  with assms show thesis by (simp add: kq_observe_rssi_def)
next
  case accepted: ok
  obtain r rest where q: "kq_queue q = r # rest"
    using assms(1,2) accepted by (cases "kq_queue q") (auto simp: kq_observe_rssi_def)
  then obtain a where alive: "\<not> kr_deadline_at (kq_receipt r) \<le> now" and a: "kq_head_attempt r now = Inr a"
    using assms(1,2) accepted
    by (cases "kq_head_attempt r now") (auto simp: kq_observe_rssi_def kq_observation_of_def split: if_splits)
  obtain access a' w1 where obs: "attempt_observe_rssi a now raw (Some src) w = (Inr access, a', w1)"
    using assms(1) accepted q alive a by (auto simp: kq_observe_rssi_def split: prod.splits sum.splits)
  have "ok w1" by (rule attempt_observe_world [OF assms(3,4) obs])
  moreover obtain receipt where "submit (kq_frame_with_fcs r) (kq_context r) (Some (kq_downstream_timeout_seconds q)) w1 = (Inr receipt, w')"
    using assms(1,2) accepted q alive a obs
    by (auto simp: kq_observe_rssi_def kq_observation_of_def split: if_splits prod.splits sum.splits)
  ultimately show thesis using q that by blast
qed

text \<open>The start of the system: a new queue, backend, router and coordinator, and an owner that is
  running and idle.\<close>

definition tnc_system_init ::
  "int \<Rightarrow> seconds \<Rightarrow> seconds \<Rightarrow> tnc_parameters option \<Rightarrow> bool \<Rightarrow> hd_parameters \<Rightarrow> rx_backend \<Rightarrow> modem_owner \<Rightarrow> 't \<Rightarrow> 't tnc_system option" where
  "tnc_system_init capacity request_timeout downstream_timeout parameters transmit_enabled hdp rx ow w =
     (case (kq_init capacity request_timeout downstream_timeout, session_init parameters,
            router_init transmit_enabled 1 (1 / 20) (3 / 2)) of
        (Inr q, Inr session, Inr r) \<Rightarrow>
          Some (tnc_backend_init \<lparr>cb_rx = rx, cb_session = session\<rparr>, q, (contextual_init r hdp, ow, w))
      | _ \<Rightarrow> None)"

lemma tnc_system_init_ok:
  assumes "tnc_system_init capacity request_timeout downstream_timeout parameters transmit_enabled hdp rx ow w = Some s" "owner_idle ow"
  shows "tnc_system_ok {} s"
  using assms session_init_ok [of parameters]
  by (auto simp: tnc_system_init_def kq_init_def router_init_def contextual_init_def tnc_backend_init_def router_ok_def
      tnc_system_ok_def idle_world_def ingress_books_def split: sum.splits if_splits)

text \<open>
  C2. From a client to the wire. Take the system from its start through any sequence of
  connections, client messages, published packets and channel observations, whatever the transport
  answers. If the next observation reports a request as dispatched, then the transport was given,
  within the downstream timeout, a request it acknowledged, and the selectors of this request are
  opening flags for the TXDELAY in the admission receipt of the head request, the bit-stuffed octets and
  check sequence of a data message that a client sent on port 0 and that parses as an AX.25 frame,
  and three closing flags.
\<close>

theorem client_frame_on_wire:
  assumes "tnc_system_init capacity request_timeout downstream_timeout parameters transmit_enabled hdp rx ow w = Some s"
    and "owner_idle ow"
    and "run (tnc_system_step sha tr monotonic slp src) s evs = (b, q, wd)"
    and "ts_observe_rssi (tnc_submit sha tr monotonic slp) (tnc_clock monotonic) q now raw (Some (tnc_random src)) wd = (Inr ob, q', wd')"
    and "ko_request_state ob = Some KR_DISPATCHED"
  shows "\<exists>r rest m request response w1 w2 parsed profile.
    kq_queue q = r # rest \<and> TeMessage m \<in> set evs \<and> km_command m = KISS_DATA \<and> km_port m = 0 \<and>
    parse_frame (km_frame m) False = Inr parsed \<and>
    resolve_txdelay (kr_txdelay (kq_receipt r)) = Inr profile \<and>
    mt_transact tr request (kq_downstream_timeout_seconds q) w1 = (Inr response, w2) \<and>
    parse_ack response YWD_RF = Inr () \<and>
    request_carries request (tp_pre_flags profile) (append_fcs (km_frame m))"
proof -
  obtain c v where wd: "wd = (c, v)" by (cases wd)
  have ok: "tnc_system_ok (messages_of evs) (b, q, (c, v))"
    using tnc_run_ok [OF tnc_system_init_ok [OF assms(1,2)], of evs sha tr monotonic slp src] assms(3) wd by simp
  obtain t1 w1 where c1: "tnc_clock monotonic wd = (t1, w1)" by (rule prod.exhaust)
  have w1: "tnc_world_ok w1"
    using tnc_world_kept(2) [of wd monotonic] c1 ok wd by (simp add: tnc_system_ok_def tnc_world_ok_def)
  have obs: "kq_observe_rssi (tnc_submit sha tr monotonic slp) q t1 raw (Some (tnc_random src)) w1 = (Inr ob, q', wd')"
    using assms(4) c1 by (simp add: ts_observe_rssi_def)
  obtain r rest w2 receipt where q: "kq_queue q = r # rest" and w2: "tnc_world_ok w2"
    and sub: "tnc_submit sha tr monotonic slp (kq_frame_with_fcs r) (kq_context r) (Some (kq_downstream_timeout_seconds q)) w2 =
      (Inr receipt, wd')"
    by (rule kq_dispatch_submits [OF obs assms(5), of tnc_world_ok]) (use w1 tnc_world_kept(1) in auto)
  let ?t = "kq_downstream_timeout_seconds q" and ?profile = "tc_txdelay_profile (kq_context r)"
  obtain c2 v2 c3 v3 where w2eq: "w2 = (c2, v2)" "wd' = (c3, v3)" by (cases w2; cases wd')
  have ctx: "contextual_submit_frame sha (owner_port product_owner_dispatch tr) (lift_clock monotonic) (lift_sleep slp)
      c2 (kq_frame_with_fcs r) ?profile (Some ?t) v2 = Some (Inr receipt, c3, v3)"
    using sub w2eq by (auto simp: tnc_submit_def split: option.splits)
  have req: "client_request (messages_of evs) r" and t: "0 < ?t" using ok q by (auto simp: tnc_system_ok_def)
  then have captured: "resolve_txdelay (kr_txdelay (kq_receipt r)) = Inr ?profile" by (simp add: client_request_def)
  then have profile: "resolve_txdelay (tp_units ?profile) = Inr ?profile" using resolve_txdelay_Inr(3) [OF captured] by simp
  have router: "router_ok (ch_router c2)" and idle: "idle_world v2" using w2 w2eq by (auto simp: tnc_world_ok_def)
  obtain u1 u2 u3 u4 where cyc: "checked_rx_status (owner_port product_owner_dispatch tr) ?t require_active_rx v2 = (Inr (), u1)"
      "mp_rx_stop (owner_port product_owner_dispatch tr) (Some ?t) u1 = (Inr (), u2)"
      "checked_rx_status (owner_port product_owner_dispatch tr) ?t require_inactive_rx u2 = (Inr (), u3)"
      "one_burst sha (owner_port product_owner_dispatch tr) (tp_pre_flags ?profile) (kq_frame_with_fcs r) ?t u3 receipt u4"
    using contextual_receipt_cycle [OF ctx router profile] by blast
  have "idle_world u1" using owner_kept.checked_kept [OF idle, where t = ?t and check = require_active_rx and tr = tr] cyc(1) by simp
  then have "idle_world u2" using owner_kept.rx_stop_kept [where t = "Some ?t" and tr = tr and w = u1] cyc(2) by simp
  then have "idle_world u3" using owner_kept.checked_kept [where t = ?t and check = require_inactive_rx and tr = tr and w = u2] cyc(3) by simp
  from one_burst_exchange [OF cyc(4) this resolve_txdelay_Inr(4) [OF profile] t] obtain request response x y where
    "mt_transact tr request ?t x = (Inr response, y)" "parse_ack response YWD_RF = Inr ()"
    "request_carries request (tp_pre_flags ?profile) (kq_frame_with_fcs r)" .
  moreover obtain m parsed where "TeMessage m \<in> set evs" "km_command m = KISS_DATA" "km_port m = 0"
    "parse_frame (km_frame m) False = Inr parsed" "kq_frame_with_fcs r = append_fcs (km_frame m)"
    using req unfolding client_request_def messages_of_def by blast
  ultimately show ?thesis using captured q by metis
qed

subsection \<open>Example\<close>

text \<open>
  A transport that plays a script of responses, whatever it is asked, with a clock that advances by
  a quarter of a second at every reading.
\<close>

type_synonym script_world = "bytes list \<times> nat"

definition script_transport :: "script_world modem_transport" where
  "script_transport =
     \<lparr>mt_open = (\<lambda>w. (Inr (), w)),
      mt_transact = (\<lambda>_ _ (script, n). case script of [] \<Rightarrow> (Inl (ModemFailure ''TimeoutError''), ([], n)) | x # xs \<Rightarrow> (Inr x, (xs, n))),
      mt_close = (\<lambda>w. (Inr (), w))\<rparr>"

definition script_clock :: "script_world clock" where
  "script_clock = (\<lambda>(script, n). (of_nat n / 4, (script, n + 1)))"

definition script_sleep :: "script_world sleeper" where
  "script_sleep d w = w"

definition script_random :: "script_world random_source" where
  "script_random w = (9, w)"

text \<open>Receiver active, stop acknowledged, inactive, radio idle, burst acknowledged, radio idle twice,
  start acknowledged, active.\<close>

definition cycle_script :: "bytes list" where
  "cycle_script =
     [[0xE0, 14, 0x59, 4, 3, 13, 0, 0, 0, 0, 0, 0, 0, 0], [0xE0, 4, 0x70, 0x59],
      [0xE0, 14, 0x59, 4, 3, 12, 0, 0, 0, 0, 0, 0, 0, 0], [0xE0, 9, 0x58, 1, 1, 0, 0, 0, 0],
      [0xE0, 4, 0x70, 0x58], [0xE0, 9, 0x58, 1, 1, 0, 0, 0, 0], [0xE0, 10, 0x58, 5, 0, 0, 0, 0, 0, 0],
      [0xE0, 4, 0x70, 0x59], [0xE0, 14, 0x59, 4, 3, 13, 0, 0, 0, 0, 0, 0, 0, 0]]"

definition example_system :: "script_world tnc_system option" where
  "example_system =
     tnc_system_init 4 30 (3 / 2) (Some (default_tnc_parameters\<lparr>tn_txdelay := 0\<rparr>)) True bench_hd_parameters
       \<lparr>rb_history_capacity = 0, rb_subscriber_queue_capacity = 1, rb_events = [], rb_subscribers = [],
        rb_next_stream = 0, rb_tx_rejected = 0, rb_control_ignored = 0, rb_subscriber_drops = 0\<rparr>
       (example_owner\<lparr>ow_thread := OwnerAlive, ow_accepting := True\<rparr>) (cycle_script, 0)"

abbreviation "example_message \<equiv> \<lparr>km_port = 0, km_command = 0, km_frame = example_body\<rparr>"

abbreviation "example_step \<equiv> tnc_system_step (\<lambda>_. ''digest'') script_transport script_clock script_sleep script_random"

abbreviation "example_events \<equiv> [TeMessage example_message, TeObserve 0 100, TeObserve 0 100]"

abbreviation "example_observe q wd \<equiv>
  ts_observe_rssi (tnc_submit (\<lambda>_. ''digest'') script_transport script_clock script_sleep) (tnc_clock script_clock)
    q 0 100 (Some (tnc_random script_random)) wd"

lemma example_dispatched:
  "case example_system of
     None \<Rightarrow> False
   | Some s \<Rightarrow>
       (case run example_step s example_events of
          (b, q, wd) \<Rightarrow>
            (case fst (example_observe q wd) of
               Inl _ \<Rightarrow> False
             | Inr ob \<Rightarrow> ko_request_state ob = Some KR_DISPATCHED))"
  by code_simp

theorem client_frame_on_wire_witness:
  "\<exists>(profile :: txdelay_profile) request response t w1 w2. mt_transact script_transport request t w1 = (Inr response, w2) \<and>
     parse_ack response YWD_RF = Inr () \<and> request_carries request (tp_pre_flags profile) (append_fcs example_body)"
proof -
  from outcome_Some [OF example_dispatched] obtain s where s: "example_system = Some s" and rest: "case run example_step s example_events of
          (b, q, wd) \<Rightarrow> (case fst (example_observe q wd) of Inl _ \<Rightarrow> False | Inr ob \<Rightarrow> ko_request_state ob = Some KR_DISPATCHED)"
    by (elim exE conjE)
  obtain b q wd where run: "run example_step s example_events = (b, q, wd)" by (rule prod_cases3)
  from rest have "case fst (example_observe q wd) of Inl _ \<Rightarrow> False | Inr ob \<Rightarrow> ko_request_state ob = Some KR_DISPATCHED"
    unfolding run prod.case .
  from outcome_Inr [OF this] obtain ob qw where ob: "example_observe q wd = (Inr ob, qw)" "ko_request_state ob = Some KR_DISPATCHED"
    by (elim exE conjE)
  from ob(1) have obs: "example_observe q wd = (Inr ob, fst qw, snd qw)" by (simp only: prod.collapse)
  have idle: "owner_idle (example_owner\<lparr>ow_thread := OwnerAlive, ow_accepting := True\<rparr>)" by (simp add: owner_idle_def)
  from client_frame_on_wire [OF s [unfolded example_system_def] idle run obs ob(2)]
  obtain r rest m request response w1 w2 parsed profile where
    "kq_queue q = r # rest" and msg: "TeMessage m \<in> set example_events" and "km_command m = KISS_DATA" "km_port m = 0"
    "parse_frame (km_frame m) False = Inr parsed" "resolve_txdelay (kr_txdelay (kq_receipt r)) = Inr profile" and res:
      "mt_transact script_transport request (kq_downstream_timeout_seconds q) w1 = (Inr response, w2)"
      "parse_ack response YWD_RF = Inr ()" "request_carries request (tp_pre_flags profile) (append_fcs (km_frame m))"
    by (elim exE conjE)
  from msg have "km_frame m = example_body" by auto
  from res [unfolded this] show ?thesis by (intro exI conjI)
qed

end
