(* ===== verification/Bell202_Rx.thy ===== *)
theory Bell202_Rx
  imports Ax25_Codec Bell202_Tx "HOL-Library.Multiset"
begin

section \<open>The streaming Bell-202 receiver\<close>

text \<open>
  \<open>src/src/ywd1278/phy/bell202_rx.py\<close>: a one-pass receiver over packed one-bit samples. A bank of
  timing hypotheses, each with its own NRZI and HDLC state, is served from a schedule of symbol
  boundaries; correlation metrics and transition counts come from rings of 128 entries.

  Times in samples are rational numbers and the correlation is computed over the reals, where the
  source uses floats. The table of metrics is an argument of the decoder, \<open>metric_for_pattern\<close> the
  one the source precomputes. The heap of the source holds pairs of due time and order, which are
  distinct, so that popping is determined; here it is a list sorted by these pairs.
\<close>

subsection \<open>Model: constants and correlation\<close>

definition SAMPLE_RATE :: rat where "SAMPLE_RATE = 19200"
definition CORR_WINDOW :: nat where "CORR_WINDOW = 12"
definition MARK_HZ :: real where "MARK_HZ = 1200"
definition SPACE_HZ :: real where "SPACE_HZ = 2200"
definition OCCURRENCE_TOLERANCE_SAMPLES :: int where "OCCURRENCE_TOLERANCE_SAMPLES = 960"
definition DEFAULT_BAUDS :: "rat list" where "DEFAULT_BAUDS = map of_nat [1196..<1205]"
definition DEFAULT_PHASES :: "rat list" where "DEFAULT_PHASES = map of_nat [0..<16]"
definition MAX_STUFFED_BITS :: nat where "MAX_STUFFED_BITS = 4096"
definition HISTORY_SIZE :: nat where "HISTORY_SIZE = 128"
definition FLAG_BYTE :: byte where "FLAG_BYTE = 0x7E"

text \<open>\<open>round\<close> of Python: to the nearest integer, halves to the even one.\<close>

definition py_round :: "rat \<Rightarrow> int" where
  "py_round x =
     (let f = \<lfloor>x\<rfloor>; d = x - of_int f
      in if d < 1 / 2 then f else if 1 / 2 < d then f + 1 else if even f then f else f + 1)"

definition reference_cos :: "real \<Rightarrow> real list" where
  "reference_cos frequency = map (\<lambda>i. cos (2 * pi * frequency / 19200 * of_nat i)) [0..<CORR_WINDOW]"

definition reference_sin :: "real \<Rightarrow> real list" where
  "reference_sin frequency = map (\<lambda>i. sin (2 * pi * frequency / 19200 * of_nat i)) [0..<CORR_WINDOW]"

definition correlate :: "real list \<Rightarrow> real \<Rightarrow> real list \<Rightarrow> real" where
  "correlate values mean reference =
     sum_list (map2 (*) values reference) - mean * sum_list reference"

definition metric_for_pattern :: "12 word \<Rightarrow> real" where
  "metric_for_pattern pattern =
     (let values = map (\<lambda>index. if bit pattern (CORR_WINDOW - 1 - index) then 1 else - 1) [0..<CORR_WINDOW];
          mean = sum_list values / of_nat CORR_WINDOW;
          mc = correlate values mean (reference_cos MARK_HZ);
          ms = correlate values mean (reference_sin MARK_HZ);
          sc = correlate values mean (reference_cos SPACE_HZ);
          ss = correlate values mean (reference_sin SPACE_HZ);
          denom = of_nat (CORR_WINDOW * CORR_WINDOW);
          mark = (mc * mc + ms * ms) / denom;
          space = (sc * sc + ss * ss) / denom;
          total = mark + space
      in if total > 1 / 1000000000 then (space - mark) / total else 0)"

fun octets_lsb :: "bool list \<Rightarrow> bytes" where
  "octets_lsb (b0 # b1 # b2 # b3 # b4 # b5 # b6 # b7 # bits) =
     horner_sum of_bool 2 [b0, b1, b2, b3, b4, b5, b6, b7] # octets_lsb bits"
| "octets_lsb _ = []"

definition bits_to_bytes_lsb :: "bool list \<Rightarrow> bytes option" where
  "bits_to_bytes_lsb bits = (if length bits mod 8 \<noteq> 0 then None else Some (octets_lsb bits))"

subsection \<open>Model: state\<close>

record streaming_frame =
  sf_frame :: bytes
  sf_sample_start :: int
  sf_sample_end :: int
  sf_baud :: rat
  sf_phase :: rat

record hypothesis =
  hy_baud :: rat
  hy_phase :: rat
  hy_period :: rat
  hy_next_symbol_end :: rat
  hy_previous_selector :: "bool option"
  hy_shift :: byte
  hy_shift_count :: nat
  hy_after_flag :: "bool list option"
  hy_opening_data_sample :: "int option"
  hy_flags_seen :: nat

record rx_decoder =
  dc_hypotheses :: "hypothesis list"
  dc_schedule :: "(int \<times> nat) list"
  dc_sample_index :: int
  dc_packed_bytes :: nat
  dc_metric_windows :: nat
  dc_symbol_decisions :: nat
  dc_flags_seen :: nat
  dc_valid_frames :: nat
  dc_duplicates :: nat
  dc_max_frame_buffer_bits :: nat
  dc_occurrences :: "streaming_frame list"
  dc_metric_register :: "12 word"
  dc_metric_sample_count :: nat
  dc_metric_tags :: "int list"
  dc_metric_values :: "real list"
  dc_transition_tags :: "int list"
  dc_transition_prefix :: "int list"
  dc_transitions_total :: int
  dc_previous_raw :: "bool option"

text \<open>\<open>heappush\<close>: insertion by due time and order.\<close>

fun heap_push :: "int \<times> nat \<Rightarrow> (int \<times> nat) list \<Rightarrow> (int \<times> nat) list" where
  "heap_push e [] = [e]"
| "heap_push (due, order) ((due', order') # es) =
     (if due < due' \<or> due = due' \<and> order \<le> order' then (due, order) # (due', order') # es
      else (due', order') # heap_push (due, order) es)"

definition hypothesis_init :: "rat \<Rightarrow> rat \<Rightarrow> hypothesis" where
  "hypothesis_init baud phase =
     \<lparr>hy_baud = baud, hy_phase = phase, hy_period = SAMPLE_RATE / baud,
      hy_next_symbol_end = phase + SAMPLE_RATE / baud, hy_previous_selector = None, hy_shift = 0,
      hy_shift_count = 0, hy_after_flag = None, hy_opening_data_sample = None, hy_flags_seen = 0\<rparr>"

datatype rx_error = NoHypotheses | BaudNotPositive

definition decoder_init :: "rat list \<Rightarrow> rat list \<Rightarrow> (rx_error, rx_decoder) result" where
  "decoder_init bauds phases =
     (if bauds = [] \<or> phases = [] then Inl NoHypotheses
      else if list_ex (\<lambda>baud. baud \<le> 0) bauds then Inl BaudNotPositive
      else
        (let hyps = concat (map (\<lambda>baud. map (hypothesis_init baud) phases) bauds)
         in Inr \<lparr>dc_hypotheses = hyps,
              dc_schedule = fold heap_push
                (map (\<lambda>i. (py_round (hy_next_symbol_end (hyps ! i)), i)) [0..<length hyps]) [],
              dc_sample_index = - 1, dc_packed_bytes = 0, dc_metric_windows = 0, dc_symbol_decisions = 0,
              dc_flags_seen = 0, dc_valid_frames = 0, dc_duplicates = 0, dc_max_frame_buffer_bits = 0,
              dc_occurrences = [], dc_metric_register = 0, dc_metric_sample_count = 0,
              dc_metric_tags = replicate HISTORY_SIZE (- 1), dc_metric_values = replicate HISTORY_SIZE 0,
              dc_transition_tags = replicate HISTORY_SIZE (- 1), dc_transition_prefix = replicate HISTORY_SIZE 0,
              dc_transitions_total = 0, dc_previous_raw = None\<rparr>))"

subsection \<open>Model: rings\<close>

text \<open>\<open>index % HISTORY_SIZE\<close>, which is not negative in Python.\<close>

definition slot_of :: "int \<Rightarrow> nat" where
  "slot_of index = nat (index mod int HISTORY_SIZE)"

definition store_transition_prefix :: "int \<Rightarrow> rx_decoder \<Rightarrow> rx_decoder" where
  "store_transition_prefix prefix_index d =
     (let slot = slot_of prefix_index
      in d\<lparr>dc_transition_tags := (dc_transition_tags d)[slot := prefix_index],
           dc_transition_prefix := (dc_transition_prefix d)[slot := dc_transitions_total d]\<rparr>)"

definition transition_value :: "rx_decoder \<Rightarrow> int \<Rightarrow> int option" where
  "transition_value d prefix_index =
     (let slot = slot_of prefix_index
      in if dc_transition_tags d ! slot \<noteq> prefix_index then None else Some (dc_transition_prefix d ! slot))"

definition transition_count :: "rx_decoder \<Rightarrow> int \<Rightarrow> int \<Rightarrow> int" where
  "transition_count d start stop =
     (if stop - start < 2 then 0
      else
        (case (transition_value d (start + 1), transition_value d stop) of
           (Some left, Some right) \<Rightarrow> max 0 (right - left)
         | _ \<Rightarrow> 0))"

definition store_metric :: "(12 word \<Rightarrow> real) \<Rightarrow> bool \<Rightarrow> rx_decoder \<Rightarrow> rx_decoder" where
  "store_metric table raw d =
     (let register = push_bit 1 (dc_metric_register d) OR of_bool raw;
          d = d\<lparr>dc_metric_register := register, dc_metric_sample_count := dc_metric_sample_count d + 1\<rparr>
      in if dc_metric_sample_count d < CORR_WINDOW then d
         else
           (let start = dc_sample_index d - int CORR_WINDOW + 1; slot = slot_of start
            in d\<lparr>dc_metric_tags := (dc_metric_tags d)[slot := start],
                 dc_metric_values := (dc_metric_values d)[slot := table register],
                 dc_metric_windows := dc_metric_windows d + 1\<rparr>))"

definition metric_at :: "rx_decoder \<Rightarrow> int \<Rightarrow> real option" where
  "metric_at d start =
     (let slot = slot_of start
      in if dc_metric_tags d ! slot \<noteq> start then None else Some (dc_metric_values d ! slot))"

subsection \<open>Model: frames\<close>

definition same_occurrence :: "streaming_frame \<Rightarrow> streaming_frame \<Rightarrow> bool" where
  "same_occurrence left right \<longleftrightarrow>
     sf_frame left = sf_frame right \<and>
     \<bar>sf_sample_start left - sf_sample_start right\<bar> \<le> OCCURRENCE_TOLERANCE_SAMPLES"

fun find_index :: "('a \<Rightarrow> bool) \<Rightarrow> 'a list \<Rightarrow> nat option" where
  "find_index P [] = None"
| "find_index P (x # xs) = (if P x then Some 0 else map_option Suc (find_index P xs))"

definition accept_frame ::
  "streaming_frame \<Rightarrow> rx_decoder \<times> streaming_frame list \<Rightarrow> rx_decoder \<times> streaming_frame list" where
  "accept_frame item = (\<lambda>(d, fresh).
     case find_index (\<lambda>existing. same_occurrence existing item) (dc_occurrences d) of
       None \<Rightarrow>
         (d\<lparr>dc_occurrences := dc_occurrences d @ [item], dc_valid_frames := dc_valid_frames d + 1\<rparr>, fresh @ [item])
     | Some i \<Rightarrow>
         (let d = d\<lparr>dc_duplicates := dc_duplicates d + 1\<rparr>
          in (if sf_sample_start item < sf_sample_start (dc_occurrences d ! i)
              then d\<lparr>dc_occurrences := (dc_occurrences d)[i := item]\<rparr> else d, fresh)))"

text \<open>The octets between two flags, the empty frame if they are not whole or not validly stuffed.\<close>

definition frame_between_flags :: "bool list \<Rightarrow> bytes" where
  "frame_between_flags stuffed =
     (case unstuff_bits stuffed of
        Inl _ \<Rightarrow> []
      | Inr payload_bits \<Rightarrow> (case bits_to_bytes_lsb payload_bits of None \<Rightarrow> [] | Some frame \<Rightarrow> frame))"

text \<open>The frame that a closing flag completes, if the bits since the opening flag are one.\<close>

definition flag_candidate :: "int \<Rightarrow> hypothesis \<Rightarrow> streaming_frame option" where
  "flag_candidate bit_sample hyp =
     (case hy_after_flag hyp of
        None \<Rightarrow> None
      | Some after_flag \<Rightarrow>
          (let stuffed = (if 8 \<le> length after_flag then take (length after_flag - 8) after_flag else [])
           in case hy_opening_data_sample hyp of
                None \<Rightarrow> None
              | Some opening \<Rightarrow>
                  if stuffed = [] then None
                  else
                    (let frame = frame_between_flags stuffed in
                     if 17 \<le> length frame \<and> verify_fcs frame then
                       (case parse_frame frame True of
                          Inl _ \<Rightarrow> None
                        | Inr _ \<Rightarrow>
                            Some \<lparr>sf_frame = frame, sf_sample_start = opening,
                              sf_sample_end = py_round (of_int bit_sample - 7 * hy_period hyp),
                              sf_baud = hy_baud hyp, sf_phase = hy_phase hyp\<rparr>)
                     else None)))"

definition finish_flag ::
  "int \<Rightarrow> hypothesis \<Rightarrow> rx_decoder \<times> streaming_frame list \<Rightarrow> hypothesis \<times> rx_decoder \<times> streaming_frame list" where
  "finish_flag bit_sample hyp = (\<lambda>(d, fresh).
     let hyp = hyp\<lparr>hy_flags_seen := hy_flags_seen hyp + 1\<rparr>;
         d = d\<lparr>dc_flags_seen := dc_flags_seen d + 1\<rparr>;
         (d, fresh) =
           (case flag_candidate bit_sample hyp of
              None \<Rightarrow> (d, fresh)
            | Some item \<Rightarrow> accept_frame item (d, fresh))
     in (hyp\<lparr>hy_after_flag := Some [],
          hy_opening_data_sample := Some (py_round (of_int bit_sample + hy_period hyp))\<rparr>, d, fresh))"

definition emit_bit ::
  "bool \<Rightarrow> int \<Rightarrow> hypothesis \<Rightarrow> rx_decoder \<times> streaming_frame list \<Rightarrow> hypothesis \<times> rx_decoder \<times> streaming_frame list" where
  "emit_bit b bit_sample hyp = (\<lambda>(d, fresh).
     let hyp = hyp\<lparr>hy_shift := push_bit 1 (hy_shift hyp) OR of_bool b,
           hy_shift_count := (if hy_shift_count hyp < 8 then hy_shift_count hyp + 1 else hy_shift_count hyp)\<rparr>;
         (hyp, d) =
           (case hy_after_flag hyp of
              None \<Rightarrow> (hyp, d)
            | Some bits \<Rightarrow>
                (let bits = bits @ [b];
                     d = d\<lparr>dc_max_frame_buffer_bits := max (dc_max_frame_buffer_bits d) (length bits)\<rparr>
                 in if length bits > MAX_STUFFED_BITS
                    then (hyp\<lparr>hy_after_flag := None, hy_opening_data_sample := None\<rparr>, d)
                    else (hyp\<lparr>hy_after_flag := Some bits\<rparr>, d)))
     in if 8 \<le> hy_shift_count hyp \<and> hy_shift hyp = FLAG_BYTE then finish_flag bit_sample hyp (d, fresh)
        else (hyp, d, fresh))"

subsection \<open>Model: symbols and samples\<close>

text \<open>The NRZI step of \<open>_classify_hypothesis\<close>: no change of tone is a one.\<close>

definition take_selector ::
  "bool \<Rightarrow> int \<Rightarrow> hypothesis \<Rightarrow> rx_decoder \<times> streaming_frame list \<Rightarrow> hypothesis \<times> rx_decoder \<times> streaming_frame list" where
  "take_selector selector bit_sample hyp s =
     (let b = (case hy_previous_selector hyp of None \<Rightarrow> True | Some previous \<Rightarrow> selector = previous);
          hyp = hyp\<lparr>hy_previous_selector := Some selector\<rparr>
      in emit_bit b bit_sample hyp s)"

definition classify_hypothesis ::
  "hypothesis \<Rightarrow> rx_decoder \<times> streaming_frame list \<Rightarrow> hypothesis \<times> rx_decoder \<times> streaming_frame list" where
  "classify_hypothesis hyp = (\<lambda>(d, fresh).
     let boundary = py_round (hy_next_symbol_end hyp - hy_period hyp);
         symbol_end = py_round (hy_next_symbol_end hyp);
         centered = py_round (of_int boundary + (hy_period hyp - of_nat CORR_WINDOW) * (1 / 2))
     in case metric_at d centered of
          None \<Rightarrow> (hyp, d, fresh)
        | Some metric \<Rightarrow>
            (let corr_selector = (metric > 0);
                 zc = transition_count d boundary symbol_end;
                 zc_selector = (zc \<ge> 3);
                 selector = (if \<bar>metric\<bar> \<ge> 12 / 100 then corr_selector else zc_selector);
                 (hyp, d, fresh) = take_selector selector (max 0 (symbol_end - 1)) hyp (d, fresh)
             in (hyp, d\<lparr>dc_symbol_decisions := dc_symbol_decisions d + 1\<rparr>, fresh)))"

text \<open>
  The loop of \<open>_classify_due_symbols\<close>, with fuel: the number of symbol boundaries that lie before
  \<open>current_end + 1\<close>, which bounds the symbols that are due whatever the periods are.
\<close>

definition symbols_before :: "rat \<Rightarrow> hypothesis \<Rightarrow> nat" where
  "symbols_before time hyp = nat \<lceil>(time - hy_next_symbol_end hyp) / hy_period hyp\<rceil>"

definition due_rounds :: "rx_decoder \<Rightarrow> nat" where
  "due_rounds d = sum_list (map (symbols_before (of_int (dc_sample_index d + 2))) (dc_hypotheses d))"

definition symbol_due :: "rx_decoder \<Rightarrow> bool" where
  "symbol_due d = (case dc_schedule d of [] \<Rightarrow> False | (due, _) # _ \<Rightarrow> due \<le> dc_sample_index d + 1)"

definition serve_next :: "rx_decoder \<times> streaming_frame list \<Rightarrow> rx_decoder \<times> streaming_frame list" where
  "serve_next = (\<lambda>(d, fresh).
     case dc_schedule d of
       [] \<Rightarrow> (d, fresh)
     | (_, order) # rest \<Rightarrow>
         (let (hyp, d, fresh) = classify_hypothesis (dc_hypotheses d ! order) (d\<lparr>dc_schedule := rest\<rparr>, fresh);
              hyp = hyp\<lparr>hy_next_symbol_end := hy_next_symbol_end hyp + hy_period hyp\<rparr>
          in (d\<lparr>dc_hypotheses := (dc_hypotheses d)[order := hyp],
                dc_schedule := heap_push (py_round (hy_next_symbol_end hyp), order) (dc_schedule d)\<rparr>, fresh)))"

fun classify_loop :: "nat \<Rightarrow> rx_decoder \<times> streaming_frame list \<Rightarrow> rx_decoder \<times> streaming_frame list" where
  "classify_loop 0 s = s"
| "classify_loop (Suc fuel) s = (if symbol_due (fst s) then classify_loop fuel (serve_next s) else s)"

definition classify_due_symbols :: "rx_decoder \<times> streaming_frame list \<Rightarrow> rx_decoder \<times> streaming_frame list" where
  "classify_due_symbols s = classify_loop (due_rounds (fst s)) s"

definition feed_sample ::
  "(12 word \<Rightarrow> real) \<Rightarrow> bool \<Rightarrow> rx_decoder \<times> streaming_frame list \<Rightarrow> rx_decoder \<times> streaming_frame list" where
  "feed_sample table raw = (\<lambda>(d, fresh).
     let d = d\<lparr>dc_sample_index := dc_sample_index d + 1\<rparr>;
         d = (case dc_previous_raw d of
                None \<Rightarrow> d
              | Some previous \<Rightarrow>
                  if raw \<noteq> previous then d\<lparr>dc_transitions_total := dc_transitions_total d + 1\<rparr> else d);
         d = d\<lparr>dc_previous_raw := Some raw\<rparr>;
         d = store_transition_prefix (dc_sample_index d + 1) d;
         d = store_metric table raw d
     in classify_due_symbols (d, fresh))"

definition byte_samples :: "byte \<Rightarrow> bool list" where
  "byte_samples b = map (\<lambda>i. bit b (7 - i)) [0..<8]"

definition rx_feed :: "(12 word \<Rightarrow> real) \<Rightarrow> bytes \<Rightarrow> rx_decoder \<Rightarrow> streaming_frame list \<times> rx_decoder" where
  "rx_feed table packed d =
     (let d = d\<lparr>dc_packed_bytes := dc_packed_bytes d + length packed\<rparr>;
          (d, fresh) = fold (feed_sample table) (concat (map byte_samples packed)) (d, [])
      in (sort_key sf_sample_start fresh, d))"

definition rx_occurrences :: "rx_decoder \<Rightarrow> streaming_frame list" where
  "rx_occurrences d = sort_key sf_sample_start (dc_occurrences d)"

record streaming_stats =
  st_packed_bytes :: nat
  st_samples :: int
  st_metric_windows :: nat
  st_symbol_decisions :: nat
  st_hypotheses :: nat
  st_flags_seen :: nat
  st_valid_frames :: nat
  st_duplicate_occurrences_suppressed :: nat
  st_max_frame_buffer_bits :: nat

definition rx_stats :: "rx_decoder \<Rightarrow> streaming_stats" where
  "rx_stats d =
     \<lparr>st_packed_bytes = dc_packed_bytes d, st_samples = dc_sample_index d + 1,
      st_metric_windows = dc_metric_windows d, st_symbol_decisions = dc_symbol_decisions d,
      st_hypotheses = length (dc_hypotheses d), st_flags_seen = dc_flags_seen d, st_valid_frames = dc_valid_frames d,
      st_duplicate_occurrences_suppressed = dc_duplicates d, st_max_frame_buffer_bits = dc_max_frame_buffer_bits d\<rparr>"

subsection \<open>What symbols keep\<close>

text \<open>The frames a receiver may report: long enough, with the right check sequence, and parseable.\<close>

definition air_frame :: "bytes \<Rightarrow> bool" where
  "air_frame frame \<longleftrightarrow> 17 \<le> length frame \<and> verify_fcs frame \<and> (\<exists>parsed. parse_frame frame True = Inr parsed)"

lemma flag_candidate_air: "flag_candidate sample hyp = Some item \<Longrightarrow> air_frame (sf_frame item)"
  by (auto simp: flag_candidate_def air_frame_def Let_def split: option.splits if_splits sum.splits)

text \<open>
  The interface between the receiver's bit layer and what its state is used for: the bit layer
  touches the counters and reports frames through \<open>accept_frame\<close>, and nothing else.
\<close>

locale symbol_invariant =
  fixes inv :: "rx_decoder \<times> streaming_frame list \<Rightarrow> bool"
  assumes accept_kept: "inv s \<Longrightarrow> air_frame (sf_frame item) \<Longrightarrow> inv (accept_frame item s)"
    and flags_kept: "inv (d, fresh) \<Longrightarrow> inv (d\<lparr>dc_flags_seen := n\<rparr>, fresh)"
    and buffer_kept: "inv (d, fresh) \<Longrightarrow> inv (d\<lparr>dc_max_frame_buffer_bits := n\<rparr>, fresh)"
    and decisions_kept: "inv (d, fresh) \<Longrightarrow> inv (d\<lparr>dc_symbol_decisions := n\<rparr>, fresh)"
begin

lemma finish_flag_kept:
  assumes "inv (d, fresh)"
  shows "inv (snd (finish_flag sample hyp (d, fresh)))"
proof -
  let ?d = "d\<lparr>dc_flags_seen := dc_flags_seen d + 1\<rparr>" and ?hyp = "hyp\<lparr>hy_flags_seen := hy_flags_seen hyp + 1\<rparr>"
  have d: "inv (?d, fresh)" using assms by (rule flags_kept)
  show ?thesis
  proof (cases "flag_candidate sample ?hyp")
    case None
    with d show ?thesis by (simp add: finish_flag_def Let_def)
  next
    case (Some item)
    then show ?thesis
      using accept_kept [OF d flag_candidate_air [OF Some]]
      by (cases "accept_frame item (?d, fresh)") (simp add: finish_flag_def Let_def)
  qed
qed

lemma emit_bit_kept:
  assumes "inv (d, fresh)"
  shows "inv (snd (emit_bit b sample hyp (d, fresh)))"
  using assms
  by (auto simp: emit_bit_def Let_def intro!: finish_flag_kept intro: buffer_kept split: option.splits)

lemma classify_hypothesis_kept:
  assumes "inv (d, fresh)"
  shows "inv (snd (classify_hypothesis hyp (d, fresh)))"
proof (cases "metric_at d (py_round (of_int (py_round (hy_next_symbol_end hyp - hy_period hyp)) +
    (hy_period hyp - of_nat CORR_WINDOW) * (1 / 2)))")
  case None
  with assms show ?thesis by (simp add: classify_hypothesis_def Let_def)
next
  case (Some metric)
  have "inv (snd (take_selector selector sample hyp (d, fresh)))" for selector sample
    by (simp add: take_selector_def Let_def emit_bit_kept [OF assms])
  with Some show ?thesis
    by (auto simp: classify_hypothesis_def Let_def split: prod.splits intro!: decisions_kept)
      (metis snd_conv)+
qed

end

locale sample_invariant = symbol_invariant +
  assumes bank_kept: "inv (d, fresh) \<Longrightarrow> inv (d\<lparr>dc_hypotheses := hyps\<rparr>, fresh)"
    and schedule_kept: "inv (d, fresh) \<Longrightarrow> inv (d\<lparr>dc_schedule := schedule\<rparr>, fresh)"
begin

lemma serve_next_kept: "inv s \<Longrightarrow> inv (serve_next s)"
proof (cases s)
  case (Pair d fresh)
  assume "inv s"
  then have d: "inv (d\<lparr>dc_schedule := rest\<rparr>, fresh)" for rest using Pair by (simp add: schedule_kept)
  show ?thesis
  proof (cases "dc_schedule d")
    case Nil
    with Pair \<open>inv s\<close> show ?thesis by (simp add: serve_next_def)
  next
    case (Cons e rest)
    obtain due order where e: "e = (due, order)" by (cases e)
    obtain hyp d1 fresh1 where c:
      "classify_hypothesis (dc_hypotheses d ! order) (d\<lparr>dc_schedule := rest\<rparr>, fresh) = (hyp, d1, fresh1)"
      by (rule prod_cases3)
    have "inv (d1, fresh1)" using classify_hypothesis_kept [OF d, of "dc_hypotheses d ! order" rest] c by simp
    then show ?thesis using Pair Cons e c by (simp add: serve_next_def Let_def bank_kept schedule_kept)
  qed
qed

lemma classify_loop_kept: "inv s \<Longrightarrow> inv (classify_loop fuel s)"
  by (induction fuel s rule: classify_loop.induct) (simp_all add: serve_next_kept)

lemma classify_due_symbols_kept: "inv s \<Longrightarrow> inv (classify_due_symbols s)"
  by (simp add: classify_due_symbols_def classify_loop_kept)

end

subsection \<open>Only valid frames are reported\<close>

definition frames_valid :: "rx_decoder \<times> streaming_frame list \<Rightarrow> bool" where
  "frames_valid = (\<lambda>(d, fresh). \<forall>item \<in> set (dc_occurrences d) \<union> set fresh. air_frame (sf_frame item))"

lemma accept_frame_valid: "frames_valid s \<Longrightarrow> air_frame (sf_frame item) \<Longrightarrow> frames_valid (accept_frame item s)"
  by (cases s)
    (auto simp: accept_frame_def frames_valid_def Let_def split: option.splits dest!: set_update_subset_insert [THEN subsetD])

interpretation reported: sample_invariant frames_valid
  by unfold_locales (rule accept_frame_valid, auto simp: frames_valid_def)

lemma sample_side_frames [simp]:
  "dc_occurrences (store_metric table raw d) = dc_occurrences d"
  "dc_occurrences (store_transition_prefix i d) = dc_occurrences d"
  by (simp_all add: store_metric_def store_transition_prefix_def Let_def)

lemma feed_sample_valid: "frames_valid s \<Longrightarrow> frames_valid (feed_sample table raw s)"
  by (cases s)
    (auto simp: feed_sample_def Let_def intro!: reported.classify_due_symbols_kept,
      auto simp: frames_valid_def split: option.splits)

lemma fold_feed_valid: "frames_valid s \<Longrightarrow> frames_valid (fold (feed_sample table) raws s)"
  by (induction raws arbitrary: s) (simp_all add: feed_sample_valid)

subsection \<open>The rings against the sample history\<close>

text \<open>The reference: transitions and correlation windows of the whole list of samples.\<close>

definition transitions_in :: "bool list \<Rightarrow> nat \<Rightarrow> nat \<Rightarrow> nat" where
  "transitions_in xs start stop = card {i. start < i \<and> i < stop \<and> xs ! i \<noteq> xs ! (i - 1)}"

definition shift_in :: "bool \<Rightarrow> 12 word \<Rightarrow> 12 word" where
  "shift_in raw w = push_bit 1 w OR of_bool raw"

definition sample_window :: "bool list \<Rightarrow> nat \<Rightarrow> 12 word" where
  "sample_window xs start = fold shift_in (take CORR_WINDOW (drop start xs)) 0"

lemma bit_shift_in: "i < 12 \<Longrightarrow> bit (shift_in raw w) i \<longleftrightarrow> (if i = 0 then raw else bit w (i - 1))"
  unfolding shift_in_def bit_or_iff bit_push_bit_iff by (auto simp: bit_of_bool_iff)

lemma bit_fold_shift_in:
  "i < 12 \<Longrightarrow> bit (fold shift_in ys w) i \<longleftrightarrow> (if i < length ys then rev ys ! i else bit w (i - length ys))"
proof (induction ys arbitrary: w)
  case (Cons y ys)
  show ?case
    by (subst fold_Cons, unfold o_apply, subst Cons.IH [OF Cons.prems])
      (use Cons.prems in \<open>auto simp: bit_shift_in nth_append not_less le_Suc_eq\<close>)
qed simp

lemma fold_shift_in_window:
  assumes "12 \<le> length xs"
  shows "fold shift_in xs w = sample_window xs (length xs - 12)"
proof (rule bit_word_eqI)
  fix i :: nat
  assume "i < LENGTH(12)"
  then have i: "i < 12" by simp
  have "rev (drop (length xs - 12) xs) ! i = rev xs ! i"
    using i assms by (simp add: rev_nth)
  then show "bit (fold shift_in xs w) i \<longleftrightarrow> bit (sample_window xs (length xs - 12)) i"
    using i assms by (simp add: sample_window_def CORR_WINDOW_def bit_fold_shift_in)
qed

lemma sample_window_append: "start + 12 \<le> length xs \<Longrightarrow> sample_window (xs @ ys) start = sample_window xs start"
  by (simp add: sample_window_def CORR_WINDOW_def)

lemma transitions_append: "stop \<le> length xs \<Longrightarrow> transitions_in (xs @ ys) start stop = transitions_in xs start stop"
  by (auto simp: transitions_in_def nth_append intro!: arg_cong [where f = card])

lemma transitions_snoc:
  "transitions_in (xs @ [x]) 0 (Suc (length xs)) =
     transitions_in xs 0 (length xs) + (if xs \<noteq> [] \<and> x \<noteq> last xs then 1 else 0)"
proof (cases xs rule: rev_cases)
  case Nil
  have "{i. 0 < i \<and> i < Suc 0 \<and> [x] ! i \<noteq> [x] ! (i - 1)} = {}" by auto
  with Nil show ?thesis by (simp add: transitions_in_def)
next
  case (snoc ys y)
  have "{i. 0 < i \<and> i < Suc (Suc (length ys)) \<and> (ys @ [y, x]) ! i \<noteq> (ys @ [y, x]) ! (i - 1)} =
      {i. 0 < i \<and> i < Suc (length ys) \<and> (ys @ [y]) ! i \<noteq> (ys @ [y]) ! (i - 1)} \<union> (if x \<noteq> y then {Suc (length ys)} else {})"
    by (auto simp: nth_append less_Suc_eq)
  moreover have "finite {i. 0 < i \<and> i < Suc (length ys) \<and> (ys @ [y]) ! i \<noteq> (ys @ [y]) ! (i - 1)}" by simp
  ultimately show ?thesis using snoc by (simp add: transitions_in_def card_insert_if)
qed

lemma transitions_split:
  assumes "start < stop"
  shows "transitions_in xs 0 stop = transitions_in xs 0 (Suc start) + transitions_in xs start stop"
proof -
  let ?A = "{i. 0 < i \<and> i < Suc start \<and> xs ! i \<noteq> xs ! (i - 1)}" and ?B = "{i. start < i \<and> i < stop \<and> xs ! i \<noteq> xs ! (i - 1)}"
  have "{i. 0 < i \<and> i < stop \<and> xs ! i \<noteq> xs ! (i - 1)} = ?A \<union> ?B"
    using assms by auto
  moreover have "card (?A \<union> ?B) = card ?A + card ?B" by (rule card_Un_disjoint) auto
  ultimately show ?thesis by (simp add: transitions_in_def)
qed

lemma slot_of_nat: "slot_of (int n) = n mod 128"
  by (simp add: slot_of_def HISTORY_SIZE_def nat_mod_distrib)

lemma slot_of_less: "slot_of i < 128"
  by (simp add: slot_of_def HISTORY_SIZE_def nat_less_iff)

lemma same_slot: "k mod 128 = n mod 128 \<Longrightarrow> k \<le> n \<Longrightarrow> n < k + 128 \<Longrightarrow> k = n" for k n :: nat
proof -
  assume "k mod 128 = n mod 128" "k \<le> n" "n < k + 128"
  then have "128 dvd n - k" by (metis mod_eq_dvd_iff_nat)
  with \<open>k \<le> n\<close> \<open>n < k + 128\<close> show "k = n" by (auto dest: dvd_imp_le)
qed

text \<open>
  A ring of tagged values holds the newest 128 entries of a sequence: \<open>n\<close> entries have been
  stored, entry \<open>k\<close> with the value \<open>f k\<close>.
\<close>

definition ring_holds :: "int list \<Rightarrow> 'a list \<Rightarrow> nat \<Rightarrow> nat \<Rightarrow> (nat \<Rightarrow> 'a) \<Rightarrow> bool" where
  "ring_holds tags vals low n f \<longleftrightarrow>
     length tags = 128 \<and> length vals = 128 \<and>
     (\<forall>k. low \<le> k \<and> k < n \<and> n \<le> k + 128 \<longrightarrow> tags ! (k mod 128) = int k \<and> vals ! (k mod 128) = f k) \<and>
     (\<forall>i < 128. tags ! i < int n)"

lemma ring_empty: "length vals = 128 \<Longrightarrow> ring_holds (replicate 128 (- 1)) vals low low f"
  by (auto simp: ring_holds_def)

lemma ring_store:
  assumes "ring_holds tags vals low n f" "f n = v"
  shows "ring_holds (tags[n mod 128 := int n]) (vals[n mod 128 := v]) low (Suc n) f"
proof -
  have other: "n mod 128 \<noteq> k mod 128" if "k < n" "n < k + 128" for k
    using same_slot [of k n] that by auto
  have len: "length tags = 128" "length vals = 128" and old: "\<And>i. i < 128 \<Longrightarrow> tags ! i < int n"
    and held: "\<And>k. low \<le> k \<Longrightarrow> k < n \<Longrightarrow> n \<le> k + 128 \<Longrightarrow> tags ! (k mod 128) = int k \<and> vals ! (k mod 128) = f k"
    using assms by (simp_all add: ring_holds_def)
  have "tags[n mod 128 := int n] ! (k mod 128) = int k \<and> vals[n mod 128 := v] ! (k mod 128) = f k"
    if "low \<le> k" "k < Suc n" "Suc n \<le> k + 128" for k
    using that other [of k] held [of k] len assms(2) by (cases "k = n") auto
  moreover have "tags[n mod 128 := int n] ! i < int (Suc n)" if "i < 128" for i
    using old [OF that] that len by (cases "i = n mod 128") auto
  ultimately show ?thesis using len by (simp add: ring_holds_def)
qed

lemma ring_read:
  "ring_holds tags vals low n f \<Longrightarrow> low \<le> k \<Longrightarrow> k < n \<Longrightarrow> n \<le> k + 128 \<Longrightarrow>
     tags ! (k mod 128) = int k \<and> vals ! (k mod 128) = f k"
  by (simp add: ring_holds_def)

lemma ring_absent:
  assumes "ring_holds tags vals low n f" "n \<le> k"
  shows "tags ! (k mod 128) \<noteq> int k"
proof -
  have "tags ! (k mod 128) < int n" using assms(1) by (simp add: ring_holds_def)
  with assms(2) show ?thesis by simp
qed

lemma ring_cong: "ring_holds tags vals low n f \<Longrightarrow> (\<And>k. k < n \<Longrightarrow> f k = g k) \<Longrightarrow> ring_holds tags vals low n g"
  by (simp add: ring_holds_def)

definition rings :: "(12 word \<Rightarrow> real) \<Rightarrow> bool list \<Rightarrow> rx_decoder \<times> streaming_frame list \<Rightarrow> bool" where
  "rings table xs = (\<lambda>(d, fresh).
     dc_sample_index d = int (length xs) - 1 \<and> dc_metric_sample_count d = length xs \<and>
     dc_metric_register d = fold shift_in xs 0 \<and>
     dc_transitions_total d = int (transitions_in xs 0 (length xs)) \<and>
     dc_previous_raw d = (if xs = [] then None else Some (last xs)) \<and>
     ring_holds (dc_transition_tags d) (dc_transition_prefix d) 1 (Suc (length xs)) (\<lambda>k. int (transitions_in xs 0 k)) \<and>
     ring_holds (dc_metric_tags d) (dc_metric_values d) 0 (length xs - 11) (\<lambda>k. table (sample_window xs k)))"

lemma store_metric_shift:
  "store_metric table raw d =
     (let register = shift_in raw (dc_metric_register d);
          d = d\<lparr>dc_metric_register := register, dc_metric_sample_count := dc_metric_sample_count d + 1\<rparr>
      in if dc_metric_sample_count d < CORR_WINDOW then d
         else
           (let start = dc_sample_index d - int CORR_WINDOW + 1; slot = slot_of start
            in d\<lparr>dc_metric_tags := (dc_metric_tags d)[slot := start],
                 dc_metric_values := (dc_metric_values d)[slot := table register],
                 dc_metric_windows := dc_metric_windows d + 1\<rparr>))"
  by (simp add: store_metric_def shift_in_def Let_def)

interpretation ring_side: sample_invariant "rings table xs" for table xs
  by unfold_locales (auto simp: rings_def accept_frame_def Let_def split: option.splits if_splits prod.splits)

lemma rings_sample:
  assumes "rings table xs (d, fresh)"
  obtains d1 where "feed_sample table raw (d, fresh) = classify_due_symbols (d1, fresh)" "rings table (xs @ [raw]) (d1, fresh)"
    "dc_hypotheses d1 = dc_hypotheses d" "dc_schedule d1 = dc_schedule d" "dc_occurrences d1 = dc_occurrences d"
proof -
  let ?N = "length xs" and ?ys = "xs @ [raw]"
  let ?total = "int (transitions_in ?ys 0 (Suc ?N))"
  let ?register = "shift_in raw (dc_metric_register d)"
  have idx: "dc_sample_index d = int ?N - 1" and cnt: "dc_metric_sample_count d = ?N"
    and reg: "dc_metric_register d = fold shift_in xs 0"
    and tot: "dc_transitions_total d = int (transitions_in xs 0 ?N)"
    and prev: "dc_previous_raw d = (if xs = [] then None else Some (last xs))"
    and tr: "ring_holds (dc_transition_tags d) (dc_transition_prefix d) 1 (Suc ?N) (\<lambda>k. int (transitions_in xs 0 k))"
    and me: "ring_holds (dc_metric_tags d) (dc_metric_values d) 0 (?N - 11) (\<lambda>k. table (sample_window xs k))"
    using assms by (simp_all add: rings_def)
  have tr': "ring_holds ((dc_transition_tags d)[Suc ?N mod 128 := int (Suc ?N)])
      ((dc_transition_prefix d)[Suc ?N mod 128 := ?total]) 1 (Suc (Suc ?N)) (\<lambda>k. int (transitions_in ?ys 0 k))"
    by (rule ring_store [OF ring_cong [OF tr]]) (simp_all add: transitions_append)
  have me': "ring_holds (dc_metric_tags d) (dc_metric_values d) 0 (?N - 11) (\<lambda>k. table (sample_window ?ys k))"
    by (rule ring_cong [OF me]) (simp add: sample_window_append)
  have reg': "?register = fold shift_in ?ys 0" using reg by simp
  have me'': "ring_holds ((dc_metric_tags d)[(?N - 11) mod 128 := int (?N - 11)])
      ((dc_metric_values d)[(?N - 11) mod 128 := table ?register]) 0 (Suc (?N - 11)) (\<lambda>k. table (sample_window ?ys k))"
    if "11 \<le> ?N"
    using ring_store [OF me' refl] fold_shift_in_window [of ?ys 0] that reg' by simp
  have start: "int ?N - int CORR_WINDOW + 1 = int (?N - 11)" if "11 \<le> ?N" using that by (simp add: CORR_WINDOW_def)
  have slot: "slot_of (int ?N + 1) = Suc ?N mod 128" using slot_of_nat [of "Suc ?N"] by (simp add: add.commute)
  define d1 where "d1 = d\<lparr>dc_sample_index := int ?N, dc_transitions_total := ?total, dc_previous_raw := Some raw,
    dc_transition_tags := (dc_transition_tags d)[Suc ?N mod 128 := int (Suc ?N)],
    dc_transition_prefix := (dc_transition_prefix d)[Suc ?N mod 128 := ?total]\<rparr>"
  have "feed_sample table raw (d, fresh) = classify_due_symbols (store_metric table raw d1, fresh)"
    using idx tot prev slot
    by (cases d)
      (auto simp: feed_sample_def d1_def Let_def store_transition_prefix_def transitions_snoc algebra_simps
        intro!: arg_cong [where f = classify_due_symbols] arg_cong [where f = "store_metric table raw"])
  moreover have "rings table ?ys (store_metric table raw d1, fresh)"
  proof (cases "11 \<le> ?N")
    case True
    have "Suc (?N - 11) = ?N - 10" using True by simp
    with True show ?thesis
      using tr' me'' [OF True] reg' cnt start [OF True] slot_of_nat [of "?N - 11"]
      by (simp add: rings_def store_metric_shift d1_def Let_def CORR_WINDOW_def Suc_diff_le)
  next
    case False
    then show ?thesis
      using tr' me' reg' cnt by (simp add: rings_def store_metric_shift d1_def Let_def CORR_WINDOW_def)
  qed
  moreover have "dc_hypotheses (store_metric table raw d1) = dc_hypotheses d" "dc_schedule (store_metric table raw d1) = dc_schedule d"
    "dc_occurrences (store_metric table raw d1) = dc_occurrences d"
    by (simp_all add: store_metric_def d1_def Let_def)
  ultimately show thesis using that by blast
qed

lemma rings_step:
  assumes "rings table xs (d, fresh)"
  shows "rings table (xs @ [raw]) (feed_sample table raw (d, fresh))"
  using rings_sample [OF assms, of raw] by (metis ring_side.classify_due_symbols_kept)

lemma rings_fold: "rings table xs s \<Longrightarrow> rings table (xs @ raws) (fold (feed_sample table) raws s)"
proof (induction raws arbitrary: xs s)
  case (Cons raw raws)
  obtain d fresh where "s = (d, fresh)" by (cases s)
  with Cons rings_step [of table xs d fresh raw] Cons.IH [of "xs @ [raw]" "feed_sample table raw s"]
  show ?case by simp
qed simp

text \<open>The samples that packed octets stand for, and the decoder after a list of reads.\<close>

definition samples_of_bytes :: "bytes \<Rightarrow> bool list" where
  "samples_of_bytes packed = concat (map byte_samples packed)"

definition rx_run :: "(12 word \<Rightarrow> real) \<Rightarrow> rx_decoder \<Rightarrow> bytes list \<Rightarrow> rx_decoder" where
  "rx_run table = run (\<lambda>d packed. snd (rx_feed table packed d))"

lemma samples_append [simp]: "samples_of_bytes (xs @ ys) = samples_of_bytes xs @ samples_of_bytes ys"
  by (simp add: samples_of_bytes_def)

lemma rx_feed_eq:
  "rx_feed table packed d =
     (let (d, fresh) = fold (feed_sample table) (samples_of_bytes packed) (d\<lparr>dc_packed_bytes := dc_packed_bytes d + length packed\<rparr>, [])
      in (sort_key sf_sample_start fresh, d))"
  by (simp add: rx_feed_def samples_of_bytes_def Let_def)

lemma rings_feed:
  assumes "rings table xs (d, fresh)"
  shows "rings table (xs @ samples_of_bytes packed) (snd (rx_feed table packed d), fresh')"
proof -
  have "rings table xs (d\<lparr>dc_packed_bytes := dc_packed_bytes d + length packed\<rparr>, [])"
    using assms by (simp add: rings_def)
  from rings_fold [OF this, of "samples_of_bytes packed"] show ?thesis
    by (auto simp: rx_feed_eq rings_def Let_def split: prod.splits)
qed

lemma rings_run: "rings table xs (d, fresh) \<Longrightarrow> rings table (xs @ samples_of_bytes (concat chunks)) (rx_run table d chunks, fresh)"
proof (induction chunks arbitrary: xs d)
  case (Cons c cs)
  from Cons.IH [OF rings_feed [OF Cons.prems]] show ?case by (simp add: rx_run_def)
qed (simp add: rx_run_def samples_of_bytes_def)

lemma rings_init:
  assumes "decoder_init bauds phases = Inr d"
  shows "rings table [] (d, [])"
proof -
  have "transitions_in [] 0 0 = 0" by (simp add: transitions_in_def)
  with assms show ?thesis
    by (auto simp: decoder_init_def rings_def HISTORY_SIZE_def ring_holds_def Let_def split: if_splits)
qed

lemma rings_metric:
  assumes "rings table xs (d, fresh)" "start + 12 \<le> length xs" "length xs \<le> start + 139"
  shows "metric_at d (int start) = Some (table (sample_window xs start))"
proof -
  have "ring_holds (dc_metric_tags d) (dc_metric_values d) 0 (length xs - 11) (\<lambda>k. table (sample_window xs k))"
    using assms(1) by (simp add: rings_def)
  from ring_read [OF this, of start] assms(2,3) show ?thesis by (auto simp: metric_at_def slot_of_nat Let_def)
qed

text \<open>
  C16. The rings forget nothing that is read. After any reads from a new decoder, let \<open>xs\<close> be all the
  samples so far. The metric the decoder finds for a window of the last 139 samples is the one of
  that window of \<open>xs\<close>, it finds none for a window that is not complete, and the number of
  transitions it computes for a stretch of the last 128 samples is the number of places in it where
  \<open>xs\<close> changes.
\<close>

theorem rings_equal_history:
  assumes "decoder_init bauds phases = Inr d0" "xs = samples_of_bytes (concat chunks)" "d = rx_run table d0 chunks"
  shows "(\<forall>start. start + 12 \<le> length xs \<and> length xs \<le> start + 139 \<longrightarrow>
      metric_at d (int start) = Some (table (sample_window xs start))) \<and>
    (\<forall>start. length xs < start + 12 \<longrightarrow> metric_at d (int start) = None) \<and>
    (\<forall>start stop. stop \<le> length xs \<and> length xs \<le> start + 128 \<longrightarrow>
      transition_count d (int start) (int stop) = int (transitions_in xs start stop))"
proof -
  have rings: "rings table xs (d, [])"
    using rings_run [OF rings_init [OF assms(1)], of table chunks] assms(2,3) by simp
  then have tr: "ring_holds (dc_transition_tags d) (dc_transition_prefix d) 1 (Suc (length xs)) (\<lambda>k. int (transitions_in xs 0 k))"
    and me: "ring_holds (dc_metric_tags d) (dc_metric_values d) 0 (length xs - 11) (\<lambda>k. table (sample_window xs k))"
    by (simp_all add: rings_def)
  have "metric_at d (int start) = Some (table (sample_window xs start))"
    if "start + 12 \<le> length xs" "length xs \<le> start + 139" for start
    using rings_metric [OF rings that] .
  moreover have "metric_at d (int start) = None" if "length xs < start + 12" for start
    using ring_absent [OF me, of start] that by (simp add: metric_at_def slot_of_nat Let_def)
  moreover have "transition_count d (int start) (int stop) = int (transitions_in xs start stop)"
    if "stop \<le> length xs" "length xs \<le> start + 128" for start stop
  proof (cases "start + 2 \<le> stop")
    case True
    have "transition_value d (int k) = Some (int (transitions_in xs 0 k))" if "Suc start \<le> k" "k \<le> stop" for k
      using ring_read [OF tr, of k] that \<open>stop \<le> length xs\<close> \<open>length xs \<le> start + 128\<close>
      by (auto simp: transition_value_def slot_of_nat Let_def)
    from this [of "Suc start"] this [of stop] True transitions_split [of start stop xs] show ?thesis
      by (simp add: transition_count_def add.commute)
  next
    case False
    then have "{i. start < i \<and> i < stop \<and> xs ! i \<noteq> xs ! (i - 1)} = {}" by auto
    with False show ?thesis by (simp add: transition_count_def transitions_in_def)
  qed
  ultimately show ?thesis by blast
qed

subsection \<open>Every due symbol is served\<close>

lemma py_round_ge: "of_int n \<le> x \<Longrightarrow> n \<le> py_round x"
proof -
  assume "of_int n \<le> x"
  then have "n \<le> \<lfloor>x\<rfloor>" by (simp add: le_floor_iff)
  then show ?thesis by (auto simp: py_round_def Let_def)
qed

lemma py_round_le: "py_round x \<le> n \<Longrightarrow> x < of_int n + 1"
proof -
  assume a: "py_round x \<le> n"
  then have "\<lfloor>x\<rfloor> \<le> n" by (auto simp: py_round_def Let_def split: if_splits)
  then show ?thesis by linarith
qed

lemma heap_push_mset [simp]: "mset (heap_push e es) = add_mset e (mset es)"
  by (induction e es rule: heap_push.induct) auto

lemma heap_push_sorted: "sorted (map fst es) \<Longrightarrow> sorted (map fst (heap_push e es))"
proof (induction e es rule: heap_push.induct)
  case (2 due order due' order' es)
  have "set (heap_push (due, order) es) = insert (due, order) (set es)"
    using heap_push_mset [of "(due, order)" es] by (metis set_mset_add_mset_insert set_mset_mset)
  with 2 show ?case by auto
qed simp

text \<open>What a hypothesis is told apart by, and its timing: every symbol up to the last one it was
  served for has been due.\<close>

abbreviation "hypothesis_id h \<equiv> (hy_baud h, hy_phase h, hy_period h)"

definition on_time :: "int \<Rightarrow> hypothesis \<Rightarrow> bool" where
  "on_time now h \<longleftrightarrow> 0 < hy_period h \<and>
     (\<exists>m :: nat. hy_next_symbol_end h = hy_phase h + of_nat (m + 1) * hy_period h \<and>
        (m = 0 \<or> py_round (hy_phase h + of_nat m * hy_period h) \<le> now))"

definition scheduled :: "rx_decoder \<Rightarrow> bool" where
  "scheduled d \<longleftrightarrow>
     sorted (map fst (dc_schedule d)) \<and>
     mset (dc_schedule d) =
       mset (map (\<lambda>i. (py_round (hy_next_symbol_end (dc_hypotheses d ! i)), i)) [0..<length (dc_hypotheses d)])"

definition timing :: "(rat \<times> rat \<times> rat) list \<Rightarrow> int \<Rightarrow> rx_decoder \<Rightarrow> bool" where
  "timing ids now d \<longleftrightarrow> scheduled d \<and> dc_sample_index d = now - 1 \<and>
     map hypothesis_id (dc_hypotheses d) = ids \<and> (\<forall>h \<in> set (dc_hypotheses d). on_time now h)"

lemma finish_flag_hypothesis:
  "finish_flag sample hyp s = (hyp', s') \<Longrightarrow>
     hypothesis_id hyp' = hypothesis_id hyp \<and> hy_next_symbol_end hyp' = hy_next_symbol_end hyp"
  by (cases s) (auto simp: finish_flag_def Let_def split: prod.splits)

lemma emit_bit_hypothesis:
  assumes "emit_bit b sample hyp s = (hyp', s')"
  shows "hypothesis_id hyp' = hypothesis_id hyp \<and> hy_next_symbol_end hyp' = hy_next_symbol_end hyp"
proof (cases s)
  case (Pair d fresh)
  with assms show ?thesis
    by (auto simp: emit_bit_def Let_def split: option.splits if_splits dest!: finish_flag_hypothesis)
qed

lemma classify_hypothesis_id:
  "classify_hypothesis hyp s = (hyp', s') \<Longrightarrow>
     hypothesis_id hyp' = hypothesis_id hyp \<and> hy_next_symbol_end hyp' = hy_next_symbol_end hyp"
  by (cases s)
    (auto simp: classify_hypothesis_def take_selector_def Let_def split: option.splits prod.splits dest!: emit_bit_hypothesis)

interpretation bank_side: symbol_invariant
  "\<lambda>(d, _). dc_hypotheses d = hyps \<and> dc_schedule d = schedule \<and> dc_sample_index d = now" for hyps schedule now
  by unfold_locales (auto simp: accept_frame_def Let_def split: option.splits if_splits prod.splits)

lemma classify_hypothesis_bank:
  assumes "classify_hypothesis hyp (d, fresh) = (hyp', d', fresh')"
  shows "dc_hypotheses d' = dc_hypotheses d \<and> dc_schedule d' = dc_schedule d \<and> dc_sample_index d' = dc_sample_index d"
  using bank_side.classify_hypothesis_kept [of "dc_hypotheses d" "dc_schedule d" "dc_sample_index d" d fresh hyp] assms by simp

lemma symbols_before_step:
  assumes "0 < hy_period h" "hy_next_symbol_end h < time"
    and "hy_period h' = hy_period h" "hy_next_symbol_end h' = hy_next_symbol_end h + hy_period h"
  shows "Suc (symbols_before time h') = symbols_before time h"
proof -
  let ?q = "(time - hy_next_symbol_end h) / hy_period h"
  have "0 < ?q" using assms(1,2) by simp
  then have "0 < \<lceil>?q\<rceil>" by (simp only: zero_less_ceiling)
  moreover have "(time - hy_next_symbol_end h') / hy_period h' = ?q - 1"
    using assms by (simp add: field_simps)
  moreover have "\<lceil>?q - 1\<rceil> = \<lceil>?q\<rceil> - 1" by simp
  ultimately show ?thesis by (simp only: symbols_before_def)
qed

lemma scheduled_head:
  assumes "scheduled d" "dc_schedule d = (due, order) # rest"
  shows "order < length (dc_hypotheses d)" "due = py_round (hy_next_symbol_end (dc_hypotheses d ! order))"
    and "h \<in> set (dc_hypotheses d) \<Longrightarrow> due \<le> py_round (hy_next_symbol_end h)"
proof -
  have set_eq: "set (dc_schedule d) =
      (\<lambda>i. (py_round (hy_next_symbol_end (dc_hypotheses d ! i)), i)) ` {0..<length (dc_hypotheses d)}"
    using assms(1) by (metis (no_types, lifting) scheduled_def image_set set_mset_mset set_upt)
  then have "(due, order) \<in> (\<lambda>i. (py_round (hy_next_symbol_end (dc_hypotheses d ! i)), i)) ` {0..<length (dc_hypotheses d)}"
    using assms(2) by auto
  then show "order < length (dc_hypotheses d)" "due = py_round (hy_next_symbol_end (dc_hypotheses d ! order))" by auto
  assume "h \<in> set (dc_hypotheses d)"
  then obtain i where "i < length (dc_hypotheses d)" "h = dc_hypotheses d ! i" by (auto simp: in_set_conv_nth)
  with set_eq have "(py_round (hy_next_symbol_end h), i) \<in> set (dc_schedule d)" by auto
  with assms show "due \<le> py_round (hy_next_symbol_end h)" by (auto simp: scheduled_def)
qed

lemma mset_middle: "mset (map f (xs @ x # ys)) = add_mset (f x) (mset (map f (xs @ ys)))"
  by simp

lemma scheduled_serve:
  assumes "scheduled d" "dc_schedule d = (due, order) # rest"
    and "dc_hypotheses d' = (dc_hypotheses d)[order := h]"
    and "dc_schedule d' = heap_push (py_round (hy_next_symbol_end h), order) rest"
  shows "scheduled d'"
proof -
  let ?n = "length (dc_hypotheses d)" and ?e = "\<lambda>hyps i. (py_round (hy_next_symbol_end (hyps ! i)), i)"
  have o: "order < ?n" and due: "due = py_round (hy_next_symbol_end (dc_hypotheses d ! order))"
    using scheduled_head [OF assms(1,2)] by simp_all
  have split: "[0..<?n] = [0..<order] @ order # [Suc order..<?n]"
    using upt_add_eq_append [of 0 order "?n - order"] o by (simp add: upt_conv_Cons)
  have rest: "mset rest = mset (map (?e (dc_hypotheses d)) ([0..<order] @ [Suc order..<?n]))"
    using assms(1,2) due by (simp add: scheduled_def split)
  have "map (?e (dc_hypotheses d')) ([0..<order] @ [Suc order..<?n]) = map (?e (dc_hypotheses d)) ([0..<order] @ [Suc order..<?n])"
    by (rule map_cong) (auto simp: assms(3))
  with rest have "mset rest = mset (map (?e (dc_hypotheses d')) ([0..<order] @ [Suc order..<?n]))" by (simp only:)
  moreover have "?e (dc_hypotheses d') order = (py_round (hy_next_symbol_end h), order)" using o assms(3) by simp
  ultimately have "mset (dc_schedule d') = mset (map (?e (dc_hypotheses d')) [0..<length (dc_hypotheses d')])"
    using assms(3) by (simp only: assms(4) split heap_push_mset mset_middle length_list_update)
  moreover have "sorted (map fst (dc_schedule d'))"
    using assms(1,2) by (simp add: assms(4) scheduled_def heap_push_sorted)
  ultimately show ?thesis by (simp add: scheduled_def)
qed

lemma on_time_serve:
  assumes "on_time now h" "py_round (hy_next_symbol_end h) \<le> now"
    and "hypothesis_id h' = hypothesis_id h" "hy_next_symbol_end h' = hy_next_symbol_end h + hy_period h"
  shows "on_time now h'"
proof -
  obtain m where m: "hy_next_symbol_end h = hy_phase h + of_nat (m + 1) * hy_period h"
    using assms(1) by (auto simp: on_time_def)
  then have "hy_next_symbol_end h' = hy_phase h' + of_nat (Suc m + 1) * hy_period h'"
    and "py_round (hy_phase h' + of_nat (Suc m) * hy_period h') \<le> now"
    using assms(2-4) by (simp_all add: algebra_simps)
  moreover have "0 < hy_period h'" using assms(1,3) by (simp add: on_time_def)
  ultimately show ?thesis unfolding on_time_def by blast
qed

lemma serve_next_due:
  assumes "timing ids now d" "symbol_due d" "serve_next (d, fresh) = (d', fresh')"
  obtains order h hyp where "order < length (dc_hypotheses d)" "h = dc_hypotheses d ! order"
    "py_round (hy_next_symbol_end h) \<le> now"
    "classify_hypothesis h (d\<lparr>dc_schedule := tl (dc_schedule d)\<rparr>, fresh) = (hyp, d'\<lparr>dc_hypotheses := dc_hypotheses d, dc_schedule := tl (dc_schedule d)\<rparr>, fresh')"
    "dc_hypotheses d' = (dc_hypotheses d)[order := hyp\<lparr>hy_next_symbol_end := hy_next_symbol_end h + hy_period h\<rparr>]"
    "timing ids now d'" "Suc (due_rounds d') = due_rounds d"
proof -
  have sch: "scheduled d" and idx: "dc_sample_index d = now - 1" using assms(1) by (simp_all add: timing_def)
  obtain due order rest where e: "dc_schedule d = (due, order) # rest" and due: "due \<le> now"
    using assms(2) idx by (auto simp: symbol_due_def split: list.splits)
  let ?h = "dc_hypotheses d ! order"
  obtain h1 d1 fresh1 where c: "classify_hypothesis ?h (d\<lparr>dc_schedule := rest\<rparr>, fresh) = (h1, d1, fresh1)"
    by (rule prod_cases3)
  define h2 where "h2 = h1\<lparr>hy_next_symbol_end := hy_next_symbol_end h1 + hy_period h1\<rparr>"
  note o = scheduled_head(1,2) [OF sch e] and bank = classify_hypothesis_bank [OF c] and id = classify_hypothesis_id [OF c]
  have ht: "on_time now ?h" using assms(1) o(1) by (simp add: timing_def)
  have h2: "hypothesis_id h2 = hypothesis_id ?h" "hy_next_symbol_end h2 = hy_next_symbol_end ?h + hy_period ?h"
    using id by (simp_all add: h2_def)
  have d': "d' = d1\<lparr>dc_hypotheses := (dc_hypotheses d1)[order := h2],
      dc_schedule := heap_push (py_round (hy_next_symbol_end h2), order) (dc_schedule d1)\<rparr>" "fresh' = fresh1"
    using assms(3) e c by (simp_all add: serve_next_def h2_def Let_def)
  have hyps: "dc_hypotheses d' = (dc_hypotheses d)[order := h2]" and idx2: "dc_sample_index d' = now - 1"
    and sch2: "dc_schedule d' = heap_push (py_round (hy_next_symbol_end h2), order) rest"
    using bank idx by (simp_all add: d')
  have ids_update: "(map hypothesis_id (dc_hypotheses d))[order := hypothesis_id ?h] = map hypothesis_id (dc_hypotheses d)"
    using map_update [of "\<lambda>h. hypothesis_id h" "dc_hypotheses d" order ?h] by simp
  have "map hypothesis_id (dc_hypotheses d') = ids"
    using ids_update assms(1) by (simp add: hyps map_update h2(1) timing_def)
  moreover have "on_time now h" if "h \<in> set (dc_hypotheses d')" for h
  proof -
    have "on_time now h2" using on_time_serve [OF ht _ h2] due o(2) by simp
    moreover have "h = h2 \<or> h \<in> set (dc_hypotheses d)"
      using that set_update_subset_insert [of "dc_hypotheses d" order h2] by (auto simp: hyps)
    ultimately show ?thesis using assms(1) by (auto simp: timing_def)
  qed
  ultimately have "timing ids now d'"
    using scheduled_serve [OF sch e hyps sch2] idx2 by (simp add: timing_def)
  moreover have "Suc (due_rounds d') = due_rounds d"
  proof -
    have "hy_next_symbol_end ?h < of_int (now + 1)" using py_round_le [of "hy_next_symbol_end ?h" now] due o(2) by simp
    from symbols_before_step [OF _ this, of h2] ht h2
    have "Suc (symbols_before (of_int (now + 1)) h2) = symbols_before (of_int (now + 1)) ?h"
      by (simp add: on_time_def)
    moreover have r: "rat_of_int (dc_sample_index d + 2) = of_int (now + 1)" "rat_of_int (dc_sample_index d' + 2) = of_int (now + 1)"
      using idx idx2 by simp_all
    moreover have "symbols_before (of_int (now + 1)) ?h \<le> due_rounds d"
      unfolding due_rounds_def r using o(1) by (intro member_le_sum_list) auto
    ultimately show ?thesis
      using o(1) unfolding due_rounds_def hyps r by (simp add: map_update sum_list_update)
  qed
  moreover have "d1 = d'\<lparr>dc_hypotheses := dc_hypotheses d, dc_schedule := tl (dc_schedule d)\<rparr>"
    using bank e by (simp add: d')
  moreover have "h2 = h1\<lparr>hy_next_symbol_end := hy_next_symbol_end ?h + hy_period ?h\<rparr>" using id by (simp add: h2_def)
  ultimately show thesis using that [of order ?h h1] o due c e hyps d'(2) by simp
qed

lemma not_due_later:
  assumes "timing ids now d" "\<not> symbol_due d" "h \<in> set (dc_hypotheses d)"
  shows "now < py_round (hy_next_symbol_end h)"
proof -
  have sch: "scheduled d" and idx: "dc_sample_index d = now - 1" using assms(1) by (simp_all add: timing_def)
  show ?thesis
  proof (cases "dc_schedule d")
    case Nil
    then have "dc_hypotheses d = []" using sch by (simp add: scheduled_def mset_set_empty_iff)
    with assms(3) show ?thesis by simp
  next
    case (Cons e rest)
    obtain due order where e: "dc_schedule d = (due, order) # rest" using Cons by (cases e) auto
    with assms(2) idx have "now < due" by (simp add: symbol_due_def)
    with scheduled_head(3) [OF sch e assms(3)] show ?thesis by simp
  qed
qed

text \<open>A loop that ends with enough fuel ends because nothing is due.\<close>

lemma classify_loop_serves:
  "timing ids now (fst s) \<Longrightarrow> due_rounds (fst s) \<le> fuel \<Longrightarrow>
     timing ids now (fst (classify_loop fuel s)) \<and> \<not> symbol_due (fst (classify_loop fuel s))"
proof (induction fuel arbitrary: s)
  case 0
  have "\<not> symbol_due (fst s)"
  proof
    assume due: "symbol_due (fst s)"
    obtain d' fresh' where "serve_next (fst s, snd s) = (d', fresh')" by (rule prod.exhaust)
    from serve_next_due [OF 0(1) due this] 0(2) show False by simp
  qed
  with 0 show ?case by simp
next
  case (Suc fuel)
  show ?case
  proof (cases "symbol_due (fst s)")
    case True
    obtain d' fresh' where d': "serve_next (fst s, snd s) = (d', fresh')" by (rule prod.exhaust)
    have "timing ids now d'" "Suc (due_rounds d') = due_rounds (fst s)"
      by (rule serve_next_due [OF Suc.prems(1) True d'], assumption)+
    with Suc.prems(2) Suc.IH [of "(d', fresh')"] True d' show ?thesis by simp
  qed (use Suc.prems in simp)
qed

lemma on_time_later: "on_time now h \<Longrightarrow> on_time (now + 1) h"
  unfolding on_time_def by (metis add_increasing2 add.right_neutral add_left_mono order_trans zero_le_one)

lemma timing_step:
  assumes "timing ids now d"
  shows "timing ids (now + 1) (fst (feed_sample table raw (d, fresh))) \<and>
    (\<forall>h \<in> set (dc_hypotheses (fst (feed_sample table raw (d, fresh)))). now + 1 < py_round (hy_next_symbol_end h))"
proof -
  obtain d1 where d1: "feed_sample table raw (d, fresh) = classify_due_symbols (d1, fresh)"
    and keep: "dc_hypotheses d1 = dc_hypotheses d" "dc_schedule d1 = dc_schedule d" "dc_sample_index d1 = dc_sample_index d + 1"
    by (force simp: feed_sample_def store_metric_def store_transition_prefix_def Let_def split: option.splits)
  have "timing ids (now + 1) d1"
    using assms keep on_time_later by (auto simp: timing_def scheduled_def)
  then have "timing ids (now + 1) (fst (classify_due_symbols (d1, fresh)))" "\<not> symbol_due (fst (classify_due_symbols (d1, fresh)))"
    using classify_loop_serves [of ids "now + 1" "(d1, fresh)" "due_rounds d1"] by (simp_all add: classify_due_symbols_def)
  then show ?thesis using not_due_later d1 by auto
qed

definition served :: "(rat \<times> rat \<times> rat) list \<Rightarrow> int \<Rightarrow> rx_decoder \<Rightarrow> bool" where
  "served ids now d \<longleftrightarrow> timing ids now d \<and> (now = 0 \<or> (\<forall>h \<in> set (dc_hypotheses d). now < py_round (hy_next_symbol_end h)))"

lemma served_fold:
  "served ids now (fst s) \<Longrightarrow> served ids (now + int (length raws)) (fst (fold (feed_sample table) raws s))"
proof (induction raws arbitrary: now s)
  case (Cons raw raws)
  have "served ids (now + 1) (fst (feed_sample table raw s))"
    using timing_step [of ids now "fst s" table raw "snd s"] Cons.prems by (simp add: served_def)
  from Cons.IH [OF this] show ?case by (simp add: algebra_simps)
qed simp

lemma served_run:
  "served ids now d \<Longrightarrow> served ids (now + int (length (samples_of_bytes (concat chunks)))) (rx_run table d chunks)"
proof (induction chunks arbitrary: now d)
  case (Cons c cs)
  let ?d = "d\<lparr>dc_packed_bytes := dc_packed_bytes d + length c\<rparr>"
  have "served ids now ?d" using Cons.prems by (simp add: served_def timing_def scheduled_def)
  then have "served ids (now + int (length (samples_of_bytes c))) (snd (rx_feed table c d))"
    using served_fold [of ids now "(?d, [])" "samples_of_bytes c" table]
    by (cases "fold (feed_sample table) (samples_of_bytes c) (?d, [])") (simp add: rx_feed_eq Let_def)
  from Cons.IH [OF this] show ?case by (simp add: rx_run_def algebra_simps)
qed (simp add: rx_run_def samples_of_bytes_def)

lemma fold_heap_push:
  "sorted (map fst es) \<Longrightarrow> sorted (map fst (fold heap_push xs es)) \<and> mset (fold heap_push xs es) = mset xs + mset es"
proof (induction xs arbitrary: es)
  case (Cons x xs)
  from Cons.IH [OF heap_push_sorted [OF Cons.prems, of x]] show ?case by simp
qed simp

lemma served_init:
  assumes "decoder_init bauds phases = Inr d"
  shows "served (map hypothesis_id (dc_hypotheses d)) 0 d"
proof -
  let ?hyps = "concat (map (\<lambda>baud. map (hypothesis_init baud) phases) bauds)"
  have pos: "\<And>baud. baud \<in> set bauds \<Longrightarrow> 0 < baud"
    and d: "dc_hypotheses d = ?hyps" "dc_sample_index d = - 1"
      "dc_schedule d = fold heap_push (map (\<lambda>i. (py_round (hy_next_symbol_end (?hyps ! i)), i)) [0..<length ?hyps]) []"
    using assms by (auto simp: decoder_init_def list_ex_iff Let_def not_le split: if_splits)
  have "on_time 0 h" if "h \<in> set ?hyps" for h
  proof -
    obtain baud phase where "h = hypothesis_init baud phase" "0 < baud" using \<open>h \<in> set ?hyps\<close> pos by auto
    then show ?thesis by (auto simp: on_time_def hypothesis_init_def SAMPLE_RATE_def intro!: exI [of _ "0 :: nat"])
  qed
  moreover have "scheduled d"
    using fold_heap_push [of "[]" "map (\<lambda>i. (py_round (hy_next_symbol_end (?hyps ! i)), i)) [0..<length ?hyps]"]
    by (simp add: scheduled_def d del: mset_map)
  ultimately show ?thesis unfolding served_def timing_def using d by simp
qed

text \<open>
  C17. No symbol is missed and none is taken early. After any reads from a new decoder with whatever
  hypotheses, the bank has the same hypotheses in the same order, and each of them has been served
  for exactly the symbols whose rounded end lies within the samples so far: its next symbol ends
  after them, and the last one it was served for did not.
\<close>

theorem due_symbols_served:
  assumes "decoder_init bauds phases = Inr d0" "N = length (samples_of_bytes (concat chunks))" "0 < N" "d = rx_run table d0 chunks"
  shows "map hypothesis_id (dc_hypotheses d) = map hypothesis_id (dc_hypotheses d0) \<and>
    (\<forall>h \<in> set (dc_hypotheses d). \<exists>m.
       hy_next_symbol_end h = hy_phase h + of_nat (m + 1) * hy_period h \<and>
       (m = 0 \<or> py_round (hy_phase h + of_nat m * hy_period h) \<le> int N) \<and>
       int N < py_round (hy_phase h + of_nat (m + 1) * hy_period h))"
  using served_run [OF served_init [OF assms(1)], of chunks table] assms(2-4)
  by (fastforce simp: served_def timing_def on_time_def)

subsection \<open>The bit layer of a hypothesis\<close>

text \<open>The frames a decoder has on record, and what they can come from.\<close>

definition heard :: "rx_decoder \<times> streaming_frame list \<Rightarrow> bytes set" where
  "heard s = sf_frame ` set (dc_occurrences (fst s))"

lemma find_index_Some: "find_index P xs = Some i \<Longrightarrow> i < length xs \<and> P (xs ! i)"
  by (induction xs arbitrary: i) (auto split: if_splits)

lemma heard_accept: "heard (accept_frame item s) = insert (sf_frame item) (heard s)"
proof (cases s)
  case (Pair d fresh)
  let ?P = "\<lambda>existing. same_occurrence existing item"
  show ?thesis
  proof (cases "find_index ?P (dc_occurrences d)")
    case None
    then show ?thesis using Pair by (simp add: accept_frame_def heard_def)
  next
    case (Some i)
    from find_index_Some [OF this] have i: "i < length (dc_occurrences d)" "sf_frame (dc_occurrences d ! i) = sf_frame item"
      by (auto simp: same_occurrence_def)
    then have "(map sf_frame (dc_occurrences d))[i := sf_frame item] = map sf_frame (dc_occurrences d)"
      by (metis list_update_id nth_map)
    then have "sf_frame ` set ((dc_occurrences d)[i := item]) = sf_frame ` set (dc_occurrences d)"
      by (metis image_set map_update)
    moreover have "sf_frame item \<in> sf_frame ` set (dc_occurrences d)" using i by (metis image_eqI nth_mem)
    ultimately show ?thesis using Pair Some by (auto simp: accept_frame_def heard_def Let_def)
  qed
qed

interpretation heard_side: sample_invariant "\<lambda>s. frame \<in> heard s" for frame
  by unfold_locales (simp add: heard_accept, simp_all add: heard_def)

lemma fresh_accept: "heard s \<subseteq> known \<union> sf_frame ` set (snd s) \<Longrightarrow>
    heard (accept_frame item s) \<subseteq> known \<union> sf_frame ` set (snd (accept_frame item s))"
proof (cases s)
  case (Pair d fresh)
  assume a: "heard s \<subseteq> known \<union> sf_frame ` set (snd s)"
  show ?thesis
  proof (cases "find_index (\<lambda>existing. same_occurrence existing item) (dc_occurrences d)")
    case None
    then show ?thesis using Pair a heard_accept [of item s] by (auto simp: accept_frame_def)
  next
    case (Some i)
    from find_index_Some [OF this] have "sf_frame item \<in> heard s"
      using Pair unfolding heard_def same_occurrence_def by (metis fst_conv image_eqI nth_mem)
    then show ?thesis using Pair a Some heard_accept [of item s] by (auto simp: accept_frame_def Let_def)
  qed
qed

interpretation fresh_side: sample_invariant "\<lambda>s. heard s \<subseteq> known \<union> sf_frame ` set (snd s)" for known
  by unfold_locales (rule fresh_accept, assumption, simp_all add: heard_def)

text \<open>The shift register as the last eight bits.\<close>

lemma upt_8_bits: "[0..<8] = [0, 1, 2, 3, 4, 5, 6, 7]"
  by (simp add: upt_conv_Cons)

lemma byte_samples_push: "byte_samples (push_bit 1 w OR of_bool b) = tl (byte_samples w) @ [b]"
  unfolding byte_samples_def upt_8_bits
  by (simp add: bit_or_iff bit_push_bit_iff bit_of_bool_iff del: push_bit_of_1 One_nat_def)

lemma byte_samples_flag: "byte_samples w = flag_bits \<longleftrightarrow> w = FLAG_BYTE"
proof
  have flag: "byte_samples FLAG_BYTE = flag_bits" by code_simp
  show "w = FLAG_BYTE \<Longrightarrow> byte_samples w = flag_bits" by (simp add: flag)
  assume a: "byte_samples w = flag_bits"
  with flag have eq: "byte_samples w = byte_samples FLAG_BYTE" by simp
  show "w = FLAG_BYTE"
  proof (rule bit_word_eqI)
    fix n assume "n < LENGTH(8)"
    then have n: "n < 8" by simp
    from eq have "byte_samples w ! (7 - n) = byte_samples FLAG_BYTE ! (7 - n)" by simp
    moreover have "[0..<8] ! (7 - n) = 7 - n" using n by (subst nth_upt) auto
    ultimately show "bit w n \<longleftrightarrow> bit FLAG_BYTE n" using n by (simp add: byte_samples_def)
  qed
qed

lemma emit_bit_shift:
  assumes "emit_bit b sample hyp s = (hyp', s')"
  shows "byte_samples (hy_shift hyp') = tl (byte_samples (hy_shift hyp)) @ [b]"
    and "hy_shift_count hyp' = (if hy_shift_count hyp < 8 then hy_shift_count hyp + 1 else hy_shift_count hyp)"
    and "hy_previous_selector hyp' = hy_previous_selector hyp"
proof -
  have "hy_shift hyp' = push_bit 1 (hy_shift hyp) OR of_bool b \<and>
      hy_shift_count hyp' = (if hy_shift_count hyp < 8 then hy_shift_count hyp + 1 else hy_shift_count hyp) \<and>
      hy_previous_selector hyp' = hy_previous_selector hyp"
    using assms by (cases s) (auto simp: emit_bit_def finish_flag_def Let_def split: option.splits if_splits prod.splits)
  then show "byte_samples (hy_shift hyp') = tl (byte_samples (hy_shift hyp)) @ [b]"
    and "hy_shift_count hyp' = (if hy_shift_count hyp < 8 then hy_shift_count hyp + 1 else hy_shift_count hyp)"
    and "hy_previous_selector hyp' = hy_previous_selector hyp"
    by (simp_all only: byte_samples_push)
qed

lemma emit_bit_plain:
  assumes "emit_bit b sample hyp s = (hyp', s')" "tl (byte_samples (hy_shift hyp)) @ [b] \<noteq> flag_bits"
    and "hy_after_flag hyp = Some bits" "length bits < MAX_STUFFED_BITS"
  shows "hy_after_flag hyp' = Some (bits @ [b])" "hy_opening_data_sample hyp' = hy_opening_data_sample hyp"
proof -
  have "push_bit 1 (hy_shift hyp) OR of_bool b \<noteq> FLAG_BYTE"
    using assms(2) by (metis byte_samples_flag byte_samples_push)
  then show "hy_after_flag hyp' = Some (bits @ [b])" "hy_opening_data_sample hyp' = hy_opening_data_sample hyp"
    using assms(1,3,4) by (cases s; auto simp: emit_bit_def Let_def)+
qed

lemma emit_bit_flag:
  assumes "emit_bit b sample hyp s = (hyp', s')" "tl (byte_samples (hy_shift hyp)) @ [b] = flag_bits" "7 \<le> hy_shift_count hyp"
  shows "hy_after_flag hyp' = Some []" "hy_opening_data_sample hyp' \<noteq> None"
proof -
  have "push_bit 1 (hy_shift hyp) OR of_bool b = FLAG_BYTE"
    using assms(2) by (metis byte_samples_flag byte_samples_push)
  then show "hy_after_flag hyp' = Some []" "hy_opening_data_sample hyp' \<noteq> None"
    using assms(1,3) by (cases s; auto simp: emit_bit_def finish_flag_def Let_def split: option.splits if_splits prod.splits)+
qed

lemma emit_bit_frame:
  assumes "emit_bit b sample hyp s = (hyp', s')" "tl (byte_samples (hy_shift hyp)) @ [b] = flag_bits" "7 \<le> hy_shift_count hyp"
    and "hy_after_flag hyp = Some bits" "length bits < MAX_STUFFED_BITS" "hy_opening_data_sample hyp \<noteq> None"
    and "bits @ [b] = stuffed @ flag_bits" "stuffed \<noteq> []" "air_frame (frame_between_flags stuffed)"
  shows "frame_between_flags stuffed \<in> heard s'"
proof -
  have f: "push_bit 1 (hy_shift hyp) OR of_bool b = FLAG_BYTE"
    using assms(2) by (metis byte_samples_flag byte_samples_push)
  have len: "8 \<le> length (bits @ [b])" "take (length (bits @ [b]) - 8) (bits @ [b]) = stuffed"
    unfolding assms(7) by simp_all
  obtain start where o: "hy_opening_data_sample hyp = Some start" using assms(6) by auto
  obtain parsed where p: "parse_frame (frame_between_flags stuffed) True = Inr parsed" using assms(9) by (auto simp: air_frame_def)
  obtain d fresh where s: "s = (d, fresh)" by (cases s)
  define h1 where "h1 = hyp\<lparr>hy_shift := push_bit 1 (hy_shift hyp) OR of_bool b,
    hy_shift_count := (if hy_shift_count hyp < 8 then hy_shift_count hyp + 1 else hy_shift_count hyp),
    hy_after_flag := Some (bits @ [b])\<rparr>"
  define d1 where "d1 = d\<lparr>dc_max_frame_buffer_bits := max (dc_max_frame_buffer_bits d) (length (bits @ [b]))\<rparr>"
  have "emit_bit b sample hyp s = finish_flag sample h1 (d1, fresh)"
    using f assms(3-5) by (auto simp: s emit_bit_def h1_def d1_def Let_def)
  moreover obtain item where "flag_candidate sample (h1\<lparr>hy_flags_seen := hy_flags_seen h1 + 1\<rparr>) = Some item"
    and item: "sf_frame item = frame_between_flags stuffed"
    using len o p assms(8,9) by (auto simp: flag_candidate_def h1_def Let_def air_frame_def)
  ultimately show ?thesis
    using assms(1) heard_accept [of item "(d1\<lparr>dc_flags_seen := dc_flags_seen d1 + 1\<rparr>, fresh)"]
    by (auto simp: finish_flag_def Let_def split: prod.splits)
qed


subsection \<open>A transmitted burst through the bit layer\<close>

text \<open>A hypothesis fed with selectors and the sample numbers of their ends, and the bits it makes of them.\<close>

fun take_selectors ::
  "(bool \<times> int) list \<Rightarrow> hypothesis \<Rightarrow> rx_decoder \<times> streaming_frame list \<Rightarrow> hypothesis \<times> rx_decoder \<times> streaming_frame list" where
  "take_selectors [] hyp s = (hyp, s)"
| "take_selectors ((selector, sample) # xs) hyp s =
     (let (hyp, s) = take_selector selector sample hyp s in take_selectors xs hyp s)"

fun nrzi_bits :: "bool option \<Rightarrow> bool list \<Rightarrow> bool list" where
  "nrzi_bits previous [] = []"
| "nrzi_bits None (s # ss) = True # nrzi_bits (Some s) ss"
| "nrzi_bits (Some p) (s # ss) = (s = p) # nrzi_bits (Some s) ss"

abbreviation "bits_received hyp xs \<equiv> nrzi_bits (hy_previous_selector hyp) (map fst xs)"

lemma take_selectors_append:
  "take_selectors (xs @ ys) hyp s = (let (hyp, s) = take_selectors xs hyp s in take_selectors ys hyp s)"
  by (induction xs hyp s rule: take_selectors.induct) (auto simp: Let_def split: prod.splits)

lemma length_nrzi_bits [simp]: "length (nrzi_bits p ss) = length ss"
  by (induction p ss rule: nrzi_bits.induct) auto

lemma nrzi_bits_append:
  "nrzi_bits p (xs @ ys) = nrzi_bits p xs @ nrzi_bits (if xs = [] then p else Some (last xs)) ys"
  by (induction p xs rule: nrzi_bits.induct) auto

lemma nrzi_bits_encode: "nrzi_bits (Some t) (nrzi_encode_loop t bits) = bits"
  by (induction bits arbitrary: t) (auto simp: Let_def)

lemma nrzi_bits_encode_any: "\<exists>b'. nrzi_bits p (nrzi_encode_loop t (b # bits)) = b' # bits"
  by (cases p) (auto simp: Let_def nrzi_bits_encode)

text \<open>One more selector: what it does to the state of the hypothesis.\<close>

lemma take_selectors_snoc:
  assumes "take_selectors (xs @ [x]) hyp s = (hyp', s')"
  obtains h1 s1 b where "take_selectors xs hyp s = (h1, s1)" "bits_received h1 [x] = [b]"
    "emit_bit b (snd x) (h1\<lparr>hy_previous_selector := Some (fst x)\<rparr>) s1 = (hyp', s')"
proof -
  obtain h1 s1 where h1: "take_selectors xs hyp s = (h1, s1)" by (rule prod.exhaust)
  obtain selector sample where x: "x = (selector, sample)" by (cases x)
  define b where "b = (case hy_previous_selector h1 of None \<Rightarrow> True | Some previous \<Rightarrow> selector = previous)"
  have "take_selector selector sample h1 s1 = (hyp', s')"
    using assms h1 x by (cases "take_selector selector sample h1 s1") (simp add: take_selectors_append)
  then have "emit_bit b (snd x) (h1\<lparr>hy_previous_selector := Some (fst x)\<rparr>) s1 = (hyp', s')"
    by (simp add: take_selector_def b_def x Let_def)
  moreover have "bits_received h1 [x] = [b]"
    by (cases "hy_previous_selector h1") (auto simp: b_def x)
  ultimately show thesis using h1 that by blast
qed

lemma drop_Suc_snoc: "n < length xs \<Longrightarrow> tl (drop n xs) @ [x] = drop (Suc n) (xs @ [x])"
  by (simp add: drop_Suc tl_drop)

lemma take_drop_snoc: "k + n \<le> length xs \<Longrightarrow> take n (drop k (xs @ [x])) = take n (drop k xs)"
  by simp

lemma take_selectors_shift:
  assumes "take_selectors xs hyp s = (hyp', s')" "hy_shift_count hyp \<le> 8"
  shows "hy_previous_selector hyp' = (if xs = [] then hy_previous_selector hyp else Some (fst (last xs))) \<and>
    byte_samples (hy_shift hyp') = drop (length xs) (byte_samples (hy_shift hyp) @ bits_received hyp xs) \<and>
    hy_shift_count hyp' = min 8 (hy_shift_count hyp + length xs)"
  using assms
proof (induction xs arbitrary: hyp' s' rule: rev_induct)
  case (snoc x xs)
  obtain h1 s1 b where h1: "take_selectors xs hyp s = (h1, s1)" and b: "bits_received h1 [x] = [b]"
    and e: "emit_bit b (snd x) (h1\<lparr>hy_previous_selector := Some (fst x)\<rparr>) s1 = (hyp', s')"
    using snoc.prems(1) by (rule take_selectors_snoc)
  note IH = snoc.IH [OF h1 snoc.prems(2)]
  let ?L = "byte_samples (hy_shift hyp) @ bits_received hyp xs"
  have "length (byte_samples (hy_shift hyp)) = 8" by (simp add: byte_samples_def)
  then have "tl (drop (length xs) ?L) @ [b] = drop (Suc (length xs)) (?L @ [b])" by (intro drop_Suc_snoc) simp
  moreover have "tl (drop (length xs) ?L) @ [b] = byte_samples (hy_shift hyp')"
    using emit_bit_shift(1) [OF e] conjunct1 [OF conjunct2 [OF IH]] by simp
  moreover have rec: "bits_received hyp (xs @ [x]) = bits_received hyp xs @ [b]"
    using b IH by (auto simp: nrzi_bits_append last_map)
  ultimately have "byte_samples (hy_shift hyp') =
      drop (length (xs @ [x])) (byte_samples (hy_shift hyp) @ bits_received hyp (xs @ [x]))"
    by (simp only: rec length_append_singleton append_assoc)
  then show ?case
    using emit_bit_shift(2,3) [OF e] IH by auto
qed (simp add: byte_samples_def)

lemma take_selectors_data:
  assumes "take_selectors xs hyp s = (hyp', s')" "hy_shift_count hyp \<le> 8" "hy_after_flag hyp = Some bits"
    and "length bits + length xs \<le> MAX_STUFFED_BITS"
    and "\<And>k. 0 < k \<Longrightarrow> k \<le> length xs \<Longrightarrow> take 8 (drop k (byte_samples (hy_shift hyp) @ bits_received hyp xs)) \<noteq> flag_bits"
  shows "hy_after_flag hyp' = Some (bits @ bits_received hyp xs) \<and> hy_opening_data_sample hyp' = hy_opening_data_sample hyp"
  using assms
proof (induction xs arbitrary: hyp' s' rule: rev_induct)
  case (snoc x xs)
  obtain h1 s1 b where h1: "take_selectors xs hyp s = (h1, s1)" and b: "bits_received h1 [x] = [b]"
    and e: "emit_bit b (snd x) (h1\<lparr>hy_previous_selector := Some (fst x)\<rparr>) s1 = (hyp', s')"
    using snoc.prems(1) by (rule take_selectors_snoc)
  have len: "length (byte_samples (hy_shift hyp)) = 8" by (simp add: byte_samples_def)
  note sh = take_selectors_shift [OF h1 snoc.prems(2)] and sh' = take_selectors_shift [OF snoc.prems(1,2)]
  have rec: "bits_received hyp (xs @ [x]) = bits_received hyp xs @ [b]"
    using b sh by (auto simp: nrzi_bits_append last_map)
  have "hy_after_flag h1 = Some (bits @ bits_received hyp xs) \<and> hy_opening_data_sample h1 = hy_opening_data_sample hyp"
  proof (rule snoc.IH [OF h1 snoc.prems(2,3)])
    show "length bits + length xs \<le> MAX_STUFFED_BITS" using snoc.prems(4) by simp
    show "take 8 (drop k (byte_samples (hy_shift hyp) @ bits_received hyp xs)) \<noteq> flag_bits" if "0 < k" "k \<le> length xs" for k
      using snoc.prems(5) [of k] that len
        take_drop_snoc [of k 8 "byte_samples (hy_shift hyp) @ bits_received hyp xs" b]
      by (simp only: rec append_assoc) simp
  qed
  moreover have "tl (byte_samples (hy_shift h1)) @ [b] \<noteq> flag_bits"
    using snoc.prems(5) [of "Suc (length xs)"] emit_bit_shift(1) [OF e] sh' len by simp
  ultimately show ?case
    using emit_bit_plain [OF e] snoc.prems(4) rec by simp
qed simp


lemma nth_flag_bits: "j < 8 \<Longrightarrow> flag_bits ! j \<longleftrightarrow> j \<noteq> 0 \<and> j \<noteq> 7"
  by (auto simp: flag_bits_eq less_Suc_eq numeral_eq_Suc)

text \<open>Between the two flags of a frame there is no third one, not even across their edges.\<close>

lemma no_flag_between:
  assumes "\<not> sublist (replicate 6 True) data" "0 < k" "k \<le> length data + 7"
  shows "take 8 (drop k (flag_bits @ data @ butlast flag_bits)) \<noteq> flag_bits"
proof
  let ?L = "flag_bits @ data @ butlast flag_bits" and ?n = "length data"
  assume eq: "take 8 (drop k ?L) = flag_bits"
  have len: "length ?L = ?n + 15" by simp
  have L: "?L ! (k + j) \<longleftrightarrow> j \<noteq> 0 \<and> j \<noteq> 7" if "j < 8" for j
  proof -
    have "take 8 (drop k ?L) ! j = ?L ! (k + j)" using that assms(3) len by (subst nth_take, simp, subst nth_drop) simp_all
    with eq that show ?thesis by (simp only: nth_flag_bits)
  qed
  show False
  proof (cases "k \<le> 6")
    case True
    then have "?L ! (k + 0) = flag_bits ! k" by (simp add: nth_append)
    with L [of 0] True assms(2) show False by (simp only: nth_flag_bits) auto
  next
    case False
    show False
    proof (cases "k + 6 < 8 + ?n")
      case True
      have "take 6 (drop (k - 7) data) ! j" if "j < 6" for j
        using L [of "j + 1"] that True False by (simp add: nth_append)
      then have "take 6 (drop (k - 7) data) = replicate 6 True"
        using True False by (intro nth_equalityI) auto
      then show False using assms(1) using sublist_order.order_trans [OF sublist_take [of 6 "drop (k - 7) data"] sublist_drop] by simp
    next
      case False
      then have "?L ! (k + 7) = flag_bits ! (k - 1 - ?n)"
        using assms(3) by (auto simp: nth_append nth_butlast)
      with L [of 7] assms(3) False show False by (simp only: nth_flag_bits) auto
    qed
  qed
qed

lemma octets_byte_bits: "octets_lsb (byte_bits b @ bits) = b # octets_lsb bits"
proof -
  have bb: "byte_bits b = map (bit b) [0..<8]" by (simp add: byte_bits_def bit_of_shift)
  have "horner_sum of_bool 2 (byte_bits b) = b"
    unfolding bb by (simp add: horner_sum_bit_eq_take_bit take_bit_word_eq_self)
  then show ?thesis unfolding bb by (simp add: upt_8_bits)
qed

lemma bits_to_bytes_byte_bits: "bits_to_bytes_lsb (byte_bits_lsb data) = Some data"
proof -
  have "octets_lsb (byte_bits_lsb data) = data"
    by (induction data) (simp_all add: octets_byte_bits)
  then show ?thesis by (simp add: bits_to_bytes_lsb_def)
qed

lemma frame_between_flags_stuffed: "frame_between_flags (stuff_bits (byte_bits_lsb frame)) = frame"
  by (simp add: frame_between_flags_def unstuff_stuff bits_to_bytes_byte_bits)


context symbol_invariant
begin

lemma take_selectors_kept: "inv s \<Longrightarrow> inv (snd (take_selectors xs hyp s))"
proof (induction xs hyp s rule: take_selectors.induct)
  case (2 selector sample xs hyp s)
  obtain d fresh where "s = (d, fresh)" by (cases s)
  with 2(2) have "inv (snd (take_selector selector sample hyp s))"
    by (simp add: take_selector_def Let_def emit_bit_kept)
  with 2(1) show ?case by (auto simp: Let_def split: prod.splits)
qed simp

end

lemma flags_unfold: "1 \<le> n \<Longrightarrow> flags n = flag_bits @ flags (n - 1)" "1 \<le> n \<Longrightarrow> flags n = flags (n - 1) @ flag_bits"
proof -
  assume "1 \<le> n"
  then have n: "nat n = Suc (nat (n - 1))" by simp
  then show "flags n = flag_bits @ flags (n - 1)" by (simp add: flags_def)
  have "replicate (nat n) flag_bits = replicate (nat (n - 1)) flag_bits @ [flag_bits]"
    unfolding n by (simp add: replicate_append_same)
  then show "flags n = flags (n - 1) @ flag_bits" by (simp add: flags_def)
qed

lemma take_selectors_flag:
  assumes "take_selectors xs hyp s = (hyp', s')" "hy_shift_count hyp \<le> 8" "bits_received hyp xs = ys @ flag_bits"
  shows "byte_samples (hy_shift hyp') = flag_bits" "hy_shift_count hyp' = 8"
    and "hy_after_flag hyp' = Some []" "hy_opening_data_sample hyp' \<noteq> None"
proof -
  have len: "length xs = length ys + 8" using arg_cong [OF assms(3), of length] by simp
  have w: "length (byte_samples (hy_shift hyp)) = 8" by (simp add: byte_samples_def)
  note sh = take_selectors_shift [OF assms(1,2)]
  show flag: "byte_samples (hy_shift hyp') = flag_bits" and "hy_shift_count hyp' = 8"
    using sh len w assms(2) by (simp_all add: assms(3))
  obtain zs x where xs: "xs = zs @ [x]" using len by (cases xs rule: rev_cases) auto
  obtain h1 s1 b where h1: "take_selectors zs hyp s = (h1, s1)"
    and e: "emit_bit b (snd x) (h1\<lparr>hy_previous_selector := Some (fst x)\<rparr>) s1 = (hyp', s')"
    using assms(1) unfolding xs by (rule take_selectors_snoc)
  have "7 \<le> hy_shift_count h1" using take_selectors_shift [OF h1 assms(2)] len xs by simp
  with emit_bit_flag [OF e] emit_bit_shift(1) [OF e] flag
  show "hy_after_flag hyp' = Some []" "hy_opening_data_sample hyp' \<noteq> None" by simp_all
qed

lemma take_selectors_frame:
  assumes "take_selectors xs hyp s = (hyp', s')" "bits_received hyp xs = stuffed @ flag_bits"
    and flag: "byte_samples (hy_shift hyp) = flag_bits" "hy_shift_count hyp = 8" "hy_after_flag hyp = Some []"
      "hy_opening_data_sample hyp \<noteq> None"
    and "stuffed = stuff_bits (byte_bits_lsb frame)" "air_frame frame" "length stuffed + 8 \<le> MAX_STUFFED_BITS"
  shows "frame \<in> heard s'"
proof -
  have len: "length xs = length stuffed + 8" using arg_cong [OF assms(2), of length] by simp
  obtain zs x where xs: "xs = zs @ [x]" using len by (cases xs rule: rev_cases) auto
  obtain h1 s1 b where h1: "take_selectors zs hyp s = (h1, s1)" and b: "bits_received h1 [x] = [b]"
    and e: "emit_bit b (snd x) (h1\<lparr>hy_previous_selector := Some (fst x)\<rparr>) s1 = (hyp', s')"
    using assms(1) unfolding xs by (rule take_selectors_snoc)
  have c: "hy_shift_count hyp \<le> 8" using flag(2) by simp
  have fl: "flag_bits = butlast flag_bits @ [False]" by (simp add: flag_bits_eq)
  have "bits_received hyp xs = bits_received hyp zs @ [b]"
    using b take_selectors_shift [OF h1 c] by (auto simp: xs nrzi_bits_append last_map)
  with assms(2) have "bits_received hyp zs @ [b] = (stuffed @ butlast flag_bits) @ [False]" using fl by (metis append_assoc)
  then have zs: "bits_received hyp zs = stuffed @ butlast flag_bits" and bF: "b = False" by simp_all
  have stuffed: "\<not> sublist (replicate 6 True) stuffed" "stuffed \<noteq> []" "frame_between_flags stuffed = frame"
    using assms(7,8) length_stuff_bits [of "byte_bits_lsb frame"]
    by (auto simp: stuff_bits_no_six_ones frame_between_flags_stuffed air_frame_def)
  have data: "hy_after_flag h1 = Some ([] @ (stuffed @ butlast flag_bits)) \<and> hy_opening_data_sample h1 = hy_opening_data_sample hyp"
    unfolding zs [symmetric]
  proof (rule take_selectors_data [OF h1 c flag(3)])
    show "length [] + length zs \<le> MAX_STUFFED_BITS" using len xs assms(9) by simp
    show "take 8 (drop k (byte_samples (hy_shift hyp) @ bits_received hyp zs)) \<noteq> flag_bits" if "0 < k" "k \<le> length zs" for k
      using no_flag_between [OF stuffed(1) that(1)] that(2) len xs by (simp only: zs flag(1)) simp
  qed
  have sh: "byte_samples (hy_shift hyp') = flag_bits"
    using take_selectors_flag(1) [OF assms(1) c assms(2)] .
  have "7 \<le> hy_shift_count h1" using take_selectors_shift [OF h1 c] flag(2) by simp
  moreover have "length (stuffed @ butlast flag_bits) < MAX_STUFFED_BITS" using assms(9) by simp
  moreover have "(stuffed @ butlast flag_bits) @ [b] = stuffed @ flag_bits" using fl bF by (metis append_assoc)
  moreover have "tl (byte_samples (hy_shift h1)) @ [b] = flag_bits" using emit_bit_shift(1) [OF e] sh by simp
  ultimately have "frame_between_flags stuffed \<in> heard s'"
  proof (intro emit_bit_frame [OF e, where bits = "stuffed @ butlast flag_bits" and stuffed = stuffed], goal_cases)
    case 3
    then show ?case using data by simp
  next
    case 5
    then show ?case using data flag(4) by simp
  qed (use stuffed assms(8) in simp_all)
  with stuffed(3) show ?thesis by simp
qed

lemma burst_heard:
  assumes "frame_to_selectors frame pre_flags post_flags initial_tone = Inr selectors" "2 \<le> pre_flags"
    and "air_frame frame" "length (stuff_bits (byte_bits_lsb frame)) + 8 \<le> MAX_STUFFED_BITS"
    and "hy_shift_count hyp \<le> 8" "map fst xs = selectors" "take_selectors xs hyp s = (hyp', s')"
  shows "frame \<in> heard s'"
proof -
  let ?stuffed = "stuff_bits (byte_bits_lsb frame)"
  obtain tone where sel: "selectors = nrzi_encode_loop tone (flags pre_flags @ ?stuffed @ flags post_flags)"
    and post: "1 \<le> post_flags"
    using assms(1) by (auto simp: frame_to_selectors_def hdlc_bits_def nrzi_encode_def try_bind_Inr_iff split: if_splits)
  define X where "X = tl flag_bits @ flags (pre_flags - 2)"
  define Y where "Y = flags (post_flags - 1)"
  have "flags pre_flags = flag_bits @ flags (pre_flags - 2) @ flag_bits"
    using flags_unfold(1) [of pre_flags] flags_unfold(2) [of "pre_flags - 1"] assms(2) by simp
  then have pre: "flags pre_flags = hd flag_bits # X @ flag_bits" by (simp add: X_def flag_bits_eq)
  have "flags post_flags = flag_bits @ Y" using flags_unfold(1) post by (simp add: Y_def)
  then obtain b where rec: "bits_received hyp xs = (b # X @ flag_bits) @ (?stuffed @ flag_bits) @ Y"
    using nrzi_bits_encode_any [of "hy_previous_selector hyp" tone "hd flag_bits"]
    by (auto simp: assms(6) sel pre)
  define n1 n2 where "n1 = length (b # X @ flag_bits)" and "n2 = length (?stuffed @ flag_bits)"
  define xs1 xs2 xs3 where "xs1 = take n1 xs" and "xs2 = take n2 (drop n1 xs)" and "xs3 = drop n2 (drop n1 xs)"
  have xs: "xs = xs1 @ xs2 @ xs3" by (simp only: xs1_def xs2_def xs3_def append_take_drop_id)
  have "length xs = n1 + n2 + length Y" using arg_cong [OF rec, of length] by (simp add: n1_def n2_def)
  then have len: "length xs1 = n1" "length xs2 = n2" by (simp_all add: xs1_def xs2_def)
  obtain h1 s1 where h1: "take_selectors xs1 hyp s = (h1, s1)" by (rule prod.exhaust)
  obtain h2 s2 where h2: "take_selectors xs2 h1 s1 = (h2, s2)" by (rule prod.exhaust)
  have h3: "take_selectors xs3 h2 s2 = (hyp', s')"
    using assms(7) h1 h2 by (simp add: xs take_selectors_append)
  have prev: "hy_previous_selector h1 = Some (fst (last xs1))" and ne: "xs1 \<noteq> []"
    using take_selectors_shift [OF h1 assms(5)] len(1) by (auto simp: n1_def)
  have "bits_received hyp xs = bits_received hyp xs1 @ bits_received h1 xs2 @ nrzi_bits (Some (fst (last xs2))) (map fst xs3)"
    using prev ne len(2) by (auto simp: xs nrzi_bits_append last_map n2_def)
  with rec have eq: "bits_received hyp xs1 @ bits_received h1 xs2 @ nrzi_bits (Some (fst (last xs2))) (map fst xs3) =
      (b # X @ flag_bits) @ (?stuffed @ flag_bits) @ Y" by simp
  then have "bits_received hyp xs1 = b # X @ flag_bits \<and>
      bits_received h1 xs2 @ nrzi_bits (Some (fst (last xs2))) (map fst xs3) = (?stuffed @ flag_bits) @ Y"
    using len(1) by (intro iffD1 [OF append_eq_append_conv]) (simp_all add: n1_def)
  then have b1: "bits_received hyp xs1 = (b # X) @ flag_bits" and b2: "bits_received h1 xs2 = ?stuffed @ flag_bits"
    using len(2) append_eq_append_conv [of "bits_received h1 xs2" "?stuffed @ flag_bits"] by (auto simp: n2_def)
  have "frame \<in> heard s2"
    using take_selectors_flag [OF h1 assms(5) b1] assms(3,4) by (intro take_selectors_frame [OF h2 b2]) simp_all
  then show ?thesis using heard_side.take_selectors_kept [of frame s2 xs3 h2] h3 by simp
qed

text \<open>
  The receiver's bit layer recovers what the transmitter's sends. Take a frame that is long
  enough, carries its check sequence, parses and is not too long, and the tone selectors that the
  transmitter makes of it with at least two opening flags. A timing hypothesis in any state that is
  fed with these selectors, at whatever sample times, reports the frame, unless the decoder has
  it on record already.
\<close>

theorem receiver_recovers_burst:
  assumes "frame_to_selectors frame pre_flags post_flags initial_tone = Inr selectors" "2 \<le> pre_flags"
    and "air_frame frame" "length (stuff_bits (byte_bits_lsb frame)) + 8 \<le> MAX_STUFFED_BITS"
    and "hy_shift_count hyp \<le> 8" "map fst xs = selectors" "take_selectors xs hyp (d, fresh) = (hyp', d', fresh')"
  shows "\<exists>item \<in> set (dc_occurrences d) \<union> set fresh'. sf_frame item = frame"
proof -
  have "frame \<in> heard (d', fresh')" using assms by (rule burst_heard)
  moreover have "heard (d', fresh') \<subseteq> heard (d, fresh) \<union> sf_frame ` set fresh'"
    using fresh_side.take_selectors_kept [of "(d, fresh)" "heard (d, fresh)" xs hyp] assms(7) by simp
  ultimately have "frame \<in> heard (d, fresh) \<union> sf_frame ` set fresh'" by blast
  then show ?thesis by (auto simp: heard_def)
qed

lemma frames_valid_feed:
  assumes "frames_valid (d, [])"
  shows "\<forall>item \<in> set (fst (rx_feed table packed d)). air_frame (sf_frame item)" "frames_valid (snd (rx_feed table packed d), [])"
proof -
  have "frames_valid (d\<lparr>dc_packed_bytes := dc_packed_bytes d + length packed\<rparr>, [])"
    using assms by (simp add: frames_valid_def)
  from fold_feed_valid [OF this, of table "samples_of_bytes packed"]
  show "\<forall>item \<in> set (fst (rx_feed table packed d)). air_frame (sf_frame item)" "frames_valid (snd (rx_feed table packed d), [])"
    by (auto simp: rx_feed_eq frames_valid_def Let_def split: prod.splits)
qed

lemma frames_valid_run: "frames_valid (d, []) \<Longrightarrow> frames_valid (rx_run table d chunks, [])"
  by (induction chunks arbitrary: d) (simp_all add: rx_run_def frames_valid_feed)

subsection \<open>A concrete reception\<close>

text \<open>A connect request, the selectors of its burst, a bank of one hypothesis of 1200 symbols a second,
  and a table that tells the two tones apart in windows of equal samples.\<close>

definition example_air_frame :: bytes where
  "example_air_frame = append_fcs
     [0x82, 0x40, 0x40, 0x40, 0x40, 0x40, 0x60, 0x84, 0x40, 0x40, 0x40, 0x40, 0x40, 0x61, 0x3F]"

definition example_selectors :: "bool list" where
  "example_selectors = (case frame_to_selectors example_air_frame 2 1 MARK of Inl _ \<Rightarrow> [] | Inr s \<Rightarrow> s)"

definition example_table :: "12 word \<Rightarrow> real" where
  "example_table w = (if bit w 0 then 1 else - 1)"

lemma example_frame_octets:
  "example_air_frame = [130, 64, 64, 64, 64, 64, 96, 132, 64, 64, 64, 64, 64, 97, 63, 39, 21]"
  by code_simp

lemma example_frame_ok: "air_frame example_air_frame"
proof -
  have "17 \<le> length example_air_frame" "verify_fcs example_air_frame" by code_simp+
  moreover have "case parse_frame example_air_frame True of Inl _ \<Rightarrow> False | Inr _ \<Rightarrow> True" by code_simp
  ultimately show ?thesis by (auto simp: air_frame_def split: sum.splits)
qed

lemma example_burst: "frame_to_selectors example_air_frame 2 1 MARK = Inr example_selectors"
  unfolding example_selectors_def by code_simp

lemma example_stuffed: "length (stuff_bits (byte_bits_lsb example_air_frame)) + 8 \<le> MAX_STUFFED_BITS"
  unfolding example_frame_octets by code_simp

lemma example_bank:
  obtains d where "decoder_init [1200] [0] = Inr d" "dc_hypotheses d = [hypothesis_init 1200 0]"
  by (simp add: decoder_init_def Let_def)

lemma example_hypothesis:
  "hy_phase (hypothesis_init 1200 0) = 0" "hy_period (hypothesis_init 1200 0) = 16" "hy_shift_count (hypothesis_init 1200 0) = 0"
  by (simp_all add: hypothesis_init_def SAMPLE_RATE_def)

theorem rings_equal_history_witness:
  "\<exists>d. decoder_init [1200] [0] = Inr d \<and>
     metric_at (rx_run example_table d [[0xF0, 0x0F], [0xAA]]) 3 =
       Some (example_table (sample_window (samples_of_bytes [0xF0, 0x0F, 0xAA]) 3)) \<and>
     metric_at (rx_run example_table d [[0xF0, 0x0F], [0xAA]]) 13 = None \<and>
     transition_count (rx_run example_table d [[0xF0, 0x0F], [0xAA]]) 2 24 =
       int (transitions_in (samples_of_bytes [0xF0, 0x0F, 0xAA]) 2 24)"
proof -
  obtain d where d: "decoder_init [1200] [0] = Inr d" by (rule example_bank)
  have len: "length (samples_of_bytes [0xF0, 0x0F, 0xAA]) = 24" by (simp add: samples_of_bytes_def byte_samples_def)
  note r = rings_equal_history [OF d refl refl, of "[[0xF0, 0x0F], [0xAA]]" example_table]
  have "metric_at (rx_run example_table d [[0xF0, 0x0F], [0xAA]]) 3 =
      Some (example_table (sample_window (samples_of_bytes [0xF0, 0x0F, 0xAA]) 3))"
    using spec [OF conjunct1 [OF r], of 3] len by simp
  moreover have "metric_at (rx_run example_table d [[0xF0, 0x0F], [0xAA]]) 13 = None"
    using spec [OF conjunct1 [OF conjunct2 [OF r]], of 13] len by simp
  moreover have "transition_count (rx_run example_table d [[0xF0, 0x0F], [0xAA]]) 2 24 =
       int (transitions_in (samples_of_bytes [0xF0, 0x0F, 0xAA]) 2 24)"
    using spec [OF spec [OF conjunct2 [OF conjunct2 [OF r]], of 2], of 24] len by simp
  ultimately show ?thesis using d by simp
qed

theorem due_symbols_served_witness:
  "\<exists>d. decoder_init [1200] [0] = Inr d \<and>
     map hypothesis_id (dc_hypotheses (rx_run example_table d [[0xF0, 0x0F], [0xAA]])) = map hypothesis_id (dc_hypotheses d)"
proof -
  obtain d where d: "decoder_init [1200] [0] = Inr d" by (rule example_bank)
  have len: "length (samples_of_bytes [0xF0, 0x0F, 0xAA]) = 24" by (simp add: samples_of_bytes_def byte_samples_def)
  from due_symbols_served [OF d refl _ refl, of "[[0xF0, 0x0F], [0xAA]]" example_table] d len show ?thesis by simp
qed

theorem receiver_recovers_burst_witness:
  "\<exists>d hyp' d' fresh'. take_selectors (map (\<lambda>v. (v, 0)) example_selectors) (hypothesis_init 1200 0) (d, []) = (hyp', d', fresh') \<and>
     (\<exists>item \<in> set (dc_occurrences d) \<union> set fresh'. sf_frame item = example_air_frame)"
proof -
  obtain d where d: "decoder_init [1200] [0] = Inr d" by (rule example_bank)
  obtain hyp' d' fresh' where t:
    "take_selectors (map (\<lambda>v. (v, 0)) example_selectors) (hypothesis_init 1200 0) (d, []) = (hyp', d', fresh')"
    by (rule prod_cases3)
  have "\<exists>item \<in> set (dc_occurrences d) \<union> set fresh'. sf_frame item = example_air_frame"
    by (rule receiver_recovers_burst [OF example_burst _ example_frame_ok example_stuffed _ _ t])
      (simp_all add: example_hypothesis comp_def)
  with t show ?thesis by blast
qed

end
