(* ===== verification/Rx_Acquisition.thy ===== *)
theory Rx_Acquisition
  imports Bell202_Rx
begin

section \<open>Acquisition: a clean burst is received\<close>

text \<open>
  What the parts of \<open>src/src/ywd1278/phy/bell202_rx.py\<close> add up to. The rings, the schedule and the
  bit layer are proved separately in the previous theory; here they are put together along one
  timing hypothesis of the bank: if the samples read as the selectors of a transmitted burst along
  the symbols of that hypothesis, the frame of the burst is recovered, whatever came before and
  whatever the other hypotheses make of the samples.
\<close>

subsection \<open>The symbols of a hypothesis\<close>

definition symbol_start :: "rat \<Rightarrow> rat \<Rightarrow> nat \<Rightarrow> int" where
  "symbol_start phase period m = py_round (phase + of_nat m * period)"

definition symbol_window :: "rat \<Rightarrow> rat \<Rightarrow> nat \<Rightarrow> int" where
  "symbol_window phase period m =
     py_round (of_int (symbol_start phase period m) + (period - of_nat CORR_WINDOW) * (1 / 2))"

text \<open>The samples read clearly as a tone: the correlation over the centre of the symbol decides.\<close>

definition clear_symbol :: "(12 word \<Rightarrow> real) \<Rightarrow> bool list \<Rightarrow> rat \<Rightarrow> rat \<Rightarrow> nat \<Rightarrow> bool \<Rightarrow> bool" where
  "clear_symbol table xs phase period m selector \<longleftrightarrow>
     symbol_start phase period (m + 1) \<le> int (length xs) \<and>
     (let metric = table (sample_window xs (nat (symbol_window phase period m)))
      in if selector then 12 / 100 \<le> metric else metric \<le> - (12 / 100))"

lemma py_round_bounds: "x - 1 / 2 \<le> of_int (py_round x)" "of_int (py_round x) \<le> x + 1 / 2"
proof -
  have "of_int \<lfloor>x\<rfloor> \<le> x" "x < of_int \<lfloor>x\<rfloor> + 1" by linarith+
  then have "x - 1 / 2 \<le> of_int (py_round x) \<and> of_int (py_round x) \<le> x + 1 / 2"
    unfolding py_round_def Let_def
    by (cases "x - of_int \<lfloor>x\<rfloor> < 1 / 2"; cases "1 / 2 < x - of_int \<lfloor>x\<rfloor>"; cases "even \<lfloor>x\<rfloor>"; simp only: if_True if_False of_int_add of_int_1; linarith)
  then show "x - 1 / 2 \<le> of_int (py_round x)" "of_int (py_round x) \<le> x + 1 / 2" by simp_all
qed

lemma symbol_window_inside:
  assumes "15 \<le> period" "period \<le> 200" "0 \<le> phase"
  shows "0 \<le> symbol_window phase period m" "symbol_window phase period m + 12 \<le> symbol_start phase period (m + 1)"
    and "symbol_start phase period (m + 1) \<le> symbol_window phase period m + 139"
proof -
  let ?a = "phase + of_nat m * period" and ?s = "symbol_start phase period m" and ?e = "symbol_start phase period (m + 1)"
  let ?c = "symbol_window phase period m"
  have s: "?a - 1 / 2 \<le> of_int ?s" "of_int ?s \<le> ?a + 1 / 2"
    using py_round_bounds [of ?a] by (simp_all add: symbol_start_def)
  have e: "?a + period - 1 / 2 \<le> of_int ?e" "of_int ?e \<le> ?a + period + 1 / 2"
    using py_round_bounds [of "?a + period"] by (simp_all add: symbol_start_def algebra_simps)
  have c: "of_int ?s + (period - 12) * (1 / 2) - 1 / 2 \<le> of_int ?c" "of_int ?c \<le> of_int ?s + (period - 12) * (1 / 2) + 1 / 2"
    using py_round_bounds [of "of_int ?s + (period - 12) * (1 / 2)"] by (simp_all add: symbol_window_def CORR_WINDOW_def)
  have "0 \<le> ?a" using assms by simp
  then have "rat_of_int 0 \<le> of_int ?c" using s c assms(1) by (simp add: field_simps)
  then show "0 \<le> ?c" by (simp only: of_int_le_iff)
  have "rat_of_int (?c + 12) \<le> of_int ?e" using s c e assms(1) by (simp add: field_simps)
  then show "?c + 12 \<le> ?e" by (simp only: of_int_le_iff)
  have "rat_of_int ?e \<le> of_int (?c + 139)" using s c e assms(2) by (simp add: field_simps)
  then show "?e \<le> ?c + 139" by (simp only: of_int_le_iff)
qed

subsection \<open>The bit layer is local to its hypothesis\<close>

text \<open>
  What a bit does to a hypothesis, and what it makes the decoder report, depends on nothing but the
  hypothesis and not on when its next symbol ends.
\<close>

lemma finish_flag_local:
  "\<exists>h1 news. \<forall>t s. fst (finish_flag sample (h\<lparr>hy_next_symbol_end := t\<rparr>) s) = h1\<lparr>hy_next_symbol_end := t\<rparr> \<and>
     heard (snd (finish_flag sample (h\<lparr>hy_next_symbol_end := t\<rparr>) s)) = heard s \<union> news"
proof -
  let ?c = "flag_candidate sample (h\<lparr>hy_flags_seen := hy_flags_seen h + 1\<rparr>)"
  have c: "flag_candidate sample (h\<lparr>hy_next_symbol_end := t, hy_flags_seen := hy_flags_seen h + 1\<rparr>) = ?c" for t
    by (auto simp: flag_candidate_def Let_def split: option.splits sum.splits)
  let ?h1 = "h\<lparr>hy_flags_seen := hy_flags_seen h + 1, hy_after_flag := Some [],
    hy_opening_data_sample := Some (py_round (of_int sample + hy_period h))\<rparr>"
  have "fst (finish_flag sample (h\<lparr>hy_next_symbol_end := t\<rparr>) s) = ?h1\<lparr>hy_next_symbol_end := t\<rparr>" for t s
    by (cases s; cases h) (simp add: finish_flag_def Let_def split: prod.splits)
  moreover have "heard (snd (finish_flag sample (h\<lparr>hy_next_symbol_end := t\<rparr>) s)) = heard s \<union> sf_frame ` set_option ?c" for t s
  proof (cases s)
    case (Pair d fresh)
    have n: "heard (d\<lparr>dc_flags_seen := n\<rparr>, fresh) = heard s" for n by (simp add: heard_def Pair)
    show ?thesis
    proof (cases ?c)
      case None
      with Pair n c [of t] show ?thesis by (simp add: finish_flag_def Let_def)
    next
      case (Some item)
      with Pair n c [of t] heard_accept [of item "(d\<lparr>dc_flags_seen := dc_flags_seen d + 1\<rparr>, fresh)"] show ?thesis
        by (cases "accept_frame item (d\<lparr>dc_flags_seen := dc_flags_seen d + 1\<rparr>, fresh)") (simp add: finish_flag_def Let_def)
    qed
  qed
  ultimately show ?thesis by (intro exI [of _ ?h1] exI [of _ "sf_frame ` set_option ?c"]) simp
qed

lemma emit_bit_local:
  "\<exists>h1 news. \<forall>t s. fst (emit_bit b sample (h\<lparr>hy_next_symbol_end := t\<rparr>) s) = h1\<lparr>hy_next_symbol_end := t\<rparr> \<and>
     heard (snd (emit_bit b sample (h\<lparr>hy_next_symbol_end := t\<rparr>) s)) = heard s \<union> news"
proof -
  define h0 where "h0 = h\<lparr>hy_shift := push_bit 1 (hy_shift h) OR of_bool b,
    hy_shift_count := (if hy_shift_count h < 8 then hy_shift_count h + 1 else hy_shift_count h)\<rparr>"
  define h1 where "h1 =
    (case hy_after_flag h of
       None \<Rightarrow> h0
     | Some bits \<Rightarrow>
         if length (bits @ [b]) > MAX_STUFFED_BITS then h0\<lparr>hy_after_flag := None, hy_opening_data_sample := None\<rparr>
         else h0\<lparr>hy_after_flag := Some (bits @ [b])\<rparr>)"
  have step: "\<exists>s'. heard s' = heard s \<and> emit_bit b sample (h\<lparr>hy_next_symbol_end := t\<rparr>) s =
      (if 8 \<le> hy_shift_count h1 \<and> hy_shift h1 = FLAG_BYTE then finish_flag sample (h1\<lparr>hy_next_symbol_end := t\<rparr>) s'
       else (h1\<lparr>hy_next_symbol_end := t\<rparr>, s'))" for t s
  proof (cases s)
    case (Pair d fresh)
    show ?thesis
    proof (cases "hy_after_flag h")
      case None
      then show ?thesis
        by (intro exI [of _ s], cases h) (simp add: Pair emit_bit_def h1_def h0_def Let_def)
    next
      case (Some bits)
      let ?s' = "(d\<lparr>dc_max_frame_buffer_bits := max (dc_max_frame_buffer_bits d) (length (bits @ [b]))\<rparr>, fresh)"
      have "heard ?s' = heard s" by (simp add: heard_def Pair)
      then show ?thesis using Some
        by (intro exI [of _ ?s'], cases h) (simp add: Pair emit_bit_def h1_def h0_def Let_def)
    qed
  qed
  show ?thesis
  proof (cases "8 \<le> hy_shift_count h1 \<and> hy_shift h1 = FLAG_BYTE")
    case True
    obtain h2 news where fl: "\<And>t s. fst (finish_flag sample (h1\<lparr>hy_next_symbol_end := t\<rparr>) s) = h2\<lparr>hy_next_symbol_end := t\<rparr> \<and>
        heard (snd (finish_flag sample (h1\<lparr>hy_next_symbol_end := t\<rparr>) s)) = heard s \<union> news"
      using finish_flag_local [of sample h1] by blast
    have "fst (emit_bit b sample (h\<lparr>hy_next_symbol_end := t\<rparr>) s) = h2\<lparr>hy_next_symbol_end := t\<rparr> \<and>
        heard (snd (emit_bit b sample (h\<lparr>hy_next_symbol_end := t\<rparr>) s)) = heard s \<union> news" for t s
    proof -
      obtain s' where "heard s' = heard s"
        and "emit_bit b sample (h\<lparr>hy_next_symbol_end := t\<rparr>) s = finish_flag sample (h1\<lparr>hy_next_symbol_end := t\<rparr>) s'"
        using step [of s t, unfolded if_P [OF True]] by blast
      with fl [of t s'] show ?thesis by simp
    qed
    then show ?thesis by blast
  next
    case False
    have "fst (emit_bit b sample (h\<lparr>hy_next_symbol_end := t\<rparr>) s) = h1\<lparr>hy_next_symbol_end := t\<rparr> \<and>
        heard (snd (emit_bit b sample (h\<lparr>hy_next_symbol_end := t\<rparr>) s)) = heard s \<union> {}" for t s
    proof -
      obtain s' where "heard s' = heard s" "emit_bit b sample (h\<lparr>hy_next_symbol_end := t\<rparr>) s = (h1\<lparr>hy_next_symbol_end := t\<rparr>, s')"
        using step [of s t, unfolded if_not_P [OF False]] by blast
      then show ?thesis by simp
    qed
    then show ?thesis by blast
  qed
qed

lemma take_selector_local:
  "\<exists>h1 news. \<forall>t s. fst (take_selector v sample (h\<lparr>hy_next_symbol_end := t\<rparr>) s) = h1\<lparr>hy_next_symbol_end := t\<rparr> \<and>
     heard (snd (take_selector v sample (h\<lparr>hy_next_symbol_end := t\<rparr>) s)) = heard s \<union> news"
proof -
  have "take_selector v sample (h\<lparr>hy_next_symbol_end := t\<rparr>) s =
      emit_bit (case hy_previous_selector h of None \<Rightarrow> True | Some previous \<Rightarrow> v = previous) sample
        (h\<lparr>hy_previous_selector := Some v, hy_next_symbol_end := t\<rparr>) s" for t s
    by (cases h) (simp add: take_selector_def Let_def)
  with emit_bit_local show ?thesis by simp
qed

subsection \<open>Following a burst along one hypothesis\<close>

definition burst_steps :: "rat \<Rightarrow> rat \<Rightarrow> nat \<Rightarrow> bool list \<Rightarrow> nat \<Rightarrow> (bool \<times> int) list" where
  "burst_steps phase period j sel k = map (\<lambda>n. (sel ! n, max 0 (symbol_start phase period (j + n + 1) - 1))) [0..<k]"

text \<open>
  A hypothesis that has been served for \<open>m\<close> symbols, of which those from \<open>j\<close> on are the burst:
  within the burst it is, up to the time of its next symbol, where the bit layer alone gets with the
  selectors so far, and the decoder has on record all that the bit layer alone would report.
\<close>

definition follows :: "rat \<Rightarrow> rat \<Rightarrow> nat \<Rightarrow> bool list \<Rightarrow> bytes \<Rightarrow> nat \<Rightarrow> hypothesis \<Rightarrow> bytes set \<Rightarrow> bool" where
  "follows phase period j sel frame m h known \<longleftrightarrow>
     hy_shift_count h \<le> 8 \<and>
     (j \<le> m \<and> m \<le> j + length sel \<longrightarrow>
        (\<exists>h0 s0 h' s1 t. hy_shift_count h0 \<le> 8 \<and>
           take_selectors (burst_steps phase period j sel (m - j)) h0 s0 = (h', s1) \<and>
           h = h'\<lparr>hy_next_symbol_end := t\<rparr> \<and> heard s1 \<subseteq> known)) \<and>
     (j + length sel < m \<longrightarrow> frame \<in> known)"

lemma nothing_heard: "\<exists>s. heard s = {}"
  by (intro exI [of _ "(d\<lparr>dc_occurrences := []\<rparr>, [])" for d]) (simp add: heard_def)

lemma follows_intro:
  assumes "hy_shift_count h \<le> 8" "m \<le> j + length sel" "hy_shift_count h0 \<le> 8"
    and "take_selectors (burst_steps phase period j sel (m - j)) h0 s0 = (h', s1)"
    and "h = h'\<lparr>hy_next_symbol_end := t\<rparr>" "heard s1 \<subseteq> known"
  shows "follows phase period j sel frame m h known"
  unfolding follows_def
proof (intro conjI impI)
  show "\<exists>h0 s0 h' s1 t. hy_shift_count h0 \<le> 8 \<and>
      take_selectors (burst_steps phase period j sel (m - j)) h0 s0 = (h', s1) \<and>
      h = h'\<lparr>hy_next_symbol_end := t\<rparr> \<and> heard s1 \<subseteq> known"
    using assms(3-6) by (intro exI conjI)
qed (use assms(1,2) in simp_all)

lemma follows_before: "hy_shift_count h \<le> 8 \<Longrightarrow> m \<le> j \<Longrightarrow> follows phase period j sel frame m h known"
proof -
  assume a: "hy_shift_count h \<le> 8" "m \<le> j"
  obtain s where s: "heard s = {}" using nothing_heard by blast
  have "take_selectors (burst_steps phase period j sel (m - j)) h s = (h, s)"
    using a(2) by (simp add: burst_steps_def)
  from follows_intro [OF a(1) _ a(1) this, of "hy_next_symbol_end h"] a(2) s show ?thesis by simp
qed

lemma follows_shift_next:
  assumes "follows phase period j sel frame m h known"
  shows "follows phase period j sel frame m (h\<lparr>hy_next_symbol_end := t\<rparr>) known"
proof -
  have count: "hy_shift_count (h\<lparr>hy_next_symbol_end := t\<rparr>) \<le> 8" using assms by (simp add: follows_def)
  consider "m < j" | "j \<le> m" "m \<le> j + length sel" | "j + length sel < m" by linarith
  then show ?thesis
  proof cases
    case 1
    with count show ?thesis by (intro follows_before) simp_all
  next
    case 2
    then obtain h0 s0 h' s1 t' where fake: "hy_shift_count h0 \<le> 8"
      "take_selectors (burst_steps phase period j sel (m - j)) h0 s0 = (h', s1)"
      "h = h'\<lparr>hy_next_symbol_end := t'\<rparr>" "heard s1 \<subseteq> known"
      using assms unfolding follows_def by blast
    show ?thesis by (rule follows_intro [OF count 2(2) fake(1,2) _ fake(4), of t]) (simp add: fake(3))
  next
    case 3
    with assms show ?thesis by (simp add: follows_def)
  qed
qed

lemma follows_within:
  assumes "follows phase period j sel frame m h (heard s)" "j \<le> m" "m < j + length sel"
    and "take_selector (sel ! (m - j)) (max 0 (symbol_start phase period (m + 1) - 1)) h s = (h1, s1)"
    and "hy_shift_count h1 \<le> 8"
  shows "follows phase period j sel frame (Suc m) h1 (heard s1)"
proof -
  let ?v = "sel ! (m - j)" and ?sample = "max 0 (symbol_start phase period (m + 1) - 1)"
  obtain h0 s0 h' s' t where fake: "hy_shift_count h0 \<le> 8"
      "take_selectors (burst_steps phase period j sel (m - j)) h0 s0 = (h', s')" "heard s' \<subseteq> heard s"
    and h: "h = h'\<lparr>hy_next_symbol_end := t\<rparr>"
    using assms(1-3) less_imp_le_nat [OF assms(3)] unfolding follows_def by blast
  obtain h2 news where loc: "\<And>t s. fst (take_selector ?v ?sample (h'\<lparr>hy_next_symbol_end := t\<rparr>) s) = h2\<lparr>hy_next_symbol_end := t\<rparr> \<and>
      heard (snd (take_selector ?v ?sample (h'\<lparr>hy_next_symbol_end := t\<rparr>) s)) = heard s \<union> news"
    using take_selector_local [of ?v ?sample h'] by blast
  have real: "h1 = h2\<lparr>hy_next_symbol_end := t\<rparr>" "heard s1 = heard s \<union> news"
    using loc [of t s] assms(4) h by simp_all
  let ?u = "hy_next_symbol_end h'"
  obtain h3 s3 where fake_step: "take_selector ?v ?sample h' s' = (h3, s3)" by (rule prod.exhaust)
  then have h3: "h3 = h2\<lparr>hy_next_symbol_end := ?u\<rparr>" "heard s3 = heard s' \<union> news"
    using loc [of ?u s'] by simp_all
  have "burst_steps phase period j sel (Suc m - j) = burst_steps phase period j sel (m - j) @ [(?v, ?sample)]"
    using assms(2) by (simp add: burst_steps_def Suc_diff_le)
  then have "take_selectors (burst_steps phase period j sel (Suc m - j)) h0 s0 = (h3, s3)"
    using fake(2) fake_step by (simp add: take_selectors_append)
  moreover have "h1 = h3\<lparr>hy_next_symbol_end := t\<rparr>" using real h3 by simp
  moreover have "heard s3 \<subseteq> heard s1" using real h3 fake(3) by blast
  ultimately show ?thesis using assms(3,5) fake(1) by (intro follows_intro) simp_all
qed

text \<open>The burst at hand: what the transmitter makes of a frame, with at least two opening flags.\<close>

definition burst_of :: "bytes \<Rightarrow> bool list \<Rightarrow> bool" where
  "burst_of frame sel \<longleftrightarrow> air_frame frame \<and> length (stuff_bits (byte_bits_lsb frame)) + 8 \<le> MAX_STUFFED_BITS \<and>
     (\<exists>pre_flags post_flags initial_tone. 2 \<le> pre_flags \<and> frame_to_selectors frame pre_flags post_flags initial_tone = Inr sel)"

lemma follows_after:
  assumes "burst_of frame sel" "follows phase period j sel frame m h known" "j + length sel \<le> m"
  shows "frame \<in> known"
proof (cases "m = j + length sel")
  case True
  then obtain h0 s0 h' s1 where fake: "hy_shift_count h0 \<le> 8"
    "take_selectors (burst_steps phase period j sel (length sel)) h0 s0 = (h', s1)" "heard s1 \<subseteq> known"
    using assms(2) by (auto simp: follows_def)
  have "map fst (burst_steps phase period j sel (length sel)) = sel"
    by (simp add: burst_steps_def comp_def map_nth)
  with burst_heard fake assms(1) have "frame \<in> heard s1" unfolding burst_of_def by blast
  with fake(3) show ?thesis by blast
next
  case False
  with assms(2,3) show ?thesis by (simp add: follows_def)
qed

lemma follows_step:
  assumes "burst_of frame sel" "follows phase period j sel frame m h (heard s)"
    and "j \<le> m \<Longrightarrow> m < j + length sel \<Longrightarrow>
      \<exists>s'. take_selector (sel ! (m - j)) (max 0 (symbol_start phase period (m + 1) - 1)) h s = (h1, s') \<and> heard s' = heard s1"
    and "hy_shift_count h1 \<le> 8" "heard s \<subseteq> heard s1"
  shows "follows phase period j sel frame (Suc m) h1 (heard s1)"
proof -
  consider "Suc m \<le> j" | "j \<le> m" "m < j + length sel" | "j + length sel \<le> m" by linarith
  then show ?thesis
  proof cases
    case 1
    with assms(4) show ?thesis by (rule follows_before)
  next
    case 2
    then obtain s' where "take_selector (sel ! (m - j)) (max 0 (symbol_start phase period (m + 1) - 1)) h s = (h1, s')"
      and s': "heard s' = heard s1" using assms(3) by blast
    from follows_within [OF assms(2) 2 this(1) assms(4)] s' show ?thesis by simp
  next
    case 3
    with follows_after [OF assms(1,2)] assms(4,5) show ?thesis by (auto simp: follows_def)
  qed
qed


subsection \<open>From samples to the bit layer\<close>

lemma classify_count: "classify_hypothesis h s = (h1, s1) \<Longrightarrow> hy_shift_count h \<le> 8 \<Longrightarrow> hy_shift_count h1 \<le> 8"
  by (cases s)
    (auto simp: classify_hypothesis_def take_selector_def Let_def split: option.splits prod.splits if_splits dest!: emit_bit_shift(2))

lemma classify_heard: "classify_hypothesis h s = (h1, s1) \<Longrightarrow> heard s \<subseteq> heard s1"
  using heard_side.classify_hypothesis_kept [of _ "fst s" "snd s" h] by auto

lemma classify_clear:
  assumes "rings table cur s" "symbol_start phase period (m + 1) = int (length cur)"
    and "hy_phase h = phase" "hy_period h = period" "hy_next_symbol_end h = phase + of_nat (m + 1) * period"
    and "15 \<le> period" "period \<le> 200" "0 \<le> phase" "clear_symbol table (cur @ rest) phase period m v"
    and "classify_hypothesis h s = (h1, s1)"
  shows "\<exists>s'. take_selector v (max 0 (symbol_start phase period (m + 1) - 1)) h s = (h1, s') \<and> heard s' = heard s1"
proof -
  obtain d fresh where s: "s = (d, fresh)" by (cases s)
  let ?c = "symbol_window phase period m" and ?w = "sample_window cur (nat (symbol_window phase period m))"
  note inside = symbol_window_inside [OF assms(6-8), of m]
  have "metric_at d (int (nat ?c)) = Some (table ?w)"
    using inside assms(1,2) by (intro rings_metric [of _ _ _ fresh]) (auto simp: s)
  then have metric: "metric_at d ?c = Some (table ?w)" using inside(1) by simp
  have "sample_window (cur @ rest) (nat ?c) = ?w" using inside(1,2) assms(2) by (intro sample_window_append) simp
  then have v: "if v then 12 / 100 \<le> table ?w else table ?w \<le> - (12 / 100)" using conjunct2 [OF assms(9) [unfolded clear_symbol_def Let_def]] by (simp only:)
  have sel: "(if \<bar>table ?w\<bar> \<ge> 12 / 100 then table ?w > 0 else z) = v" for z using v by (auto split: if_splits)
  have grid: "py_round (hy_next_symbol_end h - period) = symbol_start phase period m"
    "py_round (hy_next_symbol_end h) = symbol_start phase period (m + 1)"
    using assms(4,5) by (simp_all add: symbol_start_def algebra_simps)
  obtain h2 d2 fresh2 where t: "take_selector v (max 0 (symbol_start phase period (m + 1) - 1)) h (d, fresh) = (h2, d2, fresh2)"
    by (rule prod_cases3)
  have "classify_hypothesis h (d, fresh) = (h2, d2\<lparr>dc_symbol_decisions := dc_symbol_decisions d2 + 1\<rparr>, fresh2)"
    unfolding classify_hypothesis_def prod.case Let_def assms(4) grid symbol_window_def [symmetric]
    by (simp only: metric option.case sel t prod.case)
  with assms(10) t s show ?thesis by (auto simp: heard_def)
qed

lemma symbol_start_mono:
  assumes "1 \<le> period" "m \<le> n"
  shows "symbol_start phase period m \<le> symbol_start phase period n"
proof (cases "m = n")
  case False
  then have "m + 1 \<le> n" using assms(2) by simp
  then have "rat_of_nat (m + 1) * period \<le> of_nat n * period"
    using assms(1) of_nat_mono [OF \<open>m + 1 \<le> n\<close>] by (intro mult_right_mono) simp_all
  then have "phase + of_nat m * period + 1 / 2 \<le> phase + of_nat n * period - 1 / 2"
    using assms(1) by (simp add: algebra_simps)
  then have "rat_of_int (symbol_start phase period m) \<le> of_int (symbol_start phase period n)"
    using py_round_bounds(2) [of "phase + of_nat m * period"] py_round_bounds(1) [of "phase + of_nat n * period"]
    unfolding symbol_start_def by linarith
  then show ?thesis by (simp only: of_int_le_iff)
qed simp

text \<open>One hypothesis of the bank, number \<open>i\<close>, in step with the samples so far.\<close>

definition acquiring ::
  "(12 word \<Rightarrow> real) \<Rightarrow> (rat \<times> rat \<times> rat) list \<Rightarrow> nat \<Rightarrow> nat \<Rightarrow> bool list \<Rightarrow> bytes \<Rightarrow> bool list \<Rightarrow> rx_decoder \<times> streaming_frame list \<Rightarrow> bool" where
  "acquiring table ids i j sel frame cur s \<longleftrightarrow>
     rings table cur s \<and> timing ids (int (length cur)) (fst s) \<and> i < length ids \<and>
     (let h = dc_hypotheses (fst s) ! i in
      \<exists>m. hy_next_symbol_end h = hy_phase h + of_nat (m + 1) * hy_period h \<and>
        int (length cur) \<le> symbol_start (hy_phase h) (hy_period h) (m + 1) \<and>
        follows (hy_phase h) (hy_period h) j sel frame m h (heard s))"

definition burst_in ::
  "(12 word \<Rightarrow> real) \<Rightarrow> bool list \<Rightarrow> (rat \<times> rat \<times> rat) list \<Rightarrow> nat \<Rightarrow> nat \<Rightarrow> bool list \<Rightarrow> bool" where
  "burst_in table xs ids i j sel \<longleftrightarrow>
     (case ids ! i of (_, phase, period) \<Rightarrow> 15 \<le> period \<and> period \<le> 200 \<and> 0 \<le> phase \<and>
        (\<forall>k < length sel. clear_symbol table xs phase period (j + k) (sel ! k)))"

lemma timing_id: "timing ids now d \<Longrightarrow> i < length ids \<Longrightarrow> ids ! i = hypothesis_id (dc_hypotheses d ! i) \<and> length (dc_hypotheses d) = length ids"
  by (auto simp: timing_def)

lemma acquiring_serve:
  assumes acq: "acquiring table ids i j sel frame cur s" and "symbol_due (fst s)"
    and "burst_of frame sel" "burst_in table (cur @ rest) ids i j sel"
  shows "acquiring table ids i j sel frame cur (serve_next s)"
proof -
  let ?N = "int (length cur)"
  obtain d fresh where s: "s = (d, fresh)" by (cases s)
  obtain d' fresh' where s': "serve_next (d, fresh) = (d', fresh')" by (rule prod.exhaust)
  have rings: "rings table cur s" and tim: "timing ids ?N d" and i: "i < length ids"
    using acq by (simp_all add: acquiring_def s)
  obtain phase period where id: "snd (ids ! i) = (phase, period)" by (cases "snd (ids ! i)")
  have burst: "15 \<le> period" "period \<le> 200" "0 \<le> phase"
    and clear: "\<And>k. k < length sel \<Longrightarrow> clear_symbol table (cur @ rest) phase period (j + k) (sel ! k)"
    using assms(4) id by (auto simp: burst_in_def split: prod.splits)
  have hid: "hy_phase (dc_hypotheses d ! i) = phase" "hy_period (dc_hypotheses d ! i) = period" "length (dc_hypotheses d) = length ids"
    using timing_id [OF tim i] id by auto
  obtain m where m: "hy_next_symbol_end (dc_hypotheses d ! i) = phase + of_nat (m + 1) * period"
      "?N \<le> symbol_start phase period (m + 1)"
    and fol: "follows phase period j sel frame m (dc_hypotheses d ! i) (heard s)"
    using acq hid by (auto simp: acquiring_def s Let_def)
  obtain order h hyp where o: "order < length (dc_hypotheses d)" "h = dc_hypotheses d ! order" "py_round (hy_next_symbol_end h) \<le> ?N"
    and c: "classify_hypothesis h (d\<lparr>dc_schedule := tl (dc_schedule d)\<rparr>, fresh) =
        (hyp, d'\<lparr>dc_hypotheses := dc_hypotheses d, dc_schedule := tl (dc_schedule d)\<rparr>, fresh')"
    and hyps: "dc_hypotheses d' = (dc_hypotheses d)[order := hyp\<lparr>hy_next_symbol_end := hy_next_symbol_end h + hy_period h\<rparr>]"
    and tim': "timing ids ?N d'"
    using serve_next_due [OF tim _ s'] assms(2) s by (metis fst_conv)
  let ?s = "(d\<lparr>dc_schedule := tl (dc_schedule d)\<rparr>, fresh)"
    and ?s1 = "(d'\<lparr>dc_hypotheses := dc_hypotheses d, dc_schedule := tl (dc_schedule d)\<rparr>, fresh')"
  have same: "heard ?s = heard s" "heard ?s1 = heard (d', fresh')" by (simp_all add: heard_def s)
  have rings': "rings table cur (d', fresh')" using ring_side.serve_next_kept [OF rings] s s' by simp
  have sub: "heard s \<subseteq> heard (d', fresh')" using classify_heard [OF c] same by simp
  have hid': "hy_phase (dc_hypotheses d' ! i) = phase" "hy_period (dc_hypotheses d' ! i) = period"
    using timing_id [OF tim' i] id by auto
  have "\<exists>m. hy_next_symbol_end (dc_hypotheses d' ! i) = phase + of_nat (m + 1) * period \<and>
      ?N \<le> symbol_start phase period (m + 1) \<and> follows phase period j sel frame m (dc_hypotheses d' ! i) (heard (d', fresh'))"
  proof (cases "order = i")
    case False
    then have "dc_hypotheses d' ! i = dc_hypotheses d ! i" using hyps by simp
    moreover have "follows phase period j sel frame m (dc_hypotheses d ! i) (heard (d', fresh'))"
      using fol sub unfolding follows_def by blast
    ultimately show ?thesis using m by auto
  next
    case True
    have h: "dc_hypotheses d' ! i = hyp\<lparr>hy_next_symbol_end := hy_next_symbol_end h + hy_period h\<rparr>" and hi: "h = dc_hypotheses d ! i"
      using hyps o True by simp_all
    have now: "symbol_start phase period (m + 1) = ?N"
      using m o(3) hi by (simp add: symbol_start_def)
    have "rings table cur ?s" using rings s ring_side.schedule_kept by blast
    then have "\<exists>s'. take_selector (sel ! (m - j)) (max 0 (symbol_start phase period (m + 1) - 1)) h ?s = (hyp, s') \<and> heard s' = heard ?s1"
      if "j \<le> m" "m < j + length sel"
      using that clear [of "m - j"] less_diff_conv2 [of j m "length sel"] hid m(1) burst
      by (intro classify_clear [OF _ now, where rest = rest] c) (simp_all add: hi)
    from follows_step [OF assms(3) _ this classify_count [OF c]] fol sub
    have "follows phase period j sel frame (Suc m) hyp (heard (d', fresh'))"
      by (simp add: same hi follows_def)
    then have "follows phase period j sel frame (Suc m) (dc_hypotheses d' ! i) (heard (d', fresh'))"
      unfolding h by (rule follows_shift_next)
    moreover have "hy_next_symbol_end (dc_hypotheses d' ! i) = phase + of_nat (Suc m + 1) * period"
      using h m(1) hid hi by (simp add: algebra_simps)
    moreover have "?N \<le> symbol_start phase period (Suc m + 1)"
      using now symbol_start_mono [of period "m + 1" "Suc m + 1" phase] burst(1) by simp
    ultimately show ?thesis by blast
  qed
  then show ?thesis unfolding acquiring_def using rings' tim' i hid' s s' by (simp add: Let_def)
qed

lemma acquiring_loop:
  assumes "burst_of frame sel" "burst_in table (cur @ rest) ids i j sel"
  shows "acquiring table ids i j sel frame cur s \<Longrightarrow> acquiring table ids i j sel frame cur (classify_loop fuel s)"
  by (induction fuel s rule: classify_loop.induct) (simp_all add: acquiring_serve [OF _ _ assms])

definition acquired ::
  "(12 word \<Rightarrow> real) \<Rightarrow> (rat \<times> rat \<times> rat) list \<Rightarrow> nat \<Rightarrow> nat \<Rightarrow> bool list \<Rightarrow> bytes \<Rightarrow> bool list \<Rightarrow> rx_decoder \<times> streaming_frame list \<Rightarrow> bool" where
  "acquired table ids i j sel frame cur s \<longleftrightarrow> acquiring table ids i j sel frame cur s \<and>
     (cur = [] \<or> \<not> symbol_due (fst s))"

text \<open>Between samples the hypothesis is ahead of them.\<close>

lemma acquired_ahead:
  assumes "acquired table ids i j sel frame cur s" "cur = [] \<Longrightarrow> 1 \<le> snd (snd (ids ! i)) \<and> 0 \<le> fst (snd (ids ! i))"
  obtains m where "hy_next_symbol_end (dc_hypotheses (fst s) ! i) = fst (snd (ids ! i)) + of_nat (m + 1) * snd (snd (ids ! i))"
    "int (length cur) < symbol_start (fst (snd (ids ! i))) (snd (snd (ids ! i))) (m + 1)"
    "follows (fst (snd (ids ! i))) (snd (snd (ids ! i))) j sel frame m (dc_hypotheses (fst s) ! i) (heard s)"
proof -
  let ?h = "dc_hypotheses (fst s) ! i"
  have tim: "timing ids (int (length cur)) (fst s)" and i: "i < length ids"
    using assms(1) by (simp_all add: acquired_def acquiring_def)
  note id = timing_id [OF tim i]
  obtain m where m: "hy_next_symbol_end ?h = hy_phase ?h + of_nat (m + 1) * hy_period ?h"
    "follows (hy_phase ?h) (hy_period ?h) j sel frame m ?h (heard s)"
    using assms(1) by (auto simp: acquired_def acquiring_def Let_def)
  have "int (length cur) < symbol_start (hy_phase ?h) (hy_period ?h) (m + 1)"
  proof (cases "cur = []")
    case True
    have "1 \<le> of_nat (m + 1) * hy_period ?h"
      using mult_mono [of 1 "rat_of_nat (m + 1)" 1 "hy_period ?h"] assms(2) [OF True] id by simp
    then have "rat_of_int 1 \<le> hy_phase ?h + of_nat (m + 1) * hy_period ?h" using assms(2) [OF True] id by simp
    from py_round_ge [OF this] True show ?thesis by (simp add: symbol_start_def)
  next
    case False
    have "?h \<in> set (dc_hypotheses (fst s))" using id i by simp
    from not_due_later [OF tim _ this] assms(1) False m(1) show ?thesis by (simp add: acquired_def symbol_start_def)
  qed
  with m id that [of m] show thesis by simp
qed

lemma acquired_sample:
  assumes acq: "acquired table ids i j sel frame cur s"
    and burst: "burst_of frame sel" "burst_in table (cur @ raw # rest) ids i j sel"
  shows "acquired table ids i j sel frame (cur @ [raw]) (feed_sample table raw s)"
proof -
  obtain d fresh where s: "s = (d, fresh)" by (cases s)
  have ring: "rings table cur (d, fresh)" and tim: "timing ids (int (length cur)) d" and i: "i < length ids"
    using acq by (simp_all add: acquired_def acquiring_def s)
  obtain d1 where d1: "feed_sample table raw s = classify_due_symbols (d1, fresh)" "rings table (cur @ [raw]) (d1, fresh)"
    and keep: "dc_hypotheses d1 = dc_hypotheses d" "dc_schedule d1 = dc_schedule d" "dc_occurrences d1 = dc_occurrences d"
    using rings_sample [OF ring, of raw] s by metis
  have idx: "dc_sample_index d1 = int (length cur)" using d1(2) by (simp add: rings_def)
  have tim1: "timing ids (int (length (cur @ [raw]))) d1"
    using tim keep idx on_time_later [of "int (length cur)"] by (auto simp: timing_def scheduled_def add.commute)
  have "1 \<le> snd (snd (ids ! i)) \<and> 0 \<le> fst (snd (ids ! i))" using burst(2) by (auto simp: burst_in_def)
  with acq obtain m where m: "hy_next_symbol_end (dc_hypotheses d ! i) = fst (snd (ids ! i)) + of_nat (m + 1) * snd (snd (ids ! i))"
    "int (length cur) < symbol_start (fst (snd (ids ! i))) (snd (snd (ids ! i))) (m + 1)"
    "follows (fst (snd (ids ! i))) (snd (snd (ids ! i))) j sel frame m (dc_hypotheses d ! i) (heard s)"
    by (elim acquired_ahead) (auto simp: s)
  have "heard (d1, fresh) = heard s" using keep by (simp add: heard_def s)
  then have "acquiring table ids i j sel frame (cur @ [raw]) (d1, fresh)"
    unfolding acquiring_def using d1(2) tim1 i m timing_id [OF tim i] by (auto simp: Let_def keep intro!: exI [of _ m])
  moreover have "burst_in table ((cur @ [raw]) @ rest) ids i j sel" using burst(2) by simp
  ultimately have "acquiring table ids i j sel frame (cur @ [raw]) (feed_sample table raw s)"
    using acquiring_loop [OF burst(1)] d1(1) by (simp add: classify_due_symbols_def)
  moreover have "\<not> symbol_due (fst (feed_sample table raw s))"
    using classify_loop_serves [of ids "int (length (cur @ [raw]))" "(d1, fresh)" "due_rounds d1"] tim1 d1(1)
    by (simp add: classify_due_symbols_def)
  ultimately show ?thesis by (simp add: acquired_def)
qed

lemma acquired_fold:
  "acquired table ids i j sel frame cur s \<Longrightarrow> burst_of frame sel \<Longrightarrow> burst_in table (cur @ raws @ rest) ids i j sel \<Longrightarrow>
     acquired table ids i j sel frame (cur @ raws) (fold (feed_sample table) raws s)"
proof (induction raws arbitrary: cur s)
  case (Cons raw raws)
  have "acquired table ids i j sel frame (cur @ [raw]) (feed_sample table raw s)"
    using acquired_sample [OF Cons.prems(1,2), of raw "raws @ rest"] Cons.prems(3) by simp
  from Cons.IH [OF this Cons.prems(2)] Cons.prems(3) show ?case by simp
qed simp

lemma acquired_run:
  "acquired table ids i j sel frame cur (d, []) \<Longrightarrow> burst_of frame sel \<Longrightarrow>
     burst_in table (cur @ samples_of_bytes (concat chunks)) ids i j sel \<Longrightarrow>
     acquired table ids i j sel frame (cur @ samples_of_bytes (concat chunks)) (rx_run table d chunks, [])"
proof (induction chunks arbitrary: cur d)
  case (Cons c cs)
  let ?d = "d\<lparr>dc_packed_bytes := dc_packed_bytes d + length c\<rparr>"
  have "symbol_due ?d = symbol_due d" by (auto simp: symbol_due_def split: list.splits)
  then have "acquired table ids i j sel frame cur (?d, [])"
    using Cons.prems(1) by (simp add: acquired_def acquiring_def rings_def timing_def scheduled_def heard_def)
  from acquired_fold [OF this Cons.prems(2), of "samples_of_bytes c" "samples_of_bytes (concat cs)"] Cons.prems(3)
  have "acquired table ids i j sel frame (cur @ samples_of_bytes c) (fold (feed_sample table) (samples_of_bytes c) (?d, []))"
    by simp
  then have "acquired table ids i j sel frame (cur @ samples_of_bytes c) (snd (rx_feed table c d), [])"
    by (cases "fold (feed_sample table) (samples_of_bytes c) (?d, [])")
      (simp add: rx_feed_eq acquired_def acquiring_def rings_def heard_def)
  from Cons.IH [OF this Cons.prems(2)] Cons.prems(3) show ?case by (simp add: rx_run_def)
qed (simp add: rx_run_def samples_of_bytes_def)

lemma acquired_init:
  assumes "decoder_init bauds phases = Inr d" "i < length (dc_hypotheses d)"
    and "snd (hypothesis_id (dc_hypotheses d ! i)) = (phase, period)" "1 \<le> period" "0 \<le> phase"
  shows "acquired table (map hypothesis_id (dc_hypotheses d)) i j sel frame [] (d, [])"
proof -
  let ?h = "dc_hypotheses d ! i"
  have "?h \<in> set (dc_hypotheses d)" using assms(2) by simp
  then have h: "hy_next_symbol_end ?h = hy_phase ?h + of_nat (0 + 1) * hy_period ?h" "hy_shift_count ?h = 0"
    using assms(1) by (auto simp: decoder_init_def hypothesis_init_def Let_def split: if_splits)
  have "rat_of_int 0 \<le> hy_phase ?h + of_nat (0 + 1) * hy_period ?h" using assms(3-5) by simp
  from py_round_ge [OF this] have "0 \<le> symbol_start (hy_phase ?h) (hy_period ?h) (0 + 1)" by (simp add: symbol_start_def)
  moreover have "follows (hy_phase ?h) (hy_period ?h) j sel frame 0 ?h (heard (d, []))"
    using h(2) by (intro follows_before) simp_all
  moreover have "timing (map hypothesis_id (dc_hypotheses d)) 0 d"
    using served_init [OF assms(1)] by (simp add: served_def)
  ultimately show ?thesis
    using h(1) rings_init [OF assms(1)] assms(2) unfolding acquired_def acquiring_def Let_def fst_conv
    by (intro conjI disjI1 exI [of _ 0]) simp_all
qed

lemma burst_nonempty: "burst_of frame sel \<Longrightarrow> sel \<noteq> []"
proof -
  assume "burst_of frame sel"
  then obtain pre_flags post_flags tone where "2 \<le> pre_flags" "sel = nrzi_encode_loop tone (flags pre_flags @ stuff_bits (byte_bits_lsb frame) @ flags post_flags)"
    by (auto simp: burst_of_def frame_to_selectors_def hdlc_bits_def nrzi_encode_def try_bind_Inr_iff split: if_splits)
  then have "length sel \<ge> 16" by simp
  then show ?thesis by auto
qed

lemma clean_burst_heard:
  assumes "decoder_init bauds phases = Inr d0" "i < length (dc_hypotheses d0)"
    and "hy_phase (dc_hypotheses d0 ! i) = phase" "hy_period (dc_hypotheses d0 ! i) = period"
    and "15 \<le> period" "period \<le> 200" "0 \<le> phase" "burst_of frame sel"
    and "\<forall>k < length sel. clear_symbol table (samples_of_bytes (concat chunks)) phase period (j + k) (sel ! k)"
  shows "frame \<in> heard (rx_run table d0 chunks, [])"
proof -
  let ?ids = "map hypothesis_id (dc_hypotheses d0)" and ?xs = "samples_of_bytes (concat chunks)"
  have id: "?ids ! i = (hy_baud (dc_hypotheses d0 ! i), phase, period)" using assms(2-4) by simp
  have in_: "burst_in table ?xs ?ids i j sel" using assms(5-7,9) id by (simp add: burst_in_def)
  have "acquired table ?ids i j sel frame [] (d0, [])"
    using assms(3-7) by (intro acquired_init [OF assms(1,2), of phase period]) simp_all
  from acquired_run [OF this assms(8), of chunks] in_
  have acq: "acquired table ?ids i j sel frame ?xs (rx_run table d0 chunks, [])" by simp
  obtain m where m: "int (length ?xs) < symbol_start phase period (m + 1)"
    and fol: "follows phase period j sel frame m (dc_hypotheses (rx_run table d0 chunks) ! i) (heard (rx_run table d0 chunks, []))"
    using acq assms(5,7) id by (elim acquired_ahead) auto
  have "j + length sel \<le> m"
  proof (rule ccontr)
    assume "\<not> j + length sel \<le> m"
    moreover have "0 < length sel" using burst_nonempty [OF assms(8)] by simp
    ultimately have k: "(if m < j then 0 else m - j) < length sel" "m \<le> j + (if m < j then 0 else m - j)" by auto
    let ?k = "if m < j then 0 else m - j"
    from assms(9) k(1) have "symbol_start phase period (j + ?k + 1) \<le> int (length ?xs)" by (auto simp: clear_symbol_def)
    moreover have "symbol_start phase period (m + 1) \<le> symbol_start phase period (j + ?k + 1)"
      using k(2) assms(5) by (intro symbol_start_mono) simp_all
    ultimately show False using m by simp
  qed
  with follows_after [OF assms(8) fol] show ?thesis .
qed

text \<open>
  A clean burst is received. Take a decoder with any bank that has a hypothesis of 15 to 200
  samples per symbol and no negative phase, and feed it any reads. If along the symbols of that hypothesis,
  from some symbol on, the correlation over the samples reads clearly as the selectors that
  the transmitter makes of a valid frame, with at least two opening flags, then the decoder has the
  frame on record, whatever it heard before and whatever the other hypotheses make of the samples.
\<close>

theorem clean_burst_received:
  assumes "decoder_init bauds phases = Inr d0" "i < length (dc_hypotheses d0)"
    and "phase = hy_phase (dc_hypotheses d0 ! i)" "period = hy_period (dc_hypotheses d0 ! i)"
    and "15 \<le> period" "period \<le> 200" "0 \<le> phase"
    and "air_frame frame" "length (stuff_bits (byte_bits_lsb frame)) + 8 \<le> MAX_STUFFED_BITS"
    and "frame_to_selectors frame pre_flags post_flags initial_tone = Inr sel" "2 \<le> pre_flags"
    and "xs = samples_of_bytes (concat chunks)"
    and "\<forall>k < length sel. clear_symbol table xs phase period (j + k) (sel ! k)"
  shows "\<exists>item \<in> set (dc_occurrences (rx_run table d0 chunks)). sf_frame item = frame"
proof -
  have "burst_of frame sel" using assms(8-11) by (auto simp: burst_of_def)
  from clean_burst_heard [OF assms(1,2) assms(3,4) [symmetric] assms(5-7) this assms(13) [unfolded assms(12)]]
  show ?thesis by (auto simp: heard_def)
qed

subsection \<open>A concrete reception\<close>

text \<open>The burst of the example as a square wave: sixteen equal samples, two octets, per symbol.\<close>

definition square_wave :: "bool list \<Rightarrow> bytes" where
  "square_wave sel = concat (map (\<lambda>v. if v then [0xFF, 0xFF] else [0x00, 0x00]) sel)"

lemma square_wave_samples: "samples_of_bytes (square_wave sel) = concat (map (replicate 16) sel)"
proof -
  have "samples_of_bytes [0xFF, 0xFF] = replicate 16 True" "samples_of_bytes [0, 0] = replicate 16 False" by code_simp+
  then have "samples_of_bytes (if v then [0xFF, 0xFF] else [0x00, 0x00]) = replicate 16 v" for v by simp
  then show ?thesis
    by (induction sel) (simp_all add: square_wave_def, simp_all add: samples_of_bytes_def)
qed

lemma square_wave_slice:
  "k < length sel \<Longrightarrow> take 12 (drop (16 * k + 2) (concat (map (replicate 16) sel))) = replicate 12 (sel ! k)"
proof (induction sel arbitrary: k)
  case (Cons v sel)
  then show ?case by (cases k) (simp_all add: drop_replicate take_replicate)
qed simp

lemma square_wave_clear:
  assumes "k < length sel"
  shows "clear_symbol example_table (samples_of_bytes (square_wave sel)) 0 16 k (sel ! k)"
proof -
  have len: "length (concat (map (replicate 16) sel)) = 16 * length sel"
    by (induction sel) simp_all
  have r: "py_round (of_int n) = n" for n by (simp add: py_round_def Let_def)
  have start: "symbol_start 0 16 m = 16 * int m" for m using r [of "16 * int m"] by (simp add: symbol_start_def mult.commute)
  have "symbol_window 0 16 k = 16 * int k + 2"
    using r [of "16 * int k + 2"] by (simp add: symbol_window_def start CORR_WINDOW_def)
  then have "nat (symbol_window 0 16 k) = 16 * k + 2" by (simp add: nat_add_distrib nat_mult_distrib)
  then have "sample_window (concat (map (replicate 16) sel)) (nat (symbol_window 0 16 k)) = fold shift_in (replicate 12 (sel ! k)) 0"
    using square_wave_slice [OF assms] by (simp add: sample_window_def CORR_WINDOW_def)
  moreover have "bit (fold shift_in (replicate 12 v) 0) 0 = v" for v by (subst bit_fold_shift_in) simp_all
  ultimately show ?thesis
    using assms by (simp add: clear_symbol_def square_wave_samples start len example_table_def Let_def)
qed

lemma example_clear:
  "\<forall>k < length example_selectors.
     clear_symbol example_table (samples_of_bytes (concat [square_wave example_selectors])) 0 16 (0 + k) (example_selectors ! k)"
  using square_wave_clear by simp

theorem clean_burst_received_witness:
  "\<exists>d. decoder_init [1200] [0] = Inr d \<and>
     (\<exists>item \<in> set (dc_occurrences (rx_run example_table d [square_wave example_selectors])). sf_frame item = example_air_frame)"
proof -
  obtain d where d: "decoder_init [1200] [0] = Inr d" "dc_hypotheses d = [hypothesis_init 1200 0]" by (rule example_bank)
  have "\<exists>item \<in> set (dc_occurrences (rx_run example_table d [square_wave example_selectors])). sf_frame item = example_air_frame"
    by (rule clean_burst_received [OF d(1), where i = 0, OF _ _ _ _ _ _ example_frame_ok example_stuffed example_burst _ refl example_clear])
      (simp_all add: d example_hypothesis)
  with d show ?thesis by blast
qed

lemma fresh_fold:
  "heard s \<subseteq> known \<union> sf_frame ` set (snd s) \<Longrightarrow>
     heard (fold (feed_sample table) raws s) \<subseteq> known \<union> sf_frame ` set (snd (fold (feed_sample table) raws s))"
proof (induction raws arbitrary: s)
  case (Cons raw raws)
  obtain d fresh where s: "s = (d, fresh)" by (cases s)
  obtain d1 where "feed_sample table raw s = classify_due_symbols (d1, fresh)" "dc_occurrences d1 = dc_occurrences d"
    by (simp add: s feed_sample_def Let_def split: option.splits)
  with Cons.prems s fresh_side.classify_due_symbols_kept [of "(d1, fresh)" known]
  have "heard (feed_sample table raw s) \<subseteq> known \<union> sf_frame ` set (snd (feed_sample table raw s))"
    by (simp add: heard_def)
  from Cons.IH [OF this] show ?case by simp
qed simp

text \<open>
  C15. Only valid frames are reported, in the order of their samples. After any reads from a new
  decoder with whatever hypotheses, every frame that the next read reports has at least 17 octets,
  carries its check sequence and parses as an AX.25 frame.
\<close>

theorem rx_reports_valid_frames:
  assumes "decoder_init bauds phases = Inr d0" "rx_feed table packed (rx_run table d0 chunks) = (fresh, d)" "item \<in> set fresh"
  shows "17 \<le> length (sf_frame item) \<and> verify_fcs (sf_frame item) \<and>
    (\<exists>parsed. parse_frame (sf_frame item) True = Inr parsed) \<and> sorted (map sf_sample_start fresh)"
proof -
  have "frames_valid (d0, [])"
    using assms(1) by (auto simp: decoder_init_def frames_valid_def Let_def split: if_splits)
  from frames_valid_feed(1) [OF frames_valid_run [OF this], of table packed table chunks] assms(2,3)
  have "air_frame (sf_frame item)" by simp
  moreover have "sorted (map sf_sample_start fresh)"
    using assms(2) by (auto simp: rx_feed_def Let_def split: prod.splits)
  ultimately show ?thesis by (simp add: air_frame_def)
qed


theorem rx_reports_valid_frames_witness:
  "\<exists>d0 fresh d item. decoder_init [1200] [0] = Inr d0 \<and>
     rx_feed example_table (square_wave example_selectors) (rx_run example_table d0 []) = (fresh, d) \<and> item \<in> set fresh \<and>
     17 \<le> length (sf_frame item) \<and> verify_fcs (sf_frame item) \<and>
     (\<exists>parsed. parse_frame (sf_frame item) True = Inr parsed) \<and> sorted (map sf_sample_start fresh)"
proof -
  obtain d0 where d0: "decoder_init [1200] [0] = Inr d0" "dc_hypotheses d0 = [hypothesis_init 1200 0]" by (rule example_bank)
  obtain fresh d where f: "rx_feed example_table (square_wave example_selectors) (rx_run example_table d0 []) = (fresh, d)"
    by (rule prod.exhaust)
  have run: "rx_run example_table d0 [square_wave example_selectors] = d" using f by (simp add: rx_run_def)
  have "example_air_frame \<in> heard (rx_run example_table d0 [square_wave example_selectors], [])"
  proof (rule clean_burst_heard [OF d0(1), where i = 0 and phase = 0 and period = 16 and j = 0 and sel = example_selectors])
    show "burst_of example_air_frame example_selectors"
      unfolding burst_of_def using example_frame_ok example_stuffed example_burst by (intro conjI exI [of _ 2] exI [of _ 1] exI [of _ MARK]) simp_all
  qed (simp_all add: d0 example_hypothesis square_wave_clear)
  moreover have "heard (d, fresh) \<subseteq> {} \<union> sf_frame ` set fresh"
  proof -
    let ?p = "square_wave example_selectors"
    let ?s = "(d0\<lparr>dc_packed_bytes := dc_packed_bytes d0 + length ?p\<rparr>, [])"
    have "dc_occurrences d0 = []" using d0(1) by (auto simp: decoder_init_def Let_def)
    with fresh_fold [of ?s "{}" example_table "samples_of_bytes ?p"] f show ?thesis
      by (auto simp: rx_run_def rx_feed_eq heard_def Let_def split: prod.splits)
  qed
  ultimately obtain item where "item \<in> set fresh" by (auto simp: run heard_def)
  from d0(1) f this rx_reports_valid_frames [OF d0(1) f this] show ?thesis by blast
qed

end
