(* ===== verification/Tnc_Runtime.thy ===== *)
theory Tnc_Runtime
  imports Kiss_Backend Rx_Acquisition
begin

section \<open>The sustained runtime\<close>

text \<open>
  \<open>src/src/ywd1278/service/tnc_runtime.py\<close>: the one worker that drains the receive FIFO through the
  Bell-202 decoder, publishes the frames it finds, checks the receiver's health, samples the signal strength
  while data is queued and lets the queue act on it. The objects it is given, the modem owner, the
  backend, the queue, the clock and the source of random octets, are operations over a world state. One
  iteration of the worker's loop is one step; a stop request takes effect between steps. The table
  of metrics is an argument, as in the decoder.
\<close>

subsection \<open>Model: state\<close>

definition ACTIVE_RX_FLAGS :: int where "ACTIVE_RX_FLAGS = 0x0D"
definition RX_FIFO_DRAIN_READ_LIMIT :: nat where "RX_FIFO_DRAIN_READ_LIMIT = 4"

datatype runtime_error =
    EmptyIdentity | ReadMaximumRange | IdleSleepNegative | StatusIntervalNotPositive
  | RuntimeTimeoutNotPositive | RuntimeRestart | IdentityMismatch
  | RXFlagsChanged | RXFifoDropped | DownstreamFailed "tx_exn option"
  | OwnerFailed tx_exn | AdmissionFailed kq_error | PublishFailed codec_error
  | WorkerTimeout | RuntimeFailed runtime_error

record ('w, 'r) runtime_env =
  re_owner :: "'w modem_port"
  re_publish :: "packet_event \<Rightarrow> 'w \<Rightarrow> 'w"
  re_queue_depth :: "'w \<Rightarrow> nat"
  re_observe_rssi :: "seconds \<Rightarrow> int \<Rightarrow> 'w \<Rightarrow> (kq_error, 'r kq_observation) result \<times> 'w"
  re_monotonic :: "'w \<Rightarrow> seconds \<times> 'w"
  re_wait :: "seconds \<Rightarrow> 'w \<Rightarrow> 'w"

record tnc_runtime =
  rt_expected_identity :: string
  rt_read_maximum :: int
  rt_idle_sleep_seconds :: seconds
  rt_status_interval_seconds :: seconds
  rt_decoder :: rx_decoder
  rt_stop :: bool
  rt_alive :: bool
  rt_started :: bool
  rt_identity :: string
  rt_rx_reads :: nat
  rt_packed_bytes :: nat
  rt_decoded_frames :: nat
  rt_status_checks :: nat
  rt_rssi_samples :: nat
  rt_tx_dispatches :: nat
  rt_access_timeouts :: nat
  rt_decoder_resets :: nat
  rt_failure :: "runtime_error option"
  rt_next_status :: seconds

text \<open>\<open>StreamingBell202Decoder()\<close>, with the default bank, which is a valid one.\<close>

definition new_decoder :: rx_decoder where
  "new_decoder = projr (decoder_init DEFAULT_BAUDS DEFAULT_PHASES)"

definition runtime_init :: "string \<Rightarrow> int \<Rightarrow> seconds \<Rightarrow> seconds \<Rightarrow> (runtime_error, tnc_runtime) result" where
  "runtime_init expected_identity read_maximum idle_sleep_seconds status_interval_seconds =
     (if py_strip expected_identity = [] then Inl EmptyIdentity
      else if \<not> (1 \<le> read_maximum \<and> read_maximum \<le> 200) then Inl ReadMaximumRange
      else if idle_sleep_seconds < 0 then Inl IdleSleepNegative
      else if status_interval_seconds \<le> 0 then Inl StatusIntervalNotPositive
      else Inr \<lparr>rt_expected_identity = expected_identity, rt_read_maximum = read_maximum,
        rt_idle_sleep_seconds = idle_sleep_seconds, rt_status_interval_seconds = status_interval_seconds,
        rt_decoder = new_decoder, rt_stop = False, rt_alive = False, rt_started = False, rt_identity = [],
        rt_rx_reads = 0, rt_packed_bytes = 0, rt_decoded_frames = 0, rt_status_checks = 0, rt_rssi_samples = 0,
        rt_tx_dispatches = 0, rt_access_timeouts = 0, rt_decoder_resets = 0, rt_failure = None, rt_next_status = 0\<rparr>)"

subsection \<open>Model: operations of the worker\<close>

type_synonym ('w, 'a) runtime_op = "tnc_runtime \<times> 'w \<Rightarrow> (runtime_error, 'a) result \<times> tnc_runtime \<times> 'w"

text \<open>Sequencing: the first exception ends the sequence.\<close>

definition rt_bind :: "('w, 'a) runtime_op \<Rightarrow> ('a \<Rightarrow> ('w, 'b) runtime_op) \<Rightarrow> ('w, 'b) runtime_op" where
  "rt_bind m f s = (case m s of (Inl e, s) \<Rightarrow> (Inl e, s) | (Inr x, s) \<Rightarrow> f x s)"

definition rt_return :: "'a \<Rightarrow> ('w, 'a) runtime_op" where
  "rt_return x s = (Inr x, s)"

definition rt_raise :: "runtime_error \<Rightarrow> ('w, 'a) runtime_op" where
  "rt_raise e s = (Inl e, s)"

definition rt_modify :: "(tnc_runtime \<Rightarrow> tnc_runtime) \<Rightarrow> ('w, unit) runtime_op" where
  "rt_modify f = (\<lambda>(rt, w). (Inr (), f rt, w))"

definition rt_world :: "('w \<Rightarrow> 'a \<times> 'w) \<Rightarrow> ('w, 'a) runtime_op" where
  "rt_world m = (\<lambda>(rt, w). let (x, w) = m w in (Inr x, rt, w))"

definition rt_owner :: "('w, 'a) operation \<Rightarrow> ('w, 'a) runtime_op" where
  "rt_owner m = (\<lambda>(rt, w). case m w of (Inl e, w) \<Rightarrow> (Inl (OwnerFailed e), rt, w) | (Inr x, w) \<Rightarrow> (Inr x, rt, w))"

definition record_status_check :: "('w, unit) runtime_op" where
  "record_status_check = rt_modify (\<lambda>rt. rt\<lparr>rt_status_checks := rt_status_checks rt + 1\<rparr>)"

definition require_active_status :: "rx3_status \<Rightarrow> ('w, unit) runtime_op" where
  "require_active_status status =
     (if rx_flags status \<noteq> ACTIVE_RX_FLAGS then rt_raise RXFlagsChanged
      else if rx_dropped_bytes status \<noteq> 0 then rt_raise RXFifoDropped
      else rt_return ())"

definition packet_event_of :: "bytes \<Rightarrow> parsed_frame \<Rightarrow> packet_event" where
  "packet_event_of frame parsed =
     \<lparr>pe_frame_no_fcs = take (length frame - 2) frame, pe_source = address_str (pf_source parsed),
      pe_destination = address_str (pf_destination parsed), pe_frame_type = pf_frame_type parsed\<rparr>"

definition runtime_publish :: "('w, 'r) runtime_env \<Rightarrow> streaming_frame \<Rightarrow> ('w, unit) runtime_op" where
  "runtime_publish env item = (\<lambda>(rt, w).
     case parse_frame (sf_frame item) True of
       Inl e \<Rightarrow> (Inl (PublishFailed e), rt, w)
     | Inr parsed \<Rightarrow>
         (Inr (), rt\<lparr>rt_decoded_frames := rt_decoded_frames rt + 1\<rparr>,
          re_publish env (packet_event_of (sf_frame item) parsed) w))"

fun publish_items :: "('w, 'r) runtime_env \<Rightarrow> streaming_frame list \<Rightarrow> ('w, unit) runtime_op" where
  "publish_items env [] = rt_return ()"
| "publish_items env (item # items) = rt_bind (runtime_publish env item) (\<lambda>_. publish_items env items)"

definition runtime_consume :: "(12 word \<Rightarrow> real) \<Rightarrow> ('w, 'r) runtime_env \<Rightarrow> bytes \<Rightarrow> ('w, unit) runtime_op" where
  "runtime_consume table env packed = (\<lambda>(rt, w).
     let (fresh, decoder) = rx_feed table packed (rt_decoder rt)
     in publish_items env fresh
          (rt\<lparr>rt_decoder := decoder, rt_packed_bytes := rt_packed_bytes rt + length packed\<rparr>, w))"

text \<open>
  One round of \<open>_drain_rx_fifo\<close>: read, count, consume; whether the read was a partial one. Then its
  loop, with the rounds that are left.
\<close>

definition drain_round :: "(12 word \<Rightarrow> real) \<Rightarrow> ('w, 'r) runtime_env \<Rightarrow> ('w, bool) runtime_op" where
  "drain_round table env s =
     rt_bind (rt_owner (mp_rx_read (re_owner env) (rt_read_maximum (fst s)) None)) (\<lambda>chunk.
     rt_bind (rt_modify (\<lambda>rt. rt\<lparr>rt_rx_reads := rt_rx_reads rt + 1\<rparr>)) (\<lambda>_.
     rt_bind (if chunk = [] then rt_return () else runtime_consume table env chunk) (\<lambda>_ s.
       rt_return (int (length chunk) < rt_read_maximum (fst s)) s))) s"

fun drain_rx_loop :: "(12 word \<Rightarrow> real) \<Rightarrow> ('w, 'r) runtime_env \<Rightarrow> nat \<Rightarrow> ('w, unit) runtime_op" where
  "drain_rx_loop table env 0 s = rt_return () s"
| "drain_rx_loop table env (Suc n) s =
     (if rt_stop (fst s) then rt_return () s
      else rt_bind (drain_round table env)
        (\<lambda>overtaken. if overtaken then rt_return () else drain_rx_loop table env n) s)"

definition drain_rx_fifo :: "(12 word \<Rightarrow> real) \<Rightarrow> ('w, 'r) runtime_env \<Rightarrow> ('w, unit) runtime_op" where
  "drain_rx_fifo table env = drain_rx_loop table env RX_FIFO_DRAIN_READ_LIMIT"

definition checked_status :: "('w, 'r) runtime_env \<Rightarrow> seconds option \<Rightarrow> ('w, unit) runtime_op" where
  "checked_status env timeout =
     rt_bind (rt_owner (mp_rx_status (re_owner env) timeout)) (\<lambda>status.
     rt_bind record_status_check (\<lambda>_. require_active_status status))"

definition status_due :: "('w, 'r) runtime_env \<Rightarrow> seconds \<Rightarrow> ('w, unit) runtime_op" where
  "status_due env now s =
     (if rt_next_status (fst s) \<le> now then
        rt_bind (checked_status env None)
          (\<lambda>_. rt_modify (\<lambda>rt. rt\<lparr>rt_next_status := now + rt_status_interval_seconds rt\<rparr>)) s
      else rt_return () s)"

definition after_dispatch :: "('w, 'r) runtime_env \<Rightarrow> ('w, unit) runtime_op" where
  "after_dispatch env =
     rt_bind (rt_modify (\<lambda>rt. rt\<lparr>rt_decoder := new_decoder, rt_tx_dispatches := rt_tx_dispatches rt + 1,
       rt_decoder_resets := rt_decoder_resets rt + 1\<rparr>)) (\<lambda>_.
     rt_bind (checked_status env None) (\<lambda>_.
     rt_bind (rt_world (re_monotonic env)) (\<lambda>t.
       rt_modify (\<lambda>rt. rt\<lparr>rt_next_status := t + rt_status_interval_seconds rt\<rparr>))))"

definition act_on_observation :: "('w, 'r) runtime_env \<Rightarrow> 'r kq_observation \<Rightarrow> ('w, unit) runtime_op" where
  "act_on_observation env observation =
     (if ko_request_state observation = Some KR_TIMED_OUT then
        rt_modify (\<lambda>rt. rt\<lparr>rt_access_timeouts := rt_access_timeouts rt + 1\<rparr>)
      else if ko_request_state observation = Some KR_DOWNSTREAM_FAILED then
        rt_raise (DownstreamFailed (ko_downstream_error observation))
      else if ko_request_state observation = Some KR_DISPATCHED \<and> ko_downstream_called observation then after_dispatch env
      else rt_return ())"

definition rt_observe :: "('w, 'r) runtime_env \<Rightarrow> seconds \<Rightarrow> int \<Rightarrow> ('w, 'r kq_observation) runtime_op" where
  "rt_observe env now raw_magnitude = (\<lambda>(rt, w).
     case re_observe_rssi env now raw_magnitude w of
       (Inl e, w) \<Rightarrow> (Inl (AdmissionFailed e), rt, w)
     | (Inr observation, w) \<Rightarrow> (Inr observation, rt, w))"

definition serve_queue :: "('w, 'r) runtime_env \<Rightarrow> seconds \<Rightarrow> ('w, unit) runtime_op" where
  "serve_queue env now s =
     (if re_queue_depth env (snd s) \<noteq> 0 then
        rt_bind (rt_owner (mp_rx_rssi (re_owner env) None)) (\<lambda>rssi.
        rt_bind (rt_modify (\<lambda>rt. rt\<lparr>rt_rssi_samples := rt_rssi_samples rt + 1\<rparr>)) (\<lambda>_.
        rt_bind (rt_observe env now (rssi_raw_magnitude rssi)) (act_on_observation env))) s
      else rt_return () s)"

definition idle_wait :: "('w, 'r) runtime_env \<Rightarrow> ('w, unit) runtime_op" where
  "idle_wait env = (\<lambda>(rt, w).
     (Inr (), rt, if rt_idle_sleep_seconds rt \<noteq> 0 \<and> \<not> rt_stop rt then re_wait env (rt_idle_sleep_seconds rt) w else w))"

text \<open>The body of the loop of \<open>_run\<close>.\<close>

definition runtime_iteration :: "(12 word \<Rightarrow> real) \<Rightarrow> ('w, 'r) runtime_env \<Rightarrow> ('w, unit) runtime_op" where
  "runtime_iteration table env =
     rt_bind (drain_rx_fifo table env) (\<lambda>_.
     rt_bind (rt_world (re_monotonic env)) (\<lambda>now.
     rt_bind (status_due env now) (\<lambda>_.
     rt_bind (serve_queue env now) (\<lambda>_. idle_wait env))))"

text \<open>One step of the worker: the test of the loop, the body, and the handler that latches a failure.\<close>

definition runtime_step :: "(12 word \<Rightarrow> real) \<Rightarrow> ('w, 'r) runtime_env \<Rightarrow> tnc_runtime \<times> 'w \<Rightarrow> tnc_runtime \<times> 'w" where
  "runtime_step table env s =
     (if \<not> rt_alive (fst s) then s
      else if rt_stop (fst s) then ((fst s)\<lparr>rt_alive := False\<rparr>, snd s)
      else
        (case runtime_iteration table env s of
           (Inr _, s) \<Rightarrow> s
         | (Inl e, rt, w) \<Rightarrow> (rt\<lparr>rt_failure := Some e, rt_stop := True, rt_alive := False\<rparr>, w)))"

subsection \<open>Model: life cycle\<close>

definition check_health :: "tnc_runtime \<Rightarrow> (runtime_error, unit) result" where
  "check_health rt = (case rt_failure rt of None \<Rightarrow> Inr () | Some e \<Rightarrow> Inl (RuntimeFailed e))"

definition runtime_start :: "('w, 'r) runtime_env \<Rightarrow> seconds \<Rightarrow> ('w, unit) runtime_op" where
  "runtime_start env timeout s =
     (if timeout \<le> 0 then (Inl RuntimeTimeoutNotPositive, s)
      else if rt_started (fst s) then (Inl RuntimeRestart, s)
      else
        rt_bind (rt_modify (\<lambda>rt. rt\<lparr>rt_started := True\<rparr>)) (\<lambda>_.
        rt_bind (rt_owner (mp_get_version (re_owner env) (Some timeout))) (\<lambda>version s.
          if vr_identity version \<noteq> rt_expected_identity (fst s) then rt_raise IdentityMismatch s
          else
            rt_bind (checked_status env (Some timeout)) (\<lambda>_.
            rt_bind (rt_modify (\<lambda>rt. rt\<lparr>rt_identity := vr_identity version, rt_stop := False, rt_alive := True\<rparr>)) (\<lambda>_.
            rt_bind (rt_world (re_monotonic env)) (\<lambda>t.
              rt_modify (\<lambda>rt. rt\<lparr>rt_next_status := t + rt_status_interval_seconds rt\<rparr>)))) s)) s)"

text \<open>\<open>stop\<close>, with the worker's last test of its loop while \<open>stop\<close> waits for it.\<close>

definition runtime_stop :: "(12 word \<Rightarrow> real) \<Rightarrow> ('w, 'r) runtime_env \<Rightarrow> seconds \<Rightarrow> ('w, unit) runtime_op" where
  "runtime_stop table env timeout s =
     (if timeout \<le> 0 then (Inl RuntimeTimeoutNotPositive, s)
      else
        (let s = runtime_step table env ((fst s)\<lparr>rt_stop := True\<rparr>, snd s)
         in if rt_alive (fst s) then (Inl WorkerTimeout, s) else (check_health (fst s), s)))"

record runtime_counters =
  rc_running :: bool
  rc_identity :: string
  rc_rx_read_transactions :: nat
  rc_packed_rx_bytes :: nat
  rc_decoded_rx_frames :: nat
  rc_rx_status_checks :: nat
  rc_rssi_samples :: nat
  rc_tx_dispatches :: nat
  rc_access_timeouts :: nat
  rc_decoder_resets_after_tx :: nat
  rc_failure :: "runtime_error option"

definition runtime_counters_of :: "tnc_runtime \<Rightarrow> runtime_counters" where
  "runtime_counters_of rt =
     \<lparr>rc_running = (rt_alive rt \<and> \<not> rt_stop rt), rc_identity = rt_identity rt,
      rc_rx_read_transactions = rt_rx_reads rt, rc_packed_rx_bytes = rt_packed_bytes rt,
      rc_decoded_rx_frames = rt_decoded_frames rt, rc_rx_status_checks = rt_status_checks rt,
      rc_rssi_samples = rt_rssi_samples rt, rc_tx_dispatches = rt_tx_dispatches rt,
      rc_access_timeouts = rt_access_timeouts rt, rc_decoder_resets_after_tx = rt_decoder_resets rt,
      rc_failure = rt_failure rt\<rparr>"


subsection \<open>What the worker keeps\<close>

text \<open>An operation keeps a property of the state and raises only exceptions of a given kind.\<close>

definition rt_keeps :: "(tnc_runtime \<times> 'w \<Rightarrow> bool) \<Rightarrow> (runtime_error \<Rightarrow> bool) \<Rightarrow> ('w, 'a) runtime_op \<Rightarrow> bool" where
  "rt_keeps kept ok m \<longleftrightarrow> (\<forall>s. kept s \<longrightarrow> kept (snd (m s)) \<and> (\<forall>e. fst (m s) = Inl e \<longrightarrow> ok e))"

lemma rt_bind_modify [simp]: "rt_bind (rt_modify f) g (rt, w) = g () (f rt, w)"
  by (simp add: rt_bind_def rt_modify_def)

lemma rt_keepsI:
  "(\<And>rt w r rt' w'. kept (rt, w) \<Longrightarrow> m (rt, w) = (r, rt', w') \<Longrightarrow> kept (rt', w') \<and> (\<forall>e. r = Inl e \<longrightarrow> ok e)) \<Longrightarrow> rt_keeps kept ok m"
  unfolding rt_keeps_def by (metis prod.collapse)

lemma rt_keepsD: "rt_keeps kept ok m \<Longrightarrow> kept s \<Longrightarrow> kept (snd (m s)) \<and> (\<forall>e. fst (m s) = Inl e \<longrightarrow> ok e)"
  unfolding rt_keeps_def by blast

lemma rt_keeps_bind:
  assumes "rt_keeps kept ok m" "\<And>x. rt_keeps kept ok (f x)"
  shows "rt_keeps kept ok (rt_bind m f)"
  unfolding rt_keeps_def
proof (intro allI impI)
  fix s assume "kept s"
  obtain r s1 where m: "m s = (r, s1)" by (rule prod.exhaust)
  with rt_keepsD [OF assms(1) \<open>kept s\<close>] have "kept s1" "\<forall>e. r = Inl e \<longrightarrow> ok e" by simp_all
  with rt_keepsD [OF assms(2)] m show "kept (snd (rt_bind m f s)) \<and> (\<forall>e. fst (rt_bind m f s) = Inl e \<longrightarrow> ok e)"
    by (cases r) (simp_all add: rt_bind_def)
qed

lemma rt_keeps_return [simp]: "rt_keeps kept ok (rt_return x)"
  by (simp add: rt_keeps_def rt_return_def)

lemma rt_keeps_raise: "ok e \<Longrightarrow> rt_keeps kept ok (rt_raise e)"
  by (simp add: rt_keeps_def rt_raise_def)

lemma rt_keeps_modify: "(\<And>rt w. kept (rt, w) \<Longrightarrow> kept (f rt, w)) \<Longrightarrow> rt_keeps kept ok (rt_modify f)"
  by (auto simp: rt_keeps_def rt_modify_def)

lemma rt_keeps_test: "rt_keeps kept ok m \<Longrightarrow> rt_keeps kept ok m' \<Longrightarrow> rt_keeps kept ok (\<lambda>s. if test s then m s else m' s)"
  unfolding rt_keeps_def by simp

lemma rt_keeps_cong: "(\<And>s. kept s \<Longrightarrow> m s = m' s \<or> m s = m'' s) \<Longrightarrow> rt_keeps kept ok m' \<Longrightarrow> rt_keeps kept ok m'' \<Longrightarrow> rt_keeps kept ok m"
  unfolding rt_keeps_def by metis

text \<open>
  The contract between the worker and what it is used for: whatever is kept by a round of reading,
  by a status check, by an observation and by the book-keeping around them is kept by the worker.
\<close>

locale runtime_invariant =
  fixes table :: "12 word \<Rightarrow> real"
    and env :: "('w, 'r) runtime_env"
    and inv :: "tnc_runtime \<times> 'w \<Rightarrow> bool"
    and ok :: "runtime_error \<Rightarrow> bool"
  assumes round_kept: "rt_keeps inv ok (drain_round table env)"
    and status_kept: "rt_keeps inv ok (checked_status env None)"
    and clock_kept: "rt_keeps inv ok (rt_world (re_monotonic env))"
    and rssi_kept: "rt_keeps inv ok (rt_owner (mp_rx_rssi (re_owner env) None))"
    and observe_kept: "rt_keeps inv ok (rt_bind (rt_modify (\<lambda>rt. rt\<lparr>rt_rssi_samples := rt_rssi_samples rt + 1\<rparr>))
      (\<lambda>_. rt_bind (rt_observe env now raw) (act_on_observation env)))"
    and wait_kept: "inv (rt, w) \<Longrightarrow> inv (rt, re_wait env t w)"
    and next_status_kept: "inv (rt, w) \<Longrightarrow> inv (rt\<lparr>rt_next_status := t\<rparr>, w)"
    and exit_kept: "inv (rt, w) \<Longrightarrow> inv (rt\<lparr>rt_alive := False\<rparr>, w)"
    and failure_kept: "inv (rt, w) \<Longrightarrow> ok e \<Longrightarrow> inv (rt\<lparr>rt_failure := Some e, rt_stop := True, rt_alive := False\<rparr>, w)"
begin

lemma drain_kept: "rt_keeps inv ok (drain_rx_loop table env n)"
proof (induction n)
  case 0
  show ?case by (rule rt_keeps_cong [of _ _ "rt_return ()" "rt_return ()"]) simp_all
next
  case (Suc n)
  have "rt_keeps inv ok (rt_bind (drain_round table env) (\<lambda>overtaken. if overtaken then rt_return () else drain_rx_loop table env n))"
    using Suc by (intro rt_keeps_bind round_kept) simp
  then show ?case by (rule rt_keeps_cong [of _ _ "rt_return ()", rotated 2]) simp_all
qed

lemma status_due_kept: "rt_keeps inv ok (status_due env now)"
proof -
  have "rt_keeps inv ok (rt_bind (checked_status env None) (\<lambda>_. rt_modify (\<lambda>rt. rt\<lparr>rt_next_status := now + rt_status_interval_seconds rt\<rparr>)))"
    by (intro rt_keeps_bind status_kept rt_keeps_modify next_status_kept)
  then show ?thesis by (rule rt_keeps_cong [of _ _ "rt_return ()", rotated 2]) (simp_all add: status_due_def)
qed

lemma serve_queue_kept: "rt_keeps inv ok (serve_queue env now)"
proof -
  have "rt_keeps inv ok (rt_bind (rt_owner (mp_rx_rssi (re_owner env) None)) (\<lambda>rssi.
      rt_bind (rt_modify (\<lambda>rt. rt\<lparr>rt_rssi_samples := rt_rssi_samples rt + 1\<rparr>)) (\<lambda>_.
      rt_bind (rt_observe env now (rssi_raw_magnitude rssi)) (act_on_observation env))))"
    by (rule rt_keeps_bind [OF rssi_kept], rule observe_kept)
  then show ?thesis by (rule rt_keeps_cong [of _ _ "rt_return ()", rotated 2]) (simp_all add: serve_queue_def)
qed

lemma iteration_kept: "rt_keeps inv ok (runtime_iteration table env)"
proof -
  have "rt_keeps inv ok (idle_wait env)" by (simp add: rt_keeps_def idle_wait_def wait_kept)
  then show ?thesis
    unfolding runtime_iteration_def drain_rx_fifo_def
    by (intro rt_keeps_bind drain_kept clock_kept status_due_kept serve_queue_kept)
qed

lemma step_kept: "inv s \<Longrightarrow> inv (runtime_step table env s)"
  using rt_keepsD [OF iteration_kept, of s]
  by (cases s) (auto simp: runtime_step_def exit_kept failure_kept split: prod.splits sum.splits)

lemma steps_kept: "inv s \<Longrightarrow> inv ((runtime_step table env ^^ n) s)"
  by (induction n) (simp_all add: step_kept)

end

subsection \<open>Received frames are published\<close>

text \<open>An environment that also logs the octets read and the events published.\<close>

definition tapped :: "('w, 'r) runtime_env \<Rightarrow> ('w \<times> bytes list \<times> packet_event list, 'r) runtime_env" where
  "tapped env =
     \<lparr>re_owner =
        \<lparr>mp_snapshot = (\<lambda>(w, _). mp_snapshot (re_owner env) w),
         mp_get_version = (\<lambda>t (w, l). let (r, w) = mp_get_version (re_owner env) t w in (r, (w, l))),
         mp_set_rx_frequency = (\<lambda>f t (w, l). let (r, w) = mp_set_rx_frequency (re_owner env) f t w in (r, (w, l))),
         mp_arm_rx_modem_io = (\<lambda>t (w, l). let (r, w) = mp_arm_rx_modem_io (re_owner env) t w in (r, (w, l))),
         mp_rx_read = (\<lambda>n t (w, cs, ps). let (r, w) = mp_rx_read (re_owner env) n t w
           in (r, (w, (case r of Inl _ \<Rightarrow> cs | Inr chunk \<Rightarrow> cs @ [chunk]), ps))),
         mp_rx_status = (\<lambda>t (w, l). let (r, w) = mp_rx_status (re_owner env) t w in (r, (w, l))),
         mp_rx_start = (\<lambda>t (w, l). let (r, w) = mp_rx_start (re_owner env) t w in (r, (w, l))),
         mp_rx_stop = (\<lambda>t (w, l). let (r, w) = mp_rx_stop (re_owner env) t w in (r, (w, l))),
         mp_rx_rssi = (\<lambda>t (w, l). let (r, w) = mp_rx_rssi (re_owner env) t w in (r, (w, l))),
         mp_rf_status = (\<lambda>t (w, l). let (r, w) = mp_rf_status (re_owner env) t w in (r, (w, l))),
         mp_rf_diagnostics = (\<lambda>t (w, l). let (r, w) = mp_rf_diagnostics (re_owner env) t w in (r, (w, l))),
         mp_transmit_selector_burst =
           (\<lambda>n p t (w, l). let (r, w) = mp_transmit_selector_burst (re_owner env) n p t w in (r, (w, l)))\<rparr>,
      re_publish = (\<lambda>event (w, cs, ps). (re_publish env event w, cs, ps @ [event])),
      re_queue_depth = (\<lambda>(w, _). re_queue_depth env w),
      re_observe_rssi = (\<lambda>now raw (w, l). let (r, w) = re_observe_rssi env now raw w in (r, (w, l))),
      re_monotonic = (\<lambda>(w, l). let (t, w) = re_monotonic env w in (t, (w, l))),
      re_wait = (\<lambda>t (w, l). (re_wait env t w, l))\<rparr>"

text \<open>
  Since a moment with \<open>resets\<close> resets and \<open>frames\<close> frames counted, when the decoder was new and the log
  empty: the decoder is what the octets read since the last reset make of a new one, and every frame it
  has on record was published since then.
\<close>

definition reception_logged ::
  "(12 word \<Rightarrow> real) \<Rightarrow> nat \<Rightarrow> nat \<Rightarrow> tnc_runtime \<times> 'w \<times> bytes list \<times> packet_event list \<Rightarrow> bool" where
  "reception_logged table resets frames = (\<lambda>(rt, w, cs, ps).
     (\<exists>cs0 cs1 ps0 ps1. cs = cs0 @ cs1 \<and> ps = ps0 @ ps1 \<and> (rt_decoder_resets rt = resets \<longrightarrow> cs0 = [] \<and> ps0 = []) \<and>
        rt_decoder rt = rx_run table new_decoder cs1 \<and>
        (\<forall>frame \<in> heard (rt_decoder rt, []). \<exists>event \<in> set ps1. pe_frame_no_fcs event = take (length frame - 2) frame)) \<and>
     resets \<le> rt_decoder_resets rt \<and> rt_decoded_frames rt = frames + length ps \<and> (\<forall>e. rt_failure rt \<noteq> Some (PublishFailed e)))"

lemma reception_loggedI:
  assumes "cs = cs0 @ cs1" "ps = ps0 @ ps1" "rt_decoder_resets rt = resets \<longrightarrow> cs0 = [] \<and> ps0 = []"
    and "rt_decoder rt = rx_run table new_decoder cs1"
    and "\<forall>frame \<in> heard (rt_decoder rt, []). \<exists>event \<in> set ps1. pe_frame_no_fcs event = take (length frame - 2) frame"
    and "resets \<le> rt_decoder_resets rt" "rt_decoded_frames rt = frames + length ps" "\<forall>e. rt_failure rt \<noteq> Some (PublishFailed e)"
  shows "reception_logged table resets frames (rt, w, cs, ps)"
  unfolding reception_logged_def prod.case
  by (intro conjI exI [of _ cs0] exI [of _ cs1] exI [of _ ps0] exI [of _ ps1] assms)

lemma reception_loggedE:
  assumes "reception_logged table resets frames (rt, w, cs, ps)"
  obtains cs0 cs1 ps0 ps1 where "cs = cs0 @ cs1" "ps = ps0 @ ps1" "rt_decoder_resets rt = resets \<longrightarrow> cs0 = [] \<and> ps0 = []"
    "rt_decoder rt = rx_run table new_decoder cs1"
    "\<forall>frame \<in> heard (rt_decoder rt, []). \<exists>event \<in> set ps1. pe_frame_no_fcs event = take (length frame - 2) frame"
    "resets \<le> rt_decoder_resets rt" "rt_decoded_frames rt = frames + length ps" "\<forall>e. rt_failure rt \<noteq> Some (PublishFailed e)"
  using assms unfolding reception_logged_def prod.case by (elim conjE exE) (rule that)

lemma decoder_init_fields:
  "decoder_init bauds phases = Inr d \<Longrightarrow>
     dc_occurrences d = [] \<and> dc_hypotheses d = concat (map (\<lambda>baud. map (hypothesis_init baud) phases) bauds)"
  by (auto simp: decoder_init_def Let_def split: if_splits)

lemma default_decoder: "decoder_init DEFAULT_BAUDS DEFAULT_PHASES = Inr new_decoder"
proof -
  have "DEFAULT_BAUDS \<noteq> []" "DEFAULT_PHASES \<noteq> []" "\<not> list_ex (\<lambda>baud. baud \<le> 0) DEFAULT_BAUDS"
    by (auto simp: DEFAULT_BAUDS_def DEFAULT_PHASES_def list_ex_iff)
  then show ?thesis by (simp add: new_decoder_def decoder_init_def Let_def)
qed

lemma default_hypotheses:
  assumes "h \<in> set (dc_hypotheses new_decoder)"
  shows "15 \<le> hy_period h \<and> hy_period h \<le> 200 \<and> 0 \<le> hy_phase h"
proof -
  obtain b p where h: "h = hypothesis_init b p" "b \<in> set DEFAULT_BAUDS" "p \<in> set DEFAULT_PHASES"
    using assms decoder_init_fields [OF default_decoder] by auto
  then have "1196 \<le> b" "b \<le> 1204" "0 \<le> p" by (auto simp: DEFAULT_BAUDS_def DEFAULT_PHASES_def)
  then show ?thesis by (simp add: h hypothesis_init_def SAMPLE_RATE_def field_simps)
qed

lemma frames_valid_new: "frames_valid (rx_run table new_decoder cs, [])"
proof -
  show ?thesis using decoder_init_fields [OF default_decoder] by (intro frames_valid_run) (simp add: frames_valid_def)
qed

lemma heard_feed:
  assumes "rx_feed table packed d = (fresh, d')"
  shows "heard (d', []) \<subseteq> heard (d, []) \<union> sf_frame ` set fresh"
proof -
  let ?d = "d\<lparr>dc_packed_bytes := dc_packed_bytes d + length packed\<rparr>"
  obtain d2 f2 where f: "fold (feed_sample table) (samples_of_bytes packed) (?d, []) = (d2, f2)" by (rule prod.exhaust)
  have "heard (d2, f2) \<subseteq> heard (d, []) \<union> sf_frame ` set f2"
    using fresh_fold [of "(?d, [])" "heard (d, [])" table "samples_of_bytes packed"] f by (simp add: heard_def)
  with assms f show ?thesis by (auto simp: rx_feed_eq heard_def)
qed

lemma publish_items_tapped:
  assumes "\<forall>item \<in> set items. air_frame (sf_frame item)"
  shows "\<exists>qs. publish_items (tapped env) items (rt, w, cs, ps) =
    (Inr (), rt\<lparr>rt_decoded_frames := rt_decoded_frames rt + length items\<rparr>, fold (re_publish env) qs w, cs, ps @ qs) \<and>
    map pe_frame_no_fcs qs = map (\<lambda>item. take (length (sf_frame item) - 2) (sf_frame item)) items"
  using assms
proof (induction items arbitrary: rt w ps)
  case Nil
  then show ?case by (simp add: rt_return_def)
next
  case (Cons item items)
  then obtain parsed where p: "parse_frame (sf_frame item) True = Inr parsed" by (auto simp: air_frame_def)
  let ?e = "packet_event_of (sf_frame item) parsed"
  let ?rt = "rt\<lparr>rt_decoded_frames := rt_decoded_frames rt + 1\<rparr>"
  have one: "runtime_publish (tapped env) item (rt, w, cs, ps) = (Inr (), ?rt, re_publish env ?e w, cs, ps @ [?e])"
    by (simp add: runtime_publish_def p tapped_def)
  obtain qs where "publish_items (tapped env) items (?rt, re_publish env ?e w, cs, ps @ [?e]) =
      (Inr (), ?rt\<lparr>rt_decoded_frames := rt_decoded_frames ?rt + length items\<rparr>, fold (re_publish env) qs (re_publish env ?e w), cs, (ps @ [?e]) @ qs)"
    "map pe_frame_no_fcs qs = map (\<lambda>item. take (length (sf_frame item) - 2) (sf_frame item)) items"
    using Cons.IH [of ?rt "re_publish env ?e w" "ps @ [?e]"] Cons.prems by auto
  with one show ?case
    by (intro exI [of _ "?e # qs"]) (simp add: rt_bind_def packet_event_of_def)
qed

lemma rx_run_snoc: "rx_run table d (cs @ [c]) = snd (rx_feed table c (rx_run table d cs))"
  by (simp add: rx_run_def run_append)

lemma rx_feed_Nil: "rx_feed table [] d = ([], d)"
  by (simp add: rx_feed_def)

lemma rx_run_last_empty: "rx_run table d (cs @ [[]]) = rx_run table d cs"
  by (simp add: rx_run_snoc rx_feed_Nil)

text \<open>Consuming a read never fails, and logs what it adds to the decoder.\<close>

lemma consume_tapped:
  assumes "rt_decoder rt = rx_run table new_decoder cs1"
  shows "\<exists>qs. runtime_consume table (tapped env) chunk (rt, w, cs, ps) =
      (Inr (), rt\<lparr>rt_decoder := rx_run table new_decoder (cs1 @ [chunk]), rt_packed_bytes := rt_packed_bytes rt + length chunk,
         rt_decoded_frames := rt_decoded_frames rt + length qs\<rparr>, fold (re_publish env) qs w, cs, ps @ qs) \<and>
    (\<forall>frame \<in> heard (rx_run table new_decoder (cs1 @ [chunk]), []) - heard (rt_decoder rt, []).
       \<exists>event \<in> set qs. pe_frame_no_fcs event = take (length frame - 2) frame)"
proof -
  obtain fresh d where f: "rx_feed table chunk (rt_decoder rt) = (fresh, d)" by (rule prod.exhaust)
  have air: "\<forall>item \<in> set fresh. air_frame (sf_frame item)"
    using frames_valid_feed(1) [OF frames_valid_new, of table chunk table cs1] f assms by simp
  have d: "d = rx_run table new_decoder (cs1 @ [chunk])" using f assms by (simp add: rx_run_snoc)
  let ?rt = "rt\<lparr>rt_decoder := d, rt_packed_bytes := rt_packed_bytes rt + length chunk\<rparr>"
  obtain qs where p: "publish_items (tapped env) fresh (?rt, w, cs, ps) =
      (Inr (), ?rt\<lparr>rt_decoded_frames := rt_decoded_frames ?rt + length fresh\<rparr>, fold (re_publish env) qs w, cs, ps @ qs)"
    and qs: "map pe_frame_no_fcs qs = map (\<lambda>item. take (length (sf_frame item) - 2) (sf_frame item)) fresh"
    using publish_items_tapped [OF air, of env ?rt w cs ps] by blast
  have len: "length qs = length fresh" using arg_cong [OF qs, of length] by simp
  have "\<exists>event \<in> set qs. pe_frame_no_fcs event = take (length frame - 2) frame"
    if "frame \<in> heard (d, []) - heard (rt_decoder rt, [])" for frame
  proof -
    from that heard_feed [OF f] obtain item where "item \<in> set fresh" "sf_frame item = frame" by auto
    then have "take (length frame - 2) frame \<in> set (map pe_frame_no_fcs qs)" unfolding qs by auto
    then show ?thesis by auto
  qed
  with p len show ?thesis
    by (intro exI [of _ qs]) (simp add: runtime_consume_def f d)
qed

text \<open>A round that reads something.\<close>

lemma round_tapped:
  assumes "mp_rx_read (re_owner env) (rt_read_maximum rt) None w = (Inr chunk, w1)" "chunk \<noteq> []"
    and "rt_decoder rt = rx_run table new_decoder cs1"
  shows "\<exists>qs. drain_round table (tapped env) (rt, w, cs, ps) =
      (Inr (int (length chunk) < rt_read_maximum rt),
       rt\<lparr>rt_rx_reads := rt_rx_reads rt + 1, rt_decoder := rx_run table new_decoder (cs1 @ [chunk]),
         rt_packed_bytes := rt_packed_bytes rt + length chunk, rt_decoded_frames := rt_decoded_frames rt + length qs\<rparr>,
       fold (re_publish env) qs w1, cs @ [chunk], ps @ qs) \<and>
    (\<forall>frame \<in> heard (rx_run table new_decoder (cs1 @ [chunk]), []) - heard (rt_decoder rt, []).
       \<exists>event \<in> set qs. pe_frame_no_fcs event = take (length frame - 2) frame)"
proof -
  let ?rt = "rt\<lparr>rt_rx_reads := rt_rx_reads rt + 1\<rparr>"
  have "rt_decoder ?rt = rx_run table new_decoder cs1" using assms(3) by simp
  from consume_tapped [OF this, of env chunk w1 "cs @ [chunk]" ps] obtain qs where
    c: "runtime_consume table (tapped env) chunk (?rt, w1, cs @ [chunk], ps) =
      (Inr (), ?rt\<lparr>rt_decoder := rx_run table new_decoder (cs1 @ [chunk]), rt_packed_bytes := rt_packed_bytes ?rt + length chunk,
         rt_decoded_frames := rt_decoded_frames ?rt + length qs\<rparr>, fold (re_publish env) qs w1, cs @ [chunk], ps @ qs)"
    and new: "\<forall>frame \<in> heard (rx_run table new_decoder (cs1 @ [chunk]), []) - heard (rt_decoder ?rt, []).
      \<exists>event \<in> set qs. pe_frame_no_fcs event = take (length frame - 2) frame" by blast
  have "mp_rx_read (re_owner (tapped env)) (rt_read_maximum rt) None (w, cs, ps) = (Inr chunk, w1, cs @ [chunk], ps)"
    using assms(1) by (simp add: tapped_def)
  with c new assms(2) show ?thesis
    by (intro exI [of _ qs]) (simp add: drain_round_def rt_bind_def rt_owner_def rt_modify_def rt_return_def)
qed

abbreviation "not_publish_error e \<equiv> (\<forall>p. e \<noteq> PublishFailed p)"

lemma logged_cong:
  "reception_logged table resets frames (rt, w, cs, ps) \<Longrightarrow> rt_decoder rt' = rt_decoder rt \<Longrightarrow> rt_decoder_resets rt' = rt_decoder_resets rt \<Longrightarrow>
     rt_decoded_frames rt' = rt_decoded_frames rt \<Longrightarrow> (\<And>e. rt_failure rt' = Some (PublishFailed e) \<Longrightarrow> rt_failure rt = rt_failure rt') \<Longrightarrow>
     reception_logged table resets frames (rt', w', cs, ps)"
  unfolding reception_logged_def prod.case by metis

lemma round_logged: "rt_keeps (reception_logged table resets frames) not_publish_error (drain_round table (tapped env))"
proof (rule rt_keepsI)
  fix rt r rt' w'
  fix w :: "'a \<times> bytes list \<times> packet_event list"
  assume inv: "reception_logged table resets frames (rt, w)" and step: "drain_round table (tapped env) (rt, w) = (r, rt', w')"
  obtain w0 cs ps where w: "w = (w0, cs, ps)" by (rule prod_cases3)
  obtain cs0 cs1 ps0 ps1 where log: "cs = cs0 @ cs1" "ps = ps0 @ ps1" "rt_decoder_resets rt = resets \<longrightarrow> cs0 = [] \<and> ps0 = []"
    and dec: "rt_decoder rt = rx_run table new_decoder cs1"
    and pub: "\<forall>frame \<in> heard (rt_decoder rt, []). \<exists>event \<in> set ps1. pe_frame_no_fcs event = take (length frame - 2) frame"
    and rest: "resets \<le> rt_decoder_resets rt" "rt_decoded_frames rt = frames + length ps" "\<forall>e. rt_failure rt \<noteq> Some (PublishFailed e)"
    using inv unfolding w by (rule reception_loggedE)
  obtain r0 w1 where read: "mp_rx_read (re_owner env) (rt_read_maximum rt) None w0 = (r0, w1)" by (rule prod.exhaust)
  let ?rt = "rt\<lparr>rt_rx_reads := rt_rx_reads rt + 1\<rparr>"
  show "reception_logged table resets frames (rt', w') \<and> (\<forall>e. r = Inl e \<longrightarrow> not_publish_error e)"
  proof (cases r0)
    case (Inl e)
    with step inv read w show ?thesis
      by (auto simp: drain_round_def rt_bind_def rt_owner_def tapped_def elim!: logged_cong)
  next
    case (Inr chunk)
    show ?thesis
    proof (cases "chunk = []")
      case True
      then have res: "r = Inr (0 < rt_read_maximum rt)" "rt' = ?rt" "w' = (w1, cs @ [[]], ps)"
        using step Inr read w by (auto simp: drain_round_def rt_bind_def rt_owner_def tapped_def rt_modify_def rt_return_def)
      have "cs @ [[]] = cs0 @ (cs1 @ [[]])" "rt_decoder ?rt = rx_run table new_decoder (cs1 @ [[]])"
        using log dec by (simp_all add: rx_run_last_empty)
      then have "reception_logged table resets frames (?rt, w1, cs @ [[]], ps)"
        using log(2,3) pub rest by (intro reception_loggedI [of _ cs0 "cs1 @ [[]]" _ ps0 ps1]) simp_all
      with res show ?thesis by simp
    next
      case False
      let ?run = "\<lambda>qs. ?rt\<lparr>rt_decoder := rx_run table new_decoder (cs1 @ [chunk]), rt_packed_bytes := rt_packed_bytes rt + length chunk,
         rt_decoded_frames := rt_decoded_frames rt + length qs\<rparr>"
      from round_tapped [OF read [unfolded Inr] False dec, of cs ps] obtain qs where
        res: "drain_round table (tapped env) (rt, w) = (Inr (int (length chunk) < rt_read_maximum rt), ?run qs,
          fold (re_publish env) qs w1, cs @ [chunk], ps @ qs)"
        and new: "\<forall>frame \<in> heard (rx_run table new_decoder (cs1 @ [chunk]), []) - heard (rt_decoder rt, []).
          \<exists>event \<in> set qs. pe_frame_no_fcs event = take (length frame - 2) frame" unfolding w by blast
      let ?rt' = "?run qs"
      have "\<exists>event \<in> set (ps1 @ qs). pe_frame_no_fcs event = take (length frame - 2) frame"
        if "frame \<in> heard (rt_decoder ?rt', [])" for frame
        using that pub new by auto
      moreover have "cs @ [chunk] = cs0 @ (cs1 @ [chunk])" "ps @ qs = ps0 @ (ps1 @ qs)" using log by simp_all
      ultimately have "reception_logged table resets frames (?rt', fold (re_publish env) qs w1, cs @ [chunk], ps @ qs)"
        using log(3) rest by (intro reception_loggedI [of _ cs0 "cs1 @ [chunk]" _ ps0 "ps1 @ qs"]) simp_all
      with res step show ?thesis by simp
    qed
  qed
qed

lemma logged_reset:
  assumes "reception_logged table resets frames (rt, w, cs, ps)"
  shows "reception_logged table resets frames
    (rt\<lparr>rt_decoder := new_decoder, rt_tx_dispatches := m, rt_decoder_resets := rt_decoder_resets rt + 1\<rparr>, w', cs, ps)"
  using assms
proof (rule reception_loggedE)
  assume "resets \<le> rt_decoder_resets rt" "rt_decoded_frames rt = frames + length ps" "\<forall>e. rt_failure rt \<noteq> Some (PublishFailed e)"
  with decoder_init_fields [OF default_decoder] show ?thesis
    by (intro reception_loggedI [of _ cs "[]" _ ps "[]"]) (simp_all add: rx_run_def heard_def)
qed

lemma logged_status: "rt_keeps (reception_logged table resets frames) not_publish_error (checked_status (tapped env) timeout)"
  by (rule rt_keepsI)
    (auto simp: checked_status_def rt_bind_def rt_owner_def record_status_check_def rt_modify_def require_active_status_def
      rt_raise_def rt_return_def tapped_def split: prod.splits sum.splits if_splits elim!: logged_cong)

lemma logged_clock: "rt_keeps (reception_logged table resets frames) not_publish_error (rt_world (re_monotonic (tapped env)))"
  by (rule rt_keepsI) (auto simp: rt_world_def tapped_def split: prod.splits elim!: logged_cong)

lemma logged_modify:
  "(\<And>rt. rt_decoder (f rt) = rt_decoder rt \<and> rt_decoder_resets (f rt) = rt_decoder_resets rt \<and>
     rt_decoded_frames (f rt) = rt_decoded_frames rt \<and> rt_failure (f rt) = rt_failure rt) \<Longrightarrow>
   rt_keeps (reception_logged table resets frames) not_publish_error (rt_modify f)"
  by (intro rt_keeps_modify) (auto elim!: logged_cong)

lemma logged_after_dispatch: "rt_keeps (reception_logged table resets frames) not_publish_error (after_dispatch (tapped env))"
  unfolding after_dispatch_def
proof (intro rt_keeps_bind logged_status logged_clock)
  show "rt_keeps (reception_logged table resets frames) not_publish_error (rt_modify (\<lambda>rt. rt\<lparr>rt_decoder := new_decoder,
      rt_tx_dispatches := rt_tx_dispatches rt + 1, rt_decoder_resets := rt_decoder_resets rt + 1\<rparr>))"
    by (rule rt_keeps_modify) (clarify, rule logged_reset)
qed (rule logged_modify, simp)

lemma logged_observation:
  "rt_keeps (reception_logged table resets frames) not_publish_error (act_on_observation (tapped env) observation)"
  unfolding act_on_observation_def
  by (auto intro!: logged_after_dispatch logged_modify rt_keeps_raise)

lemma logged_observe: "rt_keeps (reception_logged table resets frames) not_publish_error (rt_observe (tapped env) now raw)"
  by (rule rt_keepsI) (auto simp: rt_observe_def tapped_def split: prod.splits sum.splits elim!: logged_cong)

interpretation logged_worker: runtime_invariant table "tapped env" "reception_logged table resets frames" not_publish_error for table env resets frames
proof (unfold_locales, goal_cases)
  case 4
  show ?case by (rule rt_keepsI) (auto simp: rt_owner_def tapped_def split: prod.splits sum.splits elim!: logged_cong)
next
  case 5
  show ?case by (intro rt_keeps_bind logged_observation logged_observe logged_modify) simp
next
  case 6
  then show ?case by (auto simp: tapped_def split: prod.splits elim!: logged_cong)
qed (auto elim!: logged_cong intro!: round_logged logged_status logged_clock)


subsection \<open>A concrete reception of the worker\<close>

text \<open>A modem that hands out the given reads, with nothing queued to transmit and a clock that stands still.\<close>

definition script_env :: "(bytes list, unit) runtime_env" where
  "script_env =
     \<lparr>re_owner =
        \<lparr>mp_snapshot = (\<lambda>_. \<lparr>ms_running = True, ms_owner_thread_id = Some 1\<rparr>),
         mp_get_version = (\<lambda>_ w. (Inr \<lparr>vr_protocol_version = 1, vr_identity = ''bench''\<rparr>, w)),
         mp_set_rx_frequency = (\<lambda>_ _ w. (Inr (), w)), mp_arm_rx_modem_io = (\<lambda>_ w. (Inr (), w)),
         mp_rx_read = (\<lambda>_ _ w. case w of [] \<Rightarrow> (Inr [], []) | chunk # w \<Rightarrow> (Inr chunk, w)),
         mp_rx_status = (\<lambda>_ w. (Inr \<lparr>rx_flags = 13, rx_available_bytes = 0, rx_samples = 0, rx_dropped_bytes = 0\<rparr>, w)),
         mp_rx_start = (\<lambda>_ w. (Inr (), w)), mp_rx_stop = (\<lambda>_ w. (Inr (), w)),
         mp_rx_rssi = (\<lambda>_ w. (Inr \<lparr>rssi_raw_magnitude = 100\<rparr>, w)),
         mp_rf_status = (\<lambda>_ w. (Inr \<lparr>rf_flags = 0, rf_remaining_selectors = 0, rf_mode = 0\<rparr>, w)),
         mp_rf_diagnostics = (\<lambda>_ w. (Inl (ModemFailure ''diagnostics''), w)),
         mp_transmit_selector_burst = (\<lambda>_ _ _ w. (Inr (), w))\<rparr>,
      re_publish = (\<lambda>_ w. w), re_queue_depth = (\<lambda>_. 0),
      re_observe_rssi = (\<lambda>_ _ w. (Inl KISSDataTimeNegative, w)),
      re_monotonic = (\<lambda>w. (0, w)), re_wait = (\<lambda>_ w. w)\<rparr>"

definition script_runtime :: tnc_runtime where
  "script_runtime = (projr (runtime_init ''bench'' 200 0 1))\<lparr>rt_alive := True, rt_started := True, rt_next_status := 1\<rparr>"

lemma script_runtime_fields:
  "rt_decoder script_runtime = new_decoder" "rt_failure script_runtime = None" "rt_read_maximum script_runtime = 200"
  "rt_stop script_runtime = False" "rt_alive script_runtime = True" "rt_next_status script_runtime = 1"
  "rt_idle_sleep_seconds script_runtime = 0"
proof -
  have "py_strip ''bench'' \<noteq> []" by code_simp
  then show "rt_decoder script_runtime = new_decoder" "rt_failure script_runtime = None" "rt_read_maximum script_runtime = 200"
    "rt_stop script_runtime = False" "rt_alive script_runtime = True" "rt_next_status script_runtime = 1"
    "rt_idle_sleep_seconds script_runtime = 0"
    by (simp_all add: script_runtime_def runtime_init_def)
qed

text \<open>One step of the worker reads the square wave of the example in two reads.\<close>

lemma script_step:
  obtains rt w events where
    "runtime_step example_table (tapped script_env)
       (script_runtime, [take 200 (square_wave example_selectors), drop 200 (square_wave example_selectors)], [], []) =
     (rt, w, [take 200 (square_wave example_selectors), drop 200 (square_wave example_selectors)], events)"
    "rt_decoder_resets rt = rt_decoder_resets script_runtime"
proof -
  let ?a = "take 200 (square_wave example_selectors)" and ?b = "drop 200 (square_wave example_selectors)"
  have len: "length (square_wave sel) = 2 * length sel" for sel by (induction sel) (simp_all add: square_wave_def)
  have "length example_selectors = 161" by code_simp
  then have ab: "length ?a = 200" "length ?b = 122" by (simp_all add: len)
  then have ne: "?a \<noteq> []" "?b \<noteq> []" by (metis list.size(3) zero_neq_numeral)+
  note fields = script_runtime_fields
  have read: "mp_rx_read (re_owner script_env) n None (c # w) = (Inr c, w)" for n c w by (simp add: script_env_def)
  have quiet: "fold (re_publish script_env) qs w = w" for qs w by (induction qs) (simp_all add: script_env_def)
  have still: "re_monotonic (tapped script_env) w = (0, w)" "re_queue_depth (tapped script_env) w = 0" for w
    by (cases w, simp add: tapped_def script_env_def)+
  have run0: "rt_decoder script_runtime = rx_run example_table new_decoder []" by (simp add: fields rx_run_def)
  from round_tapped [OF read ne(1) this, of "[?b]" "[]" "[]"] obtain rt1 qs1 where
    r1: "drain_round example_table (tapped script_env) (script_runtime, [?a, ?b], [], []) = (Inr False, rt1, [?b], [?a], qs1)"
    and rt1: "rt_decoder rt1 = rx_run example_table new_decoder [?a]" "rt_read_maximum rt1 = 200" "rt_stop rt1 = False"
      "rt_next_status rt1 = 1" "rt_idle_sleep_seconds rt1 = 0" "rt_decoder_resets rt1 = rt_decoder_resets script_runtime"
    unfolding quiet using ab by (elim exE conjE) (rule that, (assumption | simp add: fields)+)
  from round_tapped [OF read ne(2) rt1(1), of "[]" "[?a]" qs1] obtain rt2 qs2 where
    r2: "drain_round example_table (tapped script_env) (rt1, [?b], [?a], qs1) = (Inr True, rt2, [], [?a, ?b], qs1 @ qs2)"
    and rt2: "rt_next_status rt2 = 1" "rt_idle_sleep_seconds rt2 = 0" "rt_decoder_resets rt2 = rt_decoder_resets script_runtime"
    unfolding quiet using ab rt1 by (elim exE conjE) (rule that, (assumption | simp)+)
  have "drain_rx_loop example_table (tapped script_env) (Suc (Suc m)) (script_runtime, [?a, ?b], [], []) =
      (Inr (), rt2, [], [?a, ?b], qs1 @ qs2)" for m
    by (simp add: rt_bind_def r1 r2 fields rt1 rt_return_def)
  from this [of 2]
  have "drain_rx_fifo example_table (tapped script_env) (script_runtime, [?a, ?b], [], []) = (Inr (), rt2, [], [?a, ?b], qs1 @ qs2)"
    by (simp add: drain_rx_fifo_def RX_FIFO_DRAIN_READ_LIMIT_def)
  then have "runtime_step example_table (tapped script_env) (script_runtime, [?a, ?b], [], []) = (rt2, [], [?a, ?b], qs1 @ qs2)"
    by (simp add: runtime_step_def runtime_iteration_def rt_bind_def fields rt_world_def status_due_def rt2 rt_return_def
        serve_queue_def idle_wait_def still)
  with rt2(3) that show ?thesis by blast
qed


subsection \<open>The state of the runtime is well formed\<close>

text \<open>
  The type of the state: the settings in their ranges, one reset of the decoder per
  dispatch, no more outcomes than samples, and a failure only in a runtime that has stopped.
\<close>

definition runtime_ok :: "tnc_runtime \<Rightarrow> bool" where
  "runtime_ok rt \<longleftrightarrow>
     1 \<le> rt_read_maximum rt \<and> rt_read_maximum rt \<le> 200 \<and> 0 \<le> rt_idle_sleep_seconds rt \<and> 0 < rt_status_interval_seconds rt \<and>
     rt_decoder_resets rt = rt_tx_dispatches rt \<and> rt_tx_dispatches rt + rt_access_timeouts rt \<le> rt_rssi_samples rt \<and>
     (rt_failure rt \<noteq> None \<longrightarrow> \<not> rt_alive rt \<and> rt_started rt) \<and> (rt_alive rt \<longrightarrow> rt_started rt)"

lemma runtime_ok_frame:
  "runtime_ok rt \<Longrightarrow> runtime_ok (rt\<lparr>rt_decoder := d\<rparr>)"
  "runtime_ok rt \<Longrightarrow> runtime_ok (rt\<lparr>rt_rx_reads := n\<rparr>)"
  "runtime_ok rt \<Longrightarrow> runtime_ok (rt\<lparr>rt_packed_bytes := n\<rparr>)"
  "runtime_ok rt \<Longrightarrow> runtime_ok (rt\<lparr>rt_decoded_frames := n\<rparr>)"
  "runtime_ok rt \<Longrightarrow> runtime_ok (rt\<lparr>rt_status_checks := n\<rparr>)"
  "runtime_ok rt \<Longrightarrow> runtime_ok (rt\<lparr>rt_next_status := t\<rparr>)"
  "runtime_ok rt \<Longrightarrow> runtime_ok (rt\<lparr>rt_stop := b\<rparr>)"
  "runtime_ok rt \<Longrightarrow> runtime_ok (rt\<lparr>rt_started := True\<rparr>)"
  "runtime_ok rt \<Longrightarrow> runtime_ok (rt\<lparr>rt_alive := False\<rparr>)"
  "runtime_ok rt \<Longrightarrow> rt_started rt \<Longrightarrow> runtime_ok (rt\<lparr>rt_failure := Some e, rt_stop := True, rt_alive := False\<rparr>)"
  by (auto simp: runtime_ok_def)

abbreviation "state_ok s \<equiv> runtime_ok (fst s) \<and> rt_started (fst s)"
abbreviation "any_error (e :: runtime_error) \<equiv> True"

lemma publish_items_ok: "rt_keeps state_ok any_error (publish_items env items)"
proof (induction items)
  case (Cons item items)
  have "rt_keeps state_ok any_error (runtime_publish env item)"
    by (rule rt_keepsI) (auto simp: runtime_publish_def runtime_ok_frame split: sum.splits)
  with Cons show ?case unfolding publish_items.simps by (intro rt_keeps_bind)
qed simp

lemma owner_ok: "rt_keeps (\<lambda>s. kept (fst s)) any_error (rt_owner m)"
  by (rule rt_keepsI) (auto simp: rt_owner_def split: prod.splits sum.splits)

lemma world_ok: "rt_keeps (\<lambda>s. kept (fst s)) any_error (rt_world m)"
  by (rule rt_keepsI) (auto simp: rt_world_def split: prod.splits)

lemma checked_status_ok:
  "(\<And>rt n. kept rt \<Longrightarrow> kept (rt\<lparr>rt_status_checks := n\<rparr>)) \<Longrightarrow> rt_keeps (\<lambda>s. kept (fst s)) any_error (checked_status env timeout)"
  unfolding checked_status_def record_status_check_def require_active_status_def
  by (intro rt_keeps_bind owner_ok rt_keeps_modify) (simp_all add: rt_keeps_raise)

lemma consume_ok: "rt_keeps state_ok any_error (runtime_consume table env chunk)"
proof (rule rt_keepsI)
  fix rt w r rt' w'
  assume ok: "state_ok (rt, w)" and step: "runtime_consume table env chunk (rt, w) = (r, rt', w')"
  obtain fresh d where f: "rx_feed table chunk (rt_decoder rt) = (fresh, d)" by (rule prod.exhaust)
  let ?rt = "rt\<lparr>rt_decoder := d, rt_packed_bytes := rt_packed_bytes rt + length chunk\<rparr>"
  have "state_ok (?rt, w)" using ok by (simp add: runtime_ok_frame)
  from rt_keepsD [OF publish_items_ok this, of env fresh] step f
  show "state_ok (rt', w') \<and> (\<forall>e. r = Inl e \<longrightarrow> any_error e)" by (simp add: runtime_consume_def)
qed

lemma round_ok: "rt_keeps state_ok any_error (drain_round table env)"
proof (rule rt_keepsI)
  fix rt w r rt' w'
  assume ok: "state_ok (rt, w)" and step: "drain_round table env (rt, w) = (r, rt', w')"
  have last: "rt_keeps state_ok any_error (\<lambda>s. rt_return (int (length chunk) < rt_read_maximum (fst s)) s)" for chunk
    by (rule rt_keepsI) (auto simp: rt_return_def)
  have "rt_keeps state_ok any_error (rt_bind (rt_owner (mp_rx_read (re_owner env) (rt_read_maximum rt) None)) (\<lambda>chunk.
     rt_bind (rt_modify (\<lambda>rt. rt\<lparr>rt_rx_reads := rt_rx_reads rt + 1\<rparr>)) (\<lambda>_.
     rt_bind (if chunk = [] then rt_return () else runtime_consume table env chunk) (\<lambda>_ s.
       rt_return (int (length chunk) < rt_read_maximum (fst s)) s))))"
    by (intro rt_keeps_bind owner_ok rt_keeps_modify last) (simp_all add: runtime_ok_frame consume_ok)
  from rt_keepsD [OF this ok] step show "state_ok (rt', w') \<and> (\<forall>e. r = Inl e \<longrightarrow> any_error e)"
    by (simp add: drain_round_def)
qed

text \<open>A sample makes room for one outcome.\<close>

definition sampled_ok :: "tnc_runtime \<times> 'w \<Rightarrow> bool" where
  "sampled_ok s \<longleftrightarrow> state_ok s \<and> rt_tx_dispatches (fst s) + rt_access_timeouts (fst s) < rt_rssi_samples (fst s)"

lemma after_dispatch_ok: "sampled_ok s \<Longrightarrow> state_ok (snd (after_dispatch env s))"
proof -
  assume s: "sampled_ok s"
  obtain rt w where sw: "s = (rt, w)" by (rule prod.exhaust)
  let ?m = "rt_bind (checked_status env None) (\<lambda>_. rt_bind (rt_world (re_monotonic env)) (\<lambda>t.
       rt_modify (\<lambda>rt. rt\<lparr>rt_next_status := t + rt_status_interval_seconds rt\<rparr>)))"
  let ?rt = "rt\<lparr>rt_decoder := new_decoder, rt_tx_dispatches := rt_tx_dispatches rt + 1, rt_decoder_resets := rt_decoder_resets rt + 1\<rparr>"
  have "rt_keeps state_ok any_error ?m"
    by (intro rt_keeps_bind checked_status_ok world_ok rt_keeps_modify) (simp_all add: runtime_ok_frame)
  moreover have "state_ok (?rt, w)" using s sw by (auto simp: sampled_ok_def runtime_ok_def)
  ultimately have "state_ok (snd (?m (?rt, w)))" by (blast dest: rt_keepsD)
  moreover have "after_dispatch env s = ?m (?rt, w)" by (simp add: after_dispatch_def sw)
  ultimately show ?thesis by simp
qed

lemma act_on_observation_ok:
  assumes "sampled_ok s"
  shows "state_ok (snd (act_on_observation env observation s))"
proof -
  have "state_ok s" "state_ok (snd (rt_modify (\<lambda>rt. rt\<lparr>rt_access_timeouts := rt_access_timeouts rt + 1\<rparr>) s))"
    using assms by (cases s; auto simp: sampled_ok_def runtime_ok_def rt_modify_def)+
  with after_dispatch_ok [OF assms, of env] show ?thesis
    by (simp add: act_on_observation_def rt_raise_def rt_return_def)
qed

lemma observe_ok: "sampled_ok s \<Longrightarrow> sampled_ok (snd (rt_observe env now raw s))"
  by (cases s) (auto simp: rt_observe_def sampled_ok_def split: prod.splits sum.splits)

interpretation typed_worker: runtime_invariant table env state_ok any_error for table env
proof (unfold_locales, goal_cases)
  case (5 now raw)
  have "state_ok (snd (rt_bind (rt_observe env now raw) (act_on_observation env) s))" if "sampled_ok s" for s
    using observe_ok [OF that, of env now raw] act_on_observation_ok [of _ env]
    by (auto simp: rt_bind_def sampled_ok_def split: prod.splits sum.splits)
  moreover have "sampled_ok (rt\<lparr>rt_rssi_samples := rt_rssi_samples rt + 1\<rparr>, w)" if "state_ok (rt, w)" for rt and w :: 'a
    using that by (auto simp: sampled_ok_def runtime_ok_def)
  ultimately show ?case unfolding rt_keeps_def by auto
qed (auto intro: round_ok checked_status_ok world_ok owner_ok runtime_ok_frame)

text \<open>The life of a runtime: calls of \<open>start\<close> and \<open>stop\<close>, and steps of its worker.\<close>

datatype runtime_event = RtStart seconds | RtStep | RtStop seconds

definition life_step :: "(12 word \<Rightarrow> real) \<Rightarrow> ('w, 'r) runtime_env \<Rightarrow> tnc_runtime \<times> 'w \<Rightarrow> runtime_event \<Rightarrow> tnc_runtime \<times> 'w" where
  "life_step table env s ev =
     (case ev of
        RtStart timeout \<Rightarrow> snd (runtime_start env timeout s)
      | RtStep \<Rightarrow> runtime_step table env s
      | RtStop timeout \<Rightarrow> snd (runtime_stop table env timeout s))"

lemma start_ok:
  assumes "runtime_ok (fst s)"
  shows "runtime_ok (fst (snd (runtime_start env timeout s)))"
proof (cases "timeout \<le> 0 \<or> rt_started (fst s)")
  case True
  with assms show ?thesis by (auto simp: runtime_start_def)
next
  case False
  obtain rt w where s: "s = (rt, w)" by (rule prod.exhaust)
  let ?kept = "\<lambda>rt. runtime_ok rt \<and> rt_started rt \<and> rt_failure rt = None"
  have arm: "rt_keeps (\<lambda>s. ?kept (fst s)) any_error (rt_bind (checked_status env (Some timeout)) (\<lambda>_.
      rt_bind (rt_modify (\<lambda>rt. rt\<lparr>rt_identity := identity, rt_stop := False, rt_alive := True\<rparr>)) (\<lambda>_.
      rt_bind (rt_world (re_monotonic env)) (\<lambda>t. rt_modify (\<lambda>rt. rt\<lparr>rt_next_status := t + rt_status_interval_seconds rt\<rparr>)))))" for identity
    by (intro rt_keeps_bind checked_status_ok [of ?kept] world_ok [of ?kept] rt_keeps_modify) (auto simp: runtime_ok_def)
  have "rt_keeps (\<lambda>s. ?kept (fst s)) any_error (rt_bind (rt_owner (mp_get_version (re_owner env) (Some timeout))) (\<lambda>version s.
      if vr_identity version \<noteq> rt_expected_identity (fst s) then rt_raise IdentityMismatch s
      else rt_bind (checked_status env (Some timeout)) (\<lambda>_.
        rt_bind (rt_modify (\<lambda>rt. rt\<lparr>rt_identity := vr_identity version, rt_stop := False, rt_alive := True\<rparr>)) (\<lambda>_.
        rt_bind (rt_world (re_monotonic env)) (\<lambda>t. rt_modify (\<lambda>rt. rt\<lparr>rt_next_status := t + rt_status_interval_seconds rt\<rparr>)))) s))"
    by (intro rt_keeps_bind owner_ok [of ?kept] rt_keeps_test rt_keeps_raise arm) simp
  moreover have "?kept (rt\<lparr>rt_started := True\<rparr>)" using assms False s by (auto simp: runtime_ok_def)
  ultimately show ?thesis using False s by (auto simp: runtime_start_def dest!: rt_keepsD)
qed

lemma step_ok: "runtime_ok (fst s) \<Longrightarrow> runtime_ok (fst (runtime_step table env s))"
proof (cases "rt_alive (fst s)")
  case True
  assume "runtime_ok (fst s)"
  with True have "state_ok s" by (simp add: runtime_ok_def)
  from typed_worker.step_kept [OF this] show ?thesis by blast
qed (simp add: runtime_step_def)

lemma stop_ok: "runtime_ok (fst s) \<Longrightarrow> runtime_ok (fst (snd (runtime_stop table env timeout s)))"
  using step_ok [of "((fst s)\<lparr>rt_stop := True\<rparr>, snd s)" table env]
  by (simp add: runtime_stop_def Let_def runtime_ok_frame)

lemma life_step_ok: "runtime_ok (fst s) \<Longrightarrow> runtime_ok (fst (life_step table env s ev))"
  by (simp add: life_step_def start_ok step_ok stop_ok split: runtime_event.split)

text \<open>
  C18. A runtime is well formed for life, whatever modem, backend and queue it is given. After any
  sequence of calls of start and stop and of steps of the worker, its settings are
  in their ranges, there was one reset of the decoder for every dispatch, there are no more dispatches and
  timeouts than samples of the signal strength, and a worker with a failure is dead: it steps no more, start refuses, and
  stop reports the failure.
\<close>

theorem runtime_well_formed:
  assumes "runtime_init identity read_maximum idle interval = Inr rt0"
    and "run (life_step table env) (rt0, w0) evs = (rt, w)"
  shows "runtime_ok rt \<and>
    (\<forall>e. rt_failure rt = Some e \<longrightarrow> runtime_step table env (rt, w) = (rt, w) \<and>
       runtime_start env 1 (rt, w) = (Inl RuntimeRestart, (rt, w)) \<and>
       fst (runtime_stop table env 1 (rt, w)) = Inl (RuntimeFailed e))"
proof -
  have "runtime_ok rt0" using assms(1) by (auto simp: runtime_init_def runtime_ok_def split: if_splits)
  then have "runtime_ok (fst (run (life_step table env) (rt0, w0) evs))"
    by (induction evs rule: rev_induct) (simp_all add: run_append life_step_ok)
  with assms(2) have ok: "runtime_ok rt" by simp
  then show ?thesis
    by (auto simp: runtime_step_def runtime_start_def runtime_stop_def check_health_def runtime_ok_def)
qed

text \<open>A modem that answers until it is asked for samples.\<close>

definition lost_env :: "(bytes list, unit) runtime_env" where
  "lost_env = script_env\<lparr>re_owner := (re_owner script_env)\<lparr>mp_rx_read := \<lambda>_ _ w. (Inl (ModemFailure ''lost''), w)\<rparr>\<rparr>"

theorem runtime_well_formed_witness:
  "\<exists>rt0 rt. runtime_init ''bench'' 200 0 1 = Inr rt0 \<and>
     run (life_step example_table lost_env) (rt0, []) [RtStart 1, RtStep] = (rt, []) \<and> runtime_ok rt \<and>
     rt_failure rt = Some (OwnerFailed (ModemFailure ''lost'')) \<and>
     fst (runtime_stop example_table lost_env 1 (rt, [])) = Inl (RuntimeFailed (OwnerFailed (ModemFailure ''lost'')))"
proof -
  have "py_strip ''bench'' \<noteq> []" by code_simp
  then obtain rt0 where rt0: "runtime_init ''bench'' 200 0 1 = Inr rt0" by (auto simp: runtime_init_def)
  then have fields: "rt_started rt0 = False" "rt_expected_identity rt0 = ''bench''" by (auto simp: runtime_init_def split: if_splits)
  have port: "mp_get_version (re_owner lost_env) t w = (Inr \<lparr>vr_protocol_version = 1, vr_identity = ''bench''\<rparr>, w)"
    "mp_rx_status (re_owner lost_env) t w = (Inr \<lparr>rx_flags = 13, rx_available_bytes = 0, rx_samples = 0, rx_dropped_bytes = 0\<rparr>, w)"
    "mp_rx_read (re_owner lost_env) n t w = (Inl (ModemFailure ''lost''), w)" "re_monotonic lost_env w = (0, w)" for t n w
    by (simp_all add: lost_env_def script_env_def)
  obtain rt where start: "life_step example_table lost_env (rt0, []) (RtStart 1) = (rt, [])" and rt: "rt_alive rt" "\<not> rt_stop rt"
    by (simp add: life_step_def runtime_start_def fields rt_bind_def [of "rt_owner _"] rt_owner_def port checked_status_def record_status_check_def
        require_active_status_def ACTIVE_RX_FLAGS_def rt_return_def rt_bind_def [of "rt_bind _ _"] rt_bind_def [of "\<lambda>s. (Inr (), s)"]
        rt_world_def rt_bind_def rt_modify_def)
  have limit: "drain_rx_fifo example_table lost_env s = drain_rx_loop example_table lost_env (Suc 3) s" for s
    by (simp add: drain_rx_fifo_def RX_FIFO_DRAIN_READ_LIMIT_def)
  have "runtime_iteration example_table lost_env (rt, []) = (Inl (OwnerFailed (ModemFailure ''lost'')), (rt, []))"
    using rt unfolding runtime_iteration_def rt_bind_def [of "drain_rx_fifo _ _"] limit drain_rx_loop.simps
    by (simp add: rt_bind_def drain_round_def rt_owner_def port)
  then have step: "life_step example_table lost_env (rt, []) RtStep =
      (rt\<lparr>rt_failure := Some (OwnerFailed (ModemFailure ''lost'')), rt_stop := True, rt_alive := False\<rparr>, [])"
    using rt by (simp add: life_step_def runtime_step_def)
  with start have run: "run (life_step example_table lost_env) (rt0, []) [RtStart 1, RtStep] =
      (rt\<lparr>rt_failure := Some (OwnerFailed (ModemFailure ''lost'')), rt_stop := True, rt_alive := False\<rparr>, [])" by simp
  from runtime_well_formed [OF rt0 run] rt0 run show ?thesis by auto
qed

end
