(* ===== verification/Tnc_Service.thy ===== *)
theory Tnc_Service
  imports Tnc_System Tnc_Runtime
begin

section \<open>The running service\<close>

text \<open>
  The sustained runtime over the real transmit path, while clients talk to the same backend and
  queue: the composition that \<open>TNCEngine.start\<close> of \<open>src/src/ywdtnc/engine.py\<close> makes. Events of clients
  take effect between the operations of the worker, in batches of any sizes. The transport
  records what it answers.
\<close>

subsection \<open>Model\<close>

type_synonym 't service = "'t tnc_system \<times> tnc_event list list"

text \<open>
  \<open>ModemTNCBackend.reject_client_message\<close>: without transmit authority, data is refused by the
  parameter session and never reaches the queue.
\<close>

definition product_client_message ::
  "bool \<Rightarrow> ('w \<Rightarrow> seconds \<times> 'w) \<Rightarrow> kiss_message \<Rightarrow> tnc_backend \<Rightarrow> kiss_queue \<Rightarrow> 'w \<Rightarrow>
     (ingress_error, ingress_result) result \<times> tnc_backend \<times> kiss_queue \<times> 'w" where
  "product_client_message transmit_enabled monotonic message b q w =
     (if km_port message = 0 \<and> km_command message = KISS_DATA \<and> \<not> transmit_enabled then
        (case control_client_message message (tb_control b) of
           (Inl e, c) \<Rightarrow> (Inl (IngressControl e), b\<lparr>tb_control := c\<rparr>, q, w)
         | (Inr res, c) \<Rightarrow> (Inr (IngressControlResult res), b\<lparr>tb_control := c\<rparr>, q, w))
      else backend_client_message monotonic message b q w)"

definition client_step ::
  "bool \<Rightarrow> (bytes \<Rightarrow> string) \<Rightarrow> 't modem_transport \<Rightarrow> 't clock \<Rightarrow> 't sleeper \<Rightarrow> 't random_source \<Rightarrow> 't tnc_system \<Rightarrow> tnc_event \<Rightarrow> 't tnc_system" where
  "client_step gate sha tr monotonic slp src s ev =
     (case ev of
        TeObserve now raw \<Rightarrow> s
      | TePublish event \<Rightarrow> s
      | TeMessage message \<Rightarrow> (let (b, q, w) = s in snd (product_client_message gate (tnc_clock monotonic) message b q w))
      | _ \<Rightarrow> tnc_system_step sha tr monotonic slp src s ev)"

definition clients_run ::
  "bool \<Rightarrow> (bytes \<Rightarrow> string) \<Rightarrow> 't modem_transport \<Rightarrow> 't clock \<Rightarrow> 't sleeper \<Rightarrow> 't random_source \<Rightarrow> 't service \<Rightarrow> 't service" where
  "clients_run gate sha tr monotonic slp src = (\<lambda>(s, batches).
     case batches of
       [] \<Rightarrow> (s, [])
     | batch # rest \<Rightarrow> (run (client_step gate sha tr monotonic slp src) s batch, rest))"

text \<open>An operation of the worker on the backend, the queue and the world, after a batch of client events.\<close>

definition after_clients ::
  "bool \<Rightarrow> (bytes \<Rightarrow> string) \<Rightarrow> 't modem_transport \<Rightarrow> 't clock \<Rightarrow> 't sleeper \<Rightarrow> 't random_source \<Rightarrow>
     ('t tnc_system \<Rightarrow> 'a \<times> 't tnc_system) \<Rightarrow> 't service \<Rightarrow> 'a \<times> 't service" where
  "after_clients gate sha tr monotonic slp src m s =
     (let (s, batches) = clients_run gate sha tr monotonic slp src s; (r, s) = m s in (r, (s, batches)))"

definition on_owner :: "(modem_owner \<times> 't, 'a) operation \<Rightarrow> ('t tnc_system, 'a) operation" where
  "on_owner m = (\<lambda>(b, q, c, v). let (r, v) = m v in (r, (b, q, c, v)))"

definition service_env ::
  "bool \<Rightarrow> (bytes \<Rightarrow> string) \<Rightarrow> 't modem_transport \<Rightarrow> 't clock \<Rightarrow> 't sleeper \<Rightarrow> 't random_source \<Rightarrow> ('t service, tx_receipt) runtime_env" where
  "service_env gate sha tr monotonic slp src =
     (let port = owner_port product_owner_dispatch tr in
      \<lparr>re_owner =
         \<lparr>mp_snapshot = (\<lambda>((b, q, c, v), _). mp_snapshot port v),
          mp_get_version = (\<lambda>t. after_clients gate sha tr monotonic slp src (on_owner (mp_get_version port t))),
          mp_set_rx_frequency = (\<lambda>f t. after_clients gate sha tr monotonic slp src (on_owner (mp_set_rx_frequency port f t))),
          mp_arm_rx_modem_io = (\<lambda>t. after_clients gate sha tr monotonic slp src (on_owner (mp_arm_rx_modem_io port t))),
          mp_rx_read = (\<lambda>n t. after_clients gate sha tr monotonic slp src (on_owner (mp_rx_read port n t))),
          mp_rx_status = (\<lambda>t. after_clients gate sha tr monotonic slp src (on_owner (mp_rx_status port t))),
          mp_rx_start = (\<lambda>t. after_clients gate sha tr monotonic slp src (on_owner (mp_rx_start port t))),
          mp_rx_stop = (\<lambda>t. after_clients gate sha tr monotonic slp src (on_owner (mp_rx_stop port t))),
          mp_rx_rssi = (\<lambda>t. after_clients gate sha tr monotonic slp src (on_owner (mp_rx_rssi port t))),
          mp_rf_status = (\<lambda>t. after_clients gate sha tr monotonic slp src (on_owner (mp_rf_status port t))),
          mp_rf_diagnostics = (\<lambda>t. after_clients gate sha tr monotonic slp src (on_owner (mp_rf_diagnostics port t))),
          mp_transmit_selector_burst =
            (\<lambda>n p t. after_clients gate sha tr monotonic slp src (on_owner (mp_transmit_selector_burst port n p t)))\<rparr>,
       re_publish = (\<lambda>event s. snd (after_clients gate sha tr monotonic slp src (\<lambda>(b, q, w). ((), (backend_publish event b, q, w))) s)),
       re_queue_depth = (\<lambda>((b, q, w), _). length (kq_queue q)),
       re_observe_rssi = (\<lambda>now raw. after_clients gate sha tr monotonic slp src (\<lambda>(b, q, w).
         let (res, q, w) = ts_observe_rssi (tnc_submit sha tr monotonic slp) (tnc_clock monotonic) q now raw (Some (tnc_random src)) w
         in (res, (b, q, w)))),
       re_monotonic = after_clients gate sha tr monotonic slp src (\<lambda>(b, q, w). let (t, w) = tnc_clock monotonic w in (t, (b, q, w))),
       re_wait = (\<lambda>d s. snd (after_clients gate sha tr monotonic slp src (\<lambda>(b, q, c, ow, w). ((), (b, q, c, ow, slp d w))) s))\<rparr>)"

subsection \<open>What every exchange keeps, the transmit path keeps\<close>

definition owner_world_ok :: "('t \<Rightarrow> bool) \<Rightarrow> modem_owner \<times> 't \<Rightarrow> bool" where
  "owner_world_ok kept v \<longleftrightarrow> idle_world v \<and> kept (snd v)"

definition submitter_ok :: "('t \<Rightarrow> bool) \<Rightarrow> 't tnc_world \<Rightarrow> bool" where
  "submitter_ok kept w \<longleftrightarrow> router_ok (ch_router (fst w)) \<and> owner_world_ok kept (snd w)"

locale kept_transport =
  fixes tr :: "'t modem_transport"
    and monotonic :: "'t clock"
    and slp :: "'t sleeper"
    and src :: "'t random_source"
    and kept :: "'t \<Rightarrow> bool"
  assumes transact_kept: "kept w \<Longrightarrow> kept (snd (mt_transact tr request t w))"
    and tick_kept: "kept w \<Longrightarrow> kept (snd (monotonic w))"
    and pause_kept: "kept w \<Longrightarrow> kept (slp d w)"
    and random_kept: "kept w \<Longrightarrow> kept (snd (src w))"
begin

lemma transaction_kept: "kept w \<Longrightarrow> kept (snd (transaction tr op t w))"
proof (cases "op_request op")
  case (Inr request)
  assume "kept w"
  from transact_kept [OF this, of request t] Inr show ?thesis
    by (auto simp: transaction_def split: prod.splits sum.splits)
qed (simp add: transaction_def)

lemma owner_call_kept:
  assumes "owner_idle ow" "kept w" "owner_call product_owner_dispatch tr op timeout ow w = (res, ow', w')"
  shows "kept w'"
proof (cases "0 < (case timeout of None \<Rightarrow> ow_default_transaction_timeout ow | Some t \<Rightarrow> t)")
  case True
  let ?t = "case timeout of None \<Rightarrow> ow_default_transaction_timeout ow | Some t \<Rightarrow> t"
  have "owner_call_begin ow op timeout = owner_call_begin ow op (Some ?t)"
    by (cases timeout) (simp_all add: owner_call_begin_def)
  then have "owner_call product_owner_dispatch tr op timeout ow w = owner_call product_owner_dispatch tr op (Some ?t) ow w"
    by (simp only: owner_call_def)
  with owner_call_idle [OF assms(1) True, of tr op w] assms(3) transaction_kept [OF assms(2)] show ?thesis by auto
next
  case False
  then have "owner_call_begin ow op timeout = (Inl OwnerTimeoutNotPositive, ow)"
    by (cases timeout) (simp_all add: owner_call_begin_def)
  with assms show ?thesis by (simp add: owner_call_def)
qed

lemma owner_method_kept:
  "owner_world_ok kept v \<Longrightarrow> owner_world_ok kept (snd (owner_method product_owner_dispatch tr op cast timeout v))"
proof -
  assume v: "owner_world_ok kept v"
  obtain ow w where vw: "v = (ow, w)" by (rule prod.exhaust)
  obtain res ow' w' where call: "owner_call product_owner_dispatch tr op timeout ow w = (res, ow', w')" by (rule prod_cases3)
  have "kept w'" by (rule owner_call_kept [OF _ _ call]) (use v vw in \<open>simp_all add: owner_world_ok_def idle_world_def\<close>)
  with owner_method_idle [of v tr op cast timeout] v call vw show ?thesis
    by (simp add: owner_world_ok_def owner_method_def)
qed

lemma burst_request_kept:
  "owner_world_ok kept v \<Longrightarrow> owner_world_ok kept (snd (transmit_selector_burst product_owner_dispatch tr n packed timeout v))"
  by (auto simp: transmit_selector_burst_def owner_prepared_def owner_method_kept split: sum.splits)

end

sublocale kept_transport \<subseteq> owner: kept_tx_modem "owner_port product_owner_dispatch tr" "lift_clock monotonic" "lift_sleep slp" "owner_world_ok kept"
proof (unfold_locales, goal_cases)
  case (6 w)
  then show ?case using tick_kept [of "snd w"]
    by (cases w) (auto simp: lift_clock_def owner_world_ok_def idle_world_def Let_def split: prod.splits)
next
  case (7 w d)
  then show ?case by (cases w) (simp add: lift_sleep_def owner_world_ok_def idle_world_def pause_kept)
qed (simp_all add: owner_port_def owner_method_kept burst_request_kept)

text \<open>The submitter, the clock and the random source keep the state of the submitter and what the exchanges keep.\<close>

context kept_transport
begin

lemma tnc_parts_kept:
  assumes "submitter_ok kept w"
  shows "submitter_ok kept (snd (tnc_clock monotonic w))" "submitter_ok kept (snd (tnc_random src w))"
    "submitter_ok kept (snd (tnc_submit sha tr monotonic slp frame ctx t w))"
proof -
  obtain c ow x where w: "w = (c, ow, x)" by (rule prod_cases3)
  show "submitter_ok kept (snd (tnc_clock monotonic w))" "submitter_ok kept (snd (tnc_random src w))"
    using assms w tick_kept [of x] random_kept [of x]
    by (auto simp: submitter_ok_def owner_world_ok_def idle_world_def tnc_clock_def tnc_random_def lift_clock_def Let_def split: prod.splits)
  show "submitter_ok kept (snd (tnc_submit sha tr monotonic slp frame ctx t w))"
  proof (cases "contextual_submit_frame sha (owner_port product_owner_dispatch tr) (lift_clock monotonic) (lift_sleep slp)
      c frame (tc_txdelay_profile ctx) t (ow, x)")
    case None
    with assms w show ?thesis by (simp add: tnc_submit_def)
  next
    case (Some out)
    obtain res c' v' where out: "out = (res, c', v')" by (rule prod_cases3)
    from owner.contextual_submit_kept [OF _ _ Some [unfolded out]] assms w Some out show ?thesis
      by (simp add: tnc_submit_def submitter_ok_def)
  qed
qed

lemma one_burst_kept:
  assumes "owner_world_ok kept v" "one_burst sha (owner_port product_owner_dispatch tr) pre frame t v receipt v'"
  shows "owner_world_ok kept v'"
proof -
  obtain status packed v1 n where "mp_rf_status (owner_port product_owner_dispatch tr) (Some t) v = (Inr status, v1)"
    "mp_transmit_selector_burst (owner_port product_owner_dispatch tr) n packed (Some t) v1 = (Inr (), v')"
    using assms(2) by (auto simp: one_burst_def)
  with owner.rf_status_kept [OF assms(1), of "Some t"] owner.burst_kept [of v1 n packed "Some t"] show ?thesis by simp
qed

lemma observation_kept:
  assumes "submitter_ok kept w"
    and "ts_observe_rssi (tnc_submit sha tr monotonic slp) (tnc_clock monotonic) q now raw (Some (tnc_random src)) w = (res, q', w')"
  shows "submitter_ok kept w'"
proof -
  obtain t1 w1 where c1: "tnc_clock monotonic w = (t1, w1)" by (rule prod.exhaust)
  have ok1: "submitter_ok kept w1" using tnc_parts_kept(1) [OF assms(1)] c1 by simp
  have obs: "kq_observe_rssi (tnc_submit sha tr monotonic slp) q t1 raw (Some (tnc_random src)) w1 = (res, q', w')"
    using assms(2) c1 by (simp add: ts_observe_rssi_def)
  show ?thesis by (rule kq_observe_world [where ok = "submitter_ok kept", OF tnc_parts_kept(2,3) ok1 obs])
qed

lemma client_step_kept:
  assumes "submitter_ok kept w" "client_step gate sha tr monotonic slp src' (b, q, w) ev = (b', q', w')"
  shows "submitter_ok kept w'"
proof (cases ev)
  case (TeMessage m)
  obtain res b2 q2 w2 where msg: "product_client_message gate (tnc_clock monotonic) m b q w = (res, b2, q2, w2)" by (rule prod_cases4)
  have "w2 = w \<or> w2 = snd (tnc_clock monotonic w) \<or> w2 = snd (tnc_clock monotonic (snd (tnc_clock monotonic w)))"
    using msg by (auto simp: product_client_message_def backend_client_message_def ts_enqueue_def Let_def
      split: if_splits prod.splits sum.splits kq_error.splits)
  with assms TeMessage msg tnc_parts_kept(1) [OF assms(1)] tnc_parts_kept(1) [OF tnc_parts_kept(1) [OF assms(1)]] show ?thesis
    by (auto simp: client_step_def)
qed (use assms in \<open>auto simp: client_step_def tnc_system_step_def tnc_step_def\<close>)

end

subsection \<open>What the transport has answered\<close>

type_synonym wire_log = "(bytes \<times> bytes) list"

definition recording :: "'t modem_transport \<Rightarrow> (wire_log \<times> 't) modem_transport" where
  "recording tr =
     \<lparr>mt_open = (\<lambda>(l, w). let (r, w) = mt_open tr w in (r, (l, w))),
      mt_transact = (\<lambda>request t (l, w).
        let (r, w) = mt_transact tr request t w
        in (r, ((case r of Inl _ \<Rightarrow> l | Inr response \<Rightarrow> l @ [(request, response)]), w))),
      mt_close = (\<lambda>(l, w). let (r, w) = mt_close tr w in (r, (l, w)))\<rparr>"

definition lift_random :: "'t random_source \<Rightarrow> ('s \<times> 't) random_source" where
  "lift_random src = (\<lambda>(s, w). let (b, w) = src w in (b, (s, w)))"

definition records_any :: "wire_log set \<Rightarrow> wire_log \<times> 't \<Rightarrow> bool" where
  "records_any ls w \<longleftrightarrow> (\<exists>l \<in> ls. prefix l (fst w))"

interpretation wire: kept_transport "recording tr" "lift_clock monotonic" "lift_sleep slp" "lift_random src" "records_any ls"
  for tr :: "'t modem_transport" and monotonic slp src ls
proof (unfold_locales, goal_cases)
  case (1 w request t)
  then show ?case
    by (cases w) (auto simp: records_any_def recording_def Let_def split: prod.splits sum.splits)
qed (auto simp: records_any_def lift_clock_def lift_sleep_def lift_random_def Let_def split: prod.splits)

text \<open>An answered burst with the data of a client.\<close>

definition client_burst :: "kiss_message set \<Rightarrow> bytes \<times> bytes \<Rightarrow> bool" where
  "client_burst received = (\<lambda>(request, response).
     parse_ack response YWD_RF = Inr () \<and>
     (\<exists>m \<in> received. km_command m = KISS_DATA \<and> km_port m = 0 \<and> (\<exists>parsed. parse_frame (km_frame m) False = Inr parsed) \<and>
        (\<exists>units profile. resolve_txdelay units = Inr profile \<and>
           request_carries request (tp_pre_flags profile) (append_fcs (km_frame m)))))"

lemma records_all: "records_any {l} w \<longleftrightarrow> prefix l (fst w)"
  by (simp add: records_any_def)

text \<open>A dispatch appends the burst of a client to the record.\<close>

lemma dispatch_recorded:
  fixes tr :: "'t modem_transport"
  assumes ok: "tnc_system_ok received (b, q, (c, (ow, (l, w))))"
    and obs: "ts_observe_rssi (tnc_submit sha (recording tr) (lift_clock monotonic) (lift_sleep slp)) (tnc_clock (lift_clock monotonic))
      q now raw (Some (tnc_random (lift_random src))) (c, (ow, (l, w))) = (Inr ob, q', (c', (ow', (l', w'))))"
    and dispatched: "ko_request_state ob = Some KR_DISPATCHED"
  shows "\<exists>l1 entry. prefix (l @ l1 @ [entry]) l' \<and> client_burst received entry"
proof -
  let ?tr = "recording tr" and ?clock = "lift_clock monotonic" and ?slp = "lift_sleep slp" and ?src = "lift_random src"
  let ?port = "owner_port product_owner_dispatch ?tr"
  let ?grown = "records_any {l} :: wire_log \<times> 't \<Rightarrow> bool"
  let ?sent = "records_any {l @ l1 @ [entry] | l1 entry. client_burst received entry} :: wire_log \<times> 't \<Rightarrow> bool"
  have start: "submitter_ok ?grown (c, (ow, (l, w)))"
    using ok by (simp add: tnc_system_ok_def submitter_ok_def owner_world_ok_def records_all)
  obtain t1 w1 where c1: "tnc_clock ?clock (c, (ow, (l, w))) = (t1, w1)" by (rule prod.exhaust)
  have w1: "submitter_ok ?grown w1"
    using wire.tnc_parts_kept(1) [OF start, where monotonic = monotonic] c1 by simp
  have kq: "kq_observe_rssi (tnc_submit sha ?tr ?clock ?slp) q t1 raw (Some (tnc_random ?src)) w1 = (Inr ob, q', (c', (ow', (l', w'))))"
    using obs c1 by (simp add: ts_observe_rssi_def)
  obtain r rest w2 receipt where q: "kq_queue q = r # rest" and w2: "submitter_ok ?grown w2"
    and sub: "tnc_submit sha ?tr ?clock ?slp (kq_frame_with_fcs r) (kq_context r) (Some (kq_downstream_timeout_seconds q)) w2 =
      (Inr receipt, (c', (ow', (l', w'))))"
    by (rule kq_dispatch_submits [OF kq dispatched, of "submitter_ok ?grown"]) (use w1 wire.tnc_parts_kept(2) in auto)
  let ?t = "kq_downstream_timeout_seconds q" and ?profile = "tc_txdelay_profile (kq_context r)"
  obtain c2 v2 where w2eq: "w2 = (c2, v2)" by (rule prod.exhaust)
  have ctx: "contextual_submit_frame sha ?port (lift_clock ?clock) (lift_sleep ?slp)
      c2 (kq_frame_with_fcs r) ?profile (Some ?t) v2 = Some (Inr receipt, c', (ow', (l', w')))"
    using sub w2eq by (auto simp: tnc_submit_def split: option.splits)
  have req: "client_request received r" and t: "0 < ?t" using ok q by (auto simp: tnc_system_ok_def)
  then have captured: "resolve_txdelay (kr_txdelay (kq_receipt r)) = Inr ?profile" by (simp add: client_request_def)
  then have profile: "resolve_txdelay (tp_units ?profile) = Inr ?profile" using resolve_txdelay_Inr(3) [OF captured] by simp
  have router: "router_ok (ch_router c2)" and v2: "owner_world_ok ?grown v2" using w2 w2eq by (auto simp: submitter_ok_def)
  obtain u1 u2 u3 u4 where cyc: "checked_rx_status ?port ?t require_active_rx v2 = (Inr (), u1)"
      "mp_rx_stop ?port (Some ?t) u1 = (Inr (), u2)" "checked_rx_status ?port ?t require_inactive_rx u2 = (Inr (), u3)"
      "one_burst sha ?port (tp_pre_flags ?profile) (kq_frame_with_fcs r) ?t u3 receipt u4"
    and last: "owner_world_ok ?sent u4 \<longrightarrow> owner_world_ok ?sent (ow', (l', w'))"
    using wire.owner.contextual_burst_kept [OF ctx router profile, where ls = "{l @ l1 @ [entry] | l1 entry. client_burst received entry}"]
    by blast
  have u1: "owner_world_ok ?grown u1" using wire.owner.checked_kept [OF v2, where t = ?t and check = require_active_rx and tr = tr] cyc(1) by simp
  then have u2: "owner_world_ok ?grown u2" using wire.owner.rx_stop_kept [OF u1, where t = "Some ?t" and tr = tr] cyc(2) by simp
  then have u3: "owner_world_ok ?grown u3"
    using wire.owner.checked_kept [OF u2, where t = ?t and check = require_inactive_rx and tr = tr] cyc(3) by simp
  have idle3: "idle_world u3" using u3 by (simp add: owner_world_ok_def)
  have "owner_world_ok ?sent u4"
  proof (rule one_burst_exchange [OF cyc(4) idle3 resolve_txdelay_Inr(4) [OF profile] t])
    fix request response owx wx owy wy
    assume st: "snd (mp_rf_status ?port (Some ?t) u3) = (owx, wx)" and u4: "u4 = (owy, wy)"
      and ex: "mt_transact ?tr request ?t wx = (Inr response, wy)" and ack: "parse_ack response YWD_RF = Inr ()"
      and carries: "request_carries request (tp_pre_flags ?profile) (kq_frame_with_fcs r)"
    have "owner_world_ok ?grown (owx, wx)"
      using wire.owner.rf_status_kept [OF u3, where t = "Some ?t" and tr = tr] st by simp
    then have "prefix l (fst wx)" by (simp add: owner_world_ok_def records_all)
    then obtain l1 where l1: "fst wx = l @ l1" by (auto simp: prefix_def)
    have "fst wy = fst wx @ [(request, response)]"
      using ex by (cases wx) (auto simp: recording_def Let_def split: prod.splits)
    with l1 have log: "fst wy = l @ l1 @ [(request, response)]" by simp
    obtain m parsed where m: "m \<in> received" "km_command m = KISS_DATA" "km_port m = 0" "parse_frame (km_frame m) False = Inr parsed"
      "kq_frame_with_fcs r = append_fcs (km_frame m)" using req by (auto simp: client_request_def)
    have "client_burst received (request, response)"
      unfolding client_burst_def prod.case using ack carries [unfolded m(5)] captured m(1-4) by blast
    with log have "?sent wy" unfolding records_any_def by blast
    moreover have "idle_world u4" using wire.one_burst_kept [OF u3 cyc(4)] by (simp add: owner_world_ok_def)
    ultimately show ?thesis using u4 by (simp add: owner_world_ok_def)
  qed
  with last show ?thesis by (auto simp: owner_world_ok_def records_any_def)
qed

subsection \<open>Every counted dispatch is on the wire\<close>

abbreviation wire_log_of :: "(wire_log \<times> 't) tnc_system \<Rightarrow> wire_log" where
  "wire_log_of s \<equiv> fst (snd (snd (snd (snd s))))"

text \<open>What holds of the service while it runs, for a set of messages that contains all that clients send.\<close>

definition service_ok :: "kiss_message set \<Rightarrow> (wire_log \<times> 't) service \<Rightarrow> bool" where
  "service_ok received = (\<lambda>(s, batches). tnc_system_ok received s \<and> messages_of (concat batches) \<subseteq> received)"

definition service_next :: "kiss_message set \<Rightarrow> (wire_log \<times> 't) service \<Rightarrow> (wire_log \<times> 't) service \<Rightarrow> bool" where
  "service_next received s s' \<longleftrightarrow> service_ok received s' \<and> prefix (wire_log_of (fst s)) (wire_log_of (fst s'))"

abbreviation "recording_env gate sha tr monotonic slp src \<equiv>
  service_env gate sha (recording tr) (lift_clock monotonic) (lift_sleep slp) (lift_random src)"

abbreviation "recording_clients gate sha tr monotonic slp src \<equiv>
  after_clients gate sha (recording tr) (lift_clock monotonic) (lift_sleep slp) (lift_random src)"

lemma system_submitter_ok:
  "tnc_system_ok received s \<Longrightarrow> submitter_ok (records_any {wire_log_of s}) (snd (snd s))"
  by (auto simp: tnc_system_ok_def submitter_ok_def owner_world_ok_def records_any_def)

lemma submitter_log: "submitter_ok (records_any {l}) w \<Longrightarrow> prefix l (fst (snd (snd w)))"
  by (simp add: submitter_ok_def owner_world_ok_def records_any_def)

lemma gated_message_ok:
  assumes "tnc_system_ok received (b, q, w)" "\<not> gate" "km_port m = 0" "km_command m = KISS_DATA"
  shows "tnc_system_ok received (snd (product_client_message gate monotonic m b q w))"
proof -
  have "parameters_ok (ts_parameters (cb_session (tb_control b)))"
    using assms(1) by (auto simp: tnc_system_ok_def ingress_books_def split: prod.splits)
  from control_message_ok [OF this, of m] obtain res c where "control_client_message m (tb_control b) = (Inr res, c)"
    "parameters_ok (ts_parameters (cb_session c))" by blast
  with assms show ?thesis by (auto simp: product_client_message_def tnc_system_ok_def ingress_books_def split: prod.splits)
qed

lemma client_step_next:
  assumes "tnc_system_ok received s" "messages_of [ev] \<subseteq> received"
    and "client_step gate sha (recording tr) (lift_clock monotonic) (lift_sleep slp) (lift_random src) s ev = s'"
  shows "tnc_system_ok received s' \<and> prefix (wire_log_of s) (wire_log_of s')"
proof
  obtain b q w b' q' w' where sw: "s = (b, q, w)" "s' = (b', q', w')" by (metis prod_cases3)
  have "received \<union> messages_of [ev] = received" using assms(2) by auto
  with tnc_step_ok [OF assms(1), of ev sha "recording tr" "lift_clock monotonic" "lift_sleep slp" "lift_random src"] assms(1,3)
    gated_message_ok [of received b q w gate _ "tnc_clock (lift_clock monotonic)"] sw(1)
  show "tnc_system_ok received s'"
    by (cases ev) (auto simp: client_step_def product_client_message_def tnc_system_step_def tnc_step_def)
  have "submitter_ok (records_any {wire_log_of s}) w" using system_submitter_ok [OF assms(1)] sw by simp
  from submitter_log [OF wire.client_step_kept [OF this assms(3) [unfolded sw]]] sw
  show "prefix (wire_log_of s) (wire_log_of s')" by simp
qed

lemma client_batch_next:
  assumes "tnc_system_ok received s" "messages_of batch \<subseteq> received"
  shows "tnc_system_ok received (run (client_step gate sha (recording tr) (lift_clock monotonic) (lift_sleep slp) (lift_random src)) s batch) \<and>
    prefix (wire_log_of s) (wire_log_of (run (client_step gate sha (recording tr) (lift_clock monotonic) (lift_sleep slp) (lift_random src)) s batch))"
  using assms
proof (induction batch arbitrary: s)
  case (Cons ev batch)
  let ?step = "client_step gate sha (recording tr) (lift_clock monotonic) (lift_sleep slp) (lift_random src)"
  have first: "tnc_system_ok received (?step s ev) \<and> prefix (wire_log_of s) (wire_log_of (?step s ev))"
    by (rule client_step_next [OF Cons.prems(1) _ refl]) (use Cons.prems(2) in \<open>auto simp: messages_of_def\<close>)
  have "messages_of batch \<subseteq> received" using Cons.prems(2) by (auto simp: messages_of_def)
  with Cons.IH [of "?step s ev"] first show ?case by (auto intro: prefix_order.trans)
qed simp

lemma clients_run_next:
  "service_ok received s \<Longrightarrow>
     service_next received s (clients_run gate sha (recording tr) (lift_clock monotonic) (lift_sleep slp) (lift_random src) s)"
proof -
  assume ok: "service_ok received s"
  obtain sys batches where s: "s = (sys, batches)" by (rule prod.exhaust)
  show ?thesis
  proof (cases batches)
    case (Cons batch rest)
    then have "messages_of batch \<subseteq> received" "messages_of (concat rest) \<subseteq> received"
      using ok s by (auto simp: service_ok_def messages_of_def)
    with client_batch_next [of received sys batch gate sha tr monotonic slp src] ok s Cons show ?thesis
      by (simp add: service_next_def service_ok_def clients_run_def)
  qed (use ok s in \<open>simp add: service_next_def clients_run_def\<close>)
qed

text \<open>An operation of the worker that keeps the system and the record, in the company of clients.\<close>

definition system_keeps :: "((wire_log \<times> 't) tnc_system \<Rightarrow> 'a \<times> (wire_log \<times> 't) tnc_system) \<Rightarrow> bool" where
  "system_keeps m \<longleftrightarrow> (\<forall>received s. tnc_system_ok received s \<longrightarrow>
     tnc_system_ok received (snd (m s)) \<and> prefix (wire_log_of s) (wire_log_of (snd (m s))))"

lemma after_clients_next:
  assumes "system_keeps m" "service_ok received s"
  shows "service_next received s (snd (recording_clients gate sha tr monotonic slp src m s))"
proof -
  obtain sys batches where run: "clients_run gate sha (recording tr) (lift_clock monotonic) (lift_sleep slp) (lift_random src) s = (sys, batches)"
    by (rule prod.exhaust)
  obtain r sys' where m: "m sys = (r, sys')" by (rule prod.exhaust)
  from clients_run_next [OF assms(2), of gate sha tr monotonic slp src] run
  have "tnc_system_ok received sys" "messages_of (concat batches) \<subseteq> received" "prefix (wire_log_of (fst s)) (wire_log_of sys)"
    by (auto simp: service_next_def service_ok_def)
  moreover from this assms(1) m have "tnc_system_ok received sys' \<and> prefix (wire_log_of sys) (wire_log_of sys')"
    unfolding system_keeps_def by (metis snd_conv)
  ultimately show ?thesis
    by (auto simp: after_clients_def run m service_next_def service_ok_def intro: prefix_order.trans)
qed

lemma books_world: "ingress_books (b, q, w) = ingress_books (b, q, w')"
  by (simp add: ingress_books_def)

lemma system_keepsI:
  fixes m :: "(wire_log \<times> 't) tnc_system \<Rightarrow> 'a \<times> (wire_log \<times> 't) tnc_system"
  assumes "\<And>b q w r b' q' w' l. m (b, q, w) = (r, (b', q', w')) \<Longrightarrow> submitter_ok (records_any {l}) w \<Longrightarrow> submitter_ok (records_any {l}) w'"
    and "\<And>received b q w r b' q' w'. m (b, q, w) = (r, (b', q', w')) \<Longrightarrow> tnc_system_ok received (b, q, w) \<Longrightarrow>
      ingress_books (b', q', w') \<and> (\<forall>r \<in> set (kq_queue q'). client_request received r) \<and> 0 < kq_downstream_timeout_seconds q'"
  shows "system_keeps m"
  unfolding system_keeps_def
proof (intro allI impI)
  fix received and s :: "(wire_log \<times> 't) tnc_system"
  assume ok: "tnc_system_ok received s"
  obtain b q w where s: "s = (b, q, w)" by (rule prod_cases3)
  obtain r b' q' c' v' where m: "m (b, q, w) = (r, (b', q', (c', v')))" by (metis prod.collapse)
  from assms(1) [OF m, of "wire_log_of s"] system_submitter_ok [OF ok] s
  have sub: "submitter_ok (records_any {wire_log_of s}) (c', v')" by simp
  with assms(2) [OF m ok [unfolded s]] have "tnc_system_ok received (b', q', (c', v'))"
    by (simp add: tnc_system_ok_def submitter_ok_def owner_world_ok_def)
  with submitter_log [OF sub] m s show "tnc_system_ok received (snd (m s)) \<and> prefix (wire_log_of s) (wire_log_of (snd (m s)))" by simp
qed

lemma owner_keeps:
  assumes "\<And>l v. owner_world_ok (records_any {l}) v \<Longrightarrow> owner_world_ok (records_any {l}) (snd (m v))"
  shows "system_keeps (on_owner m)"
proof (rule system_keepsI, goal_cases)
  case (1 b q w r b' q' w' l)
  obtain c v where w: "w = (c, v)" by (rule prod.exhaust)
  obtain r0 v' where "m v = (r0, v')" by (rule prod.exhaust)
  with assms [of l v] 1 w show ?case by (auto simp: on_owner_def submitter_ok_def)
next
  case (2 received b q w r b' q' w')
  then show ?case
    by (cases w) (auto simp: on_owner_def tnc_system_ok_def books_world [of _ _ w' w] Let_def split: prod.splits)
qed

lemma clock_keeps: "system_keeps (\<lambda>(b, q, w). let (t, w) = tnc_clock (lift_clock monotonic) w in (t, (b, q, w)))"
proof (rule system_keepsI, goal_cases)
  case (1 b q w r b' q' w' l)
  then show ?case using wire.tnc_parts_kept(1) [OF 1(2), where monotonic = monotonic] by (auto simp: Let_def split: prod.splits)
next
  case (2 received b q w r b' q' w')
  then show ?case by (cases w) (auto simp: tnc_system_ok_def books_world [of _ _ w' w] Let_def split: prod.splits)
qed

lemma pause_keeps: "system_keeps (\<lambda>(b, q, c, ow, w). ((), (b, q, c, ow, lift_sleep slp d w)))"
proof (rule system_keepsI, goal_cases)
  case (1 b q w r b' q' w' l)
  then show ?case using wire.pause_kept [of "{l}"]
    by (cases w) (auto simp: submitter_ok_def owner_world_ok_def idle_world_def)
next
  case (2 received b q w r b' q' w')
  then show ?case by (cases w) (auto simp: tnc_system_ok_def books_world [of _ _ w' w])
qed

lemma publish_keeps: "system_keeps (\<lambda>(b, q, w). ((), (backend_publish event b, q, w)))"
proof (rule system_keepsI, goal_cases)
  case (2 received b q w r b' q' w')
  then show ?case by (cases w) (auto simp: tnc_system_ok_def ingress_books_def backend_publish_def)
qed simp

lemma observe_keeps:
  "system_keeps (\<lambda>(b, q, w).
     let (res, q, w) = ts_observe_rssi (tnc_submit sha (recording tr) (lift_clock monotonic) (lift_sleep slp))
       (tnc_clock (lift_clock monotonic)) q now raw (Some (tnc_random (lift_random src))) w
     in (res, (b, q, w)))"
proof (rule system_keepsI, goal_cases)
  case (1 b q w r b' q' w' l)
  then show ?case using wire.observation_kept [OF 1(2), where sha = sha and tr = tr and monotonic = monotonic and slp = slp and src = src]
    by (auto simp: Let_def split: prod.splits)
next
  case (2 received b q w r b' q' w')
  obtain res where obs: "ts_observe_rssi (tnc_submit sha (recording tr) (lift_clock monotonic) (lift_sleep slp))
      (tnc_clock (lift_clock monotonic)) q now raw (Some (tnc_random (lift_random src))) w = (res, q', w')" and b: "b' = b"
    using 2(1) by (auto simp: Let_def split: prod.splits)
  have "tnc_system_ok (received \<union> messages_of [TeObserve now raw])
      (tnc_system_step sha (recording tr) (lift_clock monotonic) (lift_sleep slp) (lift_random src) (b, q, w) (TeObserve now raw))"
    by (rule tnc_step_ok [OF 2(2)])
  then have "tnc_system_ok received (b, q', w')"
    using obs by (simp add: tnc_system_step_def tnc_step_def messages_of_def)
  with b show ?case by (cases w') (simp add: tnc_system_ok_def)
qed

text \<open>The dispatches that the runtime counts are bursts of clients, in order, among what the transport answered.\<close>

definition bursts_sent :: "kiss_message set \<Rightarrow> nat \<Rightarrow> (wire_log \<times> 't) service \<Rightarrow> bool" where
  "bursts_sent received n s \<longleftrightarrow>
     (\<exists>sent. subseq sent (wire_log_of (fst s)) \<and> length sent = n \<and> list_all (client_burst received) sent)"

definition dispatches_sent :: "kiss_message set \<Rightarrow> tnc_runtime \<times> (wire_log \<times> 't) service \<Rightarrow> bool" where
  "dispatches_sent received = (\<lambda>(rt, s). service_ok received s \<and> bursts_sent received (rt_tx_dispatches rt) s)"

lemma bursts_next:
  assumes "service_next received s s'" "bursts_sent received n s"
  shows "bursts_sent received n s'"
proof -
  obtain l1 where "wire_log_of (fst s') = wire_log_of (fst s) @ l1" using assms(1) by (auto simp: service_next_def prefix_def)
  with assms(2) show ?thesis by (auto simp: bursts_sent_def intro: subseq_rev_drop_many)
qed

lemma sent_next:
  "dispatches_sent received (rt, s) \<Longrightarrow> service_next received s s' \<Longrightarrow> rt_tx_dispatches rt' = rt_tx_dispatches rt \<Longrightarrow>
     dispatches_sent received (rt', s')"
  using bursts_next [of received s s' "rt_tx_dispatches rt"] by (simp add: dispatches_sent_def service_next_def)

lemma sent_same: "dispatches_sent received (rt, s) \<Longrightarrow> rt_tx_dispatches rt' = rt_tx_dispatches rt \<Longrightarrow> dispatches_sent received (rt', s)"
  by (simp add: dispatches_sent_def)

lemma sent_clients:
  assumes "system_keeps m" "dispatches_sent received (rt, s)"
  shows "dispatches_sent received (rt, snd (recording_clients gate sha tr monotonic slp src m s))"
  using sent_next [OF assms(2) after_clients_next [OF assms(1)]] assms(2) by (simp add: dispatches_sent_def)

lemma sent_owner:
  assumes "system_keeps m"
  shows "rt_keeps (dispatches_sent received) any_error (rt_owner (recording_clients gate sha tr monotonic slp src m))"
proof (rule rt_keepsI)
  fix rt s r rt' s'
  assume kept: "dispatches_sent received (rt, s)" and step: "rt_owner (recording_clients gate sha tr monotonic slp src m) (rt, s) = (r, rt', s')"
  obtain r0 s1 where m: "recording_clients gate sha tr monotonic slp src m s = (r0, s1)" by (rule prod.exhaust)
  have "dispatches_sent received (rt, s1)"
    using sent_clients [OF assms kept, of gate sha tr monotonic slp src] m by simp
  with step m show "dispatches_sent received (rt', s') \<and> (\<forall>e. r = Inl e \<longrightarrow> any_error e)"
    by (cases r0) (simp_all add: rt_owner_def)
qed

lemma sent_world:
  assumes "system_keeps m"
  shows "rt_keeps (dispatches_sent received) any_error (rt_world (recording_clients gate sha tr monotonic slp src m))"
proof (rule rt_keepsI)
  fix rt s r rt' s'
  assume kept: "dispatches_sent received (rt, s)" and step: "rt_world (recording_clients gate sha tr monotonic slp src m) (rt, s) = (r, rt', s')"
  obtain r0 s1 where m: "recording_clients gate sha tr monotonic slp src m s = (r0, s1)" by (rule prod.exhaust)
  from sent_clients [OF assms kept, of gate sha tr monotonic slp src] step m
  show "dispatches_sent received (rt', s') \<and> (\<forall>e. r = Inl e \<longrightarrow> any_error e)" by (simp add: rt_world_def)
qed

lemma port_keeps: "system_keeps (on_owner (owner_method product_owner_dispatch (recording tr) op cast timeout))"
  by (rule owner_keeps) (rule wire.owner_method_kept)

lemmas service_fields = service_env_def owner_port_def Let_def

lemma service_owner_kept:
  "rt_keeps (dispatches_sent received) any_error (rt_owner (mp_rx_read (re_owner (recording_env gate sha tr monotonic slp src)) n t))"
  "rt_keeps (dispatches_sent received) any_error (rt_owner (mp_rx_status (re_owner (recording_env gate sha tr monotonic slp src)) t))"
  "rt_keeps (dispatches_sent received) any_error (rt_owner (mp_rx_rssi (re_owner (recording_env gate sha tr monotonic slp src)) t))"
  unfolding service_fields by (simp_all add: sent_owner port_keeps)

lemma service_publish_kept:
  "dispatches_sent received (rt, s) \<Longrightarrow> dispatches_sent received (rt, re_publish (recording_env gate sha tr monotonic slp src) event s)"
  unfolding service_fields using sent_clients [OF publish_keeps] by simp

lemma service_wait_kept:
  "dispatches_sent received (rt, s) \<Longrightarrow> dispatches_sent received (rt, re_wait (recording_env gate sha tr monotonic slp src) d s)"
  unfolding service_fields using sent_clients [OF pause_keeps] by simp

lemma service_clock_kept:
  "rt_keeps (dispatches_sent received) any_error (rt_world (re_monotonic (recording_env gate sha tr monotonic slp src)))"
  unfolding service_fields by (simp add: sent_world [OF clock_keeps, unfolded Let_def])

lemma service_publish_items_kept:
  "rt_keeps (dispatches_sent received) any_error (publish_items (recording_env gate sha tr monotonic slp src) items)"
proof (induction items)
  case (Cons item items)
  have "rt_keeps (dispatches_sent received) any_error (runtime_publish (recording_env gate sha tr monotonic slp src) item)"
    by (rule rt_keepsI) (auto simp: runtime_publish_def split: sum.splits intro: sent_same [OF service_publish_kept])
  with Cons show ?case unfolding publish_items.simps by (intro rt_keeps_bind)
qed simp

lemma service_consume_kept:
  "rt_keeps (dispatches_sent received) any_error (runtime_consume table (recording_env gate sha tr monotonic slp src) chunk)"
proof (rule rt_keepsI)
  fix rt s r rt' s'
  assume kept: "dispatches_sent received (rt, s)" and step: "runtime_consume table (recording_env gate sha tr monotonic slp src) chunk (rt, s) = (r, rt', s')"
  obtain fresh d where f: "rx_feed table chunk (rt_decoder rt) = (fresh, d)" by (rule prod.exhaust)
  let ?rt = "rt\<lparr>rt_decoder := d, rt_packed_bytes := rt_packed_bytes rt + length chunk\<rparr>"
  have "dispatches_sent received (?rt, s)" by (rule sent_same [OF kept]) simp
  from rt_keepsD [OF service_publish_items_kept this] step f
  show "dispatches_sent received (rt', s') \<and> (\<forall>e. r = Inl e \<longrightarrow> any_error e)"
    by (simp add: runtime_consume_def) (metis snd_conv)
qed

lemma service_round_kept:
  "rt_keeps (dispatches_sent received) any_error (drain_round table (recording_env gate sha tr monotonic slp src))"
proof (rule rt_keepsI)
  fix rt s r rt' s'
  assume kept: "dispatches_sent received (rt, s)" and step: "drain_round table (recording_env gate sha tr monotonic slp src) (rt, s) = (r, rt', s')"
  have last: "rt_keeps (dispatches_sent received) any_error (\<lambda>s. rt_return (int (length chunk) < rt_read_maximum (fst s)) s)" for chunk
    by (rule rt_keepsI) (auto simp: rt_return_def)
  have "rt_keeps (dispatches_sent received) any_error (rt_bind
     (rt_owner (mp_rx_read (re_owner (recording_env gate sha tr monotonic slp src)) (rt_read_maximum rt) None)) (\<lambda>chunk.
     rt_bind (rt_modify (\<lambda>rt. rt\<lparr>rt_rx_reads := rt_rx_reads rt + 1\<rparr>)) (\<lambda>_.
     rt_bind (if chunk = [] then rt_return () else runtime_consume table (recording_env gate sha tr monotonic slp src) chunk) (\<lambda>_ s.
       rt_return (int (length chunk) < rt_read_maximum (fst s)) s))))"
    by (intro rt_keeps_bind service_owner_kept rt_keeps_modify last) (simp_all add: service_consume_kept sent_same)
  from rt_keepsD [OF this kept] step show "dispatches_sent received (rt', s') \<and> (\<forall>e. r = Inl e \<longrightarrow> any_error e)"
    by (simp add: drain_round_def)
qed

lemma service_status_kept:
  "rt_keeps (dispatches_sent received) any_error (checked_status (recording_env gate sha tr monotonic slp src) timeout)"
  unfolding checked_status_def record_status_check_def require_active_status_def
  by (intro rt_keeps_bind service_owner_kept rt_keeps_modify) (simp_all add: rt_keeps_raise sent_same)

text \<open>An observation that reports a dispatch leaves one more burst in the record.\<close>

lemma service_observe:
  assumes "dispatches_sent received (rt, s)"
    and "re_observe_rssi (recording_env gate sha tr monotonic slp src) now raw s = (res, s')"
  shows "dispatches_sent received (rt, s') \<and>
    (\<forall>ob. res = Inr ob \<longrightarrow> ko_request_state ob = Some KR_DISPATCHED \<longrightarrow> bursts_sent received (rt_tx_dispatches rt + 1) s')"
proof -
  let ?m = "\<lambda>(b, q, w). let (res, q, w) = ts_observe_rssi (tnc_submit sha (recording tr) (lift_clock monotonic) (lift_sleep slp))
       (tnc_clock (lift_clock monotonic)) q now raw (Some (tnc_random (lift_random src))) w in (res, (b, q, w))"
  have eq: "recording_clients gate sha tr monotonic slp src ?m s = (res, s')" using assms(2) by (simp add: service_env_def Let_def)
  have kept: "dispatches_sent received (rt, s')" using sent_clients [OF observe_keeps assms(1)] eq by (metis snd_conv)
  obtain sys batches where run: "clients_run gate sha (recording tr) (lift_clock monotonic) (lift_sleep slp) (lift_random src) s = (sys, batches)"
    by (rule prod.exhaust)
  obtain b q c ow l w where sys: "sys = (b, q, (c, (ow, (l, w))))" by (metis prod.collapse)
  obtain q' c' ow' l' w' where obs: "ts_observe_rssi (tnc_submit sha (recording tr) (lift_clock monotonic) (lift_sleep slp))
      (tnc_clock (lift_clock monotonic)) q now raw (Some (tnc_random (lift_random src))) (c, (ow, (l, w))) = (res, q', (c', (ow', (l', w'))))"
    and s': "s' = ((b, q', (c', (ow', (l', w')))), batches)"
    using eq by (auto simp: after_clients_def run sys Let_def split: prod.splits)
  have nxt: "service_next received s (sys, batches)"
    using clients_run_next [of received s gate sha tr monotonic slp src] run assms(1) by (simp add: dispatches_sent_def)
  then have ok: "tnc_system_ok received (b, q, (c, (ow, (l, w))))" by (simp add: service_next_def service_ok_def sys)
  obtain sent where sent: "subseq sent l" "length sent = rt_tx_dispatches rt" "list_all (client_burst received) sent"
    using bursts_next [OF nxt, of "rt_tx_dispatches rt"] assms(1) by (auto simp: dispatches_sent_def bursts_sent_def sys)
  have "bursts_sent received (rt_tx_dispatches rt + 1) s'" if res: "res = Inr ob" and state: "ko_request_state ob = Some KR_DISPATCHED" for ob
  proof -
    obtain l1 entry where l': "prefix (l @ l1 @ [entry]) l'" and burst: "client_burst received entry"
      using dispatch_recorded [OF ok obs [unfolded res] state] by blast
    have "subseq (sent @ [entry]) ((l @ l1) @ [entry])" using subseq_rev_drop_many [OF sent(1)] by (simp only: subseq_append)
    with l' have "subseq (sent @ [entry]) l'" by (auto intro: subseq_order.trans)
    with sent burst show ?thesis unfolding bursts_sent_def s' by (intro exI [of _ "sent @ [entry]"]) simp
  qed
  with kept show ?thesis by blast
qed

lemma service_act_kept:
  assumes "dispatches_sent received (rt, s)"
    and "ko_request_state observation = Some KR_DISPATCHED \<longrightarrow> bursts_sent received (rt_tx_dispatches rt + 1) s"
  shows "dispatches_sent received (snd (act_on_observation (recording_env gate sha tr monotonic slp src) observation (rt, s)))"
proof (cases "ko_request_state observation = Some KR_DISPATCHED \<and> ko_downstream_called observation")
  case True
  let ?env = "recording_env gate sha tr monotonic slp src"
  let ?rt = "rt\<lparr>rt_decoder := new_decoder, rt_tx_dispatches := rt_tx_dispatches rt + 1, rt_decoder_resets := rt_decoder_resets rt + 1\<rparr>"
  let ?m = "rt_bind (checked_status ?env None) (\<lambda>_. rt_bind (rt_world (re_monotonic ?env)) (\<lambda>t.
       rt_modify (\<lambda>rt. rt\<lparr>rt_next_status := t + rt_status_interval_seconds rt\<rparr>)))"
  have start: "dispatches_sent received (?rt, s)" using assms True by (simp add: dispatches_sent_def)
  have kept: "rt_keeps (dispatches_sent received) any_error ?m"
    by (intro rt_keeps_bind service_status_kept service_clock_kept rt_keeps_modify) (simp add: sent_same)
  have "act_on_observation ?env observation (rt, s) = ?m (?rt, s)" using True by (simp add: act_on_observation_def after_dispatch_def)
  with rt_keepsD [OF kept start] show ?thesis by simp
next
  case False
  with assms(1) show ?thesis
    by (auto simp: act_on_observation_def rt_modify_def rt_raise_def rt_return_def intro: sent_same)
qed

interpretation sent_worker: runtime_invariant table "recording_env gate sha tr monotonic slp src" "dispatches_sent received" any_error
  for table sha and tr :: "'t modem_transport" and monotonic slp src received
proof (unfold_locales, goal_cases)
  case (5 now raw)
  show ?case
  proof (rule rt_keepsI)
    fix rt :: tnc_runtime and s r rt' s'
    let ?rt = "rt\<lparr>rt_rssi_samples := rt_rssi_samples rt + 1\<rparr>" and ?env = "recording_env gate sha tr monotonic slp src"
    assume kept: "dispatches_sent received (rt, s)" and step: "rt_bind (rt_modify (\<lambda>rt. rt\<lparr>rt_rssi_samples := rt_rssi_samples rt + 1\<rparr>))
      (\<lambda>_. rt_bind (rt_observe ?env now raw) (act_on_observation ?env)) (rt, s) = (r, rt', s')"
    have "dispatches_sent received (?rt, s)" by (rule sent_same [OF kept]) simp
    moreover obtain res s1 where obs: "re_observe_rssi ?env now raw s = (res, s1)" by (rule prod.exhaust)
    ultimately have out: "dispatches_sent received (?rt, s1) \<and> (\<forall>ob. res = Inr ob \<longrightarrow> ko_request_state ob = Some KR_DISPATCHED \<longrightarrow>
        bursts_sent received (rt_tx_dispatches ?rt + 1) s1)" by (rule service_observe)
    show "dispatches_sent received (rt', s') \<and> (\<forall>e. r = Inl e \<longrightarrow> any_error e)"
    proof (cases res)
      case (Inl e)
      with step obs out show ?thesis by (simp add: rt_bind_def rt_observe_def rt_modify_def)
    next
      case (Inr ob)
      then have "rt_bind (rt_observe ?env now raw) (act_on_observation ?env) (?rt, s) = act_on_observation ?env ob (?rt, s1)"
        using obs by (simp add: rt_bind_def rt_observe_def)
      then have "snd (act_on_observation ?env ob (?rt, s1)) = (rt', s')" using step by simp
      with Inr service_act_kept [of received ?rt s1 ob gate sha tr monotonic slp src] out show ?thesis by simp
    qed
  qed
qed (auto intro: service_round_kept service_status_kept service_clock_kept service_owner_kept service_wait_kept sent_same)

text \<open>
  C1. Every counted dispatch is on the wire. Start the service with an idle owner and a runtime that has
  dispatched nothing, and let the worker take any number of steps while clients connect, disconnect and send
  whatever they like between any of its operations. Among the requests that the transport answered there are, in order,
  as many bursts as the runtime counts dispatches: each was acknowledged, and each carries, with the opening flags of a
  TXDELAY, exactly the octets and check sequence of a data message that some client sent on port 0 and that parses as an AX.25 frame.
\<close>

theorem service_dispatches_on_wire:
  assumes "tnc_system_init capacity request_timeout downstream_timeout parameters transmit_enabled hdp rx ow ([], w) = Some s0"
    and "owner_idle ow" "rt_tx_dispatches rt0 = 0"
    and "(runtime_step table (recording_env gate sha tr monotonic slp src) ^^ n) (rt0, s0, batches) = (rt, s, rest)"
  shows "\<exists>sent. subseq sent (wire_log_of s) \<and> length sent = rt_tx_dispatches rt \<and>
    list_all (client_burst (messages_of (concat batches))) sent"
proof -
  let ?received = "messages_of (concat batches)"
  have "tnc_system_ok ?received s0"
    using tnc_system_init_ok [OF assms(1,2)] by (auto simp: tnc_system_ok_def intro: client_request_mono)
  then have "dispatches_sent ?received (rt0, s0, batches)"
    using assms(3) by (simp add: dispatches_sent_def service_ok_def bursts_sent_def)
  from sent_worker.steps_kept [OF this, where n = n and table = table and gate = gate and sha = sha and tr = tr and monotonic = monotonic and slp = slp and src = src]
  show ?thesis unfolding assms(4) by (simp add: dispatches_sent_def bursts_sent_def)
qed

subsection \<open>Example\<close>

text \<open>A step of a worker that receives nothing: a read, the clock, a sample and an observation.\<close>

definition quiet_observation :: "('w, 'r) runtime_env \<Rightarrow> int \<Rightarrow> 'w \<Rightarrow> (seconds \<times> 'r kq_observation \<times> 'w) option" where
  "quiet_observation env maximum s =
     (case mp_rx_read (re_owner env) maximum None s of
        (Inl e, s) \<Rightarrow> None
      | (Inr chunk, s) \<Rightarrow>
          if chunk \<noteq> [] then None
          else
            (let (now, s) = re_monotonic env s in
             if re_queue_depth env s = 0 then None
             else
               (case mp_rx_rssi (re_owner env) None s of
                  (Inl e, s) \<Rightarrow> None
                | (Inr rssi, s) \<Rightarrow>
                    (case re_observe_rssi env now (rssi_raw_magnitude rssi) s of
                       (Inl e, s) \<Rightarrow> None
                     | (Inr ob, s) \<Rightarrow> Some (now, ob, s)))))"

lemma rt_bind_Inr: "m s = (Inr x, s') \<Longrightarrow> rt_bind m f s = f x s'"
  by (simp add: rt_bind_def)

lemma quiet_step:
  assumes "quiet_observation env (rt_read_maximum rt) s = Some (now, ob, s')" "now < rt_next_status rt"
    and "rt_alive rt" "\<not> rt_stop rt" "0 < rt_read_maximum rt" "rt_idle_sleep_seconds rt = 0"
    and "act_on_observation env ob (rt\<lparr>rt_rx_reads := rt_rx_reads rt + 1, rt_rssi_samples := rt_rssi_samples rt + 1\<rparr>, s') = (Inr (), rt', s'')"
    and "rt_idle_sleep_seconds rt' = 0"
  shows "runtime_step table env (rt, s) = (rt', s'')"
proof -
  let ?rt = "rt\<lparr>rt_rx_reads := rt_rx_reads rt + 1\<rparr>"
  obtain s1 s2 rssi s3 where read: "mp_rx_read (re_owner env) (rt_read_maximum rt) None s = (Inr [], s1)"
    and clock: "re_monotonic env s1 = (now, s2)" and depth: "re_queue_depth env s2 \<noteq> 0"
    and rssi: "mp_rx_rssi (re_owner env) None s2 = (Inr rssi, s3)"
    and obs: "re_observe_rssi env now (rssi_raw_magnitude rssi) s3 = (Inr ob, s')"
    using assms(1) by (auto simp: quiet_observation_def Let_def split: prod.splits sum.splits if_splits)
  have "drain_rx_loop table env (Suc m) (rt, s) = (Inr (), ?rt, s1)" for m
    using assms(4,5) by (simp add: rt_bind_def drain_round_def rt_owner_def read rt_return_def rt_modify_def)
  from this [of 3] have drain: "drain_rx_fifo table env (rt, s) = (Inr (), ?rt, s1)"
    by (simp add: drain_rx_fifo_def RX_FIFO_DRAIN_READ_LIMIT_def)
  have act: "rt_bind (rt_observe env now (rssi_raw_magnitude rssi)) (act_on_observation env)
      (?rt\<lparr>rt_rssi_samples := rt_rssi_samples ?rt + 1\<rparr>, s3) = (Inr (), rt', s'')"
    using assms(7) by (simp add: rt_bind_def rt_observe_def obs)
  have "rt_owner (mp_rx_rssi (re_owner env) None) (?rt, s2) = (Inr rssi, ?rt, s3)" by (simp add: rt_owner_def rssi)
  note sampled = rt_bind_Inr [of "rt_owner (mp_rx_rssi (re_owner env) None)" "(?rt, s2)" rssi "(?rt, s3)", OF this]
  have "serve_queue env now (?rt, s2) = (Inr (), rt', s'')"
    unfolding serve_queue_def using depth act by (simp only: fst_conv snd_conv if_True sampled rt_bind_modify simp_thms)
  then have "runtime_iteration table env (rt, s) = (Inr (), rt', s'')"
    using assms(2,8) by (simp add: runtime_iteration_def rt_bind_def drain rt_world_def clock status_due_def rt_return_def idle_wait_def)
  then show ?thesis using assms(3,4) by (simp add: runtime_step_def)
qed

text \<open>
  Three steps of the worker: nothing received, signal strength 100, and at the third observation the half-duplex
  cycle of the example, after which the receiver is active.
\<close>

definition service_script :: "bytes list" where
  "service_script =
     concat (replicate 3 [[0xE0, 5, 0x59, 2, 0], [0xE0, 6, 0x59, 5, 100, 0]]) @ cycle_script @
       [[0xE0, 14, 0x59, 4, 3, 13, 0, 0, 0, 0, 0, 0, 0, 0]]"

definition service_system :: "(wire_log \<times> script_world) tnc_system option" where
  "service_system =
     tnc_system_init 4 30 (3 / 2) (Some (default_tnc_parameters\<lparr>tn_txdelay := 0\<rparr>)) True bench_hd_parameters
       \<lparr>rb_history_capacity = 0, rb_subscriber_queue_capacity = 1, rb_events = [], rb_subscribers = [],
        rb_next_stream = 0, rb_tx_rejected = 0, rb_control_ignored = 0, rb_subscriber_drops = 0\<rparr>
       (example_owner\<lparr>ow_thread := OwnerAlive, ow_accepting := True\<rparr>) ([], (service_script, 0))"

abbreviation "service_example \<equiv>
  recording_env True (\<lambda>_. ''digest'') script_transport script_clock script_sleep script_random"

definition waits :: "(seconds \<times> 'r kq_observation \<times> 'w) option \<Rightarrow> ('w \<Rightarrow> bool) \<Rightarrow> bool" where
  "waits out rest \<longleftrightarrow> (case out of None \<Rightarrow> False | Some (now, ob, s) \<Rightarrow> now < 1000 \<and> ko_request_state ob = Some KR_ACCESS \<and> rest s)"

definition dispatches :: "(seconds \<times> 'r kq_observation \<times> 'w) option \<Rightarrow> ('w \<Rightarrow> bool) \<Rightarrow> bool" where
  "dispatches out rest \<longleftrightarrow> (case out of None \<Rightarrow> False | Some (now, ob, s) \<Rightarrow> now < 1000 \<and> ko_request_state ob = Some KR_DISPATCHED \<and>
     ko_downstream_called ob \<and> rest s)"

lemma service_example_run:
  "case service_system of
     None \<Rightarrow> False
   | Some s \<Rightarrow>
       waits (quiet_observation service_example 200 (s, [[TeMessage example_message]])) (\<lambda>s.
       waits (quiet_observation service_example 200 s) (\<lambda>s.
       dispatches (quiet_observation service_example 200 s) (\<lambda>s.
         case fst (mp_rx_status (re_owner service_example) None s) of
           Inl _ \<Rightarrow> False
         | Inr st \<Rightarrow> rx_flags st = 13 \<and> rx_dropped_bytes st = 0)))"
  by code_simp

lemma waits_Some: "waits out rest \<Longrightarrow> \<exists>now ob s. out = Some (now, ob, s) \<and> now < 1000 \<and> ko_request_state ob = Some KR_ACCESS \<and> rest s"
  by (auto simp: waits_def split: option.splits)

lemma dispatches_Some:
  "dispatches out rest \<Longrightarrow> \<exists>now ob s. out = Some (now, ob, s) \<and> now < 1000 \<and> ko_request_state ob = Some KR_DISPATCHED \<and>
     ko_downstream_called ob \<and> rest s"
  by (auto simp: dispatches_def split: option.splits)

text \<open>A worker that is fit for the example.\<close>

definition patient :: "tnc_runtime \<Rightarrow> bool" where
  "patient rt \<longleftrightarrow> rt_alive rt \<and> \<not> rt_stop rt \<and> rt_read_maximum rt = 200 \<and> rt_idle_sleep_seconds rt = 0 \<and> rt_next_status rt = 1000"

lemma waiting_step:
  assumes "patient rt" "quiet_observation env 200 s = Some (now, ob, s')" "now < 1000" "ko_request_state ob = Some KR_ACCESS"
  obtains rt' where "runtime_step table env (rt, s) = (rt', s')" "patient rt'" "rt_tx_dispatches rt' = rt_tx_dispatches rt"
proof -
  let ?rt = "rt\<lparr>rt_rx_reads := rt_rx_reads rt + 1, rt_rssi_samples := rt_rssi_samples rt + 1\<rparr>"
  have "act_on_observation env ob (?rt, s') = (Inr (), ?rt, s')" using assms(4) by (simp add: act_on_observation_def rt_return_def)
  with assms have "runtime_step table env (rt, s) = (?rt, s')" by (intro quiet_step) (simp_all add: patient_def)
  moreover have "patient ?rt" using assms(1) by (simp add: patient_def)
  ultimately show thesis by (intro that [of ?rt]) simp_all
qed

lemma dispatching_step:
  assumes "patient rt" "quiet_observation env 200 s = Some (now, ob, s')" "now < 1000"
    and "ko_request_state ob = Some KR_DISPATCHED" "ko_downstream_called ob"
    and "mp_rx_status (re_owner env) None s' = (Inr st, s1)" "rx_flags st = 13" "rx_dropped_bytes st = 0"
  obtains rt' s'' where "runtime_step table env (rt, s) = (rt', s'')" "rt_tx_dispatches rt' = rt_tx_dispatches rt + 1"
proof -
  let ?rt = "rt\<lparr>rt_rx_reads := rt_rx_reads rt + 1, rt_rssi_samples := rt_rssi_samples rt + 1\<rparr>"
  obtain t s2 where clock: "re_monotonic env s1 = (t, s2)" by (rule prod.exhaust)
  have status: "checked_status env None (rt1, s') = (Inr (), rt1\<lparr>rt_status_checks := rt_status_checks rt1 + 1\<rparr>, s1)" for rt1
    using assms(6-8)
    by (simp add: checked_status_def rt_bind_def rt_owner_def record_status_check_def rt_modify_def require_active_status_def
        ACTIVE_RX_FLAGS_def rt_return_def)
  note check = rt_bind_Inr [of "checked_status env None" "(rt1, s')" "()" "(rt1\<lparr>rt_status_checks := rt_status_checks rt1 + 1\<rparr>, s1)" for rt1, OF status]
  obtain rt' where "act_on_observation env ob (?rt, s') = (Inr (), rt', s2)" and rt': "rt_tx_dispatches rt' = rt_tx_dispatches rt + 1"
      "rt_idle_sleep_seconds rt' = rt_idle_sleep_seconds rt"
    using assms(4,5)
    by (simp add: check act_on_observation_def after_dispatch_def) (simp add: rt_bind_def rt_world_def clock rt_modify_def)
  with assms have "runtime_step table env (rt, s) = (rt', s2)" by (intro quiet_step) (simp_all add: patient_def)
  with rt' show thesis by (intro that) simp_all
qed

theorem service_dispatches_on_wire_witness:
  "\<exists>s0 rt s rest entry. service_system = Some s0 \<and>
     (runtime_step example_table service_example ^^ 3) (script_runtime\<lparr>rt_next_status := 1000\<rparr>, s0, [[TeMessage example_message]]) = (rt, s, rest) \<and>
     rt_tx_dispatches rt = 1 \<and> entry \<in> set (wire_log_of s) \<and> client_burst {example_message} entry"
proof -
  let ?rt0 = "script_runtime\<lparr>rt_next_status := 1000\<rparr>"
  have p0: "patient ?rt0" by (simp add: patient_def script_runtime_fields)
  have d0: "rt_tx_dispatches ?rt0 = 0"
    by (simp add: script_runtime_def runtime_init_def) (code_simp)
  from outcome_Some [OF service_example_run] obtain s0 where s0: "service_system = Some s0"
    and w1: "waits (quiet_observation service_example 200 (s0, [[TeMessage example_message]])) (\<lambda>s.
       waits (quiet_observation service_example 200 s) (\<lambda>s.
       dispatches (quiet_observation service_example 200 s) (\<lambda>s.
         case fst (mp_rx_status (re_owner service_example) None s) of Inl _ \<Rightarrow> False | Inr st \<Rightarrow> rx_flags st = 13 \<and> rx_dropped_bytes st = 0)))"
    by (elim exE conjE)
  from waits_Some [OF w1] obtain now1 ob1 s1 where q1: "quiet_observation service_example 200 (s0, [[TeMessage example_message]]) = Some (now1, ob1, s1)"
      "now1 < 1000" "ko_request_state ob1 = Some KR_ACCESS" and w2: "waits (quiet_observation service_example 200 s1) (\<lambda>s.
       dispatches (quiet_observation service_example 200 s) (\<lambda>s.
         case fst (mp_rx_status (re_owner service_example) None s) of Inl _ \<Rightarrow> False | Inr st \<Rightarrow> rx_flags st = 13 \<and> rx_dropped_bytes st = 0))"
    by (elim exE conjE)
  from waits_Some [OF w2] obtain now2 ob2 s2 where q2: "quiet_observation service_example 200 s1 = Some (now2, ob2, s2)"
      "now2 < 1000" "ko_request_state ob2 = Some KR_ACCESS" and w3: "dispatches (quiet_observation service_example 200 s2) (\<lambda>s.
         case fst (mp_rx_status (re_owner service_example) None s) of Inl _ \<Rightarrow> False | Inr st \<Rightarrow> rx_flags st = 13 \<and> rx_dropped_bytes st = 0)"
    by (elim exE conjE)
  from dispatches_Some [OF w3] obtain now3 ob3 s3 where q3: "quiet_observation service_example 200 s2 = Some (now3, ob3, s3)"
      "now3 < 1000" "ko_request_state ob3 = Some KR_DISPATCHED" "ko_downstream_called ob3"
    and w4: "case fst (mp_rx_status (re_owner service_example) None s3) of Inl _ \<Rightarrow> False | Inr st \<Rightarrow> rx_flags st = 13 \<and> rx_dropped_bytes st = 0"
    by (elim exE conjE)
  from outcome_Inr [OF w4] obtain st s4 where st: "mp_rx_status (re_owner service_example) None s3 = (Inr st, s4)"
      "rx_flags st = 13" "rx_dropped_bytes st = 0" by (elim exE conjE)
  obtain rt1 where r1: "runtime_step example_table service_example (?rt0, s0, [[TeMessage example_message]]) = (rt1, s1)" "patient rt1"
      "rt_tx_dispatches rt1 = rt_tx_dispatches ?rt0" by (rule waiting_step [OF p0 q1])
  obtain rt2 where r2: "runtime_step example_table service_example (rt1, s1) = (rt2, s2)" "patient rt2"
      "rt_tx_dispatches rt2 = rt_tx_dispatches rt1" by (rule waiting_step [OF r1(2) q2])
  obtain rt3 s5 where r3: "runtime_step example_table service_example (rt2, s2) = (rt3, s5)" "rt_tx_dispatches rt3 = rt_tx_dispatches rt2 + 1"
    by (rule dispatching_step [OF r2(2) q3 st(1)]) (rule st(2,3))+
  obtain s rest where s5: "s5 = (s, rest)" by (rule prod.exhaust)
  have run: "(runtime_step example_table service_example ^^ 3) (?rt0, s0, [[TeMessage example_message]]) = (rt3, s, rest)"
    by (simp add: numeral_3_eq_3 r1(1) r2(1) r3(1) s5)
  have one: "rt_tx_dispatches rt3 = 1" using r1(3) r2(3) r3(2) d0 by simp
  have idle: "owner_idle (example_owner\<lparr>ow_thread := OwnerAlive, ow_accepting := True\<rparr>)" by (simp add: owner_idle_def)
  from service_dispatches_on_wire [OF s0 [unfolded service_system_def] idle d0 run] obtain sent where
    sent: "subseq sent (wire_log_of s)" "length sent = 1" "list_all (client_burst (messages_of (concat [[TeMessage example_message]]))) sent"
    unfolding one by (elim exE conjE)
  from sent(2) obtain entry where "sent = [entry]" by (auto simp: length_Suc_conv)
  with sent have "entry \<in> set (wire_log_of s)" "client_burst {example_message} entry"
    by (simp_all add: subseq_singleton_left messages_of_def)
  with s0 run one show ?thesis by blast
qed

end
