(* ===== verification/Tnc_Config.thy ===== *)
theory Tnc_Config
  imports Modem_Protocol Py_Text
begin

section \<open>The configuration\<close>

text \<open>
  \<open>src/src/ywdtnc/config.py\<close>: the table that the TOML parser returns, its typed fields, the address guard of the
  listeners and the checks of the whole configuration. The file and the TOML parser are outside: a
  parsed document is a value of \<open>toml\<close>. A TOML float is given by what \<open>Decimal(str(value))\<close> makes of it. The two
  messages for an address that is not one of IPv4 are one error, so that addresses of IPv6 need no parser.
\<close>

subsection \<open>Model: documents\<close>

datatype decimal = Finite rat | Infinite | NotANumber

datatype toml = TStr string | TInt int | TFloat decimal | TBool bool | TTable "(string \<times> toml) list" | TOther

type_synonym toml_table = "(string \<times> toml) list"

datatype config_error =
    InvalidTable string | NotAString string | NotABool string | NotAnInt string
  | FrequencyNotNumeric | FrequencyNotIntegral | FrequencyRefused host_error | FrequencyOverflow
  | ListenerPort string | ListenerAddress string | ListenerMulticast string | ListenerWildcard string | ListenerPublic string
  | WrongTarget | WrongDevice | TxPowerRange | TxDelayRange | PersistRange | SlotTimeRange | NoListener | NotRawOnly
  | WrongIdentity | ProfileNotPermitted | WrongBaud | TxDelayMs | SlotTimeMs | AutomaticFlash

definition PRODUCT_TARGET :: string where
  "PRODUCT_TARGET = ''mmdvm-hs-hat-stm32f103-simplex-14.7456-adf7021''"

definition QUALIFIED_FIRMWARE_IDENTITY :: string where
  "QUALIFIED_FIRMWARE_IDENTITY =
     ''MMDVM_HS_Hat-YWD-1278-AX25R4-v0.1.0-alpha1 14.7456MHz '' @ ''ADF7021 FW based on CA6JAU GitID #7ff74ed''"

record listener_config =
  lc_enabled :: bool
  lc_listen :: string
  lc_port :: int
  lc_allow_wildcard_bind :: bool

record tnc_config =
  cf_target :: string
  cf_device :: string
  cf_frequency_hz :: int
  cf_tx_power :: int
  cf_tx_enabled :: bool
  cf_txdelay :: int
  cf_persist :: int
  cf_slottime :: int
  cf_kiss :: listener_config
  cf_agw :: listener_config
  cf_monitor :: listener_config
  cf_agw_raw_only :: bool
  cf_required_identity :: string

definition cfg_table :: "toml_table \<Rightarrow> string \<Rightarrow> (config_error, toml_table) result" where
  "cfg_table doc name = (case map_of doc name of Some (TTable t) \<Rightarrow> Inr t | _ \<Rightarrow> Inl (InvalidTable name))"

definition cfg_string :: "toml_table \<Rightarrow> string \<Rightarrow> (config_error, string) result" where
  "cfg_string t key = (case map_of t key of Some (TStr s) \<Rightarrow> Inr (py_strip s) | _ \<Rightarrow> Inl (NotAString key))"

definition cfg_bool :: "toml_table \<Rightarrow> string \<Rightarrow> (config_error, bool) result" where
  "cfg_bool t key = (case map_of t key of Some (TBool b) \<Rightarrow> Inr b | _ \<Rightarrow> Inl (NotABool key))"

definition cfg_optional_bool :: "toml_table \<Rightarrow> string \<Rightarrow> bool \<Rightarrow> (config_error, bool) result" where
  "cfg_optional_bool t key dflt =
     (case map_of t key of None \<Rightarrow> Inr dflt | Some (TBool b) \<Rightarrow> Inr b | _ \<Rightarrow> Inl (NotABool key))"

definition cfg_int :: "toml_table \<Rightarrow> string \<Rightarrow> (config_error, int) result" where
  "cfg_int t key = (case map_of t key of Some (TInt i) \<Rightarrow> Inr i | _ \<Rightarrow> Inl (NotAnInt key))"

text \<open>
  \<open>_frequency_hz\<close>. The product with a million is exact for up to 28 digits, which a float's text never exceeds, and out of
  every band beyond. \<open>int\<close> of an infinite decimal raises \<open>OverflowError\<close>, which no handler expects.
\<close>

definition frequency_of_decimal :: "decimal \<Rightarrow> (config_error, int) result" where
  "frequency_of_decimal d =
     (case d of
        NotANumber \<Rightarrow> Inl FrequencyNotIntegral
      | Infinite \<Rightarrow> Inl FrequencyOverflow
      | Finite x \<Rightarrow>
          (let hz_value = x * 1000000 in
           if hz_value \<noteq> of_int \<lfloor>hz_value\<rfloor> then Inl FrequencyNotIntegral
           else (case validate_rx_frequency_hz \<lfloor>hz_value\<rfloor> of Inl e \<Rightarrow> Inl (FrequencyRefused e) | Inr hz \<Rightarrow> Inr hz)))"

definition cfg_frequency_hz :: "toml option \<Rightarrow> (config_error, int) result" where
  "cfg_frequency_hz v =
     (case v of
        Some (TInt i) \<Rightarrow> frequency_of_decimal (Finite (of_int i))
      | Some (TFloat d) \<Rightarrow> frequency_of_decimal d
      | _ \<Rightarrow> Inl FrequencyNotNumeric)"

subsection \<open>Model: IPv4 addresses\<close>

text \<open>\<open>str.split\<close> and what \<open>ipaddress.IPv4Address\<close> accepts and says.\<close>

fun py_split :: "char \<Rightarrow> string \<Rightarrow> string list" where
  "py_split sep [] = [[]]"
| "py_split sep (c # cs) =
     (if c = sep then [] # py_split sep cs
      else (case py_split sep cs of [] \<Rightarrow> [[c]] | part # parts \<Rightarrow> (c # part) # parts))"

definition parse_octet :: "string \<Rightarrow> int option" where
  "parse_octet s =
     (if s = [] \<or> \<not> list_all py_isdigit s \<or> length s > 3 \<or> (s \<noteq> ''0'' \<and> hd s = CHR ''0'') \<or> py_int_of_digits s > 255
      then None else Some (py_int_of_digits s))"

definition ipv4_address :: "string \<Rightarrow> int option" where
  "ipv4_address s =
     (case map parse_octet (py_split (CHR ''.'') s) of
        [Some a, Some b, Some c, Some d] \<Rightarrow> Some (((a * 256 + b) * 256 + c) * 256 + d)
      | _ \<Rightarrow> None)"

definition in_network :: "int \<Rightarrow> (int \<times> int \<times> int \<times> int) \<times> nat \<Rightarrow> bool" where
  "in_network address = (\<lambda>((a, b, c, d), prefix).
     address div 2 ^ (32 - prefix) = (((a * 256 + b) * 256 + c) * 256 + d) div 2 ^ (32 - prefix))"

definition is_multicast :: "int \<Rightarrow> bool" where "is_multicast address = in_network address ((224, 0, 0, 0), 4)"
definition is_unspecified :: "int \<Rightarrow> bool" where "is_unspecified address \<longleftrightarrow> address = 0"
definition is_loopback :: "int \<Rightarrow> bool" where "is_loopback address = in_network address ((127, 0, 0, 0), 8)"

definition is_private :: "int \<Rightarrow> bool" where
  "is_private address \<longleftrightarrow>
     list_ex (in_network address)
       [((0, 0, 0, 0), 8), ((10, 0, 0, 0), 8), ((127, 0, 0, 0), 8), ((169, 254, 0, 0), 16), ((172, 16, 0, 0), 12),
        ((192, 0, 0, 0), 24), ((192, 0, 0, 170), 31), ((192, 0, 2, 0), 24), ((192, 168, 0, 0), 16), ((198, 18, 0, 0), 15),
        ((198, 51, 100, 0), 24), ((203, 0, 113, 0), 24), ((240, 0, 0, 0), 4), ((255, 255, 255, 255), 32)]
     \<and> \<not> list_ex (in_network address) [((192, 0, 0, 9), 32), ((192, 0, 0, 10), 32)]"

subsection \<open>Model: listeners and the whole configuration\<close>

definition listener_guard :: "string \<Rightarrow> listener_config \<Rightarrow> (config_error, listener_config) result" where
  "listener_guard label config =
     (if \<not> (1 \<le> lc_port config \<and> lc_port config \<le> 65535) then Inl (ListenerPort label)
      else
        (case ipv4_address (lc_listen config) of
           None \<Rightarrow> Inl (ListenerAddress label)
         | Some address \<Rightarrow>
             if is_multicast address then Inl (ListenerMulticast label)
             else if is_unspecified address then
               (if lc_listen config \<noteq> ''0.0.0.0'' \<or> \<not> lc_allow_wildcard_bind config then Inl (ListenerWildcard label) else Inr config)
             else if \<not> (is_loopback address \<or> is_private address) then Inl (ListenerPublic label)
             else Inr config))"

definition cfg_listener :: "toml_table \<Rightarrow> string \<Rightarrow> (config_error, listener_config) result" where
  "cfg_listener t label =
     try_bind (cfg_bool t ''enabled'') (\<lambda>enabled.
     try_bind (cfg_string t ''listen'') (\<lambda>listen.
     try_bind (cfg_int t ''port'') (\<lambda>port.
     try_bind (cfg_optional_bool t ''allow_wildcard_bind'' False) (\<lambda>allow.
       listener_guard label \<lparr>lc_enabled = enabled, lc_listen = listen, lc_port = port, lc_allow_wildcard_bind = allow\<rparr>))))"

definition no_monitor :: listener_config where
  "no_monitor = \<lparr>lc_enabled = False, lc_listen = ''127.0.0.1'', lc_port = 8002, lc_allow_wildcard_bind = False\<rparr>"

definition monitor_listener :: "toml_table \<Rightarrow> (config_error, listener_config) result" where
  "monitor_listener doc =
     (case map_of doc ''monitor'' of
        None \<Rightarrow> Inr no_monitor
      | Some (TTable t) \<Rightarrow> cfg_listener t ''monitor''
      | _ \<Rightarrow> Inl (InvalidTable ''monitor''))"

definition validate_config :: "tnc_config \<Rightarrow> (config_error, unit) result" where
  "validate_config c =
     (if cf_target c \<noteq> PRODUCT_TARGET then Inl WrongTarget
      else if take 5 (cf_device c) \<noteq> ''/dev/'' then Inl WrongDevice
      else
        (case validate_rx_frequency_hz (cf_frequency_hz c) of
           Inl e \<Rightarrow> Inl (FrequencyRefused e)
         | Inr _ \<Rightarrow>
             if \<not> (0 \<le> cf_tx_power c \<and> cf_tx_power c \<le> 255) then Inl TxPowerRange
             else if \<not> (0 \<le> cf_txdelay c \<and> cf_txdelay c \<le> 255) then Inl TxDelayRange
             else if \<not> (0 \<le> cf_persist c \<and> cf_persist c \<le> 255) then Inl PersistRange
             else if \<not> (1 \<le> cf_slottime c \<and> cf_slottime c \<le> 255) then Inl SlotTimeRange
             else if \<not> (lc_enabled (cf_kiss c) \<or> lc_enabled (cf_agw c)) then Inl NoListener
             else if \<not> cf_agw_raw_only c then Inl NotRawOnly
             else if cf_required_identity c \<noteq> QUALIFIED_FIRMWARE_IDENTITY then Inl WrongIdentity
             else if cf_tx_enabled c \<and> (cf_frequency_hz c, cf_tx_power c) \<notin> PERMITTED_TX_PROFILES then Inl ProfileNotPermitted
             else Inr ()))"

text \<open>\<open>load_config\<close> after the file is parsed, with its checks in the order of the source.\<close>

definition load_fields ::
  "toml_table \<Rightarrow> toml_table \<Rightarrow> toml_table \<Rightarrow> toml_table \<Rightarrow> toml_table \<Rightarrow> toml_table \<Rightarrow> listener_config \<Rightarrow> int \<Rightarrow> int \<Rightarrow>
     (config_error, tnc_config) result" where
  "load_fields hardware radio packet kiss agw firmware monitor txdelay_ms slottime_ms =
     try_bind (cfg_string hardware ''target'') (\<lambda>target.
     try_bind (cfg_string radio ''device'') (\<lambda>device.
     try_bind (cfg_frequency_hz (map_of radio ''frequency_mhz'')) (\<lambda>frequency_hz.
     try_bind (cfg_int radio ''tx_power'') (\<lambda>tx_power.
     try_bind (cfg_bool radio ''tx_enabled'') (\<lambda>tx_enabled.
     try_bind (cfg_int packet ''persist'') (\<lambda>persist.
     try_bind (cfg_listener kiss ''kiss'') (\<lambda>kiss_listener.
     try_bind (cfg_listener agw ''agw'') (\<lambda>agw_listener.
     try_bind (cfg_bool agw ''raw_only'') (\<lambda>raw_only.
     try_bind (cfg_string firmware ''required_identity'') (\<lambda>required_identity.
       Inr \<lparr>cf_target = target, cf_device = device, cf_frequency_hz = frequency_hz, cf_tx_power = tx_power,
         cf_tx_enabled = tx_enabled, cf_txdelay = txdelay_ms div 10, cf_persist = persist, cf_slottime = slottime_ms div 10,
         cf_kiss = kiss_listener, cf_agw = agw_listener, cf_monitor = monitor, cf_agw_raw_only = raw_only,
         cf_required_identity = required_identity\<rparr>))))))))))"

definition load_config :: "toml_table \<Rightarrow> (config_error, tnc_config) result" where
  "load_config doc =
     try_bind (cfg_table doc ''hardware'') (\<lambda>hardware.
     try_bind (cfg_table doc ''radio'') (\<lambda>radio.
     try_bind (cfg_table doc ''packet'') (\<lambda>packet.
     try_bind (cfg_table doc ''kiss'') (\<lambda>kiss.
     try_bind (cfg_table doc ''agw'') (\<lambda>agw.
     try_bind (monitor_listener doc) (\<lambda>monitor.
     try_bind (cfg_table doc ''firmware'') (\<lambda>firmware.
     try_bind (cfg_int packet ''baud'') (\<lambda>baud.
       if baud \<noteq> 1200 then Inl WrongBaud
       else
     try_bind (cfg_int packet ''txdelay_ms'') (\<lambda>txdelay_ms.
     try_bind (cfg_int packet ''slottime_ms'') (\<lambda>slottime_ms.
       if txdelay_ms < 0 \<or> txdelay_ms > 2550 \<or> txdelay_ms mod 10 \<noteq> 0 then Inl TxDelayMs
       else if slottime_ms < 10 \<or> slottime_ms > 2550 \<or> slottime_ms mod 10 \<noteq> 0 then Inl SlotTimeMs
       else
     try_bind (cfg_bool firmware ''allow_automatic_flash'') (\<lambda>flash.
       if flash then Inl AutomaticFlash
       else
     try_bind (load_fields hardware radio packet kiss agw firmware monitor txdelay_ms slottime_ms) (\<lambda>config.
     try_bind (validate_config config) (\<lambda>_. Inr config)))))))))))))"

subsection \<open>Text\<close>

lemma rstrip_no_space: "s \<noteq> [] \<Longrightarrow> \<not> py_isspace (last s) \<Longrightarrow> py_rstrip s = s"
  by (cases s rule: rev_cases) (simp_all add: py_rstrip_def)

lemma strip_no_space: "list_all (\<lambda>c. \<not> py_isspace c) s \<Longrightarrow> py_strip s = s"
proof (cases "s = []")
  case False
  assume "list_all (\<lambda>c. \<not> py_isspace c) s"
  then have "\<not> py_isspace (hd s)" "\<not> py_isspace (last s)" using False by (auto simp: list_all_iff)
  then show ?thesis using False by (cases s) (simp_all add: py_strip_def py_lstrip_def rstrip_no_space)
qed (simp add: py_strip_def py_rstrip_def py_lstrip_def)

lemma strip_idem [simp]: "py_strip (py_strip s) = py_strip s"
proof (cases "py_strip s = []")
  case False
  have last_ok: "\<not> py_isspace (last (py_rstrip t))" if "py_rstrip t \<noteq> []" for t
    using that hd_dropWhile [of py_isspace "rev t"] by (simp add: py_rstrip_def last_rev)
  have prefix: "\<exists>sp. t = py_rstrip t @ sp" for t
    using takeWhile_dropWhile_id [of py_isspace "rev t"] unfolding py_rstrip_def by (metis rev_append rev_rev_ident)
  have "py_lstrip s \<noteq> []" using False by (auto simp: py_strip_def py_rstrip_def)
  then have "\<not> py_isspace (hd (py_lstrip s))" unfolding py_lstrip_def by (rule hd_dropWhile)
  moreover have "hd (py_strip s) = hd (py_lstrip s)" using prefix [of "py_lstrip s"] False unfolding py_strip_def by (metis hd_append2)
  ultimately have "py_lstrip (py_strip s) = py_strip s" using False by (cases "py_strip s") (simp_all add: py_lstrip_def)
  then show ?thesis using last_ok [of "py_lstrip s"] False rstrip_no_space [of "py_strip s"] by (simp add: py_strip_def)
next
  case True
  show ?thesis unfolding True by (simp add: py_strip_def py_rstrip_def py_lstrip_def)
qed

lemma split_nonempty: "py_split sep s \<noteq> []"
  by (cases s) (simp_all split: list.split)

lemma split_joined: "py_split sep s = f # fs \<Longrightarrow> s = f @ concat (map (\<lambda>g. sep # g) fs)"
proof (induction sep s arbitrary: f fs rule: py_split.induct)
  case (2 sep c cs)
  obtain g gs where g: "py_split sep cs = g # gs" by (meson neq_Nil_conv split_nonempty)
  have cs: "cs = g @ concat (map (\<lambda>g. sep # g) gs)" using 2(1,2) g by (cases "c = sep") simp_all
  show ?case
  proof (cases "c = sep")
    case True
    with 2(3) g have "f = []" "fs = g # gs" by simp_all
    with True cs show ?thesis by simp
  next
    case False
    with 2(3) g have "f = c # g" "fs = gs" by simp_all
    with cs show ?thesis by simp
  qed
qed simp

lemma ipv4_octets:
  assumes "ipv4_address s = Some v"
  obtains a b c d f1 f2 f3 f4 where "py_split (CHR ''.'') s = [f1, f2, f3, f4]"
    "parse_octet f1 = Some a" "parse_octet f2 = Some b" "parse_octet f3 = Some c" "parse_octet f4 = Some d"
    "v = ((a * 256 + b) * 256 + c) * 256 + d"
  using assms unfolding ipv4_address_def by (fastforce simp: map_eq_Cons_conv split: list.splits option.splits)

lemma octet_digits: "parse_octet f = Some v \<Longrightarrow> list_all py_isdigit f \<and> v = py_int_of_digits f \<and> v \<le> 255"
  by (auto simp: parse_octet_def split: if_splits)

lemma digits_nonneg: "list_all py_isdigit s \<Longrightarrow> 0 \<le> acc \<Longrightarrow> 0 \<le> foldl (\<lambda>acc c. 10 * acc + (int (py_ord c) - 48)) acc s"
  by (induction s arbitrary: acc) (auto simp: py_isdigit_def)

lemma octet_range: "parse_octet f = Some v \<Longrightarrow> 0 \<le> v \<and> v \<le> 255"
  using octet_digits digits_nonneg by (fastforce simp: py_int_of_digits_def)

lemma digits_zero:
  "list_all py_isdigit s \<Longrightarrow> 0 \<le> acc \<Longrightarrow> foldl (\<lambda>acc c. 10 * acc + (int (py_ord c) - 48)) acc s = 0 \<Longrightarrow> acc = 0 \<and> list_all (\<lambda>c. c = CHR ''0'') s"
proof (induction s arbitrary: acc)
  case (Cons c s)
  then have "0 \<le> int (py_ord c) - 48" by (simp add: py_isdigit_def)
  with Cons.prems have "10 * acc + (int (py_ord c) - 48) = 0" "list_all (\<lambda>c. c = CHR ''0'') s"
    using Cons.IH [of "10 * acc + (int (py_ord c) - 48)"] by simp_all
  moreover from this(1) have "acc = 0" "py_ord c = 48" using Cons.prems(2) \<open>0 \<le> int (py_ord c) - 48\<close> by linarith+
  moreover have "py_ord (CHR ''0'') = 48" by (simp add: py_ord_def)
  ultimately show ?case by (simp add: py_ord_inject [symmetric])
qed simp

lemma octet_zero: assumes "parse_octet f = Some 0" shows "f = ''0''"
proof -
  have "list_all (\<lambda>c. c = CHR ''0'') f"
    using assms octet_digits [OF assms] digits_zero [of f 0] by (simp add: py_int_of_digits_def)
  moreover have "f \<noteq> []" "f = ''0'' \<or> hd f \<noteq> CHR ''0''" using assms by (auto simp: parse_octet_def split: if_splits)
  ultimately show ?thesis by (cases f) auto
qed

text \<open>Only one text denotes the wildcard address, and no accepted text has blanks around it.\<close>

lemma unspecified_text: assumes "ipv4_address s = Some 0" shows "s = ''0.0.0.0''"
proof -
  obtain a b c d f1 f2 f3 f4 where f: "py_split (CHR ''.'') s = [f1, f2, f3, f4]"
    "parse_octet f1 = Some a" "parse_octet f2 = Some b" "parse_octet f3 = Some c" "parse_octet f4 = Some d"
    and v: "0 = ((a * 256 + b) * 256 + c) * 256 + d" by (rule ipv4_octets [OF assms])
  have "0 \<le> a" "0 \<le> b" "0 \<le> c" "0 \<le> d"
    using octet_range [OF f(2)] octet_range [OF f(3)] octet_range [OF f(4)] octet_range [OF f(5)] by simp_all
  moreover have "a \<le> 0 \<and> b \<le> 0 \<and> c \<le> 0 \<and> d \<le> 0"
  proof -
    have "16777216 * a + 65536 * b + 256 * c + d = 0" using v by (simp add: algebra_simps)
    with calculation show ?thesis by (intro conjI) linarith+
  qed
  ultimately have "a = 0" "b = 0" "c = 0" "d = 0"
    using octet_range [OF f(2)] octet_range [OF f(3)] octet_range [OF f(4)] octet_range [OF f(5)] by simp_all
  with f(2-5) have "f1 = ''0''" "f2 = ''0''" "f3 = ''0''" "f4 = ''0''" by (simp_all add: octet_zero)
  with split_joined [OF f(1)] show ?thesis by simp
qed

lemma ipv4_stripped: assumes "ipv4_address s = Some v" shows "py_strip s = s"
proof -
  obtain a b c d f1 f2 f3 f4 where f: "py_split (CHR ''.'') s = [f1, f2, f3, f4]"
    "parse_octet f1 = Some a" "parse_octet f2 = Some b" "parse_octet f3 = Some c" "parse_octet f4 = Some d"
    by (rule ipv4_octets [OF assms])
  have "\<not> py_isspace c" if "c \<in> set s" for c
  proof -
    have "c = CHR ''.'' \<or> py_isdigit c"
      using that split_joined [OF f(1)] octet_digits [OF f(2)] octet_digits [OF f(3)] octet_digits [OF f(4)] octet_digits [OF f(5)]
      by (auto simp: list_all_iff)
    then show ?thesis by (auto simp: py_isspace_def py_isdigit_def Let_def py_ord_def)
  qed
  then show ?thesis by (intro strip_no_space) (simp add: list_all_iff)
qed

subsection \<open>Exactly the safe configurations are accepted\<close>

definition listener_ok :: "listener_config \<Rightarrow> bool" where
  "listener_ok l \<longleftrightarrow> 1 \<le> lc_port l \<and> lc_port l \<le> 65535 \<and>
     (lc_listen l = ''0.0.0.0'' \<and> lc_allow_wildcard_bind l \<or>
      (\<exists>a. ipv4_address (lc_listen l) = Some a \<and> a \<noteq> 0 \<and> \<not> is_multicast a \<and> (is_loopback a \<or> is_private a)))"

definition config_ok :: "tnc_config \<Rightarrow> bool" where
  "config_ok c \<longleftrightarrow>
     cf_target c = PRODUCT_TARGET \<and> take 5 (cf_device c) = ''/dev/'' \<and> py_strip (cf_device c) = cf_device c \<and>
     validate_rx_frequency_hz (cf_frequency_hz c) = Inr (cf_frequency_hz c) \<and> 0 \<le> cf_tx_power c \<and> cf_tx_power c \<le> 255 \<and>
     0 \<le> cf_txdelay c \<and> cf_txdelay c \<le> 255 \<and> 0 \<le> cf_persist c \<and> cf_persist c \<le> 255 \<and> 1 \<le> cf_slottime c \<and> cf_slottime c \<le> 255 \<and>
     listener_ok (cf_kiss c) \<and> listener_ok (cf_agw c) \<and> listener_ok (cf_monitor c) \<and> (lc_enabled (cf_kiss c) \<or> lc_enabled (cf_agw c)) \<and>
     cf_agw_raw_only c \<and> cf_required_identity c = QUALIFIED_FIRMWARE_IDENTITY \<and>
     (cf_tx_enabled c \<longrightarrow> (cf_frequency_hz c, cf_tx_power c) \<in> PERMITTED_TX_PROFILES)"

lemma wildcard_parses: "ipv4_address ''0.0.0.0'' = Some 0" by code_simp

lemma listener_guard_iff: "listener_guard label l = Inr l' \<longleftrightarrow> l' = l \<and> listener_ok l"
proof -
  have "\<not> is_multicast 0" by code_simp
  then show ?thesis
    by (auto simp: listener_guard_def listener_ok_def is_unspecified_def wildcard_parses dest: unspecified_text split: option.splits if_splits)
qed

lemma listener_text: "listener_ok l \<Longrightarrow> py_strip (lc_listen l) = lc_listen l"
  using ipv4_stripped wildcard_parses by (fastforce simp: listener_ok_def)

lemma cfg_listener_ok: "cfg_listener t label = Inr l \<Longrightarrow> listener_ok l"
  by (auto simp: cfg_listener_def try_bind_Inr_iff listener_guard_iff)

lemma monitor_listener_ok: "monitor_listener doc = Inr l \<Longrightarrow> listener_ok l"
proof -
  have "listener_ok no_monitor"
  proof -
    have "ipv4_address ''127.0.0.1'' = Some 2130706433" "\<not> is_multicast 2130706433" "is_loopback 2130706433" by code_simp+
    then show ?thesis by (simp add: listener_ok_def no_monitor_def)
  qed
  then show "monitor_listener doc = Inr l \<Longrightarrow> listener_ok l"
    by (auto simp: monitor_listener_def cfg_listener_ok split: option.splits toml.splits)
qed

lemma validate_config_ok:
  "validate_config c = Inr u \<Longrightarrow> py_strip (cf_device c) = cf_device c \<Longrightarrow>
   listener_ok (cf_kiss c) \<Longrightarrow> listener_ok (cf_agw c) \<Longrightarrow> listener_ok (cf_monitor c) \<Longrightarrow> config_ok c"
  by (auto simp: validate_config_def config_ok_def validate_rx_frequency_hz_def split: if_splits sum.splits)

lemma config_ok_validates: "config_ok c \<Longrightarrow> validate_config c = Inr ()"
  by (simp add: validate_config_def config_ok_def)

lemma cfg_string_stripped: "cfg_string t key = Inr s \<Longrightarrow> py_strip s = s"
  by (auto simp: cfg_string_def split: option.splits toml.splits)

lemma load_config_ok:
  assumes "load_config doc = Inr c" shows "config_ok c"
proof -
  from assms obtain hardware radio packet kiss agw firmware monitor txdelay_ms slottime_ms where
    l: "load_fields hardware radio packet kiss agw firmware monitor txdelay_ms slottime_ms = Inr c"
    and v: "validate_config c = Inr ()" and m: "monitor_listener doc = Inr monitor"
    unfolding load_config_def by (simp only: try_bind_Inr_iff if_distrib [of "\<lambda>x. x = Inr c"]) (auto split: if_splits)
  from l have "py_strip (cf_device c) = cf_device c" "listener_ok (cf_kiss c)" "listener_ok (cf_agw c)" "cf_monitor c = monitor"
    by (auto simp: load_fields_def try_bind_Inr_iff cfg_string_stripped cfg_listener_ok)
  with v m monitor_listener_ok show ?thesis by (intro validate_config_ok) auto
qed

text \<open>The document of a configuration.\<close>

definition listener_toml :: "listener_config \<Rightarrow> toml_table" where
  "listener_toml l = [(''enabled'', TBool (lc_enabled l)), (''listen'', TStr (lc_listen l)), (''port'', TInt (lc_port l)),
     (''allow_wildcard_bind'', TBool (lc_allow_wildcard_bind l))]"

definition config_toml :: "tnc_config \<Rightarrow> toml_table" where
  "config_toml c =
     [(''hardware'', TTable [(''target'', TStr (cf_target c))]),
      (''radio'', TTable [(''device'', TStr (cf_device c)), (''frequency_mhz'', TFloat (Finite (of_int (cf_frequency_hz c) / 1000000))),
         (''tx_power'', TInt (cf_tx_power c)), (''tx_enabled'', TBool (cf_tx_enabled c))]),
      (''packet'', TTable [(''baud'', TInt 1200), (''txdelay_ms'', TInt (10 * cf_txdelay c)), (''persist'', TInt (cf_persist c)),
         (''slottime_ms'', TInt (10 * cf_slottime c))]),
      (''kiss'', TTable (listener_toml (cf_kiss c))),
      (''agw'', TTable ((''raw_only'', TBool (cf_agw_raw_only c)) # listener_toml (cf_agw c))),
      (''monitor'', TTable (listener_toml (cf_monitor c))),
      (''firmware'', TTable [(''required_identity'', TStr (cf_required_identity c)), (''allow_automatic_flash'', TBool False)])]"

lemma cfg_listener_toml: "listener_ok l \<Longrightarrow> cfg_listener (listener_toml l) label = Inr l"
  using listener_text [of l]
  by (cases l) (simp add: cfg_listener_def listener_toml_def cfg_bool_def cfg_string_def cfg_int_def cfg_optional_bool_def listener_guard_iff)

lemma cfg_listener_raw: "cfg_listener ((''raw_only'', v) # t) label = cfg_listener t label"
  by (simp add: cfg_listener_def cfg_bool_def cfg_string_def cfg_int_def cfg_optional_bool_def)

lemma frequency_exact: "validate_rx_frequency_hz hz = Inr hz \<Longrightarrow> frequency_of_decimal (Finite (of_int hz / 1000000)) = Inr hz"
  by (simp add: frequency_of_decimal_def)

lemma load_config_toml:
  assumes ok: "config_ok c" shows "load_config (config_toml c) = Inr c"
proof -
  have fixed: "py_strip PRODUCT_TARGET = PRODUCT_TARGET" "py_strip QUALIFIED_FIRMWARE_IDENTITY = QUALIFIED_FIRMWARE_IDENTITY" by code_simp+
  have "load_fields [(''target'', TStr (cf_target c))]
      [(''device'', TStr (cf_device c)), (''frequency_mhz'', TFloat (Finite (of_int (cf_frequency_hz c) / 1000000))),
         (''tx_power'', TInt (cf_tx_power c)), (''tx_enabled'', TBool (cf_tx_enabled c))]
      [(''baud'', TInt 1200), (''txdelay_ms'', TInt (10 * cf_txdelay c)), (''persist'', TInt (cf_persist c)),
         (''slottime_ms'', TInt (10 * cf_slottime c))]
      (listener_toml (cf_kiss c)) ((''raw_only'', TBool (cf_agw_raw_only c)) # listener_toml (cf_agw c))
      [(''required_identity'', TStr (cf_required_identity c)), (''allow_automatic_flash'', TBool False)]
      (cf_monitor c) (10 * cf_txdelay c) (10 * cf_slottime c) = Inr c"
    using ok fixed by (simp add: load_fields_def config_ok_def cfg_string_def cfg_bool_def cfg_int_def cfg_frequency_hz_def frequency_exact
        cfg_listener_toml cfg_listener_raw)
  moreover have "monitor_listener (config_toml c) = Inr (cf_monitor c)"
    using ok by (simp add: monitor_listener_def config_toml_def config_ok_def cfg_listener_toml)
  ultimately show ?thesis using ok config_ok_validates [OF ok]
    by (simp add: load_config_def cfg_table_def cfg_int_def cfg_bool_def config_toml_def config_ok_def)
qed


text \<open>A document that asks for an infinite frequency raises what the callers of \<open>load_config\<close> do not expect.\<close>

definition example_config :: tnc_config where
  "example_config =
     \<lparr>cf_target = PRODUCT_TARGET, cf_device = ''/dev/ttyAMA0'', cf_frequency_hz = 144390000, cf_tx_power = 200, cf_tx_enabled = True,
      cf_txdelay = 30, cf_persist = 63, cf_slottime = 10,
      cf_kiss = \<lparr>lc_enabled = True, lc_listen = ''192.168.1.20'', lc_port = 8001, lc_allow_wildcard_bind = False\<rparr>,
      cf_agw = \<lparr>lc_enabled = False, lc_listen = ''0.0.0.0'', lc_port = 8000, lc_allow_wildcard_bind = True\<rparr>,
      cf_monitor = no_monitor, cf_agw_raw_only = True, cf_required_identity = QUALIFIED_FIRMWARE_IDENTITY\<rparr>"

lemma example_config_loads: "load_config (config_toml example_config) = Inr example_config"
proof -
  have a: "ipv4_address ''192.168.1.20'' = Some 3232235796" "\<not> is_multicast 3232235796" "is_private 3232235796" by code_simp+
  have b: "ipv4_address ''127.0.0.1'' = Some 2130706433" "\<not> is_multicast 2130706433" "is_loopback 2130706433" by code_simp+
  have "py_strip ''/dev/ttyAMA0'' = ''/dev/ttyAMA0''" by code_simp
  with a b have "config_ok example_config"
    by (simp add: config_ok_def example_config_def listener_ok_def no_monitor_def validate_rx_frequency_hz_def host_profile_defs)
  then show ?thesis by (rule load_config_toml)
qed

lemma infinite_frequency_overflows:
  "load_fields [(''target'', TStr t)] [(''device'', TStr d), (''frequency_mhz'', TFloat Infinite)] packet kiss agw firmware monitor td st
    = Inl FrequencyOverflow"
  by (simp add: load_fields_def cfg_string_def cfg_frequency_hz_def frequency_of_decimal_def)

end
