(* ===== verification/Engine.thy ===== *)
theory Engine
  imports Tnc_Service Tnc_Config
begin

section \<open>The engine\<close>

text \<open>
  \<open>src/src/ywdtnc/engine.py\<close>: \<open>TNCEngine\<close>, which starts the owner, checks the firmware, sets the modem up, constructs the
  transmit path and the runtime, opens the listeners, and takes all of it down again. The objects are those of the
  other theories; the socket servers with their threads are a parameter. The worker runs between the
  operations of the engine. The monitor's wrappers are left out: \<open>Tx_Monitor\<close> shows that they change nothing.
\<close>

subsection \<open>Model: state and operations\<close>

datatype plane = PlaneKISS | PlaneAGW | PlaneMonitor

datatype engine_error =
    EngineRestarted | FirmwareMismatch | OutsideLineage | RFNotIdle
  | EngineNotStarted | OwnerDown | ListenerDown plane
  | EngineOwner owner_error | EngineModem tx_exn | EngineRouter tx_exn | EngineRuntime runtime_error
  | EngineListener plane string | EngineConstruction | ShutdownFailed engine_error

text \<open>The listening servers: \<open>start_server_thread\<close> and its like, \<open>thread.is_alive\<close>, \<open>stop_server_thread\<close> and its like.\<close>

record 't listeners =
  ls_start :: "plane \<Rightarrow> string \<Rightarrow> int \<Rightarrow> 't \<Rightarrow> (string, unit) result \<times> 't"
  ls_alive :: "plane \<Rightarrow> 't \<Rightarrow> bool"
  ls_stop :: "plane \<Rightarrow> 't \<Rightarrow> (string, unit) result \<times> 't"

text \<open>What the engine is given: the computation of digests and windows, the device, the clock and the servers.\<close>

record 't engine_env =
  ee_sha :: "bytes \<Rightarrow> string"
  ee_table :: "12 word \<Rightarrow> real"
  ee_transport :: "'t modem_transport"
  ee_clock :: "'t clock"
  ee_sleep :: "'t sleeper"
  ee_random :: "'t random_source"
  ee_listeners :: "'t listeners"
  ee_thread_id :: int

text \<open>The path is made of the backend, the queue and the submitter, which the engine constructs together.\<close>

record tnc_engine =
  eg_config :: tnc_config
  eg_owner :: "modem_owner option"
  eg_path :: "(tnc_backend \<times> kiss_queue \<times> contextual_submitter) option"
  eg_runtime :: "tnc_runtime option"
  eg_serving :: "plane list"
  eg_started :: bool
  eg_stopped :: bool
  eg_rx_started :: bool
  eg_identity :: string

definition engine_init :: "tnc_config \<Rightarrow> (config_error, tnc_engine) result" where
  "engine_init config =
     try_bind (validate_config config) (\<lambda>_.
       Inr \<lparr>eg_config = config, eg_owner = None, eg_path = None, eg_runtime = None, eg_serving = [], eg_started = False,
         eg_stopped = False, eg_rx_started = False, eg_identity = []\<rparr>)"

type_synonym ('t, 'a) engine_op = "tnc_engine \<times> 't \<Rightarrow> (engine_error, 'a) result \<times> tnc_engine \<times> 't"

definition eg_bind :: "('t, 'a) engine_op \<Rightarrow> ('a \<Rightarrow> ('t, 'b) engine_op) \<Rightarrow> ('t, 'b) engine_op" where
  "eg_bind m f s = (case m s of (Inl e, s) \<Rightarrow> (Inl e, s) | (Inr x, s) \<Rightarrow> f x s)"

definition eg_return :: "'a \<Rightarrow> ('t, 'a) engine_op" where
  "eg_return x s = (Inr x, s)"

definition eg_raise :: "engine_error \<Rightarrow> ('t, 'a) engine_op" where
  "eg_raise e s = (Inl e, s)"

definition eg_modify :: "(tnc_engine \<Rightarrow> tnc_engine) \<Rightarrow> ('t, unit) engine_op" where
  "eg_modify f = (\<lambda>(e, w). (Inr (), f e, w))"

text \<open>Operations of the owner, of the runtime and of the servers, on the engine's objects.\<close>

definition on_engine_owner ::
  "('e \<Rightarrow> engine_error) \<Rightarrow> (modem_owner \<times> 't \<Rightarrow> ('e, 'a) result \<times> modem_owner \<times> 't) \<Rightarrow> ('t, 'a) engine_op" where
  "on_engine_owner err m = (\<lambda>(e, w).
     case eg_owner e of
       None \<Rightarrow> (Inl EngineNotStarted, e, w)
     | Some ow \<Rightarrow> (let (r, ow, w) = m (ow, w) in (map_sum err id r, e\<lparr>eg_owner := Some ow\<rparr>, w)))"

definition engine_port :: "'t engine_env \<Rightarrow> (modem_owner \<times> 't) modem_port" where
  "engine_port env = owner_port product_owner_dispatch (ee_transport env)"

definition engine_runtime_env :: "'t engine_env \<Rightarrow> tnc_engine \<Rightarrow> ('t service, tx_receipt) runtime_env" where
  "engine_runtime_env env e =
     service_env (cf_tx_enabled (eg_config e)) (ee_sha env) (ee_transport env) (ee_clock env) (ee_sleep env) (ee_random env)"

text \<open>An operation of the runtime, in the company of the clients' events of \<open>batches\<close>.\<close>

definition on_engine_runtime ::
  "tnc_event list list \<Rightarrow> (tnc_runtime \<times> 't service \<Rightarrow> 'a \<times> tnc_runtime \<times> 't service) \<Rightarrow> tnc_engine \<times> 't \<Rightarrow> 'a option \<times> tnc_engine \<times> 't" where
  "on_engine_runtime batches m = (\<lambda>(e, w).
     case (eg_owner e, eg_path e, eg_runtime e) of
       (Some ow, Some (b, q, c), Some rt) \<Rightarrow>
         (let (r, rt, (b, q, c, ow, w), _) = m (rt, (b, q, c, ow, w), batches)
          in (Some r, e\<lparr>eg_owner := Some ow, eg_path := Some (b, q, c), eg_runtime := Some rt\<rparr>, w))
     | _ \<Rightarrow> (None, e, w))"

definition plane_config :: "plane \<Rightarrow> tnc_config \<Rightarrow> listener_config" where
  "plane_config p c = (case p of PlaneKISS \<Rightarrow> cf_kiss c | PlaneAGW \<Rightarrow> cf_agw c | PlaneMonitor \<Rightarrow> cf_monitor c)"

definition start_plane :: "'t engine_env \<Rightarrow> plane \<Rightarrow> ('t, unit) engine_op" where
  "start_plane env p = (\<lambda>(e, w).
     let l = plane_config p (eg_config e) in
     if \<not> lc_enabled l then (Inr (), e, w)
     else
       (case ls_start (ee_listeners env) p (lc_listen l) (lc_port l) w of
          (Inl x, w) \<Rightarrow> (Inl (EngineListener p x), e, w)
        | (Inr _, w) \<Rightarrow> (Inr (), e\<lparr>eg_serving := eg_serving e @ [p]\<rparr>, w)))"

definition engine_check_health :: "'t engine_env \<Rightarrow> ('t, unit) engine_op" where
  "engine_check_health env = (\<lambda>(e, w).
     let down = (\<lambda>p. lc_enabled (plane_config p (eg_config e)) \<and> \<not> (p \<in> set (eg_serving e) \<and> ls_alive (ee_listeners env) p w)) in
     case (eg_owner e, eg_runtime e) of
       (Some ow, Some rt) \<Rightarrow>
         if \<not> os_running (owner_snapshot_of ow) then (Inl OwnerDown, e, w)
         else
           (case check_health rt of
              Inl x \<Rightarrow> (Inl (EngineRuntime x), e, w)
            | Inr _ \<Rightarrow>
                if down PlaneKISS then (Inl (ListenerDown PlaneKISS), e, w)
                else if down PlaneAGW then (Inl (ListenerDown PlaneAGW), e, w)
                else if down PlaneMonitor then (Inl (ListenerDown PlaneMonitor), e, w)
                else (Inr (), e, w))
     | _ \<Rightarrow> (Inl EngineNotStarted, e, w))"

subsection \<open>Model: shutdown\<close>

text \<open>Each step of \<open>_cleanup\<close> adds its failure to the list and goes on.\<close>

definition stop_plane :: "'t engine_env \<Rightarrow> plane \<Rightarrow> engine_error list \<times> tnc_engine \<times> 't \<Rightarrow> engine_error list \<times> tnc_engine \<times> 't" where
  "stop_plane env p = (\<lambda>(errors, e, w).
     if p \<in> set (eg_serving e) then
       (let (r, w) = ls_stop (ee_listeners env) p w; e = e\<lparr>eg_serving := removeAll p (eg_serving e)\<rparr>
        in (case r of Inl x \<Rightarrow> errors @ [EngineListener p x] | Inr _ \<Rightarrow> errors, e, w))
     else (errors, e, w))"

definition stop_runtime :: "'t engine_env \<Rightarrow> engine_error list \<times> tnc_engine \<times> 't \<Rightarrow> engine_error list \<times> tnc_engine \<times> 't" where
  "stop_runtime env = (\<lambda>(errors, e, w).
     let (r, e, w) = on_engine_runtime [] (runtime_stop (ee_table env) (engine_runtime_env env e) 3) (e, w)
     in (case r of Some (Inl x) \<Rightarrow> errors @ [EngineRuntime x] | _ \<Rightarrow> errors, e, w))"

definition close_router :: "'t engine_env \<Rightarrow> engine_error list \<times> tnc_engine \<times> 't \<Rightarrow> engine_error list \<times> tnc_engine \<times> 't" where
  "close_router env = (\<lambda>(errors, e, w).
     case (eg_owner e, eg_path e) of
       (Some ow, Some (b, q, c)) \<Rightarrow>
         (let (r, router, ow, w) = router_close (engine_port env) (ch_router c) (ow, w)
          in (case r of Inl x \<Rightarrow> errors @ [EngineRouter x] | Inr _ \<Rightarrow> errors,
              e\<lparr>eg_owner := Some ow, eg_path := Some (b, q, c\<lparr>ch_router := router\<rparr>)\<rparr>, w))
     | _ \<Rightarrow> (errors, e, w))"

definition stop_receiver :: "'t engine_env \<Rightarrow> engine_error list \<times> tnc_engine \<times> 't \<Rightarrow> engine_error list \<times> tnc_engine \<times> 't" where
  "stop_receiver env = (\<lambda>(errors, e, w).
     if eg_owner e \<noteq> None \<and> eg_rx_started e then
       (let (r, e, w) = on_engine_owner EngineModem (mp_rx_stop (engine_port env) (Some (3 / 2))) (e, w)
        in (case r of Inl x \<Rightarrow> errors @ [x] | Inr _ \<Rightarrow> errors, e\<lparr>eg_rx_started := False\<rparr>, w))
     else (errors, e, w))"

definition stop_owner :: "'t engine_env \<Rightarrow> engine_error list \<times> tnc_engine \<times> 't \<Rightarrow> engine_error list \<times> tnc_engine \<times> 't" where
  "stop_owner env = (\<lambda>(errors, e, w).
     if eg_owner e = None then (errors, e, w)
     else
       (let (r, e, w) = on_engine_owner EngineOwner (\<lambda>(ow, w). owner_stop product_owner_dispatch (ee_transport env) 2 ow w) (e, w)
        in (case r of Inl x \<Rightarrow> errors @ [x] | Inr _ \<Rightarrow> errors, e, w)))"

definition engine_cleanup :: "'t engine_env \<Rightarrow> tnc_engine \<times> 't \<Rightarrow> engine_error list \<times> tnc_engine \<times> 't" where
  "engine_cleanup env s =
     stop_owner env (stop_receiver env (close_router env (stop_runtime env
       (stop_plane env PlaneKISS (stop_plane env PlaneAGW (stop_plane env PlaneMonitor ([], s)))))))"

definition engine_stop :: "'t engine_env \<Rightarrow> ('t, unit) engine_op" where
  "engine_stop env = (\<lambda>(e, w).
     if eg_stopped e then (Inr (), e, w)
     else
       (case engine_cleanup env (e\<lparr>eg_stopped := True\<rparr>, w) of
          ([], s) \<Rightarrow> (Inr (), s)
        | (x # _, s) \<Rightarrow> (Inl (ShutdownFailed x), s)))"

subsection \<open>Model: start\<close>

definition engine_path :: "tnc_config \<Rightarrow> (tnc_backend \<times> kiss_queue \<times> contextual_submitter) option" where
  "engine_path c =
     (case (router_init (cf_tx_enabled c) 1 (1 / 20) (3 / 2), hd_parameters_new (3 / 2) (1 / 20) 5, kq_init 4 30 (3 / 2),
            session_init (Some (default_tnc_parameters\<lparr>tn_txdelay := cf_txdelay c, tn_persist := cf_persist c, tn_slottime := cf_slottime c\<rparr>)),
            backend_init [] 0 64) of
        (Inr router, Inr hdp, Inr q, Inr session, Inr rx) \<Rightarrow>
          Some (tnc_backend_init \<lparr>cb_rx = rx, cb_session = session\<rparr>, q, contextual_init router hdp)
      | _ \<Rightarrow> None)"

definition prepare_modem :: "'t engine_env \<Rightarrow> ('t, unit) engine_op" where
  "prepare_modem env = (\<lambda>(e, w).
     let config = eg_config e; port = engine_port env in
     eg_bind (on_engine_owner EngineOwner (\<lambda>(ow, w). owner_start (ee_transport env) (ee_thread_id env) 2 ow w)) (\<lambda>_.
     eg_bind (on_engine_owner EngineModem (mp_get_version port (Some (3 / 2)))) (\<lambda>version.
       if vr_identity version \<noteq> cf_required_identity config then eg_raise FirmwareMismatch
       else if vr_identity version \<noteq> QUALIFIED_FIRMWARE_IDENTITY then eg_raise OutsideLineage
       else
     eg_bind (eg_modify (\<lambda>e. e\<lparr>eg_identity := vr_identity version\<rparr>)) (\<lambda>_.
     eg_bind (on_engine_owner EngineModem (mp_rf_status port (Some (3 / 2)))) (\<lambda>status.
     eg_bind (on_engine_owner EngineModem (mp_rf_diagnostics port (Some (3 / 2)))) (\<lambda>diag.
       if rf_remaining_selectors status \<noteq> 0 \<or> rd_tx_active diag \<noteq> 0 then eg_raise RFNotIdle
       else
     eg_bind (on_engine_owner EngineModem
         (if cf_tx_enabled config
          then apply_tx_profile product_owner_dispatch (ee_transport env) (cf_frequency_hz config) (cf_tx_power config) (Some (3 / 2))
          else mp_set_rx_frequency port (cf_frequency_hz config) (Some (3 / 2)))) (\<lambda>_.
     eg_bind (on_engine_owner EngineModem (mp_arm_rx_modem_io port (Some (3 / 2)))) (\<lambda>_.
     eg_bind (on_engine_owner EngineModem (mp_rx_start port (Some (3 / 2)))) (\<lambda>_.
       eg_modify (\<lambda>e. e\<lparr>eg_rx_started := True\<rparr>))))))))) (e, w))"

definition start_runtime :: "'t engine_env \<Rightarrow> ('t, unit) engine_op" where
  "start_runtime env = (\<lambda>(e, w).
     case (engine_path (eg_config e), runtime_init (cf_required_identity (eg_config e)) 200 (1 / 200) (1 / 4)) of
       (Some path, Inr rt) \<Rightarrow>
         (let e = e\<lparr>eg_path := Some path, eg_runtime := Some rt\<rparr> in
          case on_engine_runtime [] (runtime_start (engine_runtime_env env e) (3 / 2)) (e, w) of
            (Some (Inr _), s) \<Rightarrow> (Inr (), s)
          | (Some (Inl x), s) \<Rightarrow> (Inl (EngineRuntime x), s)
          | (None, s) \<Rightarrow> (Inl EngineNotStarted, s))
     | _ \<Rightarrow> (Inl EngineConstruction, e, w))"

definition engine_start_body :: "'t engine_env \<Rightarrow> ('t, unit) engine_op" where
  "engine_start_body env =
     eg_bind (prepare_modem env) (\<lambda>_.
     eg_bind (start_runtime env) (\<lambda>_.
     eg_bind (start_plane env PlaneKISS) (\<lambda>_.
     eg_bind (start_plane env PlaneAGW) (\<lambda>_.
     eg_bind (start_plane env PlaneMonitor) (\<lambda>_.
       engine_check_health env)))))"

definition engine_start :: "'t engine_env \<Rightarrow> ('t, unit) engine_op" where
  "engine_start env = (\<lambda>(e, w).
     if eg_started e then (Inl EngineRestarted, e, w)
     else
       (let e = e\<lparr>eg_started := True\<rparr> in
        case owner_init 16 (1 / 5) (3 / 2) of
          Inl x \<Rightarrow> (Inl (EngineOwner x), e, w)
        | Inr ow \<Rightarrow>
            (case engine_start_body env (e\<lparr>eg_owner := Some ow\<rparr>, w) of
               (Inr _, s) \<Rightarrow> (Inr (), s)
             | (Inl x, s) \<Rightarrow> (Inl x, snd (engine_cleanup env s)))))"

text \<open>A step of the worker.\<close>

definition engine_work :: "'t engine_env \<Rightarrow> tnc_event list list \<Rightarrow> tnc_engine \<times> 't \<Rightarrow> tnc_engine \<times> 't" where
  "engine_work env batches s =
     snd (on_engine_runtime batches (\<lambda>rs. ((), runtime_step (ee_table env) (engine_runtime_env env (fst s)) rs)) s)"

subsection \<open>Model: the snapshot\<close>

record engine_snapshot =
  en_running :: bool
  en_firmware_identity :: string
  en_tx_enabled :: bool
  en_decoded_rx_frames :: nat
  en_tx_dispatches :: nat
  en_tx_queue_depth :: nat
  en_serving :: "plane list"
  en_failure :: "runtime_error option"

definition engine_snapshot_of :: "'t engine_env \<Rightarrow> tnc_engine \<times> 't \<Rightarrow> engine_snapshot" where
  "engine_snapshot_of env = (\<lambda>(e, w).
     let up = (\<lambda>p. lc_enabled (plane_config p (eg_config e)) \<longrightarrow> p \<in> set (eg_serving e) \<and> ls_alive (ee_listeners env) p w) in
     \<lparr>en_running =
        (case (eg_owner e, eg_runtime e) of
           (Some ow, Some rt) \<Rightarrow> os_running (owner_snapshot_of ow) \<and> rc_running (runtime_counters_of rt) \<and>
             up PlaneKISS \<and> up PlaneAGW \<and> up PlaneMonitor
         | _ \<Rightarrow> False),
      en_firmware_identity = eg_identity e,
      en_tx_enabled = cf_tx_enabled (eg_config e),
      en_decoded_rx_frames = (case eg_runtime e of None \<Rightarrow> 0 | Some rt \<Rightarrow> rt_decoded_frames rt),
      en_tx_dispatches = (case eg_runtime e of None \<Rightarrow> 0 | Some rt \<Rightarrow> rt_tx_dispatches rt),
      en_tx_queue_depth = (case eg_path e of None \<Rightarrow> 0 | Some (b, q, c) \<Rightarrow> length (kq_queue q)),
      en_serving = eg_serving e,
      en_failure = (case eg_runtime e of None \<Rightarrow> None | Some rt \<Rightarrow> rt_failure rt)\<rparr>)"

subsection \<open>What the worker and its clients keep\<close>

text \<open>
  The contract of a property of the system: clients keep it, and so does each of the operations that the
  worker has on the owner, the backend, the clock and the queue. Then the worker keeps it.
\<close>

definition worker_operation :: "owner_operation \<Rightarrow> bool" where
  "worker_operation op \<longleftrightarrow> (case op of OpGetVersion \<Rightarrow> True | OpRxRead n \<Rightarrow> True | OpRxStatus \<Rightarrow> True | OpRxRssi \<Rightarrow> True | _ \<Rightarrow> False)"

locale kept_service =
  fixes gate :: bool
    and sha :: "bytes \<Rightarrow> string"
    and tr :: "'t modem_transport"
    and monotonic :: "'t clock"
    and slp :: "'t sleeper"
    and src :: "'t random_source"
    and kept :: "'t tnc_system \<Rightarrow> bool"
  assumes client_kept: "kept s \<Longrightarrow> kept (client_step gate sha tr monotonic slp src s ev)"
    and call_kept: "kept (b, q, c, ow, x) \<Longrightarrow> worker_operation op \<Longrightarrow>
      owner_call product_owner_dispatch tr op t ow x = (r, ow', x') \<Longrightarrow> kept (b, q, c, ow', x')"
    and publish_kept: "kept (b, q, w) \<Longrightarrow> kept (backend_publish event b, q, w)"
    and tick_kept: "kept (b, q, c, ow, x) \<Longrightarrow> kept (b, q, c, ow, snd (monotonic x))"
    and pause_kept: "kept (b, q, c, ow, x) \<Longrightarrow> kept (b, q, c, ow, slp d x)"
    and observe_kept: "kept (b, q, w) \<Longrightarrow>
      ts_observe_rssi (tnc_submit sha tr monotonic slp) (tnc_clock monotonic) q now raw (Some (tnc_random src)) w = (res, q', w') \<Longrightarrow>
      kept (b, q', w')"
begin

abbreviation env :: "('t service, tx_receipt) runtime_env" where
  "env \<equiv> service_env gate sha tr monotonic slp src"

abbreviation any :: "runtime_error \<Rightarrow> bool" where
  "any \<equiv> \<lambda>_. True"

definition serving :: "tnc_runtime \<times> 't service \<Rightarrow> bool" where
  "serving s \<longleftrightarrow> kept (fst (snd s))"

lemma serving_same: "serving (rt, s) \<Longrightarrow> serving (rt', s)"
  by (simp add: serving_def)

lemma clients_kept: "kept (fst s) \<Longrightarrow> kept (fst (clients_run gate sha tr monotonic slp src s))"
proof (cases s)
  case (Pair sys batches)
  have "kept sys \<Longrightarrow> kept (run (client_step gate sha tr monotonic slp src) sys batch)" for batch
    by (induction batch arbitrary: sys) (simp_all add: client_kept)
  then show "kept (fst s) \<Longrightarrow> kept (fst (clients_run gate sha tr monotonic slp src s))"
    using Pair by (cases batches) (simp_all add: clients_run_def)
qed

lemma after_clients_kept:
  "(\<And>sys. kept sys \<Longrightarrow> kept (snd (m sys))) \<Longrightarrow> kept (fst s) \<Longrightarrow> kept (fst (snd (after_clients gate sha tr monotonic slp src m s)))"
  using clients_kept [of s] unfolding after_clients_def Let_def by (auto split: prod.splits) (metis fst_conv snd_conv)+

lemma owner_op_kept:
  "(\<And>sys. kept sys \<Longrightarrow> kept (snd (m sys))) \<Longrightarrow> rt_keeps serving any (rt_owner (after_clients gate sha tr monotonic slp src m))"
  using after_clients_kept [of m] by (intro rt_keepsI) (auto simp: serving_def rt_owner_def split: prod.splits sum.splits; metis fst_conv snd_conv)

lemma world_op_kept:
  "(\<And>sys. kept sys \<Longrightarrow> kept (snd (m sys))) \<Longrightarrow> rt_keeps serving any (rt_world (after_clients gate sha tr monotonic slp src m))"
  using after_clients_kept [of m] by (intro rt_keepsI) (auto simp: serving_def rt_world_def split: prod.splits; metis fst_conv snd_conv)

lemma call_op_kept:
  "worker_operation op \<Longrightarrow>
   rt_keeps serving any (rt_owner (after_clients gate sha tr monotonic slp src (on_owner (owner_method product_owner_dispatch tr op cast t))))"
proof (rule owner_op_kept)
  fix sys assume op: "worker_operation op" and k: "kept sys"
  obtain b q c ow x where sys: "sys = (b, q, c, ow, x)" by (metis prod_cases5)
  obtain r ow' x' where call: "owner_call product_owner_dispatch tr op t ow x = (r, ow', x')" by (rule prod_cases3)
  from call_kept [OF k [unfolded sys] op call] show "kept (snd (on_owner (owner_method product_owner_dispatch tr op cast t) sys))"
    by (simp add: sys on_owner_def owner_method_def call)
qed

lemma service_ports:
  "mp_get_version (re_owner env) t = after_clients gate sha tr monotonic slp src (on_owner (owner_method product_owner_dispatch tr OpGetVersion as_version t))"
  "mp_rx_read (re_owner env) n t = after_clients gate sha tr monotonic slp src (on_owner (owner_method product_owner_dispatch tr (OpRxRead n) as_bytes t))"
  "mp_rx_status (re_owner env) t = after_clients gate sha tr monotonic slp src (on_owner (owner_method product_owner_dispatch tr OpRxStatus as_rx_status t))"
  "mp_rx_rssi (re_owner env) t = after_clients gate sha tr monotonic slp src (on_owner (owner_method product_owner_dispatch tr OpRxRssi as_rssi t))"
  by (simp_all add: service_env_def owner_port_def Let_def)

lemma owner_ops_kept:
  "rt_keeps serving any (rt_owner (mp_get_version (re_owner env) t))"
  "rt_keeps serving any (rt_owner (mp_rx_read (re_owner env) n t))"
  "rt_keeps serving any (rt_owner (mp_rx_status (re_owner env) t))"
  "rt_keeps serving any (rt_owner (mp_rx_rssi (re_owner env) t))"
  unfolding service_ports by (simp_all add: call_op_kept worker_operation_def)

lemma service_fields:
  "re_monotonic env = after_clients gate sha tr monotonic slp src (\<lambda>(b, q, w). let (t, w) = tnc_clock monotonic w in (t, (b, q, w)))"
  "re_publish env event s = snd (after_clients gate sha tr monotonic slp src (\<lambda>(b, q, w). ((), (backend_publish event b, q, w))) s)"
  "re_wait env d s = snd (after_clients gate sha tr monotonic slp src (\<lambda>(b, q, c, ow, w). ((), (b, q, c, ow, slp d w))) s)"
  "re_observe_rssi env now raw = after_clients gate sha tr monotonic slp src (\<lambda>(b, q, w).
         let (res, q, w) = ts_observe_rssi (tnc_submit sha tr monotonic slp) (tnc_clock monotonic) q now raw (Some (tnc_random src)) w
         in (res, (b, q, w)))"
  by (simp_all add: service_env_def Let_def)

lemma clock_op_kept: "rt_keeps serving any (rt_world (re_monotonic env))"
proof -
  have "kept (snd ((\<lambda>(b, q, w). let (t, w) = tnc_clock monotonic w in (t, (b, q, w))) sys))" if k: "kept sys" for sys
  proof -
    obtain b q c ow x t x' where "sys = (b, q, c, ow, x)" "monotonic x = (t, x')" by (metis prod_cases5 prod.exhaust)
    with tick_kept [of b q c ow x] k show ?thesis by (simp add: tnc_clock_def lift_clock_def Let_def)
  qed
  then show ?thesis unfolding service_fields by (rule world_op_kept)
qed

lemma publish_op_kept: "serving (rt, s) \<Longrightarrow> serving (rt, re_publish env event s)"
  unfolding service_fields serving_def prod.sel by (rule after_clients_kept) (auto intro: publish_kept)

lemma wait_op_kept: "serving (rt, s) \<Longrightarrow> serving (rt, re_wait env d s)"
  unfolding service_fields serving_def prod.sel by (rule after_clients_kept) (auto intro: pause_kept)

lemma observe_op_kept: "serving (rt, s) \<Longrightarrow> serving (rt, snd (re_observe_rssi env now raw s))"
  unfolding service_fields serving_def prod.sel
  by (rule after_clients_kept) (auto simp: Let_def split: prod.splits dest: observe_kept)

lemma publish_items_kept: "rt_keeps serving any (publish_items env items)"
proof (induction items)
  case (Cons item items)
  have "rt_keeps serving any (runtime_publish env item)"
    by (rule rt_keepsI) (auto simp: runtime_publish_def split: sum.splits intro: serving_same [OF publish_op_kept])
  with Cons show ?case unfolding publish_items.simps by (intro rt_keeps_bind)
qed simp

lemma consume_kept: "rt_keeps serving any (runtime_consume table env chunk)"
proof (rule rt_keepsI)
  fix rt s r rt' s'
  assume kept: "serving (rt, s)" and step: "runtime_consume table env chunk (rt, s) = (r, rt', s')"
  obtain fresh d where f: "rx_feed table chunk (rt_decoder rt) = (fresh, d)" by (rule prod.exhaust)
  have "serving (rt\<lparr>rt_decoder := d, rt_packed_bytes := rt_packed_bytes rt + length chunk\<rparr>, s)" by (rule serving_same [OF kept])
  from rt_keepsD [OF publish_items_kept this] step f show "serving (rt', s') \<and> (\<forall>e. r = Inl e \<longrightarrow> any e)"
    by (simp add: runtime_consume_def) (metis snd_conv)
qed

lemma round_kept: "rt_keeps serving any (drain_round table env)"
proof (rule rt_keepsI)
  fix rt s r rt' s'
  assume kept: "serving (rt, s)" and step: "drain_round table env (rt, s) = (r, rt', s')"
  have last: "rt_keeps serving any (\<lambda>s. rt_return (int (length chunk) < rt_read_maximum (fst s)) s)" for chunk
    by (rule rt_keepsI) (auto simp: rt_return_def)
  have "rt_keeps serving any (rt_bind (rt_owner (mp_rx_read (re_owner env) (rt_read_maximum rt) None)) (\<lambda>chunk.
     rt_bind (rt_modify (\<lambda>rt. rt\<lparr>rt_rx_reads := rt_rx_reads rt + 1\<rparr>)) (\<lambda>_.
     rt_bind (if chunk = [] then rt_return () else runtime_consume table env chunk) (\<lambda>_ s.
       rt_return (int (length chunk) < rt_read_maximum (fst s)) s))))"
    by (intro rt_keeps_bind owner_ops_kept rt_keeps_modify last) (simp_all add: consume_kept serving_same)
  from rt_keepsD [OF this kept] step show "serving (rt', s') \<and> (\<forall>e. r = Inl e \<longrightarrow> any e)" by (simp add: drain_round_def)
qed

lemma status_kept: "rt_keeps serving any (checked_status env timeout)"
  unfolding checked_status_def record_status_check_def require_active_status_def
  by (intro rt_keeps_bind owner_ops_kept rt_keeps_modify) (simp_all add: rt_keeps_raise serving_same)

lemma act_kept: "rt_keeps serving any (act_on_observation env observation)"
proof -
  have "rt_keeps serving any (after_dispatch env)"
    unfolding after_dispatch_def by (intro rt_keeps_bind status_kept clock_op_kept rt_keeps_modify) (simp_all add: serving_same)
  then show ?thesis
    unfolding act_on_observation_def by (auto intro!: rt_keeps_modify rt_keeps_raise elim: serving_same)
qed

lemma observation_kept: "rt_keeps serving any (rt_observe env now raw)"
  by (rule rt_keepsI) (auto simp: rt_observe_def split: prod.splits sum.splits dest: observe_op_kept [of _ _ now raw])

lemma start_kept: "serving s \<Longrightarrow> serving (snd (runtime_start env timeout s))"
proof (cases "timeout \<le> 0 \<or> rt_started (fst s)")
  case False
  let ?checked = "\<lambda>version. rt_bind (checked_status env (Some timeout)) (\<lambda>_.
            rt_bind (rt_modify (\<lambda>rt. rt\<lparr>rt_identity := vr_identity version, rt_stop := False, rt_alive := True\<rparr>)) (\<lambda>_.
            rt_bind (rt_world (re_monotonic env)) (\<lambda>t.
              rt_modify (\<lambda>rt. rt\<lparr>rt_next_status := t + rt_status_interval_seconds rt\<rparr>))))"
  let ?body = "rt_bind (rt_modify (\<lambda>rt. rt\<lparr>rt_started := True\<rparr>)) (\<lambda>_.
        rt_bind (rt_owner (mp_get_version (re_owner env) (Some timeout))) (\<lambda>version s.
          if vr_identity version \<noteq> rt_expected_identity (fst s) then rt_raise IdentityMismatch s else ?checked version s))"
  have checked: "rt_keeps serving any (?checked version)" for version
    by (intro rt_keeps_bind status_kept clock_op_kept rt_keeps_modify) (simp_all add: serving_same)
  have "rt_keeps serving any (\<lambda>s. if vr_identity version \<noteq> rt_expected_identity (fst s) then rt_raise IdentityMismatch s else ?checked version s)"
    for version by (rule rt_keeps_test [OF rt_keeps_raise checked]) simp
  then have "rt_keeps serving any ?body"
    by (intro rt_keeps_bind [OF rt_keeps_modify] rt_keeps_bind [OF owner_ops_kept(1)]) (simp_all add: serving_same)
  from rt_keepsD [OF this] False show "serving s \<Longrightarrow> serving (snd (runtime_start env timeout s))"
    unfolding runtime_start_def by simp
qed (auto simp: runtime_start_def)

end

sublocale kept_service \<subseteq> worker: runtime_invariant table env serving any for table
proof (unfold_locales, goal_cases)
  case (5 now raw)
  show ?case by (intro rt_keeps_bind rt_keeps_modify observation_kept act_kept) (simp add: serving_same)
qed (simp_all add: round_kept status_kept clock_op_kept owner_ops_kept wait_op_kept serving_same)


subsection \<open>A receiving engine does not transmit\<close>

text \<open>
  The requests that cannot make the modem transmit: no selector burst, and no frequency setting but with the
  receive power, the least one.
\<close>

definition listening_request :: "bytes \<Rightarrow> bool" where
  "listening_request request \<longleftrightarrow>
     (case host_parse_frame request None of
        Inl _ \<Rightarrow> False
      | Inr f \<Rightarrow>
          (hf_command f = YWD_RF \<longrightarrow> hf_payload f \<in> {[RF_GET_STATUS], [RF_GET_DIAG]}) \<and>
          (hf_command f = SET_FREQ \<longrightarrow> hf_payload f \<noteq> [] \<and> last (hf_payload f) = 1))"

definition listening_operation :: "owner_operation \<Rightarrow> bool" where
  "listening_operation op \<longleftrightarrow>
     (case op of OpApplyTxQualificationProfile _ \<Rightarrow> False | OpTransmitSelectorBurst _ \<Rightarrow> False | OpApplyTxProfile _ \<Rightarrow> False | _ \<Rightarrow> True)"

lemma listening_requestI:
  assumes "build_frame c p = Inr request"
    and "(c = YWD_RF \<longrightarrow> p \<in> {[RF_GET_STATUS], [RF_GET_DIAG]}) \<and> (c = SET_FREQ \<longrightarrow> p \<noteq> [] \<and> last p = 1)"
  shows "listening_request request"
proof -
  have "host_parse_frame request None = Inr \<lparr>hf_command = c, hf_payload = p\<rparr>"
    unfolding host_parse_frame_iff using assms(1) by simp
  with assms(2) show ?thesis by (simp add: listening_request_def)
qed

lemma listening_operation_request: "listening_operation op \<Longrightarrow> op_request op = Inr request \<Longrightarrow> listening_request request"
proof (cases op)
  case (OpSetRxFrequency hz)
  assume "op_request op = Inr request"
  with OpSetRxFrequency obtain h where "build_frame SET_FREQ ([0] @ to_bytes_le 4 h @ to_bytes_le 4 h @ [1]) = Inr request"
    by (auto simp: set_rx_frequency_request_def try_bind_Inr_iff)
  then show ?thesis by (rule listening_requestI) (simp add: SET_FREQ_def YWD_RF_def)
next
  case (OpRxRead n)
  assume "op_request op = Inr request"
  with OpRxRead obtain m where "build_frame YWD_RX [RX_READ, m] = Inr request" by (auto simp: rx_read_request_def split: if_splits)
  then show ?thesis by (rule listening_requestI) (simp add: SET_FREQ_def YWD_RF_def YWD_RX_def)
qed (auto simp: listening_operation_def get_version_request_def arm_rx_modem_io_request_def rx_start_request_def
    rx_status_request_def rx_rssi_request_def rx_stop_request_def rf_status_request_def rf_diag_request_def
    SET_FREQ_def YWD_RF_def YWD_RX_def GET_VERSION_def SET_CONFIG_def elim!: listening_requestI)

text \<open>An owner between calls, whether it runs or not. A call then writes its request, or nothing.\<close>

definition owner_calm :: "modem_owner \<Rightarrow> bool" where
  "owner_calm ow \<longleftrightarrow> ow_queue ow = [] \<and> 1 \<le> ow_queue_capacity ow \<and> (ow_thread ow = OwnerAlive \<longrightarrow> ow_accepting ow)"

lemma idle_calm: "owner_idle ow \<Longrightarrow> owner_calm ow"
  by (simp add: owner_calm_def owner_idle_def)

lemma logged_call:
  assumes calm: "owner_calm ow" and call: "owner_call product_owner_dispatch (logged tr) op timeout ow (lg, w) = (r, ow', (lg', w'))"
  shows "owner_calm ow' \<and> (lg' = lg \<or> (\<exists>request. op_request op = Inr request \<and> lg' = lg @ [request]))"
proof (cases "0 < (case timeout of None \<Rightarrow> ow_default_transaction_timeout ow | Some t \<Rightarrow> t) \<and> ow_thread ow = OwnerAlive")
  case True
  then have idle: "owner_idle ow" using calm by (simp add: owner_calm_def owner_idle_def)
  let ?t = "case timeout of None \<Rightarrow> ow_default_transaction_timeout ow | Some t \<Rightarrow> t"
  have "owner_call_begin ow op timeout = owner_call_begin ow op (Some ?t)" by (cases timeout) (simp_all add: owner_call_begin_def)
  then have "owner_call product_owner_dispatch (logged tr) op timeout ow (lg, w) = owner_call product_owner_dispatch (logged tr) op (Some ?t) ow (lg, w)"
    by (simp only: owner_call_def)
  with owner_call_idle [OF idle conjunct1 [OF True], of "logged tr" op "(lg, w)"] call
  have "owner_idle ow'" "(lg', w') = snd (transaction (logged tr) op ?t (lg, w))" by auto
  then show ?thesis by (cases "op_request op") (auto simp: transaction_def logged_def idle_calm split: prod.splits sum.splits)
next
  case False
  then have "owner_call_begin ow op timeout = (Inl OwnerTimeoutNotPositive, ow) \<or> owner_call_begin ow op timeout = (Inl ModemOwnerNotRunning, ow)"
    by (cases timeout) (simp_all add: owner_call_begin_def Let_def)
  with calm call show ?thesis by (auto simp: owner_call_def)
qed

definition silent_system :: "(bytes list \<times> 't) tnc_system \<Rightarrow> bool" where
  "silent_system = (\<lambda>(b, q, c, ow, lg, w).
     kq_queue q = [] \<and> rt_brokers (ch_router c) = [] \<and> owner_calm ow \<and> list_all listening_request lg)"

lemma silent_call:
  assumes "owner_calm ow" "list_all listening_request lg" "listening_operation op"
    and "owner_call product_owner_dispatch (logged tr) op t ow (lg, w) = (r, ow', (lg', w'))"
  shows "owner_calm ow' \<and> list_all listening_request lg'"
  using logged_call [OF assms(1,4)] assms(2,3) listening_operation_request by auto

lemma empty_observation:
  assumes "kq_queue q = []" "ts_observe_rssi submit monotonic q now raw src w = (res, q', w')"
  shows "kq_queue q' = [] \<and> w' = snd (monotonic w)"
  using assms by (auto simp: ts_observe_rssi_def kq_observe_rssi_def kq_accept_now_def split: prod.splits if_splits)

lemma gated_message_queue:
  assumes "product_client_message False monotonic m b q w = (res, b', q', w')" shows "q' = q \<and> w' = w"
  using assms by (auto simp: product_client_message_def backend_client_message_def split: if_splits prod.splits sum.splits)

interpretation silent: kept_service False sha "logged tr" "lift_clock monotonic" "lift_sleep slp" "lift_random src" silent_system
  for sha and tr :: "'t modem_transport" and monotonic slp src
proof (unfold_locales, goal_cases)
  case (1 s ev)
  obtain b q w where s: "s = (b, q, w)" by (rule prod_cases3)
  show ?case
  proof (cases ev)
    case (TeMessage m)
    obtain res b' q' w' where p: "product_client_message False (tnc_clock (lift_clock monotonic)) m b q w = (res, b', q', w')" by (rule prod_cases4)
    with gated_message_queue [OF p] 1 s TeMessage show ?thesis by (simp add: client_step_def silent_system_def)
  qed (use 1 s in \<open>simp_all add: client_step_def tnc_system_step_def tnc_step_def silent_system_def\<close>)
next
  case (2 b q c ow x op t r ow' x')
  moreover have "listening_operation op" using 2(2) by (auto simp: worker_operation_def listening_operation_def split: owner_operation.splits)
  moreover obtain lg w lg' w' where "x = (lg, w)" "x' = (lg', w')" by (metis prod.exhaust)
  ultimately show ?case using silent_call [of ow lg op tr t w r ow' lg' w'] by (simp add: silent_system_def)
next
  case (6 b q w now raw res q' w')
  from empty_observation [OF _ 6(2)] 6(1) have "kq_queue q' = []" "w' = snd (tnc_clock (lift_clock monotonic) w)"
    by (auto simp: silent_system_def split: prod.splits)
  with 6(1) show ?case
    by (auto simp: silent_system_def tnc_clock_def lift_clock_def Let_def split: prod.splits)
qed (auto simp: silent_system_def lift_clock_def lift_sleep_def Let_def split: prod.splits)


text \<open>The life of an engine: its public operations, and steps of its worker.\<close>

datatype engine_event = EgStart | EgWork "tnc_event list list" | EgHealth | EgStop

definition engine_step :: "'t engine_env \<Rightarrow> tnc_engine \<times> 't \<Rightarrow> engine_event \<Rightarrow> tnc_engine \<times> 't" where
  "engine_step env s ev =
     (case ev of
        EgStart \<Rightarrow> snd (engine_start env s)
      | EgWork batches \<Rightarrow> engine_work env batches s
      | EgHealth \<Rightarrow> snd (engine_check_health env s)
      | EgStop \<Rightarrow> snd (engine_stop env s))"

text \<open>The engine with a log of the requests written to the device.\<close>

definition lift_listeners :: "'t listeners \<Rightarrow> ('s \<times> 't) listeners" where
  "lift_listeners ls =
     \<lparr>ls_start = (\<lambda>p host port (lg, w). let (r, w) = ls_start ls p host port w in (r, (lg, w))),
      ls_alive = (\<lambda>p (lg, w). ls_alive ls p w),
      ls_stop = (\<lambda>p (lg, w). let (r, w) = ls_stop ls p w in (r, (lg, w)))\<rparr>"

definition logged_env :: "'t engine_env \<Rightarrow> (bytes list \<times> 't) engine_env" where
  "logged_env env =
     \<lparr>ee_sha = ee_sha env, ee_table = ee_table env, ee_transport = logged (ee_transport env), ee_clock = lift_clock (ee_clock env),
      ee_sleep = lift_sleep (ee_sleep env), ee_random = lift_random (ee_random env), ee_listeners = lift_listeners (ee_listeners env),
      ee_thread_id = ee_thread_id env\<rparr>"

lemma logged_env_fields [simp]:
  "ee_sha (logged_env env) = ee_sha env" "ee_table (logged_env env) = ee_table env"
  "ee_transport (logged_env env) = logged (ee_transport env)" "ee_clock (logged_env env) = lift_clock (ee_clock env)"
  "ee_sleep (logged_env env) = lift_sleep (ee_sleep env)" "ee_random (logged_env env) = lift_random (ee_random env)"
  "ee_listeners (logged_env env) = lift_listeners (ee_listeners env)" "ee_thread_id (logged_env env) = ee_thread_id env"
  by (simp_all add: logged_env_def)

text \<open>What an operation of the engine keeps.\<close>

definition eg_keeps :: "(tnc_engine \<times> 't \<Rightarrow> bool) \<Rightarrow> ('t, 'a) engine_op \<Rightarrow> bool" where
  "eg_keeps kept m \<longleftrightarrow> (\<forall>s. kept s \<longrightarrow> kept (snd (m s)))"

lemma eg_keepsD: "eg_keeps kept m \<Longrightarrow> kept s \<Longrightarrow> kept (snd (m s))"
  unfolding eg_keeps_def by blast

lemma eg_keepsI: "(\<And>e w r e' w'. kept (e, w) \<Longrightarrow> m (e, w) = (r, e', w') \<Longrightarrow> kept (e', w')) \<Longrightarrow> eg_keeps kept m"
  unfolding eg_keeps_def by (metis prod.collapse)

lemma eg_keeps_bind: "eg_keeps kept m \<Longrightarrow> (\<And>x. eg_keeps kept (f x)) \<Longrightarrow> eg_keeps kept (eg_bind m f)"
  unfolding eg_keeps_def
proof (intro allI impI)
  fix s assume m: "\<forall>s. kept s \<longrightarrow> kept (snd (m s))" and f: "\<And>x. \<forall>s. kept s \<longrightarrow> kept (snd (f x s))" and "kept s"
  obtain r s1 where r: "m s = (r, s1)" by (rule prod.exhaust)
  with m \<open>kept s\<close> have "kept s1" by (metis snd_conv)
  with f r show "kept (snd (eg_bind m f s))" by (cases r) (simp_all add: eg_bind_def del: split_paired_All)
qed

lemma eg_keeps_raise: "eg_keeps kept (eg_raise e)"
  by (simp add: eg_keeps_def eg_raise_def)

lemma eg_keeps_modify: "(\<And>e w. kept (e, w) \<Longrightarrow> kept (f e, w)) \<Longrightarrow> eg_keeps kept (eg_modify f)"
  by (auto simp: eg_keeps_def eg_modify_def)

lemma eg_keeps_if: "eg_keeps kept m \<Longrightarrow> eg_keeps kept m' \<Longrightarrow> eg_keeps kept (if c then m else m')"
  by simp

text \<open>Starting and stopping the owner.\<close>

lemma owner_start_calm:
  assumes "owner_calm ow" "owner_start (logged tr) i t ow (lg, w) = (r, ow', (lg', w'))"
  shows "owner_calm ow' \<and> lg' = lg \<and> (r = Inr () \<longrightarrow> ow_thread ow' = OwnerAlive)"
  using assms by (auto simp: owner_start_def owner_calm_def logged_def Let_def split: if_splits prod.splits sum.splits)

lemma owner_stop_calm:
  assumes "owner_calm ow" "owner_stop product_owner_dispatch (logged tr) 2 ow (lg, w) = (r, ow', (lg', w'))"
  shows "owner_calm ow' \<and> ow_thread ow' \<noteq> OwnerAlive \<and> lg' = lg"
proof (cases "ow_thread ow = OwnerAlive")
  case True
  with assms show ?thesis
    by (auto simp: owner_stop_def owner_stop_request_def owner_calm_def owner_idle_def owner_worker_step_def logged_def Let_def
        split: if_splits prod.splits)
next
  case False
  with assms show ?thesis by (simp add: owner_stop_def owner_stop_request_def owner_calm_def Let_def)
qed


definition silent_engine :: "tnc_engine \<times> (bytes list \<times> 't) \<Rightarrow> bool" where
  "silent_engine = (\<lambda>(e, lg, w).
     \<not> cf_tx_enabled (eg_config e) \<and> list_all listening_request lg \<and>
     (case eg_owner e of None \<Rightarrow> True | Some ow \<Rightarrow> owner_calm ow) \<and>
     (case eg_path e of None \<Rightarrow> True | Some (b, q, c) \<Rightarrow> kq_queue q = [] \<and> rt_brokers (ch_router c) = []))"

lemma silent_method:
  assumes "listening_operation op"
  shows "eg_keeps silent_engine (on_engine_owner err (owner_method product_owner_dispatch (logged tr) op cast t))"
proof (rule eg_keepsI)
  fix e s r e' s'
  assume kept: "silent_engine (e, s)" and step: "on_engine_owner err (owner_method product_owner_dispatch (logged tr) op cast t) (e, s) = (r, e', s')"
  obtain lg w where s: "s = (lg, w)" by (rule prod.exhaust)
  show "silent_engine (e', s')"
  proof (cases "eg_owner e")
    case (Some ow)
    obtain res ow' lg' w' where call: "owner_call product_owner_dispatch (logged tr) op t ow (lg, w) = (res, ow', (lg', w'))" by (metis prod_cases4)
    have "owner_calm ow' \<and> list_all listening_request lg'"
      by (rule silent_call [OF _ _ assms call]) (use kept Some s in \<open>simp_all add: silent_engine_def\<close>)
    with step kept Some s call show ?thesis by (auto simp: on_engine_owner_def owner_method_def silent_engine_def)
  qed (use kept step in \<open>simp add: on_engine_owner_def\<close>)
qed

lemma silent_ports:
  "eg_keeps silent_engine (on_engine_owner err (mp_get_version (engine_port (logged_env env)) t))"
  "eg_keeps silent_engine (on_engine_owner err (mp_set_rx_frequency (engine_port (logged_env env)) f t))"
  "eg_keeps silent_engine (on_engine_owner err (mp_arm_rx_modem_io (engine_port (logged_env env)) t))"
  "eg_keeps silent_engine (on_engine_owner err (mp_rx_start (engine_port (logged_env env)) t))"
  "eg_keeps silent_engine (on_engine_owner err (mp_rx_stop (engine_port (logged_env env)) t))"
  "eg_keeps silent_engine (on_engine_owner err (mp_rf_status (engine_port (logged_env env)) t))"
  "eg_keeps silent_engine (on_engine_owner err (mp_rf_diagnostics (engine_port (logged_env env)) t))"
  by (simp_all add: engine_port_def owner_port_def silent_method listening_operation_def)

lemma silent_owner_start:
  "eg_keeps silent_engine (on_engine_owner err (\<lambda>(ow, w). owner_start (ee_transport (logged_env env)) i t ow w))"
proof (rule eg_keepsI)
  fix e s r e' s'
  assume kept: "silent_engine (e, s)"
    and step: "on_engine_owner err (\<lambda>(ow, w). owner_start (ee_transport (logged_env env)) i t ow w) (e, s) = (r, e', s')"
  obtain lg w where s: "s = (lg, w)" by (rule prod.exhaust)
  show "silent_engine (e', s')"
  proof (cases "eg_owner e")
    case (Some ow)
    obtain res ow' lg' w' where start: "owner_start (logged (ee_transport env)) i t ow (lg, w) = (res, ow', (lg', w'))" by (metis prod_cases4)
    from owner_start_calm [OF _ start] kept Some s have "owner_calm ow' \<and> lg' = lg" by (simp add: silent_engine_def)
    with step kept Some s start show ?thesis by (auto simp: on_engine_owner_def silent_engine_def)
  qed (use kept step in \<open>simp add: on_engine_owner_def\<close>)
qed

text \<open>The engine of a configuration without transmission never takes the branch of \<open>prepare_modem\<close> that sets a profile.\<close>

lemma silent_prepare: "silent_engine s \<Longrightarrow> silent_engine (snd (prepare_modem (logged_env env) s))"
proof -
  assume kept: "silent_engine s"
  obtain e w where s: "s = (e, w)" by (rule prod.exhaust)
  with kept have off: "\<not> cf_tx_enabled (eg_config e)" by (simp add: silent_engine_def split: prod.splits)
  let ?m = "\<lambda>m. on_engine_owner EngineModem m" and ?port = "engine_port (logged_env env)" and ?t = "Some (3 / 2) :: seconds option"
  have "eg_keeps silent_engine (eg_modify (\<lambda>e. e\<lparr>eg_rx_started := True\<rparr>))"
    "eg_keeps silent_engine (eg_modify (\<lambda>e. e\<lparr>eg_identity := i\<rparr>))" for i
    by (rule eg_keeps_modify; simp add: silent_engine_def)+
  then have "eg_keeps silent_engine
    (eg_bind (on_engine_owner EngineOwner (\<lambda>(ow, w). owner_start (ee_transport (logged_env env)) (ee_thread_id (logged_env env)) 2 ow w)) (\<lambda>_.
     eg_bind (on_engine_owner EngineModem (mp_get_version ?port ?t)) (\<lambda>version.
       if vr_identity version \<noteq> cf_required_identity (eg_config e) then eg_raise FirmwareMismatch
       else if vr_identity version \<noteq> QUALIFIED_FIRMWARE_IDENTITY then eg_raise OutsideLineage
       else
     eg_bind (eg_modify (\<lambda>e. e\<lparr>eg_identity := vr_identity version\<rparr>)) (\<lambda>_.
     eg_bind (on_engine_owner EngineModem (mp_rf_status ?port ?t)) (\<lambda>status.
     eg_bind (on_engine_owner EngineModem (mp_rf_diagnostics ?port ?t)) (\<lambda>diag.
       if rf_remaining_selectors status \<noteq> 0 \<or> rd_tx_active diag \<noteq> 0 then eg_raise RFNotIdle
       else
     eg_bind (on_engine_owner EngineModem (mp_set_rx_frequency ?port (cf_frequency_hz (eg_config e)) ?t)) (\<lambda>_.
     eg_bind (on_engine_owner EngineModem (mp_arm_rx_modem_io ?port ?t)) (\<lambda>_.
     eg_bind (on_engine_owner EngineModem (mp_rx_start ?port ?t)) (\<lambda>_.
       eg_modify (\<lambda>e. e\<lparr>eg_rx_started := True\<rparr>))))))))))"
    by (intro eg_keeps_bind eg_keeps_if eg_keeps_raise silent_ports silent_owner_start)
  from eg_keepsD [OF this kept] show ?thesis using off by (simp add: prepare_modem_def s Let_def)
qed

lemma engine_env_silent:
  "\<not> cf_tx_enabled (eg_config e) \<Longrightarrow> engine_runtime_env (logged_env env) e =
     service_env False (ee_sha env) (logged (ee_transport env)) (lift_clock (ee_clock env)) (lift_sleep (ee_sleep env)) (lift_random (ee_random env))"
  by (simp add: engine_runtime_env_def)

lemma silent_runtime:
  assumes kept: "silent_engine s"
    and m: "\<And>rs. silent.serving rs \<Longrightarrow> silent.serving (snd (m rs))"
  shows "silent_engine (snd (on_engine_runtime batches m s))"
proof -
  obtain e lg w where s: "s = (e, lg, w)" by (rule prod_cases3)
  show ?thesis
  proof (cases "eg_owner e = None \<or> eg_path e = None \<or> eg_runtime e = None")
    case True
    with kept s show ?thesis by (auto simp: on_engine_runtime_def split: option.splits)
  next
    case False
    then obtain ow b q c rt where o: "eg_owner e = Some ow" "eg_path e = Some (b, q, c)" "eg_runtime e = Some rt" by auto
    obtain r rt' b' q' c' ow' lg' w' rest where out: "m (rt, (b, q, c, ow, lg, w), batches) = (r, rt', (b', q', c', ow', lg', w'), rest)"
      by (metis prod.exhaust)
    have "silent_system (b, q, c, ow, lg, w)" using kept s o by (simp add: silent_system_def silent_engine_def)
    then have "silent.serving (rt, (b, q, c, ow, lg, w), batches)" by (simp only: silent.serving_def prod.sel)
    from m [OF this] out have "silent_system (b', q', c', ow', lg', w')" by (simp add: silent.serving_def)
    with kept s o out show ?thesis by (simp add: on_engine_runtime_def silent_engine_def silent_system_def)
  qed
qed

lemma silent_work: "silent_engine s \<Longrightarrow> silent_engine (engine_work (logged_env env) batches s)"
proof -
  assume kept: "silent_engine s"
  then have off: "\<not> cf_tx_enabled (eg_config (fst s))" by (auto simp: silent_engine_def split: prod.splits)
  show ?thesis unfolding engine_work_def engine_env_silent [OF off]
    by (rule silent_runtime [OF kept]) (simp add: silent.worker.step_kept)
qed


lemma silent_plane: "eg_keeps silent_engine (start_plane (logged_env env) p)"
  by (rule eg_keepsI)
    (auto simp: start_plane_def lift_listeners_def silent_engine_def Let_def split: if_splits prod.splits sum.splits)

lemma silent_health: "snd (engine_check_health env s) = s"
  by (auto simp: engine_check_health_def Let_def split: option.splits sum.splits prod.splits)

lemma engine_path_fresh: "engine_path c = Some (b, q, cs) \<Longrightarrow> kq_queue q = [] \<and> rt_brokers (ch_router cs) = []"
  by (auto simp: engine_path_def kq_init_def router_init_def contextual_init_def split: sum.splits if_splits)

lemma silent_start_runtime: "silent_engine s \<Longrightarrow> silent_engine (snd (start_runtime (logged_env env) s))"
proof -
  assume kept: "silent_engine s"
  obtain e w where s: "s = (e, w)" by (rule prod.exhaust)
  show ?thesis
  proof (cases "engine_path (eg_config e)")
    case (Some path)
    show ?thesis
    proof (cases "runtime_init (cf_required_identity (eg_config e)) 200 (1 / 200) (1 / 4)")
      case (Inr rt)
      obtain b q c where path: "path = (b, q, c)" by (rule prod_cases3)
      let ?e = "e\<lparr>eg_path := Some path, eg_runtime := Some rt\<rparr>"
      have off: "\<not> cf_tx_enabled (eg_config ?e)" using kept s by (simp add: silent_engine_def split: prod.splits)
      have "silent_engine (?e, w)" using kept s Some path engine_path_fresh by (auto simp: silent_engine_def)
      then have started: "silent_engine (snd (on_engine_runtime [] (runtime_start (engine_runtime_env (logged_env env) ?e) (3 / 2)) (?e, w)))"
        unfolding engine_env_silent [OF off] by (rule silent_runtime) (rule silent.start_kept)
      obtain r s1 where out: "on_engine_runtime [] (runtime_start (engine_runtime_env (logged_env env) ?e) (3 / 2)) (?e, w) = (r, s1)"
        by (rule prod.exhaust)
      have "snd (start_runtime (logged_env env) s) = s1"
        using out by (simp add: start_runtime_def s Some Inr Let_def split: option.split sum.split)
      with started out show ?thesis by simp
    qed (use kept s Some in \<open>simp add: start_runtime_def\<close>)
  qed (use kept s in \<open>simp add: start_runtime_def\<close>)
qed

lemma silent_stop_plane: "silent_engine (snd x) \<Longrightarrow> silent_engine (snd (stop_plane (logged_env env) p x))"
  by (auto simp: stop_plane_def lift_listeners_def silent_engine_def Let_def split: prod.splits)

lemma silent_stop_runtime: "silent_engine (snd x) \<Longrightarrow> silent_engine (snd (stop_runtime (logged_env env) x))"
proof -
  assume kept: "silent_engine (snd x)"
  obtain errors e w where x: "x = (errors, e, w)" by (rule prod_cases3)
  have off: "\<not> cf_tx_enabled (eg_config e)" using kept x by (simp add: silent_engine_def split: prod.splits)
  have "silent.serving (snd (runtime_stop table (service_env False sha (logged tr) (lift_clock monotonic) (lift_sleep slp) (lift_random src)) 3 rs))"
    if "silent.serving rs" for rs table sha and tr :: "'a modem_transport" and monotonic slp src
  proof -
    have "silent.serving ((fst rs)\<lparr>rt_stop := True\<rparr>, snd rs)" using that by (simp add: silent.serving_def)
    from silent.worker.step_kept [OF this] show ?thesis by (simp add: runtime_stop_def Let_def)
  qed
  note stop = this
  have stopped: "silent_engine (snd (on_engine_runtime [] (runtime_stop (ee_table (logged_env env)) (engine_runtime_env (logged_env env) e) 3) (e, w)))"
    unfolding engine_env_silent [OF off] by (rule silent_runtime) (use kept x stop in simp_all)
  obtain r s1 where out: "on_engine_runtime [] (runtime_stop (ee_table (logged_env env)) (engine_runtime_env (logged_env env) e) 3) (e, w) = (r, s1)"
    by (rule prod.exhaust)
  have "snd (stop_runtime (logged_env env) x) = s1" using out by (simp add: stop_runtime_def x Let_def split: prod.split)
  with stopped out show ?thesis by simp
qed

lemma silent_close_router: "silent_engine (snd x) \<Longrightarrow> silent_engine (snd (close_router env x))"
proof -
  assume kept: "silent_engine (snd x)"
  obtain errors e lg w where x: "x = (errors, e, lg, w)" by (metis prod_cases4)
  show ?thesis
  proof (cases "eg_owner e = None \<or> eg_path e = None")
    case False
    then obtain ow b q c where o: "eg_owner e = Some ow" "eg_path e = Some (b, q, c)" by auto
    have none: "rt_brokers (ch_router c) = []" using kept x o by (simp add: silent_engine_def)
    then have "\<exists>router. router_close (engine_port env) (ch_router c) (ow, lg, w) = (Inr (), router, ow, lg, w) \<and> rt_brokers router = []"
      by (cases "rt_closed (ch_router c)") (simp_all add: router_close_def)
    then obtain router where "router_close (engine_port env) (ch_router c) (ow, lg, w) = (Inr (), router, ow, lg, w)" "rt_brokers router = []"
      by (elim exE conjE)
    with kept x o show ?thesis by (simp add: close_router_def silent_engine_def)
  qed (use kept x in \<open>auto simp: close_router_def split: option.split\<close>)
qed

lemma silent_stop_receiver: "silent_engine (snd x) \<Longrightarrow> silent_engine (snd (stop_receiver (logged_env env) x))"
proof -
  assume kept: "silent_engine (snd x)"
  obtain errors e w where x: "x = (errors, e, w)" by (rule prod_cases3)
  have "silent_engine (snd (on_engine_owner EngineModem (mp_rx_stop (engine_port (logged_env env)) (Some (3 / 2))) (e, w)))"
    using eg_keepsD [OF silent_ports(5), of "(e, w)"] kept x by simp
  then show ?thesis using kept x by (auto simp: stop_receiver_def silent_engine_def Let_def split: prod.splits)
qed

lemma silent_stop_owner: "silent_engine (snd x) \<Longrightarrow> silent_engine (snd (stop_owner (logged_env env) x))"
proof -
  assume kept: "silent_engine (snd x)"
  obtain errors e lg w where x: "x = (errors, e, lg, w)" by (metis prod_cases4)
  show ?thesis
  proof (cases "eg_owner e")
    case (Some ow)
    obtain r ow' lg' w' where stop: "owner_stop product_owner_dispatch (logged (ee_transport env)) 2 ow (lg, w) = (r, ow', (lg', w'))"
      by (metis prod_cases4)
    from owner_stop_calm [OF _ stop] kept Some x have "owner_calm ow' \<and> lg' = lg" by (simp add: silent_engine_def)
    with kept Some x stop show ?thesis by (auto simp: stop_owner_def on_engine_owner_def silent_engine_def split: prod.splits)
  qed (use kept x in \<open>simp add: stop_owner_def\<close>)
qed

lemma silent_cleanup: "silent_engine s \<Longrightarrow> silent_engine (snd (engine_cleanup (logged_env env) s))"
  unfolding engine_cleanup_def
  by (intro silent_stop_owner silent_stop_receiver silent_close_router silent_stop_runtime silent_stop_plane) simp

lemma silent_start: "silent_engine s \<Longrightarrow> silent_engine (snd (engine_start (logged_env env) s))"
proof -
  assume kept: "silent_engine s"
  obtain e w where s: "s = (e, w)" by (rule prod.exhaust)
  have "\<exists>ow. owner_init 16 (1 / 5) (3 / 2) = Inr ow \<and> owner_calm ow" by (simp add: owner_init_def owner_calm_def)
  then obtain ow where ow: "owner_init 16 (1 / 5) (3 / 2) = Inr ow" "owner_calm ow" by (elim exE conjE)
  let ?e = "e\<lparr>eg_started := True, eg_owner := Some ow\<rparr>"
  have "silent_engine (?e, w)" using kept s ow by (simp add: silent_engine_def split: prod.splits)
  moreover have "eg_keeps silent_engine (engine_start_body (logged_env env))"
    unfolding engine_start_body_def
    by (intro eg_keeps_bind silent_plane) (simp_all add: eg_keeps_def silent_prepare silent_start_runtime silent_health del: split_paired_All)
  ultimately have body: "silent_engine (snd (engine_start_body (logged_env env) (?e, w)))" by (rule eg_keepsD [rotated])
  obtain r s1 where out: "engine_start_body (logged_env env) (?e, w) = (r, s1)" by (rule prod.exhaust)
  with body have "silent_engine s1" by simp
  moreover have "silent_engine (snd (engine_cleanup (logged_env env) s1))" by (rule silent_cleanup [OF calculation])
  moreover have "snd (engine_start (logged_env env) s)
        = (if eg_started e then s else if isl r then snd (engine_cleanup (logged_env env) s1) else s1)"
      by (cases r) (simp_all add: engine_start_def s ow(1) out)
  ultimately show ?thesis using kept by simp
qed

lemma silent_stop: "silent_engine s \<Longrightarrow> silent_engine (snd (engine_stop (logged_env env) s))"
proof -
  assume kept: "silent_engine s"
  obtain e w where s: "s = (e, w)" by (rule prod.exhaust)
  have "silent_engine (e\<lparr>eg_stopped := True\<rparr>, w)" using kept s by (simp add: silent_engine_def split: prod.splits)
  from silent_cleanup [OF this, of env] have clean: "silent_engine (snd (engine_cleanup (logged_env env) (e\<lparr>eg_stopped := True\<rparr>, w)))" .
  obtain errors s1 where out: "engine_cleanup (logged_env env) (e\<lparr>eg_stopped := True\<rparr>, w) = (errors, s1)" by (rule prod.exhaust)
  have "snd (engine_stop (logged_env env) s) = (if eg_stopped e then s else s1)" by (simp add: engine_stop_def s out split: list.split)
  with clean out kept show ?thesis by simp
qed

interpretation silent_life: invariant_machine "engine_step (logged_env env)" silent_engine for env
  by unfold_locales (auto simp: engine_step_def silent_start silent_work silent_health silent_stop split: engine_event.splits)

text \<open>
  C4. A station that is configured to receive never transmits. With transmission disabled, whatever clients send and
  whatever the transport answers, through any sequence of starts, steps of the worker, health checks and stops, every
  request written to the device is one that cannot make the modem transmit: no selector burst
  at all, and no frequency setting but with the receive power.
\<close>

theorem receiving_engine_silent:
  assumes "engine_init config = Inr e0" "\<not> cf_tx_enabled config"
    and "run (engine_step (logged_env env)) (e0, [], w0) evs = (e, requests, w)"
  shows "list_all listening_request requests"
proof -
  have "silent_engine (e0, [], w0)" using assms(1,2) by (auto simp: engine_init_def silent_engine_def try_bind_Inr_iff)
  from silent_life.run_inv [OF this, of env evs] assms(3) show ?thesis by (simp add: silent_engine_def)
qed


subsection \<open>Starting and stopping fail closed\<close>

definition engine_down :: "tnc_engine \<Rightarrow> bool" where
  "engine_down e \<longleftrightarrow> eg_serving e = [] \<and> \<not> eg_rx_started e \<and>
     (case eg_owner e of None \<Rightarrow> True | Some ow \<Rightarrow> ow_thread ow \<noteq> OwnerAlive) \<and>
     (case eg_runtime e of None \<Rightarrow> True | Some rt \<Rightarrow> \<not> rt_alive rt)"

definition engine_up :: "'t engine_env \<Rightarrow> tnc_engine \<times> 't \<Rightarrow> bool" where
  "engine_up env = (\<lambda>(e, w).
     eg_rx_started e \<and> eg_identity e = QUALIFIED_FIRMWARE_IDENTITY \<and>
     (\<exists>ow rt. eg_owner e = Some ow \<and> os_running (owner_snapshot_of ow) \<and> eg_runtime e = Some rt \<and> rt_failure rt = None) \<and>
     list_all (\<lambda>p. lc_enabled (plane_config p (eg_config e)) \<longrightarrow> p \<in> set (eg_serving e) \<and> ls_alive (ee_listeners env) p w)
       [PlaneKISS, PlaneAGW, PlaneMonitor])"

definition path_ok :: "tnc_backend \<times> kiss_queue \<times> contextual_submitter \<Rightarrow> bool" where
  "path_ok = (\<lambda>(b, q, c). ingress_books (b, q, ()) \<and> list_all (client_request UNIV) (kq_queue q) \<and>
     0 < kq_downstream_timeout_seconds q \<and> router_ok (ch_router c))"

lemma system_path_ok: "tnc_system_ok UNIV (b, q, c, ow, w) \<longleftrightarrow> path_ok (b, q, c) \<and> owner_idle ow"
  by (auto simp: tnc_system_ok_def path_ok_def ingress_books_def idle_world_def list_all_iff)

text \<open>What holds of the engine between its operations.\<close>

definition sound_engine :: "tnc_engine \<Rightarrow> bool" where
  "sound_engine e \<longleftrightarrow>
     validate_config (eg_config e) = Inr () \<and>
     (case eg_owner e of None \<Rightarrow> eg_path e = None \<and> eg_runtime e = None \<and> \<not> eg_rx_started e | Some ow \<Rightarrow> owner_calm ow) \<and>
     (case eg_runtime e of None \<Rightarrow> True
      | Some rt \<Rightarrow> (case eg_path e of None \<Rightarrow> False
          | Some p \<Rightarrow> rt_alive rt \<longrightarrow> path_ok p \<and> (case eg_owner e of None \<Rightarrow> False | Some ow \<Rightarrow> owner_idle ow)))"

lemma calm_idle: "owner_calm ow \<Longrightarrow> ow_thread ow = OwnerAlive \<Longrightarrow> owner_idle ow"
  by (simp add: owner_calm_def owner_idle_def)

lemma calm_call:
  assumes calm: "owner_calm ow" and call: "owner_call product_owner_dispatch tr op timeout ow w = (r, ow', w')"
  shows "owner_calm ow' \<and> ow_thread ow' = ow_thread ow"
proof (cases "0 < (case timeout of None \<Rightarrow> ow_default_transaction_timeout ow | Some t \<Rightarrow> t) \<and> ow_thread ow = OwnerAlive")
  case True
  then have idle: "owner_idle ow" using calm by (simp add: calm_idle)
  let ?t = "case timeout of None \<Rightarrow> ow_default_transaction_timeout ow | Some t \<Rightarrow> t"
  have "owner_call_begin ow op timeout = owner_call_begin ow op (Some ?t)" by (cases timeout) (simp_all add: owner_call_begin_def)
  then have "owner_call product_owner_dispatch tr op timeout ow w = owner_call product_owner_dispatch tr op (Some ?t) ow w"
    by (simp only: owner_call_def)
  with owner_call_idle [OF idle conjunct1 [OF True], of tr op w] call have "owner_idle ow'" by auto
  with True show ?thesis by (simp add: idle_calm owner_idle_def)
next
  case False
  then have "owner_call_begin ow op timeout = (Inl OwnerTimeoutNotPositive, ow) \<or> owner_call_begin ow op timeout = (Inl ModemOwnerNotRunning, ow)"
    by (cases timeout) (simp_all add: owner_call_begin_def Let_def)
  with calm call show ?thesis by (auto simp: owner_call_def)
qed

lemma calm_start:
  assumes "owner_calm ow" "owner_start tr i t ow w = (r, ow', w')"
  shows "owner_calm ow' \<and> (r = Inr () \<longrightarrow> ow_thread ow' = OwnerAlive)"
  using assms by (auto simp: owner_start_def owner_calm_def Let_def split: if_splits prod.splits sum.splits)

lemma calm_stop:
  assumes "owner_calm ow" "owner_stop product_owner_dispatch tr 2 ow w = (r, ow', w')"
  shows "owner_calm ow' \<and> ow_thread ow' \<noteq> OwnerAlive"
proof (cases "ow_thread ow = OwnerAlive")
  case True
  with assms show ?thesis
    by (auto simp: owner_stop_def owner_stop_request_def owner_calm_def owner_worker_step_def Let_def split: if_splits prod.splits)
next
  case False
  with assms show ?thesis by (simp add: owner_stop_def owner_stop_request_def owner_calm_def Let_def)
qed

text \<open>Stopping a broker never reaches the modem: what is still queued is refused.\<close>

lemma refusing_drain: "\<not> br_accepting b \<Longrightarrow> snd (broker_drain owner n b w) = w"
proof (induction n arbitrary: b)
  case (Suc n)
  obtain b' w' where step: "broker_worker_step owner b w = (b', w')" by (rule prod.exhaust)
  with Suc.prems have "w' = w" "\<not> br_accepting b'"
    by (auto simp: broker_worker_step_def Let_def split: list.splits broker_item.splits)
  with Suc.IH step show ?case by simp
qed simp

lemma broker_stop_world: "broker_stop owner t b w = (r, b', w') \<Longrightarrow> w' = w"
proof -
  assume stop: "broker_stop owner t b w = (r, b', w')"
  obtain req b1 where req: "broker_stop_request t b = (req, b1)" by (rule prod.exhaust)
  show "w' = w"
  proof (cases req)
    case (Inr u)
    then have "\<not> br_accepting b1" using req by (auto simp: broker_stop_request_def Let_def split: if_splits)
    from refusing_drain [OF this, of owner "length (br_queue b1)" w] stop req Inr show ?thesis
      by (auto simp: broker_stop_def Let_def split: prod.splits)
  qed (use stop req in \<open>simp add: broker_stop_def\<close>)
qed

lemma stop_brokers_world: "snd (snd (stop_brokers owner bs w)) = w"
proof (induction bs arbitrary: w)
  case (Cons ub bs)
  obtain u b where ub: "ub = (u, b)" by (rule prod.exhaust)
  obtain res b' w1 where b: "broker_stop owner 2 b w = (res, b', w1)" by (rule prod_cases3)
  obtain errors bs' w2 where s: "stop_brokers owner bs w1 = (errors, bs', w2)" by (rule prod_cases3)
  from Cons.IH [of w1] broker_stop_world [OF b] b s ub show ?case by simp
qed simp

lemma router_close_world: "router_close owner r w = (res, r', w') \<Longrightarrow> w' = w"
  using stop_brokers_world [of owner "rt_brokers r" w] by (auto simp: router_close_def Let_def split: if_splits prod.splits)


text \<open>Each step of the shutdown: what it takes down, and that it leaves the rest down and the engine sound.\<close>

lemma stop_plane_effect:
  "stop_plane env p (errors, e, w) = (errors', e', w') \<Longrightarrow> e' = e\<lparr>eg_serving := removeAll p (eg_serving e)\<rparr>"
  by (cases e) (auto simp: stop_plane_def Let_def split: prod.splits if_splits)

lemma no_planes: "removeAll PlaneKISS (removeAll PlaneAGW (removeAll PlaneMonitor ps)) = []"
proof (induction ps)
  case (Cons p ps)
  then show ?case by (cases p) simp_all
qed simp

lemma runtime_stop_effect:
  "runtime_stop table env 3 (rt, s) = (check_health (rt\<lparr>rt_stop := True, rt_alive := False\<rparr>), rt\<lparr>rt_stop := True, rt_alive := False\<rparr>, s)"
  by (cases rt) (simp add: runtime_stop_def runtime_step_def)

lemma stop_runtime_effect:
  assumes "sound_engine e" "stop_runtime env (errors, e, w) = (errors', e', w')"
  shows "w' = w \<and> e' = e\<lparr>eg_runtime := map_option (\<lambda>rt. rt\<lparr>rt_stop := True, rt_alive := False\<rparr>) (eg_runtime e)\<rparr>"
proof (cases "eg_runtime e")
  case None
  with assms show ?thesis by (cases e) (auto simp: stop_runtime_def on_engine_runtime_def split: option.splits prod.splits)
next
  case (Some rt)
  then obtain p where "eg_path e = Some p" using assms(1) by (auto simp: sound_engine_def split: option.splits)
  moreover obtain ow where "eg_owner e = Some ow" using assms(1) Some by (auto simp: sound_engine_def split: option.splits)
  moreover obtain b q c where "p = (b, q, c)" by (rule prod_cases3)
  ultimately show ?thesis using assms(2) Some
    by (cases e) (auto simp: stop_runtime_def on_engine_runtime_def runtime_stop_effect Let_def)
qed

definition runtime_dead :: "tnc_engine \<Rightarrow> bool" where
  "runtime_dead e \<longleftrightarrow> (case eg_runtime e of None \<Rightarrow> True | Some rt \<Rightarrow> \<not> rt_alive rt)"

lemma close_router_effect:
  assumes "close_router env (errors, e, w) = (errors', e', w')" "sound_engine e" "runtime_dead e"
  shows "w' = w \<and> sound_engine e' \<and> runtime_dead e' \<and> eg_serving e' = eg_serving e \<and> eg_owner e' = eg_owner e \<and>
    eg_rx_started e' = eg_rx_started e \<and> eg_started e' = eg_started e \<and> eg_stopped e' = eg_stopped e"
proof (cases "eg_owner e = None \<or> eg_path e = None")
  case True
  with assms show ?thesis by (auto simp: close_router_def split: option.splits)
next
  case False
  then obtain ow b q c where o: "eg_owner e = Some ow" "eg_path e = Some (b, q, c)" by auto
  obtain r router v where "router_close (engine_port env) (ch_router c) (ow, w) = (r, router, v)" by (rule prod_cases3)
  moreover from router_close_world [OF this] have "v = (ow, w)" .
  ultimately show ?thesis using assms o by (auto simp: close_router_def sound_engine_def runtime_dead_def split: option.splits)
qed

lemma stop_receiver_effect:
  assumes "stop_receiver env (errors, e, w) = (errors', e', w')" "sound_engine e" "runtime_dead e"
  shows "sound_engine e' \<and> runtime_dead e' \<and> eg_serving e' = eg_serving e \<and> \<not> eg_rx_started e' \<and>
    eg_started e' = eg_started e \<and> eg_stopped e' = eg_stopped e \<and> (eg_owner e = None \<longrightarrow> eg_owner e' = None)"
proof (cases "eg_owner e")
  case None
  with assms show ?thesis by (auto simp: stop_receiver_def sound_engine_def)
next
  case (Some ow)
  show ?thesis
  proof (cases "eg_rx_started e")
    case True
    obtain res ow' w1 where call: "owner_call product_owner_dispatch (ee_transport env) OpRxStop (Some (3 / 2)) ow w = (res, ow', w1)"
      by (rule prod_cases3)
    have "owner_calm ow'" using calm_call [OF _ call] assms(2) Some by (simp add: sound_engine_def)
    with assms Some True call show ?thesis
      by (auto simp: stop_receiver_def on_engine_owner_def engine_port_def owner_port_def owner_method_def sound_engine_def
          runtime_dead_def Let_def split: option.splits)
  qed (use assms Some in \<open>auto simp: stop_receiver_def\<close>)
qed

lemma stop_owner_effect:
  assumes "stop_owner env (errors, e, w) = (errors', e', w')" "sound_engine e" "runtime_dead e" "eg_serving e = []" "\<not> eg_rx_started e"
  shows "sound_engine e' \<and> engine_down e' \<and> eg_started e' = eg_started e \<and> eg_stopped e' = eg_stopped e \<and>
    (eg_owner e = None \<longrightarrow> eg_owner e' = None)"
proof (cases "eg_owner e")
  case None
  with assms show ?thesis by (auto simp: stop_owner_def engine_down_def runtime_dead_def)
next
  case (Some ow)
  obtain r ow' w1 where stop: "owner_stop product_owner_dispatch (ee_transport env) 2 ow w = (r, ow', w1)" by (rule prod_cases3)
  have "owner_calm ow' \<and> ow_thread ow' \<noteq> OwnerAlive" using calm_stop [OF _ stop] assms(2) Some by (simp add: sound_engine_def)
  with assms Some stop show ?thesis
    by (auto simp: stop_owner_def on_engine_owner_def sound_engine_def engine_down_def runtime_dead_def split: option.splits)
qed

lemma cleanup_down:
  assumes "sound_engine e" "engine_cleanup env (e, w) = (errors, e', w')"
  shows "sound_engine e' \<and> engine_down e' \<and> eg_started e' = eg_started e \<and> eg_stopped e' = eg_stopped e \<and>
    (eg_owner e = None \<longrightarrow> eg_owner e' = None)"
proof -
  obtain r1 e1 w1 where p1: "stop_plane env PlaneMonitor ([], e, w) = (r1, e1, w1)" by (rule prod_cases3)
  obtain r2 e2 w2 where p2: "stop_plane env PlaneAGW (r1, e1, w1) = (r2, e2, w2)" by (rule prod_cases3)
  obtain r3 e3 w3 where p3: "stop_plane env PlaneKISS (r2, e2, w2) = (r3, e3, w3)" by (rule prod_cases3)
  have "e3 = e\<lparr>eg_serving := []\<rparr>"
    using stop_plane_effect [OF p1] stop_plane_effect [OF p2] stop_plane_effect [OF p3] by (simp add: no_planes)
  then have e3: "sound_engine e3" "eg_serving e3 = []" "eg_started e3 = eg_started e" "eg_stopped e3 = eg_stopped e" "eg_owner e3 = eg_owner e"
    using assms(1) by (simp_all add: sound_engine_def cong: option.case_cong)
  obtain r4 e4 w4 where p4: "stop_runtime env (r3, e3, w3) = (r4, e4, w4)" by (rule prod_cases3)
  have "e4 = e3\<lparr>eg_runtime := map_option (\<lambda>rt. rt\<lparr>rt_stop := True, rt_alive := False\<rparr>) (eg_runtime e3)\<rparr>"
    using stop_runtime_effect [OF e3(1) p4] by simp
  with e3 have e4: "sound_engine e4" "runtime_dead e4" "eg_serving e4 = []" "eg_started e4 = eg_started e" "eg_stopped e4 = eg_stopped e"
    "eg_owner e4 = eg_owner e"
    by (auto simp: sound_engine_def runtime_dead_def split: option.splits)
  obtain r5 e5 w5 where p5: "close_router env (r4, e4, w4) = (r5, e5, w5)" by (rule prod_cases3)
  obtain r6 e6 w6 where p6: "stop_receiver env (r5, e5, w5) = (r6, e6, w6)" by (rule prod_cases3)
  from close_router_effect [OF p5 e4(1,2)] have e5: "sound_engine e5" "runtime_dead e5" "eg_serving e5 = []"
    "eg_started e5 = eg_started e" "eg_stopped e5 = eg_stopped e" "eg_owner e5 = eg_owner e" using e4 by simp_all
  from stop_receiver_effect [OF p6 e5(1,2)] have e6: "sound_engine e6" "runtime_dead e6" "eg_serving e6 = []" "\<not> eg_rx_started e6"
    "eg_started e6 = eg_started e" "eg_stopped e6 = eg_stopped e" "eg_owner e = None \<longrightarrow> eg_owner e6 = None" using e5 by simp_all
  have "stop_owner env (r6, e6, w6) = (errors, e', w')" using assms(2) p1 p2 p3 p4 p5 p6 by (simp add: engine_cleanup_def)
  from stop_owner_effect [OF this e6(1-4)] e6 show ?thesis by simp
qed


text \<open>The operations of the start.\<close>

definition started_by :: "bool \<Rightarrow> tnc_engine \<Rightarrow> bool" where
  "started_by stopped e \<longleftrightarrow> sound_engine e \<and> eg_started e \<and> eg_stopped e = stopped"

lemma method_sound:
  assumes "started_by st e" "on_engine_owner err (owner_method product_owner_dispatch tr op cast t) (e, w) = (r, e', w')"
  shows "started_by st e' \<and> eg_rx_started e' = eg_rx_started e \<and> eg_identity e' = eg_identity e \<and> eg_runtime e' = eg_runtime e \<and>
    (\<forall>ow. eg_owner e = Some ow \<longrightarrow> (\<exists>ow'. eg_owner e' = Some ow' \<and> ow_thread ow' = ow_thread ow))"
proof (cases "eg_owner e")
  case (Some ow)
  obtain res ow' w1 where call: "owner_call product_owner_dispatch tr op t ow w = (res, ow', w1)" by (rule prod_cases3)
  have calm: "owner_calm ow" using assms(1) Some by (simp add: started_by_def sound_engine_def)
  have thread: "owner_calm ow' \<and> ow_thread ow' = ow_thread ow" by (rule calm_call [OF calm call])
  moreover have "owner_idle ow \<Longrightarrow> owner_idle ow'" using thread by (simp add: owner_idle_def owner_calm_def)
  moreover have "e' = e\<lparr>eg_owner := Some ow'\<rparr>" using assms(2) Some call by (auto simp: on_engine_owner_def owner_method_def)
  ultimately show ?thesis using assms(1) Some by (auto simp: started_by_def sound_engine_def split: option.splits)
next
  case None
  with assms show ?thesis by (auto simp: on_engine_owner_def)
qed

lemma prepared_sound:
  assumes "started_by st e" "on_engine_owner err (owner_prepared request (\<lambda>data. owner_method product_owner_dispatch tr (op data) cast t)) (e, w) = (r, e', w')"
  shows "started_by st e' \<and> eg_rx_started e' = eg_rx_started e \<and> eg_identity e' = eg_identity e \<and> eg_runtime e' = eg_runtime e \<and>
    (\<forall>ow. eg_owner e = Some ow \<longrightarrow> (\<exists>ow'. eg_owner e' = Some ow' \<and> ow_thread ow' = ow_thread ow))"
proof (cases request)
  case (Inl x)
  have "eg_owner e = Some ow \<Longrightarrow> e\<lparr>eg_owner := Some ow\<rparr> = e" for ow by (cases e) simp
  with assms Inl have "e' = e" by (auto simp: on_engine_owner_def owner_prepared_def split: option.splits)
  with assms(1) show ?thesis by simp
next
  case (Inr data)
  have "on_engine_owner err (owner_prepared request (\<lambda>data. owner_method product_owner_dispatch tr (op data) cast t)) (e, w)
      = on_engine_owner err (owner_method product_owner_dispatch tr (op data) cast t) (e, w)"
  proof -
    have "owner_prepared request (\<lambda>data. owner_method product_owner_dispatch tr (op data) cast t) = owner_method product_owner_dispatch tr (op data) cast t"
      by (simp add: Inr owner_prepared_def fun_eq_iff)
    then show ?thesis by (simp only:)
  qed
  with method_sound [OF assms(1), of err tr "op data" cast t w r e' w'] assms(2) show ?thesis by simp
qed

text \<open>A property of the engine alone that an operation keeps, and one that it establishes if it succeeds.\<close>

definition eg_from :: "(tnc_engine \<Rightarrow> bool) \<Rightarrow> ('t, 'a) engine_op \<Rightarrow> (tnc_engine \<Rightarrow> bool) \<Rightarrow> (tnc_engine \<Rightarrow> bool) \<Rightarrow> bool" where
  "eg_from pre m post fail \<longleftrightarrow> (\<forall>e w r e' w'. pre e \<longrightarrow> m (e, w) = (r, e', w') \<longrightarrow> (if isl r then fail e' else post e'))"

lemma eg_fromI:
  "(\<And>e w r e' w'. pre e \<Longrightarrow> m (e, w) = (r, e', w') \<Longrightarrow> if isl r then fail e' else post e') \<Longrightarrow> eg_from pre m post fail"
  unfolding eg_from_def by blast

lemma eg_fromD: "eg_from pre m post fail \<Longrightarrow> pre e \<Longrightarrow> m (e, w) = (r, e', w') \<Longrightarrow> if isl r then fail e' else post e'"
  unfolding eg_from_def by blast

lemma eg_from_bind:
  assumes "eg_from pre m mid fail" "\<And>x. eg_from mid (f x) post fail"
  shows "eg_from pre (eg_bind m f) post fail"
proof (rule eg_fromI)
  fix e w r e' w' assume "pre e" and out: "eg_bind m f (e, w) = (r, e', w')"
  obtain r1 e1 w1 where m: "m (e, w) = (r1, e1, w1)" by (rule prod_cases3)
  from eg_fromD [OF assms(1) \<open>pre e\<close> m] have mid: "if isl r1 then fail e1 else mid e1" .
  show "if isl r then fail e' else post e'"
  proof (cases r1)
    case (Inl x)
    with out m mid show ?thesis by (auto simp: eg_bind_def)
  next
    case (Inr x)
    with mid have "mid e1" by simp
    from eg_fromD [OF assms(2) this, of x w1 r e' w'] out m Inr show ?thesis by (simp add: eg_bind_def)
  qed
qed

lemma eg_from_raise: "(\<And>e. pre e \<Longrightarrow> fail e) \<Longrightarrow> eg_from pre (eg_raise x) post fail"
  by (auto simp: eg_from_def eg_raise_def)

lemma eg_from_modify: "(\<And>e. pre e \<Longrightarrow> post (f e)) \<Longrightarrow> eg_from pre (eg_modify f) post fail"
  by (auto simp: eg_from_def eg_modify_def)

lemma eg_from_if: "(c \<Longrightarrow> eg_from pre m post fail) \<Longrightarrow> (\<not> c \<Longrightarrow> eg_from pre m' post fail) \<Longrightarrow> eg_from pre (if c then m else m') post fail"
  by simp

text \<open>The states of the start: the owner is made, the owner runs, the firmware is identified, reception is on.\<close>

definition owner_made :: "bool \<Rightarrow> tnc_engine \<Rightarrow> bool" where
  "owner_made st e \<longleftrightarrow> started_by st e \<and> eg_runtime e = None \<and> eg_owner e \<noteq> None"

definition owner_running :: "bool \<Rightarrow> tnc_engine \<Rightarrow> bool" where
  "owner_running st e \<longleftrightarrow> owner_made st e \<and> (\<exists>ow. eg_owner e = Some ow \<and> ow_thread ow = OwnerAlive)"

definition identified :: "bool \<Rightarrow> tnc_engine \<Rightarrow> bool" where
  "identified st e \<longleftrightarrow> owner_running st e \<and> eg_identity e = QUALIFIED_FIRMWARE_IDENTITY"

definition receiving :: "bool \<Rightarrow> tnc_engine \<Rightarrow> bool" where
  "receiving st e \<longleftrightarrow> started_by st e \<and> (\<exists>ow. eg_owner e = Some ow \<and> owner_idle ow) \<and> eg_identity e = QUALIFIED_FIRMWARE_IDENTITY \<and> eg_rx_started e"

lemma start_states:
  "eg_from (owner_made st) (on_engine_owner err0 (\<lambda>(ow, w). owner_start tr i tm ow w)) (owner_running st) (started_by st)"
  "eg_from (owner_running st) (on_engine_owner err (owner_method product_owner_dispatch tr op cast t)) (owner_running st) (started_by st)"
  "eg_from (identified st) (on_engine_owner err (owner_method product_owner_dispatch tr op cast t)) (identified st) (started_by st)"
  "eg_from (identified st) (on_engine_owner err (owner_prepared request (\<lambda>data. owner_method product_owner_dispatch tr (op' data) cast' t)))
     (identified st) (started_by st)"
proof -
  show "eg_from (owner_made st) (on_engine_owner err0 (\<lambda>(ow, w). owner_start tr i tm ow w)) (owner_running st) (started_by st)"
  proof (rule eg_fromI)
    fix e w r e' w' assume made: "owner_made st e" and step: "on_engine_owner err0 (\<lambda>(ow, w). owner_start tr i tm ow w) (e, w) = (r, e', w')"
    from made obtain ow where ow: "eg_owner e = Some ow" by (auto simp: owner_made_def)
    obtain res ow' w1 where start: "owner_start tr i tm ow w = (res, ow', w1)" by (rule prod_cases3)
    from made ow have "owner_calm ow" by (simp add: owner_made_def started_by_def sound_engine_def)
    from calm_start [OF this start] have "owner_calm ow' \<and> (res = Inr () \<longrightarrow> ow_thread ow' = OwnerAlive)" .
    with made ow start step show "if isl r then started_by st e' else owner_running st e'"
      by (cases res) (auto simp: on_engine_owner_def owner_made_def owner_running_def started_by_def sound_engine_def)
  qed
  show "eg_from (owner_running st) (on_engine_owner err (owner_method product_owner_dispatch tr op cast t)) (owner_running st) (started_by st)"
  proof (rule eg_fromI)
    fix e w r e' w' assume run: "owner_running st e"
      and step: "on_engine_owner err (owner_method product_owner_dispatch tr op cast t) (e, w) = (r, e', w')"
    then have "started_by st e" by (simp add: owner_running_def owner_made_def)
    from method_sound [OF this step] run show "if isl r then started_by st e' else owner_running st e'"
      by (fastforce simp: owner_running_def owner_made_def)
  qed
  show "eg_from (identified st) (on_engine_owner err (owner_method product_owner_dispatch tr op cast t)) (identified st) (started_by st)"
  proof (rule eg_fromI)
    fix e w r e' w' assume run: "identified st e"
      and step: "on_engine_owner err (owner_method product_owner_dispatch tr op cast t) (e, w) = (r, e', w')"
    then have "started_by st e" by (simp add: identified_def owner_running_def owner_made_def)
    from method_sound [OF this step] run show "if isl r then started_by st e' else identified st e'"
      by (fastforce simp: identified_def owner_running_def owner_made_def)
  qed
  show "eg_from (identified st) (on_engine_owner err (owner_prepared request (\<lambda>data. owner_method product_owner_dispatch tr (op' data) cast' t)))
     (identified st) (started_by st)"
  proof (rule eg_fromI)
    fix e w r e' w' assume run: "identified st e"
      and step: "on_engine_owner err (owner_prepared request (\<lambda>data. owner_method product_owner_dispatch tr (op' data) cast' t)) (e, w) = (r, e', w')"
    then have "started_by st e" by (simp add: identified_def owner_running_def owner_made_def)
    from prepared_sound [OF this step] run show "if isl r then started_by st e' else identified st e'"
      by (fastforce simp: identified_def owner_running_def owner_made_def)
  qed
qed

lemma prepare_from: "eg_from (owner_made st) (prepare_modem env) (receiving st) (started_by st)"
proof (rule eg_fromI)
  fix e w r e' w' assume made: "owner_made st e" and step: "prepare_modem env (e, w) = (r, e', w')"
  have early: "owner_running st x \<Longrightarrow> started_by st x" "identified st x \<Longrightarrow> started_by st x" for x
    by (simp_all add: identified_def owner_running_def owner_made_def)
  have named: "eg_from (owner_running st) (eg_modify (\<lambda>e. e\<lparr>eg_identity := QUALIFIED_FIRMWARE_IDENTITY\<rparr>)) (identified st) (started_by st)"
    by (rule eg_from_modify) (auto simp: identified_def owner_running_def owner_made_def started_by_def sound_engine_def split: option.splits)
  have on: "eg_from (identified st) (eg_modify (\<lambda>e. e\<lparr>eg_rx_started := True\<rparr>)) (receiving st) (started_by st)"
    by (rule eg_from_modify)
       (auto simp: receiving_def identified_def owner_running_def owner_made_def started_by_def sound_engine_def calm_idle split: option.splits)
  let ?t = "Some (3 / 2) :: seconds option" and ?port = "engine_port env"
  let ?tail = "eg_bind (on_engine_owner EngineModem (mp_rf_status ?port ?t)) (\<lambda>status.
     eg_bind (on_engine_owner EngineModem (mp_rf_diagnostics ?port ?t)) (\<lambda>diag.
       if rf_remaining_selectors status \<noteq> 0 \<or> rd_tx_active diag \<noteq> 0 then eg_raise RFNotIdle
       else
     eg_bind (on_engine_owner EngineModem
         (if cf_tx_enabled (eg_config e)
          then apply_tx_profile product_owner_dispatch (ee_transport env) (cf_frequency_hz (eg_config e)) (cf_tx_power (eg_config e)) ?t
          else mp_set_rx_frequency ?port (cf_frequency_hz (eg_config e)) ?t)) (\<lambda>_.
     eg_bind (on_engine_owner EngineModem (mp_arm_rx_modem_io ?port ?t)) (\<lambda>_.
     eg_bind (on_engine_owner EngineModem (mp_rx_start ?port ?t)) (\<lambda>_.
       eg_modify (\<lambda>e. e\<lparr>eg_rx_started := True\<rparr>))))))"
  have ports: "eg_from (identified st) (on_engine_owner EngineModem (mp_rf_status ?port ?t)) (identified st) (started_by st)"
    "eg_from (identified st) (on_engine_owner EngineModem (mp_rf_diagnostics ?port ?t)) (identified st) (started_by st)"
    "eg_from (identified st) (on_engine_owner EngineModem (mp_arm_rx_modem_io ?port ?t)) (identified st) (started_by st)"
    "eg_from (identified st) (on_engine_owner EngineModem (mp_rx_start ?port ?t)) (identified st) (started_by st)"
    "eg_from (identified st) (on_engine_owner EngineModem (mp_set_rx_frequency ?port hz ?t)) (identified st) (started_by st)"
    "eg_from (identified st) (on_engine_owner EngineModem (apply_tx_profile product_owner_dispatch (ee_transport env) hz pw ?t)) (identified st) (started_by st)"
    "eg_from (owner_running st) (on_engine_owner EngineModem (mp_get_version ?port ?t)) (owner_running st) (started_by st)" for hz pw
    by (simp_all add: engine_port_def owner_port_def start_states apply_tx_profile_def)
  have profile: "eg_from (identified st) (on_engine_owner EngineModem
         (if cf_tx_enabled (eg_config e)
          then apply_tx_profile product_owner_dispatch (ee_transport env) (cf_frequency_hz (eg_config e)) (cf_tx_power (eg_config e)) ?t
          else mp_set_rx_frequency ?port (cf_frequency_hz (eg_config e)) ?t)) (identified st) (started_by st)"
    by (simp add: ports)
  have tail: "eg_from (identified st) ?tail (receiving st) (started_by st)"
    by (rule eg_from_bind [OF ports(1)], rule eg_from_bind [OF ports(2)], rule eg_from_if, rule eg_from_raise, erule early(2),
        rule eg_from_bind [OF profile], rule eg_from_bind [OF ports(3)], rule eg_from_bind [OF ports(4)], rule on)
  have check: "eg_from (owner_running st) (if vr_identity version \<noteq> cf_required_identity (eg_config e) then eg_raise FirmwareMismatch
       else if vr_identity version \<noteq> QUALIFIED_FIRMWARE_IDENTITY then eg_raise OutsideLineage
       else eg_bind (eg_modify (\<lambda>e. e\<lparr>eg_identity := vr_identity version\<rparr>)) (\<lambda>_. ?tail)) (receiving st) (started_by st)" for version
  proof (rule eg_from_if [OF eg_from_raise [OF early(1)]], assumption, rule eg_from_if [OF eg_from_raise [OF early(1)]], assumption)
    assume "\<not> vr_identity version \<noteq> QUALIFIED_FIRMWARE_IDENTITY"
    then have "vr_identity version = QUALIFIED_FIRMWARE_IDENTITY" by simp
    then show "eg_from (owner_running st) (eg_bind (eg_modify (\<lambda>e. e\<lparr>eg_identity := vr_identity version\<rparr>)) (\<lambda>_. ?tail)) (receiving st) (started_by st)"
      by (simp only:) (rule eg_from_bind [OF named tail])
  qed
  have "eg_from (owner_made st)
    (eg_bind (on_engine_owner EngineOwner (\<lambda>(ow, w). owner_start (ee_transport env) (ee_thread_id env) 2 ow w)) (\<lambda>_.
     eg_bind (on_engine_owner EngineModem (mp_get_version ?port ?t)) (\<lambda>version.
       if vr_identity version \<noteq> cf_required_identity (eg_config e) then eg_raise FirmwareMismatch
       else if vr_identity version \<noteq> QUALIFIED_FIRMWARE_IDENTITY then eg_raise OutsideLineage
       else eg_bind (eg_modify (\<lambda>e. e\<lparr>eg_identity := vr_identity version\<rparr>)) (\<lambda>_. ?tail)))) (receiving st) (started_by st)"
    by (rule eg_from_bind [OF start_states(1)], rule eg_from_bind [OF ports(7)], rule check)
  from eg_fromD [OF this made, of w r e' w'] step show "if isl r then started_by st e' else receiving st e'"
    by (simp add: prepare_modem_def Let_def)
qed


text \<open>The worker keeps the system sound.\<close>

interpretation sound: kept_service gate sha tr monotonic slp src "tnc_system_ok UNIV"
  for gate sha and tr :: "'t modem_transport" and monotonic slp src
proof (unfold_locales, goal_cases)
  case (1 s ev)
  obtain b q w where s: "s = (b, q, w)" by (rule prod_cases3)
  from tnc_step_ok [OF 1, of ev sha tr monotonic slp src] gated_message_ok [of UNIV b q w gate _ "tnc_clock monotonic"] 1 s
  show ?case by (cases ev) (auto simp: client_step_def product_client_message_def tnc_system_step_def tnc_step_def)
next
  case (2 b q c ow x op t r ow' x')
  from owner_call_keeps_idle [OF _ 2(3)] 2(1) show ?case by (simp add: system_path_ok)
next
  case (3 b q w event)
  from tnc_step_ok [OF 3, of "TePublish event"] show ?case by (simp add: tnc_system_step_def tnc_step_def)
next
  case (6 b q w now raw res q' w')
  from tnc_step_ok [OF 6(1), of "TeObserve now raw" sha tr monotonic slp src] 6(2) show ?case
    by (simp add: tnc_system_step_def tnc_step_def)
qed (simp_all add: system_path_ok)

lemma runtime_sound:
  assumes e: "eg_owner e = Some ow" "owner_idle ow" "eg_path e = Some p" "path_ok p" "eg_runtime e = Some rt"
    and m: "\<And>rs. tnc_system_ok UNIV (fst (snd rs)) \<Longrightarrow> tnc_system_ok UNIV (fst (snd (snd (m rs))))"
    and step: "on_engine_runtime batches m (e, w) = (r, e', w')"
  shows "\<exists>ow' p' rt'. owner_idle ow' \<and> path_ok p' \<and> e' = e\<lparr>eg_owner := Some ow', eg_path := Some p', eg_runtime := Some rt'\<rparr> \<and> r \<noteq> None"
proof -
  obtain b q c where p: "p = (b, q, c)" by (rule prod_cases3)
  obtain r1 rt' b' q' c' ow' w1 rest where out: "m (rt, (b, q, c, ow, w), batches) = (r1, rt', (b', q', c', ow', w1), rest)"
    by (metis prod.exhaust)
  have "tnc_system_ok UNIV (b, q, c, ow, w)" using e p by (simp add: system_path_ok)
  with m [of "(rt, (b, q, c, ow, w), batches)"] out have "path_ok (b', q', c') \<and> owner_idle ow'" by (simp add: system_path_ok)
  moreover have "e' = e\<lparr>eg_owner := Some ow', eg_path := Some (b', q', c'), eg_runtime := Some rt'\<rparr> \<and> r = Some r1"
    using e p out step by (simp add: on_engine_runtime_def)
  ultimately show ?thesis by blast
qed

lemma engine_path_ok: "engine_path c = Some p \<Longrightarrow> path_ok p"
  by (auto simp: engine_path_def path_ok_def kq_init_def router_init_def contextual_init_def tnc_backend_init_def router_ok_def
      ingress_books_def session_init_ok split: sum.splits if_splits)

lemma start_runtime_from: "eg_from (receiving st) (start_runtime env) (receiving st) (started_by st)"
proof (rule eg_fromI)
  fix e w r e' w' assume rx: "receiving st e" and step: "start_runtime env (e, w) = (r, e', w')"
  have early: "started_by st e" using rx by (simp add: receiving_def)
  obtain ow where ow: "eg_owner e = Some ow" "owner_idle ow" using rx by (auto simp: receiving_def)
  show "if isl r then started_by st e' else receiving st e'"
  proof (cases "engine_path (eg_config e)")
    case (Some p)
    show ?thesis
    proof (cases "runtime_init (cf_required_identity (eg_config e)) 200 (1 / 200) (1 / 4)")
      case (Inr rt)
      let ?e = "e\<lparr>eg_path := Some p, eg_runtime := Some rt\<rparr>"
      obtain x s1 where out: "on_engine_runtime [] (runtime_start (engine_runtime_env env ?e) (3 / 2)) (?e, w) = (x, s1)" by (rule prod.exhaust)
      obtain e1 w1 where s1: "s1 = (e1, w1)" by (rule prod.exhaust)
      have keep: "tnc_system_ok UNIV (fst (snd (snd (runtime_start (engine_runtime_env env ?e) (3 / 2) rs))))"
        if "tnc_system_ok UNIV (fst (snd rs))" for rs
        using sound.start_kept [of rs] that unfolding sound.serving_def engine_runtime_env_def by blast
      have "\<exists>ow' p' rt'. owner_idle ow' \<and> path_ok p' \<and> e1 = ?e\<lparr>eg_owner := Some ow', eg_path := Some p', eg_runtime := Some rt'\<rparr> \<and> x \<noteq> None"
        by (rule runtime_sound [of ?e ow p rt, OF _ ow(2) _ engine_path_ok [OF Some] _ keep]) (use ow out s1 in simp_all)
      then obtain ow' p' rt' where e1: "owner_idle ow'" "path_ok p'" "e1 = ?e\<lparr>eg_owner := Some ow', eg_path := Some p', eg_runtime := Some rt'\<rparr>"
        "x \<noteq> None" by blast
      have "started_by st e1" using early e1 by (auto simp: started_by_def sound_engine_def idle_calm split: option.splits)
      then have "receiving st e1" using rx e1 by (simp add: receiving_def)
      moreover have "e' = e1" using step out s1 Some Inr e1(4) by (auto simp: start_runtime_def Let_def split: option.splits sum.splits)
      ultimately show ?thesis using \<open>started_by st e1\<close> by simp
    next
      case (Inl x)
      with step Some have "isl r" "e' = e" by (auto simp: start_runtime_def)
      with early show ?thesis by simp
    qed
  qed (use step early in \<open>auto simp: start_runtime_def\<close>)
qed

lemma start_plane_from: "eg_from (receiving st) (start_plane env p) (receiving st) (started_by st)"
proof (rule eg_fromI)
  fix e w r e' w' assume rx: "receiving st e" and step: "start_plane env p (e, w) = (r, e', w')"
  then have "e' = e \<or> e' = e\<lparr>eg_serving := eg_serving e @ [p]\<rparr>" by (auto simp: start_plane_def Let_def split: if_splits prod.splits sum.splits)
  with rx have "receiving st e'"
    by (auto simp: receiving_def started_by_def sound_engine_def cong: option.case_cong)
  then show "if isl r then started_by st e' else receiving st e'" by (simp add: receiving_def)
qed

lemma health_up:
  assumes "engine_check_health env (e, w) = (Inr u, e', w')" "receiving st e"
  shows "engine_up env (e', w')"
  using assms
  by (auto simp: engine_check_health_def engine_up_def receiving_def check_health_def Let_def split: option.splits sum.splits if_splits)

lemma eg_bind_assoc: "eg_bind (eg_bind m f) g = eg_bind m (\<lambda>x. eg_bind (f x) g)"
  by (simp add: eg_bind_def fun_eq_iff split: prod.splits sum.splits)

lemma body_from: "eg_from (owner_made st) (engine_start_body env) (started_by st) (started_by st)"
  and body_up: "owner_made st e \<Longrightarrow> engine_start_body env (e, w) = (Inr u, e', w') \<Longrightarrow> engine_up env (e', w')"
proof -
  let ?front = "eg_bind (prepare_modem env) (\<lambda>_. eg_bind (start_runtime env) (\<lambda>_.
      eg_bind (start_plane env PlaneKISS) (\<lambda>_. eg_bind (start_plane env PlaneAGW) (\<lambda>_. start_plane env PlaneMonitor))))"
  have body: "engine_start_body env = eg_bind ?front (\<lambda>_. engine_check_health env)"
    by (simp add: engine_start_body_def eg_bind_assoc)
  have front: "eg_from (owner_made st) ?front (receiving st) (started_by st)"
    by (intro eg_from_bind [OF prepare_from] eg_from_bind [OF start_runtime_from] eg_from_bind [OF start_plane_from] start_plane_from)
  have "eg_from (receiving st) (engine_check_health env) (started_by st) (started_by st)"
  proof (rule eg_fromI)
    fix e w r e' w' assume "receiving st e" "engine_check_health env (e, w) = (r, e', w')"
    with silent_health [of env "(e, w)"] show "if isl r then started_by st e' else started_by st e'" by (simp add: receiving_def)
  qed
  from eg_from_bind [OF front this] show "eg_from (owner_made st) (engine_start_body env) (started_by st) (started_by st)"
    unfolding body .
  assume made: "owner_made st e" and out: "engine_start_body env (e, w) = (Inr u, e', w')"
  obtain r e1 w1 where f: "?front (e, w) = (r, e1, w1)" by (rule prod_cases3)
  obtain x where x: "r = Inr x" using out f unfolding body by (cases r) (auto simp: eg_bind_def)
  from eg_fromD [OF front made f] x have "receiving st e1" by simp
  moreover have "engine_check_health env (e1, w1) = (Inr u, e', w')" using out f x unfolding body by (simp add: eg_bind_def)
  ultimately show "engine_up env (e', w')" by (intro health_up)
qed

text \<open>The engine before its start has made nothing.\<close>

definition engine_ok :: "tnc_engine \<Rightarrow> bool" where
  "engine_ok e \<longleftrightarrow> sound_engine e \<and> (\<not> eg_started e \<longrightarrow> eg_owner e = None)"

lemma start_outcome:
  assumes "engine_ok e" "engine_start env (e, w) = (r, e', w')"
  shows "engine_ok e' \<and> eg_stopped e' = eg_stopped e \<and>
    (case r of Inl x \<Rightarrow> (x = EngineRestarted \<and> e' = e) \<or> engine_down e' | Inr _ \<Rightarrow> engine_up env (e', w'))"
proof (cases "eg_started e")
  case True
  with assms show ?thesis by (auto simp: engine_start_def)
next
  case False
  have "\<exists>ow. owner_init 16 (1 / 5) (3 / 2) = Inr ow \<and> owner_calm ow" by (simp add: owner_init_def owner_calm_def)
  then obtain ow where ow: "owner_init 16 (1 / 5) (3 / 2) = Inr ow" "owner_calm ow" by (elim exE conjE)
  let ?e = "e\<lparr>eg_started := True, eg_owner := Some ow\<rparr>"
  have made: "owner_made (eg_stopped e) ?e"
    using assms(1) False ow by (auto simp: engine_ok_def owner_made_def started_by_def sound_engine_def split: option.splits)
  obtain r1 e1 w1 where out: "engine_start_body env (?e, w) = (r1, e1, w1)" by (rule prod_cases3)
  from eg_fromD [OF body_from made out] have started: "started_by (eg_stopped e) e1" by (cases r1) simp_all
  show ?thesis
  proof (cases r1)
    case (Inl x)
    obtain errors e2 w2 where clean: "engine_cleanup env (e1, w1) = (errors, e2, w2)" by (rule prod_cases3)
    from cleanup_down [OF _ clean] started have "sound_engine e2" "engine_down e2" "eg_started e2" "eg_stopped e2 = eg_stopped e"
      by (simp_all add: started_by_def)
    moreover have "r = Inl x" "e' = e2" using assms(2) False ow(1) out Inl clean by (simp_all add: engine_start_def Let_def)
    ultimately show ?thesis by (simp add: engine_ok_def)
  next
    case (Inr u)
    have "r = Inr ()" "e' = e1" "w' = w1" using assms(2) False ow(1) out Inr by (simp_all add: engine_start_def Let_def)
    with started body_up [OF made out [unfolded Inr]] show ?thesis by (simp add: engine_ok_def started_by_def)
  qed
qed

lemma stop_outcome:
  assumes "engine_ok e" "engine_stop env (e, w) = (r, e', w')"
  shows "engine_ok e' \<and> (\<not> eg_stopped e \<longrightarrow> engine_down e')"
proof (cases "eg_stopped e")
  case True
  with assms show ?thesis by (simp add: engine_stop_def)
next
  case False
  obtain errors e2 w2 where clean: "engine_cleanup env (e\<lparr>eg_stopped := True\<rparr>, w) = (errors, e2, w2)" by (rule prod_cases3)
  have "sound_engine (e\<lparr>eg_stopped := True\<rparr>)" using assms(1) by (simp add: engine_ok_def sound_engine_def cong: option.case_cong)
  from cleanup_down [OF this clean] have "sound_engine e2" "engine_down e2" "eg_started e2 = eg_started e" "eg_owner e = None \<longrightarrow> eg_owner e2 = None"
    by simp_all
  moreover have "e' = e2" using assms(2) False clean by (auto simp: engine_stop_def split: list.splits)
  ultimately show ?thesis using assms(1) by (auto simp: engine_ok_def)
qed

lemma work_outcome:
  assumes "engine_ok e" shows "engine_ok (fst (engine_work env batches (e, w)))"
proof (cases "eg_runtime e")
  case None
  with assms show ?thesis by (auto simp: engine_work_def on_engine_runtime_def split: option.splits)
next
  case (Some rt)
  obtain p where p: "eg_path e = Some p" using assms Some by (auto simp: engine_ok_def sound_engine_def split: option.splits)
  obtain ow where ow: "eg_owner e = Some ow" using assms Some by (auto simp: engine_ok_def sound_engine_def split: option.splits)
  let ?m = "\<lambda>rs. ((), runtime_step (ee_table env) (engine_runtime_env env e) rs)"
  obtain x e' w' where out: "on_engine_runtime batches ?m (e, w) = (x, e', w')" by (rule prod_cases3)
  show ?thesis
  proof (cases "rt_alive rt")
    case True
    have idle: "owner_idle ow" "path_ok p" using assms Some p ow True by (simp_all add: engine_ok_def sound_engine_def)
    have keep: "tnc_system_ok UNIV (fst (snd (snd (?m rs))))" if "tnc_system_ok UNIV (fst (snd rs))" for rs
      using sound.worker.step_kept [of rs] that unfolding sound.serving_def engine_runtime_env_def by simp
    from runtime_sound [OF ow idle(1) p idle(2) Some keep out] obtain ow' p' rt' where
      "owner_idle ow'" "path_ok p'" "e' = e\<lparr>eg_owner := Some ow', eg_path := Some p', eg_runtime := Some rt'\<rparr>" by blast
    with assms ow out show ?thesis by (auto simp: engine_work_def engine_ok_def sound_engine_def idle_calm)
  next
    case False
    obtain b q c where "p = (b, q, c)" by (rule prod_cases3)
    with False Some p ow out have "e' = e" by (cases e) (auto simp: on_engine_runtime_def runtime_step_def)
    with assms out show ?thesis by (simp add: engine_work_def)
  qed
qed

interpretation engine_life: invariant_machine "engine_step env" "\<lambda>s. engine_ok (fst s)" for env
proof
  fix s :: "tnc_engine \<times> 'a" and ev
  obtain e w where s: "s = (e, w)" by (rule prod.exhaust)
  assume "engine_ok (fst s)"
  then have ok: "engine_ok e" by (simp add: s)
  show "engine_ok (fst (engine_step env s ev))"
  proof (cases ev)
    case EgStart
    obtain r e' w' where out: "engine_start env (e, w) = (r, e', w')" by (rule prod_cases3)
    from start_outcome [OF ok out] show ?thesis using EgStart by (simp add: engine_step_def s out)
  next
    case EgStop
    obtain r e' w' where out: "engine_stop env (e, w) = (r, e', w')" by (rule prod_cases3)
    from stop_outcome [OF ok out] show ?thesis using EgStop by (simp add: engine_step_def s out)
  qed (use ok in \<open>simp_all add: engine_step_def s work_outcome silent_health\<close>)
qed



subsection \<open>Example\<close>

text \<open>A receiving configuration on a device that answers with the qualified version, an idle radio and acknowledgements, and again with its
  version and a status to the runtime, before its script ends.\<close>

definition receiving_config :: tnc_config where
  "receiving_config = example_config\<lparr>cf_tx_enabled := False\<rparr>"

definition version_octets :: bytes where
  "version_octets = 0xE0 # of_nat (length QUALIFIED_FIRMWARE_IDENTITY + 4) # 0 # 1 # map (\<lambda>c. of_nat (py_ord c)) QUALIFIED_FIRMWARE_IDENTITY"

definition start_script :: "bytes list" where
  "start_script =
     [version_octets, [0xE0, 9, 0x58, 1, 1, 0, 0, 0, 0], [0xE0, 10, 0x58, 5, 0, 0, 0, 0, 0, 0],
      [0xE0, 4, 0x70, 4], [0xE0, 4, 0x70, 2], [0xE0, 4, 0x70, 0x59],
      version_octets, [0xE0, 14, 0x59, 4, 3, 13, 0, 0, 0, 0, 0, 0, 0, 0]]"

definition quiet_listeners :: "'t listeners" where
  "quiet_listeners = \<lparr>ls_start = (\<lambda>_ _ _ w. (Inr (), w)), ls_alive = (\<lambda>_ _. True), ls_stop = (\<lambda>_ w. (Inr (), w))\<rparr>"

definition receiving_env :: "script_world engine_env" where
  "receiving_env =
     \<lparr>ee_sha = (\<lambda>_. []), ee_table = (\<lambda>_. 0), ee_transport = script_transport, ee_clock = script_clock, ee_sleep = script_sleep,
      ee_random = script_random, ee_listeners = quiet_listeners, ee_thread_id = 1\<rparr>"



lemma version_parsed:
  assumes "list_all (\<lambda>c. 0 < py_ord c \<and> py_ord c < 128) s" "py_strip s = s" "s \<noteq> []" "length s < 200"
  shows "parse_version_response (0xE0 # of_nat (length s + 4) # 0 # 1 # map (\<lambda>c. of_nat (py_ord c)) s) =
    Inr \<lparr>vr_protocol_version = 1, vr_identity = s\<rparr>"
proof -
  let ?w = "\<lambda>c. of_nat (py_ord c) :: byte"
  have word: "unat (?w c) = py_ord c" if "c \<in> set s" for c
    using assms(1) that by (auto simp: list_all_iff unat_of_nat)
  have "?w c \<noteq> 0" if "c \<in> set s" for c using word [OF that] assms(1) that by (force simp: list_all_iff)
  then have tw: "takeWhile (\<lambda>b. b \<noteq> 0) (map ?w s) = map ?w s" by (simp add: takeWhile_eq_all_conv)
  have "decode_ascii (map ?w s) = Some s"
    using assms(1) word by (simp add: decode_ascii_def list_all_iff map_idI)
  moreover have "host_parse_frame (0xE0 # of_nat (length s + 4) # 0 # 1 # map ?w s) (Some GET_VERSION) =
      Inr \<lparr>hf_command = 0, hf_payload = 1 # map ?w s\<rparr>"
  proof -
    have "uint (of_nat (length s + 4) :: byte) = int (length s + 4)"
      using assms(4) by (simp add: uint_nat unat_of_nat del: of_nat_add)
    then show ?thesis by (simp add: host_parse_frame_def HOST_START_def GET_VERSION_def Let_def del: of_nat_add)
  qed
  ultimately show ?thesis using assms(2,3) by (simp add: parse_version_response_def tw try_bind_def Let_def del: of_nat_add)
qed

lemma version_identified:
  "parse_version_response version_octets = Inr \<lparr>vr_protocol_version = 1, vr_identity = QUALIFIED_FIRMWARE_IDENTITY\<rparr>"
  unfolding version_octets_def
proof (rule version_parsed)
  show "list_all (\<lambda>c. 0 < py_ord c \<and> py_ord c < 128) QUALIFIED_FIRMWARE_IDENTITY" by code_simp
  show "py_strip QUALIFIED_FIRMWARE_IDENTITY = QUALIFIED_FIRMWARE_IDENTITY" by code_simp
  show "length QUALIFIED_FIRMWARE_IDENTITY < 200" by code_simp
qed (simp add: QUALIFIED_FIRMWARE_IDENTITY_def)

text \<open>A method on an idle owner.\<close>

lemma method_answered:
  assumes "eg_owner e = Some ow" "owner_idle ow" "transaction tr op (3 / 2) w = (Some v, w')" "cast v = Some x"
  shows "\<exists>ow'. on_engine_owner err (owner_method product_owner_dispatch tr op cast (Some (3 / 2))) (e, w) =
    (Inr x, e\<lparr>eg_owner := Some ow'\<rparr>, w') \<and> owner_idle ow'"
proof -
  have "0 < (3 / 2 :: seconds)" by simp
  from owner_call_idle [OF assms(2) this, of tr op w] assms show ?thesis
    by (auto simp: on_engine_owner_def owner_method_def)
qed

lemma script_transaction:
  "op_request op = Inr request \<Longrightarrow> op_response op x = Inr v \<Longrightarrow>
    transaction (logged script_transport) op t (lg, x # xs, n) = (Some v, lg @ [request], xs, n)"
  by (simp add: transaction_def logged_def script_transport_def)

lemma start_requests:
  "op_request OpGetVersion = Inr [0xE0, 3, 0]" "op_request OpRfStatus = Inr [0xE0, 4, 0x58, 1]"
  "op_request OpRfDiag = Inr [0xE0, 4, 0x58, 5]" "op_request OpRxStart = Inr [0xE0, 4, 0x59, 1]"
  "op_request OpRxStatus = Inr [0xE0, 4, 0x59, 4]"
  "op_request (OpSetRxFrequency 144390000) = Inr [0xE0, 13, 4, 0, 0x70, 0x37, 0x9B, 0x08, 0x70, 0x37, 0x9B, 0x08, 1]"
  "op_request OpArmRxModemIO = Inr [0xE0, 16, 2, 0x80, 2, 0, 0, 0, 120, 1, 0, 0, 50, 50, 50, 50]"
  by code_simp+


lemma start_responses:
  "op_response OpGetVersion version_octets = Inr (VVersion \<lparr>vr_protocol_version = 1, vr_identity = QUALIFIED_FIRMWARE_IDENTITY\<rparr>)"
  "op_response (OpSetRxFrequency hz) [0xE0, 4, 0x70, 4] = Inr VNone"
  "op_response OpArmRxModemIO [0xE0, 4, 0x70, 2] = Inr VNone" "op_response OpRxStart [0xE0, 4, 0x70, 0x59] = Inr VNone"
  by (simp add: version_identified) code_simp+

lemma start_statuses:
  "op_response OpRfStatus [0xE0, 9, 0x58, 1, 1, 0, 0, 0, 0] = Inr (VRfStatus \<lparr>rf_flags = 0, rf_remaining_selectors = 0, rf_mode = 0\<rparr>)"
  "op_response OpRfDiag [0xE0, 10, 0x58, 5, 0, 0, 0, 0, 0, 0] =
    Inr (VRfDiag \<lparr>rd_interrupt_count = 0, rd_keyups = 0, rd_generated_samples = 0, rd_tx_active = 0\<rparr>)"
  "op_response OpRxStatus [0xE0, 14, 0x59, 4, 3, 13, 0, 0, 0, 0, 0, 0, 0, 0] =
    Inr (VRxStatus \<lparr>rx_flags = 13, rx_available_bytes = 0, rx_samples = 0, rx_dropped_bytes = 0\<rparr>)"
  by code_simp+

definition start_log :: "bytes list" where
  "start_log =
     [[0xE0, 3, 0], [0xE0, 4, 0x58, 1], [0xE0, 4, 0x58, 5],
      [0xE0, 13, 4, 0, 0x70, 0x37, 0x9B, 0x08, 0x70, 0x37, 0x9B, 0x08, 1],
      [0xE0, 16, 2, 0x80, 2, 0, 0, 0, 120, 1, 0, 0, 50, 50, 50, 50], [0xE0, 4, 0x59, 1]]"

lemma script_answered:
  assumes "eg_owner e = Some ow" "owner_idle ow" "op_request op = Inr request" "op_response op x = Inr v" "cast v = Some y"
  shows "\<exists>ow'. on_engine_owner err (owner_method product_owner_dispatch (logged script_transport) op cast (Some (3 / 2))) (e, lg, x # xs, n) =
    (Inr y, e\<lparr>eg_owner := Some ow'\<rparr>, lg @ [request], xs, n) \<and> owner_idle ow'"
  by (rule method_answered [where cast = cast, OF assms(1,2) script_transaction [OF assms(3,4)] assms(5)])

lemma start_prepares:
  assumes "eg_config e = receiving_config" "owner_init 16 (1 / 5) (3 / 2) = Inr ow" "eg_owner e = Some ow"
  shows "\<exists>ow'. prepare_modem (logged_env receiving_env) (e, [], start_script, 0) =
      (Inr (), e\<lparr>eg_identity := QUALIFIED_FIRMWARE_IDENTITY, eg_owner := Some ow', eg_rx_started := True\<rparr>, start_log, drop 6 start_script, 0) \<and>
    owner_idle ow'"
proof -
  let ?on = "\<lambda>err op cast. on_engine_owner err (owner_method product_owner_dispatch (logged script_transport) op cast (Some (3 / 2)))"
  have start: "\<exists>ow'. on_engine_owner EngineOwner (\<lambda>(ow, w). owner_start (logged script_transport) 1 2 ow w) (e, [], start_script, 0) =
      (Inr (), e\<lparr>eg_owner := Some ow'\<rparr>, [], start_script, 0) \<and> owner_idle ow'"
    using assms(2,3) by (auto simp: on_engine_owner_def owner_start_def owner_init_def logged_def script_transport_def owner_idle_def)
  then obtain ow1 where 1: "on_engine_owner EngineOwner (\<lambda>(ow, w). owner_start (logged script_transport) 1 2 ow w) (e, [], start_script, 0) =
      (Inr (), e\<lparr>eg_owner := Some ow1\<rparr>, [], start_script, 0)" "owner_idle ow1" by blast
  let ?f = "\<lambda>ow. e\<lparr>eg_owner := Some ow, eg_identity := QUALIFIED_FIRMWARE_IDENTITY\<rparr>"
  let ?e = "\<lambda>ow. e\<lparr>eg_identity := QUALIFIED_FIRMWARE_IDENTITY, eg_owner := Some ow\<rparr>"
  obtain ow2 where 2: "?on EngineModem OpGetVersion as_version (e\<lparr>eg_owner := Some ow1\<rparr>, [], start_script, 0) =
      (Inr \<lparr>vr_protocol_version = 1, vr_identity = QUALIFIED_FIRMWARE_IDENTITY\<rparr>, e\<lparr>eg_owner := Some ow2\<rparr>, take 1 start_log, drop 1 start_script, 0)"
    "owner_idle ow2"
    using script_answered [where cast = as_version and e = "e\<lparr>eg_owner := Some ow1\<rparr>" and lg = "[]" and err = EngineModem, OF _ 1(2) start_requests(1) start_responses(1) as_version.simps(1)]
    by (auto simp: start_script_def start_log_def)
  obtain ow3 where 3: "?on EngineModem OpRfStatus as_rf_status (?f ow2, take 1 start_log, drop 1 start_script, 0) =
      (Inr \<lparr>rf_flags = 0, rf_remaining_selectors = 0, rf_mode = 0\<rparr>, ?e ow3, take 2 start_log, drop 2 start_script, 0)"
    "owner_idle ow3"
    using script_answered [where cast = as_rf_status and e = "?f ow2" and lg = "take 1 start_log" and err = EngineModem, OF _ 2(2) start_requests(2) start_statuses(1) as_rf_status.simps(1)]
    by (auto simp: start_script_def start_log_def)
  obtain ow4 where 4: "?on EngineModem OpRfDiag as_rf_diag (?e ow3, take 2 start_log, drop 2 start_script, 0) =
      (Inr \<lparr>rd_interrupt_count = 0, rd_keyups = 0, rd_generated_samples = 0, rd_tx_active = 0\<rparr>, ?e ow4, take 3 start_log, drop 3 start_script, 0)"
    "owner_idle ow4"
    using script_answered [where cast = as_rf_diag and e = "?e ow3" and lg = "take 2 start_log" and err = EngineModem, OF _ 3(2) start_requests(3) start_statuses(2) as_rf_diag.simps(1)]
    by (auto simp: start_script_def start_log_def)
  obtain ow5 where 5: "?on EngineModem (OpSetRxFrequency 144390000) as_none (?e ow4, take 3 start_log, drop 3 start_script, 0) =
      (Inr (), ?e ow5, take 4 start_log, drop 4 start_script, 0)" "owner_idle ow5"
    using script_answered [where cast = as_none and e = "?e ow4" and lg = "take 3 start_log" and err = EngineModem, OF _ 4(2) start_requests(6) start_responses(2) as_none.simps(1)]
    by (auto simp: start_script_def start_log_def)
  obtain ow6 where 6: "?on EngineModem OpArmRxModemIO as_none (?e ow5, take 4 start_log, drop 4 start_script, 0) =
      (Inr (), ?e ow6, take 5 start_log, drop 5 start_script, 0)" "owner_idle ow6"
    using script_answered [where cast = as_none and e = "?e ow5" and lg = "take 4 start_log" and err = EngineModem, OF _ 5(2) start_requests(7) start_responses(3) as_none.simps(1)]
    by (auto simp: start_script_def start_log_def)
  obtain ow7 where 7: "?on EngineModem OpRxStart as_none (?e ow6, take 5 start_log, drop 5 start_script, 0) =
      (Inr (), ?e ow7, start_log, drop 6 start_script, 0)" "owner_idle ow7"
    using script_answered [where cast = as_none and e = "?e ow6" and lg = "take 5 start_log" and err = EngineModem, OF _ 6(2) start_requests(4) start_responses(4) as_none.simps(1)]
    by (auto simp: start_script_def start_log_def)
  have config: "cf_required_identity receiving_config = QUALIFIED_FIRMWARE_IDENTITY" "\<not> cf_tx_enabled receiving_config"
    "cf_frequency_hz receiving_config = 144390000"
    by (simp_all add: receiving_config_def example_config_def)
  show ?thesis
    using 1 2 3 4 5 6 7 assms(1) config
    by (intro exI [of _ ow7])
       (simp add: prepare_modem_def engine_port_def owner_port_def eg_bind_def eg_modify_def receiving_env_def)
qed


text \<open>The runtime starts, and the whole engine.\<close>

lemma owner_method_answered:
  assumes "owner_idle ow" "op_request op = Inr request" "op_response op x = Inr v" "cast v = Some y"
  shows "\<exists>ow'. owner_method product_owner_dispatch (logged script_transport) op cast (Some (3 / 2)) (ow, lg, x # xs, n) =
    (Inr y, (ow', lg @ [request], xs, n)) \<and> owner_idle ow'"
  using owner_call_idle [OF assms(1), of "3 / 2" "logged script_transport" op "(lg, x # xs, n)"] assms(4)
    script_transaction [OF assms(2,3), of "3 / 2" lg xs n]
  by (auto simp: owner_method_def)

lemma start_constructs:
  "\<exists>p rt. engine_path receiving_config = Some p \<and>
     runtime_init QUALIFIED_FIRMWARE_IDENTITY 200 (1 / 200) (1 / 4) = Inr rt \<and> rt_expected_identity rt = QUALIFIED_FIRMWARE_IDENTITY \<and>
     \<not> rt_started rt \<and> rt_failure rt = None"
proof -
  have "py_strip QUALIFIED_FIRMWARE_IDENTITY = QUALIFIED_FIRMWARE_IDENTITY" "QUALIFIED_FIRMWARE_IDENTITY \<noteq> []" by code_simp+
  moreover have "engine_path receiving_config \<noteq> None" by code_simp
  ultimately show ?thesis by (auto simp: runtime_init_def)
qed

lemma start_runs:
  assumes e: "eg_config e = receiving_config" "eg_owner e = Some ow" "owner_idle ow"
  shows "\<exists>e' lg. start_runtime (logged_env receiving_env) (e, start_log, drop 6 start_script, 0) = (Inr (), e', lg, [], 1) \<and>
    lg = start_log @ [[0xE0, 3, 0], [0xE0, 4, 0x59, 4]] \<and> eg_config e' = receiving_config \<and> eg_serving e' = eg_serving e \<and>
    (\<exists>ow' rt'. eg_owner e' = Some ow' \<and> owner_idle ow' \<and> eg_runtime e' = Some rt' \<and> rt_failure rt' = None)"
proof -
  obtain b q c rt where p: "engine_path receiving_config = Some (b, q, c)"
    and rt: "runtime_init QUALIFIED_FIRMWARE_IDENTITY 200 (1 / 200) (1 / 4) = Inr rt" "rt_expected_identity rt = QUALIFIED_FIRMWARE_IDENTITY"
      "\<not> rt_started rt" "rt_failure rt = None"
    using start_constructs by (metis prod_cases3)
  obtain ow1 where 1: "owner_method product_owner_dispatch (logged script_transport) OpGetVersion as_version (Some (3 / 2))
      (ow, start_log, drop 6 start_script, 0) =
      (Inr \<lparr>vr_protocol_version = 1, vr_identity = QUALIFIED_FIRMWARE_IDENTITY\<rparr>, (ow1, start_log @ [[0xE0, 3, 0]], drop 7 start_script, 0))"
    "owner_idle ow1"
    using owner_method_answered [where cast = as_version and lg = start_log, OF e(3) start_requests(1) start_responses(1) as_version.simps(1)]
    by (auto simp: start_script_def)
  obtain ow2 where 2: "owner_method product_owner_dispatch (logged script_transport) OpRxStatus as_rx_status (Some (3 / 2))
      (ow1, start_log @ [[0xE0, 3, 0]], drop 7 start_script, 0) =
      (Inr \<lparr>rx_flags = 13, rx_available_bytes = 0, rx_samples = 0, rx_dropped_bytes = 0\<rparr>,
        (ow2, start_log @ [[0xE0, 3, 0], [0xE0, 4, 0x59, 4]], [], 0))" "owner_idle ow2"
    using owner_method_answered [where cast = as_rx_status and lg = "start_log @ [[0xE0, 3, 0]]",
        OF 1(2) start_requests(5) start_statuses(3) as_rx_status.simps(1)]
    by (auto simp: start_script_def)
  show ?thesis
    using e p rt 1 2
    by (auto simp: start_runtime_def on_engine_runtime_def runtime_start_def rt_bind_def rt_owner_def engine_runtime_env_def
        service_env_def after_clients_def clients_run_def on_owner_def owner_port_def checked_status_def record_status_check_def
        require_active_status_def rt_modify_def rt_world_def tnc_clock_def Let_def rt_return_def rt_raise_def receiving_env_def lift_clock_def script_clock_def
        receiving_config_def example_config_def ACTIVE_RX_FLAGS_def)
qed


definition receiving_engine :: tnc_engine where
  "receiving_engine =
     \<lparr>eg_config = receiving_config, eg_owner = None, eg_path = None, eg_runtime = None, eg_serving = [], eg_started = False,
      eg_stopped = False, eg_rx_started = False, eg_identity = []\<rparr>"

lemma receiving_engine_init: "engine_init receiving_config = Inr receiving_engine"
proof -
  have "validate_config receiving_config = Inr ()" by code_simp
  then show ?thesis by (simp add: engine_init_def receiving_engine_def)
qed

lemma receiving_engine_starts:
  "\<exists>e. engine_start (logged_env receiving_env) (receiving_engine, [], start_script, 0) =
    (Inr (), e, start_log @ [[0xE0, 3, 0], [0xE0, 4, 0x59, 4]], [], 1) \<and> eg_serving e = [PlaneKISS]"
proof -
  let ?lg = "start_log @ [[0xE0, 3, 0], [0xE0, 4, 0x59, 4]]"
  obtain ow where ow: "owner_init 16 (1 / 5) (3 / 2) = Inr ow" by (simp add: owner_init_def)
  let ?e = "receiving_engine\<lparr>eg_started := True, eg_owner := Some ow\<rparr>"
  obtain ow1 where prepare: "prepare_modem (logged_env receiving_env) (?e, [], start_script, 0) =
      (Inr (), ?e\<lparr>eg_identity := QUALIFIED_FIRMWARE_IDENTITY, eg_owner := Some ow1, eg_rx_started := True\<rparr>, start_log, drop 6 start_script, 0)"
    and "owner_idle ow1"
    using start_prepares [of ?e ow] ow by (auto simp: receiving_engine_def)
  let ?f = "?e\<lparr>eg_identity := QUALIFIED_FIRMWARE_IDENTITY, eg_owner := Some ow1, eg_rx_started := True\<rparr>"
  obtain e ow2 rt where run: "start_runtime (logged_env receiving_env) (?f, start_log, drop 6 start_script, 0) = (Inr (), e, ?lg, [], 1)"
    "eg_config e = receiving_config" "eg_serving e = []" "eg_owner e = Some ow2" "owner_idle ow2" "eg_runtime e = Some rt" "rt_failure rt = None"
    using start_runs [of ?f ow1] \<open>owner_idle ow1\<close> by (auto simp: receiving_engine_def)
  let ?e' = "e\<lparr>eg_serving := [PlaneKISS]\<rparr>"
  have kiss: "lc_enabled (cf_kiss receiving_config)" "\<not> lc_enabled (cf_agw receiving_config)" "\<not> lc_enabled (cf_monitor receiving_config)"
    by (simp_all add: receiving_config_def example_config_def no_monitor_def)
  have planes: "start_plane (logged_env receiving_env) PlaneKISS (e, ?lg, [], 1) = (Inr (), ?e', ?lg, [], 1)"
    "start_plane (logged_env receiving_env) PlaneAGW (?e', ?lg, [], 1) = (Inr (), ?e', ?lg, [], 1)"
    "start_plane (logged_env receiving_env) PlaneMonitor (?e', ?lg, [], 1) = (Inr (), ?e', ?lg, [], 1)"
    using kiss run(2,3) by (simp_all add: start_plane_def plane_config_def receiving_env_def lift_listeners_def quiet_listeners_def)
  have health: "engine_check_health (logged_env receiving_env) (?e', ?lg, [], 1) = (Inr (), ?e', ?lg, [], 1)"
    using kiss run by (simp add: engine_check_health_def plane_config_def receiving_env_def lift_listeners_def quiet_listeners_def
        check_health_def owner_snapshot_of_def owner_idle_def Let_def)
  have "engine_start_body (logged_env receiving_env) (?e, [], start_script, 0) = (Inr (), ?e', ?lg, [], 1)"
    by (simp only: engine_start_body_def eg_bind_def prepare run(1) planes health prod.case sum.case)
  then show ?thesis by (intro exI [of _ ?e']) (simp add: engine_start_def ow receiving_engine_def)
qed

theorem receiving_engine_silent_witness:
  "\<exists>e. run (engine_step (logged_env receiving_env)) (receiving_engine, [], start_script, 0) [EgStart] =
      (e, start_log @ [[0xE0, 3, 0], [0xE0, 4, 0x59, 4]], [], 1) \<and> eg_serving e = [PlaneKISS] \<and>
    list_all listening_request (start_log @ [[0xE0, 3, 0], [0xE0, 4, 0x59, 4]])"
proof -
  obtain e where start: "engine_start (logged_env receiving_env) (receiving_engine, [], start_script, 0) =
      (Inr (), e, start_log @ [[0xE0, 3, 0], [0xE0, 4, 0x59, 4]], [], 1)" "eg_serving e = [PlaneKISS]"
    using receiving_engine_starts by blast
  have run: "run (engine_step (logged_env receiving_env)) (receiving_engine, [], start_script, 0) [EgStart] =
      (e, start_log @ [[0xE0, 3, 0], [0xE0, 4, 0x59, 4]], [], 1)"
    by (simp add: engine_step_def start)
  have "\<not> cf_tx_enabled receiving_config" by (simp add: receiving_config_def)
  from receiving_engine_silent [OF receiving_engine_init this run] run start(2) show ?thesis by blast
qed


end
