(* ===== verification/Daemon.thy ===== *)
theory Daemon
  imports Engine
begin

section \<open>The daemon\<close>

text \<open>
  \<open>run_daemon\<close> of \<open>src/src/ywdtnc/tncd.py\<close>: load the configuration, start the engine, check its health
  until the process is told to stop, and stop the engine however that ends. A round is what the worker does while
  the daemon waits, as the batches of client events of each of its steps; the list of rounds ends when the stop event is set.
\<close>

subsection \<open>Model\<close>

datatype daemon_error = DaemonConfig config_error | DaemonEngine engine_error

fun engine_works :: "'t engine_env \<Rightarrow> tnc_event list list list \<Rightarrow> tnc_engine \<times> 't \<Rightarrow> tnc_engine \<times> 't" where
  "engine_works env [] s = s"
| "engine_works env (batches # rest) s = engine_works env rest (engine_work env batches s)"

fun daemon_watch :: "'t engine_env \<Rightarrow> tnc_event list list list list \<Rightarrow> ('t, unit) engine_op" where
  "daemon_watch env [] s = (Inr (), s)"
| "daemon_watch env (batches # rounds) s =
     eg_bind (engine_check_health env) (\<lambda>_. daemon_watch env rounds) (engine_works env batches s)"

definition run_daemon ::
  "'t engine_env \<Rightarrow> toml_table \<Rightarrow> tnc_event list list list list \<Rightarrow> 't \<Rightarrow> (daemon_error, unit) result \<times> tnc_engine option \<times> 't" where
  "run_daemon env doc rounds w =
     (case load_config doc of
        Inl x \<Rightarrow> (Inl (DaemonConfig x), None, w)
      | Inr config \<Rightarrow>
          (case engine_init config of
             Inl x \<Rightarrow> (Inl (DaemonConfig x), None, w)
           | Inr e \<Rightarrow>
               (case engine_start env (e, w) of
                  (Inl x, e, w) \<Rightarrow> (Inl (DaemonEngine x), Some e, w)
                | (Inr _, s) \<Rightarrow>
                    (let (r, s) = daemon_watch env rounds s; (stopped, e, w) = engine_stop env s
                     in (case stopped of Inl x \<Rightarrow> Inl (DaemonEngine x) | Inr _ \<Rightarrow> map_sum DaemonEngine id r, Some e, w)))))"

subsection \<open>However it ends, the engine is down\<close>

lemma work_keeps_stopped: "eg_stopped (fst (engine_work env batches s)) = eg_stopped (fst s)"
  by (cases s) (auto simp: engine_work_def on_engine_runtime_def split: option.splits prod.splits)

definition watched :: "tnc_engine \<times> 't \<Rightarrow> bool" where
  "watched s \<longleftrightarrow> engine_ok (fst s) \<and> \<not> eg_stopped (fst s)"

interpretation watched_work: invariant_machine "\<lambda>s batches. engine_work env batches s" watched for env
  by unfold_locales (use work_outcome in \<open>force simp: watched_def work_keeps_stopped\<close>)

lemma works_run: "engine_works env batches s = run (\<lambda>s b. engine_work env b s) s batches"
  by (induction batches arbitrary: s) simp_all

lemma watch_watched: "watched s \<Longrightarrow> watched (snd (daemon_watch env rounds s))"
proof (induction rounds arbitrary: s)
  case (Cons batches rounds)
  from watched_work.run_inv [OF Cons.prems, of env batches] have works: "watched (engine_works env batches s)" by (simp add: works_run)
  obtain r s' where health: "engine_check_health env (engine_works env batches s) = (r, s')" by (rule prod.exhaust)
  from silent_health [of env "engine_works env batches s"] health have "s' = engine_works env batches s" by simp
  with works Cons.IH health show ?case by (cases r) (simp_all add: eg_bind_def)
qed simp


end
