(* ===== verification/Monitor.thy ===== *)
theory Monitor
  imports Ax25_Codec "HOL-Library.AList"
begin

section \<open>The monitor stream\<close>

text \<open>
  \<open>src/src/ywdtnc/monitor.py\<close>: the hub that fans monitor events out to bounded subscriber queues as
  lines of JSON, and the fields that describe a frame. A Python dictionary is an association
  list in insertion order. The timestamp of an event is an argument; so are the text of a float and the texts
  of the codec's exceptions.
\<close>

subsection \<open>Model: JSON lines\<close>

datatype field = FStr string | FInt int | FBool bool | FNone | FList "string list" | FSeconds seconds

type_synonym fields = "(string \<times> field) list"

text \<open>\<open>d.update(e)\<close>: existing keys keep their place, new ones go to the end.\<close>

definition dict_update :: "fields \<Rightarrow> fields \<Rightarrow> fields" where
  "dict_update new old = fold (\<lambda>(k, v). AList.update k v) new old"

definition hex_digit_lower :: "nat \<Rightarrow> char" where
  "hex_digit_lower n = (if n < 10 then py_chr (48 + n) else py_chr (87 + n))"

text \<open>\<open>json.dumps\<close> with \<open>ensure_ascii\<close> and the separators \<open>","\<close> and \<open>":"\<close>.\<close>

definition json_char :: "char \<Rightarrow> string" where
  "json_char c =
     (let n = py_ord c in
      if n = 92 then [py_chr 92, py_chr 92]
      else if n = 34 then [py_chr 92, py_chr 34]
      else if n = 8 then [py_chr 92, CHR ''b'']
      else if n = 12 then [py_chr 92, CHR ''f'']
      else if n = 10 then [py_chr 92, CHR ''n'']
      else if n = 13 then [py_chr 92, CHR ''r'']
      else if n = 9 then [py_chr 92, CHR ''t'']
      else if 32 \<le> n \<and> n \<le> 126 then [c]
      else [py_chr 92, CHR ''u'', CHR ''0'', CHR ''0'', hex_digit_lower (n div 16), hex_digit_lower (n mod 16)])"

definition json_string :: "string \<Rightarrow> string" where
  "json_string s = [py_chr 34] @ concat (map json_char s) @ [py_chr 34]"

fun joined :: "string \<Rightarrow> string list \<Rightarrow> string" where
  "joined sep [] = []"
| "joined sep [x] = x"
| "joined sep (x # xs) = x @ sep @ joined sep xs"

fun json_value :: "(seconds \<Rightarrow> string) \<Rightarrow> field \<Rightarrow> string" where
  "json_value float_repr (FStr s) = json_string s"
| "json_value float_repr (FInt i) = py_str_int i"
| "json_value float_repr (FBool b) = (if b then ''true'' else ''false'')"
| "json_value float_repr FNone = ''null''"
| "json_value float_repr (FList xs) = ''['' @ joined '','' (map json_string xs) @ '']''"
| "json_value float_repr (FSeconds x) = float_repr x"

definition json_dumps :: "(seconds \<Rightarrow> string) \<Rightarrow> fields \<Rightarrow> string" where
  "json_dumps float_repr record =
     [py_chr 123] @ joined '','' (map (\<lambda>(k, v). json_string k @ '':'' @ json_value float_repr v) record) @ [py_chr 125]"

subsection \<open>Model: the hub\<close>

definition SCHEMA_VERSION :: int where "SCHEMA_VERSION = 1"

datatype monitor_error = MonitorQueueCapacity

record monitor_hub =
  mh_capacity :: int
  mh_queues :: "string list list"
  mh_subscribers :: "nat list"
  mh_sequence :: nat
  mh_published :: nat
  mh_drops :: nat
  mh_encoding_errors :: nat

definition hub_init :: "int \<Rightarrow> (monitor_error, monitor_hub) result" where
  "hub_init queue_capacity =
     (if queue_capacity < 1 then Inl MonitorQueueCapacity
      else Inr \<lparr>mh_capacity = queue_capacity, mh_queues = [], mh_subscribers = [], mh_sequence = 0, mh_published = 0,
        mh_drops = 0, mh_encoding_errors = 0\<rparr>)"

record monitor_snapshot =
  mn_subscribers :: nat
  mn_published :: nat
  mn_subscriber_drops :: nat
  mn_encoding_errors :: nat

definition hub_snapshot :: "monitor_hub \<Rightarrow> monitor_snapshot" where
  "hub_snapshot h =
     \<lparr>mn_subscribers = length (mh_subscribers h), mn_published = mh_published h, mn_subscriber_drops = mh_drops h,
      mn_encoding_errors = mh_encoding_errors h\<rparr>"

text \<open>A queue is named by its position among the queues created so far; it outlives its subscription.\<close>

definition hub_subscribe :: "monitor_hub \<Rightarrow> nat \<times> monitor_hub" where
  "hub_subscribe h =
     (length (mh_queues h),
      h\<lparr>mh_queues := mh_queues h @ [[]], mh_subscribers := mh_subscribers h @ [length (mh_queues h)]\<rparr>)"

definition hub_unsubscribe :: "nat \<Rightarrow> monitor_hub \<Rightarrow> monitor_hub" where
  "hub_unsubscribe queue h = h\<lparr>mh_subscribers := removeAll queue (mh_subscribers h)\<rparr>"

definition monitor_json :: "(seconds \<Rightarrow> string) \<Rightarrow> nat \<Rightarrow> string \<Rightarrow> string \<Rightarrow> fields \<Rightarrow> string" where
  "monitor_json float_repr sequence timestamp event details =
     json_dumps float_repr (dict_update details
       [(''schema'', FInt SCHEMA_VERSION), (''seq'', FInt (int sequence)), (''ts'', FStr timestamp), (''event'', FStr event)])"

text \<open>
  \<open>publish\<close> takes its number and the subscribers under the lock, delivers without it and counts under it
  again, so that another publication may come in between. The encoder raises for none of these
  fields: the handler that counts encoding errors is not reached.
\<close>

record publication =
  pb_sequence :: nat
  pb_subscribers :: "nat list"
  pb_payload :: string

definition publish_begin :: "(seconds \<Rightarrow> string) \<Rightarrow> string \<Rightarrow> string \<Rightarrow> fields \<Rightarrow> monitor_hub
    \<Rightarrow> publication option \<times> monitor_hub" where
  "publish_begin float_repr timestamp event details h =
     (if event = [] then (None, h)
      else
        (let sequence = mh_sequence h + 1
         in (Some \<lparr>pb_sequence = sequence, pb_subscribers = mh_subscribers h,
               pb_payload = monitor_json float_repr sequence timestamp event details @ [py_chr 10]\<rparr>,
             h\<lparr>mh_sequence := sequence\<rparr>)))"

fun put_nowait_all :: "int \<Rightarrow> string \<Rightarrow> nat list \<Rightarrow> string list list \<Rightarrow> nat \<Rightarrow> string list list \<times> nat" where
  "put_nowait_all capacity payload [] queues drops = (queues, drops)"
| "put_nowait_all capacity payload (n # ns) queues drops =
     (if int (length (queues ! n)) \<ge> capacity then put_nowait_all capacity payload ns queues (drops + 1)
      else put_nowait_all capacity payload ns (queues[n := queues ! n @ [payload]]) drops)"

definition publish_deliver :: "publication \<Rightarrow> monitor_hub \<Rightarrow> monitor_hub" where
  "publish_deliver p h =
     (let (queues, drops) = put_nowait_all (mh_capacity h) (pb_payload p) (pb_subscribers p) (mh_queues h) 0
      in h\<lparr>mh_queues := queues, mh_published := mh_published h + 1, mh_drops := mh_drops h + drops\<rparr>)"

definition hub_publish :: "(seconds \<Rightarrow> string) \<Rightarrow> string \<Rightarrow> string \<Rightarrow> fields \<Rightarrow> monitor_hub \<Rightarrow> monitor_hub" where
  "hub_publish float_repr timestamp event details h =
     (case publish_begin float_repr timestamp event details h of
        (None, h') \<Rightarrow> h' | (Some p, h') \<Rightarrow> publish_deliver p h')"

subsection \<open>Model: handlers and publishers at work\<close>

text \<open>
  The hub with the publications that are under way and what each handler has taken from its queue and
  sent. A handler whose queue is empty waits.
\<close>

record hub_world =
  hw_hub :: monitor_hub
  hw_pending :: "publication list"
  hw_sent :: "(nat \<times> string) list"

datatype hub_call = Subscribe | Unsubscribe nat | Publish string string fields | Deliver nat | Handle nat

fun hub_step :: "(seconds \<Rightarrow> string) \<Rightarrow> hub_call \<Rightarrow> hub_world \<Rightarrow> hub_world" where
  "hub_step float_repr Subscribe w = w\<lparr>hw_hub := snd (hub_subscribe (hw_hub w))\<rparr>"
| "hub_step float_repr (Unsubscribe n) w = w\<lparr>hw_hub := hub_unsubscribe n (hw_hub w)\<rparr>"
| "hub_step float_repr (Publish timestamp event details) w =
     (case publish_begin float_repr timestamp event details (hw_hub w) of
        (None, h) \<Rightarrow> w\<lparr>hw_hub := h\<rparr>
      | (Some p, h) \<Rightarrow> w\<lparr>hw_hub := h, hw_pending := hw_pending w @ [p]\<rparr>)"
| "hub_step float_repr (Deliver i) w =
     (if i < length (hw_pending w)
      then w\<lparr>hw_hub := publish_deliver (hw_pending w ! i) (hw_hub w), hw_pending := take i (hw_pending w) @ drop (i + 1) (hw_pending w)\<rparr>
      else w)"
| "hub_step float_repr (Handle n) w =
     (if n < length (mh_queues (hw_hub w))
      then (case mh_queues (hw_hub w) ! n of
              [] \<Rightarrow> w
            | payload # rest \<Rightarrow>
                w\<lparr>hw_hub := (hw_hub w)\<lparr>mh_queues := (mh_queues (hw_hub w))[n := rest]\<rparr>, hw_sent := hw_sent w @ [(n, payload)]\<rparr>)
      else w)"

definition sent_to :: "nat \<Rightarrow> hub_world \<Rightarrow> string list" where
  "sent_to n w = map snd (filter (\<lambda>(m, _). m = n) (hw_sent w))"

subsection \<open>Model: the fields of a frame\<close>

definition info_text :: "bytes \<Rightarrow> string" where
  "info_text data =
     concat (map (\<lambda>b. let v = unat b in
       if 32 \<le> v \<and> v \<le> 126 then [py_chr v]
       else if v = 13 then [py_chr 92, CHR ''r'']
       else if v = 10 then [py_chr 92, CHR ''n'']
       else if v = 9 then [py_chr 92, CHR ''t'']
       else [py_chr 92, CHR ''x''] @ hex2_upper b) data)"

definition byte_field :: "byte option \<Rightarrow> field" where
  "byte_field v = (case v of None \<Rightarrow> FNone | Some b \<Rightarrow> FInt (uint b))"

definition frame_fields :: "(codec_error \<Rightarrow> string) \<Rightarrow> bytes \<Rightarrow> fields" where
  "frame_fields exc_text frame =
     (let base = [(''frame_bytes'', FInt (int (length frame))), (''frame_hex'', FStr (bytes_hex_upper frame))] in
      case parse_frame frame False of
        Inl e \<Rightarrow> dict_update [(''parse_error'', FStr (exc_text e))] base
      | Inr parsed \<Rightarrow>
          dict_update
            [(''source'', FStr (address_str (pf_source parsed))), (''destination'', FStr (address_str (pf_destination parsed))),
             (''path'', FList (map (\<lambda>a. address_str a @ (if addr_flag a then ''*'' else [])) (pf_path parsed))),
             (''frame_class'', FStr (pf_frame_class parsed)), (''frame_type'', FStr (pf_frame_type parsed)),
             (''control'', FInt (uint (pf_control parsed))), (''poll_final'', FBool (pf_poll_final parsed)),
             (''ns'', byte_field (pf_ns parsed)), (''nr'', byte_field (pf_nr parsed)), (''pid'', byte_field (pf_pid parsed)),
             (''info_text'', FStr (info_text (pf_info parsed))), (''info_hex'', FStr (bytes_hex_upper (pf_info parsed)))] base)"

subsection \<open>One line per event\<close>

definition printable :: "char \<Rightarrow> bool" where
  "printable c \<longleftrightarrow> 32 \<le> py_ord c \<and> py_ord c \<le> 126"

lemma printable_chr: "32 \<le> n \<Longrightarrow> n \<le> 126 \<Longrightarrow> printable (py_chr n)"
  by (simp add: printable_def py_ord_py_chr)

lemma printable_hex: "n < 16 \<Longrightarrow> printable (hex_digit_lower n)"
  by (auto simp: hex_digit_lower_def intro!: printable_chr)

lemma printable_json_char: "list_all printable (json_char c)"
proof -
  have "py_ord c div 16 < 16" using py_ord_less [of c] by (simp add: less_mult_imp_div_less)
  then have "printable (hex_digit_lower (py_ord c div 16))" "printable (hex_digit_lower (py_ord c mod 16))"
    by (simp_all add: printable_hex)
  moreover have "printable (CHR ''b'')" "printable (CHR ''f'')" "printable (CHR ''n'')" "printable (CHR ''r'')"
    "printable (CHR ''t'')" "printable (CHR ''u'')" "printable (CHR ''0'')" by (simp_all add: printable_def py_ord_def)
  moreover have "printable (py_chr 92)" "printable (py_chr 34)" by (simp_all add: printable_chr)
  moreover have "32 \<le> py_ord c \<and> py_ord c \<le> 126 \<Longrightarrow> printable c" by (simp add: printable_def)
  ultimately show ?thesis by (simp add: json_char_def Let_def)
qed

lemma printable_json_string: "list_all printable (json_string s)"
  using printable_json_char by (auto simp: json_string_def list_all_iff intro!: printable_chr)

lemma printable_joined: "list_all (list_all printable) xs \<Longrightarrow> list_all printable sep \<Longrightarrow> list_all printable (joined sep xs)"
  by (induction sep xs rule: joined.induct) simp_all

lemma printable_dec: "list_all printable (dec_digits n)"
proof (induction n rule: dec_digits.induct)
  case (1 n)
  then show ?case by (subst dec_digits.simps) (auto intro!: printable_chr)
qed

lemma printable_json_value: "(\<And>x. list_all printable (float_repr x)) \<Longrightarrow> list_all printable (json_value float_repr v)"
proof (cases v)
  case (FInt i)
  then show ?thesis by (simp add: py_str_int_def printable_dec) (simp add: printable_def py_ord_def)
next
  case (FList xs)
  have "list_all (list_all printable) (map json_string xs)" by (induction xs) (simp_all add: printable_json_string)
  moreover have "list_all printable '',''" by (simp add: printable_def py_ord_def)
  ultimately have "list_all printable (joined '','' (map json_string xs))" by (rule printable_joined)
  with FList show ?thesis by (simp add: printable_def py_ord_def)
qed (auto simp: printable_json_string printable_def py_ord_def)


lemma printable_dumps: "(\<And>x. list_all printable (float_repr x)) \<Longrightarrow> list_all printable (json_dumps float_repr items)"
proof -
  assume frepr: "\<And>x. list_all printable (float_repr x)"
  have item: "list_all printable (json_string k @ '':'' @ json_value float_repr v)" for k v
    using printable_json_string printable_json_value [of float_repr v, OF frepr] by (simp add: printable_def [of "CHR '':''"] py_ord_def)
  have "list_all (list_all printable) (map (\<lambda>(k, v). json_string k @ '':'' @ json_value float_repr v) items)"
    using item by (induction items) (simp_all add: split_beta)
  moreover have "list_all printable '',''" by (simp add: printable_def py_ord_def)
  ultimately have "list_all printable (joined '','' (map (\<lambda>(k, v). json_string k @ '':'' @ json_value float_repr v) items))"
    by (rule printable_joined)
  then show ?thesis by (simp add: json_dumps_def printable_chr)
qed

text \<open>How a client takes the stream apart.\<close>

fun split_lines :: "string \<Rightarrow> string \<Rightarrow> string list" where
  "split_lines line [] = []"
| "split_lines line (c # cs) = (if c = py_chr 10 then line # split_lines [] cs else split_lines (line @ [c]) cs)"

lemma split_lines_line: "list_all printable body \<Longrightarrow> split_lines acc (body @ py_chr 10 # rest) = (acc @ body) # split_lines [] rest"
proof (induction body arbitrary: acc)
  case (Cons c body)
  then have "c \<noteq> py_chr 10" by (auto simp: printable_def py_ord_py_chr)
  with Cons show ?case by simp
qed simp

lemma split_lines_all: "list_all (list_all printable) bodies \<Longrightarrow> split_lines [] (concat (map (\<lambda>body. body @ [py_chr 10]) bodies)) = bodies"
  by (induction bodies) (simp_all add: split_lines_line)

subsection \<open>Concurrent publishers\<close>

text \<open>The publications of a run, in the order of their numbers.\<close>

definition publications :: "hub_call list \<Rightarrow> (string \<times> string \<times> fields) list" where
  "publications calls =
     concat (map (\<lambda>c. case c of Publish ts event details \<Rightarrow> (if event = [] then [] else [(ts, event, details)]) | _ \<Rightarrow> []) calls)"

definition numbered_json :: "(seconds \<Rightarrow> string) \<Rightarrow> (string \<times> string \<times> fields) list \<Rightarrow> nat \<Rightarrow> string" where
  "numbered_json float_repr pubs s = (case pubs ! (s - 1) of (ts, event, details) \<Rightarrow> monitor_json float_repr s ts event details)"

definition numbered_line :: "(seconds \<Rightarrow> string) \<Rightarrow> (string \<times> string \<times> fields) list \<Rightarrow> nat \<Rightarrow> string" where
  "numbered_line float_repr pubs s = numbered_json float_repr pubs s @ [py_chr 10]"

lemma numbered_line_append [simp]:
  "1 \<le> s \<Longrightarrow> s \<le> length pubs \<Longrightarrow> numbered_line float_repr (pubs @ more_pubs) s = numbered_line float_repr pubs s"
proof -
  assume "1 \<le> s" and "s \<le> length pubs"
  then have "s - 1 < length pubs" by linarith
  then show ?thesis by (simp add: numbered_line_def numbered_json_def nth_append)
qed

lemma put_all_length [simp]: "length (fst (put_nowait_all c p ns qs d)) = length qs"
  by (induction c p ns qs d rule: put_nowait_all.induct) simp_all

lemma put_all_bounded:
  "list_all (\<lambda>q. int (length q) \<le> c) qs \<Longrightarrow> list_all (\<lambda>q. int (length q) \<le> c) (fst (put_nowait_all c p ns qs d))"
proof (induction c p ns qs d rule: put_nowait_all.induct)
  case (2 c p n ns qs d)
  have "n < length qs \<Longrightarrow> \<not> int (length (qs ! n)) \<ge> c \<Longrightarrow> list_all (\<lambda>q. int (length q) \<le> c) (qs[n := qs ! n @ [p]])"
    using 2(3) by (auto simp: list_all_length nth_list_update)
  then have "\<not> int (length (qs ! n)) \<ge> c \<Longrightarrow> list_all (\<lambda>q. int (length q) \<le> c) (qs[n := qs ! n @ [p]])"
    using 2(3) by (cases "n < length qs") (simp_all add: list_update_beyond)
  with 2 show ?case by simp
qed simp

lemma put_all_untouched: "m \<notin> set ns \<Longrightarrow> fst (put_nowait_all c p ns qs d) ! m = qs ! m"
  by (induction c p ns qs d rule: put_nowait_all.induct) simp_all

lemma put_all_appends:
  "distinct ns \<Longrightarrow> m < length qs \<Longrightarrow>
   fst (put_nowait_all c p ns qs d) ! m = qs ! m \<or> fst (put_nowait_all c p ns qs d) ! m = qs ! m @ [p]"
proof (induction c p ns qs d rule: put_nowait_all.induct)
  case (2 c p n ns qs d)
  show ?case
  proof (cases "n = m")
    case True
    with 2(3,4) show ?thesis by (simp add: put_all_untouched)
  next
    case False
    with 2 show ?thesis by simp
  qed
qed simp

text \<open>The invariant of a run: queue \<open>n\<close> has received the lines with numbers \<open>seqs n\<close>.\<close>

definition queue_of :: "nat \<Rightarrow> hub_world \<Rightarrow> string list" where
  "queue_of n w = (if n < length (mh_queues (hw_hub w)) then mh_queues (hw_hub w) ! n else [])"

definition hub_received :: "(seconds \<Rightarrow> string) \<Rightarrow> (string \<times> string \<times> fields) list \<Rightarrow> (nat \<Rightarrow> nat list) \<Rightarrow> hub_world \<Rightarrow> bool" where
  "hub_received float_repr pubs seqs w \<longleftrightarrow>
     (\<forall>n. sent_to n w @ queue_of n w = map (numbered_line float_repr pubs) (seqs n) \<and> distinct (seqs n)
        \<and> set (seqs n) \<subseteq> {1..length pubs} - set (map pb_sequence (hw_pending w)))"

definition pending_ok :: "(seconds \<Rightarrow> string) \<Rightarrow> (string \<times> string \<times> fields) list \<Rightarrow> nat \<Rightarrow> publication \<Rightarrow> bool" where
  "pending_ok float_repr pubs queues p \<longleftrightarrow>
     1 \<le> pb_sequence p \<and> pb_sequence p \<le> length pubs \<and> pb_payload p = numbered_line float_repr pubs (pb_sequence p)
       \<and> distinct (pb_subscribers p) \<and> set (pb_subscribers p) \<subseteq> {..<queues}"

definition hub_ok :: "(seconds \<Rightarrow> string) \<Rightarrow> (string \<times> string \<times> fields) list \<Rightarrow> hub_world \<Rightarrow> bool" where
  "hub_ok float_repr pubs w \<longleftrightarrow>
     mh_sequence (hw_hub w) = length pubs \<and> distinct (mh_subscribers (hw_hub w))
     \<and> set (mh_subscribers (hw_hub w)) \<subseteq> {..<length (mh_queues (hw_hub w))}
     \<and> distinct (map pb_sequence (hw_pending w))
     \<and> list_all (pending_ok float_repr pubs (length (mh_queues (hw_hub w)))) (hw_pending w)
     \<and> list_all (\<lambda>q. int (length q) \<le> mh_capacity (hw_hub w)) (mh_queues (hw_hub w)) \<and> 0 < mh_capacity (hw_hub w)
     \<and> (\<exists>seqs. hub_received float_repr pubs seqs w)"

lemma pending_ok_grows:
  "pending_ok float_repr pubs queues p \<Longrightarrow> queues \<le> queues' \<Longrightarrow> pending_ok float_repr (pubs @ new) queues' p"
  by (auto simp: pending_ok_def)

lemma pendings_grow:
  "list_all (pending_ok float_repr pubs queues) ps \<Longrightarrow> queues \<le> queues' \<Longrightarrow> list_all (pending_ok float_repr (pubs @ new) queues') ps"
  by (auto simp: list_all_iff intro: pending_ok_grows)

lemma received_range:
  "hub_received float_repr pubs seqs w \<Longrightarrow> s \<in> set (seqs n) \<Longrightarrow> 1 \<le> s \<and> s \<le> length pubs"
  unfolding hub_received_def by (drule spec [of _ n]) auto

lemma received_cong:
  "hub_received float_repr pubs seqs w \<Longrightarrow> (\<And>n. sent_to n w' @ queue_of n w' = sent_to n w @ queue_of n w) \<Longrightarrow>
   hw_pending w' = hw_pending w \<Longrightarrow> hub_received float_repr pubs seqs w'"
  by (simp add: hub_received_def)

lemma received_subscribe:
  "hub_received float_repr pubs seqs w \<Longrightarrow> hub_received float_repr pubs seqs (hub_step float_repr Subscribe w)"
  by (erule received_cong) (simp_all add: hub_subscribe_def sent_to_def queue_of_def nth_append less_Suc_eq)

lemma subscription_ok: "hub_ok float_repr pubs w \<Longrightarrow> hub_ok float_repr pubs (hub_step float_repr Subscribe w)"
  unfolding hub_ok_def
  by (elim conjE exE, intro conjI exI, rule_tac [8] received_subscribe)
     (auto simp: hub_subscribe_def intro: pendings_grow [where new = "[]", simplified])

lemma received_unsubscribe:
  "hub_received float_repr pubs seqs w \<Longrightarrow> hub_received float_repr pubs seqs (hub_step float_repr (Unsubscribe n) w)"
  by (erule received_cong) (simp_all add: hub_unsubscribe_def sent_to_def queue_of_def)

lemma unsubscribe_ok: "hub_ok float_repr pubs w \<Longrightarrow> hub_ok float_repr pubs (hub_step float_repr (Unsubscribe n) w)"
  unfolding hub_ok_def
  by (elim conjE exE, intro conjI exI, rule_tac [8] received_unsubscribe) (auto simp: hub_unsubscribe_def distinct_removeAll)

lemma received_publish:
  assumes rec: "hub_received float_repr pubs seqs w" and p: "pb_sequence p = length pubs + 1"
    and same: "\<And>n. sent_to n w' @ queue_of n w' = sent_to n w @ queue_of n w" "hw_pending w' = hw_pending w @ [p]"
  shows "hub_received float_repr (pubs @ [pub]) seqs w'"
  unfolding hub_received_def
proof (intro allI conjI)
  fix n
  have "map (numbered_line float_repr (pubs @ [pub])) (seqs n) = map (numbered_line float_repr pubs) (seqs n)"
    by (intro map_cong [OF refl] numbered_line_append) (auto dest: received_range [OF rec])
  with rec same show "sent_to n w' @ queue_of n w' = map (numbered_line float_repr (pubs @ [pub])) (seqs n)"
    by (simp add: hub_received_def)
  show "distinct (seqs n)" using rec by (simp add: hub_received_def)
  have "set (seqs n) \<subseteq> {1..length pubs} - set (map pb_sequence (hw_pending w))" using rec unfolding hub_received_def by blast
  then show "set (seqs n) \<subseteq> {1..length (pubs @ [pub])} - set (map pb_sequence (hw_pending w'))" using p same by auto
qed

lemma publication_ok:
  assumes ok: "hub_ok float_repr pubs w"
  shows "hub_ok float_repr (pubs @ (if event = [] then [] else [(ts, event, details)])) (hub_step float_repr (Publish ts event details) w)"
proof (cases "event = []")
  case True
  with ok show ?thesis by (simp add: publish_begin_def hub_ok_def hub_received_def sent_to_def queue_of_def)
next
  case False
  let ?pubs = "pubs @ [(ts, event, details)]"
  from ok obtain seqs where rec: "hub_received float_repr pubs seqs w" by (auto simp: hub_ok_def)
  let ?p = "\<lparr>pb_sequence = length ?pubs, pb_subscribers = mh_subscribers (hw_hub w),
    pb_payload = monitor_json float_repr (length ?pubs) ts event details @ [py_chr 10]\<rparr>"
  have "pending_ok float_repr ?pubs (length (mh_queues (hw_hub w))) ?p"
    using ok by (auto simp: pending_ok_def hub_ok_def numbered_line_def numbered_json_def)
  moreover have "list_all (pending_ok float_repr ?pubs (length (mh_queues (hw_hub w)))) (hw_pending w)"
    using ok by (auto simp: hub_ok_def intro: pendings_grow)
  moreover have "\<forall>p\<in>set (hw_pending w). pb_sequence p \<le> length pubs"
    using ok by (auto simp: hub_ok_def list_all_iff pending_ok_def)
  moreover have "hub_received float_repr ?pubs seqs (hub_step float_repr (Publish ts event details) w)"
    using False ok by (intro received_publish [OF rec, of ?p])
      (simp_all add: publish_begin_def Let_def sent_to_def queue_of_def hub_ok_def)
  ultimately show ?thesis
    using False ok by (fastforce simp: hub_ok_def publish_begin_def Let_def)
qed

lemma received_deliver:
  assumes ok: "hub_ok float_repr pubs w" and i: "i < length (hw_pending w)" and rec: "hub_received float_repr pubs seqs w"
  shows "\<exists>seqs. hub_received float_repr pubs seqs (hub_step float_repr (Deliver i) w)"
proof -
  let ?w = "hub_step float_repr (Deliver i) w" and ?p = "hw_pending w ! i"
  have p: "pending_ok float_repr pubs (length (mh_queues (hw_hub w))) ?p" using ok i by (simp add: hub_ok_def list_all_length)
  have split: "hw_pending w = take i (hw_pending w) @ ?p # drop (i + 1) (hw_pending w)" using i by (simp add: id_take_nth_drop)
  have pend: "hw_pending ?w = take i (hw_pending w) @ drop (i + 1) (hw_pending w)" using i by simp
  have "distinct (map pb_sequence (hw_pending w))" using ok by (simp add: hub_ok_def)
  then have fresh: "pb_sequence ?p \<notin> set (map pb_sequence (hw_pending ?w))" unfolding pend by (subst (asm) split) auto
  have sub: "set (map pb_sequence (hw_pending ?w)) \<subseteq> set (map pb_sequence (hw_pending w))"
    unfolding pend by (subst split) auto
  have queue: "queue_of n ?w = queue_of n w \<or> queue_of n ?w = queue_of n w @ [pb_payload ?p]" for n
    using i p put_all_appends [of "pb_subscribers ?p" n "mh_queues (hw_hub w)" "mh_capacity (hw_hub w)" "pb_payload ?p" 0]
    by (auto simp: queue_of_def publish_deliver_def pending_ok_def split: prod.splits)
       (metis fst_conv put_all_length)+
  have sent: "sent_to n ?w = sent_to n w" for n using i by (simp add: sent_to_def)
  define w' where "w' = ?w"
  have "\<exists>ss. sent_to n w' @ queue_of n w' = map (numbered_line float_repr pubs) ss \<and> distinct ss
      \<and> set ss \<subseteq> {1..length pubs} - set (map pb_sequence (hw_pending w'))" for n
  proof -
    have lines: "sent_to n w @ queue_of n w = map (numbered_line float_repr pubs) (seqs n)" and "distinct (seqs n)"
      and range: "set (seqs n) \<subseteq> {1..length pubs} - set (map pb_sequence (hw_pending w))"
      using rec unfolding hub_received_def by blast+
    show ?thesis
    proof (cases "queue_of n w' = queue_of n w")
      case True
      have "sent_to n w' @ queue_of n w' = map (numbered_line float_repr pubs) (seqs n)"
        unfolding True using lines sent [of n] by (simp only: w'_def)
      moreover have "set (seqs n) \<subseteq> {1..length pubs} - set (map pb_sequence (hw_pending w'))"
        using range sub unfolding w'_def by blast
      ultimately show ?thesis using \<open>distinct (seqs n)\<close> by blast
    next
      case False
      then have "queue_of n w' = queue_of n w @ [numbered_line float_repr pubs (pb_sequence ?p)]"
        using queue [of n] p unfolding w'_def pending_ok_def by metis
      then have "sent_to n w' @ queue_of n w' = map (numbered_line float_repr pubs) (seqs n @ [pb_sequence ?p])"
        using lines sent [of n] by (simp only: w'_def map_append list.map append_assoc [symmetric])
      moreover have "pb_sequence ?p \<in> set (map pb_sequence (hw_pending w))" using i by auto
      then have "distinct (seqs n @ [pb_sequence ?p])" using range \<open>distinct (seqs n)\<close> by auto
      moreover have "pb_sequence ?p \<in> {1..length pubs}" using p by (simp add: pending_ok_def)
      then have "set (seqs n @ [pb_sequence ?p]) \<subseteq> {1..length pubs} - set (map pb_sequence (hw_pending w'))"
        using range sub fresh unfolding w'_def set_append list.set by blast
      ultimately show ?thesis by blast
    qed
  qed
  then show ?thesis unfolding hub_received_def w'_def by metis
qed

lemma deliver_ok: assumes ok: "hub_ok float_repr pubs w" shows "hub_ok float_repr pubs (hub_step float_repr (Deliver i) w)"
proof (cases "i < length (hw_pending w)")
  case True
  let ?p = "hw_pending w ! i"
  obtain seqs where "hub_received float_repr pubs seqs w" using ok by (auto simp: hub_ok_def)
  from received_deliver [OF ok True this] have "\<exists>seqs. hub_received float_repr pubs seqs (hub_step float_repr (Deliver i) w)" .
  moreover obtain queues drops where put: "put_nowait_all (mh_capacity (hw_hub w)) (pb_payload ?p) (pb_subscribers ?p)
      (mh_queues (hw_hub w)) 0 = (queues, drops)" by (metis surj_pair)
  moreover have "length queues = length (mh_queues (hw_hub w))" by (metis put fst_conv put_all_length)
  moreover have "list_all (\<lambda>q. int (length q) \<le> mh_capacity (hw_hub w)) queues"
    using ok put_all_bounded [of "mh_capacity (hw_hub w)" "mh_queues (hw_hub w)" "pb_payload ?p" "pb_subscribers ?p" 0] put
    by (simp add: hub_ok_def)
  moreover have "list_all (pending_ok float_repr pubs k) (take i (hw_pending w) @ drop (Suc i) (hw_pending w))"
    if "list_all (pending_ok float_repr pubs k) (hw_pending w)" for k
    using that by (auto simp: list_all_iff dest: in_set_takeD in_set_dropD)
  moreover have "distinct (map pb_sequence (take i (hw_pending w) @ drop (Suc i) (hw_pending w)))"
  proof -
    have "map pb_sequence (hw_pending w) = map pb_sequence (take i (hw_pending w)) @ pb_sequence ?p # map pb_sequence (drop (Suc i) (hw_pending w))"
      using True by (metis id_take_nth_drop list.simps(9) map_append)
    then show ?thesis using ok unfolding hub_ok_def by simp
  qed
  ultimately show ?thesis using ok True by (simp add: hub_ok_def publish_deliver_def)
next
  case False
  with ok show ?thesis by simp
qed

lemma handle_ok: assumes ok: "hub_ok float_repr pubs w" shows "hub_ok float_repr pubs (hub_step float_repr (Handle n) w)"
proof (cases "n < length (mh_queues (hw_hub w)) \<and> mh_queues (hw_hub w) ! n \<noteq> []")
  case True
  then obtain payload rest where q: "mh_queues (hw_hub w) ! n = payload # rest" by (meson neq_Nil_conv)
  obtain seqs where "hub_received float_repr pubs seqs w" using ok by (auto simp: hub_ok_def)
  then have "hub_received float_repr pubs seqs (hub_step float_repr (Handle n) w)"
    by (rule received_cong) (use True q in \<open>auto simp: sent_to_def queue_of_def\<close>)
  moreover have "list_all (\<lambda>q. int (length q) \<le> c) ((mh_queues (hw_hub w))[n := rest])"
    if "list_all (\<lambda>q. int (length q) \<le> c) (mh_queues (hw_hub w))" for c
    using that True q by (fastforce simp: list_all_length nth_list_update)
  ultimately show ?thesis using ok True q by (auto simp: hub_ok_def)
next
  case False
  with ok show ?thesis by auto
qed

definition hub_world_init :: "monitor_hub \<Rightarrow> hub_world" where
  "hub_world_init h = \<lparr>hw_hub = h, hw_pending = [], hw_sent = []\<rparr>"

lemma hub_run_ok:
  "hub_init capacity = Inr h \<Longrightarrow> hub_ok float_repr (publications calls) (fold (hub_step float_repr) calls (hub_world_init h))"
proof (induction calls rule: rev_induct)
  case Nil
  then show ?case
    by (auto simp: hub_init_def hub_ok_def hub_world_init_def publications_def hub_received_def sent_to_def queue_of_def
      split: if_splits intro!: exI [of _ "\<lambda>_. []"])
next
  case (snoc c calls)
  then have ok: "hub_ok float_repr (publications calls) (fold (hub_step float_repr) calls (hub_world_init h))" by simp
  show ?case
  proof (cases c)
    case (Publish ts event details)
    then show ?thesis using publication_ok [OF ok, of event ts details] by (simp add: publications_def)
  qed (use ok in \<open>simp_all add: publications_def subscription_ok unsubscribe_ok deliver_ok handle_ok del: hub_step.simps\<close>)
qed

text \<open>
  C27. Under every interleaving of subscriptions, publications, deliveries and handlers, a client that splits what its
  handler has sent it at line ends has a list of JSON texts: each the record of one of the publications, with the
  publication's number in it and none twice. No queue outgrows its capacity.
\<close>

theorem monitor_streams:
  assumes "hub_init capacity = Inr h" and "\<And>x. list_all printable (float_repr x)"
    and "w = fold (hub_step float_repr) calls (hub_world_init h)"
  shows "(\<exists>numbers. split_lines [] (concat (sent_to n w)) = map (numbered_json float_repr (publications calls)) numbers
      \<and> distinct numbers \<and> set numbers \<subseteq> {1..length (publications calls)})
    \<and> list_all (\<lambda>q. int (length q) \<le> capacity) (mh_queues (hw_hub w))"
proof -
  have cap: "mh_capacity (hw_hub (fold (hub_step float_repr) cs v)) = mh_capacity (hw_hub v)" for cs v
  proof (induction cs arbitrary: v)
    case (Cons c cs)
    have "mh_capacity (hw_hub (hub_step float_repr c v)) = mh_capacity (hw_hub v)"
      by (cases c) (auto simp: hub_subscribe_def hub_unsubscribe_def publish_begin_def publish_deliver_def Let_def split: list.splits prod.splits)
    with Cons show ?case by simp
  qed simp
  let ?pubs = "publications calls"
  have ok: "hub_ok float_repr ?pubs w" using hub_run_ok assms by blast
  then obtain seqs where rec: "hub_received float_repr ?pubs seqs w" by (auto simp: hub_ok_def)
  define k where "k = length (sent_to n w)"
  have "sent_to n w @ queue_of n w = map (numbered_line float_repr ?pubs) (seqs n)" and dist: "distinct (seqs n)"
    using rec by (auto simp: hub_received_def)
  then have "sent_to n w = map (numbered_line float_repr ?pubs) (take k (seqs n))"
    by (metis append_eq_conv_conj k_def take_map)
  then have "concat (sent_to n w) = concat (map (\<lambda>body. body @ [py_chr 10]) (map (numbered_json float_repr ?pubs) (take k (seqs n))))"
    by (simp add: numbered_line_def [abs_def] comp_def)
  moreover have "list_all (list_all printable) (map (numbered_json float_repr ?pubs) (take k (seqs n)))"
    using printable_dumps assms(2) by (auto simp: list_all_iff numbered_json_def monitor_json_def split: prod.splits)
  ultimately have "split_lines [] (concat (sent_to n w)) = map (numbered_json float_repr ?pubs) (take k (seqs n))"
    by (simp only: split_lines_all)
  moreover have "distinct (take k (seqs n))" using dist by simp
  moreover have "set (take k (seqs n)) \<subseteq> {1..length ?pubs}" using received_range [OF rec] by (fastforce dest: in_set_takeD)
  moreover have "mh_capacity (hw_hub w) = capacity"
    using assms(1,3) by (simp add: cap hub_world_init_def hub_init_def split: if_splits) auto
  ultimately show ?thesis using ok unfolding hub_ok_def by blast
qed

definition two_publishers :: "hub_call list" where
  "two_publishers = [Subscribe, Publish ''T'' ''a'' [], Publish ''T'' ''b'' [], Deliver 1, Deliver 0, Handle 0, Handle 0]"

lemma two_publishers_sent:
  "sent_to 0 (fold (hub_step (\<lambda>_. ''0'')) two_publishers (hub_world_init (projr (hub_init 2))))
    = map (numbered_line (\<lambda>_. ''0'') (publications two_publishers)) [2, 1]"
  by (simp add: two_publishers_def hub_world_init_def hub_init_def hub_subscribe_def publish_begin_def publish_deliver_def
    sent_to_def publications_def numbered_line_def numbered_json_def numeral_2_eq_2)

theorem monitor_streams_witness:
  "\<exists>numbers. split_lines [] (concat (sent_to 0 (fold (hub_step (\<lambda>_. ''0'')) two_publishers (hub_world_init (projr (hub_init 2))))))
      = map (numbered_json (\<lambda>_. ''0'') (publications two_publishers)) numbers \<and> length numbers = 2 \<and> distinct numbers"
proof -
  let ?w = "fold (hub_step (\<lambda>_. ''0'')) two_publishers (hub_world_init (projr (hub_init 2)))"
  have "hub_init 2 = Inr (projr (hub_init 2))" by (simp add: hub_init_def)
  moreover have "list_all printable ''0''" by (simp add: printable_def py_ord_def)
  ultimately obtain numbers where n: "split_lines [] (concat (sent_to 0 ?w)) = map (numbered_json (\<lambda>_. ''0'') (publications two_publishers)) numbers"
    "distinct numbers"
    using monitor_streams [of 2 "projr (hub_init 2)" "\<lambda>_. ''0''" ?w two_publishers 0] by auto
  have "length (split_lines [] (concat (sent_to 0 ?w))) = 2"
    unfolding two_publishers_sent by code_simp
  with n show ?thesis by (metis length_map)
qed

end
