(* ===== verification/Tx_Monitor.thy ===== *)
theory Tx_Monitor
  imports Tnc_Service Monitor
begin

section \<open>The monitor of transmissions\<close>

text \<open>
  \<open>src/src/ywdtnc/monitor_tx.py\<close>: a tracker of the requests in the admission queue, and three wrappers that tell the
  monitor hub what happens to them, around the queue, around the half-duplex lifecycle and around the router. The hub
  is a sink of events over a state; what a wrapper adds to a world is the tracker and that state. The texts of
  exceptions are parameters.
\<close>

subsection \<open>Model: the tracker\<close>

record tracked_request =
  tq_request_id :: int
  tq_frame :: fields
  tq_txdelay :: int
  tq_persist :: int
  tq_slottime :: int
  tq_parameter_generation :: int
  tq_raw_rssi :: "int option"

record tx_tracker =
  tk_pending :: "int list"
  tk_records :: "(int \<times> tracked_request) list"
  tk_current_id :: "int option"

definition tracker_init :: tx_tracker where
  "tracker_init = \<lparr>tk_pending = [], tk_records = [], tk_current_id = None\<rparr>"

definition tracker_add :: "(codec_error \<Rightarrow> string) \<Rightarrow> kiss_receipt \<Rightarrow> bytes \<Rightarrow> tx_tracker \<Rightarrow> tracked_request \<times> tx_tracker" where
  "tracker_add exc_text receipt frame_no_fcs tk =
     (let item = \<lparr>tq_request_id = kr_request_id receipt, tq_frame = frame_fields exc_text frame_no_fcs, tq_txdelay = kr_txdelay receipt,
            tq_persist = kr_persist receipt, tq_slottime = kr_slottime receipt, tq_parameter_generation = kr_parameter_generation receipt,
            tq_raw_rssi = None\<rparr>
      in (item, tk\<lparr>tk_pending := tk_pending tk @ [tq_request_id item], tk_records := AList.update (tq_request_id item) item (tk_records tk)\<rparr>))"

text \<open>A pending request without its record would raise \<open>KeyError\<close>.\<close>

datatype tracker_error = TrackerKeyError int

definition begin_observation :: "int \<Rightarrow> tx_tracker \<Rightarrow> (tracker_error, tracked_request option) result \<times> tx_tracker" where
  "begin_observation raw_rssi tk =
     (case tk_pending tk of
        [] \<Rightarrow> (Inr None, tk\<lparr>tk_current_id := None\<rparr>)
      | request_id # _ \<Rightarrow>
          (case map_of (tk_records tk) request_id of
             None \<Rightarrow> (Inl (TrackerKeyError request_id), tk)
           | Some old \<Rightarrow>
               (let item = old\<lparr>tq_raw_rssi := Some raw_rssi\<rparr>
                in (Inr (Some item), tk\<lparr>tk_records := AList.update request_id item (tk_records tk), tk_current_id := Some request_id\<rparr>))))"

definition tracker_current :: "tx_tracker \<Rightarrow> tracked_request option" where
  "tracker_current tk = (case tk_current_id tk of None \<Rightarrow> None | Some i \<Rightarrow> map_of (tk_records tk) i)"

definition clear_current :: "tx_tracker \<Rightarrow> tx_tracker" where
  "clear_current tk = tk\<lparr>tk_current_id := None\<rparr>"

definition tracker_finish :: "int option \<Rightarrow> tx_tracker \<Rightarrow> tx_tracker" where
  "tracker_finish request_id tk =
     (case request_id of
        None \<Rightarrow> tk
      | Some i \<Rightarrow>
          tk\<lparr>tk_pending := remove1 i (tk_pending tk), tk_records := AList.delete i (tk_records tk),
             tk_current_id := (if tk_current_id tk = Some i then None else tk_current_id tk)\<rparr>)"

definition request_fields :: "tracked_request option \<Rightarrow> fields" where
  "request_fields item =
     (case item of
        None \<Rightarrow> []
      | Some r \<Rightarrow>
          (let details = dict_update
             [(''request_id'', FInt (tq_request_id r)), (''txdelay'', FInt (tq_txdelay r)), (''persist'', FInt (tq_persist r)),
              (''slottime'', FInt (tq_slottime r)), (''parameter_generation'', FInt (tq_parameter_generation r))] (tq_frame r)
           in (case tq_raw_rssi r of None \<Rightarrow> details | Some raw \<Rightarrow> dict_update [(''raw_rssi'', FInt raw)] details)))"

subsection \<open>Model: the wrappers\<close>

type_synonym 'h sink = "string \<Rightarrow> fields \<Rightarrow> 'h \<Rightarrow> 'h"

type_synonym 'h side = "tx_tracker \<times> 'h"

definition receipt_fields :: "tx_receipt \<Rightarrow> fields" where
  "receipt_fields receipt =
     [(''frame_sha256'', FStr (tr_frame_sha256 receipt)), (''selector_count'', FInt (tr_selector_count receipt)),
      (''packed_selector_bytes'', FInt (tr_packed_selector_bytes receipt)),
      (''packed_selector_sha256'', FStr (tr_packed_selector_sha256 receipt)),
      (''nominal_duration_seconds'', FSeconds (tr_nominal_duration_seconds receipt))]"

text \<open>The router, on a modem whose world carries the side state.\<close>

definition monitored_router_submit ::
  "'h sink \<Rightarrow> (bytes \<Rightarrow> string) \<Rightarrow> ('h side \<times> 'v) modem_port \<Rightarrow> tx_router \<Rightarrow> bytes \<Rightarrow> txdelay_profile \<Rightarrow> seconds option \<Rightarrow> 'h side \<times> 'v \<Rightarrow>
     (tx_exn, tx_receipt) result \<times> tx_router \<times> 'h side \<times> 'v" where
  "monitored_router_submit emit sha owner r frame profile timeout w =
     (case router_submit_frame sha owner r frame profile timeout w of
        (Inl e, r, w) \<Rightarrow> (Inl e, r, w)
      | (Inr receipt, r, (tk, h), v) \<Rightarrow>
          (Inr receipt, r, (tk, emit ''tx.dispatched'' (dict_update (receipt_fields receipt) (request_fields (tracker_current tk))) h), v))"

definition monitored_adapter ::
  "'h sink \<Rightarrow> (bytes \<Rightarrow> string) \<Rightarrow> ('h side \<times> 'v) modem_port \<Rightarrow> (adapter_state \<times> 'h side \<times> 'v, tx_receipt) submitter" where
  "monitored_adapter emit sha owner frame timeout = (\<lambda>((context, r), w).
     case context of
       None \<Rightarrow> (Inl ContextNotArmed, ((context, r), w))
     | Some profile \<Rightarrow>
         (let (res, r, w) = monitored_router_submit emit sha owner r frame profile timeout w in (res, ((context, r), w))))"

text \<open>The contextual submitter, which the engine constructs over the monitored router.\<close>

definition contextual_over_monitored_router ::
  "'h sink \<Rightarrow> (bytes \<Rightarrow> string) \<Rightarrow> ('h side \<times> 'v) modem_port \<Rightarrow> ('h side \<times> 'v) clock \<Rightarrow> ('h side \<times> 'v) sleeper \<Rightarrow> contextual_submitter \<Rightarrow>
     bytes \<Rightarrow> txdelay_profile \<Rightarrow> seconds option \<Rightarrow> 'h side \<times> 'v \<Rightarrow> ((tx_exn, tx_receipt) result \<times> contextual_submitter \<times> 'h side \<times> 'v) option" where
  "contextual_over_monitored_router emit sha modem monotonic slp c frame context timeout w =
     (if ch_adapter c \<noteq> None then Some (Inl ContextAlreadyArmed, c, w)
      else
        (case hd_submit_frame (lift_port modem) (monitored_adapter emit sha modem) (lift_clock monotonic)
            (lift_sleep slp) (ch_lifecycle c) frame timeout ((Some context, ch_router c), w) of
           None \<Rightarrow> None
         | Some (res, co, ((_, r), w)) \<Rightarrow>
             Some (res, c\<lparr>ch_adapter := None, ch_router := r, ch_lifecycle := co\<rparr>, w)))"

definition monitored_lifecycle ::
  "'h sink \<Rightarrow> (tx_exn \<Rightarrow> string) \<Rightarrow> (bytes \<Rightarrow> string) \<Rightarrow> 'v modem_port \<Rightarrow> 'v clock \<Rightarrow> 'v sleeper \<Rightarrow>
     (contextual_submitter \<times> 'h side \<times> 'v, tx_receipt) contextual_port" where
  "monitored_lifecycle emit error_text sha modem monotonic slp frame context timeout = (\<lambda>(c, (tk, h), v).
     let item = tracker_current tk; h = emit ''tx.channel_clear'' (request_fields item) h in
     case contextual_over_monitored_router emit sha (lift_port modem) (lift_clock monotonic) (lift_sleep slp) c frame
         (tc_txdelay_profile context) timeout ((tk, h), v) of
       None \<Rightarrow> (Inl DoesNotReturn, (c, (tk, h), v))
     | Some (Inl e, c, (tk, h), v) \<Rightarrow>
         (Inl e, (c, (tk, emit ''tx.failed'' (dict_update [(''error'', FStr (error_text e))] (request_fields item)) h), v))
     | Some (Inr res, c, (tk, h), v) \<Rightarrow> (Inr res, (c, (tk, emit ''tx.complete'' (request_fields item) h), v)))"

definition monitored_enqueue ::
  "'h sink \<Rightarrow> (codec_error \<Rightarrow> string) \<Rightarrow> 'v clock \<Rightarrow> kiss_queue \<Rightarrow> bytes \<Rightarrow> tnc_context \<Rightarrow> seconds \<Rightarrow> contextual_submitter \<times> 'h side \<times> 'v \<Rightarrow>
     (kq_error, kiss_receipt) result \<times> kiss_queue \<times> contextual_submitter \<times> 'h side \<times> 'v" where
  "monitored_enqueue emit exc_text monotonic q frame context now w =
     (case ts_enqueue (lift_clock (lift_clock monotonic)) q frame context now w of
        (Inl e, q, w) \<Rightarrow> (Inl e, q, w)
      | (Inr receipt, q, c, (tk, h), v) \<Rightarrow>
          (let (item, tk) = tracker_add exc_text receipt frame tk
           in (Inr receipt, q, c, (tk, emit ''tx.queued'' (request_fields (Some item)) h), v)))"

datatype monitored_error = MonitoredQueue kq_error | MonitoredTracker tracker_error

definition reason_text :: "kq_reason \<Rightarrow> string" where
  "reason_text r =
     (case r of
        KQNoRequest \<Rightarrow> ''no queued KISS DATA request''
      | KQLifetimeExpired \<Rightarrow> ''bounded total KISS DATA request lifetime expired before dispatch''
      | KQPolicyTimedOut \<Rightarrow> ''captured P6 channel-access policy timed out''
      | KQRemainsGated \<Rightarrow> ''KISS DATA request remains gated by qualified channel access''
      | KQDownstreamFailed \<Rightarrow> ''contextual downstream failed; request is terminal and is not retried''
      | KQDispatchedOnce \<Rightarrow> ''captured P6 channel access reached READY; request dispatched exactly once'')"

definition monitored_observe_rssi ::
  "'h sink \<Rightarrow> (tx_exn \<Rightarrow> string) \<Rightarrow> (bytes \<Rightarrow> string) \<Rightarrow> 'v modem_port \<Rightarrow> 'v clock \<Rightarrow> 'v sleeper \<Rightarrow> kiss_queue \<Rightarrow> seconds \<Rightarrow> int \<Rightarrow>
     'v random_source option \<Rightarrow> contextual_submitter \<times> 'h side \<times> 'v \<Rightarrow>
     (monitored_error, tx_receipt kq_observation) result \<times> kiss_queue \<times> contextual_submitter \<times> 'h side \<times> 'v" where
  "monitored_observe_rssi emit error_text sha modem monotonic slp q now raw_magnitude src = (\<lambda>(c, (tk, h), v).
     case begin_observation raw_magnitude tk of
       (Inl e, tk) \<Rightarrow> (Inl (MonitoredTracker e), q, c, (tk, h), v)
     | (Inr item, tk) \<Rightarrow>
         (case ts_observe_rssi (monitored_lifecycle emit error_text sha modem monotonic slp) (lift_clock (lift_clock monotonic)) q now
             raw_magnitude (map_option (\<lambda>s. lift_random (lift_random s)) src) (c, (tk, h), v) of
            (Inl e, q, c, (tk, h), v) \<Rightarrow> (Inl (MonitoredQueue e), q, c, (clear_current tk, h), v)
          | (Inr ob, q, c, (tk, h), v) \<Rightarrow>
              (let h = (if ko_request_state ob = Some KR_TIMED_OUT
                        then emit ''tx.timeout'' (dict_update [(''reason'', FStr (reason_text (ko_reason ob)))] (request_fields item)) h
                        else h);
                   tk = (if ko_request_state ob \<in> {Some KR_DISPATCHED, Some KR_TIMED_OUT, Some KR_DOWNSTREAM_FAILED}
                         then tracker_finish (ko_request_id ob) tk else tk)
               in (Inr ob, q, c, (clear_current tk, h), v))))"

subsection \<open>A modem whose world carries more\<close>

text \<open>
  What two modems agree on when the world of one carries a part that its operations leave alone: the
  broker, the router and the half-duplex cycle do the same on both.
\<close>

locale projected_modem =
  fixes modem :: "'v modem_port" and modem' :: "'w modem_port"
    and monotonic :: "'v clock" and monotonic' :: "'w clock"
    and slp :: "'v sleeper" and slp' :: "'w sleeper"
    and proj :: "'v \<Rightarrow> 'w"
  assumes rx_status_proj: "mp_rx_status modem' t (proj v) = apsnd proj (mp_rx_status modem t v)"
    and rx_start_proj: "mp_rx_start modem' t (proj v) = apsnd proj (mp_rx_start modem t v)"
    and rx_stop_proj: "mp_rx_stop modem' t (proj v) = apsnd proj (mp_rx_stop modem t v)"
    and rf_status_proj: "mp_rf_status modem' t (proj v) = apsnd proj (mp_rf_status modem t v)"
    and rf_diagnostics_proj: "mp_rf_diagnostics modem' t (proj v) = apsnd proj (mp_rf_diagnostics modem t v)"
    and burst_proj: "mp_transmit_selector_burst modem' n packed t (proj v) = apsnd proj (mp_transmit_selector_burst modem n packed t v)"
    and clock_proj: "monotonic' (proj v) = apsnd proj (monotonic v)"
    and sleep_proj: "slp' d (proj v) = proj (slp d v)"
begin

lemma worker_step_proj: "broker_worker_step modem' b (proj v) = apsnd proj (broker_worker_step modem b v)"
proof -
  have "broker_transmit modem' job (proj v) = apsnd proj (broker_transmit modem job v)" for job
    by (simp add: broker_transmit_def bind_op_def rf_status_proj burst_proj split: prod.splits sum.splits)
  then show ?thesis
    by (simp add: broker_worker_step_def rf_status_proj Let_def split: list.splits broker_item.splits prod.splits sum.splits)
qed

lemma drain_proj: "broker_drain modem' n b (proj v) = apsnd proj (broker_drain modem n b v)"
proof (induction n arbitrary: b v)
  case (Suc n)
  obtain b1 v1 where step: "broker_worker_step modem b v = (b1, v1)" by (rule prod.exhaust)
  with worker_step_proj [of b v] Suc.IH [of b1 v1] show ?case by simp
qed simp

lemma broker_submit_proj: "broker_submit_frame sha modem' b frame timeout (proj v) = apsnd (apsnd proj) (broker_submit_frame sha modem b frame timeout v)"
  by (simp add: broker_submit_frame_def drain_proj split: prod.splits sum.splits)

lemma router_submit_proj: "router_submit_frame sha modem' r frame profile timeout (proj v) = apsnd (apsnd proj) (router_submit_frame sha modem r frame profile timeout v)"
  by (simp add: router_submit_frame_def broker_submit_proj Let_def split: prod.splits sum.splits)

lemma checked_proj: "checked_rx_status modem' t check (proj v) = apsnd proj (checked_rx_status modem t check v)"
  by (simp add: checked_rx_status_def bind_op_def rx_status_proj split: prod.splits sum.splits)

lemma pre_transmit_proj: "hd_pre_transmit modem' t co (proj v) = apsnd (apsnd proj) (hd_pre_transmit modem t co v)"
proof -
  obtain r1 v1 where 1: "checked_rx_status modem t require_active_rx v = (r1, v1)" by (rule prod.exhaust)
  obtain r2 v2 where 2: "mp_rx_stop modem (Some t) v1 = (r2, v2)" by (rule prod.exhaust)
  show ?thesis by (cases r1; cases r2) (simp_all add: hd_pre_transmit_def checked_proj 1 2 rx_stop_proj split: prod.splits)
qed

lemma restart_proj: "hd_restart_and_verify_rx modem' t co (proj v) = apsnd (apsnd proj) (hd_restart_and_verify_rx modem t co v)"
proof -
  obtain r1 v1 where 1: "mp_rx_start modem (Some t) v = (r1, v1)" by (rule prod.exhaust)
  show ?thesis by (cases r1) (simp_all add: hd_restart_and_verify_rx_def rx_start_proj 1 checked_proj split: prod.splits)
qed

lemma wait_loop_forth:
  assumes "hd_wait_loop modem monotonic slp t deadline co v = Some out"
  shows "hd_wait_loop modem' monotonic' slp' t deadline co (proj v) = Some (apsnd (apsnd proj) out)"
proof -
  let ?P = "\<lambda>m c s (t :: seconds) (d :: seconds) (co :: half_duplex) v out.
    m = modem \<longrightarrow> c = monotonic \<longrightarrow> s = slp \<longrightarrow> hd_wait_loop modem' monotonic' slp' t d co (proj v) = Some (apsnd (apsnd proj) out)"
  have "?P modem monotonic slp t deadline co v out"
  proof (rule hd_wait_loop.raw_induct [of ?P, OF _ assms], goal_cases)
    case (1 loop m c s t deadline co v out)
    obtain r1 v1 where st: "mp_rf_status m (Some t) v = (r1, v1)" by (rule prod.exhaust)
    obtain r2 v2 where dg: "mp_rf_diagnostics m (Some t) v1 = (r2, v2)" by (rule prod.exhaust)
    obtain now v3 where mo: "c v2 = (now, v3)" by (rule prod.exhaust)
    note eq = 1(2) [unfolded st dg prod.case mo Let_def]
    show ?case
    proof (intro impI)
      assume m: "m = modem" "c = monotonic" "s = slp"
      from eq m st dg mo 1(1) show "hd_wait_loop modem' monotonic' slp' t deadline co (proj v) = Some (apsnd (apsnd proj) out)"
        by (cases r1; cases r2)
           (auto simp: hd_wait_loop.simps [of modem'] rf_status_proj rf_diagnostics_proj clock_proj sleep_proj Let_def split: if_splits)
    qed
  qed
  then show ?thesis by simp
qed

lemma wait_loop_back:
  assumes "hd_wait_loop modem' monotonic' slp' t deadline co (proj v) = Some out"
  shows "hd_wait_loop modem monotonic slp t deadline co v \<noteq> None"
proof -
  let ?P = "\<lambda>m c s (t :: seconds) (d :: seconds) (co :: half_duplex) w (out :: (tx_exn, unit) result \<times> half_duplex \<times> 'w).
    \<forall>v. m = modem' \<longrightarrow> c = monotonic' \<longrightarrow> s = slp' \<longrightarrow> w = proj v \<longrightarrow> hd_wait_loop modem monotonic slp t d co v \<noteq> None"
  have "?P modem' monotonic' slp' t deadline co (proj v) out"
  proof (rule hd_wait_loop.raw_induct [of ?P, OF _ assms], goal_cases)
    case (1 loop m c s t deadline co w out)
    show ?case
    proof (intro allI impI)
      fix v assume m: "m = modem'" "c = monotonic'" "s = slp'" "w = proj v"
      obtain r1 v1 where st: "mp_rf_status modem (Some t) v = (r1, v1)" by (rule prod.exhaust)
      obtain r2 v2 where dg: "mp_rf_diagnostics modem (Some t) v1 = (r2, v2)" by (rule prod.exhaust)
      obtain now v3 where mo: "monotonic v2 = (now, v3)" by (rule prod.exhaust)
      from 1(2) m st dg mo 1(1) show "hd_wait_loop modem monotonic slp t deadline co v \<noteq> None"
        by (cases r1; cases r2)
           (auto simp: hd_wait_loop.simps [of modem] rf_status_proj rf_diagnostics_proj clock_proj sleep_proj Let_def split: if_splits)
    qed
  qed
  then show ?thesis by simp
qed

lemma wait_loop_proj:
  "hd_wait_loop modem' monotonic' slp' t deadline co (proj v) = map_option (apsnd (apsnd proj)) (hd_wait_loop modem monotonic slp t deadline co v)"
proof (cases "hd_wait_loop modem monotonic slp t deadline co v")
  case None
  then show ?thesis using wait_loop_back by (cases "hd_wait_loop modem' monotonic' slp' t deadline co (proj v)") auto
qed (simp add: wait_loop_forth)

lemma restore_proj:
  "hd_restore modem' monotonic' slp' t co (proj v) = map_option (apsnd (apsnd proj)) (hd_restore modem monotonic slp t co v)"
proof -
  have "hd_wait_for_tx_idle modem' monotonic' slp' t co (proj v) = map_option (apsnd (apsnd proj)) (hd_wait_for_tx_idle modem monotonic slp t co v)"
    by (simp add: hd_wait_for_tx_idle_def clock_proj wait_loop_proj split: prod.splits)
  then show ?thesis
    by (simp add: hd_restore_def restart_proj split: option.splits sum.splits prod.splits)
qed

lemma submit_proj:
  assumes sub: "\<And>f t v. submit' f t (proj v) = apsnd proj (submit f t v)"
  shows "hd_submit_frame modem' submit' monotonic' slp' co frame timeout (proj v) =
    map_option (apsnd (apsnd proj)) (hd_submit_frame modem submit monotonic slp co frame timeout v)"
proof -
  have cycle: "hd_cycle modem' submit' monotonic' slp' co frame t (proj v) =
    map_option (apsnd (apsnd proj)) (hd_cycle modem submit monotonic slp co frame t v)" for co t
  proof -
    obtain r1 co1 v1 where pre: "hd_pre_transmit modem t co v = (r1, co1, v1)" by (rule prod_cases3)
    obtain r2 v2 where s: "submit frame (Some t) v1 = (r2, v2)" by (rule prod.exhaust)
    show ?thesis
      by (cases r1; cases r2)
         (simp_all add: hd_cycle_def pre_transmit_proj pre sub s restore_proj split: option.splits sum.splits prod.splits)
  qed
  show ?thesis by (simp add: hd_submit_frame_def cycle Let_def split: option.splits prod.splits)
qed

end

interpretation side_carried: projected_modem "lift_port modem" modem "lift_clock monotonic" monotonic "lift_sleep slp" slp snd
  for modem :: "'v modem_port" and monotonic slp
  by unfold_locales (auto simp: lift_port_def lift_op_def lift_clock_def lift_sleep_def split: prod.splits)

interpretation side_under_adapter: projected_modem "lift_port (lift_port modem)" "lift_port modem" "lift_clock (lift_clock monotonic)"
    "lift_clock monotonic" "lift_sleep (lift_sleep slp)" "lift_sleep slp" "\<lambda>(a, s, v). (a, v)"
  for modem :: "'v modem_port" and monotonic slp
  by unfold_locales (auto simp: lift_port_def lift_op_def lift_clock_def lift_sleep_def split: prod.splits)


subsection \<open>The wrappers change nothing\<close>

text \<open>The lifecycle without monitor, as the queue's downstream.\<close>

definition plain_lifecycle ::
  "(bytes \<Rightarrow> string) \<Rightarrow> 'v modem_port \<Rightarrow> 'v clock \<Rightarrow> 'v sleeper \<Rightarrow> (contextual_submitter \<times> 'v, tx_receipt) contextual_port" where
  "plain_lifecycle sha modem monotonic slp frame context timeout = (\<lambda>(c, v).
     case contextual_submit_frame sha modem monotonic slp c frame (tc_txdelay_profile context) timeout v of
       None \<Rightarrow> (Inl DoesNotReturn, (c, v))
     | Some (res, c, v) \<Rightarrow> (res, (c, v)))"

lemma tnc_submit_plain:
  "tnc_submit sha tr monotonic slp = plain_lifecycle sha (owner_port product_owner_dispatch tr) (lift_clock monotonic) (lift_sleep slp)"
  by (simp add: tnc_submit_def plain_lifecycle_def fun_eq_iff)

lemma monitored_router_transparent:
  "router_submit_frame sha modem r frame profile t v =
     apsnd (apsnd snd) (monitored_router_submit emit sha (lift_port modem) r frame profile t (s, v))"
proof -
  obtain res r' s' v' where out: "router_submit_frame sha (lift_port modem) r frame profile t (s, v) = (res, r', s', v')" by (rule prod_cases4)
  have "router_submit_frame sha modem r frame profile t v = (res, r', v')"
    using side_carried.router_submit_proj [of sha modem r frame profile t "(s, v)"] out by simp
  with out show ?thesis by (cases res; cases s') (simp_all add: monitored_router_submit_def)
qed

lemma monitored_adapter_transparent:
  "adapter_submit_frame sha modem frame t ((\<lambda>(a, s, v). (a, v)) w) =
     apsnd (\<lambda>(a, s, v). (a, v)) (monitored_adapter emit sha (lift_port modem) frame t w)"
proof -
  obtain ctx r s v where w: "w = ((ctx, r), s, v)" by (metis prod.exhaust)
  show ?thesis
  proof (cases ctx)
    case (Some profile)
    obtain res r' s' v' where out: "monitored_router_submit emit sha (lift_port modem) r frame profile t (s, v) = (res, r', s', v')" by (rule prod_cases4)
    with monitored_router_transparent [of sha modem r frame profile t v emit s] Some show ?thesis
      by (simp add: w adapter_submit_frame_def monitored_adapter_def)
  qed (simp add: w adapter_submit_frame_def monitored_adapter_def)
qed

lemma contextual_transparent:
  "contextual_submit_frame sha modem monotonic slp c frame profile t v =
     map_option (apsnd (apsnd snd))
       (contextual_over_monitored_router emit sha (lift_port modem) (lift_clock monotonic) (lift_sleep slp) c frame profile t (s, v))"
proof -
  let ?hd = "hd_submit_frame (lift_port (lift_port modem)) (monitored_adapter emit sha (lift_port modem)) (lift_clock (lift_clock monotonic))
    (lift_sleep (lift_sleep slp)) (ch_lifecycle c) frame t ((Some profile, ch_router c), s, v)"
  have "hd_submit_frame (lift_port modem) (adapter_submit_frame sha modem) (lift_clock monotonic) (lift_sleep slp) (ch_lifecycle c) frame t
      ((Some profile, ch_router c), v) = map_option (apsnd (apsnd (\<lambda>(a, s, v). (a, v)))) ?hd"
    using side_under_adapter.submit_proj [of "adapter_submit_frame sha modem" "monitored_adapter emit sha (lift_port modem)",
        OF monitored_adapter_transparent, of modem monotonic slp "ch_lifecycle c" frame t "((Some profile, ch_router c), s, v)"]
    by simp
  then show ?thesis
    by (simp add: contextual_submit_frame_def contextual_over_monitored_router_def split: option.splits prod.splits)
qed

lemma lifecycle_transparent:
  "plain_lifecycle sha modem monotonic slp frame context t (c, v) =
     apsnd (\<lambda>(c, s, v). (c, v)) (monitored_lifecycle emit error_text sha modem monotonic slp frame context t (c, s, v))"
proof -
  obtain tk h where s: "s = (tk, h)" by (rule prod.exhaust)
  show ?thesis
    unfolding plain_lifecycle_def monitored_lifecycle_def s prod.case Let_def
      contextual_transparent [of sha modem monotonic slp c frame "tc_txdelay_profile context" t v emit
        "(tk, emit ''tx.channel_clear'' (request_fields (tracker_current tk)) h)"]
    by (simp split: option.splits prod.splits sum.splits)
qed

lemma attempt_projected:
  assumes "\<And>w. s1 (p w) = apsnd p (s2 w)"
  shows "attempt_observe_rssi a now raw (Some s1) (p w) = apsnd (apsnd p) (attempt_observe_rssi a now raw (Some s2) w)"
    "attempt_observe_rssi a now raw None (p w) = apsnd (apsnd p) (attempt_observe_rssi a now raw None w)"
  by (simp_all add: attempt_observe_rssi_def assms Let_def split: prod.splits sum.splits)

lemma observe_projected:
  assumes src: "\<And>a now raw w. attempt_observe_rssi a now raw src1 (p w) = apsnd (apsnd p) (attempt_observe_rssi a now raw src2 w)"
    and sub: "\<And>frame ctx t w. submit1 frame ctx t (p w) = apsnd p (submit2 frame ctx t w)"
  shows "kq_observe_rssi submit1 q now raw src1 (p w) = apsnd (apsnd p) (kq_observe_rssi submit2 q now raw src2 w)"
  unfolding kq_observe_rssi_def
  by (simp add: src sub split: prod.splits sum.splits list.splits)


subsection \<open>The tracker follows the queue\<close>

datatype mq_event = MqEnqueue bytes tnc_context seconds | MqObserve seconds int

datatype mq_outcome =
    MqReceipt "(kq_error, kiss_receipt) result"
  | MqObservation "(monitored_error, tx_receipt kq_observation) result"

definition monitored_step ::
  "'h sink \<Rightarrow> (codec_error \<Rightarrow> string) \<Rightarrow> (tx_exn \<Rightarrow> string) \<Rightarrow> (bytes \<Rightarrow> string) \<Rightarrow> 'v modem_port \<Rightarrow> 'v clock \<Rightarrow> 'v sleeper \<Rightarrow>
     'v random_source option \<Rightarrow> kiss_queue \<times> contextual_submitter \<times> 'h side \<times> 'v \<Rightarrow> mq_event \<Rightarrow>
     (kiss_queue \<times> contextual_submitter \<times> 'h side \<times> 'v) \<times> mq_outcome list" where
  "monitored_step emit exc_text error_text sha modem monotonic slp src = (\<lambda>(q, w) ev.
     case ev of
       MqEnqueue frame context now \<Rightarrow>
         (let (r, q, w) = monitored_enqueue emit exc_text monotonic q frame context now w in ((q, w), [MqReceipt r]))
     | MqObserve now raw \<Rightarrow>
         (let (r, q, w) = monitored_observe_rssi emit error_text sha modem monotonic slp q now raw src w in ((q, w), [MqObservation r])))"

definition plain_step ::
  "(bytes \<Rightarrow> string) \<Rightarrow> 'v modem_port \<Rightarrow> 'v clock \<Rightarrow> 'v sleeper \<Rightarrow> 'v random_source option \<Rightarrow>
     kiss_queue \<times> contextual_submitter \<times> 'v \<Rightarrow> mq_event \<Rightarrow> (kiss_queue \<times> contextual_submitter \<times> 'v) \<times> mq_outcome list" where
  "plain_step sha modem monotonic slp src = (\<lambda>(q, w) ev.
     case ev of
       MqEnqueue frame context now \<Rightarrow>
         (let (r, q, w) = ts_enqueue (lift_clock monotonic) q frame context now w in ((q, w), [MqReceipt r]))
     | MqObserve now raw \<Rightarrow>
         (let (r, q, w) = ts_observe_rssi (plain_lifecycle sha modem monotonic slp) (lift_clock monotonic) q now raw
            (map_option lift_random src) w
          in ((q, w), [MqObservation (map_sum MonitoredQueue id r)])))"

definition tracks :: "(codec_error \<Rightarrow> string) \<Rightarrow> kiss_request \<Rightarrow> tracked_request \<Rightarrow> bool" where
  "tracks exc_text r item \<longleftrightarrow>
     tq_request_id item = kr_request_id (kq_receipt r) \<and> tq_txdelay item = kr_txdelay (kq_receipt r) \<and>
     tq_persist item = kr_persist (kq_receipt r) \<and> tq_slottime item = kr_slottime (kq_receipt r) \<and>
     tq_parameter_generation item = kr_parameter_generation (kq_receipt r) \<and>
     (\<exists>frame. kq_frame_with_fcs r = append_fcs frame \<and> tq_frame item = frame_fields exc_text frame)"

definition in_step :: "(codec_error \<Rightarrow> string) \<Rightarrow> kiss_queue \<Rightarrow> tx_tracker \<Rightarrow> bool" where
  "in_step exc_text q tk \<longleftrightarrow>
     tk_pending tk = kq_ids q \<and> distinct (kq_ids q) \<and> list_all (\<lambda>i. i < kq_next_request_id q) (kq_ids q) \<and>
     list_all (\<lambda>r. \<exists>item. map_of (tk_records tk) (kr_request_id (kq_receipt r)) = Some item \<and> tracks exc_text r item) (kq_queue q)"

abbreviation "kq_entry r \<equiv> (kq_receipt r, kq_frame_with_fcs r)"

text \<open>How an observation ends, for the queue and for what its world carries.\<close>

lemma observe_side:
  assumes "kq_observe_rssi submit q now raw (map_option (\<lambda>s. lift_random (lift_random s)) src) (c, s, v) = (res, q', c', s', v')"
  obtains (quiet) "s' = s" "c' = c" "map kq_entry (kq_queue q') = map kq_entry (kq_queue q)"
      "\<And>ob. res = Inr ob \<Longrightarrow> ko_request_state ob = None \<or> ko_request_state ob = Some KR_ACCESS"
  | (expired) r rest ob where "s' = s" "c' = c" "kq_queue q = r # rest" "kq_queue q' = rest" "res = Inr ob"
      "ko_request_id ob = Some (kr_request_id (kq_receipt r))" "ko_request_state ob = Some KR_TIMED_OUT"
  | (called) r rest v1 x ob where "kq_queue q = r # rest" "kq_queue q' = rest" "res = Inr ob"
      "submit (kq_frame_with_fcs r) (kq_context r) (Some (kq_downstream_timeout_seconds q)) (c, s, v1) = (x, c', s', v')"
      "ko_request_id ob = Some (kr_request_id (kq_receipt r))"
      "ko_request_state ob = Some (if isl x then KR_DOWNSTREAM_FAILED else KR_DISPATCHED)"
proof (cases rule: kq_accept_now_cases [of q now])
  case (err e)
  with assms show thesis by (intro quiet) (auto simp: kq_observe_rssi_def)
next
  case ok
  show thesis
  proof (cases "kq_queue q")
    case Nil
    with assms ok show thesis by (intro quiet) (auto simp: kq_observe_rssi_def)
  next
    case (Cons r rest)
    note def = kq_observe_rssi_def kq_observation_of_def
    show thesis
    proof (cases "kr_deadline_at (kq_receipt r) \<le> now")
      case True
      with assms ok Cons show thesis by (intro expired [of r rest]) (auto simp: def)
    next
      case alive: False
      show thesis
      proof (cases "kq_head_attempt r now")
        case (Inl e)
        with assms ok Cons alive show thesis by (intro quiet) (auto simp: def)
      next
        case (Inr a)
        let ?src = "map_option (\<lambda>s. lift_random (lift_random s)) src"
        obtain x a' w1 where obs: "attempt_observe_rssi a now raw ?src (c, s, v) = (x, a', w1)" by (rule prod_cases3)
        then obtain v1 where w1: "w1 = (c, s, v1)"
          by (cases src) (auto simp: attempt_observe_rssi_def lift_random_def Let_def split: prod.splits sum.splits if_splits)
        show thesis
        proof (cases x)
          case (Inl e)
          with assms ok Cons alive Inr obs w1 show thesis by (intro quiet) (auto simp: def)
        next
          case x: (Inr access)
          note facts = assms ok Cons alive Inr obs x w1
          show thesis
          proof (cases "cd_state (ao_csma access)")
            case TIMED_OUT
            with facts show thesis by (intro expired [of r rest]) (auto simp: def)
          next
            case READY
            obtain y c2 s2 v2 where sub: "submit (kq_frame_with_fcs r) (kq_context r) (Some (kq_downstream_timeout_seconds q)) (c, s, v1) =
                (y, c2, s2, v2)" by (rule prod_cases4)
            with READY facts show thesis
              by (cases y) (auto simp: def intro!: called [of r rest])
          qed (use facts in \<open>auto simp: def intro!: quiet\<close>)+
        qed
      qed
    qed
  qed
qed


text \<open>A half-duplex cycle touches the side state only through its submitter.\<close>

definition carries_side :: "'s \<Rightarrow> 'a \<times> 's \<times> 'v \<Rightarrow> bool" where
  "carries_side s = (\<lambda>(a, s', v). s' = s)"

interpretation side_kept: kept_modem "lift_port (lift_port modem)" "lift_clock (lift_clock monotonic)" "lift_sleep (lift_sleep slp)" "carries_side s"
  for modem :: "'v modem_port" and monotonic slp and s :: 's
  by unfold_locales (auto simp: carries_side_def lift_port_def lift_op_def lift_clock_def lift_sleep_def split: prod.splits)

lemma hd_side:
  assumes "hd_submit_frame (lift_port (lift_port modem)) submit (lift_clock (lift_clock monotonic)) (lift_sleep (lift_sleep slp)) co frame t
      (a, s, v) = Some (res, co', a', s', v')"
  shows "(s' = s \<and> isl res) \<or>
    (\<exists>t a1 v1 x a2 v2. submit frame t (a1, s, v1) = (x, a2, s', v2) \<and> (isl x \<longrightarrow> isl res))"
proof -
  let ?m = "lift_port (lift_port modem)" and ?c = "lift_clock (lift_clock monotonic)" and ?s = "lift_sleep (lift_sleep slp)"
  have cycle: "(s' = s \<and> isl res) \<or> (\<exists>t a1 v1 x a2 v2. submit frame t (a1, s, v1) = (x, a2, s', v2) \<and> (isl x \<longrightarrow> isl res))"
    if cyc: "hd_cycle ?m submit ?c ?s co0 frame t0 (a, s, v) = Some (res, co1, a', s', v')" for co0 co1 t0
  proof -
    obtain r1 co2 w1 where pre: "hd_pre_transmit ?m t0 co0 (a, s, v) = (r1, co2, w1)" by (rule prod_cases3)
    have "carries_side s w1" by (rule side_kept.pre_transmit_kept [OF _ pre]) (simp add: carries_side_def)
    then obtain a1 v1 where w1: "w1 = (a1, s, v1)" by (cases w1) (auto simp: carries_side_def)
    show ?thesis
    proof (cases r1)
      case (Inl e)
      with cyc pre w1 show ?thesis by (auto simp: hd_cycle_def)
    next
      case (Inr u)
      obtain x a2 s2 v2 where sub: "submit frame (Some t0) (a1, s, v1) = (x, a2, s2, v2)" by (rule prod_cases4)
      have "\<exists>r2 co3 co4 w2. hd_restore ?m ?c ?s t0 co3 (a2, s2, v2) = Some (r2, co4, w2) \<and> w2 = (a', s', v') \<and> (isl x \<longrightarrow> isl res)"
        using cyc pre w1 Inr sub by (cases x) (force simp: hd_cycle_def split: option.splits sum.splits prod.splits)+
      then obtain r2 co3 co4 where restore: "hd_restore ?m ?c ?s t0 co3 (a2, s2, v2) = Some (r2, co4, a', s', v')" and "isl x \<longrightarrow> isl res"
        by (elim exE conjE) simp
      have "carries_side s2 (a', s', v')" by (rule side_kept.restore_kept [OF _ restore]) (simp add: carries_side_def)
      then have "s' = s2" by (simp add: carries_side_def)
      with sub \<open>isl x \<longrightarrow> isl res\<close> show ?thesis by blast
    qed
  qed
  show ?thesis
  proof (cases "\<exists>co0 co1 t0. hd_cycle ?m submit ?c ?s co0 frame t0 (a, s, v) = Some (res, co1, a', s', v')")
    case True
    then show ?thesis using cycle by blast
  next
    case False
    with assms show ?thesis by (auto simp: hd_submit_frame_def Let_def split: if_splits option.splits prod.splits)
  qed
qed

interpretation side_lifted: kept_tx_modem "lift_port modem" "lift_clock monotonic" "lift_sleep slp" "\<lambda>(s', v). s' = s"
  for modem :: "'v modem_port" and monotonic slp and s :: 's
  by unfold_locales (auto simp: lift_port_def lift_op_def lift_clock_def lift_sleep_def split: prod.splits)

lemma monitored_adapter_side:
  assumes "monitored_adapter emit sha (lift_port modem) frame t (a, (tk, h), v) = (x, a', s', v')"
  shows "(s' = (tk, h) \<and> isl x) \<or>
    (\<exists>receipt. s' = (tk, emit ''tx.dispatched'' (dict_update (receipt_fields receipt) (request_fields (tracker_current tk))) h) \<and> \<not> isl x)"
proof -
  obtain ctx r where a: "a = (ctx, r)" by (rule prod.exhaust)
  show ?thesis
  proof (cases ctx)
    case (Some profile)
    obtain res r' s2 v2 where out: "router_submit_frame sha (lift_port modem) r frame profile t ((tk, h), v) = (res, r', s2, v2)" by (rule prod_cases4)
    have "s2 = (tk, h)" using side_lifted.router_submit_kept [OF _ out, of "(tk, h)"] by simp
    with assms a Some out show ?thesis
      by (cases res) (auto simp: monitored_adapter_def monitored_router_submit_def)
  qed (use assms a in \<open>auto simp: monitored_adapter_def\<close>)
qed

lemma contextual_side:
  assumes "contextual_over_monitored_router emit sha (lift_port modem) (lift_clock monotonic) (lift_sleep slp) c frame profile t ((tk, h), v) =
    Some (x, c', s', v')"
  shows "(s' = (tk, h) \<and> isl x) \<or>
    (\<exists>receipt. s' = (tk, emit ''tx.dispatched'' (dict_update (receipt_fields receipt) (request_fields (tracker_current tk))) h))"
proof (cases "ch_adapter c = None")
  case True
  with assms obtain co ctx r where hd: "hd_submit_frame (lift_port (lift_port modem)) (monitored_adapter emit sha (lift_port modem))
      (lift_clock (lift_clock monotonic)) (lift_sleep (lift_sleep slp)) (ch_lifecycle c) frame t ((Some profile, ch_router c), (tk, h), v) =
      Some (x, co, (ctx, r), s', v')"
    by (auto simp: contextual_over_monitored_router_def split: option.splits prod.splits)
  from hd_side [OF this] show ?thesis by (blast dest: monitored_adapter_side)
qed (use assms in \<open>auto simp: contextual_over_monitored_router_def\<close>)

text \<open>The events of a handed-over request: the channel is clear, then whether the burst went out and whether the cycle was completed.\<close>

lemma lifecycle_side:
  assumes "monitored_lifecycle emit error_text sha modem monotonic slp frame context t (c, (tk, h), v) = (x, c', (tk', h'), v')"
  defines "item \<equiv> request_fields (tracker_current tk)"
  defines "clear \<equiv> emit ''tx.channel_clear'' item h"
  shows "tk' = tk \<and>
    (isl x \<and> (h' = clear
       \<or> (\<exists>e. h' = emit ''tx.failed'' (dict_update [(''error'', FStr e)] item) clear)
       \<or> (\<exists>e receipt. h' = emit ''tx.failed'' (dict_update [(''error'', FStr e)] item)
             (emit ''tx.dispatched'' (dict_update (receipt_fields receipt) item) clear)))
     \<or> \<not> isl x \<and> (\<exists>receipt. h' = emit ''tx.complete'' item (emit ''tx.dispatched'' (dict_update (receipt_fields receipt) item) clear)))"
proof (cases "contextual_over_monitored_router emit sha (lift_port modem) (lift_clock monotonic) (lift_sleep slp) c frame
    (tc_txdelay_profile context) t ((tk, clear), v)")
  case None
  with assms(1) show ?thesis by (auto simp: monitored_lifecycle_def clear_def item_def)
next
  case (Some out)
  obtain y c2 s2 v2 where out: "out = (y, c2, s2, v2)" by (rule prod_cases4)
  obtain tk2 h2 where s2: "s2 = (tk2, h2)" by (rule prod.exhaust)
  from contextual_side [OF Some [unfolded out]] have side: "(s2 = (tk, clear) \<and> isl y) \<or>
      (\<exists>receipt. s2 = (tk, emit ''tx.dispatched'' (dict_update (receipt_fields receipt) item) clear))"
    by (simp add: item_def)
  from assms(1) Some [unfolded clear_def item_def] out s2 side show ?thesis
    by (cases y) (auto simp: monitored_lifecycle_def clear_def item_def Let_def)
qed


lemma enqueue_in_step:
  assumes sync: "in_step exc_text q tk"
    and step: "monitored_enqueue emit exc_text monotonic q frame context now (c, (tk, h), v) = (r, q', c', (tk', h'), v')"
  shows "in_step exc_text q' tk' \<and> ts_enqueue (lift_clock monotonic) q frame context now (c, v) = (r, q', c', v') \<and>
    (isl r \<and> h' = h \<and> kq_ids q' = kq_ids q \<and> kq_next_request_id q' = kq_next_request_id q \<or>
     (\<exists>item. tq_request_id item = kq_next_request_id q \<and> h' = emit ''tx.queued'' (request_fields (Some item)) h \<and>
        kq_ids q' = kq_ids q @ [kq_next_request_id q] \<and> kq_next_request_id q' = kq_next_request_id q + 1))"
proof -
  obtain t v1 where clock: "monotonic v = (t, v1)" by (rule prod.exhaust)
  obtain r1 q1 where enq: "kq_enqueue q frame context t = (r1, q1)" by (rule prod.exhaust)
  note def = monitored_enqueue_def ts_enqueue_def lift_clock_def clock enq
  from enq show ?thesis
  proof (cases rule: kq_enqueue_cases)
    case (refuse e)
    with step sync show ?thesis by (auto simp: def in_step_def)
  next
    case (admit rq parsed)
    let ?item = "fst (tracker_add exc_text (kq_receipt rq) frame tk)"
    have q': "q' = q1" "r = Inr (kq_receipt rq)" "c' = c" "v' = v1" and tk': "tk' = snd (tracker_add exc_text (kq_receipt rq) frame tk)"
      and h': "h' = emit ''tx.queued'' (request_fields (Some ?item)) h"
      using step admit by (auto simp: def tracker_add_def Let_def)
    have item: "tq_request_id ?item = kq_next_request_id q" "tracks exc_text rq ?item"
      using admit by (auto simp: tracker_add_def Let_def tracks_def)
    have fresh: "kq_next_request_id q \<notin> set (kq_ids q)" using sync by (auto simp: in_step_def list_all_iff)
    have "in_step exc_text q1 tk'"
      using sync admit item fresh unfolding tk' in_step_def
      by (auto simp: tracker_add_def Let_def list_all_iff update_conv')
    with q' h' item admit show ?thesis by (auto simp: def)
  qed
qed

definition observation_told ::
  "'h sink \<Rightarrow> kiss_queue \<Rightarrow> kiss_queue \<Rightarrow> (monitored_error, tx_receipt kq_observation) result \<Rightarrow> 'h \<Rightarrow> 'h \<Rightarrow> bool" where
  "observation_told emit q q' r h h' \<longleftrightarrow>
     h' = h \<and> kq_ids q' = kq_ids q \<and> (\<forall>ob. r = Inr ob \<longrightarrow> ko_request_state ob = None \<or> ko_request_state ob = Some KR_ACCESS) \<or>
     (\<exists>i rest ob item more_fields receipt.
        kq_ids q = i # rest \<and> kq_ids q' = rest \<and> r = Inr ob \<and> ko_request_id ob = Some i \<and> tq_request_id item = i \<and>
        (let details = request_fields (Some item); clear = emit ''tx.channel_clear'' details h;
             sent = emit ''tx.dispatched'' (dict_update (receipt_fields receipt) details) clear
         in ko_request_state ob = Some KR_TIMED_OUT \<and> h' = emit ''tx.timeout'' (dict_update [(''reason'', more_fields)] details) h \<or>
            ko_request_state ob = Some KR_DOWNSTREAM_FAILED \<and>
              (h' = clear \<or> h' = emit ''tx.failed'' (dict_update [(''error'', more_fields)] details) clear \<or>
               h' = emit ''tx.failed'' (dict_update [(''error'', more_fields)] details) sent) \<or>
            ko_request_state ob = Some KR_DISPATCHED \<and> h' = emit ''tx.complete'' details sent))"

lemma head_id_fresh:
  assumes "in_step exc_text q tk" "kq_queue q = r # rest" "x \<in> set rest"
  shows "kr_request_id (kq_receipt x) \<noteq> kr_request_id (kq_receipt r)"
proof -
  from assms(1,2) have "kr_request_id (kq_receipt r) \<notin> set (map (\<lambda>r. kr_request_id (kq_receipt r)) rest)" by (simp add: in_step_def)
  with assms(3) show ?thesis by (metis (no_types, lifting) image_eqI set_map)
qed

lemma same_entries_in_step:
  assumes "in_step exc_text q tk" "map kq_entry (kq_queue q') = map kq_entry (kq_queue q)" "kq_next_request_id q' = kq_next_request_id q"
  shows "in_step exc_text q' tk" "kq_ids q' = kq_ids q"
proof -
  have receipts: "map kq_receipt (kq_queue q') = map kq_receipt (kq_queue q)"
    using arg_cong [OF assms(2), of "map fst"] by (simp add: comp_def)
  show ids: "kq_ids q' = kq_ids q" using arg_cong [OF receipts, of "map kr_request_id"] by (simp add: comp_def)
  let ?known = "\<lambda>e. \<exists>item. map_of (tk_records tk) (kr_request_id (fst e)) = Some item \<and>
    tq_request_id item = kr_request_id (fst e) \<and> tq_txdelay item = kr_txdelay (fst e) \<and>
     tq_persist item = kr_persist (fst e) \<and> tq_slottime item = kr_slottime (fst e) \<and>
     tq_parameter_generation item = kr_parameter_generation (fst e) \<and>
     (\<exists>frame. snd e = append_fcs frame \<and> tq_frame item = frame_fields exc_text frame)"
  have known: "list_all (\<lambda>r. \<exists>item. map_of (tk_records tk) (kr_request_id (kq_receipt r)) = Some item \<and> tracks exc_text r item) rs \<longleftrightarrow>
      list_all ?known (map kq_entry rs)" for rs :: "kiss_request list"
    by (simp add: list_all_iff tracks_def)
  show "in_step exc_text q' tk" using assms(1) unfolding in_step_def known ids assms(2,3) .
qed

lemma finish_in_step:
  assumes "in_step exc_text q tk" "kq_queue q = r # rest" "kq_queue q' = rest" "kq_next_request_id q' = kq_next_request_id q"
  shows "in_step exc_text q' (clear_current (tracker_finish (Some (kr_request_id (kq_receipt r))) tk))"
proof -
  let ?i = "kr_request_id (kq_receipt r)"
  note other = head_id_fresh [OF assms(1,2)]
  then have "list_all (\<lambda>x. \<exists>item. map_of (AList.delete ?i (tk_records tk)) (kr_request_id (kq_receipt x)) = Some item \<and> tracks exc_text x item) rest"
    using assms(1,2) by (simp add: in_step_def list_all_iff delete_conv')
  with assms show ?thesis by (simp add: in_step_def clear_current_def tracker_finish_def)
qed

lemma observe_in_step:
  assumes sync: "in_step exc_text q tk"
    and step: "monitored_observe_rssi emit error_text sha modem monotonic slp q now raw src (c, (tk, h), v) = (r, q', c', (tk', h'), v')"
  shows "in_step exc_text q' tk' \<and> observation_told emit q q' r h h' \<and> kq_next_request_id q' = kq_next_request_id q \<and>
    (\<exists>r0. r = map_sum MonitoredQueue id r0 \<and>
       ts_observe_rssi (plain_lifecycle sha modem monotonic slp) (lift_clock monotonic) q now raw (map_option lift_random src) (c, v) = (r0, q', c', v'))"
proof -
  obtain t v0 where clock: "monotonic v = (t, v0)" by (rule prod.exhaust)
  obtain item tk1 where begun: "begin_observation raw tk = (Inr item, tk1)" "in_step exc_text q tk1"
    "case kq_queue q of [] \<Rightarrow> True | rq # _ \<Rightarrow> (\<exists>it. item = Some it \<and> tracker_current tk1 = item \<and> tq_request_id it = kr_request_id (kq_receipt rq))"
  proof (cases "kq_queue q")
    case Nil
    with sync have "begin_observation raw tk = (Inr None, tk\<lparr>tk_current_id := None\<rparr>)" "in_step exc_text q (tk\<lparr>tk_current_id := None\<rparr>)"
      by (simp_all add: begin_observation_def in_step_def)
    with Nil that show ?thesis by simp
  next
    case (Cons rq rest)
    let ?i = "kr_request_id (kq_receipt rq)"
    obtain old where old: "map_of (tk_records tk) ?i = Some old" "tracks exc_text rq old" and pending: "tk_pending tk = ?i # map (\<lambda>r. kr_request_id (kq_receipt r)) rest"
      using sync Cons by (auto simp: in_step_def)
    let ?new = "old\<lparr>tq_raw_rssi := Some raw\<rparr>"
    let ?tk = "tk\<lparr>tk_records := AList.update ?i ?new (tk_records tk), tk_current_id := Some ?i\<rparr>"
    have "begin_observation raw tk = (Inr (Some ?new), ?tk)" by (simp add: begin_observation_def pending old Let_def)
    moreover have "tracks exc_text rq ?new" using old(2) by (simp add: tracks_def)
    moreover have "in_step exc_text q ?tk"
    proof -
      note other = head_id_fresh [OF sync Cons]
      then have "list_all (\<lambda>x. \<exists>item. map_of (AList.update ?i ?new (tk_records tk)) (kr_request_id (kq_receipt x)) = Some item \<and> tracks exc_text x item) rest"
        using sync Cons by (simp add: in_step_def list_all_iff update_conv')
      with sync Cons \<open>tracks exc_text rq ?new\<close> show ?thesis by (simp add: in_step_def update_conv')
    qed
    moreover have "tracker_current ?tk = Some ?new" by (simp add: tracker_current_def update_conv')
    ultimately show ?thesis using that [of "Some ?new" ?tk] Cons old(2) by (simp add: tracks_def)
  qed
  let ?obs = "kq_observe_rssi (monitored_lifecycle emit error_text sha modem monotonic slp) q t raw
    (map_option (\<lambda>s. lift_random (lift_random s)) src) (c, (tk1, h), v0)"
  obtain res q1 c1 s1 v1 where obs: "?obs = (res, q1, c1, s1, v1)" by (metis prod.exhaust)
  obtain tk2 h2 where s1: "s1 = (tk2, h2)" by (rule prod.exhaust)
  have source: "attempt_observe_rssi a n x (map_option lift_random src) ((\<lambda>(c, s, v). (c, v)) w) =
      apsnd (apsnd (\<lambda>(c, s, v). (c, v))) (attempt_observe_rssi a n x (map_option (\<lambda>s. lift_random (lift_random s)) src) w)"
    for a n x and w :: "contextual_submitter \<times> 'a side \<times> 'b"
  proof (cases src)
    case (Some s0)
    have "lift_random s0 ((\<lambda>(c, s, v). (c, v)) w) = apsnd (\<lambda>(c, s, v). (c, v)) (lift_random (lift_random s0) w)" for w :: "contextual_submitter \<times> 'a side \<times> 'b"
      by (auto simp: lift_random_def split: prod.splits)
    from attempt_projected(1) [of "lift_random s0" "\<lambda>(c, s, v). (c, v)", OF this] Some show ?thesis by simp
  qed (simp add: attempt_projected(2))
  have plain: "kq_observe_rssi (plain_lifecycle sha modem monotonic slp) q t raw (map_option lift_random src) (c, v0) = (res, q1, c1, v1)"
  proof -
    have "plain_lifecycle sha modem monotonic slp f x u ((\<lambda>(c, s, v). (c, v)) w) =
        apsnd (\<lambda>(c, s, v). (c, v)) (monitored_lifecycle emit error_text sha modem monotonic slp f x u w)" for f x u w
      by (cases w) (simp add: lifecycle_transparent [of sha modem monotonic slp f x u _ _ emit error_text])
    from observe_projected [where ?src2.0 = "map_option (\<lambda>s. lift_random (lift_random s)) src" and ?submit1.0 = "plain_lifecycle sha modem monotonic slp"
        and ?submit2.0 = "monitored_lifecycle emit error_text sha modem monotonic slp", OF source this, of q t raw "(c, (tk1, h), v0)"] obs
    show ?thesis by simp
  qed
  note frame = kq_observe_frame [OF obs]
  note def = monitored_observe_rssi_def ts_observe_rssi_def lift_clock_def clock begun(1) obs s1 Let_def
  have outcome: "in_step exc_text q' tk' \<and> observation_told emit q q' r h h' \<and> r = map_sum MonitoredQueue id res \<and> (q', c', v') = (q1, c1, v1)"
    using obs [unfolded s1]
  proof (cases rule: observe_side)
    case quiet
    from same_entries_in_step [OF begun(2) quiet(3) frame(1)] have "in_step exc_text q1 tk1" and ids: "kq_ids q1 = kq_ids q" .
    then have sync1: "in_step exc_text q1 (clear_current tk1)" by (simp add: in_step_def clear_current_def)
    show ?thesis
    proof (cases res)
      case (Inl e)
      with step quiet sync1 ids show ?thesis by (auto simp: def observation_told_def)
    next
      case (Inr ob)
      with quiet(4) have "ko_request_state ob = None \<or> ko_request_state ob = Some KR_ACCESS" by blast
      then have "r = Inr ob \<and> q' = q1 \<and> c' = c1 \<and> tk' = clear_current tk1 \<and> h' = h \<and> v' = v1"
        using step quiet(1,2) Inr by (auto simp: def)
      with sync1 ids \<open>ko_request_state ob = None \<or> _\<close> Inr show ?thesis by (auto simp: observation_told_def)
    qed
  next
    case (expired rq rest ob)
    from finish_in_step [OF begun(2) expired(3,4) frame(1)]
    have sync1: "in_step exc_text q1 (clear_current (tracker_finish (Some (kr_request_id (kq_receipt rq))) tk1))" .
    from begun(3) expired(3) obtain it where it: "item = Some it" "tq_request_id it = kr_request_id (kq_receipt rq)" by auto
    have out: "r = Inr ob \<and> q' = q1 \<and> c' = c1 \<and> tk' = clear_current (tracker_finish (Some (kr_request_id (kq_receipt rq))) tk1) \<and> v' = v1 \<and>
        h' = emit ''tx.timeout'' (dict_update [(''reason'', FStr (reason_text (ko_reason ob)))] (request_fields (Some it))) h"
      using step expired it by (auto simp: def)
    have "observation_told emit q q' r h h'"
      unfolding observation_told_def
      using out expired it
      by (intro disjI2 exI [of _ "kr_request_id (kq_receipt rq)"] exI [of _ "map (\<lambda>r. kr_request_id (kq_receipt r)) rest"] exI [of _ ob] exI [of _ it]
            exI [of _ "FStr (reason_text (ko_reason ob))"]) (simp add: Let_def)
    with out sync1 expired(5) show ?thesis by simp
  next
    case (called rq rest v2 x ob)
    from finish_in_step [OF begun(2) called(1,2) frame(1)]
    have sync1: "in_step exc_text q1 (clear_current (tracker_finish (Some (kr_request_id (kq_receipt rq))) tk1))" .
    from begun(3) called(1) obtain it where it: "item = Some it" "tracker_current tk1 = Some it" "tq_request_id it = kr_request_id (kq_receipt rq)" by auto
    note side = lifecycle_side [OF called(4)]
    have out: "r = Inr ob \<and> q' = q1 \<and> c' = c1 \<and> tk' = clear_current (tracker_finish (Some (kr_request_id (kq_receipt rq))) tk1) \<and> v' = v1 \<and> h' = h2"
      using step called it side by (cases x) (auto simp: def)
    have told: "observation_told emit q q' r h h'"
    proof -
      have told_by: "observation_told emit q q' r h h'"
        if "(let details = request_fields (Some it); clear = emit ''tx.channel_clear'' details h;
             sent = emit ''tx.dispatched'' (dict_update (receipt_fields receipt) details) clear
         in ko_request_state ob = Some KR_DOWNSTREAM_FAILED \<and>
              (h' = clear \<or> h' = emit ''tx.failed'' (dict_update [(''error'', msg)] details) clear \<or>
               h' = emit ''tx.failed'' (dict_update [(''error'', msg)] details) sent) \<or>
            ko_request_state ob = Some KR_DISPATCHED \<and> h' = emit ''tx.complete'' details sent)" for receipt msg
        unfolding observation_told_def
        using that out called(1,2,5) it(3)
        by (intro disjI2 exI [of _ "kr_request_id (kq_receipt rq)"] exI [of _ "map (\<lambda>r. kr_request_id (kq_receipt r)) rest"] exI [of _ ob] exI [of _ it]
              exI [of _ msg] exI [of _ receipt]) (simp add: Let_def)
      let ?d = "request_fields (Some it)"
      let ?clear = "emit ''tx.channel_clear'' ?d h"
      let ?sent = "\<lambda>receipt. emit ''tx.dispatched'' (dict_update (receipt_fields receipt) ?d) ?clear"
      let ?failed = "\<lambda>e. emit ''tx.failed'' (dict_update [(''error'', FStr e)] ?d)"
      show ?thesis
      proof (cases x)
        case (Inl y)
        with side out it(2) have "h' = ?clear \<or> (\<exists>e. h' = ?failed e ?clear) \<or> (\<exists>e receipt. h' = ?failed e (?sent receipt))" by simp
        with Inl called(6) told_by show ?thesis unfolding Let_def by fastforce
      next
        case (Inr y)
        with side out it(2) have "\<exists>receipt. h' = emit ''tx.complete'' ?d (?sent receipt)" by simp
        with Inr called(6) told_by show ?thesis unfolding Let_def by fastforce
      qed
    qed
    with out sync1 called(3) show ?thesis by simp
  qed
  moreover have "ts_observe_rssi (plain_lifecycle sha modem monotonic slp) (lift_clock monotonic) q now raw (map_option lift_random src) (c, v)
      = (res, q1, c1, v1)"
    by (simp add: ts_observe_rssi_def lift_clock_def clock plain)
  ultimately show ?thesis using frame by auto
qed


text \<open>
  C8. The monitor is side-band. For any sequence of enqueued frames and observations, the queue, the
  lifecycle and the router behind the monitor's wrappers do exactly what they do without them: the same receipts, refusals,
  observations and failures come out, in the same order, and the queue, the submitter and the modem end in the same state.
  In particular the tracker always knows the request it is asked about, and never raises.
\<close>

theorem monitoring_is_transparent:
  assumes "kq_init capacity request_timeout downstream_timeout = Inr q"
  shows "run_out (plain_step sha modem monotonic slp src) (q, c, v) evs =
    (case run_out (monitored_step emit exc_text error_text sha modem monotonic slp src) (q, c, (tracker_init, h), v) evs of
       ((q', c', side, v'), outcomes) \<Rightarrow> ((q', c', v'), outcomes))"
proof -
  have "run_out (plain_step sha modem monotonic slp src) (q, c, v) evs =
    (case run_out (monitored_step emit exc_text error_text sha modem monotonic slp src) (q, c, (tk, h), v) evs of
       ((q', c', side, v'), outcomes) \<Rightarrow> ((q', c', v'), outcomes))" if "in_step exc_text q tk" for q c tk h v
    using that
  proof (induction evs arbitrary: q c tk h v)
    case (Cons ev evs)
    show ?case
    proof (cases ev)
      case (MqEnqueue frame ctx now)
      obtain r q1 c1 tk1 h1 v1 where step: "monitored_enqueue emit exc_text monotonic q frame ctx now (c, (tk, h), v) = (r, q1, c1, (tk1, h1), v1)"
        by (metis prod.exhaust)
      from enqueue_in_step [OF Cons.prems step] Cons.IH [of q1 tk1 c1 v1 h1] MqEnqueue step show ?thesis
        by (simp add: plain_step_def monitored_step_def split: prod.splits)
    next
      case (MqObserve now raw)
      obtain r q1 c1 tk1 h1 v1 where step:
        "monitored_observe_rssi emit error_text sha modem monotonic slp q now raw src (c, (tk, h), v) = (r, q1, c1, (tk1, h1), v1)"
        by (metis prod.exhaust)
      from observe_in_step [OF Cons.prems step] obtain r0 where "in_step exc_text q1 tk1" "r = map_sum MonitoredQueue id r0"
        "ts_observe_rssi (plain_lifecycle sha modem monotonic slp) (lift_clock monotonic) q now raw (map_option lift_random src) (c, v) = (r0, q1, c1, v1)"
        by (elim exE conjE)
      with Cons.IH [of q1 tk1 c1 v1 h1] MqObserve step show ?thesis
        by (simp add: plain_step_def monitored_step_def split: prod.splits)
    qed
  qed simp
  moreover have "in_step exc_text q tracker_init" using assms by (auto simp: kq_init_def in_step_def tracker_init_def split: if_splits)
  ultimately show ?thesis .
qed

subsection \<open>What the monitor tells\<close>

text \<open>A sink that keeps the events, and the names of the events of one request.\<close>

definition keep_events :: "(string \<times> fields) list sink" where
  "keep_events name details h = h @ [(name, details)]"

definition life_of :: "int \<Rightarrow> (string \<times> fields) list \<Rightarrow> string list" where
  "life_of i h = map fst (filter (\<lambda>(name, details). map_of details ''request_id'' = Some (FInt i)) h)"

definition lives :: "string list list" where
  "lives =
     [[], [''tx.queued''], [''tx.queued'', ''tx.timeout''], [''tx.queued'', ''tx.channel_clear''], [''tx.queued'', ''tx.channel_clear'', ''tx.failed''],
      [''tx.queued'', ''tx.channel_clear'', ''tx.dispatched'', ''tx.failed''],
      [''tx.queued'', ''tx.channel_clear'', ''tx.dispatched'', ''tx.complete'']]"

definition reported :: "kiss_request_state \<Rightarrow> int \<Rightarrow> mq_outcome list \<Rightarrow> bool" where
  "reported st i outcomes =
     list_ex (\<lambda>x. case x of MqObservation (Inr ob) \<Rightarrow> ko_request_id ob = Some i \<and> ko_request_state ob = Some st | _ \<Rightarrow> False) outcomes"

lemma map_of_dict_update: "map_of (dict_update new old) k = (case map_of (rev new) k of None \<Rightarrow> map_of old k | Some x \<Rightarrow> Some x)"
  by (induction new arbitrary: old) (auto simp: dict_update_def update_conv' map_add_def split: option.splits)

lemma request_fields_id:
  "map_of (request_fields (Some item)) ''request_id'' = Some (FInt (tq_request_id item))"
  by (simp add: request_fields_def Let_def map_of_dict_update split: option.split)

lemma life_of_keep:
  "map_of details ''request_id'' = Some (FInt i) \<Longrightarrow> life_of j (keep_events name details h) = life_of j h @ (if j = i then [name] else [])"
  by (simp add: life_of_def keep_events_def)

text \<open>The state of the story: what is queued, and what has been told and reported of each request.\<close>

definition told_of :: "kiss_queue \<Rightarrow> string list \<Rightarrow> mq_outcome list \<Rightarrow> int \<Rightarrow> bool" where
  "told_of q life outcomes i \<longleftrightarrow>
     life \<in> set lives \<and> (life = [''tx.queued''] \<longleftrightarrow> i \<in> set (kq_ids q)) \<and> (kq_next_request_id q \<le> i \<longrightarrow> life = []) \<and>
     (reported KR_DISPATCHED i outcomes \<longleftrightarrow> ''tx.complete'' \<in> set life) \<and> (reported KR_TIMED_OUT i outcomes \<longleftrightarrow> ''tx.timeout'' \<in> set life) \<and>
     (reported KR_DOWNSTREAM_FAILED i outcomes \<longleftrightarrow> ''tx.channel_clear'' \<in> set life \<and> ''tx.complete'' \<notin> set life)"

definition told :: "kiss_queue \<Rightarrow> (string \<times> fields) list \<Rightarrow> mq_outcome list \<Rightarrow> bool" where
  "told q h outcomes \<longleftrightarrow>
     list_all (\<lambda>(name, details). \<exists>i. map_of details ''request_id'' = Some (FInt i)) h \<and> (\<forall>i. told_of q (life_of i h) outcomes i)"

lemma reported_append: "reported st i (xs @ ys) \<longleftrightarrow> reported st i xs \<or> reported st i ys"
  by (simp add: reported_def)

lemma told_enqueue:
  assumes "told q h outs" "in_step exc_text q tk"
    and "monitored_enqueue keep_events exc_text monotonic q frame context now (c, (tk, h), v) = (r, q', c', (tk', h'), v')"
  shows "told q' h' (outs @ [MqReceipt r])"
proof -
  have none: "\<not> reported st i [MqReceipt r]" for st i by (simp add: reported_def)
  from enqueue_in_step [OF assms(2,3)] consider
    (refuse) "h' = h" "kq_ids q' = kq_ids q" "kq_next_request_id q' = kq_next_request_id q"
  | (admit) item where "tq_request_id item = kq_next_request_id q" "h' = keep_events ''tx.queued'' (request_fields (Some item)) h"
      "kq_ids q' = kq_ids q @ [kq_next_request_id q]" "kq_next_request_id q' = kq_next_request_id q + 1" by blast
  then show ?thesis
  proof cases
    case refuse
    with assms(1) show ?thesis by (simp add: told_def told_of_def reported_append none)
  next
    case admit
    let ?n = "kq_next_request_id q"
    have id: "map_of (request_fields (Some item)) ''request_id'' = Some (FInt ?n)" by (simp add: request_fields_id admit(1))
    have life: "life_of i h' = life_of i h @ (if i = ?n then [''tx.queued''] else [])" for i
      by (simp add: admit(2) life_of_keep [OF id])
    have "list_all (\<lambda>(name, details). \<exists>i. map_of details ''request_id'' = Some (FInt i)) h'"
      using assms(1) id by (simp add: told_def admit(2) keep_events_def)
    moreover have "told_of q' (life_of i h') (outs @ [MqReceipt r]) i" for i
    proof (cases "i = ?n")
      case True
      have "told_of q (life_of ?n h) outs ?n" using assms(1) by (simp add: told_def)
      then show ?thesis by (auto simp: told_of_def life True admit(3,4) reported_append none lives_def)
    next
      case False
      have "told_of q (life_of i h) outs i" using assms(1) by (simp add: told_def)
      with False show ?thesis by (auto simp: told_of_def life admit(3,4) reported_append none)
    qed
    ultimately show ?thesis by (simp add: told_def)
  qed
qed

lemma told_observe:
  assumes tol: "told q h outs" and sync: "in_step exc_text q tk" and "observation_told keep_events q q' r h h'"
    and next_id: "kq_next_request_id q' = kq_next_request_id q"
  shows "told q' h' (outs @ [MqObservation r])"
proof -
  consider (quiet) "h' = h" "kq_ids q' = kq_ids q" "\<And>ob. r = Inr ob \<Longrightarrow> ko_request_state ob = None \<or> ko_request_state ob = Some KR_ACCESS"
  | (step) i rest ob names where "kq_ids q = i # rest" "kq_ids q' = rest" "r = Inr ob" "ko_request_id ob = Some i"
      "\<And>j. life_of j h' = life_of j h @ (if j = i then names else [])"
      "list_all (\<lambda>(name, details). \<exists>i. map_of details ''request_id'' = Some (FInt i)) h'"
      "ko_request_state ob = Some KR_TIMED_OUT \<and> names = [''tx.timeout''] \<or>
       ko_request_state ob = Some KR_DOWNSTREAM_FAILED \<and> names \<in> set [[''tx.channel_clear''], [''tx.channel_clear'', ''tx.failed''],
          [''tx.channel_clear'', ''tx.dispatched'', ''tx.failed'']] \<or>
       ko_request_state ob = Some KR_DISPATCHED \<and> names = [''tx.channel_clear'', ''tx.dispatched'', ''tx.complete'']"
  proof (cases "h' = h \<and> kq_ids q' = kq_ids q \<and> (\<forall>ob. r = Inr ob \<longrightarrow> ko_request_state ob = None \<or> ko_request_state ob = Some KR_ACCESS)")
    case True
    then show ?thesis using quiet by blast
  next
    case False
    let ?d = "\<lambda>it. request_fields (Some it)"
    let ?clear = "\<lambda>it. keep_events ''tx.channel_clear'' (?d it) h"
    let ?sent = "\<lambda>it receipt. keep_events ''tx.dispatched'' (dict_update (receipt_fields receipt) (?d it)) (?clear it)"
    let ?failed = "\<lambda>it msg. keep_events ''tx.failed'' (dict_update [(''error'', msg)] (?d it))"
    obtain i rest ob item msg receipt where 1: "kq_ids q = i # rest" "kq_ids q' = rest" "r = Inr ob" "ko_request_id ob = Some i"
        "tq_request_id item = i"
      and 2: "ko_request_state ob = Some KR_TIMED_OUT \<and> h' = keep_events ''tx.timeout'' (dict_update [(''reason'', msg)] (?d item)) h \<or>
            ko_request_state ob = Some KR_DOWNSTREAM_FAILED \<and>
              (h' = ?clear item \<or> h' = ?failed item msg (?clear item) \<or> h' = ?failed item msg (?sent item receipt)) \<or>
            ko_request_state ob = Some KR_DISPATCHED \<and> h' = keep_events ''tx.complete'' (?d item) (?sent item receipt)"
      using assms(3) [unfolded observation_told_def Let_def]
    proof (rule disjE, goal_cases)
      case 1
      with False show ?case by blast
    next
      case 2
      then show ?case by (elim exE conjE) (rule that)
    qed
    have ids: "map_of (?d item) ''request_id'' = Some (FInt i)" "map_of (dict_update [(''reason'', msg)] (?d item)) ''request_id'' = Some (FInt i)"
      "map_of (dict_update [(''error'', msg)] (?d item)) ''request_id'' = Some (FInt i)"
      "map_of (dict_update (receipt_fields receipt) (?d item)) ''request_id'' = Some (FInt i)"
      by (simp_all add: map_of_dict_update request_fields_id 1(5) receipt_fields_def)
    have all: "list_all (\<lambda>(name, details). \<exists>i. map_of details ''request_id'' = Some (FInt i)) h" using tol by (simp add: told_def)
    note keep = life_of_keep [OF ids(1)] life_of_keep [OF ids(2)] life_of_keep [OF ids(3)] life_of_keep [OF ids(4)]
    show ?thesis
    proof (rule step [OF 1(1-4), of "map fst (drop (length h) h')"])
      show "life_of j h' = life_of j h @ (if j = i then map fst (drop (length h) h') else [])" for j
        using 2 by (elim disjE conjE) (simp_all add: keep, simp_all add: keep_events_def)
      show "list_all (\<lambda>(name, details). \<exists>i. map_of details ''request_id'' = Some (FInt i)) h'"
        using 2 all ids by (elim disjE conjE) (simp_all add: keep_events_def)
      show "ko_request_state ob = Some KR_TIMED_OUT \<and> map fst (drop (length h) h') = [''tx.timeout''] \<or>
       ko_request_state ob = Some KR_DOWNSTREAM_FAILED \<and> map fst (drop (length h) h') \<in> set [[''tx.channel_clear''], [''tx.channel_clear'', ''tx.failed''],
          [''tx.channel_clear'', ''tx.dispatched'', ''tx.failed'']] \<or>
       ko_request_state ob = Some KR_DISPATCHED \<and> map fst (drop (length h) h') = [''tx.channel_clear'', ''tx.dispatched'', ''tx.complete'']"
        using 2 by (elim disjE conjE) (simp_all add: keep_events_def)
    qed
  qed
  then show ?thesis
  proof cases
    case quiet
    have none: "\<not> reported st i [MqObservation r]" if "st \<noteq> KR_ACCESS" for st i
      using quiet(3) that by (cases r) (auto simp: reported_def)
    have "told_of q' (life_of i h') (outs @ [MqObservation r]) i" for i
    proof -
      have "told_of q (life_of i h) outs i" using tol by (simp add: told_def)
      then show ?thesis using quiet next_id by (simp add: told_of_def reported_append none)
    qed
    with tol quiet show ?thesis by (simp add: told_def)
  next
    case step
    have rep: "reported st j [MqObservation r] \<longleftrightarrow> j = i \<and> ko_request_state ob = Some st" for st j
      using step(3,4) by (auto simp: reported_def)
    have "told_of q' (life_of j h') (outs @ [MqObservation r]) j" for j
    proof (cases "j = i")
      case True
      have old: "told_of q (life_of i h) outs i" using tol by (simp add: told_def)
      have "i < kq_next_request_id q" "i \<notin> set rest" using sync step(1) by (auto simp: in_step_def list_all_iff)
      moreover have "life_of i h = [''tx.queued'']" using old step(1) by (simp add: told_of_def)
      ultimately show ?thesis
        using old step(7) unfolding True told_of_def step(2,5) reported_append rep next_id
        by (elim disjE conjE) (auto simp: lives_def)
    next
      case False
      have "told_of q (life_of j h) outs j" using tol by (simp add: told_def)
      with False step(1,2) show ?thesis by (simp add: told_of_def step(5) reported_append rep next_id)
    qed
    with step(6) show ?thesis by (simp add: told_def)
  qed
qed



subsection \<open>Producers that interleave\<close>


subsection \<open>Example\<close>

definition example_submitter :: contextual_submitter where
  "example_submitter = contextual_init (projr (router_init True 1 (1 / 20) (3 / 2))) bench_hd_parameters"

abbreviation "example_monitored emit \<equiv> monitored_step emit (\<lambda>_. ''codec'') (\<lambda>_. ''error'') (\<lambda>_. ''digest'')
   (owner_port product_owner_dispatch script_transport) (lift_clock script_clock) (lift_sleep script_sleep) (Some (lift_random script_random))"

abbreviation "example_tx_events \<equiv> [MqEnqueue example_body example_context 0, MqObserve 0 100, MqObserve 0 100, MqObserve 0 100]"

abbreviation "example_world \<equiv> (example_owner\<lparr>ow_thread := OwnerAlive, ow_accepting := True\<rparr>, cycle_script, 0)"

lemma example_life:
  "case run_out (example_monitored keep_events) (example_queue, example_submitter, (tracker_init, []), example_world) example_tx_events of
     ((q, c, (tk, h), v), outs) \<Rightarrow> life_of 1 h = [''tx.queued'', ''tx.channel_clear'', ''tx.dispatched'', ''tx.complete'']"
  by code_simp


theorem monitoring_is_transparent_witness:
  "snd (run_out (plain_step (\<lambda>_. ''digest'') (owner_port product_owner_dispatch script_transport) (lift_clock script_clock) (lift_sleep script_sleep)
       (Some (lift_random script_random))) (example_queue, example_submitter, example_world) example_tx_events) =
   snd (run_out (example_monitored keep_events) (example_queue, example_submitter, (tracker_init, []), example_world) example_tx_events)"
  by (subst monitoring_is_transparent [OF example_queue_init, where emit = keep_events and exc_text = "\<lambda>_. ''codec''" and error_text = "\<lambda>_. ''error''" and h = "[]"])
     (simp only: case_prod_beta snd_conv)

end
