(* ===== verification/Firmware.thy ===== *)
theory Firmware
  imports Tnc_Config
begin

section \<open>Firmware profiles and artifacts\<close>

text \<open>
  \<open>src/src/ywdtnc/firmware.py\<close>: the profile of the qualified firmware and the verification of the artifact, of the stock backup and
  of what was read back. A parsed JSON document is a value of \<open>json\<close>, with a float given by its decimal text; the parser and the digest are
  parameters, and so is the file system, as the octets of each regular file.
\<close>

subsection \<open>Model: documents\<close>

datatype json = JStr string | JInt int | JFloat decimal | JBool bool | JNull | JObj "(string \<times> json) list" | JList "json list"

type_synonym json_object = "(string \<times> json) list"

datatype json_failure = NotJson | NotUtf8

datatype firmware_error =
    ProfileUnreadable | ProfileNotObject | ProfileField string | UnsupportedSchema | UnexpectedProduct | MissingSafety | UnsafeProfile string
  | InvalidDigest string | ReadbackDigestDiffers | ReadbackSizeDiffers | WrongCorePin | WrongCoreTree | WrongBuildPath | WrongArtifactPath
  | WrongProfileTarget | WrongProfileIdentity | WrongFlashBase | WrongBootloader | WrongDeviceID
  | ArtifactMissing | ArtifactSize | ArtifactDigest
  | BackupIncomplete | BackupTarget | BackupPasses | BackupOptionBytes | BackupFlashWritten | BackupGeometry | BackupImageSize | BackupDigest
  | BackupManifestDigest | BackupMatchUnproved
  | ReadbackMissing | ReadbackSize | ReadbackDigest

text \<open>Beside the module's own error: what \<open>int\<close> and the decoder raise, which no handler expects.\<close>

datatype firmware_exn = ProfileError firmware_error | PyIntError | PyUnicodeError

text \<open>Comparisons of Python across the types: \<open>True == 1 == 1.0\<close>.\<close>

fun json_equals_int :: "int \<Rightarrow> json \<Rightarrow> bool" where
  "json_equals_int n (JInt i) \<longleftrightarrow> i = n"
| "json_equals_int n (JBool b) \<longleftrightarrow> (if b then 1 else 0) = n"
| "json_equals_int n (JFloat (Finite x)) \<longleftrightarrow> x = of_int n"
| "json_equals_int n _ \<longleftrightarrow> False"

definition get_equals_int :: "json_object \<Rightarrow> string \<Rightarrow> int \<Rightarrow> bool" where
  "get_equals_int d key n = (case map_of d key of None \<Rightarrow> False | Some v \<Rightarrow> json_equals_int n v)"

text \<open>\<open>value in (False, None)\<close>.\<close>

definition get_false_or_none :: "json_object \<Rightarrow> string \<Rightarrow> bool" where
  "get_false_or_none d key = (case map_of d key of None \<Rightarrow> True | Some v \<Rightarrow> v = JNull \<or> json_equals_int 0 v)"

definition py_lower_char :: "char \<Rightarrow> char" where
  "py_lower_char c = (if py_isupper c then py_chr (py_ord c + 32) else c)"

definition py_lower :: "string \<Rightarrow> string" where
  "py_lower s = map py_lower_char s"

text \<open>\<open>int(text)\<close>: a sign, and digits that single underscores may part.\<close>

definition py_int_text :: "string \<Rightarrow> int option" where
  "py_int_text s =
     (let t = py_strip s; sign = take 1 t \<in> {''+'', ''-''}; body = (if sign then tl t else t); parts = py_split (CHR ''_'') body in
      if list_all (\<lambda>p. p \<noteq> [] \<and> list_all py_isdigit p) parts
      then Some ((if take 1 t = ''-'' then - 1 else 1) * py_int_of_digits (concat parts)) else None)"

fun py_int_json :: "json \<Rightarrow> int option" where
  "py_int_json (JInt i) = Some i"
| "py_int_json (JBool b) = Some (if b then 1 else 0)"
| "py_int_json (JFloat (Finite x)) = Some (if 0 \<le> x then \<lfloor>x\<rfloor> else \<lceil>x\<rceil>)"
| "py_int_json (JStr s) = py_int_text s"
| "py_int_json _ = None"

text \<open>\<open>str(value)\<close>. The text of a float or of a container has a character that is no hexadecimal digit and is left out.\<close>

fun py_str_json :: "json \<Rightarrow> string option" where
  "py_str_json (JStr s) = Some s"
| "py_str_json (JInt i) = Some (py_str_int i)"
| "py_str_json (JBool b) = Some (if b then ''True'' else ''False'')"
| "py_str_json JNull = Some ''None''"
| "py_str_json _ = None"

subsection \<open>Model: the profile\<close>

definition QUALIFIED_CORE_COMMIT :: string where "QUALIFIED_CORE_COMMIT = ''c28c46c3478d7931af611923c92cd8f692a00858''"
definition QUALIFIED_CORE_TREE :: string where "QUALIFIED_CORE_TREE = ''9c06dea088a30782674404f43d964b8317c128a3''"

record firmware_profile =
  fp_product :: string
  fp_series :: string
  fp_qualified_core_commit :: string
  fp_qualified_core_tree :: string
  fp_target_id :: string
  fp_expected_identity :: string
  fp_vendor_build_script :: string
  fp_artifact_relative_path :: string
  fp_artifact_size_bytes :: int
  fp_artifact_sha256 :: string
  fp_flash_base :: string
  fp_programmed_readback_bytes :: int
  fp_programmed_readback_sha256 :: string
  fp_stock_flash_size_bytes :: int
  fp_stock_flash_sha256 :: string
  fp_expected_bootloader_version :: string
  fp_expected_device_id :: string
  fp_flash_authorization_token :: string
  fp_final_write_confirmation :: string
  fp_state_record :: string

text \<open>The octets of a file, if it is a regular one.\<close>

type_synonym file_system = "string \<Rightarrow> bytes option"

type_synonym json_parser = "bytes \<Rightarrow> (json_failure, json) result"

abbreviation refuse :: "firmware_error \<Rightarrow> (firmware_exn, 'a) result" where
  "refuse e \<equiv> Inl (ProfileError e)"

definition load_json :: "json_parser \<Rightarrow> file_system \<Rightarrow> string \<Rightarrow> (firmware_exn, json_object) result" where
  "load_json parse fs path =
     (case fs path of
        None \<Rightarrow> refuse ProfileUnreadable
      | Some data \<Rightarrow>
          (case parse data of
             Inl NotJson \<Rightarrow> refuse ProfileUnreadable
           | Inl NotUtf8 \<Rightarrow> Inl PyUnicodeError
           | Inr (JObj d) \<Rightarrow> Inr d
           | Inr _ \<Rightarrow> refuse ProfileNotObject))"

definition required_str :: "json_object \<Rightarrow> string \<Rightarrow> (firmware_exn, string) result" where
  "required_str d key = (case map_of d key of Some (JStr s) \<Rightarrow> if s = [] then refuse (ProfileField key) else Inr s | _ \<Rightarrow> refuse (ProfileField key))"

definition required_int :: "json_object \<Rightarrow> string \<Rightarrow> (firmware_exn, int) result" where
  "required_int d key = (case map_of d key of Some (JInt i) \<Rightarrow> if i \<le> 0 then refuse (ProfileField key) else Inr i | _ \<Rightarrow> refuse (ProfileField key))"

definition exact_safety :: "(string \<times> bool) list" where
  "exact_safety =
     [(''automatic_flash_enabled'', False), (''requires_exact_core_pin'', True), (''requires_exact_target'', True),
      (''requires_exact_artifact_hash'', True), (''requires_verified_stock_backup_before_write'', True), (''requires_programmed_readback'', True),
      (''requires_exact_runtime_identity'', True), (''option_bytes_permitted'', False), (''tx_must_remain_disabled_during_flash'', True),
      (''installer_may_flash'', False), (''service_may_auto_flash'', False)]"

fun check_safety :: "json_object \<Rightarrow> (string \<times> bool) list \<Rightarrow> (firmware_exn, unit) result" where
  "check_safety safety [] = Inr ()"
| "check_safety safety ((key, expected) # rest) =
     (if map_of safety key \<noteq> Some (JBool expected) then refuse (UnsafeProfile key) else check_safety safety rest)"

definition sha_text :: "string \<Rightarrow> bool" where
  "sha_text digest \<longleftrightarrow> length digest = 64 \<and> list_all (\<lambda>c. c \<in> set ''0123456789abcdef'') digest"

text \<open>The construction of the profile, once its digests and sizes are known.\<close>

definition profile_fields :: "json_object \<Rightarrow> string \<Rightarrow> string \<Rightarrow> string \<Rightarrow> int \<Rightarrow> int \<Rightarrow> (firmware_exn, firmware_profile) result" where
  "profile_fields d artifact_sha readback_sha stock_sha artifact_size readback_size =
     try_bind (required_str d ''product'') (\<lambda>product.
     try_bind (required_str d ''series'') (\<lambda>series.
     try_bind (required_str d ''qualified_core_commit'') (\<lambda>core_commit.
     try_bind (required_str d ''qualified_core_tree'') (\<lambda>core_tree.
     try_bind (required_str d ''target_id'') (\<lambda>target_id.
     try_bind (required_str d ''expected_identity'') (\<lambda>expected_identity.
     try_bind (required_str d ''vendor_build_script'') (\<lambda>build_script.
     try_bind (required_str d ''artifact_relative_path'') (\<lambda>artifact_path.
     try_bind (required_str d ''flash_base'') (\<lambda>flash_base.
     try_bind (required_int d ''stock_flash_size_bytes'') (\<lambda>stock_size.
     try_bind (required_str d ''expected_bootloader_version'') (\<lambda>bootloader.
     try_bind (required_str d ''expected_device_id'') (\<lambda>device_id.
     try_bind (required_str d ''flash_authorization_token'') (\<lambda>token.
     try_bind (required_str d ''final_write_confirmation'') (\<lambda>confirmation.
     try_bind (required_str d ''state_record'') (\<lambda>state_record.
       Inr \<lparr>fp_product = product, fp_series = series, fp_qualified_core_commit = core_commit, fp_qualified_core_tree = core_tree,
         fp_target_id = target_id, fp_expected_identity = expected_identity, fp_vendor_build_script = build_script,
         fp_artifact_relative_path = artifact_path, fp_artifact_size_bytes = artifact_size, fp_artifact_sha256 = artifact_sha,
         fp_flash_base = flash_base, fp_programmed_readback_bytes = readback_size, fp_programmed_readback_sha256 = readback_sha,
         fp_stock_flash_size_bytes = stock_size, fp_stock_flash_sha256 = stock_sha, fp_expected_bootloader_version = py_lower bootloader,
         fp_expected_device_id = py_lower device_id, fp_flash_authorization_token = token, fp_final_write_confirmation = confirmation,
         fp_state_record = state_record\<rparr>)))))))))))))))"

definition check_profile :: "firmware_profile \<Rightarrow> (firmware_exn, unit) result" where
  "check_profile p =
     (if fp_qualified_core_commit p \<noteq> QUALIFIED_CORE_COMMIT then refuse WrongCorePin
      else if fp_qualified_core_tree p \<noteq> QUALIFIED_CORE_TREE then refuse WrongCoreTree
      else if fp_vendor_build_script p \<noteq> ''firmware/build-qualified-inrepo.py'' then refuse WrongBuildPath
      else if take 31 (fp_artifact_relative_path p) \<noteq> ''firmware/out/0c-p2-rssi-ax25r4-'' then refuse WrongArtifactPath
      else if fp_target_id p \<noteq> PRODUCT_TARGET then refuse WrongProfileTarget
      else if fp_expected_identity p \<noteq> QUALIFIED_FIRMWARE_IDENTITY then refuse WrongProfileIdentity
      else if py_lower (fp_flash_base p) \<noteq> ''0x08000000'' then refuse WrongFlashBase
      else if fp_expected_bootloader_version p \<noteq> ''0x22'' then refuse WrongBootloader
      else if fp_expected_device_id p \<noteq> ''0x0410'' then refuse WrongDeviceID
      else Inr ())"

definition profile_of :: "json_object \<Rightarrow> (firmware_exn, firmware_profile) result" where
  "profile_of d =
     (if \<not> get_equals_int d ''schema'' 1 then refuse UnsupportedSchema
      else if map_of d ''product'' \<noteq> Some (JStr ''YWD-MMDVM-TNC'') \<or> map_of d ''series'' \<noteq> Some (JStr ''AX25R4'') then refuse UnexpectedProduct
      else
        (case map_of d ''safety'' of
           Some (JObj safety) \<Rightarrow>
             try_bind (check_safety safety exact_safety) (\<lambda>_.
             try_bind (required_str d ''artifact_sha256'') (\<lambda>artifact.
             try_bind (required_str d ''programmed_readback_sha256'') (\<lambda>readback.
             try_bind (required_str d ''stock_flash_sha256'') (\<lambda>stock.
               let artifact_sha = py_lower artifact; readback_sha = py_lower readback; stock_sha = py_lower stock in
               if \<not> sha_text artifact_sha then refuse (InvalidDigest ''artifact'')
               else if \<not> sha_text readback_sha then refuse (InvalidDigest ''programmed readback'')
               else if \<not> sha_text stock_sha then refuse (InvalidDigest ''stock'')
               else if artifact_sha \<noteq> readback_sha then refuse ReadbackDigestDiffers
               else
             try_bind (required_int d ''artifact_size_bytes'') (\<lambda>artifact_size.
             try_bind (required_int d ''programmed_readback_bytes'') (\<lambda>readback_size.
               if artifact_size \<noteq> readback_size then refuse ReadbackSizeDiffers
               else
             try_bind (profile_fields d artifact_sha readback_sha stock_sha artifact_size readback_size) (\<lambda>p.
             try_bind (check_profile p) (\<lambda>_. Inr p))))))))
         | _ \<Rightarrow> refuse MissingSafety))"

definition load_profile :: "json_parser \<Rightarrow> file_system \<Rightarrow> string \<Rightarrow> (firmware_exn, firmware_profile) result" where
  "load_profile parse fs path = try_bind (load_json parse fs path) profile_of"

subsection \<open>Model: artifacts, backups and readbacks\<close>

text \<open>\<open>sha256_file\<close> feeds the digest a mebibyte at a time; the digest object stands for the octets it was fed.\<close>

function chunks :: "nat \<Rightarrow> bytes \<Rightarrow> bytes list" where
  "chunks n data = (if data = [] \<or> n = 0 then [] else take n data # chunks n (drop n data))"
  by pat_completeness auto
termination by (relation "measure (\<lambda>(n, data). length data)") auto

declare chunks.simps [simp del]

definition sha256_file :: "(bytes \<Rightarrow> string) \<Rightarrow> bytes \<Rightarrow> string" where
  "sha256_file sha data = sha (fold (\<lambda>chunk h. h @ chunk) (chunks 1048576 data) [])"

definition verify_artifact :: "(bytes \<Rightarrow> string) \<Rightarrow> file_system \<Rightarrow> firmware_profile \<Rightarrow> string \<Rightarrow> (firmware_exn, string) result" where
  "verify_artifact sha fs profile firmware =
     (case fs firmware of
        None \<Rightarrow> refuse ArtifactMissing
      | Some data \<Rightarrow>
          if int (length data) \<noteq> fp_artifact_size_bytes profile then refuse ArtifactSize
          else
            (let digest = sha256_file sha data
             in if digest \<noteq> fp_artifact_sha256 profile then refuse ArtifactDigest else Inr digest))"

text \<open>What the manifest of a backup must say, and then what its image must be.\<close>

definition backup_manifest_checks :: "firmware_profile \<Rightarrow> json_object \<Rightarrow> (firmware_exn, unit) result" where
  "backup_manifest_checks profile meta =
     (if map_of meta ''target_id'' \<noteq> Some (JStr (fp_target_id profile)) then refuse BackupTarget
      else if \<not> get_equals_int meta ''read_passes'' 2 \<or> map_of meta ''two_pass_byte_identical'' \<noteq> Some (JBool True) then refuse BackupPasses
      else if \<not> get_false_or_none meta ''option_bytes_read_or_written'' then refuse BackupOptionBytes
      else if \<not> get_false_or_none meta ''flash_written'' then refuse BackupFlashWritten
      else
        (case py_int_json (case map_of meta ''flash_size_bytes'' of None \<Rightarrow> JInt (- 1) | Some v \<Rightarrow> v) of
           None \<Rightarrow> Inl PyIntError
         | Some flash_size \<Rightarrow> if flash_size \<noteq> fp_stock_flash_size_bytes profile then refuse BackupGeometry else Inr ()))"

definition backup_image_checks :: "(bytes \<Rightarrow> string) \<Rightarrow> firmware_profile \<Rightarrow> json_object \<Rightarrow> bytes \<Rightarrow> (firmware_exn, string) result" where
  "backup_image_checks sha profile meta img =
     (let digest = sha256_file sha img in
      if int (length img) \<noteq> fp_stock_flash_size_bytes profile then refuse BackupImageSize
      else if digest \<noteq> fp_stock_flash_sha256 profile then refuse BackupDigest
      else if map_option py_lower (py_str_json (case map_of meta ''sha256'' of None \<Rightarrow> JStr [] | Some v \<Rightarrow> v)) \<noteq> Some digest
      then refuse BackupManifestDigest
      else if map_of meta ''stock_sha256_match'' \<noteq> None \<and> map_of meta ''stock_sha256_match'' \<noteq> Some (JBool True) then refuse BackupMatchUnproved
      else Inr digest)"

definition verify_stock_backup ::
  "(bytes \<Rightarrow> string) \<Rightarrow> json_parser \<Rightarrow> file_system \<Rightarrow> firmware_profile \<Rightarrow> string \<Rightarrow> (firmware_exn, string) result" where
  "verify_stock_backup sha parse fs profile directory =
     (case (fs (directory @ ''/manifest.json''), fs (directory @ ''/original-flash.bin'')) of
        (Some _, Some img) \<Rightarrow>
          try_bind (load_json parse fs (directory @ ''/manifest.json'')) (\<lambda>meta.
          try_bind (backup_manifest_checks profile meta) (\<lambda>_. backup_image_checks sha profile meta img))
      | _ \<Rightarrow> refuse BackupIncomplete)"

definition verify_programmed_readback ::
  "(bytes \<Rightarrow> string) \<Rightarrow> file_system \<Rightarrow> firmware_profile \<Rightarrow> string \<Rightarrow> (firmware_exn, string) result" where
  "verify_programmed_readback sha fs profile path =
     (case fs path of
        None \<Rightarrow> refuse ReadbackMissing
      | Some data \<Rightarrow>
          if int (length data) \<noteq> fp_programmed_readback_bytes profile then refuse ReadbackSize
          else
            (let digest = sha256_file sha data
             in if digest \<noteq> fp_programmed_readback_sha256 profile then refuse ReadbackDigest else Inr digest))"

subsection \<open>What is verified\<close>

lemma chunks_concat: "0 < n \<Longrightarrow> concat (chunks n data) = data"
proof (induction n data rule: chunks.induct)
  case (1 n data)
  then show ?case by (subst chunks.simps) simp
qed

lemma fold_append: "fold (\<lambda>chunk h. h @ chunk) xs h = h @ concat xs"
  by (induction xs arbitrary: h) simp_all

lemma sha256_file_eq [code]: "sha256_file sha data = sha data"
  by (simp add: sha256_file_def fold_append chunks_concat)

lemma verify_artifact_iff:
  "verify_artifact sha fs p path = Inr digest \<longleftrightarrow>
     (\<exists>data. fs path = Some data \<and> int (length data) = fp_artifact_size_bytes p \<and> sha data = fp_artifact_sha256 p \<and> digest = sha data)"
  by (auto simp: verify_artifact_def sha256_file_eq Let_def split: option.splits)

lemma verify_readback_iff:
  "verify_programmed_readback sha fs p path = Inr digest \<longleftrightarrow>
     (\<exists>data. fs path = Some data \<and> int (length data) = fp_programmed_readback_bytes p \<and> sha data = fp_programmed_readback_sha256 p \<and> digest = sha data)"
  by (auto simp: verify_programmed_readback_def sha256_file_eq Let_def split: option.splits)

lemma verify_backup_image:
  assumes "verify_stock_backup sha parse fs p directory = Inr digest"
  shows "\<exists>img. fs (directory @ ''/original-flash.bin'') = Some img \<and> int (length img) = fp_stock_flash_size_bytes p \<and>
    sha img = fp_stock_flash_sha256 p \<and> digest = sha img"
  using assms
  by (auto simp: verify_stock_backup_def backup_image_checks_def sha256_file_eq Let_def try_bind_Inr_iff split: option.splits if_splits)

text \<open>The safe profiles.\<close>

definition profile_ok :: "firmware_profile \<Rightarrow> bool" where
  "profile_ok p \<longleftrightarrow>
     fp_product p = ''YWD-MMDVM-TNC'' \<and> fp_series p = ''AX25R4'' \<and>
     fp_qualified_core_commit p = QUALIFIED_CORE_COMMIT \<and> fp_qualified_core_tree p = QUALIFIED_CORE_TREE \<and>
     fp_target_id p = PRODUCT_TARGET \<and> fp_expected_identity p = QUALIFIED_FIRMWARE_IDENTITY \<and>
     fp_vendor_build_script p = ''firmware/build-qualified-inrepo.py'' \<and>
     take 31 (fp_artifact_relative_path p) = ''firmware/out/0c-p2-rssi-ax25r4-'' \<and>
     py_lower (fp_flash_base p) = ''0x08000000'' \<and> fp_expected_bootloader_version p = ''0x22'' \<and> fp_expected_device_id p = ''0x0410'' \<and>
     sha_text (fp_artifact_sha256 p) \<and> sha_text (fp_stock_flash_sha256 p) \<and> fp_programmed_readback_sha256 p = fp_artifact_sha256 p \<and>
     0 < fp_artifact_size_bytes p \<and> fp_programmed_readback_bytes p = fp_artifact_size_bytes p \<and> 0 < fp_stock_flash_size_bytes p \<and>
     fp_flash_authorization_token p \<noteq> [] \<and> fp_final_write_confirmation p \<noteq> [] \<and> fp_state_record p \<noteq> []"

lemma required_str_Inr: "required_str d key = Inr s \<longleftrightarrow> map_of d key = Some (JStr s) \<and> s \<noteq> []"
  by (auto simp: required_str_def split: option.splits json.splits)

lemma required_int_Inr: "required_int d key = Inr i \<longleftrightarrow> map_of d key = Some (JInt i) \<and> 0 < i"
  by (auto simp: required_int_def split: option.splits json.splits if_splits)

lemma safety_checked: "check_safety safety expected = Inr () \<longleftrightarrow> list_all (\<lambda>(key, b). map_of safety key = Some (JBool b)) expected"
  by (induction safety expected rule: check_safety.induct) auto

lemma profile_of_ok: "profile_of d = Inr p \<Longrightarrow> profile_ok p"
proof -
  assume "profile_of d = Inr p"
  then obtain sha stock n where fields: "profile_fields d sha sha stock n n = Inr p" "sha_text sha" "sha_text stock" "0 < n"
    and product: "map_of d ''product'' = Some (JStr ''YWD-MMDVM-TNC'')" "map_of d ''series'' = Some (JStr ''AX25R4'')"
    and checked: "check_profile p = Inr ()"
    unfolding profile_of_def Let_def
    by (auto simp: try_bind_Inr_iff required_int_Inr split: if_splits option.splits json.splits)
  from checked have "fp_qualified_core_commit p = QUALIFIED_CORE_COMMIT" "fp_qualified_core_tree p = QUALIFIED_CORE_TREE"
    "fp_vendor_build_script p = ''firmware/build-qualified-inrepo.py''" "take 31 (fp_artifact_relative_path p) = ''firmware/out/0c-p2-rssi-ax25r4-''"
    "fp_target_id p = PRODUCT_TARGET" "fp_expected_identity p = QUALIFIED_FIRMWARE_IDENTITY" "py_lower (fp_flash_base p) = ''0x08000000''"
    "fp_expected_bootloader_version p = ''0x22''" "fp_expected_device_id p = ''0x0410''"
    by (auto simp: check_profile_def split: if_splits)
  moreover from fields product have "fp_product p = ''YWD-MMDVM-TNC''" "fp_series p = ''AX25R4''" "fp_artifact_sha256 p = sha"
    "fp_programmed_readback_sha256 p = sha" "fp_stock_flash_sha256 p = stock" "fp_artifact_size_bytes p = n" "fp_programmed_readback_bytes p = n"
    "0 < fp_stock_flash_size_bytes p" "fp_flash_authorization_token p \<noteq> []" "fp_final_write_confirmation p \<noteq> []" "fp_state_record p \<noteq> []"
    by (auto simp: profile_fields_def try_bind_Inr_iff required_int_Inr required_str_Inr)
  ultimately show "profile_ok p" using fields by (simp add: profile_ok_def)
qed

text \<open>Every safe profile comes from some document.\<close>

definition profile_document :: "firmware_profile \<Rightarrow> json_object" where
  "profile_document p =
     [(''schema'', JInt 1), (''product'', JStr (fp_product p)), (''series'', JStr (fp_series p)),
      (''safety'', JObj (map (\<lambda>(key, b). (key, JBool b)) exact_safety)),
      (''artifact_sha256'', JStr (fp_artifact_sha256 p)), (''programmed_readback_sha256'', JStr (fp_programmed_readback_sha256 p)),
      (''stock_flash_sha256'', JStr (fp_stock_flash_sha256 p)),
      (''artifact_size_bytes'', JInt (fp_artifact_size_bytes p)), (''programmed_readback_bytes'', JInt (fp_programmed_readback_bytes p)),
      (''qualified_core_commit'', JStr (fp_qualified_core_commit p)), (''qualified_core_tree'', JStr (fp_qualified_core_tree p)),
      (''target_id'', JStr (fp_target_id p)), (''expected_identity'', JStr (fp_expected_identity p)),
      (''vendor_build_script'', JStr (fp_vendor_build_script p)), (''artifact_relative_path'', JStr (fp_artifact_relative_path p)),
      (''flash_base'', JStr (fp_flash_base p)), (''stock_flash_size_bytes'', JInt (fp_stock_flash_size_bytes p)),
      (''expected_bootloader_version'', JStr (fp_expected_bootloader_version p)), (''expected_device_id'', JStr (fp_expected_device_id p)),
      (''flash_authorization_token'', JStr (fp_flash_authorization_token p)),
      (''final_write_confirmation'', JStr (fp_final_write_confirmation p)), (''state_record'', JStr (fp_state_record p))]"

lemma py_lower_sha_text: "sha_text s \<Longrightarrow> py_lower s = s"
proof -
  assume "sha_text s"
  then have "\<forall>c \<in> set s. c \<in> set ''0123456789abcdef''" by (simp add: sha_text_def list_all_iff)
  moreover have "\<forall>c \<in> set ''0123456789abcdef''. py_lower_char c = c" by code_simp
  ultimately show "py_lower s = s" unfolding py_lower_def by (intro map_idI) blast
qed

lemma exact_safety_kept: "check_safety (map (\<lambda>(key, b). (key, JBool b)) exact_safety) exact_safety = Inr ()"
  by code_simp

lemma document_strings:
  assumes "profile_ok p"
  shows "required_str (profile_document p) ''product'' = Inr (fp_product p)" "required_str (profile_document p) ''series'' = Inr (fp_series p)"
    "required_str (profile_document p) ''qualified_core_commit'' = Inr (fp_qualified_core_commit p)"
    "required_str (profile_document p) ''qualified_core_tree'' = Inr (fp_qualified_core_tree p)"
    "required_str (profile_document p) ''target_id'' = Inr (fp_target_id p)"
    "required_str (profile_document p) ''expected_identity'' = Inr (fp_expected_identity p)"
    "required_str (profile_document p) ''vendor_build_script'' = Inr (fp_vendor_build_script p)"
    "required_str (profile_document p) ''artifact_relative_path'' = Inr (fp_artifact_relative_path p)"
    "required_str (profile_document p) ''flash_base'' = Inr (fp_flash_base p)"
    "required_int (profile_document p) ''stock_flash_size_bytes'' = Inr (fp_stock_flash_size_bytes p)"
    "required_str (profile_document p) ''expected_bootloader_version'' = Inr (fp_expected_bootloader_version p)"
    "required_str (profile_document p) ''expected_device_id'' = Inr (fp_expected_device_id p)"
    "required_str (profile_document p) ''flash_authorization_token'' = Inr (fp_flash_authorization_token p)"
    "required_str (profile_document p) ''final_write_confirmation'' = Inr (fp_final_write_confirmation p)"
    "required_str (profile_document p) ''state_record'' = Inr (fp_state_record p)"
proof -
  note ok = assms [unfolded profile_ok_def]
  from ok have "fp_artifact_relative_path p \<noteq> []" "fp_flash_base p \<noteq> []" by (auto simp: py_lower_def)
  with ok show "required_str (profile_document p) ''product'' = Inr (fp_product p)" "required_str (profile_document p) ''series'' = Inr (fp_series p)"
    "required_str (profile_document p) ''qualified_core_commit'' = Inr (fp_qualified_core_commit p)"
    "required_str (profile_document p) ''qualified_core_tree'' = Inr (fp_qualified_core_tree p)"
    "required_str (profile_document p) ''target_id'' = Inr (fp_target_id p)"
    "required_str (profile_document p) ''expected_identity'' = Inr (fp_expected_identity p)"
    "required_str (profile_document p) ''vendor_build_script'' = Inr (fp_vendor_build_script p)"
    "required_str (profile_document p) ''artifact_relative_path'' = Inr (fp_artifact_relative_path p)"
    "required_str (profile_document p) ''flash_base'' = Inr (fp_flash_base p)"
    "required_int (profile_document p) ''stock_flash_size_bytes'' = Inr (fp_stock_flash_size_bytes p)"
    "required_str (profile_document p) ''expected_bootloader_version'' = Inr (fp_expected_bootloader_version p)"
    "required_str (profile_document p) ''expected_device_id'' = Inr (fp_expected_device_id p)"
    "required_str (profile_document p) ''flash_authorization_token'' = Inr (fp_flash_authorization_token p)"
    "required_str (profile_document p) ''final_write_confirmation'' = Inr (fp_final_write_confirmation p)"
    "required_str (profile_document p) ''state_record'' = Inr (fp_state_record p)"
    by (simp_all add: required_str_def required_int_def profile_document_def QUALIFIED_CORE_COMMIT_def QUALIFIED_CORE_TREE_def
        PRODUCT_TARGET_def QUALIFIED_FIRMWARE_IDENTITY_def)
qed

lemma bootloader_lower: "py_lower ''0x22'' = ''0x22''" "py_lower ''0x0410'' = ''0x0410''"
  by code_simp+

lemma profile_document_fields:
  assumes "profile_ok p"
  shows "profile_fields (profile_document p) (fp_artifact_sha256 p) (fp_programmed_readback_sha256 p) (fp_stock_flash_sha256 p)
     (fp_artifact_size_bytes p) (fp_programmed_readback_bytes p) = Inr p"
proof -
  from assms have "py_lower (fp_expected_bootloader_version p) = fp_expected_bootloader_version p"
    "py_lower (fp_expected_device_id p) = fp_expected_device_id p" by (simp_all add: profile_ok_def bootloader_lower)
  then show ?thesis by (simp add: profile_fields_def try_bind_def document_strings [OF assms])
qed

lemma profile_ok_checked: "profile_ok p \<Longrightarrow> check_profile p = Inr ()"
  by (simp add: profile_ok_def check_profile_def)

lemma profile_document_accepted: "profile_ok p \<Longrightarrow> profile_of (profile_document p) = Inr p"
proof -
  assume ok: "profile_ok p"
  then have digests: "sha_text (fp_artifact_sha256 p)" "sha_text (fp_stock_flash_sha256 p)" "fp_programmed_readback_sha256 p = fp_artifact_sha256 p"
    "py_lower (fp_artifact_sha256 p) = fp_artifact_sha256 p" "py_lower (fp_stock_flash_sha256 p) = fp_stock_flash_sha256 p"
    and sizes: "0 < fp_artifact_size_bytes p" "fp_programmed_readback_bytes p = fp_artifact_size_bytes p"
    by (simp_all add: profile_ok_def py_lower_sha_text)
  let ?d = "profile_document p"
  have nonempty: "sha_text s \<Longrightarrow> s \<noteq> []" for s by (auto simp: sha_text_def)
  have "required_str ?d ''artifact_sha256'' = Inr (fp_artifact_sha256 p)" "required_str ?d ''programmed_readback_sha256'' = Inr (fp_artifact_sha256 p)"
    "required_str ?d ''stock_flash_sha256'' = Inr (fp_stock_flash_sha256 p)"
    "required_int ?d ''artifact_size_bytes'' = Inr (fp_artifact_size_bytes p)" "required_int ?d ''programmed_readback_bytes'' = Inr (fp_artifact_size_bytes p)"
    using digests sizes by (simp_all add: required_str_Inr required_int_Inr profile_document_def nonempty)
  moreover have "get_equals_int ?d ''schema'' 1" by (simp add: get_equals_int_def profile_document_def)
  moreover from ok have "map_of ?d ''product'' = Some (JStr ''YWD-MMDVM-TNC'')" "map_of ?d ''series'' = Some (JStr ''AX25R4'')"
    "map_of ?d ''safety'' = Some (JObj (map (\<lambda>(key, b). (key, JBool b)) exact_safety))"
    by (simp_all add: profile_document_def profile_ok_def)
  moreover have "profile_fields ?d (fp_artifact_sha256 p) (fp_artifact_sha256 p) (fp_stock_flash_sha256 p)
     (fp_artifact_size_bytes p) (fp_artifact_size_bytes p) = Inr p"
    using profile_document_fields [OF ok] by (simp add: digests sizes)
  ultimately show ?thesis
    by (simp add: profile_of_def try_bind_def exact_safety_kept digests sizes profile_ok_checked [OF ok])
qed


end
