(* ===== verification/Flash_Tool.thy ===== *)
theory Flash_Tool
  imports Firmware
begin

section \<open>The flashing tool\<close>

text \<open>
  \<open>src/firmware/qualified_flash.py\<close>: probe the modem, back its stock firmware up, or write the qualified firmware through the boot ROM. The tool
  acts on a world through an environment: the files, the subprocesses it runs, the terminal and the clock. A subprocess
  is a command, with its argument vector as the source has it. An operation raises or returns, and leaves a world. What it prints is left out.
\<close>

subsection \<open>Model: the environment\<close>

datatype flash_error =
    NotRoot | MissingTool string | ForceOutsideFlash | ProvenanceUnreadable | ProvenanceMismatch | ProvenanceMissing string
  | SupportMissing string | SupportDigest string | TargetsUnreadable | TargetAmbiguous | NoSuchUart | UartOwned
  | ProbeNoJson | ProbeTarget | ProbeUnsafe | ProbeIdentityEmpty | BootloaderMismatch string string
  | NotStockFirmware | ReadsDiffer | StockSizeMismatch | StockDigestMismatch
  | IdentityNotAllowed | NotAuthorized | NoVerifiedBackup | WriteCancelled | PostIdentity string

text \<open>\<open>PyTypeError\<close> stands for \<open>TypeError\<close> and \<open>AttributeError\<close>.\<close>

datatype flash_exn = FlashError flash_error | FirmwareExn firmware_exn | PyOSError | PySubprocessError | PyEOFError | PyTypeError

datatype command =
    IsActive string | StopUnit string | StartUnit string | Fuser string | FuserVerbose string
  | ProbeHat string | BootloaderEntry string | ApplicationRestart string
  | BootloaderInfo string | ReadFlash string string string | WriteFlash string string

text \<open>The argument vectors, given the interpreter and the root of the installation.\<close>

fun command_line :: "string \<Rightarrow> string \<Rightarrow> command \<Rightarrow> string list" where
  "command_line python base (IsActive unit) = [''systemctl'', ''is-active'', ''--quiet'', unit]"
| "command_line python base (StopUnit unit) = [''systemctl'', ''stop'', unit]"
| "command_line python base (StartUnit unit) = [''systemctl'', ''start'', unit]"
| "command_line python base (Fuser device) = [''fuser'', device]"
| "command_line python base (FuserVerbose device) = [''fuser'', ''-v'', device]"
| "command_line python base (ProbeHat device) =
     [python, base @ ''/firmware/probe_hat.py'', ''--device'', device, ''--targets'', base @ ''/firmware/targets.json'',
      ''--no-application-release'', ''--json'']"
| "command_line python base (BootloaderEntry target_id) =
     [python, base @ ''/firmware/hat_control.py'', ''bootloader-entry'', ''--targets'', base @ ''/firmware/targets.json'', ''--target'', target_id]"
| "command_line python base (ApplicationRestart target_id) =
     [python, base @ ''/firmware/hat_control.py'', ''application-restart'', ''--targets'', base @ ''/firmware/targets.json'', ''--target'', target_id]"
| "command_line python base (BootloaderInfo device) = [''stm32flash'', ''-b'', ''115200'', device]"
| "command_line python base (ReadFlash output region device) = [''stm32flash'', ''-b'', ''115200'', ''-r'', output, ''-S'', region, device]"
| "command_line python base (WriteFlash firmware device) = [''stm32flash'', ''-b'', ''115200'', ''-w'', firmware, ''-v'', device]"

datatype process = NotStarted | Undecodable | Ended int string string

text \<open>
  The environment. \<open>fe_run\<close> is given the argument vector. An operation on files answers whether it succeeded, where a failure is an
  \<open>OSError\<close>; \<open>fe_subdirectories\<close> are the directories in a directory, if it is one, with their times of modification; \<open>fe_text\<close> is
  \<open>str\<close> of a float or a container.
\<close>

record 'w flash_env =
  fe_python :: string
  fe_at :: string
  fe_euid :: int
  fe_which :: "string \<Rightarrow> bool"
  fe_sha :: "bytes \<Rightarrow> string"
  fe_parse :: json_parser
  fe_loads :: "string \<Rightarrow> json option"
  fe_dumps :: "json_object \<Rightarrow> bytes"
  fe_text :: "json \<Rightarrow> string"
  fe_files :: "'w \<Rightarrow> file_system"
  fe_exists :: "string \<Rightarrow> 'w \<Rightarrow> bool"
  fe_subdirectories :: "string \<Rightarrow> 'w \<Rightarrow> (string \<times> rat) list option"
  fe_run :: "string list \<Rightarrow> 'w \<Rightarrow> process \<times> 'w"
  fe_input :: "string \<Rightarrow> 'w \<Rightarrow> string option \<times> 'w"
  fe_sleep :: "seconds \<Rightarrow> 'w \<Rightarrow> 'w"
  fe_mkdir :: "bool \<Rightarrow> string \<Rightarrow> 'w \<Rightarrow> bool \<times> 'w"
  fe_chmod :: "int \<Rightarrow> string \<Rightarrow> 'w \<Rightarrow> bool \<times> 'w"
  fe_write :: "string \<Rightarrow> bytes \<Rightarrow> 'w \<Rightarrow> bool \<times> 'w"
  fe_copy :: "string \<Rightarrow> string \<Rightarrow> 'w \<Rightarrow> bool \<times> 'w"
  fe_unlink :: "string \<Rightarrow> 'w \<Rightarrow> bool \<times> 'w"
  fe_mkstemp :: "'w \<Rightarrow> string option \<times> 'w"
  fe_timestamp :: "'w \<Rightarrow> string"
  fe_unix_time :: "'w \<Rightarrow> int"

type_synonym ('w, 'a) flash_op = "('w, flash_exn, 'a) action"

definition fo_return :: "'a \<Rightarrow> ('w, 'a) flash_op" where "fo_return x w = (Inr x, w)"

definition fo_raise :: "flash_exn \<Rightarrow> ('w, 'a) flash_op" where "fo_raise x w = (Inl x, w)"

definition fo_bind :: "('w, 'a) flash_op \<Rightarrow> ('a \<Rightarrow> ('w, 'b) flash_op) \<Rightarrow> ('w, 'b) flash_op" where
  "fo_bind m f w = (case m w of (Inl x, w) \<Rightarrow> (Inl x, w) | (Inr a, w) \<Rightarrow> f a w)"

abbreviation fo_then :: "('w, 'a) flash_op \<Rightarrow> ('w, 'b) flash_op \<Rightarrow> ('w, 'b) flash_op" where
  "fo_then m m' \<equiv> fo_bind m (\<lambda>_. m')"

text \<open>\<open>try: m finally: f\<close>.\<close>

definition fo_finally :: "('w, 'a) flash_op \<Rightarrow> ('w, unit) flash_op \<Rightarrow> ('w, 'a) flash_op" where
  "fo_finally m f w = (case m w of (r, w) \<Rightarrow> (case f w of (Inl x, w) \<Rightarrow> (Inl x, w) | (Inr _, w) \<Rightarrow> (r, w)))"

definition fo_unless :: "bool \<Rightarrow> flash_error \<Rightarrow> ('w, unit) flash_op" where
  "fo_unless ok e = (if ok then fo_return () else fo_raise (FlashError e))"

text \<open>A question to the world, and a verification in the world as it is.\<close>

definition fo_query :: "('w \<Rightarrow> 'a) \<Rightarrow> ('w, 'a) flash_op" where
  "fo_query f w = (Inr (f w), w)"

definition fo_verify :: "('w \<Rightarrow> (firmware_exn, 'a) result) \<Rightarrow> ('w, 'a) flash_op" where
  "fo_verify f w = (map_sum FirmwareExn id (f w), w)"

definition fo_os :: "('w \<Rightarrow> bool \<times> 'w) \<Rightarrow> ('w, unit) flash_op" where
  "fo_os f w = (case f w of (ok, w) \<Rightarrow> (if ok then Inr () else Inl PyOSError, w))"

text \<open>An operation of a world below a local variable.\<close>

definition fo_lift :: "('w, 'a) flash_op \<Rightarrow> ('l \<times> 'w, 'a) flash_op" where
  "fo_lift m = (\<lambda>(l, w). case m w of (r, w) \<Rightarrow> (r, (l, w)))"

definition fo_let :: "'l \<Rightarrow> ('l \<times> 'w, 'a) flash_op \<Rightarrow> ('w, 'a) flash_op" where
  "fo_let l m w = (case m (l, w) of (r, (_, w)) \<Rightarrow> (r, w))"

definition fo_sleep :: "'w flash_env \<Rightarrow> seconds \<Rightarrow> ('w, unit) flash_op" where
  "fo_sleep env seconds w = (Inr (), fe_sleep env seconds w)"

text \<open>A subprocess without and with \<open>check\<close>: the returned code and what was captured.\<close>

definition run_unchecked :: "'w flash_env \<Rightarrow> command \<Rightarrow> ('w, int \<times> string \<times> string) flash_op" where
  "run_unchecked env c w =
     (case fe_run env (command_line (fe_python env) (fe_at env) c) w of
        (NotStarted, w) \<Rightarrow> (Inl PyOSError, w)
      | (Undecodable, w) \<Rightarrow> (Inl (FirmwareExn PyUnicodeError), w)
      | (Ended code out err, w) \<Rightarrow> (Inr (code, out, err), w))"

definition run_checked :: "'w flash_env \<Rightarrow> command \<Rightarrow> ('w, string \<times> string) flash_op" where
  "run_checked env c =
     fo_bind (run_unchecked env c) (\<lambda>(code, out, err). if code = 0 then fo_return (out, err) else fo_raise PySubprocessError)"

definition read_bytes :: "'w flash_env \<Rightarrow> string \<Rightarrow> ('w, bytes) flash_op" where
  "read_bytes env path w = (case fe_files env w path of None \<Rightarrow> (Inl PyOSError, w) | Some data \<Rightarrow> (Inr data, w))"

subsection \<open>Model: documents\<close>

definition json_text :: "'w flash_env \<Rightarrow> json \<Rightarrow> string" where
  "json_text env v = (case py_str_json v of Some s \<Rightarrow> s | None \<Rightarrow> fe_text env v)"

fun json_true :: "json \<Rightarrow> bool" where
  "json_true (JStr s) \<longleftrightarrow> s \<noteq> []"
| "json_true (JInt i) \<longleftrightarrow> i \<noteq> 0"
| "json_true (JFloat (Finite x)) \<longleftrightarrow> x \<noteq> 0"
| "json_true (JFloat _) \<longleftrightarrow> True"
| "json_true (JBool b) \<longleftrightarrow> b"
| "json_true JNull \<longleftrightarrow> False"
| "json_true (JObj d) \<longleftrightarrow> d \<noteq> []"
| "json_true (JList xs) \<longleftrightarrow> xs \<noteq> []"

text \<open>\<open>data.get(key) or other\<close>.\<close>

definition get_or :: "json_object \<Rightarrow> string \<Rightarrow> json \<Rightarrow> json" where
  "get_or d key other = (case map_of d key of Some v \<Rightarrow> if json_true v then v else other | None \<Rightarrow> other)"

text \<open>\<open>text in value\<close>; \<open>None\<close> is a \<open>TypeError\<close>.\<close>

fun json_has :: "string \<Rightarrow> json \<Rightarrow> bool option" where
  "json_has s (JList xs) = Some (JStr s \<in> set xs)"
| "json_has s (JStr t) = Some (sublist s t)"
| "json_has s (JObj d) = Some (s \<in> fst ` set d)"
| "json_has s _ = None"

text \<open>The objects a comprehension visits that calls \<open>get\<close> on every item.\<close>

fun all_objects :: "json list \<Rightarrow> json_object list option" where
  "all_objects [] = Some []"
| "all_objects (JObj d # rest) = map_option ((#) d) (all_objects rest)"
| "all_objects (_ # rest) = None"

fun items_objects :: "json \<Rightarrow> json_object list option" where
  "items_objects (JList xs) = all_objects xs"
| "items_objects (JStr s) = (if s = [] then Some [] else None)"
| "items_objects (JObj d) = (if d = [] then Some [] else None)"
| "items_objects _ = None"

definition get_objects :: "json \<Rightarrow> string \<Rightarrow> ('w, json_object list) flash_op" where
  "get_objects data key =
     (case data of
        JObj d \<Rightarrow>
          (case items_objects (case map_of d key of None \<Rightarrow> JList [] | Some v \<Rightarrow> v) of
             None \<Rightarrow> fo_raise PyTypeError
           | Some items \<Rightarrow> fo_return items)
      | _ \<Rightarrow> fo_raise PyTypeError)"

text \<open>\<open>json.loads(path.read_text(encoding="utf-8"))\<close> with \<open>OSError\<close> and \<open>JSONDecodeError\<close> turned into the given error.\<close>

definition read_document :: "'w flash_env \<Rightarrow> string \<Rightarrow> flash_error \<Rightarrow> ('w, json) flash_op" where
  "read_document env path e w =
     (case fe_files env w path of
        None \<Rightarrow> (Inl (FlashError e), w)
      | Some data \<Rightarrow>
          (case fe_parse env data of
             Inl NotJson \<Rightarrow> (Inl (FlashError e), w)
           | Inl NotUtf8 \<Rightarrow> (Inl (FirmwareExn PyUnicodeError), w)
           | Inr v \<Rightarrow> (Inr v, w)))"

subsection \<open>Model: preconditions\<close>

definition KNOWN_MODEM_UNITS :: "string list" where
  "KNOWN_MODEM_UNITS =
     [''ywd-mmdvm-tnc.service'', ''ywd-1278.service'', ''MMDVMHost.service'', ''mmdvmhost.service'', ''ywd-mmdvmhost.service'',
      ''ywd-hotspot-mmdvmhost.service'']"

definition require_root :: "'w flash_env \<Rightarrow> ('w, unit) flash_op" where
  "require_root env = fo_unless (fe_euid env = 0) NotRoot"

fun require_each :: "'w flash_env \<Rightarrow> string list \<Rightarrow> ('w, unit) flash_op" where
  "require_each env [] = fo_return ()"
| "require_each env (name # rest) = fo_then (fo_unless (fe_which env name) (MissingTool name)) (require_each env rest)"

definition require_tools :: "'w flash_env \<Rightarrow> ('w, unit) flash_op" where
  "require_tools env = require_each env [''python3'', ''stm32flash'', ''pinctrl'', ''fuser'', ''systemctl'']"

text \<open>The last entry with the path counts.\<close>

definition support_entry :: "'w flash_env \<Rightarrow> json_object list \<Rightarrow> string \<Rightarrow> json_object option" where
  "support_entry env items rel =
     map_of (rev (map (\<lambda>d. (json_text env (case map_of d ''path'' of None \<Rightarrow> JNull | Some v \<Rightarrow> v), d)) items)) rel"

fun verify_support :: "'w flash_env \<Rightarrow> json_object list \<Rightarrow> string list \<Rightarrow> ('w, unit) flash_op" where
  "verify_support env items [] w = (Inr (), w)"
| "verify_support env items (rel # rest) w =
     (case support_entry env items rel of
        None \<Rightarrow> (Inl (FlashError (ProvenanceMissing rel)), w)
      | Some entry \<Rightarrow>
          (case fe_files env w (fe_at env @ ''/'' @ rel) of
             None \<Rightarrow> (Inl (FlashError (SupportMissing rel)), w)
           | Some data \<Rightarrow>
               if map_of entry ''sha256'' \<noteq> Some (JStr (fe_sha env data)) then (Inl (FlashError (SupportDigest rel)), w)
               else verify_support env items rest w))"

definition support_files :: "string list" where
  "support_files = [''firmware/hat_control.py'', ''firmware/probe_hat.py'', ''firmware/targets.json'']"

definition verify_core_pin :: "'w flash_env \<Rightarrow> string \<Rightarrow> ('w, unit) flash_op" where
  "verify_core_pin env expected =
     fo_bind (read_document env (fe_at env @ ''/qualification/fwm3-runtime-vendor-manifest.json'') ProvenanceUnreadable) (\<lambda>data.
       (case data of
          JObj d \<Rightarrow>
            fo_then (fo_unless (json_text env (get_or d ''source_commit'' (JStr [])) = expected) ProvenanceMismatch)
            (fo_bind (get_objects data ''support_files'') (\<lambda>items. verify_support env items support_files))
        | _ \<Rightarrow> fo_raise PyTypeError))"

definition load_target :: "'w flash_env \<Rightarrow> string \<Rightarrow> ('w, json_object) flash_op" where
  "load_target env target_id =
     fo_bind (read_document env (fe_at env @ ''/firmware/targets.json'') TargetsUnreadable) (\<lambda>data.
     fo_bind (get_objects data ''targets'') (\<lambda>items.
       (case filter (\<lambda>d. map_of d ''id'' = Some (JStr target_id)) items of
          [item] \<Rightarrow> fo_return item
        | _ \<Rightarrow> fo_raise (FlashError TargetAmbiguous))))"

subsection \<open>Model: the owners of the modem\<close>

definition uart_busy :: "'w flash_env \<Rightarrow> string \<Rightarrow> ('w, bool) flash_op" where
  "uart_busy env device = fo_bind (run_unchecked env (Fuser device)) (\<lambda>(code, _). fo_return (code = 0))"

text \<open>The local list of the units that were active and are stopped.\<close>

fun stop_units :: "'w flash_env \<Rightarrow> string list \<Rightarrow> (string list \<times> 'w, unit) flash_op" where
  "stop_units env [] = fo_return ()"
| "stop_units env (unit # rest) =
     fo_bind (fo_lift (run_unchecked env (IsActive unit))) (\<lambda>(code, _).
     fo_then
       (if code = 0
        then fo_then (\<lambda>(active, w). (Inr (), active @ [unit], w)) (fo_then (fo_lift (run_unchecked env (StopUnit unit))) (fo_return ()))
        else fo_return ())
       (stop_units env rest))"

fun start_units :: "'w flash_env \<Rightarrow> string list \<Rightarrow> ('w, unit) flash_op" where
  "start_units env [] = fo_return ()"
| "start_units env (unit # rest) = fo_then (run_unchecked env (StartUnit unit)) (start_units env rest)"

definition stopped_known_modem_owners :: "'w flash_env \<Rightarrow> string \<Rightarrow> bool \<Rightarrow> ('w, 'a) flash_op \<Rightarrow> ('w, 'a) flash_op" where
  "stopped_known_modem_owners env device restore body =
     fo_let []
       (fo_finally
          (fo_then (stop_units env KNOWN_MODEM_UNITS)
          (fo_then (fo_lift (fo_sleep env (1 / 4)))
          (fo_bind (fo_lift (uart_busy env device)) (\<lambda>busy.
             if busy then fo_then (fo_lift (run_unchecked env (FuserVerbose device))) (fo_raise (FlashError UartOwned))
             else fo_lift body))))
          (\<lambda>(active, w). fo_lift (if restore then start_units env active else fo_return ()) (active, w)))"

subsection \<open>Model: identities\<close>

text \<open>What the probe must have printed.\<close>

definition reported_identity :: "'w flash_env \<Rightarrow> string \<Rightarrow> string \<Rightarrow> (flash_exn, string) result" where
  "reported_identity env target_id out =
     (case fe_loads env out of
        None \<Rightarrow> Inl (FlashError ProbeNoJson)
      | Some (JObj res) \<Rightarrow>
          if map_of res ''matched_target_ids'' \<noteq> Some (JList [JStr target_id]) then Inl (FlashError ProbeTarget)
          else if map_of res ''rf_configured'' \<noteq> Some (JBool False) \<or> map_of res ''flash_written'' \<noteq> Some (JBool False)
          then Inl (FlashError ProbeUnsafe)
          else
            (case map_of res ''identity'' of
               Some (JStr identity) \<Rightarrow> if identity = [] then Inl (FlashError ProbeIdentityEmpty) else Inr identity
             | _ \<Rightarrow> Inl (FlashError ProbeIdentityEmpty))
      | Some _ \<Rightarrow> Inl PyTypeError)"

definition probe_identity :: "'w flash_env \<Rightarrow> string \<Rightarrow> string \<Rightarrow> ('w, string) flash_op" where
  "probe_identity env device target_id = fo_bind (run_checked env (ProbeHat device)) (\<lambda>(out, _) w. (reported_identity env target_id out, w))"

definition stock_identity :: "json_object \<Rightarrow> string \<Rightarrow> ('w, bool) flash_op" where
  "stock_identity target identity =
     (case json_has identity (get_or target ''stock_identities'' (JList [])) of None \<Rightarrow> fo_raise PyTypeError | Some b \<Rightarrow> fo_return b)"

definition accepted_identity :: "'w flash_env \<Rightarrow> json_object \<Rightarrow> string \<Rightarrow> ('w, bool) flash_op" where
  "accepted_identity env target identity =
     (let pre = json_text env (get_or target ''ywd1278_identity_prefix'' (JStr [])) in
      case json_has identity (get_or target ''accepted_running_identities'' (JList [])) of
        None \<Rightarrow> fo_raise PyTypeError
      | Some b \<Rightarrow> fo_return (b \<or> pre \<noteq> [] \<and> prefix pre identity))"

subsection \<open>Model: the boot ROM\<close>

definition py_isxdigit :: "char \<Rightarrow> bool" where
  "py_isxdigit c \<longleftrightarrow> c \<in> set ''0123456789abcdefABCDEF''"

text \<open>The match of \<open>label\s*:\s*(0x[0-9A-Fa-f]+)\<close> at the start of a text, and the first one anywhere.\<close>

definition label_here :: "string \<Rightarrow> string \<Rightarrow> string option" where
  "label_here label s =
     (if prefix label s
      then
        (case dropWhile py_isspace (drop (length label) s) of
           c # rest \<Rightarrow>
             (let value = dropWhile py_isspace rest; digits = takeWhile py_isxdigit (drop 2 value)
              in if c = CHR '':'' \<and> take 2 value = ''0x'' \<and> digits \<noteq> [] then Some (''0x'' @ digits) else None)
         | [] \<Rightarrow> None)
      else None)"

fun label_search :: "string \<Rightarrow> string \<Rightarrow> string option" where
  "label_search label [] = label_here label []"
| "label_search label (c # s) = (case label_here label (c # s) of Some v \<Rightarrow> Some v | None \<Rightarrow> label_search label s)"

definition grab :: "string \<Rightarrow> string \<Rightarrow> string" where
  "grab label output = (case label_search label output of Some v \<Rightarrow> py_lower v | None \<Rightarrow> [])"

text \<open>The object's state is its flag \<open>active\<close>.\<close>

definition bootloader_enter :: "'w flash_env \<Rightarrow> firmware_profile \<Rightarrow> string \<Rightarrow> (bool \<times> 'w, unit) flash_op" where
  "bootloader_enter env profile device =
     fo_then (fo_lift (run_checked env (BootloaderEntry (fp_target_id profile))))
     (fo_then (\<lambda>(_, w). (Inr (), True, w))
     (fo_then (fo_lift (fo_sleep env (1 / 2)))
     (fo_bind (fo_lift (run_checked env (BootloaderInfo device))) (\<lambda>(out, err).
        let version = grab ''Version'' (out @ err); device_id = grab ''Device ID'' (out @ err)
        in fo_unless (version = py_lower (fp_expected_bootloader_version profile) \<and> device_id = py_lower (fp_expected_device_id profile))
             (BootloaderMismatch version device_id)))))"

definition restart_application :: "'w flash_env \<Rightarrow> firmware_profile \<Rightarrow> (bool \<times> 'w, unit) flash_op" where
  "restart_application env profile = (\<lambda>(active, w).
     if \<not> active then (Inr (), active, w)
     else
       fo_then (fo_lift (run_checked env (ApplicationRestart (fp_target_id profile))))
       (fo_then (\<lambda>(_, w). (Inr (), False, w)) (fo_lift (fo_sleep env (3 / 2)))) (active, w))"

definition bootloader_cleanup :: "'w flash_env \<Rightarrow> firmware_profile \<Rightarrow> (bool \<times> 'w, unit) flash_op" where
  "bootloader_cleanup env profile = (\<lambda>(active, w).
     if \<not> active then (Inr (), active, w)
     else
       fo_then (fo_lift (run_unchecked env (ApplicationRestart (fp_target_id profile))))
       (fo_then (\<lambda>(_, w). (Inr (), False, w)) (fo_lift (fo_sleep env (1 / 2)))) (active, w))"

subsection \<open>Model: backups and readbacks\<close>

definition BACKUP_ROOT :: string where "BACKUP_ROOT = ''/var/lib/ywd-mmdvm-tnc/firmware-backups''"
definition LEGACY_BACKUP_ROOT :: string where "LEGACY_BACKUP_ROOT = ''/var/lib/ywd-1278/firmware-backups''"

definition flash_region :: "firmware_profile \<Rightarrow> int \<Rightarrow> string" where
  "flash_region profile n = fp_flash_base profile @ '':'' @ py_str_int n"

definition read_flash_file :: "'w flash_env \<Rightarrow> firmware_profile \<Rightarrow> int \<Rightarrow> string \<Rightarrow> string \<Rightarrow> ('w, unit) flash_op" where
  "read_flash_file env profile n device path =
     fo_then (run_checked env (ReadFlash path (flash_region profile n) device)) (fo_os (fe_chmod env 384 path))"

definition backup_document :: "firmware_profile \<Rightarrow> string \<Rightarrow> string \<Rightarrow> string \<Rightarrow> int \<Rightarrow> json_object" where
  "backup_document profile identity device digest unix_time =
     [(''schema'', JInt 2), (''product'', JStr ''YWD-MMDVM-TNC''), (''target_id'', JStr (fp_target_id profile)),
      (''captured_identity'', JStr identity), (''device'', JStr device), (''flash_base'', JStr (fp_flash_base profile)),
      (''flash_size_bytes'', JInt (fp_stock_flash_size_bytes profile)), (''sha256'', JStr digest), (''read_passes'', JInt 2),
      (''two_pass_byte_identical'', JBool True), (''stock_sha256_expected'', JStr (fp_stock_flash_sha256 profile)),
      (''stock_sha256_match'', JBool True), (''expected_bootloader_version'', JStr (fp_expected_bootloader_version profile)),
      (''expected_device_id'', JStr (fp_expected_device_id profile)), (''captured_unix'', JInt unix_time),
      (''option_bytes_read_or_written'', JBool False), (''flash_written'', JBool False)]"

text \<open>What happens in the boot ROM: two reads, their comparison, and the image with its manifest.\<close>

definition capture_stock :: "'w flash_env \<Rightarrow> firmware_profile \<Rightarrow> string \<Rightarrow> string \<Rightarrow> string \<Rightarrow> ('w, unit) flash_op" where
  "capture_stock env profile device identity directory =
     (let a = directory @ ''/read-a.bin''; b = directory @ ''/read-b.bin''; original = directory @ ''/original-flash.bin'';
          manifest = directory @ ''/manifest.json'' in
      fo_then (read_flash_file env profile (fp_stock_flash_size_bytes profile) device a)
      (fo_then (read_flash_file env profile (fp_stock_flash_size_bytes profile) device b)
      (fo_bind (read_bytes env a) (\<lambda>first.
       fo_bind (read_bytes env b) (\<lambda>second.
       fo_then (fo_unless (first = second) ReadsDiffer)
      (fo_then (fo_unless (int (length first) = fp_stock_flash_size_bytes profile) StockSizeMismatch)
      (fo_then (fo_unless (sha256_file (fe_sha env) first = fp_stock_flash_sha256 profile) StockDigestMismatch)
      (fo_then (fo_os (fe_copy env a original))
      (fo_then (fo_os (fe_chmod env 384 original))
      (fo_bind (fo_query (fe_unix_time env)) (\<lambda>now.
       fo_then
        (fo_os (fe_write env manifest
           (fe_dumps env (backup_document profile identity device (sha256_file (fe_sha env) first) now))))
        (fo_os (fe_chmod env 384 manifest)))))))))))))"

definition make_stock_backup :: "'w flash_env \<Rightarrow> firmware_profile \<Rightarrow> json_object \<Rightarrow> string \<Rightarrow> string \<Rightarrow> ('w, string) flash_op" where
  "make_stock_backup env profile target device identity =
     fo_bind (stock_identity target identity) (\<lambda>stock.
     fo_then (fo_unless stock NotStockFirmware)
    (fo_bind (fo_query (fe_timestamp env)) (\<lambda>timestamp.
       let directory = BACKUP_ROOT @ ''/'' @ fp_target_id profile @ ''/'' @ timestamp in
        fo_then (fo_os (fe_mkdir env False directory))
       (fo_then (fo_os (fe_chmod env 448 directory))
       (fo_then
          (fo_let False
             (fo_finally
                (fo_then (bootloader_enter env profile device) (fo_lift (capture_stock env profile device identity directory)))
                (bootloader_cleanup env profile)))
       (fo_then (fo_os (fe_unlink env (directory @ ''/read-a.bin'')))
       (fo_then (fo_os (fe_unlink env (directory @ ''/read-b.bin'')))
       (fo_then (fo_verify (\<lambda>w. verify_stock_backup (fe_sha env) (fe_parse env) (fe_files env w) profile directory))
          (fo_return directory)))))))))"

text \<open>The candidates of both roots, the latest first.\<close>

definition backup_candidates :: "'w flash_env \<Rightarrow> firmware_profile \<Rightarrow> 'w \<Rightarrow> string list" where
  "backup_candidates env profile w =
     map fst (sort_key (\<lambda>(_, mtime). - mtime)
       (concat (map (\<lambda>base. case fe_subdirectories env (base @ ''/'' @ fp_target_id profile) w of None \<Rightarrow> [] | Some ds \<Rightarrow> ds)
          [BACKUP_ROOT, LEGACY_BACKUP_ROOT])))"

fun first_verified :: "'w flash_env \<Rightarrow> firmware_profile \<Rightarrow> string list \<Rightarrow> ('w, string option) flash_op" where
  "first_verified env profile [] w = (Inr None, w)"
| "first_verified env profile (candidate # rest) w =
     (case verify_stock_backup (fe_sha env) (fe_parse env) (fe_files env w) profile candidate of
        Inl (ProfileError _) \<Rightarrow> first_verified env profile rest w
      | Inl x \<Rightarrow> (Inl (FirmwareExn x), w)
      | Inr _ \<Rightarrow> (Inr (Some candidate), w))"

definition find_verified_stock_backup :: "'w flash_env \<Rightarrow> firmware_profile \<Rightarrow> ('w, string option) flash_op" where
  "find_verified_stock_backup env profile = fo_bind (fo_query (backup_candidates env profile)) (first_verified env profile)"

definition readback_product :: "'w flash_env \<Rightarrow> firmware_profile \<Rightarrow> string \<Rightarrow> string \<Rightarrow> ('w, string) flash_op" where
  "readback_product env profile device out_path =
     fo_then (read_flash_file env profile (fp_programmed_readback_bytes profile) device out_path)
       (fo_verify (\<lambda>w. verify_programmed_readback (fe_sha env) (fe_files env w) profile out_path))"

definition ready_document :: "firmware_profile \<Rightarrow> string \<Rightarrow> string option \<Rightarrow> bool \<Rightarrow> int \<Rightarrow> json_object" where
  "ready_document profile identity backup_dir flash_written unix_time =
     [(''schema'', JInt 1), (''product'', JStr ''YWD-MMDVM-TNC''), (''series'', JStr ''AX25R4''), (''status'', JStr ''FIRMWARE-READY''),
      (''target_id'', JStr (fp_target_id profile)), (''artifact_sha256'', JStr (fp_artifact_sha256 profile)),
      (''programmed_readback_sha256'', JStr (fp_programmed_readback_sha256 profile)), (''runtime_identity'', JStr identity),
      (''stock_backup_dir'', JStr (case backup_dir of None \<Rightarrow> [] | Some directory \<Rightarrow> directory)),
      (''stock_backup_verified'', JBool (backup_dir \<noteq> None)), (''flash_written_this_run'', JBool flash_written),
      (''tx_enabled_during_flash'', JBool False), (''automatic_flash_enabled'', JBool False), (''option_bytes_written'', JBool False),
      (''service_enabled_by_firmware_tool'', JBool False), (''created_unix'', JInt unix_time)]"

text \<open>\<open>out.parent\<close> of a path without superfluous slashes.\<close>

definition parent_path :: "string \<Rightarrow> string" where
  "parent_path path =
     (let above = dropWhile (\<lambda>c. c \<noteq> CHR ''/'') (rev path)
      in if above = [] then ''.'' else if tl above = [] then ''/'' else rev (tl above))"

definition write_ready_record :: "'w flash_env \<Rightarrow> firmware_profile \<Rightarrow> string \<Rightarrow> string option \<Rightarrow> bool \<Rightarrow> ('w, unit) flash_op" where
  "write_ready_record env profile identity backup_dir flash_written =
     fo_then (fo_os (fe_mkdir env True (parent_path (fp_state_record profile))))
    (fo_bind (fo_query (fe_unix_time env)) (\<lambda>now.
     fo_then (fo_os (fe_write env (fp_state_record profile)
         (fe_dumps env (ready_document profile identity backup_dir flash_written now))))
       (fo_os (fe_chmod env 384 (fp_state_record profile)))))"

subsection \<open>Model: the tool\<close>

datatype flash_mode = ModeProbe | ModeBackup | ModeFlash

record flash_args =
  fa_mode :: flash_mode
  fa_device :: string
  fa_firmware :: string
  fa_stock_backup_dir :: string
  fa_authorize :: string
  fa_force_reflash :: bool

definition flash_setup :: "'w flash_env \<Rightarrow> flash_args \<Rightarrow> ('w, firmware_profile \<times> json_object) flash_op" where
  "flash_setup env args =
     fo_then (require_root env)
    (fo_then (require_tools env)
    (fo_then (fo_unless (fa_force_reflash args \<longrightarrow> fa_mode args = ModeFlash) ForceOutsideFlash)
    (fo_bind (fo_verify (\<lambda>w. load_profile (fe_parse env) (fe_files env w) (fe_at env @ ''/firmware/product-ax25r4.json''))) (\<lambda>profile.
     fo_then (verify_core_pin env (fp_qualified_core_commit profile))
    (fo_bind (load_target env (fp_target_id profile)) (\<lambda>target.
     fo_bind (fo_query (fe_exists env (fa_device args))) (\<lambda>present.
     fo_then (fo_unless present NoSuchUart) (fo_return (profile, target)))))))))"

definition firmware_path :: "'w flash_env \<Rightarrow> flash_args \<Rightarrow> firmware_profile \<Rightarrow> string" where
  "firmware_path env args profile =
     (if fa_firmware args \<noteq> [] then fa_firmware args else fe_at env @ ''/'' @ fp_artifact_relative_path profile)"

definition select_backup :: "'w flash_env \<Rightarrow> flash_args \<Rightarrow> firmware_profile \<Rightarrow> json_object \<Rightarrow> string \<Rightarrow> ('w, string option) flash_op" where
  "select_backup env args profile target identity =
     (if fa_stock_backup_dir args \<noteq> [] then
        fo_then (fo_verify (\<lambda>w. verify_stock_backup (fe_sha env) (fe_parse env) (fe_files env w) profile (fa_stock_backup_dir args)))
          (fo_return (Some (fa_stock_backup_dir args)))
      else
        fo_bind (stock_identity target identity) (\<lambda>stock.
          if stock then fo_bind (make_stock_backup env profile target (fa_device args) identity) (\<lambda>directory. fo_return (Some directory))
          else find_verified_stock_backup env profile))"

definition ask_confirmation :: "'w flash_env \<Rightarrow> firmware_profile \<Rightarrow> ('w, unit) flash_op" where
  "ask_confirmation env profile w =
     (case fe_input env (''Type '' @ fp_final_write_confirmation profile @ '' to write the exact qualified image: '') w of
        (None, w) \<Rightarrow> (Inl PyEOFError, w)
      | (Some response, w) \<Rightarrow> fo_unless (py_strip response = fp_final_write_confirmation profile) WriteCancelled w)"

definition make_temporary :: "'w flash_env \<Rightarrow> ('w, string) flash_op" where
  "make_temporary env w = (case fe_mkstemp env w of (None, w) \<Rightarrow> (Inl PyOSError, w) | (Some path, w) \<Rightarrow> (Inr path, w))"

text \<open>Under the \<open>try\<close>: what is done to the main flash; the result is \<open>flash_written\<close>.\<close>

definition verify_or_write ::
  "'w flash_env \<Rightarrow> flash_args \<Rightarrow> firmware_profile \<Rightarrow> string option \<Rightarrow> string \<Rightarrow> string \<Rightarrow> (bool \<times> 'w, bool) flash_op" where
  "verify_or_write env args profile backup_dir identity readback_path =
     (if identity = fp_expected_identity profile \<and> \<not> fa_force_reflash args then
        fo_then (bootloader_enter env profile (fa_device args))
       (fo_then (fo_lift (readback_product env profile (fa_device args) readback_path))
       (fo_then (restart_application env profile) (fo_return False)))
      else
        (case backup_dir of
           None \<Rightarrow> fo_raise (FlashError NoVerifiedBackup)
         | Some directory \<Rightarrow>
             fo_then (fo_lift (fo_verify (\<lambda>w. verify_stock_backup (fe_sha env) (fe_parse env) (fe_files env w) profile directory)))
            (fo_then (fo_lift (ask_confirmation env profile))
            (fo_then (bootloader_enter env profile (fa_device args))
            (fo_then (fo_lift (run_checked env (WriteFlash (firmware_path env args profile) (fa_device args))))
            (fo_then (fo_lift (readback_product env profile (fa_device args) readback_path))
            (fo_then (restart_application env profile) (fo_return True))))))))"

definition flash_deploy :: "'w flash_env \<Rightarrow> flash_args \<Rightarrow> firmware_profile \<Rightarrow> json_object \<Rightarrow> string \<Rightarrow> ('w, unit) flash_op" where
  "flash_deploy env args profile target identity =
     fo_then (fo_unless (fa_authorize args = fp_flash_authorization_token profile) NotAuthorized)
    (fo_then (fo_verify (\<lambda>w. verify_artifact (fe_sha env) (fe_files env w) profile (firmware_path env args profile)))
    (fo_bind (select_backup env args profile target identity) (\<lambda>backup_dir.
     fo_bind (make_temporary env) (\<lambda>readback_path.
     fo_bind
       (fo_let False
          (fo_finally (verify_or_write env args profile backup_dir identity readback_path)
             (fo_then (bootloader_cleanup env profile) (fo_lift (fo_os (fe_unlink env readback_path)))))) (\<lambda>flash_written.
     fo_bind (probe_identity env (fa_device args) (fp_target_id profile)) (\<lambda>post_identity.
     fo_then (fo_unless (post_identity = fp_expected_identity profile) (PostIdentity post_identity))
       (write_ready_record env profile post_identity backup_dir flash_written)))))))"

definition flash_body :: "'w flash_env \<Rightarrow> flash_args \<Rightarrow> firmware_profile \<Rightarrow> json_object \<Rightarrow> ('w, unit) flash_op" where
  "flash_body env args profile target =
     fo_bind (probe_identity env (fa_device args) (fp_target_id profile)) (\<lambda>identity.
     fo_bind (accepted_identity env target identity) (\<lambda>accepted.
     fo_then (fo_unless accepted IdentityNotAllowed)
       (case fa_mode args of
          ModeProbe \<Rightarrow> fo_return ()
        | ModeBackup \<Rightarrow> fo_then (make_stock_backup env profile target (fa_device args) identity) (fo_return ())
        | ModeFlash \<Rightarrow> flash_deploy env args profile target identity)))"

fun flash_handled :: "flash_exn \<Rightarrow> bool" where
  "flash_handled (FlashError _) \<longleftrightarrow> True"
| "flash_handled (FirmwareExn (ProfileError _)) \<longleftrightarrow> True"
| "flash_handled PyOSError \<longleftrightarrow> True"
| "flash_handled PySubprocessError \<longleftrightarrow> True"
| "flash_handled _ \<longleftrightarrow> False"

text \<open>The code with which the tool exits, or the exception that ends it.\<close>

definition flash_main :: "'w flash_env \<Rightarrow> flash_args \<Rightarrow> ('w, int) flash_op" where
  "flash_main env args w =
     (case fo_bind (flash_setup env args) (\<lambda>(profile, target).
             stopped_known_modem_owners env (fa_device args) (fa_mode args \<noteq> ModeFlash) (flash_body env args profile target)) w of
        (Inr _, w) \<Rightarrow> (Inr 0, w)
      | (Inl x, w) \<Rightarrow> (if flash_handled x then Inr 20 else Inl x, w))"


subsection \<open>What every operation keeps\<close>

definition fo_keeps :: "('w \<Rightarrow> bool) \<Rightarrow> ('w, 'a) flash_op \<Rightarrow> bool" where
  "fo_keeps kept m \<longleftrightarrow> (\<forall>w. kept w \<longrightarrow> kept (snd (m w)))"

named_theorems flash_keeps \<open>rules for what the operations of the flashing tool keep\<close>

lemma fo_bind_outcome:
  assumes "fo_bind m f w = (r, w')"
  obtains (raised) x where "m w = (Inl x, w')" "r = Inl x" | (returned) a v where "m w = (Inr a, v)" "f a v = (r, w')"
  using assms by (auto simp: fo_bind_def split: prod.splits sum.splits)

lemma keeps_return [flash_keeps]: "fo_keeps kept (fo_return x)" and keeps_raise [flash_keeps]: "fo_keeps kept (fo_raise e)"
  and keeps_unless [flash_keeps]: "fo_keeps kept (fo_unless b e')" and keeps_verify [flash_keeps]: "fo_keeps kept (fo_verify f)"
  and keeps_query [flash_keeps]: "fo_keeps kept (fo_query g)"
  by (simp_all add: fo_keeps_def fo_return_def fo_raise_def fo_unless_def fo_verify_def fo_query_def)

lemma keeps_bind [flash_keeps]: "fo_keeps kept m \<Longrightarrow> (\<And>x. fo_keeps kept (f x)) \<Longrightarrow> fo_keeps kept (fo_bind m f)"
  unfolding fo_keeps_def fo_bind_def by (metis (no_types, lifting) case_prod_conv prod.collapse snd_conv sum.case_eq_if)

lemma keeps_finally [flash_keeps]: "fo_keeps kept m \<Longrightarrow> fo_keeps kept f \<Longrightarrow> fo_keeps kept (fo_finally m f)"
proof (unfold fo_keeps_def, intro allI impI)
  fix w assume "\<forall>w. kept w \<longrightarrow> kept (snd (m w))" "\<forall>w. kept w \<longrightarrow> kept (snd (f w))" "kept w"
  moreover obtain r v where "m w = (r, v)" by (rule prod.exhaust)
  moreover obtain q u where "f v = (q, u)" by (rule prod.exhaust)
  ultimately have "kept u" by (metis snd_conv)
  with \<open>m w = _\<close> \<open>f v = _\<close> show "kept (snd (fo_finally m f w))" by (cases q) (simp_all add: fo_finally_def)
qed

lemma keeps_lift [flash_keeps]: "fo_keeps kept m \<Longrightarrow> fo_keeps (\<lambda>(l, w). kept w) (fo_lift m)"
  unfolding fo_keeps_def fo_lift_def by (auto simp: split_beta)

lemma keeps_let [flash_keeps]: "fo_keeps (\<lambda>(l, w). kept w) m \<Longrightarrow> fo_keeps kept (fo_let l m)"
  unfolding fo_keeps_def fo_let_def by (auto simp: split_beta)

lemma keeps_if [flash_keeps]: "fo_keeps kept m \<Longrightarrow> fo_keeps kept m' \<Longrightarrow> fo_keeps kept (if b then m else m')"
  by simp

lemma keepsD: "fo_keeps kept m \<Longrightarrow> m w = (r, w') \<Longrightarrow> kept w \<Longrightarrow> kept w'"
  unfolding fo_keeps_def by (metis snd_conv)

lemma keeps_read_bytes [flash_keeps]: "fo_keeps kept (read_bytes env p)" and keeps_read_document [flash_keeps]: "fo_keeps kept (read_document env p e)"
  and keeps_get_objects [flash_keeps]: "fo_keeps kept (get_objects data key)"
  by (auto simp: fo_keeps_def read_bytes_def read_document_def get_objects_def fo_raise_def fo_return_def
      split: option.splits sum.splits json_failure.splits json.splits)

lemma keeps_stock [flash_keeps]: "fo_keeps kept (stock_identity target identity)" and keeps_accepted [flash_keeps]: "fo_keeps kept (accepted_identity env target identity)"
  by (auto simp: stock_identity_def accepted_identity_def Let_def intro!: flash_keeps split: option.splits)

lemma keeps_first_verified: "fo_keeps kept (first_verified env profile ds)"
  by (induction ds) (auto simp: fo_keeps_def split: sum.splits firmware_exn.splits)

lemma keeps_find [flash_keeps]: "fo_keeps kept (find_verified_stock_backup env profile)"
  unfolding find_verified_stock_backup_def by (intro flash_keeps keeps_first_verified)

lemma keeps_support [flash_keeps]: "fo_keeps kept (verify_support env items rels)"
  by (induction rels) (auto simp: fo_keeps_def split: option.splits)

lemma keeps_each [flash_keeps]: "fo_keeps kept (require_each env names)"
  by (induction names) (auto intro!: flash_keeps)

lemma keeps_pin [flash_keeps]: "fo_keeps kept (verify_core_pin env commit)"
  unfolding verify_core_pin_def by (rule keeps_bind, rule keeps_read_document) (auto intro!: flash_keeps split: json.splits)

lemma keeps_target [flash_keeps]: "fo_keeps kept (load_target env target_id)"
  unfolding load_target_def
  by (rule keeps_bind, rule keeps_read_document, rule keeps_bind, rule keeps_get_objects) (auto intro!: flash_keeps split: list.splits)

lemma keeps_setup [flash_keeps]: "fo_keeps kept (flash_setup env args)"
  unfolding flash_setup_def require_root_def require_tools_def by (intro flash_keeps)

lemma setup_reads: "snd (flash_setup env args w) = w"
  using keeps_setup [of "\<lambda>v. v = w" env args] by (simp add: fo_keeps_def)

text \<open>The steps of an environment that are neither a reading nor a subprocess.\<close>

definition other_step :: "'w flash_env \<Rightarrow> 'w \<Rightarrow> 'w \<Rightarrow> bool" where
  "other_step env w w' \<longleftrightarrow>
     (\<exists>prompt. w' = snd (fe_input env prompt w)) \<or> (\<exists>t. w' = fe_sleep env t w) \<or> (\<exists>b p. w' = snd (fe_mkdir env b p w)) \<or>
     (\<exists>m p. w' = snd (fe_chmod env m p w)) \<or> (\<exists>p d. w' = snd (fe_write env p d w)) \<or> (\<exists>a b. w' = snd (fe_copy env a b w)) \<or>
     (\<exists>p. w' = snd (fe_unlink env p w)) \<or> w' = snd (fe_mkstemp env w)"

text \<open>
  A property of the world that the other steps keep, and the subprocesses of the allowed commands. Every operation
  of the tool whose commands are allowed keeps it.
\<close>

locale kept_env =
  fixes env :: "'w flash_env" and allowed :: "command \<Rightarrow> bool" and kept :: "'w \<Rightarrow> bool"
  assumes run_kept: "allowed c \<Longrightarrow> kept w \<Longrightarrow> kept (snd (fe_run env (command_line (fe_python env) (fe_at env) c) w))"
    and other_kept: "other_step env w w' \<Longrightarrow> kept w \<Longrightarrow> kept w'"
begin

lemma keeps_unchecked: "allowed c \<Longrightarrow> fo_keeps kept (run_unchecked env c)"
  unfolding fo_keeps_def
proof (intro allI impI)
  fix w assume "allowed c" "kept w"
  obtain p w' where ran: "fe_run env (command_line (fe_python env) (fe_at env) c) w = (p, w')" by (rule prod.exhaust)
  from run_kept [OF \<open>allowed c\<close> \<open>kept w\<close>] ran show "kept (snd (run_unchecked env c w))"
    by (cases p) (simp_all add: run_unchecked_def)
qed

lemma keeps_checked: "allowed c \<Longrightarrow> fo_keeps kept (run_checked env c)"
  unfolding run_checked_def
  by (rule keeps_bind, erule keeps_unchecked) (auto intro!: flash_keeps split: prod.splits)

lemma keeps_os: "(\<And>w. other_step env w (snd (f w))) \<Longrightarrow> fo_keeps kept (fo_os f)"
  by (auto simp: fo_keeps_def fo_os_def split: prod.splits) (metis other_kept snd_conv)

lemma keeps_chmod: "fo_keeps kept (fo_os (fe_chmod env m p))" and keeps_copy: "fo_keeps kept (fo_os (fe_copy env a b))"
  and keeps_mkdir: "fo_keeps kept (fo_os (fe_mkdir env ok p))" and keeps_unlink: "fo_keeps kept (fo_os (fe_unlink env p))"
  and keeps_write: "fo_keeps kept (fo_os (fe_write env p d))"
  by (rule keeps_os, auto simp: other_step_def)+

lemma keeps_sleep: "fo_keeps kept (fo_sleep env t)"
  unfolding fo_keeps_def fo_sleep_def by (metis other_kept other_step_def snd_conv)

lemma keeps_mkstemp: "fo_keeps kept (make_temporary env)"
  unfolding fo_keeps_def
proof (intro allI impI)
  fix w assume "kept w"
  obtain p w' where made: "fe_mkstemp env w = (p, w')" by (rule prod.exhaust)
  have "kept w'" by (rule other_kept [OF _ \<open>kept w\<close>]) (simp add: other_step_def made)
  with made show "kept (snd (make_temporary env w))"
    by (cases p) (simp_all add: make_temporary_def)
qed

lemma keeps_ask: "fo_keeps kept (ask_confirmation env profile)"
  unfolding fo_keeps_def
proof (intro allI impI)
  fix w assume "kept w"
  let ?prompt = "''Type '' @ fp_final_write_confirmation profile @ '' to write the exact qualified image: ''"
  obtain a w' where asked: "fe_input env ?prompt w = (a, w')" by (rule prod.exhaust)
  have "kept w'" by (rule other_kept [OF _ \<open>kept w\<close>]) (metis asked other_step_def snd_conv)
  with asked show "kept (snd (ask_confirmation env profile w))"
    by (cases a) (simp_all add: ask_confirmation_def fo_unless_def fo_return_def fo_raise_def)
qed

lemmas basic_keeps = flash_keeps keeps_unchecked keeps_checked keeps_chmod keeps_copy keeps_mkdir keeps_unlink keeps_write keeps_sleep
  keeps_mkstemp keeps_ask

lemma keeps_read_flash: "(\<And>r. allowed (ReadFlash path r device)) \<Longrightarrow> fo_keeps kept (read_flash_file env profile n device path)"
  unfolding read_flash_file_def by (intro basic_keeps)

lemma keeps_readback: "(\<And>r. allowed (ReadFlash path r device)) \<Longrightarrow> fo_keeps kept (readback_product env profile device path)"
  unfolding readback_product_def by (intro basic_keeps keeps_read_flash)

lemma keeps_probe: "allowed (ProbeHat device) \<Longrightarrow> fo_keeps kept (probe_identity env device target_id)"
  unfolding probe_identity_def by (rule keeps_bind, erule keeps_checked) (simp add: fo_keeps_def split: prod.splits)

lemma keeps_capture:
  "(\<And>p r. allowed (ReadFlash p r device)) \<Longrightarrow> fo_keeps kept (capture_stock env profile device identity directory)"
  unfolding capture_stock_def Let_def by (intro basic_keeps keeps_read_flash)

lemma keeps_ready: "fo_keeps kept (write_ready_record env profile identity backup_dir flash_written)"
  unfolding write_ready_record_def by (intro basic_keeps)

lemma keeps_start: "(\<And>u. allowed (StartUnit u)) \<Longrightarrow> fo_keeps kept (start_units env us)"
  by (induction us) (auto intro!: basic_keeps)

lemma keeps_noted: "fo_keeps (\<lambda>(l, w). kept w) (\<lambda>(l, w). (Inr (), f l, w))"
  by (auto simp: fo_keeps_def)

lemma keeps_stop: "(\<And>u. allowed (IsActive u) \<and> allowed (StopUnit u)) \<Longrightarrow> fo_keeps (\<lambda>(l, w). kept w) (stop_units env us)"
  by (induction us) (auto intro!: basic_keeps keeps_noted)

lemma keeps_restore:
  "(\<And>u. allowed (StartUnit u)) \<Longrightarrow>
   fo_keeps (\<lambda>(l, w). kept w) (\<lambda>(active, w). fo_lift (if restore then start_units env active else fo_return ()) (active, w))"
proof -
  assume start: "\<And>u. allowed (StartUnit u)"
  have "\<forall>active. fo_keeps (\<lambda>(l :: string list, w). kept w) (fo_lift (if restore then start_units env active else fo_return ()))"
    by (intro allI basic_keeps keeps_start start)
  then have "case snd (fo_lift (if restore then start_units env active else fo_return ()) (active, w)) of (l, w) \<Rightarrow> kept w"
    if "kept w" for active w using that by (auto simp only: fo_keeps_def prod.case)
  then show ?thesis by (simp only: fo_keeps_def split_paired_All prod.case) simp
qed

lemma keeps_owners:
  assumes "\<And>u. allowed (IsActive u) \<and> allowed (StopUnit u) \<and> allowed (StartUnit u)" "\<And>d. allowed (Fuser d) \<and> allowed (FuserVerbose d)"
    and "fo_keeps kept body"
  shows "fo_keeps kept (stopped_known_modem_owners env device restore body)"
  unfolding stopped_known_modem_owners_def uart_busy_def
  by (intro basic_keeps keeps_stop keeps_restore; (simp add: assms)?) (auto simp: assms intro!: basic_keeps)

end

text \<open>
  What holds of the world while the application runs, and the weaker property while the boot ROM may run: a successful entry leads from
  the one to the other, an attempted restart leads back, whatever comes of it.
\<close>

definition boot_kept :: "('w \<Rightarrow> bool) \<Rightarrow> ('w \<Rightarrow> bool) \<Rightarrow> bool \<times> 'w \<Rightarrow> bool" where
  "boot_kept kept entered s = (if fst s then entered (snd s) else kept (snd s))"

locale kept_boot = application: kept_env env allowed kept + rom: kept_env env allowed entered
  for env :: "'w flash_env" and allowed :: "command \<Rightarrow> bool" and kept entered :: "'w \<Rightarrow> bool" +
  assumes kept_entered: "kept w \<Longrightarrow> entered w"
    and entry_rom: "entered w \<Longrightarrow> entered (snd (fe_run env (command_line (fe_python env) (fe_at env) (BootloaderEntry t)) w))"
    and entry_refused: "kept w \<Longrightarrow> fe_run env (command_line (fe_python env) (fe_at env) (BootloaderEntry t)) w = (p, w') \<Longrightarrow>
      \<forall>out err. p \<noteq> Ended 0 out err \<Longrightarrow> kept w'"
    and restart_kept: "entered w \<Longrightarrow> kept (snd (fe_run env (command_line (fe_python env) (fe_at env) (ApplicationRestart t)) w))"
begin

lemma boot_lift: "fo_keeps kept m \<Longrightarrow> fo_keeps entered m \<Longrightarrow> fo_keeps (boot_kept kept entered) (fo_lift m)"
  unfolding fo_keeps_def fo_lift_def boot_kept_def by (auto simp: split_beta)

lemma boot_entered: "boot_kept kept entered (active, w) \<Longrightarrow> entered w"
  by (simp add: boot_kept_def kept_entered split: if_splits)

lemma boot_entry:
  assumes "fo_keeps (boot_kept kept entered) m"
  shows "fo_keeps (boot_kept kept entered)
     (fo_then (fo_lift (run_checked env (BootloaderEntry t))) (fo_then (\<lambda>(_, w). (Inr (), True, w)) m))"
  unfolding fo_keeps_def
proof (intro allI impI)
  fix s :: "bool \<times> 'w" assume s: "boot_kept kept entered s"
  obtain active w where "s = (active, w)" by (rule prod.exhaust)
  obtain p w' where ran: "fe_run env (command_line (fe_python env) (fe_at env) (BootloaderEntry t)) w = (p, w')" by (rule prod.exhaust)
  from entry_rom [of w t] ran s \<open>s = _\<close> have rom: "entered w'" by (simp add: boot_entered)
  with assms have step: "boot_kept kept entered (snd (m (True, w')))" by (simp add: fo_keeps_def boot_kept_def)
  have stay: "boot_kept kept entered (active, w')" if "\<forall>out err. p \<noteq> Ended 0 out err"
    using that s rom entry_refused [OF _ ran] \<open>s = _\<close> by (cases active) (auto simp: boot_kept_def)
  show "boot_kept kept entered (snd (fo_then (fo_lift (run_checked env (BootloaderEntry t))) (fo_then (\<lambda>(_, w). (Inr (), True, w)) m) s))"
    using step stay \<open>s = _\<close> ran
    by (cases p) (auto simp: fo_bind_def fo_lift_def run_checked_def run_unchecked_def fo_return_def fo_raise_def)
qed

lemma boot_restart_run:
  assumes "boot_kept kept entered (active, w)"
  shows "kept (snd (run_unchecked env (ApplicationRestart t) w))" "kept (snd (run_checked env (ApplicationRestart t) w))"
  using restart_kept [OF boot_entered [OF assms], of t]
  by (auto simp: run_checked_def run_unchecked_def fo_bind_def fo_return_def fo_raise_def split: prod.splits process.splits)

lemma boot_cleanup: "boot_kept kept entered s \<Longrightarrow> kept (snd (snd (bootloader_cleanup env profile s)))"
proof -
  assume s: "boot_kept kept entered s"
  obtain active w where sw: "s = (active, w)" by (rule prod.exhaust)
  obtain r w' where ran: "run_unchecked env (ApplicationRestart (fp_target_id profile)) w = (r, w')" by (rule prod.exhaust)
  with boot_restart_run(1) [of active w "fp_target_id profile"] s sw have "kept w'" by simp
  with application.keeps_sleep have "kept (fe_sleep env t w')" for t by (auto simp: fo_keeps_def fo_sleep_def)
  with s sw ran \<open>kept w'\<close> show ?thesis
    by (cases r) (auto simp: bootloader_cleanup_def boot_kept_def fo_bind_def fo_lift_def fo_sleep_def split: prod.splits)
qed

lemma boot_restart: "fo_keeps (boot_kept kept entered) (restart_application env profile)"
  unfolding fo_keeps_def
proof (intro allI impI)
  fix s assume s: "boot_kept kept entered s"
  obtain active w where sw: "s = (active, w)" by (rule prod.exhaust)
  obtain r w' where ran: "run_checked env (ApplicationRestart (fp_target_id profile)) w = (r, w')" by (rule prod.exhaust)
  with boot_restart_run(2) [of active w "fp_target_id profile"] s sw have "kept w'" by simp
  with application.keeps_sleep have "kept (fe_sleep env t w')" for t by (auto simp: fo_keeps_def fo_sleep_def)
  with s sw ran \<open>kept w'\<close> show "boot_kept kept entered (snd (restart_application env profile s))"
    by (cases r) (auto simp: restart_application_def boot_kept_def fo_bind_def fo_lift_def fo_sleep_def kept_entered split: prod.splits)
qed

lemma keeps_booted:
  assumes "fo_keeps (boot_kept kept entered) body" "\<And>s. boot_kept kept entered s \<Longrightarrow> kept (snd (snd (f s)))"
  shows "fo_keeps kept (fo_let False (fo_finally body f))"
  unfolding fo_keeps_def
proof (intro allI impI)
  fix w assume "kept w"
  then have "boot_kept kept entered (False, w)" by (simp add: boot_kept_def)
  with assms(1) have "boot_kept kept entered (snd (body (False, w)))" by (simp add: fo_keeps_def)
  moreover obtain r s where body: "body (False, w) = (r, s)" by (rule prod.exhaust)
  ultimately have "kept (snd (snd (f s)))" using assms(2) by simp
  moreover obtain q a v where fin: "f s = (q, a, v)" by (rule prod_cases3)
  ultimately have "kept v" by simp
  with body fin show "kept (snd (fo_let False (fo_finally body f) w))" by (cases q) (simp_all add: fo_let_def fo_finally_def)
qed

lemma boot_enter: "allowed (BootloaderInfo device) \<Longrightarrow> fo_keeps (boot_kept kept entered) (bootloader_enter env profile device)"
  unfolding bootloader_enter_def
  by (intro boot_entry flash_keeps boot_lift application.keeps_sleep rom.keeps_sleep application.keeps_checked rom.keeps_checked, assumption+)
    (auto intro!: flash_keeps simp: Let_def split: prod.splits)

end

context kept_boot
begin

lemma boot_finish: "boot_kept kept entered s \<Longrightarrow> kept (snd (snd (fo_then (bootloader_cleanup env profile) (fo_lift (fo_os (fe_unlink env p))) s)))"
proof -
  assume s: "boot_kept kept entered s"
  obtain r a w where cleaned: "bootloader_cleanup env profile s = (r, a, w)" by (rule prod_cases3)
  with boot_cleanup [OF s, of profile] have "kept w" by simp
  with application.keeps_unlink [of p] have "kept (snd (fo_os (fe_unlink env p) w))" by (simp add: fo_keeps_def)
  with cleaned \<open>kept w\<close> show ?thesis by (cases r) (auto simp: fo_bind_def fo_lift_def split: prod.splits)
qed

lemma keeps_make_backup:
  assumes "allowed (BootloaderInfo device)" "\<And>p r. allowed (ReadFlash p r device)"
  shows "fo_keeps kept (make_stock_backup env profile target device identity)"
  unfolding make_stock_backup_def Let_def
  by (intro application.basic_keeps keeps_booted boot_cleanup boot_lift boot_enter application.keeps_capture rom.keeps_capture assms)

lemma keeps_select:
  assumes "allowed (BootloaderInfo (fa_device args))" "\<And>p r. allowed (ReadFlash p r (fa_device args))"
  shows "fo_keeps kept (select_backup env args profile target identity)"
  unfolding select_backup_def by (intro flash_keeps keeps_make_backup assms)

lemma keeps_verify_or_write:
  assumes "allowed (BootloaderInfo (fa_device args))" "\<And>p r. allowed (ReadFlash p r (fa_device args))"
    "\<And>f. allowed (WriteFlash f (fa_device args))"
  shows "fo_keeps (boot_kept kept entered) (verify_or_write env args profile backup_dir identity readback_path)"
  unfolding verify_or_write_def
  by (cases backup_dir)
    (simp_all, (intro conjI impI flash_keeps boot_enter boot_restart boot_lift application.keeps_readback rom.keeps_readback application.keeps_ask
      rom.keeps_ask application.keeps_checked rom.keeps_checked assms)+)

lemma keeps_deploy:
  assumes "allowed (BootloaderInfo (fa_device args))" "\<And>p r. allowed (ReadFlash p r (fa_device args))"
    "\<And>f. allowed (WriteFlash f (fa_device args))" "allowed (ProbeHat (fa_device args))"
  shows "fo_keeps kept (flash_deploy env args profile target identity)"
  unfolding flash_deploy_def
  by (intro flash_keeps keeps_select application.keeps_mkstemp keeps_booted keeps_verify_or_write boot_finish application.keeps_probe
      application.keeps_ready assms)

lemma keeps_body:
  assumes "allowed (BootloaderInfo (fa_device args))" "\<And>p r. allowed (ReadFlash p r (fa_device args))" "allowed (ProbeHat (fa_device args))"
    "\<And>f. fa_mode args = ModeFlash \<Longrightarrow> allowed (WriteFlash f (fa_device args))"
  shows "fo_keeps kept (flash_body env args profile target)"
  unfolding flash_body_def
  by (cases "fa_mode args") (simp_all, (intro flash_keeps application.keeps_probe keeps_make_backup keeps_deploy assms; simp)+)

lemma keeps_main:
  assumes "\<And>u. allowed (IsActive u) \<and> allowed (StopUnit u) \<and> allowed (StartUnit u)" "\<And>d. allowed (Fuser d) \<and> allowed (FuserVerbose d)"
    "allowed (BootloaderInfo (fa_device args))" "\<And>p r. allowed (ReadFlash p r (fa_device args))" "allowed (ProbeHat (fa_device args))"
    "\<And>f. fa_mode args = ModeFlash \<Longrightarrow> allowed (WriteFlash f (fa_device args))"
  shows "fo_keeps kept (flash_main env args)"
proof -
  have "fo_keeps kept (fo_bind (flash_setup env args) (\<lambda>(profile, target).
             stopped_known_modem_owners env (fa_device args) (fa_mode args \<noteq> ModeFlash) (flash_body env args profile target)))"
    by (rule keeps_bind, rule keeps_setup) (auto intro!: application.keeps_owners keeps_body assms simp: assms split: prod.splits)
  then show ?thesis unfolding fo_keeps_def flash_main_def by (auto split: prod.splits sum.splits)
qed

end

end
