(* ===== verification/Flash_Trace.thy ===== *)
theory Flash_Trace
  imports Flash_Tool
begin

section \<open>What the flashing tool does to the modem\<close>

text \<open>
  The tool of \<open>Flash_Tool\<close> over an environment that records every subprocess and every question to the terminal: the boot ROM is always left,
  the main flash is written only when everything the tool demands was proved before, and success means that the programmed bytes and the running
  firmware are the qualified ones.
\<close>

subsection \<open>A record of what the tool does\<close>

text \<open>Each subprocess and each question to the terminal, with the worlds before and after.\<close>

datatype 'w flash_event = Ran "string list" 'w process 'w | Asked string 'w "string option" 'w

type_synonym 'w flash_trace = "'w flash_event list"

definition traced :: "'w flash_env \<Rightarrow> ('w \<times> 'w flash_trace) flash_env" where
  "traced env =
     \<lparr>fe_python = fe_python env, fe_at = fe_at env, fe_euid = fe_euid env, fe_which = fe_which env, fe_sha = fe_sha env,
      fe_parse = fe_parse env, fe_loads = fe_loads env, fe_dumps = fe_dumps env, fe_text = fe_text env,
      fe_files = (\<lambda>(w, _). fe_files env w), fe_exists = (\<lambda>p (w, _). fe_exists env p w),
      fe_subdirectories = (\<lambda>p (w, _). fe_subdirectories env p w),
      fe_run = (\<lambda>argv (w, tr). case fe_run env argv w of (p, w') \<Rightarrow> (p, (w', tr @ [Ran argv w p w']))),
      fe_input = (\<lambda>prompt (w, tr). case fe_input env prompt w of (a, w') \<Rightarrow> (a, (w', tr @ [Asked prompt w a w']))),
      fe_sleep = (\<lambda>t (w, tr). (fe_sleep env t w, tr)),
      fe_mkdir = (\<lambda>b p (w, tr). case fe_mkdir env b p w of (ok, w) \<Rightarrow> (ok, (w, tr))),
      fe_chmod = (\<lambda>m p (w, tr). case fe_chmod env m p w of (ok, w) \<Rightarrow> (ok, (w, tr))),
      fe_write = (\<lambda>p d (w, tr). case fe_write env p d w of (ok, w) \<Rightarrow> (ok, (w, tr))),
      fe_copy = (\<lambda>a b (w, tr). case fe_copy env a b w of (ok, w) \<Rightarrow> (ok, (w, tr))),
      fe_unlink = (\<lambda>p (w, tr). case fe_unlink env p w of (ok, w) \<Rightarrow> (ok, (w, tr))),
      fe_mkstemp = (\<lambda>(w, tr). case fe_mkstemp env w of (p, w) \<Rightarrow> (p, (w, tr))),
      fe_timestamp = (\<lambda>(w, _). fe_timestamp env w), fe_unix_time = (\<lambda>(w, _). fe_unix_time env w)\<rparr>"

lemma traced_simps [simp]:
  "fe_python (traced env) = fe_python env" "fe_at (traced env) = fe_at env" "fe_sha (traced env) = fe_sha env"
  "fe_parse (traced env) = fe_parse env" "fe_loads (traced env) = fe_loads env" "fe_dumps (traced env) = fe_dumps env"
  "fe_files (traced env) (w, tr) = fe_files env w" "fe_text (traced env) = fe_text env"
  "fe_run (traced env) argv (w, tr) = (case fe_run env argv w of (p, w') \<Rightarrow> (p, (w', tr @ [Ran argv w p w'])))"
  "fe_input (traced env) prompt (w, tr) = (case fe_input env prompt w of (a, w') \<Rightarrow> (a, (w', tr @ [Asked prompt w a w'])))"
  "fe_sleep (traced env) t (w, tr) = (fe_sleep env t w, tr)"
  "fe_chmod (traced env) m p (w, tr) = (case fe_chmod env m p w of (ok, w) \<Rightarrow> (ok, (w, tr)))"
  by (simp_all add: traced_def)

lemma traced_other: "other_step (traced env) s s' \<Longrightarrow> snd s' = snd s \<or> (\<exists>q w a w'. snd s' = snd s @ [Asked q w a w'])"
  unfolding other_step_def by (elim disjE exE; cases s; auto simp: traced_def split: prod.splits)

lemma traced_run:
  obtains p w' where "fe_run (traced env) argv s = (p, (w', snd s @ [Ran argv (fst s) p w']))" "fe_run env argv (fst s) = (p, w')"
  by (cases s; cases "fe_run env argv (fst s)") auto

text \<open>A write to the main flash: the option \<open>-w\<close> of the programmer, with its arguments.\<close>

fun writes_flash :: "'w flash_event \<Rightarrow> bool" where
  "writes_flash (Ran argv _ _ _) \<longleftrightarrow> strict_prefix [''stm32flash'', ''-b'', ''115200'', ''-w''] argv"
| "writes_flash (Asked _ _ _ _) \<longleftrightarrow> False"

fun enters_rom :: "'w flash_env \<Rightarrow> 'w flash_event \<Rightarrow> bool" where
  "enters_rom env (Ran argv _ p _) \<longleftrightarrow>
     prefix [fe_python env, fe_at env @ ''/firmware/hat_control.py'', ''bootloader-entry''] argv \<and>
     (case p of Ended code _ _ \<Rightarrow> code = 0 | _ \<Rightarrow> False)"
| "enters_rom env (Asked _ _ _ _) \<longleftrightarrow> False"

fun restarts_application :: "'w flash_env \<Rightarrow> 'w flash_event \<Rightarrow> bool" where
  "restarts_application env (Ran argv _ _ _) \<longleftrightarrow>
     prefix [fe_python env, fe_at env @ ''/firmware/hat_control.py'', ''application-restart''] argv"
| "restarts_application env (Asked _ _ _ _) \<longleftrightarrow> False"

text \<open>Every entry is followed by a restart.\<close>

fun rom_left :: "'w flash_env \<Rightarrow> 'w flash_trace \<Rightarrow> bool" where
  "rom_left env [] \<longleftrightarrow> True"
| "rom_left env (e # tr) \<longleftrightarrow> (enters_rom env e \<longrightarrow> list_ex (restarts_application env) tr) \<and> rom_left env tr"

lemma tool_paths:
  "base @ ''/firmware/hat_control.py'' = s \<Longrightarrow> 24 \<le> length s" "base @ ''/firmware/probe_hat.py'' = s \<Longrightarrow> 22 \<le> length s"
  by auto

lemma only_write_writes: "writes_flash (Ran (command_line python base c) w p w') \<longleftrightarrow> (\<exists>f d. c = WriteFlash f d)"
  by (cases c) (auto simp: strict_prefix_def dest!: tool_paths)

lemma only_entry_enters: "enters_rom env (Ran (command_line (fe_python env) (fe_at env) c) w p w') \<Longrightarrow> \<exists>t. c = BootloaderEntry t"
  by (cases c) (auto dest!: tool_paths [OF sym] split: process.splits)

lemma rom_left_quiet: "rom_left env tr \<Longrightarrow> \<not> enters_rom env e \<Longrightarrow> rom_left env (tr @ [e])"
  by (induction tr) auto

lemma rom_left_restart: "restarts_application env e \<Longrightarrow> rom_left env (tr @ [e])"
proof (induction tr)
  case Nil
  have "\<not> enters_rom env e" using Nil by (cases e) (auto simp: prefix_def)
  then show ?case by simp
qed auto

definition grown :: "'w flash_trace \<Rightarrow> 'w \<times> 'w flash_trace \<Rightarrow> bool" where
  "grown tr s \<longleftrightarrow> (\<exists>evs. snd s = tr @ evs \<and> list_all (\<lambda>e. \<not> writes_flash e) evs)"

lemma grown_step: "grown tr s \<Longrightarrow> snd s' = snd s @ [e] \<Longrightarrow> \<not> writes_flash e \<Longrightarrow> grown tr s'"
  proof -
  assume "grown tr s" "snd s' = snd s @ [e]" "\<not> writes_flash e"
  then obtain evs where "snd s' = tr @ (evs @ [e])" "list_all (\<lambda>e. \<not> writes_flash e) (evs @ [e])" by (auto simp: grown_def)
  then show "grown tr s'" unfolding grown_def by blast
qed

lemma grown_ran:
  "grown tr s \<Longrightarrow> \<forall>f d. c \<noteq> WriteFlash f d \<Longrightarrow>
   grown tr (snd (fe_run (traced env) (command_line python base c) s))"
  by (rule traced_run [of env "command_line python base c" s])
    (auto intro: grown_step simp: only_write_writes simp del: writes_flash.simps)

lemma grown_other: "grown tr s \<Longrightarrow> other_step (traced env) s s' \<Longrightarrow> grown tr s'"
  using traced_other [of env s s'] by (auto intro: grown_step simp: grown_def)

interpretation unwritten: kept_boot "traced env" "\<lambda>c. \<forall>f d. c \<noteq> WriteFlash f d" "grown tr" "grown tr" for env and tr :: "'w flash_trace"
proof unfold_locales
  show "grown tr s'"
    if "grown tr s" "fe_run (traced env) (command_line (fe_python (traced env)) (fe_at (traced env)) (BootloaderEntry t)) s = (p, s')" for s s' p t
    using grown_ran [of tr s "BootloaderEntry t" env "fe_python env" "fe_at env"] that by simp
qed (simp_all add: grown_ran grown_other del: command_line.simps)

lemma rom_left_ran:
  "rom_left env (snd s) \<Longrightarrow> \<forall>t. c \<noteq> BootloaderEntry t \<Longrightarrow>
   rom_left env (snd (snd (fe_run (traced env) (command_line (fe_python env) (fe_at env) c) s)))"
  by (rule traced_run [of env "command_line (fe_python env) (fe_at env) c" s])
    (use only_entry_enters in \<open>fastforce intro: rom_left_quiet simp del: enters_rom.simps\<close>)

interpretation rom_life: kept_boot "traced env" "\<lambda>c. \<forall>t. c \<noteq> BootloaderEntry t" "\<lambda>s. rom_left env (snd s)" "\<lambda>_. True" for env :: "'w flash_env"
proof (unfold_locales, goal_cases)
  case (1 c s)
  then show ?case using rom_left_ran by simp
next
  case (2 s s')
  from traced_other [OF 2(1)] 2(2) show ?case by (auto intro!: rom_left_quiet)
next
  case (7 s t p s')
  then show ?case
    by (rule_tac traced_run [of env "command_line (fe_python env) (fe_at env) (BootloaderEntry t)" s])
      (auto intro!: rom_left_quiet split: process.splits)
next
  case (8 s t)
  show ?case
    by (rule traced_run [of env "command_line (fe_python env) (fe_at env) (ApplicationRestart t)" s]) (auto intro!: rom_left_restart)
qed simp_all

text \<open>
  C13. Whatever the tool is asked to do and however it ends, by a failure or an exception nobody handles included, it leaves the boot ROM:
  after every entry that succeeded it has run the restart of the application.
\<close>

theorem flash_leaves_rom: "rom_left env (snd (snd (flash_main (traced env) args (w, []))))"
proof -
  have "fo_keeps (\<lambda>s. rom_left env (snd s)) (flash_main (traced env) args)" by (rule rom_life.keeps_main) auto
  then show ?thesis by (simp add: fo_keeps_def)
qed

subsection \<open>Outcomes under the record\<close>

abbreviation line :: "'w flash_env \<Rightarrow> command \<Rightarrow> string list" where
  "line env c \<equiv> command_line (fe_python env) (fe_at env) c"

lemma grown_refl [simp]: "grown tr (w, tr)"
  by (simp add: grown_def)

lemma grown_trans: "grown tr s \<Longrightarrow> grown (snd s) s' \<Longrightarrow> grown tr s'"
  unfolding grown_def by (metis (no_types, lifting) append.assoc list_all_append)

lemma boot_grown [simp]: "boot_kept (grown tr) (grown tr) (a, s) = grown tr s"
  by (simp add: boot_kept_def)

text \<open>The operations of the preconditions only read.\<close>

definition reads_as :: "('w, 'a) flash_op \<Rightarrow> ('w \<times> 'w flash_trace, 'a) flash_op \<Rightarrow> bool" where
  "reads_as m m' \<longleftrightarrow> (\<forall>w tr. m' (w, tr) = (fst (m w), (w, tr)) \<and> snd (m w) = w)"

lemma reads_bind: "reads_as m m' \<Longrightarrow> (\<And>x. reads_as (f x) (f' x)) \<Longrightarrow> reads_as (fo_bind m f) (fo_bind m' f')"
  unfolding reads_as_def fo_bind_def by (auto split: prod.splits sum.splits) (metis fst_conv snd_conv)+

lemma json_text_traced [simp]: "json_text (traced env) v = json_text env v"
  by (simp add: json_text_def split: option.splits)

lemma support_traced [simp]: "support_entry (traced env) items rel = support_entry env items rel"
  by (simp add: support_entry_def)

lemma reads_basic: "reads_as (fo_return x) (fo_return x)" "reads_as (fo_raise e) (fo_raise e)" "reads_as (fo_unless b e') (fo_unless b e')"
  "reads_as (read_document env path e') (read_document (traced env) path e')" "reads_as (get_objects data key) (get_objects data key)"
  "reads_as (fo_verify (\<lambda>w. load_profile (fe_parse env) (fe_files env w) path))
     (fo_verify (\<lambda>w. load_profile (fe_parse env) (fe_files (traced env) w) path))"
  "reads_as (fo_query (fe_exists env path)) (fo_query (fe_exists (traced env) path))"
  by (auto simp: reads_as_def fo_return_def fo_raise_def fo_unless_def fo_verify_def fo_query_def read_document_def get_objects_def traced_def
      split: option.splits sum.splits json_failure.splits json.splits)

lemma reads_support: "reads_as (verify_support env items rels) (verify_support (traced env) items rels)"
  by (induction rels) (auto simp: reads_as_def split: option.splits)

lemma reads_each: "reads_as (require_each env names) (require_each (traced env) names)"
  by (induction names) (auto intro!: reads_bind reads_basic simp: traced_def)

lemma reads_pin: "reads_as (verify_core_pin env commit) (verify_core_pin (traced env) commit)"
  unfolding verify_core_pin_def traced_simps
  by (rule reads_bind, rule reads_basic) (auto intro!: reads_bind reads_basic reads_support split: json.splits)

lemma reads_target: "reads_as (load_target env target_id) (load_target (traced env) target_id)"
  unfolding load_target_def traced_simps
  by (rule reads_bind, rule reads_basic, rule reads_bind, rule reads_basic) (auto intro!: reads_basic split: list.splits)

lemma reads_setup: "reads_as (flash_setup env args) (flash_setup (traced env) args)"
proof -
  have "fe_euid (traced env) = fe_euid env" by (simp add: traced_def)
  then show ?thesis
    unfolding flash_setup_def require_root_def require_tools_def traced_simps by (simp only:) (intro reads_bind reads_basic reads_each reads_pin reads_target)
qed

lemma setup_traced: "flash_setup (traced env) args (w, tr) = (fst (flash_setup env args w), (w, tr))"
  using reads_setup [of env args] by (simp add: reads_as_def)

lemma accepted_traced: "accepted_identity (traced env) target identity (w, tr) = (fst (accepted_identity env target identity v), (w, tr))"
  by (auto simp: accepted_identity_def fo_raise_def fo_return_def Let_def split: option.splits)

lemma reported_traced: "reported_identity (traced env) target_id out = reported_identity env target_id out"
  by (simp add: reported_identity_def)

lemma checked_outcome:
  assumes "run_checked (traced env) c (w, tr) = (r, s')"
  obtains p w' where "s' = (w', tr @ [Ran (line env c) w p w'])" "fe_run env (line env c) w = (p, w')"
    "\<And>out err. r = Inr (out, err) \<Longrightarrow> p = Ended 0 out err"
proof -
  obtain p w' where ran: "fe_run env (line env c) w = (p, w')" by (rule prod.exhaust)
  then have "s' = (w', tr @ [Ran (line env c) w p w'])" "\<And>out err. r = Inr (out, err) \<Longrightarrow> p = Ended 0 out err"
    using assms by (cases p; auto simp: run_checked_def run_unchecked_def fo_bind_def fo_return_def fo_raise_def
        simp del: command_line.simps split: if_splits)+
  with ran show ?thesis using that by blast
qed

lemma probe_outcome:
  assumes "probe_identity (traced env) device target_id (w, tr) = (r, s')"
  obtains p w' where "s' = (w', tr @ [Ran (line env (ProbeHat device)) w p w'])"
    "\<And>identity. r = Inr identity \<Longrightarrow> \<exists>out err. p = Ended 0 out err \<and> reported_identity env target_id out = Inr identity"
  using assms unfolding probe_identity_def
proof (cases rule: fo_bind_outcome)
  case (raised x)
  from raised(1) show ?thesis by (rule checked_outcome) (use that raised(2) in auto)
next
  case (returned a v)
  obtain out err where a: "a = (out, err)" by (rule prod.exhaust)
  from returned(1) show ?thesis
  proof (rule checked_outcome)
    fix p w' assume v: "v = (w', tr @ [Ran (line env (ProbeHat device)) w p w'])" and p: "\<And>out err. Inr a = Inr (out, err) \<Longrightarrow> p = Ended 0 out err"
    show ?thesis by (rule that [of w' p]) (use returned(2) v p a in \<open>auto simp: reported_traced\<close>)
  qed
qed

lemma ask_outcome:
  assumes "ask_confirmation (traced env) profile (w, tr) = (r, s')"
  obtains answer w' where
    "s' = (w', tr @ [Asked (''Type '' @ fp_final_write_confirmation profile @ '' to write the exact qualified image: '') w answer w'])"
    "r = Inr () \<Longrightarrow> \<exists>response. answer = Some response \<and> py_strip response = fp_final_write_confirmation profile"
proof -
  let ?prompt = "''Type '' @ fp_final_write_confirmation profile @ '' to write the exact qualified image: ''"
  obtain answer w' where asked: "fe_input env ?prompt w = (answer, w')" by (rule prod.exhaust)
  then have "s' = (w', tr @ [Asked ?prompt w answer w'])"
    "r = Inr () \<Longrightarrow> \<exists>response. answer = Some response \<and> py_strip response = fp_final_write_confirmation profile"
    using assms by (cases answer; auto simp: ask_confirmation_def fo_unless_def fo_return_def fo_raise_def split: if_splits)+
  then show ?thesis using that by blast
qed

lemma fo_lift_outcome: "fo_lift m (l, s) = (r, l', s') \<longleftrightarrow> l' = l \<and> m s = (r, s')"
  by (auto simp: fo_lift_def split: prod.splits)

text \<open>A bind after a lifted operation that returned.\<close>

lemma lifted_returned:
  assumes "fo_bind (fo_lift m) f (l, s) = (Inr x, s')"
  obtains a v where "m s = (Inr a, v)" "f a (l, v) = (Inr x, s')"
  using assms by (auto simp: fo_bind_def fo_lift_def split: prod.splits sum.splits)

lemma enter_outcome:
  assumes "bootloader_enter (traced env) profile device (a, (w, tr)) = (Inr x, s')"
  obtains out1 err1 v out err w' where
    "s' = (True, (w', tr @ [Ran (line env (BootloaderEntry (fp_target_id profile))) w (Ended 0 out1 err1) v,
                            Ran (line env (BootloaderInfo device)) (fe_sleep env (1 / 2) v) (Ended 0 out err) w']))"
    "grab ''Version'' (out @ err) = py_lower (fp_expected_bootloader_version profile)"
    "grab ''Device ID'' (out @ err) = py_lower (fp_expected_device_id profile)"
proof -
  from assms [unfolded bootloader_enter_def] obtain q v1 where entry: "run_checked (traced env) (BootloaderEntry (fp_target_id profile)) (w, tr) = (Inr q, v1)"
    and rest: "fo_then (\<lambda>(_, w). (Inr (), True, w)) (fo_then (fo_lift (fo_sleep (traced env) (1 / 2)))
        (fo_bind (fo_lift (run_checked (traced env) (BootloaderInfo device))) (\<lambda>(out, err).
          let version = grab ''Version'' (out @ err); device_id = grab ''Device ID'' (out @ err)
          in fo_unless (version = py_lower (fp_expected_bootloader_version profile) \<and> device_id = py_lower (fp_expected_device_id profile))
             (BootloaderMismatch version device_id)))) (a, v1) = (Inr x, s')"
    by (rule lifted_returned)
  obtain out1 err1 where q: "q = (out1, err1)" by (rule prod.exhaust)
  from entry q obtain v where v1: "v1 = (v, tr @ [Ran (line env (BootloaderEntry (fp_target_id profile))) w (Ended 0 out1 err1) v])"
    by (auto elim: checked_outcome)
  let ?tr1 = "tr @ [Ran (line env (BootloaderEntry (fp_target_id profile))) w (Ended 0 out1 err1) v]"
  from rest v1 have "fo_bind (fo_lift (run_checked (traced env) (BootloaderInfo device))) (\<lambda>(out, err).
          let version = grab ''Version'' (out @ err); device_id = grab ''Device ID'' (out @ err)
          in fo_unless (version = py_lower (fp_expected_bootloader_version profile) \<and> device_id = py_lower (fp_expected_device_id profile))
             (BootloaderMismatch version device_id)) (True, (fe_sleep env (1 / 2) v, ?tr1)) = (Inr x, s')"
    by (simp add: fo_bind_def fo_lift_def fo_sleep_def del: command_line.simps)
  then obtain q2 v2 where info: "run_checked (traced env) (BootloaderInfo device) (fe_sleep env (1 / 2) v, ?tr1) = (Inr q2, v2)"
    and verified: "(case q2 of (out, err) \<Rightarrow>
          let version = grab ''Version'' (out @ err); device_id = grab ''Device ID'' (out @ err)
          in fo_unless (version = py_lower (fp_expected_bootloader_version profile) \<and> device_id = py_lower (fp_expected_device_id profile))
             (BootloaderMismatch version device_id)) (True, v2) = (Inr x, s')"
    by (rule lifted_returned)
  obtain out err where q2: "q2 = (out, err)" by (rule prod.exhaust)
  from info q2 obtain w' where "v2 = (w', ?tr1 @ [Ran (line env (BootloaderInfo device)) (fe_sleep env (1 / 2) v) (Ended 0 out err) w'])"
    by (auto elim: checked_outcome)
  with verified q2 show ?thesis
    by (intro that [of w' out1 err1 v out err])
      (auto simp: Let_def fo_unless_def fo_return_def fo_raise_def simp del: command_line.simps split: if_splits)
qed

lemma restart_outcome:
  assumes "restart_application (traced env) profile (True, (w, tr)) = (Inr x, s')"
  obtains out err v where
    "s' = (False, (fe_sleep env (3 / 2) v, tr @ [Ran (line env (ApplicationRestart (fp_target_id profile))) w (Ended 0 out err) v]))"
proof -
  from assms have "fo_then (fo_lift (run_checked (traced env) (ApplicationRestart (fp_target_id profile))))
       (fo_then (\<lambda>(_, w). (Inr (), False, w)) (fo_lift (fo_sleep (traced env) (3 / 2)))) (True, (w, tr)) = (Inr x, s')"
    by (simp add: restart_application_def)
  then obtain q v1 where ran: "run_checked (traced env) (ApplicationRestart (fp_target_id profile)) (w, tr) = (Inr q, v1)"
    and rest: "fo_then (\<lambda>(_, w). (Inr (), False, w)) (fo_lift (fo_sleep (traced env) (3 / 2))) (True, v1) = (Inr x, s')"
    by (rule lifted_returned)
  obtain out err where q: "q = (out, err)" by (rule prod.exhaust)
  from ran q obtain v where "v1 = (v, tr @ [Ran (line env (ApplicationRestart (fp_target_id profile))) w (Ended 0 out err) v])"
    by (auto elim: checked_outcome)
  with rest show ?thesis
    by (intro that [of v out err]) (simp add: fo_bind_def fo_lift_def fo_sleep_def del: command_line.simps)
qed

lemma readback_outcome:
  assumes "readback_product (traced env) profile device path (w, tr) = (Inr x, s')"
  obtains out err v w' where
    "s' = (w', tr @ [Ran (line env (ReadFlash path (flash_region profile (fp_programmed_readback_bytes profile)) device)) w (Ended 0 out err) v])"
    "fe_chmod env 384 path v = (True, w')" "verify_programmed_readback (fe_sha env) (fe_files env w') profile path = Inr x"
proof -
  let ?read = "ReadFlash path (flash_region profile (fp_programmed_readback_bytes profile)) device"
  from assms obtain a v1 where got: "read_flash_file (traced env) profile (fp_programmed_readback_bytes profile) device path (w, tr) = (Inr a, v1)"
    and verified: "fo_verify (\<lambda>s. verify_programmed_readback (fe_sha (traced env)) (fe_files (traced env) s) profile path) v1 = (Inr x, s')"
    unfolding readback_product_def by (auto elim: fo_bind_outcome)
  from got obtain q v2 where ran: "run_checked (traced env) ?read (w, tr) = (Inr q, v2)" and mode: "fo_os (fe_chmod (traced env) 384 path) v2 = (Inr a, v1)"
    unfolding read_flash_file_def by (auto elim: fo_bind_outcome)
  obtain out err where q: "q = (out, err)" by (rule prod.exhaust)
  from ran q obtain v where v2: "v2 = (v, tr @ [Ran (line env ?read) w (Ended 0 out err) v])" by (auto elim: checked_outcome)
  obtain ok w' where changed: "fe_chmod env 384 path v = (ok, w')" by (rule prod.exhaust)
  with mode v2 have "ok" and v1: "v1 = (w', tr @ [Ran (line env ?read) w (Ended 0 out err) v])"
    by (auto simp: fo_os_def simp del: command_line.simps split: if_splits)
  from verified v1 have "s' = v1" "verify_programmed_readback (fe_sha env) (fe_files env w') profile path = Inr x"
    by (auto simp: fo_verify_def split: sum.splits)
      (cases "verify_programmed_readback (fe_sha env) (fe_files env w') profile path"; simp)
  with \<open>ok\<close> v1 changed show ?thesis by (intro that [of w' out err v]) auto
qed

subsection \<open>The main flash\<close>

definition rom_verified :: "firmware_profile \<Rightarrow> string \<Rightarrow> bool" where
  "rom_verified profile output \<longleftrightarrow>
     grab ''Version'' output = py_lower (fp_expected_bootloader_version profile) \<and>
     grab ''Device ID'' output = py_lower (fp_expected_device_id profile)"

abbreviation confirmation_prompt :: "firmware_profile \<Rightarrow> string" where
  "confirmation_prompt profile \<equiv> ''Type '' @ fp_final_write_confirmation profile @ '' to write the exact qualified image: ''"

abbreviation readback_command :: "firmware_profile \<Rightarrow> string \<Rightarrow> string \<Rightarrow> command" where
  "readback_command profile device path \<equiv> ReadFlash path (flash_region profile (fp_programmed_readback_bytes profile)) device"

lemma unwritten_tail:
  "fo_keeps (boot_kept (grown tr) (grown tr))
     (fo_then (fo_lift (readback_product (traced env) profile device path)) (fo_then (restart_application (traced env) profile) (fo_return b)))"
  by (intro flash_keeps unwritten.boot_restart unwritten.boot_lift unwritten.application.keeps_readback) simp_all

lemma unwritten_enter: "fo_keeps (boot_kept (grown tr) (grown tr)) (bootloader_enter (traced env) profile device)"
  by (intro unwritten.boot_enter) simp

lemma grown_more: "grown (tr @ evs) s \<Longrightarrow> list_all (\<lambda>e. \<not> writes_flash e) evs \<Longrightarrow> grown tr s"
  by (rule grown_trans [of tr "(fst s, tr @ evs)"]) (auto simp: grown_def)

lemma write_then_tail:
  assumes "fo_then (fo_lift (run_checked (traced env) c))
      (fo_then (fo_lift (readback_product (traced env) profile device path)) (fo_then (restart_application (traced env) profile) (fo_return True)))
      (b, (w, tr)) = (r, (a, s'))"
  obtains p w' where "grown (tr @ [Ran (line env c) w p w']) s'"
  using assms
proof (cases rule: fo_bind_outcome)
  case (raised x)
  then have "run_checked (traced env) c (w, tr) = (Inl x, s')" by (simp only: fo_lift_outcome)
  then obtain p w' where "s' = (w', tr @ [Ran (line env c) w p w'])" by (rule checked_outcome)
  then show ?thesis by (intro that [of p w']) (simp only: grown_refl)
next
  case (returned q v)
  obtain b' s where v: "v = (b', s)" by (rule prod.exhaust)
  with returned(1) have "run_checked (traced env) c (w, tr) = (Inr q, s)" by (simp only: fo_lift_outcome)
  then obtain p w' where s: "s = (w', tr @ [Ran (line env c) w p w'])" by (rule checked_outcome)
  from keepsD [OF unwritten_tail returned(2) [unfolded v s], of "tr @ [Ran (line env c) w p w']"]
  show ?thesis by (intro that) simp
qed

lemma enter_then_write:
  assumes "fo_then (bootloader_enter (traced env) profile device)
      (fo_then (fo_lift (run_checked (traced env) c))
      (fo_then (fo_lift (readback_product (traced env) profile device path)) (fo_then (restart_application (traced env) profile) (fo_return True))))
      (b, (w, tr)) = (r, (a, s'))"
  obtains (before) "grown tr s'"
  | (after) o1 e1 v o2 e2 w2 p w3 where "rom_verified profile (o2 @ e2)"
    "grown (tr @ [Ran (line env (BootloaderEntry (fp_target_id profile))) w (Ended 0 o1 e1) v,
        Ran (line env (BootloaderInfo device)) (fe_sleep env (1 / 2) v) (Ended 0 o2 e2) w2, Ran (line env c) w2 p w3]) s'"
  using assms
proof (cases rule: fo_bind_outcome)
  case (raised x)
  from keepsD [OF unwritten_enter raised(1), of tr] show ?thesis by (intro before) simp
next
  case (returned u v2)
  from returned(1) obtain o1 e1 v o2 e2 w2 where
    v2: "v2 = (True, (w2, tr @ [Ran (line env (BootloaderEntry (fp_target_id profile))) w (Ended 0 o1 e1) v,
        Ran (line env (BootloaderInfo device)) (fe_sleep env (1 / 2) v) (Ended 0 o2 e2) w2]))"
    and rom: "rom_verified profile (o2 @ e2)"
    unfolding rom_verified_def by (rule enter_outcome) blast
  from returned(2) [unfolded v2] obtain p w3 where
    "grown ((tr @ [Ran (line env (BootloaderEntry (fp_target_id profile))) w (Ended 0 o1 e1) v,
        Ran (line env (BootloaderInfo device)) (fe_sleep env (1 / 2) v) (Ended 0 o2 e2) w2]) @ [Ran (line env c) w2 p w3]) s'"
    by (rule write_then_tail)
  then show ?thesis by (intro after [OF rom]) (simp only: append.assoc append.simps)
qed

lemma lifted_bind: "m s = (Inr x, s') \<Longrightarrow> fo_bind (fo_lift m) f (l, s) = f x (l, s')"
  by (simp add: fo_bind_def fo_lift_def)

lemma write_outcome:
  assumes "verify_or_write (traced env) args profile backup_dir identity path (False, (w, tr)) = (r, (a, s'))"
  obtains (quiet) "grown tr s'"
  | (written) directory digest response w1 o1 e1 v o2 e2 w2 p w3 where
    "verify_stock_backup (fe_sha env) (fe_parse env) (fe_files env w) profile directory = Inr digest"
    "py_strip response = fp_final_write_confirmation profile" "rom_verified profile (o2 @ e2)"
    "grown (tr @ [Asked (confirmation_prompt profile) w (Some response) w1,
        Ran (line env (BootloaderEntry (fp_target_id profile))) w1 (Ended 0 o1 e1) v,
        Ran (line env (BootloaderInfo (fa_device args))) (fe_sleep env (1 / 2) v) (Ended 0 o2 e2) w2,
        Ran (line env (WriteFlash (firmware_path (traced env) args profile) (fa_device args))) w2 p w3]) s'"
proof (cases "identity = fp_expected_identity profile \<and> \<not> fa_force_reflash args")
  case True
  let ?m = "fo_then (bootloader_enter (traced env) profile (fa_device args))
       (fo_then (fo_lift (readback_product (traced env) profile (fa_device args) path))
       (fo_then (restart_application (traced env) profile) (fo_return False)))"
  have kept: "fo_keeps (boot_kept (grown tr) (grown tr)) ?m" by (rule keeps_bind [OF unwritten_enter unwritten_tail])
  from assms True have "?m (False, (w, tr)) = (r, (a, s'))" by (simp add: verify_or_write_def)
  from keepsD [OF kept this] show ?thesis by (intro quiet) simp
next
  case False
  note run = assms [unfolded verify_or_write_def if_not_P [OF False]]
  show ?thesis
  proof (cases backup_dir)
    case None
    with run have "s' = (w, tr)" by (simp add: fo_raise_def)
    then show ?thesis by (intro quiet) simp
  next
    case (Some directory)
    let ?backup = "verify_stock_backup (fe_sha env) (fe_parse env) (fe_files env w) profile directory"
    note run = run [unfolded Some option.case]
    show ?thesis
    proof (cases ?backup)
      case (Inl x)
      with run have "s' = (w, tr)" by (simp add: fo_bind_def fo_lift_def fo_verify_def)
      then show ?thesis by (intro quiet) simp
    next
      case backup: (Inr digest)
      obtain r1 w1 tr1 where asked: "ask_confirmation (traced env) profile (w, tr) = (r1, (w1, tr1))" by (rule prod_cases3)
      show ?thesis
      proof (cases r1)
        case (Inl x)
        with run backup asked have "s' = (w1, tr1)" by (simp add: fo_bind_def fo_lift_def fo_verify_def)
        with keepsD [OF unwritten.application.keeps_ask asked, of tr] show ?thesis by (intro quiet) simp
      next
        case (Inr u)
        with asked obtain response where tr1: "tr1 = tr @ [Asked (confirmation_prompt profile) w (Some response) w1]"
          and typed: "py_strip response = fp_final_write_confirmation profile"
          by (auto elim: ask_outcome)
        let ?check = "fo_verify (\<lambda>w. verify_stock_backup (fe_sha (traced env)) (fe_parse (traced env)) (fe_files (traced env) w) profile directory)"
        have verified: "?check (w, tr) = (Inr digest, (w, tr))" by (simp add: fo_verify_def backup)
        note run [unfolded lifted_bind [of ?check "(w, tr)" digest "(w, tr)", OF verified]
            lifted_bind [of "ask_confirmation (traced env) profile" "(w, tr)" u "(w1, tr1)", OF asked [unfolded Inr]]]
        then show ?thesis
        proof (cases rule: enter_then_write)
          case before
          then show ?thesis unfolding tr1 by (intro quiet) (erule grown_more, simp)
        next
          case (after o1 e1 v o2 e2 w2 p w3)
          from after(2) show ?thesis
            by (intro written [OF backup typed after(1)]) (simp only: tr1 append.assoc append.simps)
        qed
      qed
    qed
  qed
qed

text \<open>What precedes a write: the typed confirmation, the entry and the identification of the boot ROM.\<close>

definition clearing :: "'w flash_env \<Rightarrow> flash_args \<Rightarrow> firmware_profile \<Rightarrow> 'w \<Rightarrow> string \<Rightarrow> 'w \<Rightarrow> string \<times> string \<Rightarrow> 'w \<Rightarrow> string \<times> string \<Rightarrow> 'w \<Rightarrow> 'w flash_trace" where
  "clearing env args profile w response w1 entered v info w2 =
     [Asked (confirmation_prompt profile) w (Some response) w1,
      Ran (line env (BootloaderEntry (fp_target_id profile))) w1 (Ended 0 (fst entered) (snd entered)) v,
      Ran (line env (BootloaderInfo (fa_device args))) (fe_sleep env (1 / 2) v) (Ended 0 (fst info) (snd info)) w2]"

abbreviation write_event :: "'w flash_env \<Rightarrow> flash_args \<Rightarrow> firmware_profile \<Rightarrow> 'w \<Rightarrow> process \<Rightarrow> 'w \<Rightarrow> 'w flash_event" where
  "write_event env args profile w p w' \<equiv> Ran (line env (WriteFlash (firmware_path env args profile) (fa_device args))) w p w'"

lemma firmware_path_traced [simp]: "firmware_path (traced env) args profile = firmware_path env args profile"
  by (simp add: firmware_path_def)

lemma clearing_quiet: "list_all (\<lambda>e. \<not> writes_flash e) (clearing env args profile w response w1 entered v info w2)"
  by (simp add: clearing_def only_write_writes del: writes_flash.simps(1) command_line.simps)

lemma unwritten_rest:
  "fo_keeps (grown tr)
     (fo_bind (probe_identity (traced env) device target_id) (\<lambda>post.
      fo_then (fo_unless (post = expected) (PostIdentity post)) (write_ready_record (traced env) profile post backup_dir b)))"
  by (intro flash_keeps unwritten.application.keeps_probe unwritten.application.keeps_ready) simp

lemma booted_outcome:
  assumes "fo_let False (fo_finally m f) s = (r, s')"
  obtains r1 a1 s1 r2 a2 where "m (False, s) = (r1, (a1, s1))" "f (a1, s1) = (r2, (a2, s'))" "r = (case r2 of Inl x \<Rightarrow> Inl x | Inr _ \<Rightarrow> r1)"
proof -
  obtain r1 a1 s1 where m: "m (False, s) = (r1, (a1, s1))" by (rule prod_cases3)
  obtain r2 a2 s2 where f: "f (a1, s1) = (r2, (a2, s2))" by (rule prod_cases3)
  from assms m f have "s2 = s'" "r = (case r2 of Inl x \<Rightarrow> Inl x | Inr _ \<Rightarrow> r1)"
    by (auto simp: fo_let_def fo_finally_def split: sum.splits)
  with m f show ?thesis using that by blast
qed

lemma deploy_write:
  assumes "fo_bind
       (fo_let False
          (fo_finally (verify_or_write (traced env) args profile backup_dir identity path)
             (fo_then (bootloader_cleanup (traced env) profile) (fo_lift (fo_os (fe_unlink (traced env) path)))))) (\<lambda>flash_written.
     fo_bind (probe_identity (traced env) device (fp_target_id profile)) (\<lambda>post.
     fo_then (fo_unless (post = fp_expected_identity profile) (PostIdentity post))
       (write_ready_record (traced env) profile post backup_dir flash_written))) (w, tr) = (r, s')"
  obtains (quiet) "grown tr s'"
  | (written) directory digest response w1 entered v info w2 p w3 where
    "verify_stock_backup (fe_sha env) (fe_parse env) (fe_files env w) profile directory = Inr digest"
    "py_strip response = fp_final_write_confirmation profile" "rom_verified profile (fst info @ snd info)"
    "grown (tr @ clearing env args profile w response w1 entered v info w2 @ [write_event env args profile w2 p w3]) s'"
proof -
  let ?finish = "fo_then (bootloader_cleanup (traced env) profile) (fo_lift (fo_os (fe_unlink (traced env) path)))"
  let ?booted = "fo_let False (fo_finally (verify_or_write (traced env) args profile backup_dir identity path) ?finish)"
  obtain rb sb where booted: "?booted (w, tr) = (rb, sb)" by (rule prod.exhaust)
  then obtain r1 a1 s1 r2 a2 where vw: "verify_or_write (traced env) args profile backup_dir identity path (False, (w, tr)) = (r1, (a1, s1))"
    and fin: "?finish (a1, s1) = (r2, (a2, sb))" by (rule booted_outcome)
  have finished: "grown tr' sb" if "grown tr' s1" for tr'
    using unwritten.boot_finish [of tr' "(a1, s1)" env profile path] that fin by simp
  have rest: "grown tr' s'" if "grown tr' sb" for tr'
    using assms booted that keepsD [OF unwritten_rest [of tr' env device "fp_target_id profile" "fp_expected_identity profile" profile backup_dir]]
    by (cases rb) (auto simp: fo_bind_def [of ?booted])
  from vw show ?thesis
  proof (cases rule: write_outcome)
    case quiet
    then show ?thesis by (intro that(1) rest finished)
  next
    case (written directory digest response w1 o1 e1 v o2 e2 w2 p w3)
    show ?thesis
    proof (rule that(2) [OF written(1,2)])
      show "rom_verified profile (fst (o2, e2) @ snd (o2, e2))" using written(3) by simp
      show "grown (tr @ clearing env args profile w response w1 (o1, e1) v (o2, e2) w2 @ [write_event env args profile w2 p w3]) s'"
        using written(4) by (intro rest finished) (simp only: clearing_def append.simps fst_conv snd_conv firmware_path_traced)
    qed
  qed
qed

text \<open>Everything that is proved before a write, as the record before it shows; \<open>v\<close> is the world in which the write begins.\<close>

definition write_cleared :: "'w flash_env \<Rightarrow> flash_args \<Rightarrow> firmware_profile \<Rightarrow> json_object \<Rightarrow> 'w flash_trace \<Rightarrow> 'w \<Rightarrow> bool" where
  "write_cleared env args profile target before v \<longleftrightarrow>
     fa_mode args = ModeFlash \<and> fa_authorize args = fp_flash_authorization_token profile \<and>
     (\<exists>start v0 out err v1 identity preparation v2 directory response v3 entered v4 info.
        before = start @ [Ran (line env (ProbeHat (fa_device args))) v0 (Ended 0 out err) v1] @ preparation @
          clearing env args profile v2 response v3 entered v4 info v \<and>
        reported_identity env (fp_target_id profile) out = Inr identity \<and>
        fst (accepted_identity env target identity v1) = Inr True \<and>
        verify_artifact (fe_sha env) (fe_files env v1) profile (firmware_path env args profile) = Inr (fp_artifact_sha256 profile) \<and>
        verify_stock_backup (fe_sha env) (fe_parse env) (fe_files env v2) profile directory = Inr (fp_stock_flash_sha256 profile) \<and>
        py_strip response = fp_final_write_confirmation profile \<and> rom_verified profile (fst info @ snd info))"

text \<open>A record of at most one write, at which everything is proved.\<close>

definition guarded :: "'w flash_env \<Rightarrow> flash_args \<Rightarrow> firmware_profile \<Rightarrow> json_object \<Rightarrow> 'w flash_trace \<Rightarrow> bool" where
  "guarded env args profile target tr \<longleftrightarrow>
     list_all (\<lambda>e. \<not> writes_flash e) tr \<or>
     (\<exists>before v p v' after. tr = before @ [write_event env args profile v p v'] @ after \<and>
        list_all (\<lambda>e. \<not> writes_flash e) (before @ after) \<and> write_cleared env args profile target before v)"

lemma guarded_more: "guarded env args profile target tr \<Longrightarrow> grown tr s \<Longrightarrow> guarded env args profile target (snd s)"
proof -
  assume guarded: "guarded env args profile target tr" and "grown tr s"
  then obtain evs where s: "snd s = tr @ evs" "list_all (\<lambda>e. \<not> writes_flash e) evs" by (auto simp: grown_def)
  from guarded [unfolded guarded_def] show "guarded env args profile target (snd s)"
  proof (elim disjE exE conjE)
    fix before v p v' after assume "tr = before @ [write_event env args profile v p v'] @ after"
      "list_all (\<lambda>e. \<not> writes_flash e) (before @ after)" "write_cleared env args profile target before v"
    with s have "snd s = before @ [write_event env args profile v p v'] @ (after @ evs)"
      "list_all (\<lambda>e. \<not> writes_flash e) (before @ (after @ evs))" by simp_all
    with \<open>write_cleared _ _ _ _ _ _\<close> show ?thesis unfolding guarded_def by blast
  qed (use s in \<open>simp add: guarded_def\<close>)
qed

lemma stock_digest: "verify_stock_backup sha parse fs p directory = Inr digest \<Longrightarrow> digest = fp_stock_flash_sha256 p"
  by (drule verify_backup_image) auto

lemma artifact_digest: "verify_artifact sha fs p path = Inr digest \<Longrightarrow> digest = fp_artifact_sha256 p"
  by (auto simp: verify_artifact_iff)

lemma clearance:
  assumes "fa_mode args = ModeFlash" "fa_authorize args = fp_flash_authorization_token profile"
    "reported_identity env (fp_target_id profile) out = Inr identity" "fst (accepted_identity env target identity w) = Inr True"
    "verify_artifact (fe_sha env) (fe_files env w) profile (firmware_path env args profile) = Inr digest"
    and quiet: "list_all (\<lambda>e. \<not> writes_flash e) start" "list_all (\<lambda>e. \<not> writes_flash e) preparation"
    and "fo_bind
       (fo_let False
          (fo_finally (verify_or_write (traced env) args profile backup_dir identity' path)
             (fo_then (bootloader_cleanup (traced env) profile) (fo_lift (fo_os (fe_unlink (traced env) path)))))) (\<lambda>flash_written.
     fo_bind (probe_identity (traced env) (fa_device args) (fp_target_id profile)) (\<lambda>post.
     fo_then (fo_unless (post = fp_expected_identity profile) (PostIdentity post))
       (write_ready_record (traced env) profile post backup_dir flash_written)))
     (w2, start @ [Ran (line env (ProbeHat (fa_device args))) v0 (Ended 0 out err) w] @ preparation) = (r, s')"
  shows "guarded env args profile target (snd s')"
proof -
  let ?probe = "Ran (line env (ProbeHat (fa_device args))) v0 (Ended 0 out err) w"
  have tr: "list_all (\<lambda>e. \<not> writes_flash e) (start @ [?probe] @ preparation)"
    using quiet by (simp add: only_write_writes del: writes_flash.simps(1) command_line.simps)
  from assms(8) show ?thesis
  proof (cases rule: deploy_write)
    case quiet
    from guarded_more [OF _ quiet] tr show ?thesis by (simp add: guarded_def del: list_all_append append.simps command_line.simps)
  next
    case (written directory backup_digest response w1 entered v info w3 p w4)
    let ?before = "start @ [?probe] @ preparation @ clearing env args profile w2 response w1 entered v info w3"
    have "write_cleared env args profile target ?before w3"
      unfolding write_cleared_def
      using assms(1-4) written(2,3) assms(5) [unfolded artifact_digest [OF assms(5)]] written(1) [unfolded stock_digest [OF written(1)]]
      by - (intro conjI, assumption+, rule exI [of _ start], rule exI [of _ v0], rule exI [of _ out], rule exI [of _ err], rule exI [of _ w], rule exI [of _ identity],
        rule exI [of _ preparation], rule exI [of _ w2], rule exI [of _ directory], rule exI [of _ response], rule exI [of _ w1], rule exI [of _ entered], rule exI [of _ v], rule exI [of _ info],
        intro conjI, rule refl, assumption+)
    moreover have "list_all (\<lambda>e. \<not> writes_flash e) (?before @ [])"
      using tr clearing_quiet [of env args profile w2 response w1 entered v info w3] by (simp del: append.simps command_line.simps)
    ultimately have "guarded env args profile target (?before @ [write_event env args profile w3 p w4] @ [])"
      unfolding guarded_def by blast
    from guarded_more [OF this, of s'] written(4) show ?thesis by (simp only: append.assoc append_Nil2)
  qed
qed

lemma deploy_guarded:
  assumes run: "flash_deploy (traced env) args profile target identity (w, tr @ [Ran (line env (ProbeHat (fa_device args))) v0 (Ended 0 out err) w]) = (r, s')"
    and mode: "fa_mode args = ModeFlash" and reported: "reported_identity env (fp_target_id profile) out = Inr identity"
    and accepted: "fst (accepted_identity env target identity w) = Inr True" and quiet: "list_all (\<lambda>e. \<not> writes_flash e) tr"
  shows "guarded env args profile target (snd s')"
proof -
  let ?tr = "tr @ [Ran (line env (ProbeHat (fa_device args))) v0 (Ended 0 out err) w]"
  have "list_all (\<lambda>e. \<not> writes_flash e) ?tr" using quiet by (simp add: only_write_writes del: writes_flash.simps(1) command_line.simps)
  then have "guarded env args profile target ?tr" unfolding guarded_def ..
  then have unwritten: "guarded env args profile target (snd s)" if "grown ?tr s" for s using that by (rule guarded_more)
  let ?artifact = "verify_artifact (fe_sha env) (fe_files env w) profile (firmware_path env args profile)"
  from run [unfolded flash_deploy_def] show ?thesis
  proof (cases rule: fo_bind_outcome)
    case (raised x)
    then have "s' = (w, ?tr)" by (simp add: fo_unless_def fo_return_def fo_raise_def split: if_splits)
    then show ?thesis by (intro unwritten) simp
  next
    case (returned u s0)
    then have s0: "s0 = (w, ?tr)" and authorized: "fa_authorize args = fp_flash_authorization_token profile"
      by (simp_all add: fo_unless_def fo_return_def fo_raise_def split: if_splits)
    from returned(2) [unfolded s0] show ?thesis
    proof (cases rule: fo_bind_outcome)
      case (raised x)
      then have "s' = (w, ?tr)" by (simp add: fo_verify_def)
      then show ?thesis by (intro unwritten) simp
    next
      case (returned digest s1)
      then have s1: "s1 = (w, ?tr)" and artifact: "?artifact = Inr digest" by (cases ?artifact; simp add: fo_verify_def)+
      from returned(2) [unfolded s1] show ?thesis
      proof (cases rule: fo_bind_outcome)
        case (raised x)
        show ?thesis by (intro unwritten keepsD [OF unwritten.keeps_select raised(1)]) simp_all
      next
        case (returned backup_dir s2)
        have s2: "grown ?tr s2" by (rule keepsD [OF unwritten.keeps_select returned(1)]) simp_all
        from returned(2) show ?thesis
        proof (cases rule: fo_bind_outcome)
          case (raised x)
          show ?thesis by (intro unwritten keepsD [OF unwritten.application.keeps_mkstemp raised(1) s2])
        next
          case (returned path s3)
          have "grown ?tr s3" by (rule keepsD [OF unwritten.application.keeps_mkstemp returned(1) s2])
          then obtain preparation where "snd s3 = ?tr @ preparation" and prepared: "list_all (\<lambda>e. \<not> writes_flash e) preparation"
            by (auto simp: grown_def)
          then obtain w3 where s3: "s3 = (w3, tr @ [Ran (line env (ProbeHat (fa_device args))) v0 (Ended 0 out err) w] @ preparation)"
            by (cases s3) simp
          show ?thesis
            by (rule clearance [OF mode authorized reported accepted artifact quiet prepared returned(2) [unfolded s3]])
        qed
      qed
    qed
  qed
qed

lemma body_guarded:
  assumes run: "flash_body (traced env) args profile target (w, tr) = (r, s')" and quiet: "list_all (\<lambda>e. \<not> writes_flash e) tr"
    and mode: "fa_mode args = ModeFlash"
  shows "guarded env args profile target (snd s')"
proof -
  from quiet have "guarded env args profile target tr" unfolding guarded_def ..
  then have unwritten: "guarded env args profile target (snd s)" if "grown tr s" for s using that by (rule guarded_more)
  from run [unfolded flash_body_def] show ?thesis
  proof (cases rule: fo_bind_outcome)
    case (raised x)
    show ?thesis by (intro unwritten keepsD [OF unwritten.application.keeps_probe raised(1)]) simp_all
  next
    case (returned identity s1)
    from returned(1) obtain v out err where s1: "s1 = (v, tr @ [Ran (line env (ProbeHat (fa_device args))) w (Ended 0 out err) v])"
      and reported: "reported_identity env (fp_target_id profile) out = Inr identity"
      by (rule probe_outcome) auto
    have "grown tr s1" by (rule keepsD [OF unwritten.application.keeps_probe returned(1)]) simp_all
    from returned(2) [unfolded s1] show ?thesis
    proof (cases rule: fo_bind_outcome)
      case (raised x)
      then have "s' = s1" by (simp add: accepted_traced [of env target identity v _ v] s1)
      with \<open>grown tr s1\<close> show ?thesis by (simp add: unwritten)
    next
      case (returned ok s2)
      then have s2: "s2 = s1" and ok: "fst (accepted_identity env target identity v) = Inr ok"
        by (simp_all add: accepted_traced [of env target identity v _ v] s1)
      show ?thesis
      proof (cases ok)
        case False
        with returned(2) have "s' = s1" by (simp add: fo_bind_def fo_unless_def fo_raise_def s2)
        with \<open>grown tr s1\<close> show ?thesis by (simp add: unwritten)
      next
        case True
        with returned(2) mode have "flash_deploy (traced env) args profile target identity s1 = (r, s')"
          by (simp add: fo_bind_def fo_unless_def fo_return_def s2)
        moreover from ok True have "fst (accepted_identity env target identity v) = Inr True" by simp
        ultimately show ?thesis using deploy_guarded [OF _ mode reported _ quiet] s1 by blast
      qed
    qed
  qed
qed

lemma lifted_outcome:
  assumes "fo_bind (fo_lift m) f (l, s) = (r, (l', s'))"
  obtains (raised) x where "m s = (Inl x, s')" "r = Inl x" | (returned) a v where "m s = (Inr a, v)" "f a (l, v) = (r, (l', s'))"
  using assms by (auto simp: fo_bind_def fo_lift_def split: prod.splits sum.splits)

text \<open>The body runs once between silent operations, or not at all.\<close>

lemma owners_before:
  assumes "fo_then (stop_units (traced env) us) (fo_then (fo_lift (fo_sleep (traced env) t))
      (fo_bind (fo_lift (uart_busy (traced env) device)) (\<lambda>busy.
         if busy then fo_then (fo_lift (run_unchecked (traced env) (FuserVerbose device))) (fo_raise e) else fo_lift body))) (l, s) = (r, (l', s'))"
  obtains (quiet) "grown (snd s) s'" "isl r" | (served) s1 where "grown (snd s) s1" "body s1 = (r, s')"
  using assms
proof (cases rule: fo_bind_outcome)
  case (raised x)
  have "fo_keeps (\<lambda>(l, w). grown (snd s) w) (stop_units (traced env) us)" by (rule unwritten.application.keeps_stop) simp
  from keepsD [OF this raised(1)] raised(2) show ?thesis by (intro quiet) (cases s; simp)+
next
  case (returned u v)
  obtain l1 s1 where v: "v = (l1, s1)" by (rule prod.exhaust)
  have "fo_keeps (\<lambda>(l, w). grown (snd s) w) (stop_units (traced env) us)" by (rule unwritten.application.keeps_stop) simp
  from keepsD [OF this returned(1)] v have s1: "grown (snd s) s1" by (cases s) simp
  from returned(2) [unfolded v] show ?thesis
  proof (cases rule: lifted_outcome)
    case (raised x)
    from keepsD [OF unwritten.application.keeps_sleep raised(1) s1] raised(2) show ?thesis by (intro quiet) simp_all
  next
    case (returned u2 s2)
    from keepsD [OF unwritten.application.keeps_sleep returned(1) s1] have s2: "grown (snd s) s2" .
    have busy: "fo_keeps (grown tr) (uart_busy (traced env) device)" for tr
      unfolding uart_busy_def by (intro flash_keeps unwritten.application.keeps_unchecked) (auto simp: flash_keeps)
    from returned(2) show ?thesis
    proof (cases rule: lifted_outcome)
      case (raised x)
      from keepsD [OF busy raised(1) s2] raised(2) show ?thesis by (intro quiet) simp_all
    next
      case (returned b s3)
      from keepsD [OF busy returned(1) s2] have s3: "grown (snd s) s3" .
      show ?thesis
      proof (cases b)
        case False
        with returned(2) have "body s3 = (r, s')" by (simp add: fo_lift_outcome)
        with s3 show ?thesis by (rule served)
      next
        case True
        have "fo_keeps (\<lambda>(l, w). grown (snd s) w) (fo_then (fo_lift (run_unchecked (traced env) (FuserVerbose device))) (fo_raise e))"
          by (intro flash_keeps unwritten.application.keeps_unchecked) simp
        from keepsD [OF this, of "(l1, s3)" r "(l', s')"] returned(2) True s3 show ?thesis
          by (intro quiet) (auto simp: fo_bind_def fo_raise_def split: prod.splits sum.splits)
      qed
    qed
  qed
qed

lemma owners_outcome:
  assumes "stopped_known_modem_owners (traced env) device restore body s = (r, s')"
  obtains (quiet) "grown (snd s) s'" | (served) s1 r1 s2 where "grown (snd s) s1" "body s1 = (r1, s2)" "grown (snd s2) s'"
proof -
  let ?whole = "fo_then (stop_units (traced env) KNOWN_MODEM_UNITS) (fo_then (fo_lift (fo_sleep (traced env) (1 / 4)))
      (fo_bind (fo_lift (uart_busy (traced env) device)) (\<lambda>busy.
         if busy then fo_then (fo_lift (run_unchecked (traced env) (FuserVerbose device))) (fo_raise (FlashError UartOwned)) else fo_lift body)))"
  let ?restore = "\<lambda>(active, w). fo_lift (if restore then start_units (traced env) active else fo_return ()) (active, w)"
  obtain r1 l1 s1 where whole: "?whole ([], s) = (r1, (l1, s1))" by (rule prod_cases3)
  obtain r2 l2 s2 where "?restore (l1, s1) = (r2, (l2, s2))" by (rule prod_cases3)
  with assms whole have restored: "?restore (l1, s1) = (r2, (l2, s'))"
    by (auto simp: stopped_known_modem_owners_def fo_let_def fo_finally_def split: sum.splits)
  have keep: "fo_keeps (\<lambda>(l, w). grown tr w) ?restore" for tr
    by (rule unwritten.application.keeps_restore) simp
  have after: "grown tr s'" if "grown tr s1" for tr
    using keepsD [OF keep restored, of tr] that by simp
  from whole show ?thesis
  proof (cases rule: owners_before)
    case quiet
    then show ?thesis by (intro that(1) after)
  next
    case (served s0)
    show ?thesis by (rule that(2) [OF served]) (rule after, cases s1, simp)
  qed
qed

lemma main_guarded:
  assumes "flash_main (traced env) args (w, []) = (r, (w', tr))"
  obtains (quiet) "list_all (\<lambda>e. \<not> writes_flash e) tr"
  | (deployed) profile target where "fst (flash_setup env args w) = Inr (profile, target)" "guarded env args profile target tr"
proof (cases "fa_mode args = ModeFlash")
  case False
  have "fo_keeps (grown []) (flash_main (traced env) args)" by (rule unwritten.keeps_main) (use False in auto)
  from keepsD [OF this assms] show ?thesis by (intro quiet) (simp add: grown_def)
next
  case mode: True
  show ?thesis
  proof (cases "fst (flash_setup env args w)")
    case (Inl x)
    with assms have "tr = []" by (auto simp: flash_main_def fo_bind_def setup_traced split: if_splits)
    then show ?thesis by (intro quiet) simp
  next
    case (Inr pt)
    obtain profile target where pt: "pt = (profile, target)" by (rule prod.exhaust)
    obtain r1 s1 where owners: "stopped_known_modem_owners (traced env) (fa_device args) (fa_mode args \<noteq> ModeFlash)
        (flash_body (traced env) args profile target) (w, []) = (r1, s1)" by (rule prod.exhaust)
    with assms Inr pt have s1: "s1 = (w', tr)" by (cases r1) (auto simp: flash_main_def fo_bind_def setup_traced)
    from owners show ?thesis
    proof (cases rule: owners_outcome)
      case quiet
      then show ?thesis using s1 by (intro that(1)) (simp add: grown_def)
    next
      case (served s2 r2 s3)
      obtain w2 tr2 where s2: "s2 = (w2, tr2)" by (rule prod.exhaust)
      with served(1) have "list_all (\<lambda>e. \<not> writes_flash e) tr2" by (simp add: grown_def)
      from body_guarded [OF served(2) [unfolded s2] this mode] have "guarded env args profile target (snd s3)" .
      from guarded_more [OF this served(3)] s1 have "guarded env args profile target tr" by simp
      with Inr pt show ?thesis by (intro that(2)) simp_all
    qed
  qed
qed

lemma only_one:
  assumes "b @ [x] @ a = before @ e # after" "list_all (\<lambda>e. \<not> P e) (b @ a)" "P e"
  shows "before = b \<and> e = x \<and> after = a"
  using assms by (auto simp: append_eq_append_conv2 Cons_eq_append_conv append_eq_Cons_conv)

lemma map_Inl_Inr: "map_sum f id x = Inr y \<longleftrightarrow> x = Inr y"
  by (cases x) auto

lemma setup_profile: "fst (flash_setup env args w) = Inr (profile, target) \<Longrightarrow> profile_ok profile"
  unfolding flash_setup_def
  by (auto simp: fo_bind_def fo_return_def fo_verify_def load_profile_def try_bind_Inr_iff map_Inl_Inr
      split: prod.splits sum.splits dest!: profile_of_ok)

text \<open>
  C11. The main flash is written only when everything is proved. However the tool runs and ends, it writes at most once. Before the write it has loaded a safe
  profile, found the provenance and the target in order, been asked to flash with the authorization token, had the running
  firmware identify itself as one the target accepts, verified the artifact that is written, verified a stock backup, read the typed
  confirmation right after that, and entered the boot ROM and found its version and device to be the expected ones right before the write.
\<close>

theorem flash_write_guarded:
  assumes "flash_main (traced env) args (w, []) = (r, (w', tr))" and "tr = before @ e # after" and "writes_flash e"
  shows "\<exists>profile target v p v'.
    fst (flash_setup env args w) = Inr (profile, target) \<and> profile_ok profile \<and>
    e = Ran (line env (WriteFlash (firmware_path env args profile) (fa_device args))) v p v' \<and>
    write_cleared env args profile target before v \<and> list_all (\<lambda>e. \<not> writes_flash e) (before @ after)"
  using assms(1)
proof (cases rule: main_guarded)
  case quiet
  with assms(2,3) show ?thesis by simp
next
  case (deployed profile target)
  from deployed(2) [unfolded guarded_def] show ?thesis
  proof (elim disjE exE conjE)
    fix b v p v' a assume *: "tr = b @ [write_event env args profile v p v'] @ a" "list_all (\<lambda>e. \<not> writes_flash e) (b @ a)"
      "write_cleared env args profile target b v"
    from only_one [of b "write_event env args profile v p v'" a before e after writes_flash] * assms(2,3)
    have "before = b \<and> e = write_event env args profile v p v' \<and> after = a" by simp
    with * deployed(1) setup_profile [OF deployed(1)] show ?thesis by blast
  qed (use assms(2,3) in simp)
qed

subsection \<open>Success\<close>

lemma bind_returned:
  assumes "fo_bind m f s = (Inr x, s')"
  obtains a v where "m s = (Inr a, v)" "f a v = (Inr x, s')"
  using assms by (auto simp: fo_bind_def split: prod.splits sum.splits)

definition readback_proved ::
  "'w flash_env \<Rightarrow> flash_args \<Rightarrow> firmware_profile \<Rightarrow> string \<Rightarrow> 'w flash_trace \<Rightarrow> bool" where
  "readback_proved env args profile path evs \<longleftrightarrow>
     (\<exists>v0 o1 e1 v1 v2 o2 e2 v3 data.
        evs = [Ran (line env (readback_command profile (fa_device args) path)) v0 (Ended 0 o1 e1) v1,
               Ran (line env (ApplicationRestart (fp_target_id profile))) v2 (Ended 0 o2 e2) v3] \<and>
        fe_chmod env 384 path v1 = (True, v2) \<and> fe_files env v2 path = Some data \<and>
        int (length data) = fp_programmed_readback_bytes profile \<and> fe_sha env data = fp_programmed_readback_sha256 profile)"

lemma tail_outcome:
  assumes "fo_then (fo_lift (readback_product (traced env) profile (fa_device args) path)) (fo_then (restart_application (traced env) profile) (fo_return b))
      (True, (w, tr)) = (Inr b', s')"
  obtains v evs where "s' = (False, (v, tr @ evs))" "readback_proved env args profile path evs" "b' = b"
proof -
  from assms obtain digest s1 where read: "readback_product (traced env) profile (fa_device args) path (w, tr) = (Inr digest, s1)"
    and rest: "fo_then (restart_application (traced env) profile) (fo_return b) (True, s1) = (Inr b', s')"
    by (rule lifted_returned)
  let ?read = "line env (readback_command profile (fa_device args) path)"
  from read obtain o1 e1 v1 v2 where s1: "s1 = (v2, tr @ [Ran ?read w (Ended 0 o1 e1) v1])" and mode: "fe_chmod env 384 path v1 = (True, v2)"
    and verified: "verify_programmed_readback (fe_sha env) (fe_files env v2) profile path = Inr digest"
    by (rule readback_outcome) blast
  from rest obtain u s2 where restart: "restart_application (traced env) profile (True, s1) = (Inr u, s2)" and "s' = s2" "b' = b"
    by (auto elim!: bind_returned simp: fo_return_def)
  from restart [unfolded s1] obtain o2 e2 v3 where
    "s2 = (False, (fe_sleep env (3 / 2) v3, (tr @ [Ran ?read w (Ended 0 o1 e1) v1]) @ [Ran (line env (ApplicationRestart (fp_target_id profile))) v2 (Ended 0 o2 e2) v3]))"
    by (rule restart_outcome)
  with \<open>s' = s2\<close> have s': "s' = (False, (fe_sleep env (3 / 2) v3, tr @ [Ran ?read w (Ended 0 o1 e1) v1,
      Ran (line env (ApplicationRestart (fp_target_id profile))) v2 (Ended 0 o2 e2) v3]))" by (simp only: append.assoc append.simps)
  from verified obtain data where "fe_files env v2 path = Some data" "int (length data) = fp_programmed_readback_bytes profile"
    "fe_sha env data = fp_programmed_readback_sha256 profile" unfolding verify_readback_iff by blast
  with mode have proved: "readback_proved env args profile path [Ran ?read w (Ended 0 o1 e1) v1,
      Ran (line env (ApplicationRestart (fp_target_id profile))) v2 (Ended 0 o2 e2) v3]" unfolding readback_proved_def by blast
  show ?thesis by (rule that [OF s' proved \<open>b' = b\<close>])
qed

lemma verified_outcome:
  assumes "verify_or_write (traced env) args profile backup_dir identity path (False, (w, tr)) = (Inr b, s')"
  obtains v evs final where "s' = (False, (v, tr @ evs @ final))" "readback_proved env args profile path final" "b \<longleftrightarrow> list_ex writes_flash evs"
proof (cases "identity = fp_expected_identity profile \<and> \<not> fa_force_reflash args")
  case True
  from assms [unfolded verify_or_write_def if_P [OF True]] obtain u s1 where
    enter: "bootloader_enter (traced env) profile (fa_device args) (False, (w, tr)) = (Inr u, s1)"
    and rest: "fo_then (fo_lift (readback_product (traced env) profile (fa_device args) path))
       (fo_then (restart_application (traced env) profile) (fo_return False)) s1 = (Inr b, s')" by (rule bind_returned)
  from enter obtain o1 e1 v o2 e2 w' where s1: "s1 = (True, (w', tr @ [Ran (line env (BootloaderEntry (fp_target_id profile))) w (Ended 0 o1 e1) v,
      Ran (line env (BootloaderInfo (fa_device args))) (fe_sleep env (1 / 2) v) (Ended 0 o2 e2) w']))" by (rule enter_outcome) blast
  from rest [unfolded s1] show ?thesis
    by (rule tail_outcome) (rule that, simp only: append.assoc, assumption, simp add: only_write_writes del: writes_flash.simps(1) command_line.simps)
next
  case False
  note run = assms [unfolded verify_or_write_def if_not_P [OF False]]
  then obtain directory where dir: "backup_dir = Some directory" by (cases backup_dir) (auto simp: fo_raise_def)
  let ?flashing = "WriteFlash (firmware_path (traced env) args profile) (fa_device args)"
  from run [unfolded dir option.case] obtain digest s1 where
    checked: "fo_verify (\<lambda>w. verify_stock_backup (fe_sha (traced env)) (fe_parse (traced env)) (fe_files (traced env) w) profile directory) (w, tr) = (Inr digest, s1)"
    and rest1: "fo_then (fo_lift (ask_confirmation (traced env) profile)) (fo_then (bootloader_enter (traced env) profile (fa_device args))
            (fo_then (fo_lift (run_checked (traced env) ?flashing)) (fo_then (fo_lift (readback_product (traced env) profile (fa_device args) path))
            (fo_then (restart_application (traced env) profile) (fo_return True))))) (False, s1) = (Inr b, s')"
    by (rule lifted_returned)
  from checked have s1: "s1 = (w, tr)" by (simp add: fo_verify_def)
  from rest1 obtain u s2 where asked: "ask_confirmation (traced env) profile s1 = (Inr u, s2)"
    and rest2: "fo_then (bootloader_enter (traced env) profile (fa_device args))
            (fo_then (fo_lift (run_checked (traced env) ?flashing)) (fo_then (fo_lift (readback_product (traced env) profile (fa_device args) path))
            (fo_then (restart_application (traced env) profile) (fo_return True)))) (False, s2) = (Inr b, s')"
    by (rule lifted_returned)
  from asked [unfolded s1] obtain answer w1 where s2: "s2 = (w1, tr @ [Asked (confirmation_prompt profile) w answer w1])" by (rule ask_outcome)
  from rest2 obtain u3 s3 where enter: "bootloader_enter (traced env) profile (fa_device args) (False, s2) = (Inr u3, s3)"
    and rest3: "fo_then (fo_lift (run_checked (traced env) ?flashing)) (fo_then (fo_lift (readback_product (traced env) profile (fa_device args) path))
            (fo_then (restart_application (traced env) profile) (fo_return True))) s3 = (Inr b, s')" by (rule bind_returned)
  from enter [unfolded s2] obtain w2 evs2 where s3: "s3 = (True, (w2, (tr @ [Asked (confirmation_prompt profile) w answer w1]) @ evs2))"
    by (rule enter_outcome) blast
  from rest3 [unfolded s3] obtain q s4 where wrote: "run_checked (traced env) ?flashing (w2, (tr @ [Asked (confirmation_prompt profile) w answer w1]) @ evs2) = (Inr q, s4)"
    and rest4: "fo_then (fo_lift (readback_product (traced env) profile (fa_device args) path))
            (fo_then (restart_application (traced env) profile) (fo_return True)) (True, s4) = (Inr b, s')" by (rule lifted_returned)
  from wrote obtain p w3 where s4: "s4 = (w3, ((tr @ [Asked (confirmation_prompt profile) w answer w1]) @ evs2) @ [Ran (line env ?flashing) w2 p w3])"
    by (rule checked_outcome)
  let ?evs = "[Asked (confirmation_prompt profile) w answer w1] @ evs2 @ [Ran (line env ?flashing) w2 p w3]"
  from rest4 [unfolded s4] show ?thesis
    by (rule tail_outcome) (rule that [of _ ?evs], simp only: append.assoc, assumption, simp add: only_write_writes del: writes_flash.simps(1) command_line.simps)
qed

lemma ready_outcome:
  assumes "write_ready_record (traced env) profile identity backup_dir b (w, tr) = (Inr x, s')"
  obtains v v' now w' where "s' = (w', tr)"
    "fe_write env (fp_state_record profile) (fe_dumps env (ready_document profile identity backup_dir b now)) v = (True, v')"
proof -
  from assms obtain w1 where made: "fo_os (fe_mkdir (traced env) True (parent_path (fp_state_record profile))) (w, tr) = (Inr (), (w1, tr))"
    and rest: "fo_bind (fo_query (fe_unix_time (traced env))) (\<lambda>now.
     fo_then (fo_os (fe_write (traced env) (fp_state_record profile) (fe_dumps (traced env) (ready_document profile identity backup_dir b now))))
       (fo_os (fe_chmod (traced env) 384 (fp_state_record profile)))) (w1, tr) = (Inr x, s')"
    unfolding write_ready_record_def by (rule bind_returned) (auto simp: fo_os_def traced_def split: prod.splits if_splits)
  from rest show ?thesis
    by (auto simp: fo_bind_def fo_query_def fo_os_def traced_def intro: that split: prod.splits if_splits)
qed

text \<open>
  What a successful deployment leaves: the main flash read back and equal to the qualified image, the application restarted and its identity the
  qualified one, and a record that says so, and says truly whether the flash was written.
\<close>

definition deployment_proved :: "'w flash_env \<Rightarrow> flash_args \<Rightarrow> firmware_profile \<Rightarrow> 'w flash_trace \<Rightarrow> bool" where
  "deployment_proved env args profile tr \<longleftrightarrow>
     (\<exists>before path final v0 out err v1 backup_dir now v2 v3.
        tr = before @ final @ [Ran (line env (ProbeHat (fa_device args))) v0 (Ended 0 out err) v1] \<and>
        readback_proved env args profile path final \<and>
        reported_identity env (fp_target_id profile) out = Inr (fp_expected_identity profile) \<and>
        fe_write env (fp_state_record profile)
          (fe_dumps env (ready_document profile (fp_expected_identity profile) backup_dir (list_ex writes_flash tr) now)) v2 = (True, v3))"

lemma finish_returned:
  assumes "fo_then (bootloader_cleanup (traced env) profile) (fo_lift (fo_os (fe_unlink (traced env) path))) (False, (w, tr)) = (Inr x, s')"
  obtains v where "s' = (False, (v, tr))"
  using assms by (auto simp: bootloader_cleanup_def fo_bind_def fo_lift_def fo_os_def traced_def intro: that split: prod.splits if_splits)

lemma deploy_success:
  assumes "flash_deploy (traced env) args profile target identity (w, tr) = (Inr x, s')" "list_all (\<lambda>e. \<not> writes_flash e) tr"
  shows "deployment_proved env args profile (snd s')"
proof -
  from assms(1) obtain u0 s0 d s1 backup_dir s2 path s3 b s4 post s5 u6 s6 where
    authorized: "fo_unless (fa_authorize args = fp_flash_authorization_token profile) NotAuthorized (w, tr) = (Inr u0, s0)"
    and artifact: "fo_verify (\<lambda>w. verify_artifact (fe_sha (traced env)) (fe_files (traced env) w) profile (firmware_path (traced env) args profile)) s0 = (Inr d, s1)"
    and select: "select_backup (traced env) args profile target identity s1 = (Inr backup_dir, s2)"
    and made: "make_temporary (traced env) s2 = (Inr path, s3)"
    and booted: "fo_let False
          (fo_finally (verify_or_write (traced env) args profile backup_dir identity path)
             (fo_then (bootloader_cleanup (traced env) profile) (fo_lift (fo_os (fe_unlink (traced env) path))))) s3 = (Inr b, s4)"
    and probed: "probe_identity (traced env) (fa_device args) (fp_target_id profile) s4 = (Inr post, s5)"
    and same: "fo_unless (post = fp_expected_identity profile) (PostIdentity post) s5 = (Inr u6, s6)"
    and ready: "write_ready_record (traced env) profile post backup_dir b s6 = (Inr x, s')"
    unfolding flash_deploy_def by (elim bind_returned) blast
  from authorized artifact have s1: "s1 = (w, tr)" by (auto simp: fo_unless_def fo_return_def fo_raise_def fo_verify_def split: if_splits)
  have "grown tr s2" by (rule keepsD [OF unwritten.keeps_select select [unfolded s1]]) simp_all
  then have "grown tr s3" by (rule keepsD [OF unwritten.application.keeps_mkstemp made])
  then obtain w3 evs where s3: "s3 = (w3, tr @ evs)" and quiet: "list_all (\<lambda>e. \<not> writes_flash e) evs" by (cases s3) (auto simp: grown_def)
  from booted [unfolded s3] obtain r1 a1 v1 r2 a2 where "verify_or_write (traced env) args profile backup_dir identity path (False, (w3, tr @ evs)) = (r1, (a1, v1))"
    and finish: "fo_then (bootloader_cleanup (traced env) profile) (fo_lift (fo_os (fe_unlink (traced env) path))) (a1, v1) = (r2, (a2, s4))"
    and "Inr b = (case r2 of Inl x \<Rightarrow> Inl x | Inr _ \<Rightarrow> r1)"
    by (rule booted_outcome)
  then obtain u2 where "verify_or_write (traced env) args profile backup_dir identity path (False, (w3, tr @ evs)) = (Inr b, (a1, v1))" and r2: "r2 = Inr u2"
    by (cases r2) auto
  then obtain v2 evs2 final where v1: "a1 = False" "v1 = (v2, (tr @ evs) @ evs2 @ final)" and final: "readback_proved env args profile path final"
    and b: "b \<longleftrightarrow> list_ex writes_flash evs2"
    by (auto elim: verified_outcome)
  from finish [unfolded v1 r2] obtain w4 where s4: "s4 = (w4, (tr @ evs) @ evs2 @ final)" by (rule finish_returned) simp
  from probed [unfolded s4] obtain w5 out err where
    s5: "s5 = (w5, ((tr @ evs) @ evs2 @ final) @ [Ran (line env (ProbeHat (fa_device args))) w4 (Ended 0 out err) w5])"
    and reported: "reported_identity env (fp_target_id profile) out = Inr post" by (rule probe_outcome) auto
  from same have s6: "s6 = s5" and post: "post = fp_expected_identity profile" by (auto simp: fo_unless_def fo_return_def fo_raise_def split: if_splits)
  let ?tr = "((tr @ evs) @ evs2 @ final) @ [Ran (line env (ProbeHat (fa_device args))) w4 (Ended 0 out err) w5]"
  from ready [unfolded s6 s5] obtain now v3 v4 w6 where s': "s' = (w6, ?tr)"
    and written: "fe_write env (fp_state_record profile) (fe_dumps env (ready_document profile post backup_dir b now)) v3 = (True, v4)"
    by (rule ready_outcome) blast
  from final have "\<not> list_ex writes_flash final" unfolding readback_proved_def
    by (auto simp: only_write_writes simp del: writes_flash.simps(1) command_line.simps)
  with quiet assms(2) b have b: "b = list_ex writes_flash ?tr"
    by (auto simp: list_all_iff list_ex_iff only_write_writes simp del: writes_flash.simps(1) command_line.simps)
  show ?thesis unfolding deployment_proved_def s' snd_conv
    by (rule exI [of _ "(tr @ evs) @ evs2"], rule exI [of _ path], rule exI [of _ final], rule exI [of _ w4], rule exI [of _ out], rule exI [of _ err],
        rule exI [of _ w5], rule exI [of _ backup_dir], rule exI [of _ now], rule exI [of _ v3], rule exI [of _ v4])
      (use final reported [unfolded post] written [unfolded post b] in \<open>simp only: append.assoc simp_thms\<close>)
qed

lemma owners_returned:
  assumes "stopped_known_modem_owners (traced env) device False body s = (Inr x, s')"
  obtains s1 where "grown (snd s) s1" "body s1 = (Inr x, s')"
proof -
  let ?whole = "fo_then (stop_units (traced env) KNOWN_MODEM_UNITS) (fo_then (fo_lift (fo_sleep (traced env) (1 / 4)))
      (fo_bind (fo_lift (uart_busy (traced env) device)) (\<lambda>busy.
         if busy then fo_then (fo_lift (run_unchecked (traced env) (FuserVerbose device))) (fo_raise (FlashError UartOwned)) else fo_lift body)))"
  obtain r1 l1 s1 where whole: "?whole ([], s) = (r1, (l1, s1))" by (rule prod_cases3)
  with assms have r1: "r1 = Inr x" "s1 = s'"
    by (auto simp: stopped_known_modem_owners_def fo_let_def fo_finally_def fo_lift_def fo_return_def)
  from whole [unfolded r1] show ?thesis by (rule owners_before) (simp_all add: that)
qed

lemma setup_fails: "fst (flash_setup env args w) = Inl x \<Longrightarrow> flash_main (traced env) args (w, tr) = (r, s') \<Longrightarrow> r \<noteq> Inr 0"
  by (auto simp: flash_main_def fo_bind_def setup_traced split: if_splits)

text \<open>
  C12. Success is proved on the modem. When the tool is asked to flash and exits with success, it has loaded a safe profile, read the main flash back and
  found octets of the size and the digest of the qualified image, restarted the application, and had it identify itself as the qualified firmware, in
  this order and at the end of everything it does; and the record it has written says truly whether the flash was written.
\<close>

theorem flash_success_proved:
  assumes "flash_main (traced env) args (w, []) = (Inr 0, (w', tr))" and "fa_mode args = ModeFlash"
  shows "\<exists>profile target. fst (flash_setup env args w) = Inr (profile, target) \<and> profile_ok profile \<and> deployment_proved env args profile tr"
proof (cases "fst (flash_setup env args w)")
  case (Inl x)
  from setup_fails [OF Inl assms(1)] show ?thesis by simp
next
  case (Inr pt)
  obtain profile target where pt: "pt = (profile, target)" by (rule prod.exhaust)
  obtain r1 s1 where owners: "stopped_known_modem_owners (traced env) (fa_device args) (fa_mode args \<noteq> ModeFlash)
      (flash_body (traced env) args profile target) (w, []) = (r1, s1)" by (rule prod.exhaust)
  with assms(1) Inr pt have s1: "s1 = (w', tr)" and "\<exists>x. r1 = Inr x"
    by (cases r1; auto simp: flash_main_def fo_bind_def setup_traced split: if_splits)+
  then obtain x where r1: "r1 = Inr x" by blast
  from owners assms(2) r1 s1 have "stopped_known_modem_owners (traced env) (fa_device args) False (flash_body (traced env) args profile target) (w, [])
      = (Inr x, (w', tr))" by simp
  then obtain s2 where "grown (snd (w, [])) s2" "flash_body (traced env) args profile target s2 = (Inr x, (w', tr))" by (rule owners_returned)
  then obtain w2 tr2 where "grown [] (w2, tr2)" and body: "flash_body (traced env) args profile target (w2, tr2) = (Inr x, (w', tr))"
    by (cases s2) simp
  then have quiet: "list_all (\<lambda>e. \<not> writes_flash e) tr2" by (simp add: grown_def)
  from body obtain identity s3 ok s4 u s5 where probed: "probe_identity (traced env) (fa_device args) (fp_target_id profile) (w2, tr2) = (Inr identity, s3)"
    and accepted: "accepted_identity (traced env) target identity s3 = (Inr ok, s4)"
    and allowed: "fo_unless ok IdentityNotAllowed s4 = (Inr u, s5)"
    and deploy: "flash_deploy (traced env) args profile target identity s5 = (Inr x, (w', tr))"
    unfolding flash_body_def assms(2) flash_mode.case by (elim bind_returned) blast
  from probed obtain v out err where s3: "s3 = (v, tr2 @ [Ran (line env (ProbeHat (fa_device args))) w2 (Ended 0 out err) v])"
    by (rule probe_outcome) blast
  from accepted allowed s3 have s5: "s5 = (v, tr2 @ [Ran (line env (ProbeHat (fa_device args))) w2 (Ended 0 out err) v])"
    by (auto simp: accepted_traced [of env target identity v _ v] fo_unless_def fo_return_def fo_raise_def split: if_splits)
  have "list_all (\<lambda>e. \<not> writes_flash e) (tr2 @ [Ran (line env (ProbeHat (fa_device args))) w2 (Ended 0 out err) v])"
    using quiet by (simp add: only_write_writes del: writes_flash.simps(1) command_line.simps)
  from deploy_success [OF deploy [unfolded s5] this] have "deployment_proved env args profile tr" by simp
  with Inr pt setup_profile [of env args w profile target] show ?thesis by simp
qed

subsection \<open>A run\<close>

definition example_profile :: firmware_profile where
  "example_profile =
     \<lparr>fp_product = ''YWD-MMDVM-TNC'', fp_series = ''AX25R4'', fp_qualified_core_commit = QUALIFIED_CORE_COMMIT,
      fp_qualified_core_tree = QUALIFIED_CORE_TREE, fp_target_id = PRODUCT_TARGET, fp_expected_identity = QUALIFIED_FIRMWARE_IDENTITY,
      fp_vendor_build_script = ''firmware/build-qualified-inrepo.py'', fp_artifact_relative_path = ''firmware/out/0c-p2-rssi-ax25r4-x.bin'',
      fp_artifact_size_bytes = 3, fp_artifact_sha256 = replicate 64 (CHR ''a''), fp_flash_base = ''0x08000000'', fp_programmed_readback_bytes = 3,
      fp_programmed_readback_sha256 = replicate 64 (CHR ''a''), fp_stock_flash_size_bytes = 2, fp_stock_flash_sha256 = replicate 64 (CHR ''b''),
      fp_expected_bootloader_version = ''0x22'', fp_expected_device_id = ''0x0410'', fp_flash_authorization_token = ''FLASH'',
      fp_final_write_confirmation = ''WRITE'', fp_state_record = ''/ready.json''\<rparr>"

definition example_parse :: json_parser where
  "example_parse data =
     (if data = [1] then Inr (JObj (profile_document example_profile))
      else if data = [2] then
        Inr (JObj [(''source_commit'', JStr QUALIFIED_CORE_COMMIT),
                   (''support_files'', JList (map (\<lambda>rel. JObj [(''path'', JStr rel), (''sha256'', JStr ''c'')]) support_files))])
      else if data = [3] then
        Inr (JObj [(''targets'', JList [JObj [(''id'', JStr PRODUCT_TARGET),
                                             (''accepted_running_identities'', JList [JStr QUALIFIED_FIRMWARE_IDENTITY])]])])
      else if data = [4] then Inr (JObj (backup_document example_profile ''stock'' ''/dev/m'' (replicate 64 (CHR ''b'')) 0))
      else Inl NotJson)"

definition example_files :: file_system where
  "example_files = map_of
     [(''/r/firmware/product-ax25r4.json'', [1]), (''/r/qualification/fwm3-runtime-vendor-manifest.json'', [2]),
      (''/r/firmware/targets.json'', [3]), (''/r/firmware/hat_control.py'', [9]), (''/r/firmware/probe_hat.py'', [9]),
      (''/b/manifest.json'', [4]), (''/b/original-flash.bin'', [8, 8]), (''/f.bin'', [7, 7, 7]), (''/t.bin'', [7, 7, 7])]"

text \<open>A modem that runs the qualified firmware already, and is flashed again.\<close>

definition example_env :: "unit flash_env" where
  "example_env =
     \<lparr>fe_python = ''py'', fe_at = ''/r'', fe_euid = 0, fe_which = (\<lambda>_. True),
      fe_sha = (\<lambda>data. if data = [7, 7, 7] then replicate 64 (CHR ''a'') else if data = [8, 8] then replicate 64 (CHR ''b'') else ''c''),
      fe_parse = example_parse,
      fe_loads = (\<lambda>out. Some (JObj [(''matched_target_ids'', JList [JStr PRODUCT_TARGET]), (''rf_configured'', JBool False),
                                  (''flash_written'', JBool False), (''identity'', JStr QUALIFIED_FIRMWARE_IDENTITY)])),
      fe_dumps = (\<lambda>_. []), fe_text = (\<lambda>_. []), fe_files = (\<lambda>_. example_files), fe_exists = (\<lambda>_ _. True),
      fe_subdirectories = (\<lambda>_ _. None),
      fe_run = (\<lambda>argv w.
        (if take 1 argv = [''systemctl''] then Ended 3 [] [] else if take 1 argv = [''fuser''] then Ended 1 [] []
         else if take 1 argv = [''stm32flash''] \<and> length argv = 4 then Ended 0 ''Version : 0x22, Device ID : 0x0410 (STM32)'' [] else Ended 0 [] [], w)),
      fe_input = (\<lambda>_ w. (Some '' WRITE '', w)), fe_sleep = (\<lambda>_ w. w), fe_mkdir = (\<lambda>_ _ w. (True, w)), fe_chmod = (\<lambda>_ _ w. (True, w)),
      fe_write = (\<lambda>_ _ w. (True, w)), fe_copy = (\<lambda>_ _ w. (True, w)), fe_unlink = (\<lambda>_ w. (True, w)), fe_mkstemp = (\<lambda>w. (Some ''/t.bin'', w)),
      fe_timestamp = (\<lambda>_. ''now''), fe_unix_time = (\<lambda>_. 0)\<rparr>"

definition example_args :: flash_args where
  "example_args =
     \<lparr>fa_mode = ModeFlash, fa_device = ''/dev/m'', fa_firmware = ''/f.bin'', fa_stock_backup_dir = ''/b'', fa_authorize = ''FLASH'',
      fa_force_reflash = True\<rparr>"

definition example_trace :: "unit flash_trace" where
  "example_trace = snd (snd (flash_main (traced example_env) example_args ((), [])))"

lemma example_evaluated:
  "case flash_main (traced example_env) example_args ((), []) of (r, _, tr) \<Rightarrow> r = Inr 0 \<and> list_ex writes_flash tr"
  by code_simp

lemma example_main: "flash_main (traced example_env) example_args ((), []) = (Inr 0, ((), example_trace))" "list_ex writes_flash example_trace"
  using example_evaluated by (auto simp: example_trace_def split: prod.splits)

theorem flash_write_guarded_witness:
  "\<exists>before e after profile target v p v'. example_trace = before @ e # after \<and> writes_flash e \<and>
    fst (flash_setup example_env example_args ()) = Inr (profile, target) \<and> profile_ok profile \<and>
    e = Ran (line example_env (WriteFlash (firmware_path example_env example_args profile) (fa_device example_args))) v p v' \<and>
    write_cleared example_env example_args profile target before v \<and> list_all (\<lambda>e. \<not> writes_flash e) (before @ after)"
proof -
  from example_main(2) obtain e where "e \<in> set example_trace" and e: "writes_flash e" by (auto simp: list_ex_iff)
  then obtain before after where tr: "example_trace = before @ e # after" by (meson split_list)
  from flash_write_guarded [OF example_main(1) tr e] tr e show ?thesis by blast
qed

theorem flash_success_proved_witness:
  "\<exists>profile target. fst (flash_setup example_env example_args ()) = Inr (profile, target) \<and> profile_ok profile \<and>
    deployment_proved example_env example_args profile example_trace"
  by (rule flash_success_proved [OF example_main(1)]) (simp add: example_args_def)

end
