(* ===== verification/Spec2Isabelle.thy ===== *)
theory Spec2Isabelle
  imports Access_Queue Kiss_Server Serial_Port Agw Daemon Tx_Monitor Flash_Trace
begin

text \<open>
  A verification library for YWD-MMDVM-TNC, a packet-radio terminal node controller in Python that
  drives an MMDVM modem. Paths below are relative to \<open>src/src\<close>.

  \<^bold>\<open>The program.\<close> One thread owns the modem's serial port and executes typed requests. A runtime
  thread reads packed one-bit samples from it, decodes Bell-202 tones to AX.25 frames and publishes
  them to KISS clients over TCP; it also samples the received signal strength for the transmit
  queue. Clients send KISS messages: parameters go to a session, data frames of port 0 are admitted
  to a bounded queue. The head of the queue runs p-persistent channel access over the RSSI samples;
  once it may transmit, a half-duplex coordinator stops reception, has the frame serialised to tone
  selectors and sent as one burst, waits for the transmitter to fall idle and restarts reception. It
  refuses to go on when it cannot prove that reception is active again.

  \<^bold>\<open>The theories\<close>, each with the source it models; the state of a class is a record, its methods are
  functions on the record, raised exceptions are values of a sum, and the operations of a device or of a
  clock are arguments over a world state.

  \<^item> \<open>Prelude\<close>: results, streams, runs of events, and the locales that carry the generic arguments:
    stream decoders, invariants, latches, machines that hand out each number once, balanced books.
    \<open>Py_Text\<close>: the string methods of Python that the sources use.
  \<^item> \<open>Ax25_Codec\<close> (\<open>ywd1278/ax25/codec.py\<close>): addresses, check sequence, UI frames, the frame parser.
  \<^item> \<open>Bell202_Tx\<close> (\<open>ywd1278/phy/bell202_tx.py\<close>): bit order, stuffing, flags, NRZI, packed selectors.
    \<open>Bell202_Rx\<close> (\<open>ywd1278/phy/bell202_rx.py\<close>): the streaming receiver; \<open>Rx_Acquisition\<close> puts its parts
    together along one timing hypothesis.
  \<^item> \<open>Kiss_Framing\<close>, \<open>Kiss_Server\<close>, \<open>Kiss_Control\<close>, \<open>Kiss_Tx_Path\<close>, \<open>Kiss_Backend\<close>
    (\<open>ywd1278/kiss/\<close>: \<open>framing.py\<close>, \<open>server.py\<close>, \<open>control.py\<close>, \<open>tx_path.py\<close>, \<open>tx_backend.py\<close> and
    \<open>sustained.py\<close>): the wire format, the receive side of the server, the parameter session, the data
    queue, and the backend that connects them.
  \<^item> \<open>Modem_Protocol\<close> (\<open>ywd1278/modem/protocol.py\<close>, \<open>rx_config.py\<close>, \<open>tx_config.py\<close>,
    \<open>ywdtnc/rf_profiles.py\<close>): requests and responses. \<open>Modem_Port\<close>: the typed operations of a modem
    as an interface. \<open>Modem_Owner\<close> (\<open>modem/owner.py\<close>, \<open>modem/tx_owner.py\<close>, \<open>rf_profiles.py\<close>):
    the queue and the thread that provide it over a transport.
  \<^item> \<open>Csma\<close>, \<open>Channel_Busy\<close>, \<open>Channel_Access\<close>, \<open>Access_Queue\<close> (\<open>ywd1278/tx/\<close>, and
    \<open>service/live_channel_access.py\<close>): the access policy, the busy detector, both composed, and the
    bounded queue in front of them.
  \<^item> \<open>Tx_Broker\<close>, \<open>Half_Duplex\<close>, \<open>Contextual\<close> (\<open>ywd1278/tx/\<close>: \<open>txdelay.py\<close>, \<open>broker.py\<close>,
    \<open>half_duplex.py\<close>, \<open>contextual.py\<close>): serialisation and its worker, the half-duplex cycle, and
    the router that gives each request the preamble of its own parameters.
  \<^item> \<open>Tnc_System\<close> (\<open>ywdtnc/engine.py\<close>): the transmit path from client to transport as one system.
    \<open>Tnc_Runtime\<close> (\<open>ywd1278/service/tnc_runtime.py\<close>): the worker that reads, decodes, publishes, samples the
    channel and serves the queue, over any modem and any queue. \<open>Tnc_Service\<close>: that worker over the
    transmit path, with clients between any two of its operations.
  \<^item> \<open>Serial_Port\<close> (\<open>ywd1278/modem/_serial.py\<close>): the transport, over an operating system.
  \<^item> \<open>Agw\<close> (\<open>ywdtnc/agw/\<close>), \<open>Monitor\<close> (\<open>ywdtnc/monitor.py\<close>): the two other client planes.
  \<^item> \<open>Tnc_Config\<close> (\<open>ywdtnc/config.py\<close>): the loader of the configuration. \<open>Engine\<close> (\<open>ywdtnc/engine.py\<close>): the engine
    that constructs, starts, watches and stops all of it. \<open>Daemon\<close> (\<open>ywdtnc/tncd.py\<close>): the loop that runs it.
    \<open>Tx_Monitor\<close> (\<open>ywdtnc/monitor_tx.py\<close>): the wrappers that tell the monitor of transmissions.
  \<^item> \<open>Firmware\<close> (\<open>ywdtnc/firmware.py\<close>): the profile of the qualified firmware, the verification of the artifact, the backup and the
    readback. \<open>Flash_Tool\<close> (\<open>src/firmware/qualified_flash.py\<close>): the program that writes the firmware, over an environment of files,
    subprocesses, terminal and clock, and what its operations keep. \<open>Flash_Trace\<close>: its behaviour over an environment that records.

  \<^bold>\<open>What is shown.\<close> Codecs are exact inverses on exactly the words they accept, under any chunking
  of a stream. The state machines keep their invariants under every sequence of events, and where
  threads meet, under every interleaving: bursts and calls go out once and in order, books balance, memory
  is bounded, and a failed cycle that leaves the receiver unproved latches. A request is handed
  downstream only after its policy has heard a clear slot. The optimised parts of the receiver
  (rings, schedule, precomputed windows) agree with a search of the whole history, and a clean burst
  is recovered whatever came before it. An exchange on the serial line is characterised outcome by outcome. End to
  end, a frame reported as dispatched is on the wire exactly as a client sent it, in a burst that only a permitted
  request can be; an engine configured to receive never writes a request that transmits, an engine
  starts whole or not at all, and however the daemon ends nothing of its engine is left. The monitor changes nothing of the
  transmit path and tells each request's life as it is, unless two producers race. The flashing tool writes at most once, only after everything
  it demands was proved, succeeds only with the qualified octets read back, and always leaves the boot ROM.

  \<^bold>\<open>Loops.\<close> The wait for an idle transmitter and the loops of the serial port may run forever with a clock that stands
  still and are partial functions to an option; with a clock that advances they are proved to return. The symbol loop of the
  receiver has as fuel the number of symbols that ended, and is proved to stop because nothing is due. The
  other loops are structural.

  \<^bold>\<open>Idealisations.\<close> Times are rational numbers, correlations real ones, where the source has floats. A
  call that waits for a thread is the schedule in which the thread serves its queue meanwhile; the
  separate steps of caller and thread are there for the theorems about interleavings. Digests, random octets,
  clocks and the transport are parameters.

  \<^bold>\<open>Not modelled.\<close> Sockets, threads, and the TOML and JSON parsers are of the standard library and are parameters or events. Left out are
  the receive-only runtime, which no program starts; the packet log and the web interface, separate processes that only read the monitor
  stream; the programs that probe the modem and set its GPIO lines, which are subprocesses of the flashing tool and give any result in its
  model; the bench runs and the command lines; and the build scripts, the installer and the vendored C++ sources.
\<close>

end
